(* ===== verification/Prelude.thy ===== *)
theory Prelude
  imports Main "HOL-Library.Word" "HOL-Library.Char_ord" "HOL-Library.List_Lexorder"
    "HOL-Library.AList" "HOL-Library.Multiset"
begin

text \<open>
  What the component theories share: results of fallible Go functions, machine words,
  instants and durations, the standard-library helpers the source calls (comparison,
  sorting with a comparison function, decimal formatting, white-space trimming), and the
  collections of rewrite rules the component proofs run on.
\<close>

section \<open>Rewrite collections\<close>

text \<open>
  \<open>go_eval\<close> collects what evaluates a closed model term, \<open>u64_nat\<close> what turns a
  comparison of \<open>uint64\<close> values into one of natural numbers, \<open>result_split\<close> the
  inversion rules of error-returning code.
\<close>

named_theorems go_eval
named_theorems u64_nat
named_theorems result_split

section \<open>Results of fallible functions\<close>

text \<open>
  A Go function that returns \<open>(value, error)\<close> returns \<open>Inl\<close> of an error value or
  \<open>Inr\<close> of the result. \<open>and_then\<close> is the early return on a non-nil error.
\<close>

fun and_then :: "'e + 'a \<Rightarrow> ('a \<Rightarrow> 'e + 'b) \<Rightarrow> 'e + 'b" where
  "and_then (Inl e) k = Inl e"
| "and_then (Inr x) k = k x"

fun map_error :: "('e \<Rightarrow> 'f) \<Rightarrow> 'e + 'a \<Rightarrow> 'f + 'a" where
  "map_error g (Inl e) = Inl (g e)"
| "map_error g (Inr x) = Inr x"

fun is_ok :: "'e + 'a \<Rightarrow> bool" where
  "is_ok (Inl e) = False"
| "is_ok (Inr x) = True"

lemma and_then_Inr [result_split]:
  "and_then m k = Inr y \<longleftrightarrow> (\<exists>x. m = Inr x \<and> k x = Inr y)"
  by (cases m) auto

lemma and_then_Inl [result_split]:
  "and_then m k = Inl e \<longleftrightarrow> m = Inl e \<or> (\<exists>x. m = Inr x \<and> k x = Inl e)"
  by (cases m) auto

lemma map_error_Inr [result_split, simp]: "map_error g m = Inr y \<longleftrightarrow> m = Inr y"
  by (cases m) auto

lemma map_error_Inl [result_split]:
  "map_error g m = Inl e \<longleftrightarrow> (\<exists>d. m = Inl d \<and> e = g d)"
  by (cases m) auto

lemma is_ok_iff: "is_ok m \<longleftrightarrow> (\<exists>x. m = Inr x)"
  by (cases m) auto

text \<open>A loop that stops at the first error and collects the results.\<close>

fun collect :: "('a \<Rightarrow> 'e + 'b) \<Rightarrow> 'a list \<Rightarrow> 'e + 'b list" where
  "collect f [] = Inr []"
| "collect f (x # xs) = and_then (f x) (\<lambda>y. and_then (collect f xs) (\<lambda>ys. Inr (y # ys)))"

lemma collect_Inr:
  "collect f xs = Inr ys \<longleftrightarrow> list_all2 (\<lambda>x y. f x = Inr y) xs ys"
proof (induction xs arbitrary: ys)
  case Nil
  then show ?case by auto
next
  case (Cons x xs)
  then show ?case by (auto simp: and_then_Inr list_all2_Cons1)
qed

lemma collect_Inr_map: "(\<And>x. x \<in> set xs \<Longrightarrow> f x = Inr (g x)) \<Longrightarrow> collect f xs = Inr (map g xs)"
  by (induction xs) auto

text \<open>A slice with its indices, as \<open>for index, value := range xs\<close> visits it.\<close>

definition indexed :: "'a list \<Rightarrow> (nat \<times> 'a) list" where
  "indexed xs = zip [0..<length xs] xs"

lemma length_indexed [simp]: "length (indexed xs) = length xs"
  by (simp add: indexed_def)

lemma nth_indexed [simp]: "i < length xs \<Longrightarrow> indexed xs ! i = (i, xs ! i)"
  by (simp add: indexed_def)

lemma set_indexed: "set (indexed xs) = {(i, xs ! i) | i. i < length xs}"
  by (force simp: indexed_def set_zip)

section \<open>Machine integers\<close>

type_synonym u64 = "64 word"

lemma u64_bound [simp, u64_nat]: "unat (x :: u64) < 18446744073709551616"
  using unsigned_less [of x] by simp

lemma u64_le_iff [u64_nat]: "(x :: u64) \<le> y \<longleftrightarrow> unat x \<le> unat y"
  by (simp add: word_le_nat_alt)

lemma u64_less_iff [u64_nat]: "(x :: u64) < y \<longleftrightarrow> unat x < unat y"
  by (simp add: word_less_nat_alt)

lemma u64_eq_iff: "(x :: u64) = y \<longleftrightarrow> unat x = unat y"
  by (simp add: word_unat_eq_iff)

lemma unat_u64_max [simp]: "unat (- 1 :: u64) = 18446744073709551615"
  by (simp add: unsigned_minus_1_eq_mask mask_eq_exp_minus_1)

lemma unat_u64_max_minus: "unat (- 1 - x :: u64) = 18446744073709551615 - unat x"
proof -
  have "x \<le> - 1" by simp
  then show ?thesis by (simp add: unat_sub)
qed

text \<open>The overflow test the source writes as \<open>left > ^uint64(0)-right\<close>.\<close>

lemma u64_add_overflow [u64_nat]:
  "(- 1 - y :: u64) < x \<longleftrightarrow> 18446744073709551616 \<le> unat x + unat y"
proof -
  have "unat y < 18446744073709551616" by simp
  then show ?thesis by (simp only: u64_less_iff unat_u64_max_minus) arith
qed

lemma unat_u64_add: "unat (x + y :: u64) = (unat x + unat y) mod 18446744073709551616"
  by (simp add: unat_word_ariths)

lemma unat_u64_add_exact:
  "unat x + unat y < 18446744073709551616 \<Longrightarrow> unat (x + y :: u64) = unat x + unat y"
  by (simp add: unat_u64_add)

lemma unat_u64_mult_exact:
  "unat x * unat y < 18446744073709551616 \<Longrightarrow> unat (x * y :: u64) = unat x * unat y"
  by (simp add: unat_word_ariths)

lemma unat_u64_sub: "y \<le> x \<Longrightarrow> unat (x - y :: u64) = unat x - unat y"
  by (simp add: unat_sub)

lemma unat_u64_of_nat: "n < 18446744073709551616 \<Longrightarrow> unat (word_of_nat n :: u64) = n"
  by (simp add: unat_of_nat)

text \<open>
  Go's \<open>int\<close> has 64 bits on every platform the program builds for. Indices, layer
  numbers and counters are modelled as \<open>int\<close>; where the source adds values it does not
  bound, the sum is wrapped explicitly.
\<close>

definition wrap_int :: "int \<Rightarrow> int" where
  "wrap_int n = (n + 2 ^ 63) mod 2 ^ 64 - 2 ^ 63"

lemma wrap_int_id: "- (2 ^ 63) \<le> n \<Longrightarrow> n < 2 ^ 63 \<Longrightarrow> wrap_int n = n"
  by (simp add: wrap_int_def)

text \<open>Go's integer division and remainder truncate towards zero.\<close>

definition go_div :: "int \<Rightarrow> int \<Rightarrow> int" where
  "go_div a b = sgn a * sgn b * (\<bar>a\<bar> div \<bar>b\<bar>)"

definition go_mod :: "int \<Rightarrow> int \<Rightarrow> int" where
  "go_mod a b = a - b * go_div a b"

lemma go_div_nonneg: "0 \<le> a \<Longrightarrow> 0 < b \<Longrightarrow> go_div a b = a div b"
  by (cases "a = 0") (auto simp: go_div_def)

lemma go_mod_nonneg: "0 \<le> a \<Longrightarrow> 0 < b \<Longrightarrow> go_mod a b = a mod b"
  by (simp add: go_mod_def go_div_nonneg minus_mult_div_eq_mod)

section \<open>Instants and durations\<close>

text \<open>
  A \<open>time.Time\<close> is the number of nanoseconds since Go's zero time, so \<open>IsZero\<close> is
  equality with 0, \<open>Before\<close>, \<open>After\<close> and \<open>Equal\<close> are the order of the integers, and
  \<open>UTC\<close> (which only changes the presentation) is the identity. A \<open>time.Duration\<close> is
  a number of nanoseconds; \<open>Sub\<close> saturates at the ends of its 64-bit range.
\<close>

type_synonym instant = int
type_synonym duration = int

definition max_duration :: duration where
  "max_duration = 9223372036854775807"

definition millisecond :: duration where
  "millisecond = 1000000"

definition second :: duration where
  "second = 1000000000"

definition minute :: duration where
  "minute = 60000000000"

definition time_sub :: "instant \<Rightarrow> instant \<Rightarrow> duration" where
  "time_sub a b = max (- max_duration - 1) (min max_duration (a - b))"

lemma time_sub_le_iff:
  "b \<le> a \<Longrightarrow> 0 < d \<Longrightarrow> d < max_duration \<Longrightarrow> time_sub a b \<le> d \<longleftrightarrow> a - b \<le> d"
  by (auto simp: time_sub_def max_duration_def)

text \<open>\<open>Duration.Milliseconds\<close> truncates towards zero.\<close>

definition milliseconds :: "duration \<Rightarrow> int" where
  "milliseconds d = sgn d * (\<bar>d\<bar> div millisecond)"

lemma milliseconds_nonneg: "0 \<le> d \<Longrightarrow> milliseconds d = d div millisecond"
  by (cases "d = 0") (auto simp: milliseconds_def)

lemmas duration_defs = max_duration_def millisecond_def second_def minute_def

section \<open>Ordered comparison and sorting\<close>

text \<open>
  \<open>cmp.Compare\<close> and \<open>strings.Compare\<close>: the sign of the order. Go strings are byte
  strings, compared byte by byte, as \<open>string\<close> is with the lexicographic order on lists.
\<close>

definition go_compare :: "'a :: linorder \<Rightarrow> 'a \<Rightarrow> int" where
  "go_compare x y = (if x < y then - 1 else if y < x then 1 else 0)"

text \<open>
  \<open>for _, pair := range pairs { if order := compare(pair); order != 0 { return order } }\<close>
\<close>

fun first_nonzero :: "int list \<Rightarrow> int" where
  "first_nonzero [] = 0"
| "first_nonzero (x # xs) = (if x \<noteq> 0 then x else first_nonzero xs)"

text \<open>
  \<open>slices.SortFunc\<close> sorts by a comparison function. Its result is determined whenever
  elements that compare equal are equal or their order does not matter; the model keeps
  the original order of such elements.
\<close>

fun insert_by :: "('a \<Rightarrow> 'a \<Rightarrow> int) \<Rightarrow> 'a \<Rightarrow> 'a list \<Rightarrow> 'a list" where
  "insert_by c x [] = [x]"
| "insert_by c x (y # ys) = (if c x y \<le> 0 then x # y # ys else y # insert_by c x ys)"

fun sort_by :: "('a \<Rightarrow> 'a \<Rightarrow> int) \<Rightarrow> 'a list \<Rightarrow> 'a list" where
  "sort_by c [] = []"
| "sort_by c (x # xs) = insert_by c x (sort_by c xs)"

lemma mset_insert_by [simp]: "mset (insert_by c x xs) = add_mset x (mset xs)"
  by (induction xs) auto

lemma mset_sort_by [simp]: "mset (sort_by c xs) = mset xs"
  by (induction xs) auto

lemma set_sort_by [simp]: "set (sort_by c xs) = set xs"
  by (metis mset_sort_by set_mset_mset)

lemma length_sort_by [simp]: "length (sort_by c xs) = length xs"
  by (metis mset_sort_by size_mset)

lemma distinct_sort_by [simp]: "distinct (sort_by c xs) = distinct xs"
  by (metis mset_sort_by mset_eq_imp_distinct_iff)

lemma distinct_map_sort_by [simp]: "distinct (map f (sort_by c xs)) = distinct (map f xs)"
  by (metis mset_map mset_sort_by mset_eq_imp_distinct_iff)

text \<open>
  The contract a comparison function has to meet for \<open>slices.SortFunc\<close> and for the
  selection of a best element: swapping the arguments swaps the sign, and \<open>at most\<close> is
  transitive.
\<close>

locale comparison =
  fixes cmp :: "'a \<Rightarrow> 'a \<Rightarrow> int"
  assumes cmp_swap: "0 < cmp y x \<longleftrightarrow> cmp x y < 0"
    and cmp_trans: "cmp x y \<le> 0 \<Longrightarrow> cmp y z \<le> 0 \<Longrightarrow> cmp x z \<le> 0"
begin

lemma cmp_self [simp]: "cmp x x = 0"
  using cmp_swap [of x x] by linarith

lemma cmp_total: "cmp x y \<le> 0 \<or> cmp y x \<le> 0"
  using cmp_swap [of x y] by linarith

lemma cmp_zero_swap: "cmp x y = 0 \<longleftrightarrow> cmp y x = 0"
  using cmp_swap [of x y] cmp_swap [of y x] by linarith

lemma cmp_not_less: "\<not> cmp x y < 0 \<longleftrightarrow> cmp y x \<le> 0"
  using cmp_swap [of y x] by linarith

lemma cmp_le_less_trans: "cmp x y \<le> 0 \<Longrightarrow> cmp y z < 0 \<Longrightarrow> cmp x z < 0"
  using cmp_trans [of z x y] cmp_not_less cmp_swap by (metis not_less)

lemma cmp_less_le_trans: "cmp x y < 0 \<Longrightarrow> cmp y z \<le> 0 \<Longrightarrow> cmp x z < 0"
  using cmp_trans [of y z x] cmp_not_less cmp_swap by (metis not_less)

lemma sorted_insert_by:
  "sorted_wrt (\<lambda>a b. cmp a b \<le> 0) xs \<Longrightarrow> sorted_wrt (\<lambda>a b. cmp a b \<le> 0) (insert_by cmp x xs)"
proof (induction xs)
  case Nil
  then show ?case by simp
next
  case (Cons y ys)
  have set: "set (insert_by cmp x ys) = insert x (set ys)"
    by (metis mset_insert_by set_mset_mset set_mset_add_mset_insert)
  show ?case
  proof (cases "cmp x y \<le> 0")
    case True
    with Cons.prems show ?thesis by (auto intro: cmp_trans)
  next
    case False
    then have "cmp y x \<le> 0" using cmp_total by blast
    with False Cons set show ?thesis by auto
  qed
qed

lemma sorted_sort_by: "sorted_wrt (\<lambda>a b. cmp a b \<le> 0) (sort_by cmp xs)"
  by (induction xs) (auto intro: sorted_insert_by)

lemma sorted_mset_unique:
  assumes "sorted_wrt (\<lambda>a b. cmp a b \<le> 0) xs" and "sorted_wrt (\<lambda>a b. cmp a b \<le> 0) ys"
    and "mset xs = mset ys" and "\<And>x y. x \<in> set xs \<Longrightarrow> y \<in> set xs \<Longrightarrow> cmp x y = 0 \<Longrightarrow> x = y"
  shows "xs = ys"
  using assms
proof (induction xs arbitrary: ys)
  case Nil
  then show ?case by simp
next
  case (Cons x xs)
  obtain y ys' where ys: "ys = y # ys'" using Cons.prems(3) by (cases ys) auto
  have set: "set (x # xs) = set (y # ys')" using Cons.prems(3) ys by (metis mset_eq_setD)
  have "x = y"
  proof (rule ccontr)
    assume "x \<noteq> y"
    with set have "x \<in> set ys'" "y \<in> set xs" by auto
    then have "cmp y x \<le> 0" "cmp x y \<le> 0" using Cons.prems(1,2) ys by auto
    then have "cmp x y = 0" using cmp_not_less [of x y] cmp_swap [of y x] by auto
    with \<open>x \<noteq> y\<close> Cons.prems(4) set show False by auto
  qed
  moreover have "xs = ys'"
    by (rule Cons.IH) (use Cons.prems ys \<open>x = y\<close> in auto)
  ultimately show ?case by (simp add: ys)
qed

lemma sort_by_cong:
  assumes "mset xs = mset ys" and "\<And>x y. x \<in> set xs \<Longrightarrow> y \<in> set xs \<Longrightarrow> cmp x y = 0 \<Longrightarrow> x = y"
  shows "sort_by cmp xs = sort_by cmp ys"
  by (rule sorted_mset_unique) (use assms in \<open>auto simp: sorted_sort_by\<close>)

end

lemma comparison_go_compare: "comparison (\<lambda>x y. go_compare (f x) (f y))"
  by unfold_locales (auto simp: go_compare_def split: if_splits)

lemma comparison_first:
  assumes "comparison c" and "comparison d"
  shows "comparison (\<lambda>x y. if c x y \<noteq> 0 then c x y else d x y)"
proof -
  have c: "\<And>x y. 0 < c y x \<longleftrightarrow> c x y < 0" "\<And>x y z. c x y \<le> 0 \<Longrightarrow> c y z \<le> 0 \<Longrightarrow> c x z \<le> 0"
    using assms(1) by (auto simp: comparison_def)
  have d: "\<And>x y. 0 < d y x \<longleftrightarrow> d x y < 0" "\<And>x y z. d x y \<le> 0 \<Longrightarrow> d y z \<le> 0 \<Longrightarrow> d x z \<le> 0"
    using assms(2) by (auto simp: comparison_def)
  have c0: "\<And>x y. c x y = 0 \<longleftrightarrow> c y x = 0" using c(1) by (metis linorder_cases less_irrefl)
  show ?thesis
  proof unfold_locales
    fix x y
    show "0 < (if c y x \<noteq> 0 then c y x else d y x) \<longleftrightarrow> (if c x y \<noteq> 0 then c x y else d x y) < 0"
      using c(1) [of y x] d(1) [of y x] c0 [of x y] by auto
  next
    fix x y z
    assume xy: "(if c x y \<noteq> 0 then c x y else d x y) \<le> 0"
      and yz: "(if c y z \<noteq> 0 then c y z else d y z) \<le> 0"
    then have le: "c x y \<le> 0" "c y z \<le> 0" by (auto split: if_splits)
    then have xz: "c x z \<le> 0" by (rule c(2))
    show "(if c x z \<noteq> 0 then c x z else d x z) \<le> 0"
    proof (cases "c x z = 0")
      case False
      with xz show ?thesis by simp
    next
      case True
      then have "c z x \<le> 0" using c0 [of z x] by simp
      with le have "c y x \<le> 0" "c z y \<le> 0" by (blast intro: c(2))+
      with le c(1) have "c x y = 0" "c y z = 0" by (metis antisym not_less)+
      with xy yz True show ?thesis by (auto intro: d(2))
    qed
  qed
qed

lemma comparison_first_nonzero:
  "(\<And>c. c \<in> set cs \<Longrightarrow> comparison c) \<Longrightarrow> comparison (\<lambda>x y. first_nonzero (map (\<lambda>c. c x y) cs))"
proof (induction cs)
  case Nil
  then show ?case by (unfold_locales) auto
next
  case (Cons c cs)
  then have "comparison (\<lambda>x y. if c x y \<noteq> 0 then c x y else first_nonzero (map (\<lambda>c. c x y) cs))"
    by (intro comparison_first) auto
  then show ?case by simp
qed

text \<open>The shape of the source's comparison chains.\<close>

lemma comparison_chain_end: "comparison (\<lambda>x y. first_nonzero [])"
  by unfold_locales auto

lemma comparison_chain:
  assumes "comparison c" and "comparison (\<lambda>x y. first_nonzero (cs x y))"
  shows "comparison (\<lambda>x y. first_nonzero (c x y # cs x y))"
  using comparison_first [OF assms] by simp

lemmas comparison_intros = comparison_chain comparison_chain_end comparison_go_compare

lemma comparison_inv_image: "comparison c \<Longrightarrow> comparison (\<lambda>x y. c (f x) (f y))"
  unfolding comparison_def by blast

section \<open>Text\<close>

text \<open>\<open>fmt\<close>'s \<open>%d\<close> and \<open>strconv.FormatUint(n, 10)\<close>.\<close>

fun decimal_nat :: "nat \<Rightarrow> string" where
  "decimal_nat n =
     (if n < 10 then [''0123456789'' ! n] else decimal_nat (n div 10) @ [''0123456789'' ! (n mod 10)])"

declare decimal_nat.simps [simp del]

definition decimal :: "int \<Rightarrow> string" where
  "decimal n = (if n < 0 then CHR ''-'' # decimal_nat (nat (- n)) else decimal_nat (nat n))"

definition digit_value :: "char \<Rightarrow> nat" where
  "digit_value c = of_char c - 48"

lemma digit_value_nth: "d < 10 \<Longrightarrow> digit_value (''0123456789'' ! d) = d"
  by (auto simp: digit_value_def less_Suc_eq numeral_eq_Suc)

lemma digit_nth: "d < 10 \<Longrightarrow> ''0123456789'' ! d \<in> set ''0123456789''"
  by (rule nth_mem) simp

lemma decimal_nat_digits: "set (decimal_nat n) \<subseteq> set ''0123456789''"
proof (induction n rule: decimal_nat.induct)
  case (1 n)
  show ?case
  proof (cases "n < 10")
    case True
    then show ?thesis using digit_nth by (subst decimal_nat.simps) simp
  next
    case False
    with "1.IH" show ?thesis
      using digit_nth [of "n mod 10"] by (subst decimal_nat.simps) simp
  qed
qed

fun read_decimal :: "string \<Rightarrow> nat" where
  "read_decimal s = foldl (\<lambda>n c. 10 * n + digit_value c) 0 s"

lemma read_decimal_nat [simp]: "read_decimal (decimal_nat n) = n"
proof (induction n rule: decimal_nat.induct)
  case (1 n)
  then show ?case by (subst decimal_nat.simps) (auto simp: digit_value_nth)
qed

lemma decimal_nat_inj [simp]: "decimal_nat m = decimal_nat n \<longleftrightarrow> m = n"
  by (metis read_decimal_nat)

lemma decimal_nat_nonempty [simp]: "decimal_nat n \<noteq> []"
  by (subst decimal_nat.simps) simp

lemma decimal_inj: "0 \<le> m \<Longrightarrow> 0 \<le> n \<Longrightarrow> decimal m = decimal n \<longleftrightarrow> m = n"
  by (auto simp: decimal_def)

lemma decimal_no_dash: "0 \<le> n \<Longrightarrow> CHR ''-'' \<notin> set (decimal n)"
  using decimal_nat_digits [of "nat n"] by (auto simp: decimal_def)

text \<open>
  Two texts that agree up to the first separator, where neither prefix contains the
  separator, have the same prefix and the same rest.
\<close>

lemma append_separator_eq:
  "x \<notin> set xs \<Longrightarrow> x \<notin> set ys \<Longrightarrow> xs @ x # us = ys @ x # vs \<longleftrightarrow> xs = ys \<and> us = vs"
proof (induction xs arbitrary: ys)
  case Nil
  then show ?case by (cases ys) auto
next
  case (Cons a xs)
  then show ?case by (cases ys) auto
qed

text \<open>
  \<open>strings.TrimSpace\<close> removes leading and trailing Unicode white space. \<open>white_space\<close>
  lists the UTF-8 encodings of the runes \<open>unicode.IsSpace\<close> accepts.
\<close>

definition byte_string :: "nat list \<Rightarrow> string" where
  "byte_string = map char_of"

definition white_space :: "string list" where
  "white_space = map byte_string
     ([[9], [10], [11], [12], [13], [32], [0xC2, 0x85], [0xC2, 0xA0], [0xE1, 0x9A, 0x80]]
      @ map (\<lambda>b. [0xE2, 0x80, b])
          [0x80, 0x81, 0x82, 0x83, 0x84, 0x85, 0x86, 0x87, 0x88, 0x89, 0x8A, 0xA8, 0xA9, 0xAF]
      @ [[0xE2, 0x81, 0x9F], [0xE3, 0x80, 0x80]])"

definition strip_prefix :: "string list \<Rightarrow> string \<Rightarrow> string option" where
  "strip_prefix ps s =
     (case List.find (\<lambda>p. take (length p) s = p) ps of None \<Rightarrow> None | Some p \<Rightarrow> Some (drop (length p) s))"

lemma find_SomeD: "List.find P xs = Some x \<Longrightarrow> x \<in> set xs \<and> P x"
  by (induction xs) (auto split: if_splits)

lemma strip_prefix_shorter:
  assumes "[] \<notin> set ps" and "strip_prefix ps s = Some t"
  shows "length t < length s"
proof -
  from assms(2) obtain p where p: "List.find (\<lambda>p. take (length p) s = p) ps = Some p"
    and t: "t = drop (length p) s"
    by (auto simp: strip_prefix_def split: option.splits)
  from p have "p \<in> set ps" "take (length p) s = p"
    by (auto dest: find_SomeD)
  with assms(1) t show ?thesis by (cases p; cases s) auto
qed

function trim_left :: "string list \<Rightarrow> string \<Rightarrow> string" where
  "trim_left ps s =
     (if [] \<in> set ps then s
      else case strip_prefix ps s of None \<Rightarrow> s | Some t \<Rightarrow> trim_left ps t)"
  by pat_completeness auto
termination
  by (relation "measure (\<lambda>(ps, s). length s)") (auto dest: strip_prefix_shorter)

declare trim_left.simps [simp del]

definition trim_space :: "string \<Rightarrow> string" where
  "trim_space s =
     rev (trim_left (map rev white_space) (rev (trim_left white_space s)))"

text \<open>Trimming is idempotent and never lengthens its argument.\<close>

lemma strip_prefix_None: "strip_prefix ps s = None \<longleftrightarrow> (\<forall>p \<in> set ps. take (length p) s \<noteq> p)"
  by (force simp: strip_prefix_def find_None_iff dest: find_SomeD split: option.splits)

lemma strip_prefix_None_shorter:
  "strip_prefix ps (s @ u) = None \<Longrightarrow> strip_prefix ps s = None"
proof -
  assume a: "strip_prefix ps (s @ u) = None"
  have "take (length p) (s @ u) = p" if "take (length p) s = p" for p
  proof -
    from that have "length p \<le> length s" by (metis length_take min.cobounded1)
    with that show ?thesis by simp
  qed
  with a show ?thesis by (auto simp: strip_prefix_None)
qed

lemma trim_left_stop: "strip_prefix ps s = None \<Longrightarrow> trim_left ps s = s"
  by (subst trim_left.simps) simp

lemma trim_left_stripped: "[] \<notin> set ps \<Longrightarrow> strip_prefix ps (trim_left ps s) = None"
proof (induction ps s rule: trim_left.induct)
  case (1 ps s)
  then show ?case
    by (subst trim_left.simps) (auto split: option.splits)
qed

lemma trim_left_suffix: "\<exists>u. s = u @ trim_left ps s"
proof (induction ps s rule: trim_left.induct)
  case (1 ps s)
  show ?case
  proof (cases "[] \<in> set ps \<or> strip_prefix ps s = None")
    case True
    then show ?thesis by (subst trim_left.simps) auto
  next
    case False
    then obtain t where t: "strip_prefix ps s = Some t" and ps: "[] \<notin> set ps" by auto
    then obtain n where "s = take n s @ t"
      by (auto simp: strip_prefix_def split: option.splits) (metis append_take_drop_id)
    moreover obtain u where "t = u @ trim_left ps t" using "1.IH" t ps by blast
    moreover have "trim_left ps s = trim_left ps t"
      using t ps by (subst trim_left.simps) simp
    ultimately show ?thesis by (metis append.assoc)
  qed
qed

lemma white_space_nonempty: "[] \<notin> set white_space" "[] \<notin> set (map rev white_space)"
  by (simp_all add: white_space_def byte_string_def)

lemma trim_space_stripped:
  "strip_prefix white_space (trim_space s) = None"
  "strip_prefix (map rev white_space) (rev (trim_space s)) = None"
proof -
  define l where "l = trim_left white_space s"
  define r where "r = trim_left (map rev white_space) (rev l)"
  have l: "strip_prefix white_space l = None"
    unfolding l_def by (rule trim_left_stripped) (rule white_space_nonempty)
  obtain u where "rev l = u @ r" using trim_left_suffix unfolding r_def by blast
  then have "l = rev r @ rev u" by (metis rev_append rev_rev_ident)
  with l show "strip_prefix white_space (trim_space s) = None"
    unfolding trim_space_def l_def [symmetric] r_def [symmetric]
    by (metis strip_prefix_None_shorter)
  show "strip_prefix (map rev white_space) (rev (trim_space s)) = None"
    unfolding trim_space_def l_def [symmetric] r_def [symmetric] rev_rev_ident
    unfolding r_def by (rule trim_left_stripped) (rule white_space_nonempty)
qed

lemma trim_space_idem [simp]: "trim_space (trim_space s) = trim_space s"
proof -
  have "trim_left white_space (trim_space s) = trim_space s"
    by (rule trim_left_stop) (rule trim_space_stripped)
  moreover have "trim_left (map rev white_space) (rev (trim_space s)) = rev (trim_space s)"
    by (rule trim_left_stop) (rule trim_space_stripped)
  ultimately show ?thesis by (subst trim_space_def) simp
qed

lemma length_trim_left: "length (trim_left ps s) \<le> length s"
  using trim_left_suffix [of s ps] by (metis length_append le_add2)

lemma length_trim_space: "length (trim_space s) \<le> length s"
  using length_trim_left [of "map rev white_space" "rev (trim_left white_space s)"]
    length_trim_left [of white_space s] by (simp add: trim_space_def)

text \<open>
  A text whose first and last bytes are visible ASCII characters is unchanged, which is
  also how a closed instance is evaluated.
\<close>

definition visible :: "char \<Rightarrow> bool" where
  "visible c \<longleftrightarrow> c \<in> set ''abcdefghijklmnopqrstuvwxyzABCDEFGHIJKLMNOPQRSTUVWXYZ0123456789-._:+/''"

definition visible_ends :: "string \<Rightarrow> bool" where
  "visible_ends s \<longleftrightarrow> s = [] \<or> visible (hd s) \<and> visible (last s)"

lemma white_space_invisible:
  "\<forall>p \<in> set white_space. \<not> visible (hd p) \<and> \<not> visible (last p)"
  by code_simp

lemma strip_prefix_visible:
  assumes "[] \<notin> set ps" and "\<forall>p \<in> set ps. \<not> visible (hd p)" and "s = [] \<or> visible (hd s)"
  shows "strip_prefix ps s = None"
  unfolding strip_prefix_None
proof
  fix p assume p: "p \<in> set ps"
  then have "p \<noteq> []" "\<not> visible (hd p)" using assms(1,2) by auto
  with assms(3) show "take (length p) s \<noteq> p"
    by (cases p; cases s) auto
qed

lemma trim_space_visible: "visible_ends s \<Longrightarrow> trim_space s = s"
proof -
  assume v: "visible_ends s"
  have "strip_prefix white_space s = None"
    using v white_space_invisible white_space_nonempty
    by (intro strip_prefix_visible) (auto simp: visible_ends_def)
  then have "trim_left white_space s = s" by (rule trim_left_stop)
  moreover have "strip_prefix (map rev white_space) (rev s) = None"
    using v white_space_invisible white_space_nonempty
    by (intro strip_prefix_visible) (auto simp: visible_ends_def hd_rev)
  then have "trim_left (map rev white_space) (rev s) = rev s" by (rule trim_left_stop)
  ultimately show ?thesis by (simp add: trim_space_def)
qed

lemma trim_space_code [code]:
  "trim_space s = (if visible_ends s then s
     else rev (trim_left (map rev white_space) (rev (trim_left white_space s))))"
  using trim_space_visible [of s] by (auto simp: trim_space_def)

lemma trim_space_eval [go_eval]: "visible_ends s \<Longrightarrow> trim_space s = s"
  by (rule trim_space_visible)

lemmas visible_eval = visible_ends_def visible_def

end
