(* ===== verification/Execution_Plan.thy ===== *)
theory Execution_Plan
  imports Prelude
begin

text \<open>
  The execution plan of a distributed generation (\<open>internal/generation/execution_plan.go\<close>):
  an ordered list of stages that split a model's transformer layers among workers, the
  builder, the balanced split, the derived identities, and the validator that every
  consumer of a plan runs before model state is loaded.
\<close>

section \<open>Data\<close>

record execution_model =
  em_ID :: string
  em_checkpointFingerprint :: string
  em_layerCount :: int

record execution_stage =
  es_name :: string
  es_targetID :: string
  es_shardID :: string
  es_layerStart :: int
  es_layerEnd :: int
  es_ownsInput :: bool
  es_ownsOutput :: bool
  es_responseMode :: string

record execution_plan =
  ep_schemaVersion :: string
  ep_revision :: string
  ep_inventoryRevision :: string
  ep_model :: execution_model
  ep_stages :: "execution_stage list"

definition executionPlanSchemaVersion :: string where
  "executionPlanSchemaVersion = ''2''"

definition stageResponseTensor :: string where
  "stageResponseTensor = ''tensor''"

definition stageResponseSampledToken :: string where
  "stageResponseSampledToken = ''sampledToken''"

lemmas plan_constants [go_eval] =
  executionPlanSchemaVersion_def stageResponseTensor_def stageResponseSampledToken_def

text \<open>What the revision and the shard identity digest, as the source's local structs.\<close>

record revision_stage =
  rs_name :: string
  rs_targetID :: string
  rs_layerStart :: int
  rs_layerEnd :: int
  rs_ownsInput :: bool
  rs_ownsOutput :: bool
  rs_responseMode :: string

record revision_payload =
  rp_schemaVersion :: string
  rp_inventoryRevision :: string
  rp_model :: execution_model
  rp_stages :: "revision_stage list"

record shard_payload =
  sp_schemaVersion :: string
  sp_model :: execution_model
  sp_layerStart :: int
  sp_layerEnd :: int
  sp_ownsInput :: bool
  sp_ownsOutput :: bool

text \<open>
  The hexadecimal SHA-256 digest of the JSON encoding of a payload is a parameter of the
  model: every theorem holds for any pair of functions in its place.
\<close>

record digests =
  plan_digest :: "revision_payload \<Rightarrow> string"
  shard_digest :: "shard_payload \<Rightarrow> string"

datatype plan_error =
    UnsupportedSchema string
  | ModelIDRequired
  | FingerprintRequired
  | LayerCountNotPositive
  | NoStages
  | TooManyStages int int
  | StageUnnamed nat
  | StageNameDuplicated string
  | StageWithoutTarget nat
  | TargetDuplicated string
  | StageWithoutShard nat
  | ShardDuplicated string
  | StageStartsAt nat int int
  | StageRangeInvalid nat int int
  | StageBeyondModel nat int int
  | InputOwnership nat bool
  | OutputOwnership nat bool
  | UnsupportedResponseMode nat string
  | IntermediateResponseMode nat string
  | PlanEndsAt int int
  | RevisionMismatch string string
  | ShardMismatch nat string string
  | TargetsRequired
  | StageCountExceedsLayers int int
  | ShardModelIncomplete
  | ShardRangeInvalid int int int
  | ShardOwnershipMismatch

section \<open>Identities\<close>

definition revisionStage :: "execution_stage \<Rightarrow> revision_stage" where
  "revisionStage s =
     \<lparr>rs_name = es_name s, rs_targetID = es_targetID s,
      rs_layerStart = es_layerStart s, rs_layerEnd = es_layerEnd s,
      rs_ownsInput = es_ownsInput s, rs_ownsOutput = es_ownsOutput s,
      rs_responseMode = es_responseMode s\<rparr>"

definition revisionPayload :: "execution_plan \<Rightarrow> revision_payload" where
  "revisionPayload p =
     \<lparr>rp_schemaVersion = ep_schemaVersion p, rp_inventoryRevision = ep_inventoryRevision p,
      rp_model = ep_model p, rp_stages = map revisionStage (ep_stages p)\<rparr>"

definition executionPlanRevision :: "digests \<Rightarrow> execution_plan \<Rightarrow> string" where
  "executionPlanRevision dg p = plan_digest dg (revisionPayload p)"

text \<open>\<open>hex.EncodeToString(digest[:6])\<close> is the first twelve digits of the digest.\<close>

definition executionShardID :: "digests \<Rightarrow> execution_model \<Rightarrow> execution_stage \<Rightarrow> string" where
  "executionShardID dg m s =
     ''generate-shard-'' @ decimal (es_layerStart s) @ ''-'' @ decimal (es_layerEnd s) @ ''-'' @
     take 12 (shard_digest dg
       \<lparr>sp_schemaVersion = executionPlanSchemaVersion, sp_model = m,
        sp_layerStart = es_layerStart s, sp_layerEnd = es_layerEnd s,
        sp_ownsInput = es_ownsInput s, sp_ownsOutput = es_ownsOutput s\<rparr>)"

definition deriveExecutionShardID ::
  "digests \<Rightarrow> execution_model \<Rightarrow> int \<Rightarrow> int \<Rightarrow> bool \<Rightarrow> bool \<Rightarrow> plan_error + string" where
  "deriveExecutionShardID dg m layerStart layerEnd ownsInput ownsOutput =
     (if em_ID m = [] \<or> em_checkpointFingerprint m = [] \<or> em_layerCount m \<le> 0
      then Inl ShardModelIncomplete
      else if layerStart < 0 \<or> layerEnd \<le> layerStart \<or> em_layerCount m < layerEnd
      then Inl (ShardRangeInvalid layerStart layerEnd (em_layerCount m))
      else if ownsInput \<noteq> (layerStart = 0) \<or> ownsOutput \<noteq> (layerEnd = em_layerCount m)
      then Inl ShardOwnershipMismatch
      else Inr (executionShardID dg m
        \<lparr>es_name = [], es_targetID = [], es_shardID = [],
         es_layerStart = layerStart, es_layerEnd = layerEnd,
         es_ownsInput = ownsInput, es_ownsOutput = ownsOutput, es_responseMode = []\<rparr>))"

definition finalizeExecutionPlan :: "digests \<Rightarrow> execution_plan \<Rightarrow> execution_plan" where
  "finalizeExecutionPlan dg p =
     p\<lparr>ep_revision := executionPlanRevision dg p,
       ep_stages := map (\<lambda>s. s\<lparr>es_shardID := executionShardID dg (ep_model p) s\<rparr>) (ep_stages p)\<rparr>"

section \<open>Validation\<close>

text \<open>
  The loop over the stages: the number of stages \<open>n\<close> and the model's layer count are
  fixed; \<open>names\<close>, \<open>targets\<close> and \<open>shards\<close> are the identities seen so far and
  \<open>expectedStart\<close> the end of the previous stage.
\<close>

fun validateStages ::
  "int \<Rightarrow> nat \<Rightarrow> nat \<Rightarrow> string list \<Rightarrow> string list \<Rightarrow> string list \<Rightarrow> int \<Rightarrow>
   execution_stage list \<Rightarrow> plan_error + int" where
  "validateStages layers n index names targets shards expectedStart [] = Inr expectedStart"
| "validateStages layers n index names targets shards expectedStart (s # rest) =
     (if es_name s = [] then Inl (StageUnnamed index)
      else if es_name s \<in> set names then Inl (StageNameDuplicated (es_name s))
      else if es_targetID s = [] then Inl (StageWithoutTarget index)
      else if es_targetID s \<in> set targets then Inl (TargetDuplicated (es_targetID s))
      else if es_shardID s = [] then Inl (StageWithoutShard index)
      else if es_shardID s \<in> set shards then Inl (ShardDuplicated (es_shardID s))
      else if es_layerStart s \<noteq> expectedStart
      then Inl (StageStartsAt index (es_layerStart s) expectedStart)
      else if es_layerEnd s \<le> es_layerStart s
      then Inl (StageRangeInvalid index (es_layerStart s) (es_layerEnd s))
      else if layers < es_layerEnd s then Inl (StageBeyondModel index (es_layerEnd s) layers)
      else if es_ownsInput s \<noteq> (index = 0) then Inl (InputOwnership index (es_ownsInput s))
      else let wantOutput = (Suc index = n) in
        if es_ownsOutput s \<noteq> wantOutput then Inl (OutputOwnership index (es_ownsOutput s))
        else if wantOutput \<and> es_responseMode s \<noteq> stageResponseTensor
          \<and> es_responseMode s \<noteq> stageResponseSampledToken
        then Inl (UnsupportedResponseMode index (es_responseMode s))
        else if \<not> wantOutput \<and> es_responseMode s \<noteq> stageResponseTensor
        then Inl (IntermediateResponseMode index (es_responseMode s))
        else validateStages layers n (Suc index) (es_name s # names) (es_targetID s # targets)
          (es_shardID s # shards) (es_layerEnd s) rest)"

fun checkShardIDs :: "digests \<Rightarrow> execution_model \<Rightarrow> nat \<Rightarrow> execution_stage list \<Rightarrow> plan_error + unit" where
  "checkShardIDs dg m index [] = Inr ()"
| "checkShardIDs dg m index (s # rest) =
     (if es_shardID s \<noteq> executionShardID dg m s
      then Inl (ShardMismatch index (es_shardID s) (executionShardID dg m s))
      else checkShardIDs dg m (Suc index) rest)"

definition validateExecutionPlan :: "digests \<Rightarrow> execution_plan \<Rightarrow> plan_error + unit" where
  "validateExecutionPlan dg p =
     (let m = ep_model p; stages = ep_stages p in
      if ep_schemaVersion p \<noteq> executionPlanSchemaVersion
      then Inl (UnsupportedSchema (ep_schemaVersion p))
      else if em_ID m = [] then Inl ModelIDRequired
      else if em_checkpointFingerprint m = [] then Inl FingerprintRequired
      else if em_layerCount m \<le> 0 then Inl LayerCountNotPositive
      else if stages = [] then Inl NoStages
      else if em_layerCount m < int (length stages)
      then Inl (TooManyStages (int (length stages)) (em_layerCount m))
      else and_then (validateStages (em_layerCount m) (length stages) 0 [] [] [] 0 stages)
        (\<lambda>expectedStart.
          if expectedStart \<noteq> em_layerCount m then Inl (PlanEndsAt expectedStart (em_layerCount m))
          else if ep_revision p \<noteq> executionPlanRevision dg p
          then Inl (RevisionMismatch (ep_revision p) (executionPlanRevision dg p))
          else checkShardIDs dg m 0 stages))"

section \<open>Construction\<close>

definition buildExecutionPlan ::
  "digests \<Rightarrow> execution_model \<Rightarrow> string \<Rightarrow> execution_stage list \<Rightarrow> plan_error + execution_plan" where
  "buildExecutionPlan dg m inventoryRevision stages =
     (let p = finalizeExecutionPlan dg
        \<lparr>ep_schemaVersion = executionPlanSchemaVersion, ep_revision = [],
         ep_inventoryRevision = inventoryRevision, ep_model = m, ep_stages = stages\<rparr>
      in and_then (validateExecutionPlan dg p) (\<lambda>_. Inr p))"

fun balancedStages ::
  "int \<Rightarrow> int \<Rightarrow> nat \<Rightarrow> string \<Rightarrow> nat \<Rightarrow> int \<Rightarrow> string list \<Rightarrow> execution_stage list" where
  "balancedStages base remainder n terminal index start [] = []"
| "balancedStages base remainder n terminal index start (targetID # rest) =
     (let size = (if int index < remainder then base + 1 else base);
          stop = start + size;
          final = (Suc index = n)
      in \<lparr>es_name = ''stage-'' @ decimal (int index), es_targetID = targetID, es_shardID = [],
          es_layerStart = start, es_layerEnd = stop,
          es_ownsInput = (index = 0), es_ownsOutput = final,
          es_responseMode = (if final then terminal else stageResponseTensor)\<rparr>
         # balancedStages base remainder n terminal (Suc index) stop rest)"

definition buildBalancedExecutionPlan ::
  "digests \<Rightarrow> execution_model \<Rightarrow> string list \<Rightarrow> string \<Rightarrow> plan_error + execution_plan" where
  "buildBalancedExecutionPlan dg m targetIDs terminalResponseMode =
     (let n = length targetIDs in
      if targetIDs = [] then Inl TargetsRequired
      else if 0 < em_layerCount m \<and> em_layerCount m < int n
      then Inl (StageCountExceedsLayers (int n) (em_layerCount m))
      else buildExecutionPlan dg m []
        (balancedStages (go_div (em_layerCount m) (int n)) (go_mod (em_layerCount m) (int n))
          n terminalResponseMode 0 0 targetIDs))"

text \<open>The two-stage shape of the earlier producer/consumer schema.\<close>

record shard_range =
  sh_ID :: string
  sh_layerStart :: int
  sh_layerEnd :: int

record shard_plan =
  sp_producer :: shard_range
  sp_consumer :: shard_range

definition shardRange :: "execution_stage \<Rightarrow> shard_range" where
  "shardRange s =
     \<lparr>sh_ID = es_shardID s, sh_layerStart = es_layerStart s, sh_layerEnd = es_layerEnd s\<rparr>"

definition legacyShardPlan :: "execution_plan \<Rightarrow> shard_plan option" where
  "legacyShardPlan p =
     (case ep_stages p of
        [producer, consumer] \<Rightarrow>
          Some \<lparr>sp_producer = shardRange producer, sp_consumer = shardRange consumer\<rparr>
      | _ \<Rightarrow> None)"

section \<open>What a valid plan is\<close>

text \<open>
  The contract in declarative form: the stages chain from layer 0 to the layer count
  without gap or overlap, identities are present and unique, ownership and response mode
  follow the position, and the digests match the contents.
\<close>

fun chained :: "int \<Rightarrow> execution_stage list \<Rightarrow> bool" where
  "chained start [] = True"
| "chained start (s # rest) =
     (es_layerStart s = start \<and> start < es_layerEnd s \<and> chained (es_layerEnd s) rest)"

fun chain_end :: "int \<Rightarrow> execution_stage list \<Rightarrow> int" where
  "chain_end start [] = start"
| "chain_end start (s # rest) = chain_end (es_layerEnd s) rest"

definition covers :: "execution_stage \<Rightarrow> int \<Rightarrow> bool" where
  "covers s layer \<longleftrightarrow> es_layerStart s \<le> layer \<and> layer < es_layerEnd s"

definition stage_role_ok :: "nat \<Rightarrow> nat \<Rightarrow> execution_stage \<Rightarrow> bool" where
  "stage_role_ok n i s \<longleftrightarrow>
     es_ownsInput s = (i = 0) \<and> es_ownsOutput s = (Suc i = n) \<and>
     (if Suc i = n then es_responseMode s \<in> {stageResponseTensor, stageResponseSampledToken}
      else es_responseMode s = stageResponseTensor)"

fun roles_ok :: "nat \<Rightarrow> nat \<Rightarrow> execution_stage list \<Rightarrow> bool" where
  "roles_ok n i [] = True"
| "roles_ok n i (s # rest) = (stage_role_ok n i s \<and> roles_ok n (Suc i) rest)"

definition identities_ok :: "(execution_stage \<Rightarrow> string) \<Rightarrow> execution_stage list \<Rightarrow> bool" where
  "identities_ok f ss \<longleftrightarrow> [] \<notin> f ` set ss \<and> distinct (map f ss)"

definition valid_plan :: "digests \<Rightarrow> execution_plan \<Rightarrow> bool" where
  "valid_plan dg p \<longleftrightarrow>
     ep_schemaVersion p = executionPlanSchemaVersion \<and>
     em_ID (ep_model p) \<noteq> [] \<and> em_checkpointFingerprint (ep_model p) \<noteq> [] \<and>
     ep_stages p \<noteq> [] \<and>
     chained 0 (ep_stages p) \<and> chain_end 0 (ep_stages p) = em_layerCount (ep_model p) \<and>
     identities_ok es_name (ep_stages p) \<and> identities_ok es_targetID (ep_stages p) \<and>
     identities_ok es_shardID (ep_stages p) \<and>
     roles_ok (length (ep_stages p)) 0 (ep_stages p) \<and>
     ep_revision p = executionPlanRevision dg p \<and>
     (\<forall>s \<in> set (ep_stages p). es_shardID s = executionShardID dg (ep_model p) s)"

section \<open>Lemmas\<close>

lemma chain_end_ge: "chained start ss \<Longrightarrow> start + int (length ss) \<le> chain_end start ss"
  by (induction start ss rule: chained.induct) auto

lemma chained_bounds:
  "chained start ss \<Longrightarrow> s \<in> set ss \<Longrightarrow>
   start \<le> es_layerStart s \<and> es_layerStart s < es_layerEnd s \<and> es_layerEnd s \<le> chain_end start ss"
proof (induction start ss rule: chained.induct)
  case (1 start)
  then show ?case by simp
next
  case (2 start t rest)
  then show ?case using chain_end_ge [of "es_layerEnd t" rest] by auto
qed

lemma chained_covers_once:
  "chained start ss \<Longrightarrow> start \<le> l \<Longrightarrow> l < chain_end start ss \<Longrightarrow> \<exists>!i. i < length ss \<and> covers (ss ! i) l"
proof (induction start ss rule: chained.induct)
  case (1 start)
  then show ?case by simp
next
  case (2 start s rest)
  show ?case
  proof (cases "l < es_layerEnd s")
    case True
    have "\<not> covers t l" if "t \<in> set rest" for t
      using chained_bounds [of "es_layerEnd s" rest t] that True 2(2) by (auto simp: covers_def)
    then have "\<not> covers ((s # rest) ! i) l" if "i < length (s # rest)" "i \<noteq> 0" for i
      using that by (cases i) auto
    moreover have "covers s l" using True 2(2,3) by (auto simp: covers_def)
    ultimately show ?thesis by (metis length_Cons nth_Cons_0 zero_less_Suc)
  next
    case False
    then obtain i where i: "i < length rest" "covers (rest ! i) l"
      and unique: "\<And>j. j < length rest \<Longrightarrow> covers (rest ! j) l \<Longrightarrow> j = i"
      using 2 by (auto simp: Ex1_def)
    have "\<not> covers s l" using False by (auto simp: covers_def)
    then have "\<And>j. j < length (s # rest) \<Longrightarrow> covers ((s # rest) ! j) l \<Longrightarrow> j = Suc i"
      using unique by (case_tac j) auto
    then show ?thesis using i by (intro ex1I [of _ "Suc i"]) auto
  qed
qed

lemma validateStages_Inr:
  "validateStages layers n i names targets shards e ss = Inr r \<longleftrightarrow>
     chained e ss \<and> r = chain_end e ss \<and> (\<forall>s \<in> set ss. es_layerEnd s \<le> layers) \<and>
     identities_ok es_name ss \<and> es_name ` set ss \<inter> set names = {} \<and>
     identities_ok es_targetID ss \<and> es_targetID ` set ss \<inter> set targets = {} \<and>
     identities_ok es_shardID ss \<and> es_shardID ` set ss \<inter> set shards = {} \<and>
     roles_ok n i ss"
proof (induction layers n i names targets shards e ss rule: validateStages.induct)
  case (1 layers n index names targets shards expectedStart)
  then show ?case by (auto simp: identities_ok_def)
next
  case (2 layers n index names targets shards expectedStart s rest)
  note IH = 2
  show ?case
  proof (cases "es_name s \<noteq> [] \<and> es_name s \<notin> set names \<and> es_targetID s \<noteq> [] \<and>
      es_targetID s \<notin> set targets \<and> es_shardID s \<noteq> [] \<and> es_shardID s \<notin> set shards \<and>
      es_layerStart s = expectedStart \<and> es_layerStart s < es_layerEnd s \<and>
      es_layerEnd s \<le> layers \<and> stage_role_ok n index s")
    case False
    then show ?thesis
      by (auto simp: Let_def identities_ok_def stage_role_ok_def split: if_splits)
  next
    case True
    then have step: "validateStages layers n index names targets shards expectedStart (s # rest) =
        validateStages layers n (Suc index) (es_name s # names) (es_targetID s # targets)
          (es_shardID s # shards) (es_layerEnd s) rest"
      by (auto simp: Let_def stage_role_ok_def split: if_splits)
    have "\<not> es_name s = []" "es_name s \<notin> set names" using True by auto
    with True IH show ?thesis
      unfolding step by (auto simp: identities_ok_def stage_role_ok_def Let_def split: if_splits)
  qed
qed

lemma checkShardIDs_Inr:
  "checkShardIDs dg m i ss = Inr u \<longleftrightarrow> (\<forall>s \<in> set ss. es_shardID s = executionShardID dg m s)"
  by (induction dg m i ss rule: checkShardIDs.induct) auto

lemma valid_plan_bounds:
  assumes "valid_plan dg p"
  shows "int (length (ep_stages p)) \<le> em_layerCount (ep_model p)" "0 < em_layerCount (ep_model p)"
    "s \<in> set (ep_stages p) \<Longrightarrow> es_layerEnd s \<le> em_layerCount (ep_model p)"
proof -
  have c: "chained 0 (ep_stages p)" "chain_end 0 (ep_stages p) = em_layerCount (ep_model p)"
    and ne: "ep_stages p \<noteq> []"
    using assms by (auto simp: valid_plan_def)
  show "int (length (ep_stages p)) \<le> em_layerCount (ep_model p)" "0 < em_layerCount (ep_model p)"
    using chain_end_ge [OF c(1)] c(2) ne by (cases "ep_stages p"; auto)+
  show "s \<in> set (ep_stages p) \<Longrightarrow> es_layerEnd s \<le> em_layerCount (ep_model p)"
    using chained_bounds [OF c(1)] c(2) by auto
qed

lemma validate_iff: "validateExecutionPlan dg p = Inr () \<longleftrightarrow> valid_plan dg p"
proof
  assume "validateExecutionPlan dg p = Inr ()"
  then show "valid_plan dg p"
    by (auto simp: validateExecutionPlan_def valid_plan_def Let_def and_then_Inr
        validateStages_Inr checkShardIDs_Inr split: if_splits)
next
  assume v: "valid_plan dg p"
  note b = valid_plan_bounds [OF v]
  from v b show "validateExecutionPlan dg p = Inr ()"
    by (auto simp: validateExecutionPlan_def valid_plan_def Let_def and_then_Inr
        validateStages_Inr checkShardIDs_Inr intro!: exI)
qed

text \<open>
  The shard identity spells out its range, so stages with different starts have
  different shards whatever the digest is.
\<close>

lemma executionShardID_start:
  assumes "executionShardID dg m s = executionShardID dg m' t"
    and "0 \<le> es_layerStart s" "0 \<le> es_layerStart t"
  shows "es_layerStart s = es_layerStart t"
proof -
  have "decimal (es_layerStart s) = decimal (es_layerStart t)"
    using assms by (auto simp: executionShardID_def append_separator_eq decimal_no_dash)
  then show ?thesis using assms(2,3) by (simp add: decimal_inj)
qed

lemma executionShardID_nonempty [simp]: "executionShardID dg m s \<noteq> []"
  by (simp add: executionShardID_def)

lemma executionShardID_shard [simp]:
  "executionShardID dg m (s\<lparr>es_shardID := x\<rparr>) = executionShardID dg m s"
  by (simp add: executionShardID_def)

lemma executionShardID_fields:
  "es_layerStart s = es_layerStart t \<Longrightarrow> es_layerEnd s = es_layerEnd t \<Longrightarrow>
   es_ownsInput s = es_ownsInput t \<Longrightarrow> es_ownsOutput s = es_ownsOutput t \<Longrightarrow>
   executionShardID dg m s = executionShardID dg m t"
  by (simp add: executionShardID_def)

lemma chained_distinct_starts: "chained e ss \<Longrightarrow> distinct (map es_layerStart ss)"
proof (induction e ss rule: chained.induct)
  case (1 start)
  then show ?case by simp
next
  case (2 start s rest)
  then show ?case using chained_bounds [of "es_layerEnd s" rest] by fastforce
qed

lemma chained_shards_distinct:
  assumes "chained 0 ss"
  shows "distinct (map (executionShardID dg m) ss)"
proof -
  have "inj_on (executionShardID dg m) (set ss)"
  proof (rule inj_onI)
    fix s t assume st: "s \<in> set ss" "t \<in> set ss" "executionShardID dg m s = executionShardID dg m t"
    then have "es_layerStart s = es_layerStart t"
      using executionShardID_start chained_bounds [OF assms] by metis
    with st show "s = t"
      using chained_distinct_starts [OF assms] by (metis distinct_map inj_on_def)
  qed
  moreover have "distinct ss" using chained_distinct_starts [OF assms] by (simp add: distinct_map)
  ultimately show ?thesis by (simp add: distinct_map)
qed

lemma chained_map_shard [simp]:
  "chained e (map (\<lambda>s. s\<lparr>es_shardID := f s\<rparr>) ss) = chained e ss"
  "chain_end e (map (\<lambda>s. s\<lparr>es_shardID := f s\<rparr>) ss) = chain_end e ss"
  by (induction e ss rule: chained.induct) auto

lemma roles_map_shard [simp]:
  "roles_ok n i (map (\<lambda>s. s\<lparr>es_shardID := f s\<rparr>) ss) = roles_ok n i ss"
  by (induction n i ss rule: roles_ok.induct) (auto simp: stage_role_ok_def)

lemma identities_map_shard [simp]:
  "identities_ok es_name (map (\<lambda>s. s\<lparr>es_shardID := f s\<rparr>) ss) = identities_ok es_name ss"
  "identities_ok es_targetID (map (\<lambda>s. s\<lparr>es_shardID := f s\<rparr>) ss) = identities_ok es_targetID ss"
  by (simp_all add: identities_ok_def comp_def image_image)

lemma revisionPayload_finalize:
  "revisionPayload (finalizeExecutionPlan dg p) = revisionPayload p"
  by (simp add: revisionPayload_def finalizeExecutionPlan_def revisionStage_def comp_def)

text \<open>The stages a caller may hand to the builder.\<close>

definition buildable :: "execution_model \<Rightarrow> execution_stage list \<Rightarrow> bool" where
  "buildable m ss \<longleftrightarrow>
     em_ID m \<noteq> [] \<and> em_checkpointFingerprint m \<noteq> [] \<and> ss \<noteq> [] \<and>
     chained 0 ss \<and> chain_end 0 ss = em_layerCount m \<and>
     identities_ok es_name ss \<and> identities_ok es_targetID ss \<and> roles_ok (length ss) 0 ss"

abbreviation draft_plan :: "execution_model \<Rightarrow> string \<Rightarrow> execution_stage list \<Rightarrow> execution_plan" where
  "draft_plan m ir ss \<equiv>
     \<lparr>ep_schemaVersion = executionPlanSchemaVersion, ep_revision = [],
      ep_inventoryRevision = ir, ep_model = m, ep_stages = ss\<rparr>"

lemma finalize_fields [simp]:
  "ep_schemaVersion (finalizeExecutionPlan dg p) = ep_schemaVersion p"
  "ep_inventoryRevision (finalizeExecutionPlan dg p) = ep_inventoryRevision p"
  "ep_model (finalizeExecutionPlan dg p) = ep_model p"
  by (simp_all add: finalizeExecutionPlan_def)

lemma valid_finalize_iff:
  "valid_plan dg (finalizeExecutionPlan dg (draft_plan m ir ss)) \<longleftrightarrow> buildable m ss"
proof -
  let ?p = "finalizeExecutionPlan dg (draft_plan m ir ss)"
  have stages: "ep_stages ?p = map (\<lambda>s. s\<lparr>es_shardID := executionShardID dg m s\<rparr>) ss"
    by (simp add: finalizeExecutionPlan_def)
  have revision: "ep_revision ?p = executionPlanRevision dg ?p"
    by (simp add: executionPlanRevision_def revisionPayload_finalize)
      (simp add: finalizeExecutionPlan_def executionPlanRevision_def)
  have shards: "identities_ok es_shardID (ep_stages ?p)" if "chained 0 ss"
    using chained_shards_distinct [OF that] executionShardID_nonempty [symmetric]
    by (auto simp: identities_ok_def stages comp_def)
  show ?thesis
    using shards by (auto simp: valid_plan_def buildable_def stages revision)
qed

lemma build_iff:
  "buildExecutionPlan dg m ir ss = Inr p \<longleftrightarrow>
     buildable m ss \<and> p = finalizeExecutionPlan dg (draft_plan m ir ss)"
  by (auto simp: buildExecutionPlan_def Let_def and_then_Inr validate_iff valid_finalize_iff)

section \<open>Balanced plans\<close>

definition balanced_size :: "int \<Rightarrow> int \<Rightarrow> nat \<Rightarrow> int" where
  "balanced_size base remainder i = (if int i < remainder then base + 1 else base)"

lemma length_balanced [simp]:
  "length (balancedStages b r n t i start ids) = length ids"
  by (induction b r n t i start ids rule: balancedStages.induct) (auto simp: Let_def)

lemma balanced_targets [simp]:
  "map es_targetID (balancedStages b r n t i start ids) = ids"
  by (induction b r n t i start ids rule: balancedStages.induct) (auto simp: Let_def)

lemma balanced_names:
  "map es_name (balancedStages b r n t i start ids) =
     map (\<lambda>j. ''stage-'' @ decimal (int j)) [i..<i + length ids]"
proof (induction b r n t i start ids rule: balancedStages.induct)
  case (1 b r n t i start)
  then show ?case by simp
next
  case (2 b r n t i start id ids)
  then show ?case by (simp add: Let_def upt_conv_Cons del: upt_Suc)
qed

lemma balanced_chained:
  "0 < b \<Longrightarrow> chained start (balancedStages b r n t i start ids)"
  by (induction b r n t i start ids rule: balancedStages.induct) (auto simp: Let_def)

lemma balanced_chain_end:
  "chain_end start (balancedStages b r n t i start ids) =
     start + (\<Sum>j \<in> {i..<i + length ids}. balanced_size b r j)"
proof (induction b r n t i start ids rule: balancedStages.induct)
  case (1 b r n t i start)
  then show ?case by simp
next
  case (2 b r n t i start id ids)
  have "(\<Sum>j \<in> {i..<i + length (id # ids)}. balanced_size b r j) =
      balanced_size b r i + (\<Sum>j \<in> {Suc i..<Suc i + length ids}. balanced_size b r j)"
    by (simp add: sum.atLeast_Suc_lessThan del: sum.op_ivl_Suc)
  with 2 [OF refl refl refl] show ?case
    by (simp add: Let_def balanced_size_def del: sum.op_ivl_Suc)
qed

lemma balanced_sum:
  "int k \<le> r \<Longrightarrow> (\<Sum>j \<in> {0..<k}. balanced_size b r j) = int k * (b + 1)"
  "r \<le> int k \<Longrightarrow> 0 \<le> r \<Longrightarrow> (\<Sum>j \<in> {0..<k}. balanced_size b r j) = int k * b + r"
proof -
  show le: "int k \<le> r \<Longrightarrow> (\<Sum>j \<in> {0..<k}. balanced_size b r j) = int k * (b + 1)" for k
    by (induction k) (auto simp: balanced_size_def algebra_simps)
  show "r \<le> int k \<Longrightarrow> 0 \<le> r \<Longrightarrow> (\<Sum>j \<in> {0..<k}. balanced_size b r j) = int k * b + r"
  proof (induction k)
    case 0
    then show ?case by simp
  next
    case (Suc k)
    show ?case
    proof (cases "r \<le> int k")
      case True
      with Suc show ?thesis by (simp add: balanced_size_def algebra_simps)
    next
      case False
      with Suc.prems have "r = int (Suc k)" by simp
      then show ?thesis using le [of "Suc k"] by (simp add: algebra_simps)
    qed
  qed
qed

lemma balanced_roles:
  "i + length ids = n \<Longrightarrow> t \<in> {stageResponseTensor, stageResponseSampledToken} \<Longrightarrow>
   roles_ok n i (balancedStages b r n t i start ids)"
  by (induction b r n t i start ids rule: balancedStages.induct) (auto simp: Let_def stage_role_ok_def)

lemma balanced_nth_size:
  "k < length ids \<Longrightarrow>
   es_layerEnd (balancedStages b r n t i start ids ! k) - es_layerStart (balancedStages b r n t i start ids ! k) =
     balanced_size b r (i + k)"
proof (induction b r n t i start ids arbitrary: k rule: balancedStages.induct)
  case (1 b r n t i start)
  then show ?case by simp
next
  case (2 b r n t i start id ids)
  show ?case
  proof (cases k)
    case 0
    then show ?thesis by (simp add: Let_def balanced_size_def)
  next
    case (Suc j)
    with 2 show ?thesis by (simp add: Let_def)
  qed
qed

lemma balanced_buildable:
  assumes m: "em_ID m \<noteq> []" "em_checkpointFingerprint m \<noteq> []"
    and ids: "ids \<noteq> []" "distinct ids" "[] \<notin> set ids" "int (length ids) \<le> em_layerCount m"
    and t: "t \<in> {stageResponseTensor, stageResponseSampledToken}"
  shows "buildable m (balancedStages (em_layerCount m div int (length ids))
      (em_layerCount m mod int (length ids)) (length ids) t 0 0 ids)"
proof -
  define n where "n = int (length ids)"
  define b where "b = em_layerCount m div n"
  define r where "r = em_layerCount m mod n"
  define ss where "ss = balancedStages b r (length ids) t 0 0 ids"
  have n: "0 < n" using ids(1) by (simp add: n_def)
  have b: "0 < b" using ids(4) n by (simp add: b_def n_def pos_imp_zdiv_pos_iff)
  have r: "0 \<le> r" "r < n" using n by (auto simp: r_def)
  have "chain_end 0 ss = n * b + r"
    using balanced_sum(2) [of r "length ids" b] r
    by (simp add: ss_def balanced_chain_end n_def lessThan_atLeast0)
  then have ce: "chain_end 0 ss = em_layerCount m"
    by (simp add: b_def r_def mult_div_mod_eq)
  have names: "identities_ok es_name ss"
  proof -
    have "distinct (map es_name ss)"
      by (auto simp: ss_def balanced_names distinct_map inj_on_def decimal_inj)
    moreover have "[] \<notin> set (map es_name ss)"
      unfolding ss_def balanced_names by auto
    ultimately show ?thesis by (simp add: identities_ok_def)
  qed
  have targets: "identities_ok es_targetID ss"
    using ids balanced_targets [of b r "length ids" t 0 0 ids]
    by (simp add: identities_ok_def ss_def flip: set_map)
  have "ss \<noteq> []" using ids(1) by (metis ss_def length_balanced length_0_conv)
  with m ce names targets b t show ?thesis
    unfolding n_def [symmetric] b_def [symmetric] r_def [symmetric] ss_def [symmetric]
    by (auto simp: buildable_def ss_def balanced_chained balanced_roles)
qed

section \<open>Ownership and derived identities\<close>

lemma chained_ownership:
  "chained e ss \<Longrightarrow> roles_ok n i ss \<Longrightarrow> i + length ss = n \<Longrightarrow> s \<in> set ss \<Longrightarrow>
   es_ownsInput s = (i = 0 \<and> es_layerStart s = e) \<and> es_ownsOutput s = (es_layerEnd s = chain_end e ss)"
proof (induction n i ss arbitrary: e rule: roles_ok.induct)
  case (1 n i)
  then show ?case by simp
next
  case (2 n i t rest)
  have bound: "es_layerEnd t \<le> es_layerStart u \<and> es_layerStart u < es_layerEnd u"
    if "u \<in> set rest" for u
    using chained_bounds [of "es_layerEnd t" rest u] 2(2) that by auto
  show ?case
  proof (cases "s \<in> set rest")
    case True
    then have "es_ownsInput s = (Suc i = 0 \<and> es_layerStart s = es_layerEnd t) \<and>
        es_ownsOutput s = (es_layerEnd s = chain_end (es_layerEnd t) rest)"
      using 2 by auto
    then show ?thesis using bound [OF True] 2(2) by auto
  next
    case False
    then have s: "s = t" using 2(5) by simp
    have "es_layerEnd t < chain_end (es_layerEnd t) rest" if "rest \<noteq> []"
      using chain_end_ge [of "es_layerEnd t" rest] 2(2) that by (cases rest) auto
    then show ?thesis using s 2 by (cases "rest = []") (auto simp: stage_role_ok_def)
  qed
qed

lemma valid_plan_ownership:
  assumes "valid_plan dg p" and "s \<in> set (ep_stages p)"
  shows "es_ownsInput s = (es_layerStart s = 0)"
    and "es_ownsOutput s = (es_layerEnd s = em_layerCount (ep_model p))"
  using chained_ownership [of 0 "ep_stages p" "length (ep_stages p)" 0 s] assms
  by (auto simp: valid_plan_def)

lemma derive_valid:
  assumes "valid_plan dg p" and "s \<in> set (ep_stages p)"
  shows "deriveExecutionShardID dg (ep_model p) (es_layerStart s) (es_layerEnd s)
      (es_ownsInput s) (es_ownsOutput s) = Inr (es_shardID s)"
proof -
  have c: "chained 0 (ep_stages p)" and sh: "es_shardID s = executionShardID dg (ep_model p) s"
    and m: "em_ID (ep_model p) \<noteq> []" "em_checkpointFingerprint (ep_model p) \<noteq> []"
    using assms by (auto simp: valid_plan_def)
  note b = valid_plan_bounds [OF assms(1)] and o = valid_plan_ownership [OF assms]
  have "0 \<le> es_layerStart s" "es_layerStart s < es_layerEnd s"
    using chained_bounds [OF c assms(2)] by auto
  then show ?thesis
    using m b(2) b(3) [OF assms(2)] o by (simp add: deriveExecutionShardID_def sh executionShardID_def)
qed

lemma revisionStage_eq:
  "revisionStage s = revisionStage t \<Longrightarrow> es_shardID s = es_shardID t \<Longrightarrow> s = t"
  by (simp add: revisionStage_def)

lemma revisionPayload_valid_eq:
  assumes p: "valid_plan dg p" and q: "valid_plan dg q" and eq: "revisionPayload p = revisionPayload q"
  shows "p = q"
proof -
  have m: "ep_model p = ep_model q" "ep_inventoryRevision p = ep_inventoryRevision q"
    and st: "map revisionStage (ep_stages p) = map revisionStage (ep_stages q)"
    using eq by (auto simp: revisionPayload_def)
  have shard: "es_shardID s = es_shardID t"
    if "s \<in> set (ep_stages p)" "t \<in> set (ep_stages q)" "revisionStage s = revisionStage t" for s t
    using that p q m(1) executionShardID_fields [of s t dg "ep_model q"]
    by (auto simp: valid_plan_def revisionStage_def)
  have "list_all2 (=) (ep_stages p) (ep_stages q)"
    using st by (auto simp: list_all2_conv_all_nth list_eq_iff_nth_eq intro!: revisionStage_eq shard)
  then have "ep_stages p = ep_stages q" by (simp add: list.rel_eq)
  moreover have "ep_revision p = ep_revision q"
    using p q eq by (simp add: valid_plan_def executionPlanRevision_def)
  moreover have "ep_schemaVersion p = ep_schemaVersion q" using p q by (simp add: valid_plan_def)
  ultimately show ?thesis using m by simp
qed

section \<open>A concrete plan\<close>

definition demo_digests :: digests where
  "demo_digests = \<lparr>plan_digest = (\<lambda>p. rp_inventoryRevision p @ ''+'' @ em_ID (rp_model p)),
     shard_digest = (\<lambda>p. em_checkpointFingerprint (sp_model p) @ ''0123456789abcdef'')\<rparr>"

definition demo_model :: execution_model where
  "demo_model = \<lparr>em_ID = ''gemma'', em_checkpointFingerprint = ''f1'', em_layerCount = 5\<rparr>"

definition demo_plan :: execution_plan where
  "demo_plan = \<lparr>ep_schemaVersion = ''2'', ep_revision = ''+gemma'', ep_inventoryRevision = [],
     ep_model = demo_model,
     ep_stages =
       [\<lparr>es_name = ''stage-0'', es_targetID = ''a'', es_shardID = ''generate-shard-0-3-f10123456789'',
         es_layerStart = 0, es_layerEnd = 3, es_ownsInput = True, es_ownsOutput = False,
         es_responseMode = ''tensor''\<rparr>,
        \<lparr>es_name = ''stage-1'', es_targetID = ''b'', es_shardID = ''generate-shard-3-5-f10123456789'',
         es_layerStart = 3, es_layerEnd = 5, es_ownsInput = False, es_ownsOutput = True,
         es_responseMode = ''sampledToken''\<rparr>]\<rparr>"

lemma demo_plan_built:
  "buildBalancedExecutionPlan demo_digests demo_model [''a'', ''b''] stageResponseSampledToken = Inr demo_plan"
  by code_simp

lemma demo_plan_valid: "validateExecutionPlan demo_digests demo_plan = Inr ()"
  by code_simp

text \<open>The same split with the second stage on another target; the toy digest ignores targets.\<close>

definition demo_plan_moved :: execution_plan where
  "demo_plan_moved = demo_plan\<lparr>ep_stages :=
     map (\<lambda>s. if es_targetID s = ''b'' then s\<lparr>es_targetID := ''c''\<rparr> else s) (ep_stages demo_plan)\<rparr>"

lemma demo_plan_moved_valid: "validateExecutionPlan demo_digests demo_plan_moved = Inr ()"
  by code_simp

section \<open>Properties\<close>

text \<open>
  C6: the validator accepts exactly the valid plans: the early-return loops of
  \<open>ValidateExecutionPlan\<close> are sound and complete for the declarative contract.
\<close>

theorem validate_accepts_exactly_valid:
  "(validateExecutionPlan dg p = Inr ()) = valid_plan dg p"
  by (rule validate_iff)

text \<open>
  in an accepted plan every layer of the model is executed by exactly one stage.
\<close>

theorem accepted_plan_covers_once:
  assumes "validateExecutionPlan dg p = Inr ()"
    and "0 \<le> layer" and "layer < em_layerCount (ep_model p)"
  shows "\<exists>!i. i < length (ep_stages p) \<and> es_layerStart (ep_stages p ! i) \<le> layer
    \<and> layer < es_layerEnd (ep_stages p ! i)"
  using assms chained_covers_once [of 0 "ep_stages p" layer]
  by (auto simp: validate_iff valid_plan_def covers_def)

theorem accepted_plan_covers_once_witness:
  "\<exists>!i. i < length (ep_stages demo_plan) \<and> es_layerStart (ep_stages demo_plan ! i) \<le> 3
    \<and> 3 < es_layerEnd (ep_stages demo_plan ! i)"
proof -
  have "(3 :: int) < em_layerCount (ep_model demo_plan)" by code_simp
  then show ?thesis by (intro accepted_plan_covers_once [OF demo_plan_valid]) auto
qed

text \<open>
  The constructor \<open>BuildBalancedExecutionPlan\<close> always succeeds for distinct named targets that are
  no more than the layers, keeps their order, and gives each target the quotient of the
  layers, the first ones (as many as the remainder) one layer more.
\<close>

theorem balanced_plan_total:
  assumes "em_ID m \<noteq> []" and "em_checkpointFingerprint m \<noteq> []"
    and "ids \<noteq> []" and "distinct ids" and "[] \<notin> set ids"
    and "int (length ids) \<le> em_layerCount m"
    and "terminal = stageResponseTensor \<or> terminal = stageResponseSampledToken"
  shows "\<exists>p. buildBalancedExecutionPlan dg m ids terminal = Inr p \<and>
    map es_targetID (ep_stages p) = ids \<and>
    map (\<lambda>s. es_layerEnd s - es_layerStart s) (ep_stages p) =
      map (\<lambda>i. em_layerCount m div int (length ids) +
        (if int i < em_layerCount m mod int (length ids) then 1 else 0)) [0..<length ids]"
proof -
  define n where "n = int (length ids)"
  define ss where "ss = balancedStages (em_layerCount m div n) (em_layerCount m mod n) (length ids) terminal 0 0 ids"
  have n: "0 < n" using assms(3) by (simp add: n_def)
  have b: "buildable m ss"
    unfolding ss_def n_def using assms by (intro balanced_buildable) auto
  let ?p = "finalizeExecutionPlan dg (draft_plan m [] ss)"
  have "go_div (em_layerCount m) n = em_layerCount m div n" "go_mod (em_layerCount m) n = em_layerCount m mod n"
    using n assms(6) by (auto simp: n_def go_div_nonneg go_mod_nonneg)
  then have "buildBalancedExecutionPlan dg m ids terminal = Inr ?p"
    using assms(3,6) b
    by (simp add: buildBalancedExecutionPlan_def Let_def build_iff ss_def n_def [symmetric])
  moreover have "map es_targetID (ep_stages ?p) = ids"
    by (simp add: finalizeExecutionPlan_def comp_def ss_def)
  moreover have "map (\<lambda>s. es_layerEnd s - es_layerStart s) (ep_stages ?p) =
      map (balanced_size (em_layerCount m div n) (em_layerCount m mod n)) [0..<length ids]"
    by (rule nth_equalityI) (auto simp: finalizeExecutionPlan_def ss_def balanced_nth_size)
  moreover have "balanced_size b r = (\<lambda>i. b + (if int i < r then 1 else 0))" for b r
    by (rule ext) (simp add: balanced_size_def)
  ultimately show ?thesis by (auto simp: n_def)
qed

theorem balanced_plan_total_witness:
  "\<exists>p. buildBalancedExecutionPlan demo_digests demo_model [''a'', ''b''] stageResponseSampledToken = Inr p \<and>
    map es_targetID (ep_stages p) = [''a'', ''b''] \<and>
    map (\<lambda>s. es_layerEnd s - es_layerStart s) (ep_stages p) = [3, 2]"
  using balanced_plan_total [of demo_model "[''a'', ''b'']" stageResponseSampledToken demo_digests]
  by (simp add: demo_model_def upt_rec)

text \<open>
  the shard identity derived from a bare range agrees with the identity a valid
  plan carries, so a shard retained under one plan is found again by the planner.
\<close>

theorem derived_shard_matches_plan:
  assumes "buildExecutionPlan dg m ir ss = Inr p" and "s \<in> set (ep_stages p)"
  shows "deriveExecutionShardID dg m (es_layerStart s) (es_layerEnd s) (es_ownsInput s) (es_ownsOutput s)
    = Inr (es_shardID s)"
proof -
  have p: "buildable m ss" "p = finalizeExecutionPlan dg (draft_plan m ir ss)"
    using assms(1) by (auto simp: build_iff)
  then have "valid_plan dg p" by (simp add: valid_finalize_iff)
  then show ?thesis using derive_valid [of dg p s] assms(2) p(2) by simp
qed

theorem derived_shard_matches_plan_witness:
  "deriveExecutionShardID demo_digests demo_model 0 3 True False = Inr ''generate-shard-0-3-f10123456789''"
proof -
  have "buildExecutionPlan demo_digests demo_model [] (ep_stages demo_plan) = Inr demo_plan"
    by code_simp
  then show ?thesis
    using derived_shard_matches_plan [of demo_digests demo_model "[]" "ep_stages demo_plan" demo_plan
        "hd (ep_stages demo_plan)"]
    by (simp add: demo_plan_def)
qed

text \<open>
  a revision pins the plan: two accepted plans with one revision are the same plan,
  unless the digest collides on two different payloads.
\<close>

theorem revision_pins_plan:
  assumes "validateExecutionPlan dg p = Inr ()" and "validateExecutionPlan dg q = Inr ()"
    and "ep_revision p = ep_revision q"
  shows "p = q \<or> (revisionPayload p \<noteq> revisionPayload q \<and>
    plan_digest dg (revisionPayload p) = plan_digest dg (revisionPayload q))"
  using assms revisionPayload_valid_eq [of dg p q]
  by (auto simp: validate_iff valid_plan_def executionPlanRevision_def)

theorem revision_pins_plan_witness:
  "revisionPayload demo_plan \<noteq> revisionPayload demo_plan_moved \<and>
    plan_digest demo_digests (revisionPayload demo_plan) = plan_digest demo_digests (revisionPayload demo_plan_moved)"
proof -
  have "ep_revision demo_plan = ep_revision demo_plan_moved" "demo_plan \<noteq> demo_plan_moved"
    by code_simp+
  then show ?thesis
    using revision_pins_plan [OF demo_plan_valid demo_plan_moved_valid] by simp
qed

end
