(* ===== verification/Registry.thy ===== *)
theory Registry
  imports Prelude
begin

text \<open>
  The leased membership inventory (\<open>internal/registry/types.go\<close> and
  \<open>registry.go\<close>): the advertised data, normalisation and validation of registrations, and
  the operations on the inventory. Every operation of the source runs under one mutex, so
  an operation is one step from a state to a state; the clock reading it takes is an
  argument.
\<close>

section \<open>Advertised data\<close>

record transport =
  tr_protocol :: string
  tr_tensorEncodings :: "string list"
  tr_maxRequestBytes :: int
  tr_tls :: bool

record admission_limits =
  al_maxConcurrentRequests :: int
  al_maxOpenSequencesPerShard :: int
  al_retainedByteBudget :: u64

record capabilities =
  cap_backend :: string
  cap_runtime :: string
  cap_os :: string
  cap_architecture :: string
  cap_device :: string
  cap_physicalMemoryBytes :: u64
  cap_adapters :: "string list"
  cap_operations :: "string list"
  cap_checkpointFingerprints :: "string list"
  cap_admission :: admission_limits
  cap_transports :: "transport list"

record retained_shard =
  rsh_ID :: string
  rsh_modelID :: string
  rsh_checkpointFingerprint :: string
  rsh_layerStart :: int
  rsh_layerEnd :: int
  rsh_ownsInput :: bool
  rsh_ownsOutput :: bool
  rsh_memoryBytes :: u64
  rsh_openSequenceCount :: int

record status =
  st_health :: string
  st_availableMemoryBytes :: u64
  st_memoryPressureBytes :: u64
  st_openSequenceCount :: int
  st_retainedBytes :: u64
  st_restartCount :: int
  st_recentFailureCount :: int
  st_workerObservationSequence :: u64
  st_retainedShards :: "retained_shard list"

record registration =
  rg_schemaVersion :: int
  rg_ID :: string
  rg_instanceID :: string
  rg_endpoint :: string
  rg_capabilities :: capabilities
  rg_status :: status

record heartbeat_request =
  hb_schemaVersion :: int
  hb_instanceID :: string
  hb_status :: "status option"

record worker =
  wk_registration :: registration
  wk_registeredAt :: instant
  wk_lastSeen :: instant
  wk_expiresAt :: instant
  wk_statusObservedAt :: instant

abbreviation wk_ID :: "worker \<Rightarrow> string" where
  "wk_ID w \<equiv> rg_ID (wk_registration w)"

abbreviation wk_instanceID :: "worker \<Rightarrow> string" where
  "wk_instanceID w \<equiv> rg_instanceID (wk_registration w)"

abbreviation wk_endpoint :: "worker \<Rightarrow> string" where
  "wk_endpoint w \<equiv> rg_endpoint (wk_registration w)"

abbreviation wk_capabilities :: "worker \<Rightarrow> capabilities" where
  "wk_capabilities w \<equiv> rg_capabilities (wk_registration w)"

abbreviation wk_status :: "worker \<Rightarrow> status" where
  "wk_status w \<equiv> rg_status (wk_registration w)"

record mutation =
  mu_inventoryRevision :: u64
  mu_worker :: worker

record inventory =
  inv_schemaVersion :: int
  inv_revision :: u64
  inv_generatedAt :: instant
  inv_leaseTTLMillis :: int
  inv_workers :: "worker list"

definition registrySchemaVersion :: int where
  "registrySchemaVersion = 1"

definition healthHealthy :: string where "healthHealthy = ''healthy''"
definition healthDegraded :: string where "healthDegraded = ''degraded''"
definition healthDraining :: string where "healthDraining = ''draining''"

definition defaultLeaseTTL :: duration where
  "defaultLeaseTTL = 30 * second"

lemmas registry_constants [go_eval] =
  registrySchemaVersion_def healthHealthy_def healthDegraded_def healthDraining_def
  defaultLeaseTTL_def

text \<open>A status is fresh when it was observed at most \<open>maxAge\<close> before the reference time.\<close>

definition statusFresh :: "worker \<Rightarrow> instant \<Rightarrow> duration \<Rightarrow> bool" where
  "statusFresh w at maxAge =
     (if maxAge \<le> 0 \<or> wk_statusObservedAt w = 0 \<or> at < wk_statusObservedAt w then False
      else time_sub at (wk_statusObservedAt w) \<le> maxAge)"

definition workerStatusFresh :: "inventory \<Rightarrow> worker \<Rightarrow> bool" where
  "workerStatusFresh inventory w =
     statusFresh w (inv_generatedAt inventory) (wrap_int (inv_leaseTTLMillis inventory * millisecond))"

section \<open>Validation\<close>

datatype registry_error =
    DuplicateWorker string
  | DuplicateInstance string
  | DuplicateEndpoint string
  | WorkerNotFound string
  | StaleInstance string
  | LeaseExpired string
  | SchemaVersionMismatch int
  | InvalidWorkerID
  | InvalidInstanceID
  | InvalidEndpoint
  | BackendRequired
  | RuntimeRequired
  | PlatformRequired
  | DeviceRequired
  | PhysicalMemoryZero
  | AdapterRequired
  | OperationRequired
  | MaxConcurrentNotPositive
  | MaxOpenNotPositive
  | RetainedBudgetZero
  | TransportRequired
  | TransportIncomplete nat
  | TransportDuplicated string
  | UnsupportedHealth string
  | AvailableExceedsPhysical
  | NegativeCounters
  | RetainedShardIncomplete nat
  | RetainedShardDuplicated string
  | OpenSequenceMismatch int int
  | InvalidRemovalIdentity

text \<open>
  \<open>net/url\<close> and Unicode case mapping are parameters: parsing an endpoint, printing it
  again, and \<open>strings.ToLower\<close>. \<open>u_rest\<close> stands for the parts of a URL the source
  never looks at.
\<close>

record parsed_url =
  u_scheme :: string
  u_host :: string
  u_hostname :: string
  u_port :: string
  u_hasUser :: bool
  u_rawQuery :: string
  u_fragment :: string
  u_rest :: string

record url_library =
  url_parse :: "string \<Rightarrow> parsed_url option"
  url_string :: "parsed_url \<Rightarrow> string"
  to_lower :: "string \<Rightarrow> string"

definition in_range :: "char \<Rightarrow> char \<Rightarrow> char \<Rightarrow> bool" where
  "in_range first final c \<longleftrightarrow> first \<le> c \<and> c \<le> final"

definition identity_char :: "char \<Rightarrow> bool" where
  "identity_char c \<longleftrightarrow>
     in_range (CHR ''a'') (CHR ''z'') c \<or> in_range (CHR ''A'') (CHR ''Z'') c \<or>
     in_range (CHR ''0'') (CHR ''9'') c \<or> c \<in> set ''._:-''"

definition validIdentityPart :: "string \<Rightarrow> bool" where
  "validIdentityPart s \<longleftrightarrow> s \<noteq> [] \<and> length s \<le> 128 \<and> list_all identity_char s"

definition validateIdentity :: "string \<Rightarrow> int \<Rightarrow> string \<Rightarrow> registry_error + unit" where
  "validateIdentity workerID schemaVersion instanceID =
     (if schemaVersion \<noteq> registrySchemaVersion then Inl (SchemaVersionMismatch schemaVersion)
      else if \<not> validIdentityPart workerID then Inl InvalidWorkerID
      else if \<not> validIdentityPart instanceID then Inl InvalidInstanceID
      else Inr ())"

text \<open>The loop over the retained shards; \<open>previous\<close> is the shard before, if any.\<close>

fun checkRetainedShards ::
  "nat \<Rightarrow> string option \<Rightarrow> int \<Rightarrow> retained_shard list \<Rightarrow> registry_error + int" where
  "checkRetainedShards index previous openSequences [] = Inr openSequences"
| "checkRetainedShards index previous openSequences (s # rest) =
     (if rsh_ID s = [] \<or> rsh_modelID s = [] \<or> rsh_checkpointFingerprint s = [] \<or>
         rsh_layerStart s < 0 \<or> rsh_layerEnd s \<le> rsh_layerStart s \<or> rsh_openSequenceCount s < 0
      then Inl (RetainedShardIncomplete index)
      else if previous = Some (rsh_ID s) then Inl (RetainedShardDuplicated (rsh_ID s))
      else checkRetainedShards (Suc index) (Some (rsh_ID s))
        (wrap_int (openSequences + rsh_openSequenceCount s)) rest)"

definition validateStatus :: "status \<Rightarrow> capabilities \<Rightarrow> registry_error + unit" where
  "validateStatus s c =
     (if st_health s \<noteq> healthHealthy \<and> st_health s \<noteq> healthDegraded \<and> st_health s \<noteq> healthDraining
      then Inl (UnsupportedHealth (st_health s))
      else if cap_physicalMemoryBytes c < st_availableMemoryBytes s then Inl AvailableExceedsPhysical
      else if st_openSequenceCount s < 0 \<or> st_restartCount s < 0 \<or> st_recentFailureCount s < 0
      then Inl NegativeCounters
      else and_then (checkRetainedShards 0 None 0 (st_retainedShards s)) (\<lambda>openSequences.
        if st_openSequenceCount s \<noteq> openSequences
        then Inl (OpenSequenceMismatch (st_openSequenceCount s) openSequences)
        else Inr ()))"

fun checkTransports :: "nat \<Rightarrow> string option \<Rightarrow> transport list \<Rightarrow> registry_error + unit" where
  "checkTransports index previous [] = Inr ()"
| "checkTransports index previous (t # rest) =
     (if trim_space (tr_protocol t) = [] \<or> tr_tensorEncodings t = [] \<or> tr_maxRequestBytes t \<le> 0
      then Inl (TransportIncomplete index)
      else if previous = Some (tr_protocol t) then Inl (TransportDuplicated (tr_protocol t))
      else checkTransports (Suc index) (Some (tr_protocol t)) rest)"

definition validateEndpoint :: "url_library \<Rightarrow> string \<Rightarrow> registry_error + unit" where
  "validateEndpoint lib endpoint =
     (case url_parse lib endpoint of
        None \<Rightarrow> Inl InvalidEndpoint
      | Some u \<Rightarrow>
          if (u_scheme u \<noteq> ''http'' \<and> u_scheme u \<noteq> ''https'') \<or> u_host u = [] \<or> u_hasUser u \<or>
             u_rawQuery u \<noteq> [] \<or> u_fragment u \<noteq> []
          then Inl InvalidEndpoint else Inr ())"

definition validateCapabilities :: "capabilities \<Rightarrow> registry_error + unit" where
  "validateCapabilities c =
     (if trim_space (cap_backend c) = [] then Inl BackendRequired
      else if trim_space (cap_runtime c) = [] then Inl RuntimeRequired
      else if trim_space (cap_os c) = [] \<or> trim_space (cap_architecture c) = [] then Inl PlatformRequired
      else if trim_space (cap_device c) = [] then Inl DeviceRequired
      else if cap_physicalMemoryBytes c = 0 then Inl PhysicalMemoryZero
      else if cap_adapters c = [] then Inl AdapterRequired
      else if cap_operations c = [] then Inl OperationRequired
      else if al_maxConcurrentRequests (cap_admission c) \<le> 0 then Inl MaxConcurrentNotPositive
      else if al_maxOpenSequencesPerShard (cap_admission c) \<le> 0 then Inl MaxOpenNotPositive
      else if al_retainedByteBudget (cap_admission c) = 0 then Inl RetainedBudgetZero
      else if cap_transports c = [] then Inl TransportRequired
      else checkTransports 0 None (cap_transports c))"

definition validateRegistration :: "url_library \<Rightarrow> registration \<Rightarrow> registry_error + unit" where
  "validateRegistration lib input =
     and_then (validateIdentity (rg_ID input) (rg_schemaVersion input) (rg_instanceID input)) (\<lambda>_.
     and_then (validateEndpoint lib (rg_endpoint input)) (\<lambda>_.
     and_then (validateCapabilities (rg_capabilities input)) (\<lambda>_.
     validateStatus (rg_status input) (rg_capabilities input))))"

section \<open>Normalisation\<close>

definition trim_right_slash :: "string \<Rightarrow> string" where
  "trim_right_slash s = rev (dropWhile (\<lambda>c. c = CHR ''/'') (rev s))"

definition joinHostPort :: "string \<Rightarrow> string \<Rightarrow> string" where
  "joinHostPort host port =
     (if CHR '':'' \<in> set host then ''['' @ host @ '']:'' @ port else host @ '':'' @ port)"

text \<open>
  Lower-casing of a host name up to its last \<open>%\<close>, which introduces a case-sensitive zone.
\<close>

definition lowerHostname :: "url_library \<Rightarrow> string \<Rightarrow> string" where
  "lowerHostname lib hostname =
     (if CHR ''%'' \<in> set hostname
      then let zone = rev (takeWhile (\<lambda>c. c \<noteq> CHR ''%'') (rev hostname)) in
        to_lower lib (take (length hostname - length zone - 1) hostname) @ ''%'' @ zone
      else to_lower lib hostname)"

definition canonicalEndpoint :: "url_library \<Rightarrow> string \<Rightarrow> string" where
  "canonicalEndpoint lib raw =
     (let trimmed = trim_right_slash raw in
      case url_parse lib trimmed of
        None \<Rightarrow> trimmed
      | Some u \<Rightarrow>
          let scheme = to_lower lib (u_scheme u);
              hostname = lowerHostname lib (u_hostname u);
              port = (if scheme = ''http'' \<and> u_port u = ''80'' \<or>
                         scheme = ''https'' \<and> u_port u = ''443'' then [] else u_port u);
              host = (if port \<noteq> [] then joinHostPort hostname port
                      else if CHR '':'' \<in> set hostname then ''['' @ hostname @ '']''
                      else hostname)
          in trim_right_slash (url_string lib (u\<lparr>u_scheme := scheme, u_host := host\<rparr>)))"

definition normalizeStrings :: "string list \<Rightarrow> string list" where
  "normalizeStrings values = filter (\<lambda>s. s \<noteq> []) (remdups_adj (sort (map trim_space values)))"

definition normalizeStatus :: "status \<Rightarrow> status" where
  "normalizeStatus s =
     s\<lparr>st_retainedShards := sort_by (\<lambda>l r. go_compare (rsh_ID l) (rsh_ID r)) (st_retainedShards s)\<rparr>"

definition normalizeCapabilities :: "capabilities \<Rightarrow> capabilities" where
  "normalizeCapabilities c =
     c\<lparr>cap_adapters := normalizeStrings (cap_adapters c),
       cap_operations := normalizeStrings (cap_operations c),
       cap_checkpointFingerprints := normalizeStrings (cap_checkpointFingerprints c),
       cap_transports := sort_by (\<lambda>l r. go_compare (tr_protocol l) (tr_protocol r))
         (map (\<lambda>t. t\<lparr>tr_tensorEncodings := normalizeStrings (tr_tensorEncodings t)\<rparr>)
           (cap_transports c))\<rparr>"

definition normalizeRegistration :: "url_library \<Rightarrow> registration \<Rightarrow> registration" where
  "normalizeRegistration lib input =
     input\<lparr>rg_endpoint := canonicalEndpoint lib (rg_endpoint input),
       rg_capabilities := normalizeCapabilities (rg_capabilities input),
       rg_status := normalizeStatus (rg_status input)\<rparr>"

section \<open>The registry and its operations\<close>

text \<open>
  The map of workers is an association list with distinct keys, in the order a \<open>range\<close>
  over the Go map happens to visit it: every theorem holds for every order.
\<close>

record registry =
  ry_workers :: "(string \<times> worker) list"
  ry_revision :: u64
  ry_ttl :: duration

definition newRegistry :: "duration \<Rightarrow> registry" where
  "newRegistry ttl =
     \<lparr>ry_workers = [], ry_revision = 0, ry_ttl = (if ttl \<le> 0 then defaultLeaseTTL else ttl)\<rparr>"

definition live_entries :: "instant \<Rightarrow> (string \<times> worker) list \<Rightarrow> (string \<times> worker) list" where
  "live_entries now ws = filter (\<lambda>e. now < wk_expiresAt (snd e)) ws"

definition expireLocked :: "instant \<Rightarrow> registry \<Rightarrow> registry" where
  "expireLocked now r =
     (let kept = live_entries now (ry_workers r) in
      r\<lparr>ry_workers := kept,
        ry_revision := (if length kept < length (ry_workers r) then ry_revision r + 1 else ry_revision r)\<rparr>)"

text \<open>The first other worker that already has the instance or the endpoint.\<close>

fun findConflict :: "registration \<Rightarrow> (string \<times> worker) list \<Rightarrow> registry_error option" where
  "findConflict input [] = None"
| "findConflict input ((workerID, existing) # rest) =
     (if workerID = rg_ID input then findConflict input rest
      else if wk_instanceID existing = rg_instanceID input
      then Some (DuplicateInstance (rg_instanceID input))
      else if wk_endpoint existing = rg_endpoint input
      then Some (DuplicateEndpoint (rg_endpoint input))
      else findConflict input rest)"

definition storeWorker :: "string \<Rightarrow> worker \<Rightarrow> registry \<Rightarrow> registry" where
  "storeWorker workerID w r = r\<lparr>ry_workers := AList.update workerID w (ry_workers r)\<rparr>"

definition bumpRevision :: "registry \<Rightarrow> registry" where
  "bumpRevision r = r\<lparr>ry_revision := ry_revision r + 1\<rparr>"

definition mutationOf :: "registry \<Rightarrow> worker \<Rightarrow> mutation" where
  "mutationOf r w = \<lparr>mu_inventoryRevision = ry_revision r, mu_worker = w\<rparr>"

definition renewRegistration ::
  "instant \<Rightarrow> bool \<Rightarrow> worker \<Rightarrow> registration \<Rightarrow> registry \<Rightarrow> registry \<times> (registry_error + mutation)" where
  "renewRegistration now fresh existing input0 r =
     (let input = (if fresh then input0 else input0\<lparr>rg_status := wk_status existing\<rparr>);
          w = \<lparr>wk_registration = input, wk_registeredAt = wk_registeredAt existing,
               wk_lastSeen = now, wk_expiresAt = now + ry_ttl r,
               wk_statusObservedAt = (if fresh then now else wk_statusObservedAt existing)\<rparr>;
          stored = storeWorker (rg_ID input) w r;
          r' = (if wk_registration existing \<noteq> input \<or> (fresh \<and> \<not> statusFresh existing now (ry_ttl r))
                then bumpRevision stored else stored)
      in (r', Inr (mutationOf r' w)))"

definition register ::
  "url_library \<Rightarrow> instant \<Rightarrow> bool \<Rightarrow> registration \<Rightarrow> registry \<Rightarrow> registry \<times> (registry_error + mutation)" where
  "register lib now fresh raw r =
     (let input = normalizeRegistration lib raw in
      case validateRegistration lib input of
        Inl e \<Rightarrow> (r, Inl e)
      | Inr _ \<Rightarrow>
          let r1 = expireLocked now r in
          case findConflict input (ry_workers r1) of
            Some e \<Rightarrow> (r1, Inl e)
          | None \<Rightarrow>
              case map_of (ry_workers r1) (rg_ID input) of
                Some existing \<Rightarrow>
                  if wk_instanceID existing \<noteq> rg_instanceID input
                  then (r1, Inl (DuplicateWorker (rg_ID input)))
                  else renewRegistration now fresh existing input r1
              | None \<Rightarrow>
                  let w = \<lparr>wk_registration = input, wk_registeredAt = now, wk_lastSeen = now,
                           wk_expiresAt = now + ry_ttl r1,
                           wk_statusObservedAt = (if fresh then now else 0)\<rparr>;
                      r2 = bumpRevision (storeWorker (rg_ID input) w r1)
                  in (r2, Inr (mutationOf r2 w)))"

definition dropWorker :: "string \<Rightarrow> registry \<Rightarrow> registry" where
  "dropWorker workerID r =
     bumpRevision (r\<lparr>ry_workers := AList.delete workerID (ry_workers r)\<rparr>)"

definition heartbeatUpdate ::
  "instant \<Rightarrow> string \<Rightarrow> status option \<Rightarrow> worker \<Rightarrow> registry \<Rightarrow> registry \<times> (registry_error + mutation)" where
  "heartbeatUpdate now workerID newStatus existing r =
     (case newStatus of
        None \<Rightarrow>
          let w = existing\<lparr>wk_lastSeen := now, wk_expiresAt := now + ry_ttl r\<rparr>;
              r' = storeWorker workerID w r
          in (r', Inr (mutationOf r' w))
      | Some s \<Rightarrow>
          case validateStatus s (wk_capabilities existing) of
            Inl e \<Rightarrow> (r, Inl e)
          | Inr _ \<Rightarrow>
              let changed = (wk_status existing \<noteq> s \<or> \<not> statusFresh existing now (ry_ttl r));
                  w = existing\<lparr>wk_registration := (wk_registration existing)\<lparr>rg_status := s\<rparr>,
                        wk_statusObservedAt := now, wk_lastSeen := now,
                        wk_expiresAt := now + ry_ttl r\<rparr>;
                  stored = storeWorker workerID w r;
                  r' = (if changed then bumpRevision stored else stored)
              in (r', Inr (mutationOf r' w)))"

definition heartbeat ::
  "instant \<Rightarrow> string \<Rightarrow> heartbeat_request \<Rightarrow> registry \<Rightarrow> registry \<times> (registry_error + mutation)" where
  "heartbeat now workerID beat r =
     (case validateIdentity workerID (hb_schemaVersion beat) (hb_instanceID beat) of
        Inl e \<Rightarrow> (r, Inl e)
      | Inr _ \<Rightarrow>
          case map_of (ry_workers r) workerID of
            None \<Rightarrow> (expireLocked now r, Inl (WorkerNotFound workerID))
          | Some existing \<Rightarrow>
              if wk_expiresAt existing \<le> now
              then (expireLocked now (dropWorker workerID r), Inl (LeaseExpired workerID))
              else let r1 = expireLocked now r in
                if wk_instanceID existing \<noteq> hb_instanceID beat
                then (r1, Inl (StaleInstance workerID))
                else heartbeatUpdate now workerID (map_option normalizeStatus (hb_status beat)) existing r1)"

definition removeWorker ::
  "instant \<Rightarrow> string \<Rightarrow> string \<Rightarrow> registry \<Rightarrow> registry \<times> (registry_error + unit)" where
  "removeWorker now workerID instanceID r =
     (if \<not> validIdentityPart workerID \<or> \<not> validIdentityPart instanceID
      then (r, Inl InvalidRemovalIdentity)
      else case map_of (ry_workers r) workerID of
          None \<Rightarrow> (expireLocked now r, Inl (WorkerNotFound workerID))
        | Some existing \<Rightarrow>
            if wk_expiresAt existing \<le> now
            then (expireLocked now (dropWorker workerID r), Inl (LeaseExpired workerID))
            else let r1 = expireLocked now r in
              if wk_instanceID existing \<noteq> instanceID then (r1, Inl (StaleInstance workerID))
              else (dropWorker workerID r1, Inr ()))"

definition snapshot :: "instant \<Rightarrow> registry \<Rightarrow> registry \<times> inventory" where
  "snapshot now r =
     (let r1 = expireLocked now r in
      (r1, \<lparr>inv_schemaVersion = registrySchemaVersion, inv_revision = ry_revision r1,
            inv_generatedAt = now, inv_leaseTTLMillis = milliseconds (ry_ttl r1),
            inv_workers = sort_by (\<lambda>l r. go_compare (wk_ID l) (wk_ID r)) (map snd (ry_workers r1))\<rparr>))"

section \<open>The membership invariant\<close>

text \<open>
  What every operation keeps: one entry per worker ID, each under its own ID and with
  validated identity, endpoint and capabilities and a consistent status, a lease of
  exactly one TTL from the last contact, and no instance or endpoint shared by two IDs.
\<close>

definition status_shape_ok :: "status \<Rightarrow> bool" where
  "status_shape_ok s \<longleftrightarrow>
     st_health s \<in> {healthHealthy, healthDegraded, healthDraining} \<and>
     0 \<le> st_openSequenceCount s \<and> 0 \<le> st_restartCount s \<and> 0 \<le> st_recentFailureCount s \<and>
     checkRetainedShards 0 None 0 (st_retainedShards s) = Inr (st_openSequenceCount s)"

definition entry_ok :: "url_library \<Rightarrow> duration \<Rightarrow> string \<times> worker \<Rightarrow> bool" where
  "entry_ok lib ttl e \<longleftrightarrow>
     fst e = wk_ID (snd e) \<and>
     validateIdentity (fst e) (rg_schemaVersion (wk_registration (snd e))) (wk_instanceID (snd e)) = Inr () \<and>
     validateEndpoint lib (wk_endpoint (snd e)) = Inr () \<and>
     validateCapabilities (wk_capabilities (snd e)) = Inr () \<and>
     status_shape_ok (wk_status (snd e)) \<and>
     wk_expiresAt (snd e) = wk_lastSeen (snd e) + ttl"

definition exclusive :: "(string \<times> worker) list \<Rightarrow> bool" where
  "exclusive ws \<longleftrightarrow>
     (\<forall>v \<in> set ws. \<forall>w \<in> set ws. fst v \<noteq> fst w \<longrightarrow>
        wk_instanceID (snd v) \<noteq> wk_instanceID (snd w) \<and> wk_endpoint (snd v) \<noteq> wk_endpoint (snd w))"

definition registry_inv :: "url_library \<Rightarrow> registry \<Rightarrow> bool" where
  "registry_inv lib r \<longleftrightarrow>
     0 < ry_ttl r \<and> distinct (map fst (ry_workers r)) \<and>
     (\<forall>e \<in> set (ry_workers r). entry_ok lib (ry_ttl r) e) \<and> exclusive (ry_workers r)"

lemma validateStatus_iff:
  "validateStatus s c = Inr () \<longleftrightarrow>
     st_availableMemoryBytes s \<le> cap_physicalMemoryBytes c \<and> status_shape_ok s"
proof -
  have "st_availableMemoryBytes s \<le> cap_physicalMemoryBytes c \<longleftrightarrow>
      \<not> cap_physicalMemoryBytes c < st_availableMemoryBytes s" by auto
  then show ?thesis
    by (auto simp: validateStatus_def status_shape_ok_def and_then_Inr)
qed

lemma validateRegistration_iff:
  "validateRegistration lib g = Inr () \<longleftrightarrow>
     validateIdentity (rg_ID g) (rg_schemaVersion g) (rg_instanceID g) = Inr () \<and>
     validateEndpoint lib (rg_endpoint g) = Inr () \<and>
     validateCapabilities (rg_capabilities g) = Inr () \<and>
     validateStatus (rg_status g) (rg_capabilities g) = Inr ()"
  by (auto simp: validateRegistration_def and_then_Inr)

subsection \<open>Association lists\<close>

lemma set_update_distinct:
  "distinct (map fst al) \<Longrightarrow> set (AList.update k v al) = insert (k, v) {e \<in> set al. fst e \<noteq> k}"
  by (induction al) (auto simp: rev_image_eqI)

lemma set_delete: "set (AList.delete k al) = {e \<in> set al. fst e \<noteq> k}"
  by (auto simp: AList.delete_eq)

lemma distinct_live: "distinct (map fst al) \<Longrightarrow> distinct (map fst (live_entries now al))"
  by (simp add: live_entries_def distinct_map_filter)

lemma map_of_live:
  "distinct (map fst al) \<Longrightarrow>
   map_of (live_entries now al) k =
     (case map_of al k of None \<Rightarrow> None | Some w \<Rightarrow> if now < wk_expiresAt w then Some w else None)"
  by (induction al) (auto simp: live_entries_def split: option.splits if_splits
      dest: map_of_SomeD, force+)

lemma findConflict_None:
  "findConflict g ws = None \<longleftrightarrow>
     (\<forall>e \<in> set ws. fst e \<noteq> rg_ID g \<longrightarrow>
       wk_instanceID (snd e) \<noteq> rg_instanceID g \<and> wk_endpoint (snd e) \<noteq> rg_endpoint g)"
  by (induction g ws rule: findConflict.induct) auto

subsection \<open>Preservation\<close>

lemma exclusive_subset: "exclusive vs \<Longrightarrow> set ws \<subseteq> set vs \<Longrightarrow> exclusive ws"
  unfolding exclusive_def by blast

lemma inv_subset:
  assumes "registry_inv lib r" and "set ws \<subseteq> set (ry_workers r)" and "distinct (map fst ws)"
  shows "registry_inv lib (r\<lparr>ry_workers := ws, ry_revision := n\<rparr>)"
  using assms exclusive_subset [of "ry_workers r" ws] by (auto simp: registry_inv_def)

lemma expire_inv: "registry_inv lib r \<Longrightarrow> registry_inv lib (expireLocked now r)"
  unfolding expireLocked_def Let_def
  by (rule inv_subset) (auto simp: live_entries_def registry_inv_def distinct_map_filter)

lemma drop_inv: "registry_inv lib r \<Longrightarrow> registry_inv lib (dropWorker i r)"
  using inv_subset [of lib r "AList.delete i (ry_workers r)"]
  by (auto simp: dropWorker_def bumpRevision_def set_delete registry_inv_def distinct_delete)

lemma bump_inv [simp]: "registry_inv lib (bumpRevision r) = registry_inv lib r"
  by (simp add: bumpRevision_def registry_inv_def)

lemma exclusive_update:
  assumes d: "distinct (map fst ws)" and x: "exclusive ws"
    and w: "\<And>e. e \<in> set ws \<Longrightarrow> fst e \<noteq> i \<Longrightarrow>
      wk_instanceID (snd e) \<noteq> wk_instanceID w \<and> wk_endpoint (snd e) \<noteq> wk_endpoint w"
  shows "exclusive (AList.update i w ws)"
  unfolding exclusive_def set_update_distinct [OF d]
proof (intro ballI impI)
  fix u v
  assume "u \<in> insert (i, w) {e \<in> set ws. fst e \<noteq> i}" "v \<in> insert (i, w) {e \<in> set ws. fst e \<noteq> i}"
    "fst u \<noteq> fst v"
  then consider "u = (i, w)" "v \<in> set ws" "fst v \<noteq> i" | "v = (i, w)" "u \<in> set ws" "fst u \<noteq> i"
    | "u \<in> set ws" "v \<in> set ws" "fst u \<noteq> fst v" by auto
  then show "wk_instanceID (snd u) \<noteq> wk_instanceID (snd v) \<and> wk_endpoint (snd u) \<noteq> wk_endpoint (snd v)"
  proof cases
    case 1
    then show ?thesis using w [of v] by (metis snd_conv)
  next
    case 2
    then show ?thesis using w [of u] by simp
  next
    case 3
    then show ?thesis using x by (simp add: exclusive_def)
  qed
qed

lemma store_inv:
  assumes "registry_inv lib r" and "entry_ok lib (ry_ttl r) (i, w)"
    and "\<And>e. e \<in> set (ry_workers r) \<Longrightarrow> fst e \<noteq> i \<Longrightarrow>
      wk_instanceID (snd e) \<noteq> wk_instanceID w \<and> wk_endpoint (snd e) \<noteq> wk_endpoint w"
  shows "registry_inv lib (storeWorker i w r)"
proof -
  have d: "distinct (map fst (ry_workers r))" using assms(1) by (simp add: registry_inv_def)
  have "exclusive (AList.update i w (ry_workers r))"
    using assms by (intro exclusive_update [OF d]) (auto simp: registry_inv_def)
  then show ?thesis
    using assms(1,2) by (auto simp: registry_inv_def storeWorker_def set_update_distinct [OF d] distinct_update)
qed

lemma expire_ttl [simp]: "ry_ttl (expireLocked now r) = ry_ttl r"
  by (simp add: expireLocked_def Let_def)

lemma expire_workers [simp]: "ry_workers (expireLocked now r) = live_entries now (ry_workers r)"
  by (simp add: expireLocked_def Let_def)

lemma bump_fields [simp]:
  "ry_workers (bumpRevision r) = ry_workers r" "ry_ttl (bumpRevision r) = ry_ttl r"
  "ry_revision (bumpRevision r) = ry_revision r + 1"
  by (simp_all add: bumpRevision_def)

lemma store_fields [simp]:
  "ry_workers (storeWorker i w r) = AList.update i w (ry_workers r)"
  "ry_ttl (storeWorker i w r) = ry_ttl r" "ry_revision (storeWorker i w r) = ry_revision r"
  by (simp_all add: storeWorker_def)

lemma inv_entry:
  "registry_inv lib r \<Longrightarrow> map_of (ry_workers r) i = Some w \<Longrightarrow> entry_ok lib (ry_ttl r) (i, w)"
  by (auto simp: registry_inv_def dest: map_of_SomeD)

lemma inv_exclusive:
  assumes "registry_inv lib r" and "map_of (ry_workers r) i = Some w"
    and "e \<in> set (ry_workers r)" and "fst e \<noteq> i"
  shows "wk_instanceID (snd e) \<noteq> wk_instanceID w \<and> wk_endpoint (snd e) \<noteq> wk_endpoint w"
  using assms(1,3,4) map_of_SomeD [OF assms(2)] by (fastforce simp: registry_inv_def exclusive_def)

lemma renew_inv:
  assumes "registry_inv lib r" and "map_of (ry_workers r) (rg_ID g) = Some existing"
    and "validateRegistration lib g = Inr ()" and "findConflict g (ry_workers r) = None"
  shows "registry_inv lib (fst (renewRegistration now fresh existing g r))"
proof -
  have "entry_ok lib (ry_ttl r) (rg_ID g, existing)" using inv_entry [OF assms(1,2)] .
  then have shape: "status_shape_ok (wk_status existing)" by (simp add: entry_ok_def)
  define input where "input = (if fresh then g else g\<lparr>rg_status := wk_status existing\<rparr>)"
  let ?w = "\<lparr>wk_registration = input, wk_registeredAt = wk_registeredAt existing,
    wk_lastSeen = now, wk_expiresAt = now + ry_ttl r,
    wk_statusObservedAt = (if fresh then now else wk_statusObservedAt existing)\<rparr>"
  have input: "rg_ID input = rg_ID g" "rg_instanceID input = rg_instanceID g"
    "rg_endpoint input = rg_endpoint g" "rg_schemaVersion input = rg_schemaVersion g"
    "rg_capabilities input = rg_capabilities g" "status_shape_ok (rg_status input)"
    using shape assms(3) by (auto simp: input_def validateRegistration_iff validateStatus_iff)
  have "entry_ok lib (ry_ttl r) (rg_ID g, ?w)"
    using assms(3) input by (simp add: entry_ok_def validateRegistration_iff)
  then have "registry_inv lib (storeWorker (rg_ID g) ?w r)"
    using assms(4) input by (intro store_inv [OF assms(1)]) (auto simp: findConflict_None)
  then show ?thesis
    using input(1) by (simp add: renewRegistration_def Let_def flip: input_def)
qed

lemma register_inv:
  assumes "registry_inv lib r"
  shows "registry_inv lib (fst (register lib now fresh raw r))"
proof -
  define g where "g = normalizeRegistration lib raw"
  define r1 where "r1 = expireLocked now r"
  have r1: "registry_inv lib r1" using expire_inv [OF assms] by (simp add: r1_def)
  show ?thesis
  proof (cases "validateRegistration lib g = Inr () \<and> findConflict g (ry_workers r1) = None")
    case False
    then show ?thesis using assms r1
      unfolding register_def g_def [symmetric] r1_def [symmetric] Let_def
      by (auto split: sum.splits option.splits)
  next
    case True
    then have v: "validateRegistration lib g = Inr ()" and c: "findConflict g (ry_workers r1) = None"
      by auto
    show ?thesis
    proof (cases "map_of (ry_workers r1) (rg_ID g)")
      case None
      let ?w = "\<lparr>wk_registration = g, wk_registeredAt = now, wk_lastSeen = now,
        wk_expiresAt = now + ry_ttl r1, wk_statusObservedAt = (if fresh then now else 0)\<rparr>"
      have "entry_ok lib (ry_ttl r1) (rg_ID g, ?w)"
        using v by (auto simp: validateRegistration_iff validateStatus_iff entry_ok_def)
      then have "registry_inv lib (storeWorker (rg_ID g) ?w r1)"
        using c by (intro store_inv [OF r1]) (auto simp: findConflict_None)
      then show ?thesis using v c None
        unfolding register_def g_def [symmetric] r1_def [symmetric] Let_def by simp
    next
      case (Some existing)
      then show ?thesis using v c r1 renew_inv [OF r1 Some v c]
        unfolding register_def g_def [symmetric] r1_def [symmetric] Let_def by simp
    qed
  qed
qed

lemma map_of_expired:
  assumes "registry_inv lib r" and "map_of (ry_workers r) i = Some w" and "now < wk_expiresAt w"
  shows "map_of (ry_workers (expireLocked now r)) i = Some w"
  using assms by (simp add: registry_inv_def map_of_live)

lemma heartbeatUpdate_inv:
  assumes r: "registry_inv lib r" and ex: "map_of (ry_workers r) i = Some existing"
  shows "registry_inv lib (fst (heartbeatUpdate now i st existing r))"
proof -
  note e = inv_entry [OF r ex]
  note x = inv_exclusive [OF r ex]
  show ?thesis
  proof (cases st)
    case None
    then show ?thesis using r e x
      by (auto simp: heartbeatUpdate_def Let_def entry_ok_def intro!: store_inv)
  next
    case (Some s)
    show ?thesis
    proof (cases "validateStatus s (wk_capabilities existing)")
      case (Inl err)
      then show ?thesis using Some r by (simp add: heartbeatUpdate_def)
    next
      case (Inr u)
      let ?w = "existing\<lparr>wk_registration := (wk_registration existing)\<lparr>rg_status := s\<rparr>,
        wk_statusObservedAt := now, wk_lastSeen := now, wk_expiresAt := now + ry_ttl r\<rparr>"
      have "status_shape_ok s" using Inr validateStatus_iff by (cases u) auto
      then have "registry_inv lib (storeWorker i ?w r)"
        using e x by (intro store_inv [OF r]) (auto simp: entry_ok_def)
      then show ?thesis using Some Inr by (simp add: heartbeatUpdate_def Let_def)
    qed
  qed
qed

lemma heartbeat_inv:
  assumes r: "registry_inv lib r"
  shows "registry_inv lib (fst (heartbeat now i beat r))"
proof (cases "map_of (ry_workers r) i")
  case None
  then show ?thesis using r expire_inv [OF r]
    by (auto simp: heartbeat_def split: sum.splits)
next
  case (Some existing)
  show ?thesis
  proof (cases "wk_expiresAt existing \<le> now")
    case True
    with Some show ?thesis using r expire_inv [OF drop_inv [OF r]]
      by (auto simp: heartbeat_def split: sum.splits)
  next
    case False
    then have "map_of (ry_workers (expireLocked now r)) i = Some existing"
      using map_of_expired [OF r Some] by simp
    with Some False show ?thesis
      using r expire_inv [OF r] heartbeatUpdate_inv [OF expire_inv [OF r]]
      by (auto simp: heartbeat_def Let_def split: sum.splits)
  qed
qed

lemma remove_inv:
  assumes r: "registry_inv lib r"
  shows "registry_inv lib (fst (removeWorker now i inst r))"
  using r expire_inv [OF r] drop_inv [OF r] drop_inv [OF expire_inv [OF r]] expire_inv [OF drop_inv [OF r]]
  by (auto simp: removeWorker_def Let_def split: option.splits)

lemma snapshot_inv: "registry_inv lib r \<Longrightarrow> registry_inv lib (fst (snapshot now r))"
  by (simp add: snapshot_def Let_def expire_inv)

lemma new_inv: "registry_inv lib (newRegistry ttl)"
  by (simp add: newRegistry_def registry_inv_def exclusive_def defaultLeaseTTL_def second_def)

section \<open>Runs of the registry\<close>

datatype registry_op =
    RegisterOp bool registration
  | HeartbeatOp string heartbeat_request
  | RemoveOp string string
  | SnapshotOp

fun applyOp :: "url_library \<Rightarrow> instant \<Rightarrow> registry_op \<Rightarrow> registry \<Rightarrow> registry" where
  "applyOp lib now (RegisterOp fresh raw) r = fst (register lib now fresh raw r)"
| "applyOp lib now (HeartbeatOp i beat) r = fst (heartbeat now i beat r)"
| "applyOp lib now (RemoveOp i inst) r = fst (removeWorker now i inst r)"
| "applyOp lib now SnapshotOp r = fst (snapshot now r)"

fun runOps :: "url_library \<Rightarrow> (instant \<times> registry_op) list \<Rightarrow> registry \<Rightarrow> registry" where
  "runOps lib [] r = r"
| "runOps lib ((now, op) # ops) r = runOps lib ops (applyOp lib now op r)"

inductive registry_reachable :: "url_library \<Rightarrow> registry \<Rightarrow> bool" for lib :: url_library where
  fresh_registry: "registry_reachable lib (newRegistry ttl)"
| registry_step: "registry_reachable lib r \<Longrightarrow> registry_reachable lib (applyOp lib now op r)"

lemma applyOp_inv: "registry_inv lib r \<Longrightarrow> registry_inv lib (applyOp lib now op r)"
  by (cases op) (auto intro: register_inv heartbeat_inv remove_inv snapshot_inv)

lemma reachable_inv: "registry_reachable lib r \<Longrightarrow> registry_inv lib r"
  by (induction rule: registry_reachable.induct) (auto intro: new_inv applyOp_inv)

lemma reachable_runOps: "registry_reachable lib r \<Longrightarrow> registry_reachable lib (runOps lib ops r)"
  by (induction lib ops r rule: runOps.induct) (auto intro: registry_step)

subsection \<open>The revision tracks the registrations\<close>

definition registrations :: "registry \<Rightarrow> string \<Rightarrow> registration option" where
  "registrations r i = map_option wk_registration (map_of (ry_workers r) i)"

definition tracks :: "nat \<Rightarrow> registry \<Rightarrow> registry \<Rightarrow> bool" where
  "tracks k r r' \<longleftrightarrow>
     ry_revision r' = ry_revision r + word_of_nat k \<and> (k = 0 \<longrightarrow> registrations r' = registrations r)"

definition tracked :: "registry \<Rightarrow> registry \<Rightarrow> nat \<Rightarrow> bool" where
  "tracked r r' n \<longleftrightarrow> (\<exists>k \<le> n. tracks k r r')"

lemma tracked_refl [simp]: "tracked r r n"
  by (auto simp: tracked_def tracks_def intro!: exI [of _ 0])

lemma tracked_trans: "tracked r s m \<Longrightarrow> tracked s t n \<Longrightarrow> tracked r t (m + n)"
proof -
  assume "tracked r s m" "tracked s t n"
  then obtain j k where "j \<le> m" "k \<le> n" "tracks j r s" "tracks k s t" by (auto simp: tracked_def)
  then have "tracks (j + k) r t" "j + k \<le> m + n" by (auto simp: tracks_def)
  then show ?thesis by (auto simp: tracked_def)
qed

lemma tracked_mono: "tracked r s m \<Longrightarrow> m \<le> n \<Longrightarrow> tracked r s n"
  by (auto simp: tracked_def intro: order_trans)

lemma tracked_bump: "ry_revision r' = ry_revision r + 1 \<Longrightarrow> tracked r r' 1"
  by (auto simp: tracked_def tracks_def intro!: exI [of _ 1])

lemma tracked_expire: "tracked r (expireLocked now r) 1"
proof (cases "length (live_entries now (ry_workers r)) < length (ry_workers r)")
  case True
  then show ?thesis by (intro tracked_bump) (simp add: expireLocked_def Let_def)
next
  case False
  then have "live_entries now (ry_workers r) = ry_workers r"
    unfolding live_entries_def
    by (metis filter_id_conv length_filter_less linorder_not_le nle_le order_le_less)
  then have "expireLocked now r = r" by (simp add: expireLocked_def Let_def)
  then show ?thesis by simp
qed

lemma tracked_drop: "tracked r (dropWorker i r) 1"
  by (rule tracked_bump) (simp add: dropWorker_def)

lemma tracked_store_same:
  assumes "map_of (ry_workers r) i = Some existing" and "wk_registration w = wk_registration existing"
  shows "tracked r (storeWorker i w r) 0"
  using assms by (auto simp: tracked_def tracks_def registrations_def update_conv' fun_eq_iff)

lemma tracked_renew:
  assumes "map_of (ry_workers r) (rg_ID g) = Some existing"
  shows "tracked r (fst (renewRegistration now fresh existing g r)) 1"
proof -
  define input where "input = (if fresh then g else g\<lparr>rg_status := wk_status existing\<rparr>)"
  let ?w = "\<lparr>wk_registration = input, wk_registeredAt = wk_registeredAt existing,
    wk_lastSeen = now, wk_expiresAt = now + ry_ttl r,
    wk_statusObservedAt = (if fresh then now else wk_statusObservedAt existing)\<rparr>"
  have i: "rg_ID input = rg_ID g" by (simp add: input_def)
  have "tracked r (storeWorker (rg_ID g) ?w r) 1" if "wk_registration existing = input"
    using tracked_store_same [OF assms, of ?w] that by (auto intro: tracked_mono)
  moreover have "tracked r (bumpRevision (storeWorker (rg_ID g) ?w r)) 1"
    by (rule tracked_bump) simp
  ultimately show ?thesis
    by (auto simp: renewRegistration_def Let_def i simp flip: input_def)
qed

lemma tracked_register: "tracked r (fst (register lib now fresh raw r)) 2"
proof -
  define g where "g = normalizeRegistration lib raw"
  define r1 where "r1 = expireLocked now r"
  have e: "tracked r r1 1" unfolding r1_def by (rule tracked_expire)
  have base: "tracked r r1 2" by (rule tracked_mono [OF e]) simp
  have add: "tracked r t 2" if "tracked r1 t 1" for t using tracked_trans [OF e that] by (metis one_add_one)
  have bump: "tracked r (bumpRevision (storeWorker i w r1)) 2" for i w
    by (rule add, rule tracked_bump) simp
  have renew: "tracked r (fst (renewRegistration now fresh existing g r1)) 2"
    if "map_of (ry_workers r1) (rg_ID g) = Some existing" for existing
    by (rule add, rule tracked_renew) (rule that)
  show ?thesis
    unfolding register_def g_def [symmetric] r1_def [symmetric] Let_def
    using base bump renew by (simp split: sum.split option.split)
qed

lemma tracked_heartbeatUpdate:
  assumes "map_of (ry_workers r) i = Some existing"
  shows "tracked r (fst (heartbeatUpdate now i st existing r)) 1"
proof (cases st)
  case None
  have "tracked r (storeWorker i (existing\<lparr>wk_lastSeen := now, wk_expiresAt := now + ry_ttl r\<rparr>) r) 0"
    by (rule tracked_store_same [OF assms]) simp
  then show ?thesis using None by (auto simp: heartbeatUpdate_def Let_def intro: tracked_mono)
next
  case (Some s)
  show ?thesis
  proof (cases "validateStatus s (wk_capabilities existing)")
    case (Inl err)
    then show ?thesis using Some by (simp add: heartbeatUpdate_def)
  next
    case (Inr u)
    let ?w = "existing\<lparr>wk_registration := (wk_registration existing)\<lparr>rg_status := s\<rparr>,
      wk_statusObservedAt := now, wk_lastSeen := now, wk_expiresAt := now + ry_ttl r\<rparr>"
    have "tracked r (storeWorker i ?w r) 1" if "wk_status existing = s"
      using tracked_store_same [OF assms, of ?w] that by (auto intro: tracked_mono)
    moreover have "tracked r (bumpRevision (storeWorker i ?w r)) 1" by (rule tracked_bump) simp
    ultimately show ?thesis using Some Inr by (auto simp: heartbeatUpdate_def Let_def)
  qed
qed

lemma tracked_drop_expire: "tracked r (expireLocked now (dropWorker i r)) 2"
  using tracked_trans [OF tracked_drop tracked_expire] by (metis one_add_one)

lemma tracked_expire_mono: "tracked r (expireLocked now r) 2"
  using tracked_expire by (rule tracked_mono) simp

lemma tracked_applyOp:
  assumes "registry_inv lib r"
  shows "tracked r (applyOp lib now op r) 2"
proof (cases op)
  case (RegisterOp fresh raw)
  then show ?thesis by (simp add: tracked_register)
next
  case (HeartbeatOp i beat)
  show ?thesis
  proof (cases "map_of (ry_workers r) i")
    case None
    then show ?thesis using HeartbeatOp tracked_expire_mono
      by (auto simp: heartbeat_def split: sum.splits)
  next
    case (Some existing)
    show ?thesis
    proof (cases "now < wk_expiresAt existing")
      case True
      have "tracked r (fst (heartbeatUpdate now i st existing (expireLocked now r))) 2" for st
        using tracked_trans [OF tracked_expire tracked_heartbeatUpdate [OF map_of_expired [OF assms Some True]]]
        by (metis one_add_one)
      then show ?thesis using HeartbeatOp Some True tracked_expire_mono
        by (auto simp: heartbeat_def Let_def split: sum.splits)
    next
      case False
      then show ?thesis using HeartbeatOp Some tracked_drop_expire
        by (auto simp: heartbeat_def split: sum.splits)
    qed
  qed
next
  case (RemoveOp i inst)
  have "tracked r (dropWorker i (expireLocked now r)) 2"
    using tracked_trans [OF tracked_expire tracked_drop] by (metis one_add_one)
  then show ?thesis using RemoveOp tracked_expire_mono tracked_drop_expire
    by (auto simp: removeWorker_def Let_def split: option.splits)
next
  case SnapshotOp
  then show ?thesis using tracked_expire_mono by (simp add: snapshot_def Let_def)
qed

lemma tracked_runOps: "registry_inv lib r \<Longrightarrow> tracked r (runOps lib ops r) (2 * length ops)"
proof (induction ops arbitrary: r)
  case Nil
  then show ?case by simp
next
  case (Cons a ops)
  obtain now op where a: "a = (now, op)" by (cases a)
  have "tracked (applyOp lib now op r) (runOps lib ops (applyOp lib now op r)) (2 * length ops)"
    using Cons by (auto intro: applyOp_inv)
  from tracked_trans [OF tracked_applyOp [OF Cons.prems] this] show ?case by (simp add: a)
qed

lemma tracked_same_revision:
  assumes "tracked r r' n" and "n < 18446744073709551616" and "ry_revision r' = ry_revision r"
  shows "registrations r' = registrations r"
proof -
  obtain k where k: "k \<le> n" "tracks k r r'" using assms(1) by (auto simp: tracked_def)
  then have "(word_of_nat k :: u64) = 0" using assms(3) by (simp add: tracks_def)
  moreover have "k < 18446744073709551616" using k(1) assms(2) by simp
  ultimately have "k = 0" by (metis unat_u64_of_nat unat_0)
  with k(2) show ?thesis by (simp add: tracks_def)
qed

subsection \<open>Leases\<close>

text \<open>An operation that the holder of the lease issues for its own entry.\<close>

fun issued_by :: "registry_op \<Rightarrow> string \<Rightarrow> string \<Rightarrow> bool" where
  "issued_by (RegisterOp fresh raw) i inst = (rg_ID raw = i \<and> rg_instanceID raw = inst)"
| "issued_by (HeartbeatOp j beat) i inst = (j = i \<and> hb_instanceID beat = inst)"
| "issued_by (RemoveOp j jinst) i inst = (j = i \<and> jinst = inst)"
| "issued_by SnapshotOp i inst = False"

lemma normalize_identity [simp]:
  "rg_ID (normalizeRegistration lib raw) = rg_ID raw"
  "rg_instanceID (normalizeRegistration lib raw) = rg_instanceID raw"
  by (simp_all add: normalizeRegistration_def)

lemma map_of_drop_other: "j \<noteq> i \<Longrightarrow> map_of (ry_workers (dropWorker j r)) i = map_of (ry_workers r) i"
  by (simp add: dropWorker_def delete_conv')

lemma workers_if_bump [simp]: "ry_workers (if c then bumpRevision s else s) = ry_workers s"
  by simp

lemma renew_workers:
  "\<exists>w. ry_workers (fst (renewRegistration now fresh existing g r)) = AList.update (rg_ID g) w (ry_workers r)"
proof -
  have "rg_ID (if fresh then g else g\<lparr>rg_status := st\<rparr>) = rg_ID g" for st by simp
  then show ?thesis
    by (simp only: renewRegistration_def Let_def fst_conv workers_if_bump store_fields) blast
qed

lemma map_of_renew_other:
  "rg_ID g \<noteq> i \<Longrightarrow>
   map_of (ry_workers (fst (renewRegistration now fresh existing g r))) i = map_of (ry_workers r) i"
  using renew_workers [of now fresh existing g r] by (auto simp: update_conv')

lemma map_of_heartbeatUpdate_other:
  "j \<noteq> i \<Longrightarrow>
   map_of (ry_workers (fst (heartbeatUpdate now j st existing r))) i = map_of (ry_workers r) i"
  by (auto simp: heartbeatUpdate_def Let_def update_conv' split: option.splits sum.splits)

lemma lease_protected:
  assumes r: "registry_inv lib r" and w: "map_of (ry_workers r) i = Some w"
    and live: "now < wk_expiresAt w" and other: "\<not> issued_by op i (wk_instanceID w)"
  shows "map_of (ry_workers (applyOp lib now op r)) i = Some w"
proof -
  have e: "map_of (ry_workers (expireLocked now r)) i = Some w" by (rule map_of_expired [OF r w live])
  then have e': "map_of (live_entries now (ry_workers r)) i = Some w" by simp
  have d: "map_of (ry_workers (expireLocked now (dropWorker j r))) i = Some w" if "j \<noteq> i" for j
    using map_of_expired [OF drop_inv [OF r] _ live] w that
    by (simp add: map_of_drop_other del: expire_workers)
  show ?thesis
  proof (cases op)
    case (RegisterOp fresh raw)
    show ?thesis
    proof (cases "rg_ID raw = i")
      case True
      then show ?thesis using RegisterOp other w e'
        by (simp add: register_def Let_def split: sum.split option.split)
    next
      case False
      then show ?thesis using RegisterOp w e'
        by (simp add: register_def Let_def map_of_renew_other update_conv' split: sum.split option.split)
    qed
  next
    case (HeartbeatOp j beat)
    show ?thesis
    proof (cases "j = i")
      case True
      then show ?thesis using HeartbeatOp other w live e'
        by (simp add: heartbeat_def Let_def split: sum.split)
    next
      case False
      then show ?thesis using HeartbeatOp w e' d
        by (simp add: heartbeat_def Let_def map_of_heartbeatUpdate_other split: sum.split option.split)
    qed
  next
    case (RemoveOp j inst)
    show ?thesis
    proof (cases "j = i")
      case True
      then show ?thesis using RemoveOp other w live e' by (simp add: removeWorker_def Let_def)
    next
      case False
      then show ?thesis using RemoveOp w e' d
        by (simp add: removeWorker_def Let_def map_of_drop_other split: option.split)
    qed
  next
    case SnapshotOp
    then show ?thesis using e by (simp add: snapshot_def Let_def)
  qed
qed

section \<open>Snapshots\<close>

interpretation by_id: comparison "\<lambda>l r. go_compare (wk_ID l) (wk_ID r)"
  by (rule comparison_go_compare)

interpretation by_shard: comparison "\<lambda>l r. go_compare (rsh_ID l) (rsh_ID r)"
  by (rule comparison_go_compare)

interpretation by_protocol: comparison "\<lambda>l r. go_compare (tr_protocol l) (tr_protocol r)"
  by (rule comparison_go_compare)

text \<open>
  What the scheduler and the planner rely on when they take a snapshot of an inventory:
  one worker per ID, the current schema, the caller's clock reading, and a positive TTL.
\<close>

locale inventory_source =
  fixes take_snapshot :: "instant \<Rightarrow> 's \<Rightarrow> 's \<times> inventory"
    and sound :: "'s \<Rightarrow> bool"
  assumes sound_snapshot: "sound s \<Longrightarrow> sound (fst (take_snapshot now s))"
    and snapshot_distinct: "sound s \<Longrightarrow> distinct (map wk_ID (inv_workers (snd (take_snapshot now s))))"
    and snapshot_schema: "inv_schemaVersion (snd (take_snapshot now s)) = registrySchemaVersion"
    and snapshot_time: "inv_generatedAt (snd (take_snapshot now s)) = now"
    and snapshot_live: "sound s \<Longrightarrow> w \<in> set (inv_workers (snd (take_snapshot now s))) \<Longrightarrow> now < wk_expiresAt w"
begin

text \<open>The lookup table the clients build from a snapshot finds every worker again.\<close>

lemma lookup_worker:
  assumes "sound s" and "w \<in> set (inv_workers (snd (take_snapshot now s)))"
  shows "map_of (map (\<lambda>w. (wk_ID w, w)) (inv_workers (snd (take_snapshot now s)))) (wk_ID w) = Some w"
  using snapshot_distinct [OF assms(1), of now] assms(2)
  by (intro map_of_is_SomeI) (auto simp: comp_def)

lemma lookup_sound:
  assumes "sound s"
    and "map_of (map (\<lambda>w. (wk_ID w, w)) (inv_workers (snd (take_snapshot now s)))) i = Some w"
  shows "wk_ID w = i \<and> now < wk_expiresAt w"
  using map_of_SomeD [OF assms(2)] snapshot_live [OF assms(1)] by auto

end

lemma inv_ids:
  "registry_inv lib r \<Longrightarrow> map wk_ID (map snd (ry_workers r)) = map fst (ry_workers r)"
  by (auto simp: registry_inv_def entry_ok_def)

lemma snapshot_workers:
  "set (inv_workers (snd (snapshot now r))) = {w. \<exists>i. (i, w) \<in> set (ry_workers r) \<and> now < wk_expiresAt w}"
  by (force simp: snapshot_def Let_def live_entries_def)

interpretation registry_source: inventory_source snapshot "registry_inv lib"
proof unfold_locales
  fix s and now :: instant
  assume s: "registry_inv lib s"
  show "registry_inv lib (fst (snapshot now s))" by (rule snapshot_inv [OF s])
  have "distinct (map fst (live_entries now (ry_workers s)))"
    using s by (intro distinct_live) (simp add: registry_inv_def)
  then have "distinct (map wk_ID (map snd (live_entries now (ry_workers s))))"
    using inv_ids [OF expire_inv [OF s, of now]] by (simp only: expire_workers)
  then show "distinct (map wk_ID (inv_workers (snd (snapshot now s))))"
    by (simp add: snapshot_def Let_def distinct_map_sort_by)
  fix w
  assume "w \<in> set (inv_workers (snd (snapshot now s)))"
  then show "now < wk_expiresAt w" by (auto simp: snapshot_workers)
qed (simp_all add: snapshot_def Let_def)

lemma snapshot_sorted:
  "sorted_wrt (\<lambda>l r. go_compare (wk_ID l) (wk_ID r) \<le> 0) (inv_workers (snd (snapshot now r)))"
  by (simp add: snapshot_def Let_def by_id.sorted_sort_by)

lemma heartbeat_stores:
  assumes r: "registry_inv lib r" and ok: "snd (heartbeat now i beat r) = Inr m"
  shows "map_of (ry_workers (fst (heartbeat now i beat r))) i = Some (mu_worker m) \<and>
    wk_expiresAt (mu_worker m) = now + ry_ttl r \<and> wk_lastSeen (mu_worker m) = now \<and>
    wk_instanceID (mu_worker m) = hb_instanceID beat"
proof -
  obtain existing where ex: "map_of (ry_workers r) i = Some existing" "now < wk_expiresAt existing"
    "wk_instanceID existing = hb_instanceID beat"
    and h: "heartbeat now i beat r =
      heartbeatUpdate now i (map_option normalizeStatus (hb_status beat)) existing (expireLocked now r)"
    using ok by (auto simp: heartbeat_def Let_def split: sum.splits option.splits if_splits)
  show ?thesis
    using ok ex(3) unfolding h
    by (auto simp: heartbeatUpdate_def Let_def mutationOf_def update_conv'
        split: option.splits sum.splits if_splits)
qed

subsection \<open>Available and physical memory\<close>

text \<open>
  The check that a status reports no more available than physical memory is the one that the
  invariant leaves out. A registration that is marked stale keeps the cached status of the
  entry it renews, and no check relates it to the new capabilities; every other operation
  keeps the check.
\<close>

definition memory_fits :: "worker \<Rightarrow> bool" where
  "memory_fits w \<longleftrightarrow> st_availableMemoryBytes (wk_status w) \<le> cap_physicalMemoryBytes (wk_capabilities w)"

fun stale_for :: "registry_op \<Rightarrow> string \<Rightarrow> bool" where
  "stale_for (RegisterOp fresh raw) i = (\<not> fresh \<and> rg_ID raw = i)"
| "stale_for (HeartbeatOp j beat) i = False"
| "stale_for (RemoveOp j inst) i = False"
| "stale_for SnapshotOp i = False"

definition fits_at :: "string \<Rightarrow> registry \<Rightarrow> bool" where
  "fits_at i r \<longleftrightarrow> (\<forall>e \<in> set (ry_workers r). fst e = i \<longrightarrow> memory_fits (snd e))"

lemma fits_at_updates:
  "fits_at i r \<Longrightarrow> fits_at i (expireLocked now r)"
  "fits_at i r \<Longrightarrow> fits_at i (dropWorker j r)"
  "fits_at i (bumpRevision r) = fits_at i r"
  by (auto simp: fits_at_def live_entries_def dropWorker_def set_delete)

lemma fits_at_store:
  "registry_inv lib r \<Longrightarrow> fits_at i r \<Longrightarrow> (j = i \<Longrightarrow> memory_fits w) \<Longrightarrow> fits_at i (storeWorker j w r)"
  by (auto simp: fits_at_def registry_inv_def set_update_distinct)

lemma fits_at_entry: "fits_at i r \<Longrightarrow> map_of (ry_workers r) i = Some w \<Longrightarrow> memory_fits w"
  by (force simp: fits_at_def dest: map_of_SomeD)

lemma register_fits:
  assumes "registry_inv lib r" "fits_at i r" "\<not> stale_for (RegisterOp fresh raw) i"
  shows "fits_at i (fst (register lib now fresh raw r))"
proof -
  define g where "g = normalizeRegistration lib raw"
  define r1 where "r1 = expireLocked now r"
  have r1: "registry_inv lib r1" "fits_at i r1"
    using expire_inv [OF assms(1)] fits_at_updates(1) [OF assms(2)] by (simp_all add: r1_def)
  have g: "rg_ID g = rg_ID raw" by (simp add: g_def)
  show ?thesis
  proof (cases "validateRegistration lib g = Inr () \<and> findConflict g (ry_workers r1) = None")
    case False
    then show ?thesis using assms r1
      unfolding register_def g_def [symmetric] r1_def [symmetric] Let_def
      by (auto split: sum.splits option.splits)
  next
    case True
    have sent: "st_availableMemoryBytes (rg_status g) \<le> cap_physicalMemoryBytes (rg_capabilities g)"
      using True by (simp add: validateRegistration_iff validateStatus_iff)
    show ?thesis
    proof (cases "map_of (ry_workers r1) (rg_ID g)")
      case None
      then show ?thesis using True sent fits_at_store [OF r1]
        unfolding register_def g_def [symmetric] r1_def [symmetric] Let_def
        by (simp add: fits_at_updates(3) memory_fits_def)
    next
      case (Some existing)
      define input where "input = (if fresh then g else g\<lparr>rg_status := wk_status existing\<rparr>)"
      have input: "rg_ID input = rg_ID raw" "fresh \<Longrightarrow> input = g" using g by (auto simp: input_def)
      have "fits_at i (storeWorker (rg_ID input) w r1)" if "wk_registration w = input" for w
        using that sent assms(3) input by (intro fits_at_store [OF r1]) (auto simp: memory_fits_def)
      then have "fits_at i (fst (renewRegistration now fresh existing g r1))"
        by (simp add: renewRegistration_def Let_def fits_at_updates(3) flip: input_def)
      then show ?thesis using Some True r1(2)
        unfolding register_def g_def [symmetric] r1_def [symmetric] Let_def by simp
    qed
  qed
qed

lemma heartbeat_fits:
  assumes "registry_inv lib r" "fits_at i r"
  shows "fits_at i (fst (heartbeat now j beat r))"
proof (cases "map_of (ry_workers r) j")
  case None
  then show ?thesis using assms(2) fits_at_updates by (auto simp: heartbeat_def split: sum.splits)
next
  case (Some existing)
  have "fits_at i (fst (heartbeatUpdate now j st existing (expireLocked now r)))" for st
    using fits_at_store [OF expire_inv [OF assms(1)] fits_at_updates(1) [OF assms(2)]] Some
      fits_at_entry [OF assms(2)] fits_at_updates(1) [OF assms(2)] validateStatus_iff
    by (cases "j = i")
      (auto simp: heartbeatUpdate_def Let_def fits_at_updates(3) memory_fits_def split: option.splits sum.splits)
  then show ?thesis
    using Some assms(2) fits_at_updates by (auto simp: heartbeat_def Let_def split: sum.splits)
qed

lemma applyOp_fits:
  "registry_inv lib r \<Longrightarrow> fits_at i r \<Longrightarrow> \<not> stale_for op i \<Longrightarrow> fits_at i (applyOp lib now op r)"
  using register_fits heartbeat_fits
  by (cases op) (auto simp: removeWorker_def snapshot_def Let_def fits_at_updates split: option.splits)

lemma runOps_fits:
  "registry_inv lib r \<Longrightarrow> fits_at i r \<Longrightarrow> \<forall>(now, op) \<in> set ops. \<not> stale_for op i \<Longrightarrow> fits_at i (runOps lib ops r)"
  by (induction lib ops r rule: runOps.induct) (auto intro: applyOp_fits applyOp_inv)

text \<open>The one check is all that an entry of the invariant can fail.\<close>

lemma entry_validates:
  "entry_ok lib ttl e \<Longrightarrow>
   validateRegistration lib (wk_registration (snd e)) = Inr () \<longleftrightarrow> memory_fits (snd e)"
  by (auto simp: entry_ok_def validateRegistration_iff validateStatus_iff memory_fits_def)

section \<open>A concrete inventory\<close>

text \<open>
  A URL library that is right for the endpoints of the form \<open>http://name\<close> used below,
  two workers, and the inventory after both have registered.
\<close>

definition demo_urls :: url_library where
  "demo_urls =
     \<lparr>url_parse = (\<lambda>s. Some \<lparr>u_scheme = take 4 s, u_host = drop 7 s, u_hostname = drop 7 s, u_port = [],
        u_hasUser = False, u_rawQuery = [], u_fragment = [], u_rest = []\<rparr>),
      url_string = (\<lambda>u. u_scheme u @ ''://'' @ u_host u), to_lower = (\<lambda>s. s)\<rparr>"

definition demo_capabilities :: "u64 \<Rightarrow> capabilities" where
  "demo_capabilities memory =
     \<lparr>cap_backend = ''mlx'', cap_runtime = ''mlx-swift'', cap_os = ''macos'', cap_architecture = ''arm64'',
      cap_device = ''gpu'', cap_physicalMemoryBytes = memory, cap_adapters = [''qwen''],
      cap_operations = [''generate''], cap_checkpointFingerprints = [''f''],
      cap_admission = \<lparr>al_maxConcurrentRequests = 1, al_maxOpenSequencesPerShard = 2, al_retainedByteBudget = 64\<rparr>,
      cap_transports = [\<lparr>tr_protocol = ''http'', tr_tensorEncodings = [''raw''], tr_maxRequestBytes = 9, tr_tls = False\<rparr>]\<rparr>"

definition demo_status :: "u64 \<Rightarrow> status" where
  "demo_status available =
     \<lparr>st_health = healthHealthy, st_availableMemoryBytes = available, st_memoryPressureBytes = 0,
      st_openSequenceCount = 0, st_retainedBytes = 0, st_restartCount = 0, st_recentFailureCount = 0,
      st_workerObservationSequence = 1, st_retainedShards = []\<rparr>"

definition demo_registration :: "string \<Rightarrow> u64 \<Rightarrow> u64 \<Rightarrow> registration" where
  "demo_registration i memory available =
     \<lparr>rg_schemaVersion = 1, rg_ID = i, rg_instanceID = i @ ''-1'', rg_endpoint = ''http://'' @ i,
      rg_capabilities = demo_capabilities memory, rg_status = demo_status available\<rparr>"

definition demo_worker :: "instant \<Rightarrow> string \<Rightarrow> u64 \<Rightarrow> u64 \<Rightarrow> worker" where
  "demo_worker now i memory available =
     \<lparr>wk_registration = demo_registration i memory available, wk_registeredAt = now, wk_lastSeen = now,
      wk_expiresAt = now + 1000000000, wk_statusObservedAt = now\<rparr>"

definition demo_registry :: registry where
  "demo_registry =
     runOps demo_urls
       [(1000, RegisterOp True (demo_registration ''b'' 100 90)),
        (2000, RegisterOp True (demo_registration ''a'' 100 80))] (newRegistry 1000000000)"

lemma demo_reachable: "registry_reachable demo_urls demo_registry"
  unfolding demo_registry_def by (rule reachable_runOps) (rule fresh_registry)

lemma demo_fields [simp]:
  "rg_ID (demo_registration i m a) = i" "rg_instanceID (demo_registration i m a) = i @ ''-1''"
  "rg_endpoint (demo_registration i m a) = ''http://'' @ i" "rg_schemaVersion (demo_registration i m a) = 1"
  "rg_capabilities (demo_registration i m a) = demo_capabilities m"
  "rg_status (demo_registration i m a) = demo_status a"
  by (simp_all add: demo_registration_def)

lemma normalizeStrings_single:
  "normalizeStrings [s] = (if trim_space s = [] then [] else [trim_space s])"
  by (simp add: normalizeStrings_def)

lemma demo_capabilities_normal: "normalizeCapabilities (demo_capabilities m) = demo_capabilities m"
  by (simp add: normalizeCapabilities_def demo_capabilities_def normalizeStrings_single
      trim_space_eval visible_eval)

lemma demo_capabilities_valid: "m \<noteq> 0 \<Longrightarrow> validateCapabilities (demo_capabilities m) = Inr ()"
  by (simp add: validateCapabilities_def demo_capabilities_def trim_space_eval visible_eval)

lemma demo_status_valid: "a \<le> m \<Longrightarrow> validateStatus (demo_status a) (demo_capabilities m) = Inr ()"
  by (simp add: validateStatus_def demo_status_def demo_capabilities_def go_eval)

lemma demo_normal:
  "i \<in> {''a'', ''b''} \<Longrightarrow> normalizeRegistration demo_urls (demo_registration i m a) = demo_registration i m a"
  by (auto simp: normalizeRegistration_def demo_registration_def demo_capabilities_normal normalizeStatus_def
      demo_status_def canonicalEndpoint_def demo_urls_def trim_right_slash_def lowerHostname_def)

lemma demo_valid:
  "i \<in> {''a'', ''b''} \<Longrightarrow> m \<noteq> 0 \<Longrightarrow> a \<le> m \<Longrightarrow>
   validateRegistration demo_urls (demo_registration i m a) = Inr ()"
  by (auto simp: validateRegistration_iff demo_capabilities_valid demo_status_valid validateEndpoint_def
      demo_urls_def validateIdentity_def validIdentityPart_def identity_char_def in_range_def go_eval)

lemma demo_registry_eq:
  "demo_registry =
     \<lparr>ry_workers = [(''b'', demo_worker 1000 ''b'' 100 90), (''a'', demo_worker 2000 ''a'' 100 80)],
      ry_revision = 2, ry_ttl = 1000000000\<rparr>"
  by (simp add: demo_registry_def newRegistry_def register_def Let_def demo_normal demo_valid
      expireLocked_def live_entries_def storeWorker_def bumpRevision_def mutationOf_def demo_worker_def)

section \<open>Properties\<close>

text \<open>
  C5: whatever sequence of operations has run, the inventory has one entry per worker ID,
  every lease is one TTL long, and no instance or endpoint is held by two worker IDs. The
  identity, the endpoint, the capabilities and the status of every entry pass their checks,
  except that of available against physical memory: every entry passes that one too, and
  with it the validation of a whole registration, unless a registration of its worker ID was
  marked stale. Such a renewal keeps a cached status unchecked.
\<close>

theorem membership_invariant:
  "registry_inv lib (runOps lib ops (newRegistry ttl)) \<and>
   (\<forall>e \<in> set (ry_workers (runOps lib ops (newRegistry ttl))).
      (\<forall>(now, op) \<in> set ops. \<not> stale_for op (fst e)) \<longrightarrow>
      validateRegistration lib (wk_registration (snd e)) = Inr ())"
proof -
  have inv: "registry_inv lib (runOps lib ops (newRegistry ttl))"
    by (intro reachable_inv reachable_runOps fresh_registry)
  have "validateRegistration lib (wk_registration (snd e)) = Inr ()"
    if e: "e \<in> set (ry_workers (runOps lib ops (newRegistry ttl)))" and fresh: "\<forall>(now, op) \<in> set ops. \<not> stale_for op (fst e)" for e
  proof -
    have "fits_at (fst e) (runOps lib ops (newRegistry ttl))"
      by (rule runOps_fits [OF new_inv _ fresh]) (simp add: fits_at_def newRegistry_def)
    then have "memory_fits (snd e)" using e by (simp add: fits_at_def)
    moreover have "entry_ok lib (ry_ttl (runOps lib ops (newRegistry ttl))) e"
      using inv e by (simp add: registry_inv_def)
    ultimately show ?thesis using entry_validates by blast
  qed
  with inv show ?thesis by blast
qed

text \<open>
  C13: a lease protects its holder: until it expires, no operation other than the ones the
  holder issues for its own ID (with its own instance) changes or removes the entry.
\<close>

theorem unexpired_lease_protected:
  assumes "registry_reachable lib r" and "map_of (ry_workers r) i = Some w"
    and "now < wk_expiresAt w" and "\<not> issued_by op i (wk_instanceID w)"
  shows "map_of (ry_workers (applyOp lib now op r)) i = Some w"
  using reachable_inv [OF assms(1)] assms(2-4) by (rule lease_protected)

text \<open>
  the inventory revision pins the registrations: if the revision is the same before
  and after a run of fewer than $2^{63}$ operations, the registered workers and all their
  advertised data are the same.
\<close>

theorem revision_pins_registrations:
  assumes "registry_reachable lib r" and "length ops < 9223372036854775808"
    and "ry_revision (runOps lib ops r) = ry_revision r"
  shows "registrations (runOps lib ops r) = registrations r"
  using tracked_runOps [OF reachable_inv [OF assms(1)]] _ assms(3)
  by (rule tracked_same_revision) (use assms(2) in simp)

text \<open>
  a snapshot lists exactly the workers with unexpired leases, once each, ordered by ID.
\<close>

theorem snapshot_lists_live_workers:
  assumes "registry_reachable lib r"
  shows "set (inv_workers (snd (snapshot now r))) =
      {w. \<exists>i. (i, w) \<in> set (ry_workers r) \<and> now < wk_expiresAt w} \<and>
    distinct (map wk_ID (inv_workers (snd (snapshot now r)))) \<and>
    sorted_wrt (\<lambda>v w. go_compare (wk_ID v) (wk_ID w) \<le> 0) (inv_workers (snd (snapshot now r)))"
  using registry_source.snapshot_distinct [OF reachable_inv [OF assms]] snapshot_workers snapshot_sorted
  by blast

text \<open>
  an accepted heartbeat renews the lease for exactly one TTL: the worker is listed at
  every later instant before the deadline and at none from the deadline on.
\<close>

theorem heartbeat_renews_for_ttl:
  assumes "registry_reachable lib r" and "snd (heartbeat now i beat r) = Inr m"
  shows "i \<in> wk_ID ` set (inv_workers (snd (snapshot later (fst (heartbeat now i beat r)))))
    \<longleftrightarrow> later < now + ry_ttl r"
proof -
  define r' where "r' = fst (heartbeat now i beat r)"
  have inv: "registry_inv lib r'"
    unfolding r'_def by (rule heartbeat_inv [OF reachable_inv [OF assms(1)]])
  have w: "map_of (ry_workers r') i = Some (mu_worker m)" "wk_expiresAt (mu_worker m) = now + ry_ttl r"
    using heartbeat_stores [OF reachable_inv [OF assms(1)] assms(2)] by (auto simp: r'_def)
  have key: "wk_ID v = j" if "(j, v) \<in> set (ry_workers r')" for j v
    using inv that by (auto simp: registry_inv_def entry_ok_def)
  have unique: "v = mu_worker m" if "(i, v) \<in> set (ry_workers r')" for v
    using inv w(1) that by (simp add: registry_inv_def)
  show ?thesis unfolding r'_def [symmetric] snapshot_workers
  proof
    assume "i \<in> wk_ID ` {v. \<exists>j. (j, v) \<in> set (ry_workers r') \<and> later < wk_expiresAt v}"
    then obtain v j where v: "(j, v) \<in> set (ry_workers r')" "later < wk_expiresAt v" "wk_ID v = i" by blast
    with key have "v = mu_worker m" by (metis unique)
    with v(2) w(2) show "later < now + ry_ttl r" by simp
  next
    assume "later < now + ry_ttl r"
    then have "later < wk_expiresAt (mu_worker m)" using w(2) by simp
    with map_of_SomeD [OF w(1)] key
    show "i \<in> wk_ID ` {v. \<exists>j. (j, v) \<in> set (ry_workers r') \<and> later < wk_expiresAt v}" by blast
  qed
qed

section \<open>The properties at the concrete inventory\<close>

theorem membership_invariant_witness:
  "registry_inv demo_urls demo_registry \<and>
   validateRegistration demo_urls (wk_registration (demo_worker 2000 ''a'' 100 80)) = Inr ()"
proof -
  have "(''a'', demo_worker 2000 ''a'' 100 80) \<in> set (ry_workers demo_registry)" by (simp add: demo_registry_eq)
  then show ?thesis
    using membership_invariant [of demo_urls "[(1000, RegisterOp True (demo_registration ''b'' 100 90)),
        (2000, RegisterOp True (demo_registration ''a'' 100 80))]" 1000000000]
    unfolding demo_registry_def [symmetric] by fastforce
qed

theorem unexpired_lease_protected_witness:
  "map_of (ry_workers (applyOp demo_urls 3000 (RemoveOp ''a'' ''b-1'') demo_registry)) ''a'' =
     Some (demo_worker 2000 ''a'' 100 80)"
  by (rule unexpired_lease_protected [OF demo_reachable]) (simp_all add: demo_registry_eq demo_worker_def)

theorem revision_pins_registrations_witness:
  "registrations (runOps demo_urls [(3000, SnapshotOp)] demo_registry) = registrations demo_registry"
  by (rule revision_pins_registrations [OF demo_reachable])
     (simp_all add: demo_registry_eq snapshot_def expireLocked_def live_entries_def demo_worker_def)

theorem snapshot_lists_live_workers_witness:
  "sorted_wrt (\<lambda>v w. go_compare (wk_ID v) (wk_ID w) \<le> 0) (inv_workers (snd (snapshot 3000 demo_registry))) \<and>
   map wk_ID (inv_workers (snd (snapshot 3000 demo_registry))) = [''a'', ''b'']"
proof
  show "sorted_wrt (\<lambda>v w. go_compare (wk_ID v) (wk_ID w) \<le> 0) (inv_workers (snd (snapshot 3000 demo_registry)))"
    using snapshot_lists_live_workers [OF demo_reachable, of 3000] by blast
  have "\<not> go_compare ''b'' ''a'' \<le> 0" by code_simp
  then show "map wk_ID (inv_workers (snd (snapshot 3000 demo_registry))) = [''a'', ''b'']"
    by (simp add: demo_registry_eq snapshot_def expireLocked_def live_entries_def demo_worker_def)
qed

definition demo_heartbeat :: heartbeat_request where
  "demo_heartbeat = \<lparr>hb_schemaVersion = 1, hb_instanceID = ''a-1'', hb_status = None\<rparr>"

lemma demo_heartbeat_accepted: "is_ok (snd (heartbeat 5000 ''a'' demo_heartbeat demo_registry))"
  by (simp add: demo_heartbeat_def heartbeat_def validateIdentity_def validIdentityPart_def identity_char_def in_range_def
      go_eval demo_registry_eq demo_worker_def expireLocked_def live_entries_def heartbeatUpdate_def Let_def)

theorem heartbeat_renews_for_ttl_witness:
  "''a'' \<in> wk_ID ` set (inv_workers (snd (snapshot 1000004999
      (fst (heartbeat 5000 ''a'' demo_heartbeat demo_registry))))) \<and>
   ''a'' \<notin> wk_ID ` set (inv_workers (snd (snapshot 1000005000
      (fst (heartbeat 5000 ''a'' demo_heartbeat demo_registry)))))"
proof -
  obtain m where m: "snd (heartbeat 5000 ''a'' demo_heartbeat demo_registry) = Inr m"
    using demo_heartbeat_accepted by (cases "snd (heartbeat 5000 ''a'' demo_heartbeat demo_registry)") auto
  show ?thesis
    using heartbeat_renews_for_ttl [OF demo_reachable m, of 1000004999]
      heartbeat_renews_for_ttl [OF demo_reachable m, of 1000005000]
    by (simp add: demo_registry_eq)
qed

text \<open>
  C31: a registration whose sender says that its status is not fresh, accepted for a worker
  whose lease is running, stores the cached status of the worker with the capabilities that
  were sent, and keeps the time the status was observed. The checks ran on the status that was
  sent: the pair that is stored passes them only if the cached status reports no more
  available memory than the physical memory that was sent.
\<close>

theorem stale_registration_pairs_cached_status:
  assumes "registry_reachable lib r" "map_of (ry_workers r) (rg_ID raw) = Some existing" "now < wk_expiresAt existing"
    "register lib now False raw r = (r', Inr m)"
  shows "\<exists>w. map_of (ry_workers r') (rg_ID raw) = Some w \<and> wk_status w = wk_status existing \<and>
    wk_capabilities w = normalizeCapabilities (rg_capabilities raw) \<and>
    wk_statusObservedAt w = wk_statusObservedAt existing \<and> wk_expiresAt w = now + ry_ttl r \<and>
    (validateStatus (wk_status w) (wk_capabilities w) = Inr () \<longleftrightarrow>
       st_availableMemoryBytes (wk_status existing) \<le> cap_physicalMemoryBytes (rg_capabilities raw))"
proof -
  define g where "g = normalizeRegistration lib raw"
  have inv: "registry_inv lib r" using reachable_inv [OF assms(1)] .
  have ex: "map_of (ry_workers (expireLocked now r)) (rg_ID g) = Some existing"
    using map_of_expired [OF inv assms(2,3)] by (simp add: g_def)
  have "status_shape_ok (wk_status existing)" using inv_entry [OF inv assms(2)] by (simp add: entry_ok_def)
  moreover have "(r', Inr m) = renewRegistration now False existing g (expireLocked now r)"
    using assms(4) ex unfolding register_def g_def [symmetric] Let_def
    by (auto split: sum.splits option.splits if_splits)
  ultimately show ?thesis
    by (auto simp: renewRegistration_def Let_def update_conv' g_def normalizeRegistration_def normalizeCapabilities_def
        validateStatus_iff split: if_splits)
qed

theorem stale_registration_pairs_cached_status_witness:
  "\<exists>r' m w. register demo_urls 3000 False (demo_registration ''a'' 50 40) demo_registry = (r', Inr m) \<and>
     map_of (ry_workers r') ''a'' = Some w \<and> st_availableMemoryBytes (wk_status w) = 80 \<and>
     cap_physicalMemoryBytes (wk_capabilities w) = 50 \<and> validateStatus (wk_status w) (wk_capabilities w) \<noteq> Inr ()"
proof -
  have "is_ok (snd (register demo_urls 3000 False (demo_registration ''a'' 50 40) demo_registry))"
    by (simp add: demo_registry_eq register_def Let_def demo_normal demo_valid renewRegistration_def
        expireLocked_def live_entries_def storeWorker_def bumpRevision_def demo_worker_def)
  then obtain r' m where run: "register demo_urls 3000 False (demo_registration ''a'' 50 40) demo_registry = (r', Inr m)"
    by (metis is_ok.elims(2) prod.collapse)
  have ex: "map_of (ry_workers demo_registry) (rg_ID (demo_registration ''a'' 50 40)) = Some (demo_worker 2000 ''a'' 100 80)"
    "3000 < wk_expiresAt (demo_worker 2000 ''a'' 100 80)"
    by (simp_all add: demo_registry_eq demo_worker_def)
  from stale_registration_pairs_cached_status [OF demo_reachable ex run] run show ?thesis
    by (auto simp: demo_worker_def demo_status_def demo_capabilities_def normalizeCapabilities_def)
qed

end
