(* ===== verification/Eligibility.thy ===== *)
theory Eligibility
  imports Prelude Execution_Plan Registry
begin

text \<open>
  The hard constraints of placement (\<open>internal/placement/eligibility.go\<close>): which of the
  workers of an inventory may run one proposed stage, and why the others may not. The
  message of a rejection is kept as its format arguments.
\<close>

section \<open>Requirements, rejections and candidates\<close>

definition placementSchemaVersion :: int where
  "placementSchemaVersion = 1"

datatype rejection_code =
    RejectionStaleStatus
  | RejectionUnhealthy
  | RejectionUnsupportedAdapter
  | RejectionIncompatibleCheckpoint
  | RejectionUnsupportedOperation
  | RejectionUnsupportedTransport
  | RejectionUnsupportedEncoding
  | RejectionTLSRequired
  | RejectionWorkerCapacityExhausted
  | RejectionInsufficientMemory
  | RejectionRetainedBudgetExceeded
  | RejectionSequenceCapacityExhausted

record transport_requirement =
  tq_protocol :: string
  tq_tensorEncoding :: string
  tq_requireTLS :: bool

record stage_requirement =
  sq_model :: execution_model
  sq_adapter :: string
  sq_shardID :: string
  sq_layerStart :: int
  sq_layerEnd :: int
  sq_ownsInput :: bool
  sq_ownsOutput :: bool
  sq_loadMemoryBytes :: u64
  sq_sequenceMemoryBytes :: u64
  sq_transport :: transport_requirement
  sq_statusMaxAgeMillis :: int

datatype rejection_detail =
    NotFreshWithin int
  | HealthIs string
  | AdapterNotAdvertised string
  | CheckpointNotAdvertised string
  | OperationsNotAdvertised "string list"
  | TransportNotAdvertised string
  | EncodingNotAdvertised string
  | NoTLS
  | OpenSequencesAtLimit int int
  | MemoryRequiredAvailable u64 u64
  | RetainedRequiredBudget u64 u64
  | ShardSequencesAtLimit int int

record rejection =
  rj_code :: rejection_code
  rj_detail :: rejection_detail

record candidate =
  cd_workerID :: string
  cd_endpoint :: string
  cd_eligible :: bool
  cd_reusesRetainedShard :: bool
  cd_retainedShardID :: string
  cd_requiredAdditionalMemoryBytes :: u64
  cd_rejections :: "rejection list"

record evaluation =
  ev_schemaVersion :: int
  ev_inventoryRevision :: u64
  ev_inventoryGeneratedAt :: instant
  ev_statusMaxAgeMillis :: int
  ev_requirement :: stage_requirement
  ev_requiredOperations :: "string list"
  ev_candidates :: "candidate list"

datatype eligibility_error =
    InventorySchemaMismatch int
  | InventoryTimeRequired
  | InventoryLeaseNotPositive
  | ModelIdentityIncomplete
  | AdapterNameRequired
  | StageRangeInvalid int int int
  | InputOwnershipMismatch
  | OutputOwnershipMismatch
  | MemoryEstimateZero
  | MemoryEstimateOverflow
  | TransportNameRequired
  | NegativeStatusAge
  | StatusAgeTooLarge

section \<open>Operations\<close>

definition addUint64 :: "u64 \<Rightarrow> u64 \<Rightarrow> u64 \<times> bool" where
  "addUint64 left right =
     (if - 1 - right < left then (- 1, True) else (left + right, False))"

definition maxDurationMillis :: int where
  "maxDurationMillis = max_duration div millisecond"

definition validateInputs :: "inventory \<Rightarrow> stage_requirement \<Rightarrow> eligibility_error + int" where
  "validateInputs inventory q =
     (if inv_schemaVersion inventory \<noteq> registrySchemaVersion
      then Inl (InventorySchemaMismatch (inv_schemaVersion inventory))
      else if inv_generatedAt inventory = 0 then Inl InventoryTimeRequired
      else if inv_leaseTTLMillis inventory \<le> 0 then Inl InventoryLeaseNotPositive
      else if em_ID (sq_model q) = [] \<or> em_checkpointFingerprint (sq_model q) = [] \<or>
              em_layerCount (sq_model q) \<le> 0
      then Inl ModelIdentityIncomplete
      else if sq_adapter q = [] then Inl AdapterNameRequired
      else if sq_layerStart q < 0 \<or> sq_layerEnd q \<le> sq_layerStart q \<or>
              em_layerCount (sq_model q) < sq_layerEnd q
      then Inl (StageRangeInvalid (sq_layerStart q) (sq_layerEnd q) (em_layerCount (sq_model q)))
      else if sq_ownsInput q \<noteq> (sq_layerStart q = 0) then Inl InputOwnershipMismatch
      else if sq_ownsOutput q \<noteq> (sq_layerEnd q = em_layerCount (sq_model q))
      then Inl OutputOwnershipMismatch
      else if sq_loadMemoryBytes q = 0 \<or> sq_sequenceMemoryBytes q = 0 then Inl MemoryEstimateZero
      else if - 1 - sq_sequenceMemoryBytes q < sq_loadMemoryBytes q then Inl MemoryEstimateOverflow
      else if tq_protocol (sq_transport q) = [] \<or> tq_tensorEncoding (sq_transport q) = []
      then Inl TransportNameRequired
      else if sq_statusMaxAgeMillis q < 0 then Inl NegativeStatusAge
      else let age = (if sq_statusMaxAgeMillis q = 0 then inv_leaseTTLMillis inventory
                      else sq_statusMaxAgeMillis q)
        in if maxDurationMillis < age then Inl StatusAgeTooLarge else Inr age)"

definition stageOperations :: "stage_requirement \<Rightarrow> string list" where
  "stageOperations q =
     sort ([''closeSequence'', ''decode'', ''loadShard'', ''modelInfo'', ''openSequence'',
            ''prefill'', ''state''] @
           (if sq_ownsInput q then [''detokenize'', ''tokenize''] else []))"

definition shard_compatible :: "stage_requirement \<Rightarrow> retained_shard \<Rightarrow> bool" where
  "shard_compatible q s \<longleftrightarrow>
     rsh_ID s = sq_shardID q \<and> rsh_modelID s = em_ID (sq_model q) \<and>
     rsh_checkpointFingerprint s = em_checkpointFingerprint (sq_model q) \<and>
     rsh_layerStart s = sq_layerStart q \<and> rsh_layerEnd s = sq_layerEnd q \<and>
     rsh_ownsInput s = sq_ownsInput q \<and> rsh_ownsOutput s = sq_ownsOutput q"

definition compatibleRetainedShard ::
  "retained_shard list \<Rightarrow> stage_requirement \<Rightarrow> retained_shard option" where
  "compatibleRetainedShard shards q =
     (if sq_shardID q = [] then None else find (shard_compatible q) shards)"

definition advertisedTransport :: "transport list \<Rightarrow> string \<Rightarrow> transport option" where
  "advertisedTransport transports protocol = find (\<lambda>t. tr_protocol t = protocol) transports"

text \<open>One guarded call of \<open>candidate.reject\<close>.\<close>

definition reject :: "bool \<Rightarrow> rejection_code \<Rightarrow> rejection_detail \<Rightarrow> rejection list" where
  "reject violated code detail = (if violated then [\<lparr>rj_code = code, rj_detail = detail\<rparr>] else [])"

definition transportRejections :: "stage_requirement \<Rightarrow> capabilities \<Rightarrow> rejection list" where
  "transportRejections q c =
     (case advertisedTransport (cap_transports c) (tq_protocol (sq_transport q)) of
        None \<Rightarrow> reject True RejectionUnsupportedTransport
          (TransportNotAdvertised (tq_protocol (sq_transport q)))
      | Some t \<Rightarrow>
          reject (tq_tensorEncoding (sq_transport q) \<notin> set (tr_tensorEncodings t))
            RejectionUnsupportedEncoding (EncodingNotAdvertised (tq_tensorEncoding (sq_transport q))) @
          reject (tq_requireTLS (sq_transport q) \<and> \<not> tr_tls t) RejectionTLSRequired NoTLS)"

definition evaluateCandidate ::
  "instant \<Rightarrow> duration \<Rightarrow> stage_requirement \<Rightarrow> string list \<Rightarrow> worker \<Rightarrow> candidate" where
  "evaluateCandidate at maxAge q operations w =
     (let s = wk_status w; c = wk_capabilities w;
          retained = compatibleRetainedShard (st_retainedShards s) q;
          additional = (case retained of
              None \<Rightarrow> sq_sequenceMemoryBytes q + sq_loadMemoryBytes q
            | Some shard \<Rightarrow> sq_sequenceMemoryBytes q);
          missing = filter (\<lambda>operation. operation \<notin> set (cap_operations c)) operations;
          (projected, overflow) = addUint64 (st_retainedBytes s) (sq_sequenceMemoryBytes q);
          rejections =
            reject (\<not> statusFresh w at maxAge) RejectionStaleStatus
              (NotFreshWithin (milliseconds maxAge)) @
            reject (st_health s \<noteq> healthHealthy) RejectionUnhealthy (HealthIs (st_health s)) @
            reject (sq_adapter q \<notin> set (cap_adapters c)) RejectionUnsupportedAdapter
              (AdapterNotAdvertised (sq_adapter q)) @
            reject (cap_checkpointFingerprints c \<noteq> [] \<and>
                em_checkpointFingerprint (sq_model q) \<notin> set (cap_checkpointFingerprints c))
              RejectionIncompatibleCheckpoint
              (CheckpointNotAdvertised (em_checkpointFingerprint (sq_model q))) @
            reject (missing \<noteq> []) RejectionUnsupportedOperation (OperationsNotAdvertised missing) @
            transportRejections q c @
            reject (al_maxConcurrentRequests (cap_admission c) \<le> st_openSequenceCount s)
              RejectionWorkerCapacityExhausted
              (OpenSequencesAtLimit (st_openSequenceCount s) (al_maxConcurrentRequests (cap_admission c))) @
            reject (st_availableMemoryBytes s < additional) RejectionInsufficientMemory
              (MemoryRequiredAvailable additional (st_availableMemoryBytes s)) @
            reject (overflow \<or> al_retainedByteBudget (cap_admission c) < projected)
              RejectionRetainedBudgetExceeded
              (RetainedRequiredBudget projected (al_retainedByteBudget (cap_admission c))) @
            (case retained of
               None \<Rightarrow> []
             | Some shard \<Rightarrow>
                 reject (al_maxOpenSequencesPerShard (cap_admission c) \<le> rsh_openSequenceCount shard)
                   RejectionSequenceCapacityExhausted
                   (ShardSequencesAtLimit (rsh_openSequenceCount shard)
                     (al_maxOpenSequencesPerShard (cap_admission c))))
      in \<lparr>cd_workerID = wk_ID w, cd_endpoint = wk_endpoint w, cd_eligible = (rejections = []),
          cd_reusesRetainedShard = (retained \<noteq> None),
          cd_retainedShardID = (case retained of None \<Rightarrow> [] | Some shard \<Rightarrow> rsh_ID shard),
          cd_requiredAdditionalMemoryBytes = additional, cd_rejections = rejections\<rparr>)"

definition trimRequirement :: "stage_requirement \<Rightarrow> stage_requirement" where
  "trimRequirement q =
     q\<lparr>sq_adapter := trim_space (sq_adapter q), sq_shardID := trim_space (sq_shardID q),
       sq_transport := (sq_transport q)
         \<lparr>tq_protocol := trim_space (tq_protocol (sq_transport q)),
          tq_tensorEncoding := trim_space (tq_tensorEncoding (sq_transport q))\<rparr>\<rparr>"

definition evaluateCandidates :: "inventory \<Rightarrow> stage_requirement \<Rightarrow> eligibility_error + evaluation" where
  "evaluateCandidates inventory q0 =
     (let q = trimRequirement q0 in
      and_then (validateInputs inventory q) (\<lambda>age.
        let maxAge = wrap_int (age * millisecond);
            operations = stageOperations q;
            workers = sort_by (\<lambda>l r. go_compare (wk_ID l) (wk_ID r)) (inv_workers inventory)
        in Inr \<lparr>ev_schemaVersion = placementSchemaVersion, ev_inventoryRevision = inv_revision inventory,
             ev_inventoryGeneratedAt = inv_generatedAt inventory, ev_statusMaxAgeMillis = age,
             ev_requirement = q, ev_requiredOperations = operations,
             ev_candidates =
               map (evaluateCandidate (inv_generatedAt inventory) maxAge q operations) workers\<rparr>))"

section \<open>The constraints, read declaratively\<close>

text \<open>
  When a requirement rules a worker out, one clause per rejection code, over unbounded
  numbers: the sums cannot wrap. \<open>age\<close> is in milliseconds.
\<close>

definition reusable :: "stage_requirement \<Rightarrow> worker \<Rightarrow> retained_shard option" where
  "reusable q w = compatibleRetainedShard (st_retainedShards (wk_status w)) q"

definition needed_operations :: "stage_requirement \<Rightarrow> string set" where
  "needed_operations q =
     {''closeSequence'', ''decode'', ''loadShard'', ''modelInfo'', ''openSequence'', ''prefill'', ''state''} \<union>
     (if sq_ownsInput q then {''detokenize'', ''tokenize''} else {})"

definition needed_memory :: "stage_requirement \<Rightarrow> worker \<Rightarrow> nat" where
  "needed_memory q w = unat (sq_sequenceMemoryBytes q) +
     (if reusable q w = None then unat (sq_loadMemoryBytes q) else 0)"

fun violated :: "instant \<Rightarrow> int \<Rightarrow> stage_requirement \<Rightarrow> worker \<Rightarrow> rejection_code \<Rightarrow> bool" where
  "violated at age q w RejectionStaleStatus =
     (wk_statusObservedAt w = 0 \<or> at < wk_statusObservedAt w \<or>
      age * 1000000 < at - wk_statusObservedAt w)"
| "violated at age q w RejectionUnhealthy = (st_health (wk_status w) \<noteq> ''healthy'')"
| "violated at age q w RejectionUnsupportedAdapter = (sq_adapter q \<notin> set (cap_adapters (wk_capabilities w)))"
| "violated at age q w RejectionIncompatibleCheckpoint =
     (cap_checkpointFingerprints (wk_capabilities w) \<noteq> [] \<and>
      em_checkpointFingerprint (sq_model q) \<notin> set (cap_checkpointFingerprints (wk_capabilities w)))"
| "violated at age q w RejectionUnsupportedOperation =
     (\<not> needed_operations q \<subseteq> set (cap_operations (wk_capabilities w)))"
| "violated at age q w RejectionUnsupportedTransport =
     (tq_protocol (sq_transport q) \<notin> tr_protocol ` set (cap_transports (wk_capabilities w)))"
| "violated at age q w RejectionUnsupportedEncoding =
     (\<exists>t. advertisedTransport (cap_transports (wk_capabilities w)) (tq_protocol (sq_transport q)) = Some t \<and>
          tq_tensorEncoding (sq_transport q) \<notin> set (tr_tensorEncodings t))"
| "violated at age q w RejectionTLSRequired =
     (tq_requireTLS (sq_transport q) \<and>
      (\<exists>t. advertisedTransport (cap_transports (wk_capabilities w)) (tq_protocol (sq_transport q)) = Some t \<and>
          \<not> tr_tls t))"
| "violated at age q w RejectionWorkerCapacityExhausted =
     (al_maxConcurrentRequests (cap_admission (wk_capabilities w)) \<le> st_openSequenceCount (wk_status w))"
| "violated at age q w RejectionInsufficientMemory =
     (unat (st_availableMemoryBytes (wk_status w)) < needed_memory q w)"
| "violated at age q w RejectionRetainedBudgetExceeded =
     (unat (al_retainedByteBudget (cap_admission (wk_capabilities w))) <
      unat (st_retainedBytes (wk_status w)) + unat (sq_sequenceMemoryBytes q))"
| "violated at age q w RejectionSequenceCapacityExhausted =
     (\<exists>s. reusable q w = Some s \<and>
          al_maxOpenSequencesPerShard (cap_admission (wk_capabilities w)) \<le> rsh_openSequenceCount s)"

definition all_codes :: "rejection_code list" where
  "all_codes =
     [RejectionStaleStatus, RejectionUnhealthy, RejectionUnsupportedAdapter,
      RejectionIncompatibleCheckpoint, RejectionUnsupportedOperation, RejectionUnsupportedTransport,
      RejectionUnsupportedEncoding, RejectionTLSRequired, RejectionWorkerCapacityExhausted,
      RejectionInsufficientMemory, RejectionRetainedBudgetExceeded, RejectionSequenceCapacityExhausted]"

lemma set_all_codes: "set all_codes = UNIV"
  by (auto simp: all_codes_def intro: rejection_code.exhaust)

text \<open>The codes are ordered as they are declared, which is the order they are reported in.\<close>

definition code_rank :: "rejection_code \<Rightarrow> nat" where
  "code_rank code = length (takeWhile (\<lambda>c. c \<noteq> code) all_codes)"

lemma code_rank_inj: "code_rank c = code_rank d \<Longrightarrow> c = d"
  by (cases c; cases d) (simp_all add: code_rank_def all_codes_def)

instantiation rejection_code :: linorder
begin

definition less_eq_rejection_code :: "rejection_code \<Rightarrow> rejection_code \<Rightarrow> bool" where
  "less_eq_rejection_code c d \<longleftrightarrow> code_rank c \<le> code_rank d"

definition less_rejection_code :: "rejection_code \<Rightarrow> rejection_code \<Rightarrow> bool" where
  "less_rejection_code c d \<longleftrightarrow> code_rank c < code_rank d"

instance
  by intro_classes (auto simp: less_eq_rejection_code_def less_rejection_code_def dest: code_rank_inj)

end

lemma sorted_all_codes: "sorted_wrt (<) all_codes"
  by (simp add: all_codes_def less_rejection_code_def code_rank_def)

text \<open>What \<open>EvaluateCandidates\<close> demands of its arguments.\<close>

definition requirement_ok :: "inventory \<Rightarrow> stage_requirement \<Rightarrow> bool" where
  "requirement_ok inventory q \<longleftrightarrow>
     inv_schemaVersion inventory = 1 \<and> inv_generatedAt inventory \<noteq> 0 \<and> 0 < inv_leaseTTLMillis inventory \<and>
     em_ID (sq_model q) \<noteq> [] \<and> em_checkpointFingerprint (sq_model q) \<noteq> [] \<and> sq_adapter q \<noteq> [] \<and>
     0 \<le> sq_layerStart q \<and> sq_layerStart q < sq_layerEnd q \<and> sq_layerEnd q \<le> em_layerCount (sq_model q) \<and>
     sq_ownsInput q = (sq_layerStart q = 0) \<and> sq_ownsOutput q = (sq_layerEnd q = em_layerCount (sq_model q)) \<and>
     0 < unat (sq_loadMemoryBytes q) \<and> 0 < unat (sq_sequenceMemoryBytes q) \<and>
     unat (sq_loadMemoryBytes q) + unat (sq_sequenceMemoryBytes q) < 2 ^ 64 \<and>
     tq_protocol (sq_transport q) \<noteq> [] \<and> tq_tensorEncoding (sq_transport q) \<noteq> [] \<and>
     0 \<le> sq_statusMaxAgeMillis q \<and>
     (sq_statusMaxAgeMillis q = 0 \<longrightarrow> inv_leaseTTLMillis inventory \<le> 9223372036854) \<and>
     sq_statusMaxAgeMillis q \<le> 9223372036854"

lemma validateInputs_iff:
  "validateInputs inventory q = Inr age \<longleftrightarrow>
     requirement_ok inventory q \<and>
     age = (if sq_statusMaxAgeMillis q = 0 then inv_leaseTTLMillis inventory else sq_statusMaxAgeMillis q)"
proof -
  have nz: "x = 0 \<longleftrightarrow> unat x = 0" for x :: u64 by (simp add: unat_eq_zero)
  show ?thesis
    by (auto simp: validateInputs_def requirement_ok_def Let_def u64_add_overflow maxDurationMillis_def
        duration_defs registrySchemaVersion_def nz not_le not_less)
qed

lemma validateInputs_age:
  assumes "validateInputs inventory q = Inr age"
  shows "0 < age \<and> age \<le> 9223372036854"
  using assms by (auto simp: validateInputs_iff requirement_ok_def)

lemma age_duration:
  assumes "0 < age" and "age \<le> 9223372036854"
  shows "wrap_int (age * millisecond) = age * 1000000"
  using assms by (simp add: wrap_int_id duration_defs)

lemma statusFresh_violated:
  assumes "0 < age" and "age \<le> 9223372036854"
  shows "statusFresh w at (age * 1000000) \<longleftrightarrow> \<not> violated at age q w RejectionStaleStatus"
proof -
  have "time_sub at t \<le> age * 1000000 \<longleftrightarrow> at - t \<le> age * 1000000" if "t \<le> at" for t
    using assms that by (intro time_sub_le_iff) (auto simp: max_duration_def)
  then show ?thesis using assms by (auto simp: statusFresh_def not_less)
qed

lemma set_stageOperations: "set (stageOperations q) = needed_operations q"
  by (auto simp: stageOperations_def needed_operations_def)

lemma missing_iff:
  "filter (\<lambda>operation. operation \<notin> set ops) (stageOperations q) \<noteq> [] \<longleftrightarrow> \<not> needed_operations q \<subseteq> set ops"
  by (auto simp: filter_empty_conv set_stageOperations [symmetric])

lemma additional_exact:
  assumes "requirement_ok inventory q"
  shows "unat (cd_requiredAdditionalMemoryBytes (evaluateCandidate at maxAge q ops w)) = needed_memory q w"
  using assms
  by (simp add: evaluateCandidate_def Let_def needed_memory_def reusable_def requirement_ok_def
      unat_u64_add_exact add.commute split: option.splits prod.splits)

lemma addUint64_budget:
  assumes "addUint64 x y = (p, overflow)"
  shows "overflow \<or> b < p \<longleftrightarrow> unat b < unat x + unat y"
proof (cases "- 1 - y < x")
  case True
  then have "18446744073709551616 \<le> unat x + unat y" by (simp only: u64_add_overflow)
  with u64_bound have "unat b < unat x + unat y" by (rule less_le_trans)
  then show ?thesis using assms True by (auto simp: addUint64_def)
next
  case False
  then have "unat x + unat y < 18446744073709551616" by (simp only: u64_add_overflow not_le)
  then show ?thesis using assms False by (auto simp: addUint64_def u64_less_iff unat_u64_add_exact)
qed

lemma codes_reject: "map rj_code (reject b c d) = filter (\<lambda>x. b) [c]"
  by (simp add: reject_def)

lemma advertised_None: "advertisedTransport ts p = None \<longleftrightarrow> p \<notin> tr_protocol ` set ts"
  by (auto simp: advertisedTransport_def find_None_iff)

lemma codes_transport:
  "map rj_code (transportRejections q (wk_capabilities w)) =
     filter (violated at age q w)
       [RejectionUnsupportedTransport, RejectionUnsupportedEncoding, RejectionTLSRequired]"
proof (cases "advertisedTransport (cap_transports (wk_capabilities w)) (tq_protocol (sq_transport q))")
  case None
  then have "tq_protocol (sq_transport q) \<notin> tr_protocol ` set (cap_transports (wk_capabilities w))"
    by (simp only: advertised_None not_False_eq_True)
  with None show ?thesis by (simp add: transportRejections_def reject_def)
next
  case (Some t)
  then have "tq_protocol (sq_transport q) \<in> tr_protocol ` set (cap_transports (wk_capabilities w))"
    using advertised_None by (metis option.distinct(1))
  with Some show ?thesis by (simp add: transportRejections_def reject_def)
qed

lemma codes_exact:
  assumes "requirement_ok inventory q" and "0 < age" and "age \<le> 9223372036854"
  shows "map rj_code (cd_rejections (evaluateCandidate at (age * 1000000) q (stageOperations q) w)) =
    filter (violated at age q w) all_codes"
proof -
  define c where "c = evaluateCandidate at (age * 1000000) q (stageOperations q) w"
  obtain p overflow where a: "addUint64 (st_retainedBytes (wk_status w)) (sq_sequenceMemoryBytes q) = (p, overflow)"
    by (cases "addUint64 (st_retainedBytes (wk_status w)) (sq_sequenceMemoryBytes q)")
  have memory: "st_availableMemoryBytes (wk_status w) < cd_requiredAdditionalMemoryBytes c \<longleftrightarrow>
      violated at age q w RejectionInsufficientMemory"
    using additional_exact [OF assms(1)] by (simp add: u64_less_iff c_def)
  have sequences: "map rj_code (case reusable q w of None \<Rightarrow> []
       | Some shard \<Rightarrow> reject (al_maxOpenSequencesPerShard (cap_admission (wk_capabilities w)) \<le> rsh_openSequenceCount shard)
           RejectionSequenceCapacityExhausted (d shard)) =
     filter (violated at age q w) [RejectionSequenceCapacityExhausted]" for d
    by (simp add: reject_def split: option.split)
  have codes: "all_codes = [RejectionStaleStatus] @ [RejectionUnhealthy] @ [RejectionUnsupportedAdapter] @
      [RejectionIncompatibleCheckpoint] @ [RejectionUnsupportedOperation] @
      [RejectionUnsupportedTransport, RejectionUnsupportedEncoding, RejectionTLSRequired] @
      [RejectionWorkerCapacityExhausted] @ [RejectionInsufficientMemory] @
      [RejectionRetainedBudgetExceeded] @ [RejectionSequenceCapacityExhausted]"
    by (simp add: all_codes_def)
  note congs = arg_cong2 [where f = append]
  show ?thesis
    unfolding codes filter_append evaluateCandidate_def Let_def a prod.case candidate.select_convs
      map_append codes_reject reusable_def [symmetric]
    apply (rule congs, (simp add: statusFresh_violated [OF assms(2,3), of w at q] del: violated.simps; fail))
    apply (rule congs, (simp add: go_eval; fail))
    apply (rule congs, (simp; fail))
    apply (rule congs, (simp; fail))
    apply (rule congs, (simp add: missing_iff; fail))
    apply (rule congs, (rule codes_transport))
    apply (rule congs, (simp; fail))
    apply (rule congs, (use memory in \<open>simp add: c_def evaluateCandidate_def Let_def a reusable_def\<close>; fail))
    apply (rule congs, (simp add: addUint64_budget [OF a]; fail))
    apply (rule sequences)
    done
qed

lemma candidates_exact:
  assumes "evaluateCandidates inventory q = Inr ev"
  shows "list_all2 (\<lambda>w c. cd_workerID c = wk_ID w \<and>
      map rj_code (cd_rejections c) = filter
        (violated (ev_inventoryGeneratedAt ev) (ev_statusMaxAgeMillis ev) (ev_requirement ev) w) all_codes \<and>
      (cd_eligible c \<longleftrightarrow> (\<forall>code. \<not> violated (ev_inventoryGeneratedAt ev) (ev_statusMaxAgeMillis ev)
        (ev_requirement ev) w code)) \<and>
      unat (cd_requiredAdditionalMemoryBytes c) = needed_memory (ev_requirement ev) w)
    (sort_by (\<lambda>l r. go_compare (wk_ID l) (wk_ID r)) (inv_workers inventory)) (ev_candidates ev)"
proof -
  define q' where "q' = trimRequirement q"
  obtain age where age: "validateInputs inventory q' = Inr age"
    using assms by (auto simp: evaluateCandidates_def Let_def and_then_Inr q'_def)
  note bounds = validateInputs_age [OF age]
  have ok: "requirement_ok inventory q'" using age by (simp add: validateInputs_iff)
  have eligible: "cd_eligible (evaluateCandidate at d q' ops w) \<longleftrightarrow>
      map rj_code (cd_rejections (evaluateCandidate at d q' ops w)) = []" for at d ops w
    by (simp add: evaluateCandidate_def Let_def split: prod.split)
  have workerID: "cd_workerID (evaluateCandidate at d q' ops w) = wk_ID w" for at d ops w
    by (simp add: evaluateCandidate_def Let_def split: prod.split)
  have one: "map rj_code (cd_rejections (evaluateCandidate at (wrap_int (age * millisecond)) q' (stageOperations q') w)) =
      filter (violated at age q' w) all_codes" for at w
    using codes_exact [OF ok, of age] bounds by (simp add: age_duration)
  have ev: "ev_inventoryGeneratedAt ev = inv_generatedAt inventory" "ev_statusMaxAgeMillis ev = age"
    "ev_requirement ev = q'" "ev_candidates ev = map (evaluateCandidate (inv_generatedAt inventory)
      (wrap_int (age * millisecond)) q' (stageOperations q'))
      (sort_by (\<lambda>l r. go_compare (wk_ID l) (wk_ID r)) (inv_workers inventory))"
    using assms age by (auto simp: evaluateCandidates_def Let_def q'_def [symmetric])
  show ?thesis
    unfolding ev by (simp add: list_all2_conv_all_nth eligible workerID one additional_exact [OF ok]
        filter_empty_conv set_all_codes)
qed

subsection \<open>What a client of the evaluation relies on\<close>

definition effective_age :: "inventory \<Rightarrow> stage_requirement \<Rightarrow> int" where
  "effective_age inventory q =
     (if sq_statusMaxAgeMillis q = 0 then inv_leaseTTLMillis inventory else sq_statusMaxAgeMillis q)"

definition admissible :: "inventory \<Rightarrow> stage_requirement \<Rightarrow> worker \<Rightarrow> bool" where
  "admissible inventory q w \<longleftrightarrow>
     (\<forall>code. \<not> violated (inv_generatedAt inventory) (effective_age inventory q) (trimRequirement q) w code)"

lemma evaluation_fields:
  assumes "evaluateCandidates inventory q = Inr ev"
  shows "ev_inventoryGeneratedAt ev = inv_generatedAt inventory"
    "ev_statusMaxAgeMillis ev = effective_age inventory q" "ev_requirement ev = trimRequirement q"
  using assms
  by (auto simp: evaluateCandidates_def Let_def and_then_Inr validateInputs_iff effective_age_def
      trimRequirement_def split: if_splits)

lemma candidate_found:
  assumes "evaluateCandidates inventory q = Inr ev" and "c \<in> set (ev_candidates ev)"
  shows "\<exists>w \<in> set (inv_workers inventory). wk_ID w = cd_workerID c \<and>
    cd_eligible c = admissible inventory q w \<and>
    unat (cd_requiredAdditionalMemoryBytes c) = needed_memory (trimRequirement q) w"
proof -
  note all = candidates_exact [OF assms(1), unfolded evaluation_fields [OF assms(1)]]
  obtain i where i: "i < length (ev_candidates ev)" "c = ev_candidates ev ! i"
    using assms(2) by (auto simp: in_set_conv_nth)
  define w where "w = sort_by (\<lambda>l r. go_compare (wk_ID l) (wk_ID r)) (inv_workers inventory) ! i"
  have len: "length (inv_workers inventory) = length (ev_candidates ev)"
    using list_all2_lengthD [OF all] by simp
  then have "w \<in> set (sort_by (\<lambda>l r. go_compare (wk_ID l) (wk_ID r)) (inv_workers inventory))"
    unfolding w_def using i(1) by (intro nth_mem) simp
  then have "w \<in> set (inv_workers inventory)" by simp
  with list_all2_nthD2 [OF all i(1)] show ?thesis
    unfolding admissible_def w_def i(2) by (intro bexI [of _ w]) (simp_all add: w_def)
qed

lemma candidate_exists:
  assumes "evaluateCandidates inventory q = Inr ev" and "w \<in> set (inv_workers inventory)"
  shows "\<exists>c \<in> set (ev_candidates ev). cd_workerID c = wk_ID w"
proof -
  note all = candidates_exact [OF assms(1)]
  have "w \<in> set (sort_by (\<lambda>l r. go_compare (wk_ID l) (wk_ID r)) (inv_workers inventory))"
    using assms(2) by simp
  then obtain i where i: "i < length (sort_by (\<lambda>l r. go_compare (wk_ID l) (wk_ID r)) (inv_workers inventory))"
    "w = sort_by (\<lambda>l r. go_compare (wk_ID l) (wk_ID r)) (inv_workers inventory) ! i"
    by (auto simp only: in_set_conv_nth)
  have "cd_workerID (ev_candidates ev ! i) = wk_ID w"
    using list_all2_nthD [OF all i(1)] i(2) by simp
  moreover have "ev_candidates ev ! i \<in> set (ev_candidates ev)"
    using i(1) list_all2_lengthD [OF all] by (intro nth_mem) simp
  ultimately show ?thesis by blast
qed

section \<open>A concrete inventory\<close>

definition demo_transport :: transport_requirement where
  "demo_transport = \<lparr>tq_protocol = ''http'', tq_tensorEncoding = ''raw'', tq_requireTLS = False\<rparr>"

text \<open>A demonstration worker that advertises the operations of a stage and any checkpoint.\<close>

definition ready_worker :: "string \<Rightarrow> u64 \<Rightarrow> worker" where
  "ready_worker i available =
     (let w = demo_worker 2000 i 100 available in
      w\<lparr>wk_registration := (wk_registration w)\<lparr>rg_capabilities := (demo_capabilities 100)
        \<lparr>cap_operations := [''closeSequence'', ''decode'', ''detokenize'', ''loadShard'', ''modelInfo'',
           ''openSequence'', ''prefill'', ''state'', ''tokenize''], cap_checkpointFingerprints := []\<rparr>\<rparr>\<rparr>)"

definition demo_inventory :: inventory where
  "demo_inventory =
     \<lparr>inv_schemaVersion = 1, inv_revision = 7, inv_generatedAt = 3000, inv_leaseTTLMillis = 1000,
      inv_workers = [ready_worker ''b'' 90, ready_worker ''a'' 8]\<rparr>"

definition demo_requirement :: "string \<Rightarrow> stage_requirement" where
  "demo_requirement adapter =
     \<lparr>sq_model = demo_model, sq_adapter = adapter, sq_shardID = [], sq_layerStart = 0, sq_layerEnd = 3,
      sq_ownsInput = True, sq_ownsOutput = False, sq_loadMemoryBytes = 20, sq_sequenceMemoryBytes = 4,
      sq_transport = demo_transport, sq_statusMaxAgeMillis = 0\<rparr>"

lemma demo_requirement_trim:
  "visible_ends adapter \<Longrightarrow> trimRequirement (demo_requirement adapter) = demo_requirement adapter"
  by (simp add: trimRequirement_def demo_requirement_def demo_transport_def trim_space_eval visible_eval)

lemma demo_requirement_ok: "adapter \<noteq> [] \<Longrightarrow> requirement_ok demo_inventory (demo_requirement adapter)"
  by (simp add: requirement_ok_def demo_inventory_def demo_requirement_def demo_model_def demo_transport_def)

lemma demo_evaluated:
  "\<exists>ev. evaluateCandidates demo_inventory (demo_requirement ''qwen'') = Inr ev \<and>
     ev_inventoryGeneratedAt ev = 3000 \<and> ev_statusMaxAgeMillis ev = 1000 \<and>
     ev_requirement ev = demo_requirement ''qwen''"
proof -
  have "validateInputs demo_inventory (demo_requirement ''qwen'') = Inr 1000"
    using demo_requirement_ok [of "''qwen''"]
    by (simp add: validateInputs_iff) (simp add: demo_requirement_def demo_inventory_def)
  moreover have "trimRequirement (demo_requirement ''qwen'') = demo_requirement ''qwen''"
    by (rule demo_requirement_trim) (simp add: visible_eval)
  ultimately show ?thesis by (simp add: evaluateCandidates_def Let_def demo_inventory_def)
qed

section \<open>Properties\<close>

text \<open>
  C18: \<open>EvaluateCandidates\<close> fails only on malformed inputs, and otherwise judges every
  worker exactly by the constraints: the candidates stand for the workers in the order of
  their IDs, a candidate carries one rejection for each constraint it violates, in the
  declared order, and is eligible when it violates none. The memory constraints are those
  of unbounded arithmetic.
\<close>

theorem evaluation_applies_constraints:
  assumes "evaluateCandidates inventory q = Inr ev"
  shows "list_all2 (\<lambda>w c. cd_workerID c = wk_ID w \<and>
      map rj_code (cd_rejections c) = filter
        (violated (ev_inventoryGeneratedAt ev) (ev_statusMaxAgeMillis ev) (ev_requirement ev) w) all_codes \<and>
      (cd_eligible c \<longleftrightarrow> (\<forall>code. \<not> violated (ev_inventoryGeneratedAt ev) (ev_statusMaxAgeMillis ev)
        (ev_requirement ev) w code)) \<and>
      unat (cd_requiredAdditionalMemoryBytes c) = needed_memory (ev_requirement ev) w)
    (sort_by (\<lambda>l r. go_compare (wk_ID l) (wk_ID r)) (inv_workers inventory)) (ev_candidates ev)"
  using assms by (rule candidates_exact)

text \<open>
  the arguments that \<open>EvaluateCandidates\<close> accepts are exactly the well-formed ones:
  current schema, a dated inventory, a complete model identity, a range inside the model
  with matching ownership, positive memory estimates whose sum fits, named transport.
\<close>

theorem evaluation_succeeds_iff:
  "is_ok (evaluateCandidates inventory q) = requirement_ok inventory (trimRequirement q)"
  using validateInputs_iff [of inventory "trimRequirement q"]
  by (auto simp: is_ok_iff evaluateCandidates_def Let_def and_then_Inr)

text \<open>
  the evaluation does not depend on the order in which the inventory lists the workers.
\<close>

theorem evaluation_order_independent:
  assumes "mset (inv_workers inventory) = mset ws" and "distinct (map wk_ID ws)"
  shows "evaluateCandidates (inventory\<lparr>inv_workers := ws\<rparr>) q = evaluateCandidates inventory q"
proof -
  have "v = w" if "v \<in> set ws" "w \<in> set ws" "go_compare (wk_ID v) (wk_ID w) = 0" for v w
    using assms(2) that by (auto simp: go_compare_def distinct_map inj_on_def split: if_splits)
  then have "sort_by (\<lambda>l r. go_compare (wk_ID l) (wk_ID r)) ws =
      sort_by (\<lambda>l r. go_compare (wk_ID l) (wk_ID r)) (inv_workers inventory)"
    using assms(1) by (intro by_id.sort_by_cong) auto
  moreover have "validateInputs (inventory\<lparr>inv_workers := ws\<rparr>) q' = validateInputs inventory q'" for q'
    by (simp add: validateInputs_def)
  ultimately show ?thesis by (simp add: evaluateCandidates_def Let_def)
qed

section \<open>The properties at the concrete inventory\<close>

theorem evaluation_applies_constraints_witness:
  "\<exists>ev. evaluateCandidates demo_inventory (demo_requirement ''qwen'') = Inr ev \<and>
     map cd_workerID (ev_candidates ev) = [''a'', ''b''] \<and>
     map cd_eligible (ev_candidates ev) = [False, True] \<and>
     map rj_code (cd_rejections (hd (ev_candidates ev))) = [RejectionInsufficientMemory]"
proof -
  obtain ev where ev: "evaluateCandidates demo_inventory (demo_requirement ''qwen'') = Inr ev"
    "ev_inventoryGeneratedAt ev = 3000" "ev_statusMaxAgeMillis ev = 1000"
    "ev_requirement ev = demo_requirement ''qwen''"
    using demo_evaluated by blast
  have sorted: "sort_by (\<lambda>l r. go_compare (wk_ID l) (wk_ID r)) (inv_workers demo_inventory) =
      [ready_worker ''a'' 8, ready_worker ''b'' 90]"
  proof -
    have "\<not> go_compare ''b'' ''a'' \<le> 0" by code_simp
    then show ?thesis by (simp add: demo_inventory_def ready_worker_def demo_worker_def Let_def)
  qed
  have v: "filter (violated 3000 1000 (demo_requirement ''qwen'') (ready_worker ''a'' 8)) all_codes =
      [RejectionInsufficientMemory]"
    "filter (violated 3000 1000 (demo_requirement ''qwen'') (ready_worker ''b'' 90)) all_codes = []"
    by (simp_all add: all_codes_def ready_worker_def demo_worker_def demo_requirement_def demo_model_def
        demo_capabilities_def demo_status_def demo_transport_def healthHealthy_def Let_def
        needed_operations_def needed_memory_def reusable_def compatibleRetainedShard_def
        advertisedTransport_def)
  have none: "(\<forall>code. \<not> violated 3000 1000 (demo_requirement ''qwen'') w code) \<longleftrightarrow>
      filter (violated 3000 1000 (demo_requirement ''qwen'') w) all_codes = []" for w
    by (simp add: filter_empty_conv set_all_codes)
  have ids: "wk_ID (ready_worker i m) = i" for i m
    by (simp add: ready_worker_def demo_worker_def Let_def)
  obtain c d where cs: "ev_candidates ev = [c, d]"
    using evaluation_applies_constraints [OF ev(1), unfolded sorted]
    by (auto simp: list_all2_Cons1)
  show ?thesis
    using evaluation_applies_constraints [OF ev(1), unfolded sorted ev(2-4) cs none] ev(1) cs
    by (simp add: v ids)
qed

theorem evaluation_order_independent_witness:
  "evaluateCandidates (demo_inventory\<lparr>inv_workers := rev (inv_workers demo_inventory)\<rparr>) (demo_requirement ''qwen'') =
   evaluateCandidates demo_inventory (demo_requirement ''qwen'')"
  by (rule evaluation_order_independent)
     (simp_all add: demo_inventory_def ready_worker_def demo_worker_def Let_def)

end
