(* ===== verification/Arithmetic.thy ===== *)
theory Arithmetic
  imports Prelude Eligibility
begin

text \<open>
  The 64-bit arithmetic of placement: double-width products and quotients (\<open>bits.Mul64\<close>,
  \<open>bits.Div64\<close>), the throughput computed from a transfer (\<open>bytesPerSecond\<close> in
  \<open>internal/placement/profile.go\<close>), and the checked products, quotients and sums of
  \<open>internal/placement/scoring.go\<close>. The lemmas say what each computes on natural numbers.
\<close>

section \<open>Double-width operations\<close>

text \<open>
  \<open>Mul64\<close> returns the high and the low word of the product. \<open>Div64\<close> divides a
  double word; it panics, which \<open>None\<close> stands for, when the quotient does not fit.
\<close>

definition mul64 :: "u64 \<Rightarrow> u64 \<Rightarrow> u64 \<times> u64" where
  "mul64 x y = (word_of_nat (unat x * unat y div 2 ^ 64), x * y)"

definition div64 :: "u64 \<Rightarrow> u64 \<Rightarrow> u64 \<Rightarrow> (u64 \<times> u64) option" where
  "div64 high low d =
     (if d \<le> high then None
      else let n = unat high * 2 ^ 64 + unat low
        in Some (word_of_nat (n div unat d), word_of_nat (n mod unat d)))"

lemma mul64_value:
  assumes "mul64 x y = (high, low)"
  shows "unat high * 2 ^ 64 + unat low = unat x * unat y" "unat high = unat x * unat y div 2 ^ 64"
proof -
  have "unat x * unat y < 2 ^ 64 * 2 ^ 64"
    using u64_bound [of x] u64_bound [of y] by (intro mult_strict_mono) auto
  then have "unat x * unat y div 2 ^ 64 < 2 ^ 64" by (simp add: less_mult_imp_div_less)
  then show h: "unat high = unat x * unat y div 2 ^ 64"
    using assms by (auto simp: mul64_def unat_u64_of_nat)
  have "unat low = unat x * unat y mod 2 ^ 64" using assms by (auto simp: mul64_def unat_word_ariths)
  then show "unat high * 2 ^ 64 + unat low = unat x * unat y" by (simp add: h)
qed

lemma div64_value:
  assumes "high < d"
  obtains q r where "div64 high low d = Some (q, r)"
    "unat q = (unat high * 2 ^ 64 + unat low) div unat d"
    "unat r = (unat high * 2 ^ 64 + unat low) mod unat d"
proof -
  let ?n = "unat high * 2 ^ 64 + unat low"
  have d: "unat high < unat d" using assms by (simp add: u64_less_iff)
  have "?n < (unat high + 1) * 2 ^ 64" using u64_bound [of low] by simp
  also have "\<dots> \<le> unat d * 2 ^ 64" using d by (intro mult_right_mono) auto
  finally have q: "?n div unat d < 2 ^ 64" by (simp add: less_mult_imp_div_less mult.commute)
  have "?n mod unat d < unat d" using d by simp
  from less_trans [OF this u64_bound] have r: "?n mod unat d < 2 ^ 64" by simp
  have "\<not> d \<le> high" using assms by simp
  then show ?thesis using q r
    by (intro that [of "word_of_nat (?n div unat d)" "word_of_nat (?n mod unat d)"])
       (simp_all add: div64_def Let_def unat_u64_of_nat)
qed

section \<open>The operations of the source\<close>

definition bytesPerSecond :: "u64 \<Rightarrow> u64 \<Rightarrow> u64" where
  "bytesPerSecond payloadBytes elapsedMicros =
     (let whole = payloadBytes div elapsedMicros in
      if - 1 div 1000000 < whole then - 1
      else let result = whole * 1000000;
               remainder = payloadBytes mod elapsedMicros;
               (high, low) = mul64 remainder 1000000;
               (partial, _) = the (div64 high low elapsedMicros)
        in if - 1 - partial < result then - 1 else result + partial)"

definition multiplyUint64 :: "u64 \<Rightarrow> u64 \<Rightarrow> u64 \<times> bool" where
  "multiplyUint64 left right =
     (if left \<noteq> 0 \<and> - 1 div left < right then (0, True) else (left * right, False))"

datatype arithmetic_error =
    DenominatorZero
  | EstimateOverflows
  | RoundedEstimateOverflows
  | ScoreOverflows

definition multiplyDivideCeil :: "u64 \<Rightarrow> u64 \<Rightarrow> u64 \<Rightarrow> arithmetic_error + u64" where
  "multiplyDivideCeil left right denominator =
     (if denominator = 0 then Inl DenominatorZero
      else let (high, low) = mul64 left right in
        if denominator \<le> high then Inl EstimateOverflows
        else let (quotient, remainder) = the (div64 high low denominator) in
          if 0 < remainder
          then if quotient = - 1 then Inl RoundedEstimateOverflows else Inr (quotient + 1)
          else Inr quotient)"

definition checkedScoreAdd :: "u64 \<Rightarrow> u64 \<Rightarrow> arithmetic_error + u64" where
  "checkedScoreAdd left right =
     (let (value, overflow) = addUint64 left right in
      if overflow then Inl ScoreOverflows else Inr value)"

definition compareUint64 :: "u64 \<Rightarrow> u64 \<Rightarrow> int" where
  "compareUint64 left right = (if left < right then - 1 else if right < left then 1 else 0)"

definition compareBool :: "bool \<Rightarrow> bool \<Rightarrow> int" where
  "compareBool left right = (if left = right then 0 else if \<not> left then - 1 else 1)"

section \<open>What they compute\<close>

lemma u64_too_big: "2 ^ 64 \<le> n \<Longrightarrow> unat (v :: u64) \<noteq> n"
proof
  assume "2 ^ 64 \<le> n" "unat v = n"
  then have "\<not> unat v < 18446744073709551616" by simp
  then show False using u64_bound by blast
qed

lemma compareUint64_go: "compareUint64 = go_compare"
  by (simp add: fun_eq_iff compareUint64_def go_compare_def)

lemma compareBool_go: "compareBool = go_compare"
  by (auto simp: fun_eq_iff compareBool_def go_compare_def)

lemma unat_u64_div: "unat (x div y :: u64) = unat x div unat y"
  by (rule unat_div)

lemma unat_u64_mod: "unat (x mod y :: u64) = unat x mod unat y"
  by (rule unat_mod)

lemma addUint64_exact:
  "addUint64 x y = (v, False) \<longleftrightarrow> unat x + unat y < 2 ^ 64 \<and> unat v = unat x + unat y"
proof -
  have iff: "- 1 - y < x \<longleftrightarrow> \<not> unat x + unat y < 2 ^ 64" by (simp only: u64_add_overflow) auto
  show ?thesis
  proof (cases "unat x + unat y < 2 ^ 64")
    case True
    then have "unat (x + y) = unat x + unat y" by (simp add: unat_u64_add_exact)
    then show ?thesis using True iff by (auto simp: addUint64_def u64_eq_iff)
  next
    case False
    with iff show ?thesis by (simp add: addUint64_def)
  qed
qed

lemma addUint64_overflow: "snd (addUint64 x y) \<longleftrightarrow> 2 ^ 64 \<le> unat x + unat y"
proof -
  have "- 1 - y < x \<longleftrightarrow> 2 ^ 64 \<le> unat x + unat y" by (simp only: u64_add_overflow) simp
  then show ?thesis by (simp add: addUint64_def)
qed

lemma checkedScoreAdd_exact [result_split]:
  "checkedScoreAdd x y = Inr v \<longleftrightarrow> unat v = unat x + unat y"
proof -
  obtain w b where a: "addUint64 x y = (w, b)" by (cases "addUint64 x y")
  show ?thesis
  proof (cases b)
    case True
    then have "2 ^ 64 \<le> unat x + unat y" using a addUint64_overflow [of x y] by simp
    then have "unat v \<noteq> unat x + unat y" by (rule u64_too_big)
    then show ?thesis using a True by (simp add: checkedScoreAdd_def)
  next
    case False
    then show ?thesis using a addUint64_exact [of x y w] by (auto simp: checkedScoreAdd_def u64_eq_iff)
  qed
qed

lemma multiplyUint64_exact:
  "multiplyUint64 x y = (v, False) \<longleftrightarrow> unat v = unat x * unat y"
proof (cases "x = 0")
  case True
  then show ?thesis by (simp add: multiplyUint64_def unat_eq_zero eq_commute [of 0])
next
  case False
  then have x: "0 < unat x" by (simp add: unat_gt_0)
  have "- 1 div x < y \<longleftrightarrow> 18446744073709551615 div unat x < unat y"
    by (simp add: u64_less_iff unat_u64_div)
  also have "\<dots> \<longleftrightarrow> 18446744073709551615 < unat y * unat x" using x by (simp add: div_less_iff_less_mult)
  finally have iff: "- 1 div x < y \<longleftrightarrow> \<not> unat x * unat y < 2 ^ 64" by (auto simp: mult.commute)
  show ?thesis
  proof (cases "unat x * unat y < 2 ^ 64")
    case True
    then have "unat (x * y) = unat x * unat y" by (simp add: unat_u64_mult_exact)
    then show ?thesis using True iff by (auto simp: multiplyUint64_def u64_eq_iff)
  next
    case False': False
    moreover from this have "unat v \<noteq> unat x * unat y" by (intro u64_too_big) (simp only: not_less)
    ultimately show ?thesis using iff False by (simp add: multiplyUint64_def)
  qed
qed


lemma bytesPerSecond_value:
  assumes "elapsed \<noteq> 0"
  shows "unat (bytesPerSecond payload elapsed) = min (2 ^ 64 - 1) (unat payload * 1000000 div unat elapsed)"
proof -
  define p e where "p = unat payload" and "e = unat elapsed"
  have e: "0 < e" using assms by (simp add: e_def unat_gt_0)
  define whole where "whole = payload div elapsed"
  have w: "unat whole = p div e" by (simp add: whole_def unat_u64_div p_def e_def)
  have exact: "p * 1000000 div e = p div e * 1000000 + p mod e * 1000000 div e"
  proof -
    have "p * 1000000 = p mod e * 1000000 + e * (p div e * 1000000)"
      by (metis (no_types) add.commute add_mult_distrib mult.assoc mult_div_mod_eq)
    then show ?thesis using e by simp
  qed
  have bound: "- 1 div 1000000 < whole \<longleftrightarrow> 18446744073709 < p div e"
    by (simp add: u64_less_iff unat_u64_div w)
  show ?thesis
  proof (cases "18446744073709 < p div e")
    case True
    then have "18446744073709551615 < p * 1000000 div e" by (simp add: exact)
    with True bound show ?thesis by (simp add: bytesPerSecond_def Let_def whole_def [symmetric] p_def e_def)
  next
    case False
    have r: "unat (whole * 1000000) = p div e * 1000000"
      using False unat_u64_mult_exact [of whole 1000000] by (simp add: w)
    define remainder where "remainder = payload mod elapsed"
    have rem: "unat remainder = p mod e" by (simp add: remainder_def unat_u64_mod p_def e_def)
    obtain high low where m: "mul64 remainder 1000000 = (high, low)" by (cases "mul64 remainder 1000000")
    have mv: "unat high * 2 ^ 64 + unat low = p mod e * 1000000"
      using mul64_value(1) [OF m] by (simp add: rem)
    have small: "p mod e * 1000000 < e * 2 ^ 64"
    proof -
      have "p mod e * 1000000 < e * 1000000" using e by simp
      also have "\<dots> \<le> e * 2 ^ 64" by simp
      finally show ?thesis .
    qed
    have "unat high * 2 ^ 64 < e * 2 ^ 64" using mv small by linarith
    then have "high < elapsed" by (simp add: u64_less_iff e_def)
    from div64_value [OF this, of low] mv
    obtain partial rest where d: "div64 high low elapsed = Some (partial, rest)"
      and pv: "unat partial = p mod e * 1000000 div e"
      unfolding e_def by metis
    have step: "bytesPerSecond payload elapsed =
        (if - 1 - partial < whole * 1000000 then - 1 else whole * 1000000 + partial)"
      using False bound m d
      by (simp add: bytesPerSecond_def Let_def whole_def [symmetric] remainder_def [symmetric])
    have over: "- 1 - partial < whole * 1000000 \<longleftrightarrow> 18446744073709551616 \<le> p * 1000000 div e"
      by (simp only: u64_add_overflow r pv exact)
    show ?thesis
    proof (cases "18446744073709551616 \<le> p * 1000000 div e")
      case True
      then show ?thesis using step over by (simp add: p_def e_def)
    next
      case False
      then have "unat (whole * 1000000 + partial) = p * 1000000 div e"
        by (subst unat_u64_add_exact) (simp_all only: r pv exact not_le)
      then show ?thesis using step over False by (simp add: p_def e_def)
    qed
  qed
qed

text \<open>The ceiling of a quotient.\<close>

definition ceil_div :: "nat \<Rightarrow> nat \<Rightarrow> nat" where
  "ceil_div n d = (n + d - 1) div d"

lemma ceil_div_eq: "0 < d \<Longrightarrow> ceil_div n d = (if n mod d = 0 then n div d else n div d + 1)"
proof -
  assume d: "0 < d"
  define q r where "q = n div d" and "r = n mod d"
  have n: "n = d * q + r" "r < d" using d by (simp_all add: q_def r_def)
  show ?thesis
  proof (cases "r = 0")
    case True
    then have "n + d - 1 = (d - 1) + d * q" using n d by simp
    then have "ceil_div n d = ((d - 1) + d * q) div d" by (simp only: ceil_div_def)
    also have "\<dots> = q + (d - 1) div d" using d by (intro div_mult_self2) simp
    finally have "ceil_div n d = (d - 1) div d + q" by simp
    moreover have "(d - 1) div d = 0" using d by simp
    ultimately show ?thesis using True by (simp add: q_def r_def)
  next
    case False
    have "n + d - 1 = (r - 1) + d * (q + 1)" using n(1) False by (simp add: algebra_simps)
    then have "ceil_div n d = ((r - 1) + d * (q + 1)) div d" by (simp only: ceil_div_def)
    also have "\<dots> = (q + 1) + (r - 1) div d" using d by (intro div_mult_self2) simp
    finally have "ceil_div n d = (r - 1) div d + (q + 1)" by simp
    moreover have "(r - 1) div d = 0" using n(2) by simp
    ultimately show ?thesis using False by (simp add: q_def r_def)
  qed
qed

lemma ceil_div_mono: "n \<le> m \<Longrightarrow> ceil_div n d \<le> ceil_div m d"
  by (simp add: ceil_div_def div_le_mono)

lemma multiplyDivideCeil_value:
  "multiplyDivideCeil left right d = Inr v \<longleftrightarrow>
     d \<noteq> 0 \<and> unat v = ceil_div (unat left * unat right) (unat d)"
proof (cases "d = 0")
  case True
  then show ?thesis by (simp add: multiplyDivideCeil_def)
next
  case False
  then have d: "0 < unat d" by (simp add: unat_gt_0)
  define n where "n = unat left * unat right"
  obtain high low where m: "mul64 left right = (high, low)" by (cases "mul64 left right")
  have mv: "unat high * 2 ^ 64 + unat low = n" using mul64_value(1) [OF m] by (simp add: n_def)
  show ?thesis
  proof (cases "d \<le> high")
    case True
    then have "unat d * 2 ^ 64 \<le> n" using mv by (simp add: u64_le_iff)
    then have "2 ^ 64 \<le> n div unat d" using d by (simp add: less_eq_div_iff_mult_less_eq mult.commute)
    then have "2 ^ 64 \<le> ceil_div n (unat d)" using d by (simp add: ceil_div_eq)
    then have "unat v \<noteq> ceil_div n (unat d)" by (rule u64_too_big)
    then show ?thesis using True False m by (simp add: multiplyDivideCeil_def n_def)
  next
    case small: False
    then have "high < d" by simp
    then obtain q r where q: "div64 high low d = Some (q, r)" "unat q = n div unat d" "unat r = n mod unat d"
      using mv by (metis div64_value)
    have r: "0 < r \<longleftrightarrow> n mod unat d \<noteq> 0" using q(3) by (simp add: u64_less_iff)
    have step: "multiplyDivideCeil left right d =
        (if 0 < r then if q = - 1 then Inl RoundedEstimateOverflows else Inr (q + 1) else Inr q)"
      using False small m q(1) by (simp add: multiplyDivideCeil_def)
    have top: "q = - 1 \<longleftrightarrow> unat q = 18446744073709551615" by (simp add: u64_eq_iff)
    have ceil: "ceil_div n (unat d) = (if 0 < r then unat q + 1 else unat q)"
      using d r q(2) by (simp add: ceil_div_eq)
    have plus: "unat (q + 1) = unat q + 1" if "q \<noteq> - 1"
    proof -
      have "unat q + 1 < 18446744073709551616" using that top u64_bound [of q] by linarith
      then show ?thesis using unat_u64_add_exact [of q 1] by simp
    qed
    show ?thesis
    proof (cases "0 < r \<and> q = - 1")
      case True
      then have "ceil_div n (unat d) = 18446744073709551616" using ceil top by simp
      moreover have "unat v \<noteq> 18446744073709551616" using u64_bound [of v] by linarith
      ultimately show ?thesis using step True by (simp add: n_def)
    next
      case no: False
      then show ?thesis using step ceil plus False by (auto simp: n_def u64_eq_iff)
    qed
  qed
qed

section \<open>Properties\<close>

text \<open>
  the throughput of a transfer is the exact quotient of the bytes scaled to a second by
  the elapsed microseconds, saturated at the largest \<open>uint64\<close>: the split into whole and
  remainder never overflows on the way and \<open>Div64\<close> never panics.
\<close>

theorem bytesPerSecond_exact:
  assumes "elapsed \<noteq> 0"
  shows "unat (bytesPerSecond payload elapsed) =
    min 18446744073709551615 (unat payload * 1000000 div unat elapsed)"
  using bytesPerSecond_value [OF assms, of payload] by simp

theorem bytesPerSecond_exact_witness:
  "unat (bytesPerSecond 3000000000 7) = 428571428571428 \<and> unat (bytesPerSecond 1 2000001) = 0"
  using bytesPerSecond_exact [of 7 3000000000] bytesPerSecond_exact [of 2000001 1] by simp

text \<open>
  \<open>multiplyDivideCeil\<close> returns the exact ceiling of the quotient of the unbounded
  product, whenever the denominator is positive and the ceiling fits, and an error otherwise.
\<close>

theorem multiplyDivideCeil_exact:
  "(multiplyDivideCeil left right d = Inr v) =
     (d \<noteq> 0 \<and> unat v = ceil_div (unat left * unat right) (unat d))"
  by (rule multiplyDivideCeil_value)

text \<open>
  the checked sum and product report an overflow exactly when the unbounded result
  does not fit, and return it exactly otherwise.
\<close>

theorem checked_arithmetic_exact:
  "(checkedScoreAdd x y = Inr v) = (unat v = unat x + unat y) \<and>
   (multiplyUint64 x y = (v, False)) = (unat v = unat x * unat y)"
  by (simp only: checkedScoreAdd_exact multiplyUint64_exact)

end
