(* ===== verification/Profile.thy ===== *)
theory Profile
  imports Prelude Execution_Plan Registry Eligibility Arithmetic
begin

text \<open>
  The rolling evidence store (\<open>internal/placement/profile.go\<close> and
  \<open>profile_generation.go\<close>): link and compute observations, their bounded time series,
  and the summaries a snapshot reports. Every operation runs under one mutex, so it is one
  step of the store.
\<close>

section \<open>Observations, samples and summaries\<close>

definition defaultProfileMaxAge :: duration where
  "defaultProfileMaxAge = 5 * minute"

definition defaultProfileMaxSamplesPerSeries :: int where
  "defaultProfileMaxSamplesPerSeries = 64"

definition defaultProfileMaxSeries :: int where
  "defaultProfileMaxSeries = 4096"

definition maxProfileLabelBytes :: nat where
  "maxProfileLabelBytes = 1024"

record profile_config =
  pc_maxAge :: duration
  pc_maxSamplesPerSeries :: int
  pc_maxSeries :: int

record link_observation =
  lo_sourceID :: string
  lo_sourceInstanceID :: string
  lo_targetID :: string
  lo_targetInstanceID :: string
  lo_protocol :: string
  lo_tensorEncoding :: string
  lo_observedAt :: instant
  lo_rttMicros :: u64
  lo_payloadBytes :: u64
  lo_elapsedMicros :: u64

record compute_observation =
  co_workerID :: string
  co_workerInstanceID :: string
  co_backend :: string
  co_model :: execution_model
  co_operation :: string
  co_layerStart :: int
  co_layerEnd :: int
  co_inputTokenCount :: u64
  co_computeMicros :: u64
  co_observedAt :: instant

record value_distribution =
  vd_count :: int
  vd_min :: u64
  vd_p50 :: u64
  vd_p95 :: u64
  vd_max :: u64

record link_profile =
  lp_sourceID :: string
  lp_sourceInstanceID :: string
  lp_targetID :: string
  lp_targetInstanceID :: string
  lp_protocol :: string
  lp_tensorEncoding :: string
  lp_latestObservedAt :: instant
  lp_rttMicros :: value_distribution
  lp_effectiveBytesPerSecond :: value_distribution

record compute_profile =
  cp_workerID :: string
  cp_workerInstanceID :: string
  cp_backend :: string
  cp_model :: execution_model
  cp_operation :: string
  cp_layerStart :: int
  cp_layerEnd :: int
  cp_latestObservedAt :: instant
  cp_inputTokenCount :: value_distribution
  cp_computeMicros :: value_distribution

record profile_snapshot =
  ps_schemaVersion :: int
  ps_revision :: u64
  ps_generatedAt :: instant
  ps_maxAgeMillis :: int
  ps_maxSamplesPerSeries :: int
  ps_maxSeries :: int
  ps_links :: "link_profile list"
  ps_compute :: "compute_profile list"

record link_key =
  lk_sourceID :: string
  lk_sourceInstanceID :: string
  lk_targetID :: string
  lk_targetInstanceID :: string
  lk_protocol :: string
  lk_tensorEncoding :: string

record compute_key =
  ck_workerID :: string
  ck_workerInstanceID :: string
  ck_backend :: string
  ck_modelID :: string
  ck_fingerprint :: string
  ck_operation :: string
  ck_layerCount :: int
  ck_layerStart :: int
  ck_layerEnd :: int

record link_sample =
  ls_observedAt :: instant
  ls_rttMicros :: u64
  ls_payloadBytes :: u64
  ls_elapsedMicros :: u64

record compute_sample =
  cs_observedAt :: instant
  cs_inputTokenCount :: u64
  cs_computeMicros :: u64

record profile_store =
  pf_maxAge :: duration
  pf_maxSamplesPerSeries :: int
  pf_maxSeries :: int
  pf_revision :: u64
  pf_latestAcceptedAt :: instant
  pf_links :: "(link_key \<times> link_sample list) list"
  pf_compute :: "(compute_key \<times> compute_sample list) list"

datatype profile_error =
    ProfileAgeInvalid
  | ProfileLimitsInvalid
  | SeriesLimitReached
  | RevisionExhausted
  | EmptyBatch
  | ObservationFailed nat profile_error
  | SnapshotTimeRequired
  | SnapshotRewind
  | AcceptanceTimeRequired
  | ObservedAfterAcceptance
  | ObservedStale
  | LabelTooLong string
  | LabelRequired string
  | LinkEndpointsEqual
  | LinkTimeOrRTTMissing
  | TransferHalfMissing
  | ComputeRangeInvalid
  | ComputeFieldsMissing
  | ProfileTimeRequired
  | ProfileInventorySchema int
  | ProfilePlanInvalid plan_error
  | ProfilePlanUnpinned
  | ProfilePlanRevision string u64
  | SampleHeaderInvalid
  | SampleStageCount nat nat
  | ProfileWorkerDuplicated string
  | SampleStageInconsistent nat
  | ProfileTargetMissing string

section \<open>Normalisation of observations\<close>

definition normalizeProfileLabel :: "string \<Rightarrow> string \<Rightarrow> profile_error + string" where
  "normalizeProfileLabel name label =
     (if maxProfileLabelBytes < length label then Inl (LabelTooLong name)
      else if trim_space label = [] then Inl (LabelRequired name)
      else Inr (trim_space label))"

definition normalizeLinkObservation ::
  "link_observation \<Rightarrow> profile_error + link_observation \<times> link_key" where
  "normalizeLinkObservation x =
     and_then (normalizeProfileLabel ''source ID'' (lo_sourceID x)) (\<lambda>sourceID.
     and_then (normalizeProfileLabel ''target ID'' (lo_targetID x)) (\<lambda>targetID.
     and_then (normalizeProfileLabel ''source instance ID'' (lo_sourceInstanceID x)) (\<lambda>sourceInstanceID.
     and_then (normalizeProfileLabel ''target instance ID'' (lo_targetInstanceID x)) (\<lambda>targetInstanceID.
     if sourceID = targetID then Inl LinkEndpointsEqual
     else
     and_then (normalizeProfileLabel ''protocol'' (lo_protocol x)) (\<lambda>protocol.
     and_then (normalizeProfileLabel ''tensor encoding'' (lo_tensorEncoding x)) (\<lambda>tensorEncoding.
     if lo_observedAt x = 0 \<or> lo_rttMicros x = 0 then Inl LinkTimeOrRTTMissing
     else if (lo_payloadBytes x = 0) \<noteq> (lo_elapsedMicros x = 0) then Inl TransferHalfMissing
     else Inr
       (x\<lparr>lo_sourceID := sourceID, lo_targetID := targetID, lo_sourceInstanceID := sourceInstanceID,
          lo_targetInstanceID := targetInstanceID, lo_protocol := protocol,
          lo_tensorEncoding := tensorEncoding\<rparr>,
        \<lparr>lk_sourceID = sourceID, lk_sourceInstanceID = sourceInstanceID, lk_targetID = targetID,
         lk_targetInstanceID = targetInstanceID, lk_protocol = protocol,
         lk_tensorEncoding = tensorEncoding\<rparr>)))))))"

definition normalizeComputeObservation ::
  "compute_observation \<Rightarrow> profile_error + compute_observation \<times> compute_key" where
  "normalizeComputeObservation x =
     and_then (normalizeProfileLabel ''worker ID'' (co_workerID x)) (\<lambda>workerID.
     and_then (normalizeProfileLabel ''worker instance ID'' (co_workerInstanceID x)) (\<lambda>instanceID.
     and_then (normalizeProfileLabel ''backend'' (co_backend x)) (\<lambda>backend.
     and_then (normalizeProfileLabel ''model ID'' (em_ID (co_model x))) (\<lambda>modelID.
     and_then (normalizeProfileLabel ''checkpoint fingerprint'' (em_checkpointFingerprint (co_model x))) (\<lambda>fingerprint.
     and_then (normalizeProfileLabel ''operation'' (co_operation x)) (\<lambda>operation.
     if em_layerCount (co_model x) \<le> 0 \<or> co_layerStart x < 0 \<or> co_layerEnd x \<le> co_layerStart x \<or>
        em_layerCount (co_model x) < co_layerEnd x
     then Inl ComputeRangeInvalid
     else if co_observedAt x = 0 \<or> co_inputTokenCount x = 0 \<or> co_computeMicros x = 0
     then Inl ComputeFieldsMissing
     else Inr
       (x\<lparr>co_workerID := workerID, co_workerInstanceID := instanceID, co_backend := backend,
          co_model := (co_model x)\<lparr>em_ID := modelID, em_checkpointFingerprint := fingerprint\<rparr>,
          co_operation := operation\<rparr>,
        \<lparr>ck_workerID = workerID, ck_workerInstanceID = instanceID, ck_backend = backend,
         ck_modelID = modelID, ck_fingerprint = fingerprint, ck_operation = operation,
         ck_layerCount = em_layerCount (co_model x), ck_layerStart = co_layerStart x,
         ck_layerEnd = co_layerEnd x\<rparr>)))))))"

section \<open>Series of samples\<close>

definition compareLinkSamples :: "link_sample \<Rightarrow> link_sample \<Rightarrow> int" where
  "compareLinkSamples l r = first_nonzero
     [go_compare (ls_observedAt l) (ls_observedAt r), compareUint64 (ls_rttMicros l) (ls_rttMicros r),
      compareUint64 (ls_payloadBytes l) (ls_payloadBytes r),
      compareUint64 (ls_elapsedMicros l) (ls_elapsedMicros r)]"

definition compareComputeSamples :: "compute_sample \<Rightarrow> compute_sample \<Rightarrow> int" where
  "compareComputeSamples l r = first_nonzero
     [go_compare (cs_observedAt l) (cs_observedAt r),
      compareUint64 (cs_inputTokenCount l) (cs_inputTokenCount r),
      compareUint64 (cs_computeMicros l) (cs_computeMicros r)]"

definition sortLinkObservations :: "link_sample list \<Rightarrow> link_sample list" where
  "sortLinkObservations = sort_by compareLinkSamples"

definition sortComputeObservations :: "compute_sample list \<Rightarrow> compute_sample list" where
  "sortComputeObservations = sort_by compareComputeSamples"

definition retainNewest :: "'a list \<Rightarrow> int \<Rightarrow> 'a list" where
  "retainNewest values limit =
     (if int (length values) \<le> limit then values
      else drop (nat (int (length values) - limit)) values)"

text \<open>The samples not older than the cutoff, and those of them not after \<open>at\<close>.\<close>

definition currentLinkObservations ::
  "link_sample list \<Rightarrow> instant \<Rightarrow> instant \<Rightarrow> link_sample list \<times> link_sample list" where
  "currentLinkObservations xs cutoff at =
     (let retained = filter (\<lambda>x. \<not> ls_observedAt x < cutoff) xs
      in (retained, filter (\<lambda>x. \<not> at < ls_observedAt x) retained))"

definition currentComputeObservations ::
  "compute_sample list \<Rightarrow> instant \<Rightarrow> instant \<Rightarrow> compute_sample list \<times> compute_sample list" where
  "currentComputeObservations xs cutoff at =
     (let retained = filter (\<lambda>x. \<not> cs_observedAt x < cutoff) xs
      in (retained, filter (\<lambda>x. \<not> at < cs_observedAt x) retained))"

section \<open>Summaries\<close>

definition emptyDistribution :: value_distribution where
  "emptyDistribution = \<lparr>vd_count = 0, vd_min = 0, vd_p50 = 0, vd_p95 = 0, vd_max = 0\<rparr>"

definition nearestRank :: "u64 list \<Rightarrow> nat \<Rightarrow> u64" where
  "nearestRank ordered percentile =
     (let index = (percentile * length ordered + 99) div 100
      in ordered ! ((if index < 1 then 1 else index) - 1))"

definition summarizeValues :: "u64 list \<Rightarrow> value_distribution" where
  "summarizeValues values =
     (if values = [] then emptyDistribution
      else let ordered = sort values in
        \<lparr>vd_count = int (length ordered), vd_min = ordered ! 0, vd_p50 = nearestRank ordered 50,
         vd_p95 = nearestRank ordered 95, vd_max = ordered ! (length ordered - 1)\<rparr>)"

definition summarizeLink :: "link_key \<Rightarrow> link_sample list \<Rightarrow> link_profile" where
  "summarizeLink key xs =
     \<lparr>lp_sourceID = lk_sourceID key, lp_sourceInstanceID = lk_sourceInstanceID key,
      lp_targetID = lk_targetID key, lp_targetInstanceID = lk_targetInstanceID key,
      lp_protocol = lk_protocol key, lp_tensorEncoding = lk_tensorEncoding key,
      lp_latestObservedAt = foldl (\<lambda>latest x. if latest < ls_observedAt x then ls_observedAt x else latest)
        (ls_observedAt (hd xs)) xs,
      lp_rttMicros = summarizeValues (map ls_rttMicros xs),
      lp_effectiveBytesPerSecond = summarizeValues
        (map (\<lambda>x. bytesPerSecond (ls_payloadBytes x) (ls_elapsedMicros x))
          (filter (\<lambda>x. 0 < ls_payloadBytes x) xs))\<rparr>"

definition summarizeCompute :: "compute_key \<Rightarrow> compute_sample list \<Rightarrow> compute_profile" where
  "summarizeCompute key xs =
     \<lparr>cp_workerID = ck_workerID key, cp_workerInstanceID = ck_workerInstanceID key,
      cp_backend = ck_backend key,
      cp_model = \<lparr>em_ID = ck_modelID key, em_checkpointFingerprint = ck_fingerprint key,
        em_layerCount = ck_layerCount key\<rparr>,
      cp_operation = ck_operation key, cp_layerStart = ck_layerStart key, cp_layerEnd = ck_layerEnd key,
      cp_latestObservedAt = foldl (\<lambda>latest x. if latest < cs_observedAt x then cs_observedAt x else latest)
        (cs_observedAt (hd xs)) xs,
      cp_inputTokenCount = summarizeValues (map cs_inputTokenCount xs),
      cp_computeMicros = summarizeValues (map cs_computeMicros xs)\<rparr>"

definition compareLinkProfiles :: "link_profile \<Rightarrow> link_profile \<Rightarrow> int" where
  "compareLinkProfiles l r = first_nonzero (map (\<lambda>f. go_compare (f l) (f r))
     [lp_sourceID, lp_sourceInstanceID, lp_targetID, lp_targetInstanceID, lp_protocol, lp_tensorEncoding])"

definition compareComputeProfiles :: "compute_profile \<Rightarrow> compute_profile \<Rightarrow> int" where
  "compareComputeProfiles l r = first_nonzero
     (map (\<lambda>f. go_compare (f l) (f r))
        [cp_workerID, cp_workerInstanceID, cp_backend, \<lambda>p. em_ID (cp_model p),
         \<lambda>p. em_checkpointFingerprint (cp_model p), cp_operation] @
      [em_layerCount (cp_model l) - em_layerCount (cp_model r), cp_layerStart l - cp_layerStart r,
       cp_layerEnd l - cp_layerEnd r])"

section \<open>The store and its operations\<close>

definition newProfileStore :: "profile_config \<Rightarrow> profile_error + profile_store" where
  "newProfileStore config =
     (let maxAge = (if pc_maxAge config = 0 then defaultProfileMaxAge else pc_maxAge config);
          maxSamples = (if pc_maxSamplesPerSeries config = 0 then defaultProfileMaxSamplesPerSeries
                        else pc_maxSamplesPerSeries config);
          maxSeries = (if pc_maxSeries config = 0 then defaultProfileMaxSeries else pc_maxSeries config)
      in if maxAge < millisecond \<or> go_mod maxAge millisecond \<noteq> 0 then Inl ProfileAgeInvalid
         else if maxSamples < 0 \<or> maxSeries < 0 then Inl ProfileLimitsInvalid
         else Inr \<lparr>pf_maxAge = maxAge, pf_maxSamplesPerSeries = maxSamples, pf_maxSeries = maxSeries,
           pf_revision = 0, pf_latestAcceptedAt = 0, pf_links = [], pf_compute = []\<rparr>)"

definition seriesCountLocked :: "profile_store \<Rightarrow> int" where
  "seriesCountLocked store = int (length (pf_links store)) + int (length (pf_compute store))"

definition validateObservationTimeLocked ::
  "profile_store \<Rightarrow> instant \<Rightarrow> instant \<Rightarrow> profile_error + instant" where
  "validateObservationTimeLocked store at observedAt =
     (if at = 0 then Inl AcceptanceTimeRequired
      else if at < observedAt then Inl ObservedAfterAcceptance
      else let referenceAt = (if at < pf_latestAcceptedAt store then pf_latestAcceptedAt store else at)
        in if observedAt < referenceAt - pf_maxAge store then Inl ObservedStale
           else Inr referenceAt)"

definition acceptTimeLocked :: "instant \<Rightarrow> profile_store \<Rightarrow> profile_store" where
  "acceptTimeLocked at store =
     (if pf_latestAcceptedAt store < at then store\<lparr>pf_latestAcceptedAt := at\<rparr> else store)"

text \<open>Rewriting every series of a map, deleting the keys whose series becomes empty.\<close>

definition keep_series :: "('s list \<Rightarrow> 's list) \<Rightarrow> ('k \<times> 's list) list \<Rightarrow> ('k \<times> 's list) list" where
  "keep_series retain series =
     filter (\<lambda>e. snd e \<noteq> []) (map (\<lambda>e. (fst e, retain (snd e))) series)"

definition pruneExpiredLocked :: "instant \<Rightarrow> profile_store \<Rightarrow> profile_store" where
  "pruneExpiredLocked at store =
     (let cutoff = at - pf_maxAge store in
      store\<lparr>pf_links := keep_series (\<lambda>xs. fst (currentLinkObservations xs cutoff at)) (pf_links store),
        pf_compute := keep_series (\<lambda>xs. fst (currentComputeObservations xs cutoff at)) (pf_compute store)\<rparr>)"

definition series_of :: "('k \<times> 's list) list \<Rightarrow> 'k \<Rightarrow> 's list" where
  "series_of series key = (case map_of series key of None \<Rightarrow> [] | Some xs \<Rightarrow> xs)"

definition addLinkSample :: "link_key \<Rightarrow> link_sample \<Rightarrow> profile_store \<Rightarrow> profile_store" where
  "addLinkSample key x store =
     store\<lparr>pf_links := AList.update key
       (retainNewest (sortLinkObservations (series_of (pf_links store) key @ [x]))
         (pf_maxSamplesPerSeries store)) (pf_links store)\<rparr>"

definition addComputeSample :: "compute_key \<Rightarrow> compute_sample \<Rightarrow> profile_store \<Rightarrow> profile_store" where
  "addComputeSample key x store =
     store\<lparr>pf_compute := AList.update key
       (retainNewest (sortComputeObservations (series_of (pf_compute store) key @ [x]))
         (pf_maxSamplesPerSeries store)) (pf_compute store)\<rparr>"

definition observeLink ::
  "instant \<Rightarrow> link_observation \<Rightarrow> profile_store \<Rightarrow> profile_store \<times> (profile_error + unit)" where
  "observeLink at observation store =
     (case normalizeLinkObservation observation of
        Inl e \<Rightarrow> (store, Inl e)
      | Inr (x, key) \<Rightarrow>
          (case validateObservationTimeLocked store at (lo_observedAt x) of
             Inl e \<Rightarrow> (store, Inl e)
           | Inr referenceAt \<Rightarrow>
               let pruned = pruneExpiredLocked referenceAt store in
               if map_of (pf_links pruned) key = None \<and> pf_maxSeries pruned \<le> seriesCountLocked pruned
               then (pruned, Inl SeriesLimitReached)
               else if pf_revision pruned = - 1 then (pruned, Inl RevisionExhausted)
               else let added = addLinkSample key
                     \<lparr>ls_observedAt = lo_observedAt x, ls_rttMicros = lo_rttMicros x,
                      ls_payloadBytes = lo_payloadBytes x, ls_elapsedMicros = lo_elapsedMicros x\<rparr> pruned
                 in (acceptTimeLocked at (added\<lparr>pf_revision := pf_revision added + 1\<rparr>), Inr ())))"

fun validateBatchTimes ::
  "profile_store \<Rightarrow> instant \<Rightarrow> nat \<Rightarrow> instant \<Rightarrow> compute_observation list \<Rightarrow> profile_error + instant" where
  "validateBatchTimes store at index referenceAt [] = Inr referenceAt"
| "validateBatchTimes store at index referenceAt (x # rest) =
     (case validateObservationTimeLocked store at (co_observedAt x) of
        Inl e \<Rightarrow> Inl (ObservationFailed index e)
      | Inr validatedAt \<Rightarrow> validateBatchTimes store at (Suc index) validatedAt rest)"

definition addObservation :: "compute_observation \<times> compute_key \<Rightarrow> profile_store \<Rightarrow> profile_store" where
  "addObservation p store =
     addComputeSample (snd p)
       \<lparr>cs_observedAt = co_observedAt (fst p), cs_inputTokenCount = co_inputTokenCount (fst p),
        cs_computeMicros = co_computeMicros (fst p)\<rparr> store"

definition observeComputeBatch ::
  "instant \<Rightarrow> compute_observation list \<Rightarrow> profile_store \<Rightarrow> profile_store \<times> (profile_error + unit)" where
  "observeComputeBatch at observations store =
     (if observations = [] then (store, Inl EmptyBatch)
      else case collect (\<lambda>(index, x). map_error (ObservationFailed index) (normalizeComputeObservation x))
             (indexed observations) of
        Inl e \<Rightarrow> (store, Inl e)
      | Inr normalized \<Rightarrow>
          (case validateBatchTimes store at 0 at (map fst normalized) of
             Inl e \<Rightarrow> (store, Inl e)
           | Inr referenceAt \<Rightarrow>
               let pruned = pruneExpiredLocked referenceAt store;
                   newKeys = remdups (filter (\<lambda>key. map_of (pf_compute pruned) key = None)
                     (map snd normalized))
               in if pf_maxSeries pruned < seriesCountLocked pruned + int (length newKeys)
                  then (pruned, Inl SeriesLimitReached)
                  else if pf_revision pruned = - 1 then (pruned, Inl RevisionExhausted)
                  else let added = fold addObservation normalized pruned
                    in (acceptTimeLocked at (added\<lparr>pf_revision := pf_revision added + 1\<rparr>), Inr ())))"

definition observeCompute ::
  "instant \<Rightarrow> compute_observation \<Rightarrow> profile_store \<Rightarrow> profile_store \<times> (profile_error + unit)" where
  "observeCompute at observation store = observeComputeBatch at [observation] store"

definition profileSnapshot ::
  "instant \<Rightarrow> profile_store \<Rightarrow> profile_store \<times> (profile_error + profile_snapshot)" where
  "profileSnapshot at store =
     (if at = 0 then (store, Inl SnapshotTimeRequired)
      else if at < pf_latestAcceptedAt store then (store, Inl SnapshotRewind)
      else
        let cutoff = at - pf_maxAge store;
            freshLinks = filter (\<lambda>e. snd e \<noteq> [])
              (map (\<lambda>e. (fst e, snd (currentLinkObservations (snd e) cutoff at))) (pf_links store));
            freshCompute = filter (\<lambda>e. snd e \<noteq> [])
              (map (\<lambda>e. (fst e, snd (currentComputeObservations (snd e) cutoff at))) (pf_compute store))
        in (store\<lparr>pf_links := keep_series (\<lambda>xs. fst (currentLinkObservations xs cutoff at)) (pf_links store),
              pf_compute := keep_series (\<lambda>xs. fst (currentComputeObservations xs cutoff at)) (pf_compute store)\<rparr>,
            Inr \<lparr>ps_schemaVersion = placementSchemaVersion, ps_revision = pf_revision store,
              ps_generatedAt = at, ps_maxAgeMillis = milliseconds (pf_maxAge store),
              ps_maxSamplesPerSeries = pf_maxSamplesPerSeries store, ps_maxSeries = pf_maxSeries store,
              ps_links = sort_by compareLinkProfiles (map (\<lambda>e. summarizeLink (fst e) (snd e)) freshLinks),
              ps_compute = sort_by compareComputeProfiles
                (map (\<lambda>e. summarizeCompute (fst e) (snd e)) freshCompute)\<rparr>))"

section \<open>Observing one traversal of a planned pipeline\<close>

text \<open>
  The sample a planned generation reports (\<open>PlannedStageSample\<close> and \<open>StageExecution\<close> in
  \<open>internal/generation\<close>), with the fields that the store reads; the remaining timings and
  byte counts are carried along by the source and never looked at here.
\<close>

record stage_execution =
  se_index :: int
  se_stage :: execution_stage
  se_operation :: string
  se_position :: u64
  se_computeMicros :: u64

record planned_stage_sample =
  pss_operation :: string
  pss_position :: u64
  pss_inputTokenCount :: int
  pss_stages :: "stage_execution list"

fun indexWorkers :: "(string \<times> worker) list \<Rightarrow> worker list \<Rightarrow> profile_error + (string \<times> worker) list" where
  "indexWorkers seen [] = Inr seen"
| "indexWorkers seen (w # rest) =
     (if map_of seen (wk_ID w) \<noteq> None then Inl (ProfileWorkerDuplicated (wk_ID w))
      else indexWorkers ((wk_ID w, w) # seen) rest)"

definition sampleObservation ::
  "instant \<Rightarrow> execution_plan \<Rightarrow> planned_stage_sample \<Rightarrow> (string \<times> worker) list \<Rightarrow>
   nat \<times> stage_execution \<Rightarrow> profile_error + compute_observation" where
  "sampleObservation at plan sample workers = (\<lambda>(index, x).
     let stage = ep_stages plan ! index in
     if se_index x \<noteq> int index \<or> se_stage x \<noteq> stage \<or> se_operation x \<noteq> pss_operation sample \<or>
        se_computeMicros x = 0
     then Inl (SampleStageInconsistent index)
     else case map_of workers (es_targetID stage) of
         None \<Rightarrow> Inl (ProfileTargetMissing (es_targetID stage))
       | Some w \<Rightarrow> Inr
           \<lparr>co_workerID = es_targetID stage, co_workerInstanceID = wk_instanceID w,
            co_backend = cap_backend (wk_capabilities w), co_model = ep_model plan,
            co_operation = pss_operation sample, co_layerStart = es_layerStart stage,
            co_layerEnd = es_layerEnd stage, co_inputTokenCount = word_of_int (pss_inputTokenCount sample),
            co_computeMicros = se_computeMicros x, co_observedAt = at\<rparr>)"

definition observePlannedSample ::
  "digests \<Rightarrow> instant \<Rightarrow> inventory \<Rightarrow> execution_plan \<Rightarrow> planned_stage_sample \<Rightarrow> profile_store \<Rightarrow>
   profile_store \<times> (profile_error + unit)" where
  "observePlannedSample dg at inventory plan sample store =
     (if at = 0 then (store, Inl ProfileTimeRequired)
      else if inv_schemaVersion inventory \<noteq> registrySchemaVersion
      then (store, Inl (ProfileInventorySchema (inv_schemaVersion inventory)))
      else case validateExecutionPlan dg plan of
        Inl e \<Rightarrow> (store, Inl (ProfilePlanInvalid e))
      | Inr _ \<Rightarrow>
          if ep_inventoryRevision plan = [] then (store, Inl ProfilePlanUnpinned)
          else if ep_inventoryRevision plan \<noteq> decimal_nat (unat (inv_revision inventory))
          then (store, Inl (ProfilePlanRevision (ep_inventoryRevision plan) (inv_revision inventory)))
          else if pss_operation sample = [] \<or> pss_inputTokenCount sample \<le> 0
          then (store, Inl SampleHeaderInvalid)
          else if length (pss_stages sample) \<noteq> length (ep_stages plan)
          then (store, Inl (SampleStageCount (length (pss_stages sample)) (length (ep_stages plan))))
          else case and_then (indexWorkers [] (inv_workers inventory)) (\<lambda>workers.
                  collect (sampleObservation at plan sample workers) (indexed (pss_stages sample))) of
              Inl e \<Rightarrow> (store, Inl e)
            | Inr observations \<Rightarrow> observeComputeBatch at observations store)"

section \<open>Time series, abstractly\<close>

text \<open>
  What both kinds of series rely on: the samples are totally ordered, first by their time.
  The lemmas are proved once, for any such order, and used for links and for compute.
\<close>

definition series_ok :: "('s \<Rightarrow> 's \<Rightarrow> int) \<Rightarrow> ('s \<Rightarrow> bool) \<Rightarrow> int \<Rightarrow> 's list \<Rightarrow> bool" where
  "series_ok cmp good limit xs \<longleftrightarrow>
     xs \<noteq> [] \<and> int (length xs) \<le> limit \<and> sorted_wrt (\<lambda>x y. cmp x y \<le> 0) xs \<and> (\<forall>x \<in> set xs. good x)"

definition table_ok ::
  "('s \<Rightarrow> 's \<Rightarrow> int) \<Rightarrow> ('s \<Rightarrow> bool) \<Rightarrow> ('k \<Rightarrow> bool) \<Rightarrow> int \<Rightarrow> ('k \<times> 's list) list \<Rightarrow> bool" where
  "table_ok cmp good key_ok limit al \<longleftrightarrow>
     distinct (map fst al) \<and> (\<forall>e \<in> set al. key_ok (fst e) \<and> series_ok cmp good limit (snd e))"

locale sample_series = comparison cmp for cmp :: "'s \<Rightarrow> 's \<Rightarrow> int" +
  fixes observed :: "'s \<Rightarrow> instant"
  assumes cmp_time: "cmp x y \<le> 0 \<Longrightarrow> observed x \<le> observed y"
    and cmp_equal: "cmp x y = 0 \<Longrightarrow> x = y"
begin

lemma set_retainNewest: "set (retainNewest xs limit) \<subseteq> set xs"
  by (auto simp: retainNewest_def dest: in_set_dropD)

lemma insert_series_ok:
  assumes "0 < limit" and "good x" and "\<And>y. y \<in> set old \<Longrightarrow> good y"
  shows "series_ok cmp good limit (retainNewest (sort_by cmp (old @ [x])) limit)"
proof -
  define ys where "ys = sort_by cmp (old @ [x])"
  have ys: "length ys = Suc (length old)" "set ys = insert x (set old)" "sorted_wrt (\<lambda>x y. cmp x y \<le> 0) ys"
    by (simp_all add: ys_def sorted_sort_by)
  have "retainNewest ys limit \<noteq> []" "int (length (retainNewest ys limit)) \<le> limit"
    using assms(1) ys(1) by (auto simp: retainNewest_def)
  moreover have "sorted_wrt (\<lambda>x y. cmp x y \<le> 0) (retainNewest ys limit)"
    using ys(3) by (simp add: retainNewest_def sorted_wrt_drop)
  moreover have "\<forall>y \<in> set (retainNewest ys limit). good y"
    using set_retainNewest [of ys limit] ys(2) assms(2,3) by auto
  ultimately show ?thesis by (simp add: series_ok_def ys_def)
qed

text \<open>The newest samples survive: what is dropped is not newer than anything that is kept.\<close>

lemma retainNewest_newest:
  assumes "sorted_wrt (\<lambda>x y. cmp x y \<le> 0) ys" and "xs = retainNewest ys limit"
  shows "\<exists>dropped. ys = dropped @ xs \<and> (\<forall>d \<in> set dropped. \<forall>x \<in> set xs. observed d \<le> observed x)"
proof -
  define n where "n = (if int (length ys) \<le> limit then 0 else nat (int (length ys) - limit))"
  have xs: "xs = drop n ys" using assms(2) by (simp add: retainNewest_def n_def)
  have "sorted_wrt (\<lambda>x y. cmp x y \<le> 0) (take n ys @ drop n ys)" using assms(1) by simp
  then have "\<forall>d \<in> set (take n ys). \<forall>x \<in> set xs. observed d \<le> observed x"
    unfolding sorted_wrt_append xs using cmp_time by blast
  moreover have "ys = take n ys @ xs" by (simp add: xs)
  ultimately show ?thesis by blast
qed

lemma keep_filter_ok:
  assumes "table_ok cmp good key_ok limit al"
  shows "table_ok cmp good key_ok limit (keep_series (filter P) al)"
proof -
  have "series_ok cmp good limit (filter P xs)" if "filter P xs \<noteq> []" "series_ok cmp good limit xs" for xs
  proof -
    have "int (length (filter P xs)) \<le> int (length xs)" by (simp only: of_nat_le_iff length_filter_le)
    then have "int (length (filter P xs)) \<le> limit" using that(2) unfolding series_ok_def by linarith
    then show ?thesis using that by (auto simp: series_ok_def sorted_wrt_filter)
  qed
  then have "\<forall>e \<in> set (keep_series (filter P) al). key_ok (fst e) \<and> series_ok cmp good limit (snd e)"
    using assms by (auto simp: keep_series_def table_ok_def)
  moreover have "distinct (map fst (keep_series (filter P) al))"
    using assms by (simp add: keep_series_def table_ok_def filter_map comp_def distinct_map_filter)
  ultimately show ?thesis by (simp add: table_ok_def)
qed

lemma update_ok:
  assumes "table_ok cmp good key_ok limit al" and "0 < limit" and "good x" and "key_ok key"
  shows "table_ok cmp good key_ok limit
    (AList.update key (retainNewest (sort_by cmp (series_of al key @ [x])) limit) al)"
proof -
  have "good y" if "y \<in> set (series_of al key)" for y
    using assms(1) that
    by (auto simp: series_of_def table_ok_def series_ok_def split: option.splits dest!: map_of_SomeD)
  then have "series_ok cmp good limit (retainNewest (sort_by cmp (series_of al key @ [x])) limit)"
    using assms(2,3) by (intro insert_series_ok)
  then show ?thesis
    using assms(1,4) by (auto simp: table_ok_def set_update_distinct distinct_update)
qed

end

lemma table_ok_mono:
  "table_ok cmp good key_ok limit al \<Longrightarrow> (\<And>x. good x \<Longrightarrow> good' x) \<Longrightarrow> table_ok cmp good' key_ok limit al"
  by (auto simp: table_ok_def series_ok_def)

lemma length_keep_series: "length (keep_series f al) \<le> length al"
  by (simp add: keep_series_def le_trans [OF length_filter_le])

lemma length_update_series:
  "length (AList.update key v al) = (if map_of al key = None then Suc (length al) else length al)"
  by (induction al) auto

interpretation link_series: sample_series compareLinkSamples ls_observedAt
proof -
  have c: "comparison compareLinkSamples"
    unfolding compareLinkSamples_def compareUint64_go
    by (intro comparison_intros)
  have t: "ls_observedAt x \<le> ls_observedAt y" if "compareLinkSamples x y \<le> 0" for x y
    using that by (auto simp: compareLinkSamples_def go_compare_def split: if_splits)
  have e: "x = y" if "compareLinkSamples x y = 0" for x y
    using that by (cases x; cases y) (auto simp: compareLinkSamples_def compareUint64_go go_compare_def split: if_splits)
  show "sample_series compareLinkSamples ls_observedAt"
    by (intro sample_series.intro c sample_series_axioms.intro) (auto intro: t e)
qed

interpretation compute_series: sample_series compareComputeSamples cs_observedAt
proof -
  have c: "comparison compareComputeSamples"
    unfolding compareComputeSamples_def compareUint64_go
    by (intro comparison_intros)
  have t: "cs_observedAt x \<le> cs_observedAt y" if "compareComputeSamples x y \<le> 0" for x y
    using that by (auto simp: compareComputeSamples_def go_compare_def split: if_splits)
  have e: "x = y" if "compareComputeSamples x y = 0" for x y
    using that by (cases x; cases y) (auto simp: compareComputeSamples_def compareUint64_go go_compare_def split: if_splits)
  show "sample_series compareComputeSamples cs_observedAt"
    by (intro sample_series.intro c sample_series_axioms.intro) (auto intro: t e)
qed

section \<open>The store invariant\<close>

definition label_ok :: "string \<Rightarrow> bool" where
  "label_ok s \<longleftrightarrow> s \<noteq> [] \<and> length s \<le> maxProfileLabelBytes \<and> trim_space s = s"

definition link_key_ok :: "link_key \<Rightarrow> bool" where
  "link_key_ok k \<longleftrightarrow>
     (\<forall>s \<in> {lk_sourceID k, lk_sourceInstanceID k, lk_targetID k, lk_targetInstanceID k, lk_protocol k,
        lk_tensorEncoding k}. label_ok s) \<and> lk_sourceID k \<noteq> lk_targetID k"

definition compute_key_ok :: "compute_key \<Rightarrow> bool" where
  "compute_key_ok k \<longleftrightarrow>
     (\<forall>s \<in> {ck_workerID k, ck_workerInstanceID k, ck_backend k, ck_modelID k, ck_fingerprint k,
        ck_operation k}. label_ok s) \<and>
     0 \<le> ck_layerStart k \<and> ck_layerStart k < ck_layerEnd k \<and> ck_layerEnd k \<le> ck_layerCount k"

definition link_sample_ok :: "instant \<Rightarrow> link_sample \<Rightarrow> bool" where
  "link_sample_ok latest x \<longleftrightarrow>
     ls_observedAt x \<le> latest \<and> ls_rttMicros x \<noteq> 0 \<and> (ls_payloadBytes x = 0 \<longleftrightarrow> ls_elapsedMicros x = 0)"

definition compute_sample_ok :: "instant \<Rightarrow> compute_sample \<Rightarrow> bool" where
  "compute_sample_ok latest x \<longleftrightarrow>
     cs_observedAt x \<le> latest \<and> cs_inputTokenCount x \<noteq> 0 \<and> cs_computeMicros x \<noteq> 0"

text \<open>
  Bounded evidence: positive bounds, a whole number of milliseconds of age, no more series
  than allowed, every series non-empty, bounded, in order and free of malformed samples,
  and no sample newer than the newest acceptance.
\<close>

definition store_inv :: "profile_store \<Rightarrow> bool" where
  "store_inv store \<longleftrightarrow>
     millisecond \<le> pf_maxAge store \<and> pf_maxAge store \<le> max_duration \<and>
     pf_maxAge store mod millisecond = 0 \<and>
     0 < pf_maxSamplesPerSeries store \<and> 0 < pf_maxSeries store \<and>
     seriesCountLocked store \<le> pf_maxSeries store \<and>
     table_ok compareLinkSamples (link_sample_ok (pf_latestAcceptedAt store)) link_key_ok
       (pf_maxSamplesPerSeries store) (pf_links store) \<and>
     table_ok compareComputeSamples (compute_sample_ok (pf_latestAcceptedAt store)) compute_key_ok
       (pf_maxSamplesPerSeries store) (pf_compute store)"

lemma fst_currentLink: "(\<lambda>xs. fst (currentLinkObservations xs cutoff at)) = filter (\<lambda>x. cutoff \<le> ls_observedAt x)"
  by (auto simp: fun_eq_iff currentLinkObservations_def Let_def not_less intro: filter_cong)

lemma fst_currentCompute: "(\<lambda>xs. fst (currentComputeObservations xs cutoff at)) = filter (\<lambda>x. cutoff \<le> cs_observedAt x)"
  by (auto simp: fun_eq_iff currentComputeObservations_def Let_def not_less intro: filter_cong)

lemma prune_eq:
  "pruneExpiredLocked at store = store
     \<lparr>pf_links := keep_series (filter (\<lambda>x. at - pf_maxAge store \<le> ls_observedAt x)) (pf_links store),
      pf_compute := keep_series (filter (\<lambda>x. at - pf_maxAge store \<le> cs_observedAt x)) (pf_compute store)\<rparr>"
  by (simp add: pruneExpiredLocked_def Let_def fst_currentLink fst_currentCompute)

lemma prune_inv:
  assumes "store_inv store"
  shows "store_inv (pruneExpiredLocked at store)"
proof -
  have "seriesCountLocked (pruneExpiredLocked at store) \<le> seriesCountLocked store"
    by (simp add: seriesCountLocked_def prune_eq length_keep_series add_mono)
  then show ?thesis
    using assms link_series.keep_filter_ok compute_series.keep_filter_ok
    by (auto simp: store_inv_def prune_eq)
qed

lemma prune_fields [simp]:
  "pf_maxAge (pruneExpiredLocked at store) = pf_maxAge store"
  "pf_maxSamplesPerSeries (pruneExpiredLocked at store) = pf_maxSamplesPerSeries store"
  "pf_maxSeries (pruneExpiredLocked at store) = pf_maxSeries store"
  "pf_revision (pruneExpiredLocked at store) = pf_revision store"
  "pf_latestAcceptedAt (pruneExpiredLocked at store) = pf_latestAcceptedAt store"
  by (simp_all add: prune_eq)

lemma label_normal: "normalizeProfileLabel name s = Inr t \<Longrightarrow> label_ok t"
  using length_trim_space [of s]
  by (auto simp: normalizeProfileLabel_def label_ok_def trim_space_idem split: if_splits)

lemma normal_link:
  assumes "normalizeLinkObservation x = Inr (y, key)"
  shows "link_key_ok key \<and> lo_rttMicros y \<noteq> 0 \<and> (lo_payloadBytes y = 0 \<longleftrightarrow> lo_elapsedMicros y = 0)"
  using assms
  by (auto simp: normalizeLinkObservation_def and_then_Inr link_key_ok_def split: if_splits dest: label_normal)

lemma normal_compute:
  assumes "normalizeComputeObservation x = Inr (y, key)"
  shows "compute_key_ok key \<and> co_inputTokenCount y \<noteq> 0 \<and> co_computeMicros y \<noteq> 0"
  using assms
  by (auto simp: normalizeComputeObservation_def and_then_Inr compute_key_ok_def split: if_splits dest: label_normal)

lemma validated_time:
  assumes "validateObservationTimeLocked store at observedAt = Inr referenceAt"
  shows "at \<noteq> 0 \<and> observedAt \<le> at \<and> referenceAt = max at (pf_latestAcceptedAt store) \<and>
    referenceAt - pf_maxAge store \<le> observedAt"
  using assms by (auto simp: validateObservationTimeLocked_def Let_def split: if_splits)

text \<open>Accepting a time only moves the bound on the samples up.\<close>

lemma accept_eq:
  "acceptTimeLocked at store = store\<lparr>pf_latestAcceptedAt := max at (pf_latestAcceptedAt store)\<rparr>"
  by (simp add: acceptTimeLocked_def max_def)

lemma link_sample_mono: "link_sample_ok t x \<Longrightarrow> t \<le> u \<Longrightarrow> link_sample_ok u x"
  by (auto simp: link_sample_ok_def)

lemma compute_sample_mono: "compute_sample_ok t x \<Longrightarrow> t \<le> u \<Longrightarrow> compute_sample_ok u x"
  by (auto simp: compute_sample_ok_def)

lemma accept_inv:
  assumes "store_inv store"
  shows "store_inv (acceptTimeLocked at store)"
proof -
  let ?t = "max at (pf_latestAcceptedAt store)"
  have "link_sample_ok ?t x" if "link_sample_ok (pf_latestAcceptedAt store) x" for x
    using link_sample_mono [OF that] by simp
  moreover have "compute_sample_ok ?t x" if "compute_sample_ok (pf_latestAcceptedAt store) x" for x
    using compute_sample_mono [OF that] by simp
  ultimately show ?thesis
    using assms by (auto simp: store_inv_def accept_eq seriesCountLocked_def intro: table_ok_mono)
qed

text \<open>
  Adding one sample keeps the invariant when its key has a series already or there is room
  for one more.
\<close>

lemma addLink_inv:
  assumes "store_inv store" and "link_key_ok key" and "link_sample_ok (pf_latestAcceptedAt store) x"
    and "map_of (pf_links store) key = None \<Longrightarrow> seriesCountLocked store < pf_maxSeries store"
  shows "store_inv (addLinkSample key x store)"
proof -
  have "table_ok compareLinkSamples (link_sample_ok (pf_latestAcceptedAt store)) link_key_ok
      (pf_maxSamplesPerSeries store) (pf_links (addLinkSample key x store))"
    using assms(1-3) by (simp add: addLinkSample_def sortLinkObservations_def link_series.update_ok store_inv_def)
  moreover have "seriesCountLocked (addLinkSample key x store) \<le> pf_maxSeries store"
    using assms(1,4) by (auto simp: addLinkSample_def seriesCountLocked_def length_update_series store_inv_def)
  ultimately show ?thesis using assms(1) by (simp add: store_inv_def addLinkSample_def)
qed

lemma addCompute_inv:
  assumes "store_inv store" and "compute_key_ok key" and "compute_sample_ok (pf_latestAcceptedAt store) x"
    and "map_of (pf_compute store) key = None \<Longrightarrow> seriesCountLocked store < pf_maxSeries store"
  shows "store_inv (addComputeSample key x store)"
proof -
  have "table_ok compareComputeSamples (compute_sample_ok (pf_latestAcceptedAt store)) compute_key_ok
      (pf_maxSamplesPerSeries store) (pf_compute (addComputeSample key x store))"
    using assms(1-3) by (simp add: addComputeSample_def sortComputeObservations_def compute_series.update_ok store_inv_def)
  moreover have "seriesCountLocked (addComputeSample key x store) \<le> pf_maxSeries store"
    using assms(1,4) by (auto simp: addComputeSample_def seriesCountLocked_def length_update_series store_inv_def)
  ultimately show ?thesis using assms(1) by (simp add: store_inv_def addComputeSample_def)
qed

lemma store_inv_revision [simp]: "store_inv (store\<lparr>pf_revision := n\<rparr>) = store_inv store"
  by (simp add: store_inv_def seriesCountLocked_def)

lemma accept_addLink:
  "acceptTimeLocked at ((addLinkSample key x store)\<lparr>pf_revision := n\<rparr>) =
     (addLinkSample key x (acceptTimeLocked at store))\<lparr>pf_revision := n\<rparr>"
  by (simp add: accept_eq addLinkSample_def)

lemma accept_addCompute:
  "acceptTimeLocked at (addComputeSample key x store) = addComputeSample key x (acceptTimeLocked at store)"
  by (simp add: accept_eq addComputeSample_def)

lemma accept_fields [simp]:
  "pf_maxAge (acceptTimeLocked at store) = pf_maxAge store"
  "pf_maxSamplesPerSeries (acceptTimeLocked at store) = pf_maxSamplesPerSeries store"
  "pf_maxSeries (acceptTimeLocked at store) = pf_maxSeries store"
  "pf_revision (acceptTimeLocked at store) = pf_revision store"
  "pf_latestAcceptedAt (acceptTimeLocked at store) = max at (pf_latestAcceptedAt store)"
  "pf_links (acceptTimeLocked at store) = pf_links store"
  "pf_compute (acceptTimeLocked at store) = pf_compute store"
  "seriesCountLocked (acceptTimeLocked at store) = seriesCountLocked store"
  by (simp_all add: accept_eq seriesCountLocked_def)

text \<open>What an accepted link observation does, in one equation.\<close>

lemma observeLink_accepted:
  assumes "snd (observeLink at observation store) = Inr ()"
  obtains x key where
    "normalizeLinkObservation observation = Inr (x, key)"
    "validateObservationTimeLocked store at (lo_observedAt x) = Inr (max at (pf_latestAcceptedAt store))"
    "map_of (pf_links (pruneExpiredLocked (max at (pf_latestAcceptedAt store)) store)) key = None \<Longrightarrow>
       seriesCountLocked (pruneExpiredLocked (max at (pf_latestAcceptedAt store)) store) < pf_maxSeries store"
    "pf_revision store \<noteq> - 1"
    "fst (observeLink at observation store) =
       (addLinkSample key
         \<lparr>ls_observedAt = lo_observedAt x, ls_rttMicros = lo_rttMicros x,
          ls_payloadBytes = lo_payloadBytes x, ls_elapsedMicros = lo_elapsedMicros x\<rparr>
         (acceptTimeLocked at (pruneExpiredLocked (max at (pf_latestAcceptedAt store)) store)))
         \<lparr>pf_revision := pf_revision store + 1\<rparr>"
proof -
  obtain x key where n: "normalizeLinkObservation observation = Inr (x, key)"
    using assms by (auto simp: observeLink_def split: sum.splits)
  obtain t where v: "validateObservationTimeLocked store at (lo_observedAt x) = Inr t"
    using assms n by (auto simp: observeLink_def split: sum.splits)
  have t: "t = max at (pf_latestAcceptedAt store)" using validated_time [OF v] by simp
  have rev: "pf_revision (addLinkSample k y s) = pf_revision s" for k y s by (simp add: addLinkSample_def)
  show ?thesis
    using assms n v unfolding t
    by (intro that [OF n]) (auto simp: observeLink_def Let_def accept_addLink rev split: if_splits)
qed

lemma observeLink_rejected:
  assumes "snd (observeLink at observation store) = Inl e"
  shows "fst (observeLink at observation store) = store \<or>
    fst (observeLink at observation store) = pruneExpiredLocked (max at (pf_latestAcceptedAt store)) store"
  using assms by (auto simp: observeLink_def Let_def dest: validated_time split: sum.splits if_splits)

lemma observeLink_inv:
  assumes "store_inv store"
  shows "store_inv (fst (observeLink at observation store))"
proof (cases "snd (observeLink at observation store)")
  case (Inl e)
  then show ?thesis using observeLink_rejected [OF Inl] assms prune_inv by auto
next
  case (Inr u)
  let ?pruned = "pruneExpiredLocked (max at (pf_latestAcceptedAt store)) store"
  have "snd (observeLink at observation store) = Inr ()" using Inr by (cases u) simp
  then show ?thesis
  proof (rule observeLink_accepted)
    fix x key
    assume n: "normalizeLinkObservation observation = Inr (x, key)"
      and v: "validateObservationTimeLocked store at (lo_observedAt x) = Inr (max at (pf_latestAcceptedAt store))"
      and room: "map_of (pf_links ?pruned) key = None \<Longrightarrow> seriesCountLocked ?pruned < pf_maxSeries store"
      and eq: "fst (observeLink at observation store) =
       (addLinkSample key
         \<lparr>ls_observedAt = lo_observedAt x, ls_rttMicros = lo_rttMicros x,
          ls_payloadBytes = lo_payloadBytes x, ls_elapsedMicros = lo_elapsedMicros x\<rparr>
         (acceptTimeLocked at ?pruned))\<lparr>pf_revision := pf_revision store + 1\<rparr>"
    have "store_inv (acceptTimeLocked at ?pruned)" by (intro accept_inv prune_inv assms)
    then show ?thesis
      unfolding eq store_inv_revision
      using normal_link [OF n] validated_time [OF v] room
      by (intro addLink_inv) (auto simp: link_sample_ok_def)
  qed
qed

lemma length_remdups: "length (remdups xs) = card (set xs)"
  by (simp add: length_remdups_card_conv)

abbreviation new_keys :: "profile_store \<Rightarrow> compute_key list \<Rightarrow> compute_key set" where
  "new_keys store keys \<equiv> {k \<in> set keys. map_of (pf_compute store) k = None}"

lemma fold_add_inv:
  assumes "store_inv store"
    and "\<And>x key. (x, key) \<in> set ps \<Longrightarrow> compute_key_ok key \<and> co_inputTokenCount x \<noteq> 0 \<and>
      co_computeMicros x \<noteq> 0 \<and> co_observedAt x \<le> pf_latestAcceptedAt store"
    and "seriesCountLocked store + int (card (new_keys store (map snd ps))) \<le> pf_maxSeries store"
  shows "store_inv (fold addObservation ps store)"
  using assms
proof (induction ps arbitrary: store)
  case Nil
  then show ?case by simp
next
  case (Cons p ps)
  obtain x key where p: "p = (x, key)" by (cases p)
  define added where "added = addObservation (x, key) store"
  have keys: "map_of (pf_compute added) k = None \<longleftrightarrow> k \<noteq> key \<and> map_of (pf_compute store) k = None" for k
    by (simp add: added_def addObservation_def addComputeSample_def update_conv')
  have count: "seriesCountLocked added =
      seriesCountLocked store + (if map_of (pf_compute store) key = None then 1 else 0)"
    by (simp add: added_def addObservation_def addComputeSample_def seriesCountLocked_def length_update_series)
  have latest: "pf_latestAcceptedAt added = pf_latestAcceptedAt store" "pf_maxSeries added = pf_maxSeries store"
    by (simp_all add: added_def addObservation_def addComputeSample_def)
  have room: "seriesCountLocked added + int (card (new_keys added (map snd ps))) \<le> pf_maxSeries added"
  proof (cases "map_of (pf_compute store) key = None")
    case True
    then have "new_keys store (map snd (p # ps)) = insert key (new_keys added (map snd ps))"
      using p keys by auto
    moreover have "key \<notin> new_keys added (map snd ps)" using keys by simp
    ultimately have "card (new_keys store (map snd (p # ps))) = Suc (card (new_keys added (map snd ps)))"
      by simp
    then show ?thesis using Cons.prems(3) count True latest by simp
  next
    case False
    then have "new_keys store (map snd (p # ps)) = new_keys added (map snd ps)"
    proof (intro set_eqI)
      fix k
      show "k \<in> new_keys store (map snd (p # ps)) \<longleftrightarrow> k \<in> new_keys added (map snd ps)"
        using False p keys [of k] by (cases "k = key") auto
    qed
    then show ?thesis using Cons.prems(3) count False latest by simp
  qed
  have "seriesCountLocked store < pf_maxSeries store" if "map_of (pf_compute store) key = None"
    using room count latest that by simp
  then have "store_inv added"
    unfolding added_def addObservation_def fst_conv snd_conv
    using Cons.prems(1) Cons.prems(2) [of x key] p
    by (intro addCompute_inv) (auto simp: compute_sample_ok_def)
  then have "store_inv (fold addObservation ps added)"
    using Cons.prems(2) room latest by (intro Cons.IH) auto
  then show ?case by (simp add: p added_def)
qed

lemma accept_fold:
  "acceptTimeLocked at ((fold addObservation ps store)\<lparr>pf_revision := n\<rparr>) =
     (fold addObservation ps (acceptTimeLocked at store))\<lparr>pf_revision := n\<rparr>"
proof (induction ps arbitrary: store)
  case Nil
  then show ?case by (simp add: accept_eq)
next
  case (Cons p ps)
  then show ?case by (simp add: addObservation_def accept_addCompute)
qed

lemma fold_add_revision [simp]: "pf_revision (fold addObservation ps store) = pf_revision store"
  by (induction ps arbitrary: store) (simp_all add: addObservation_def addComputeSample_def)

lemma fold_add_latest [simp]: "pf_latestAcceptedAt (fold addObservation ps store) = pf_latestAcceptedAt store"
  by (induction ps arbitrary: store) (simp_all add: addObservation_def addComputeSample_def)

lemma batch_times:
  assumes "validateBatchTimes store at index referenceAt xs = Inr t"
  shows "(\<forall>x \<in> set xs. validateObservationTimeLocked store at (co_observedAt x) =
      Inr (max at (pf_latestAcceptedAt store))) \<and>
    (xs \<noteq> [] \<longrightarrow> t = max at (pf_latestAcceptedAt store))"
  using assms
proof (induction store at index referenceAt xs rule: validateBatchTimes.induct)
  case (1 store at index referenceAt)
  then show ?case by simp
next
  case (2 store at index referenceAt x rest)
  obtain v where v: "validateObservationTimeLocked store at (co_observedAt x) = Inr v"
    using 2(2) by (auto split: sum.splits)
  have "v = max at (pf_latestAcceptedAt store)" using validated_time [OF v] by simp
  with 2(1) [OF v] 2(2) v show ?case by (cases rest) auto
qed

lemma normalized_batch:
  assumes "collect (\<lambda>(index, x). map_error (ObservationFailed index) (normalizeComputeObservation x))
      (indexed observations) = Inr normalized"
  shows "length normalized = length observations \<and>
    (\<forall>p \<in> set normalized. \<exists>x \<in> set observations. normalizeComputeObservation x = Inr p)"
proof -
  have l: "list_all2 (\<lambda>e p. normalizeComputeObservation (snd e) = Inr p) (indexed observations) normalized"
    using assms unfolding collect_Inr by (auto elim!: list_all2_mono)
  then have len: "length normalized = length observations" by (auto dest: list_all2_lengthD)
  have "\<exists>x \<in> set observations. normalizeComputeObservation x = Inr p" if "p \<in> set normalized" for p
  proof -
    obtain i where i: "i < length normalized" "p = normalized ! i" using \<open>p \<in> set normalized\<close> by (auto simp: in_set_conv_nth)
    then have "normalizeComputeObservation (observations ! i) = Inr p"
      using list_all2_nthD2 [OF l i(1)] len by simp
    then show ?thesis using i(1) len by (metis nth_mem)
  qed
  then show ?thesis using len by blast
qed

text \<open>A batch either changes nothing, or reaches the common step after normalisation.\<close>

lemma observeComputeBatch_run:
  obtains (early) e where "observeComputeBatch at observations store = (store, Inl e)"
  | (run) normalized where
    "normalized \<noteq> []"
    "\<And>p. p \<in> set normalized \<Longrightarrow> \<exists>x \<in> set observations. normalizeComputeObservation x = Inr p"
    "\<And>p. p \<in> set normalized \<Longrightarrow> validateObservationTimeLocked store at (co_observedAt (fst p)) =
       Inr (max at (pf_latestAcceptedAt store))"
    "observeComputeBatch at observations store =
      (let pruned = pruneExpiredLocked (max at (pf_latestAcceptedAt store)) store in
       if pf_maxSeries store < seriesCountLocked pruned + int (card (new_keys pruned (map snd normalized)))
       then (pruned, Inl SeriesLimitReached)
       else if pf_revision store = - 1 then (pruned, Inl RevisionExhausted)
       else ((fold addObservation normalized (acceptTimeLocked at pruned))
         \<lparr>pf_revision := pf_revision store + 1\<rparr>, Inr ()))"
proof (cases "observations = []")
  case True
  then show ?thesis by (intro early) (simp add: observeComputeBatch_def)
next
  case ne: False
  show ?thesis
  proof (cases "collect (\<lambda>(index, x). map_error (ObservationFailed index) (normalizeComputeObservation x))
      (indexed observations)")
    case (Inl e)
    then show ?thesis using ne by (intro early) (simp add: observeComputeBatch_def)
  next
    case n: (Inr normalized)
    have nn: "normalized \<noteq> []" using normalized_batch [OF n] ne by auto
    have card: "length (remdups (filter P (map snd normalized))) = card {k \<in> set (map snd normalized). P k}" for P
      by (simp only: length_remdups set_filter)
    show ?thesis
    proof (cases "validateBatchTimes store at 0 at (map fst normalized)")
      case (Inl e)
      then show ?thesis using ne n by (intro early) (simp add: observeComputeBatch_def)
    next
      case v: (Inr t)
      have t: "t = max at (pf_latestAcceptedAt store)" using batch_times [OF v] nn by simp
      show ?thesis
      proof (rule run [OF nn])
        show "\<exists>x \<in> set observations. normalizeComputeObservation x = Inr p" if "p \<in> set normalized" for p
          using normalized_batch [OF n] that by blast
        show "validateObservationTimeLocked store at (co_observedAt (fst p)) = Inr (max at (pf_latestAcceptedAt store))"
          if "p \<in> set normalized" for p
          using batch_times [OF v] that by auto
      qed (use ne n v t in \<open>simp add: observeComputeBatch_def Let_def card accept_fold del: set_map\<close>)
    qed
  qed
qed

lemma observeComputeBatch_rejected:
  assumes "snd (observeComputeBatch at observations store) = Inl e"
  shows "fst (observeComputeBatch at observations store) \<in>
    {store, pruneExpiredLocked (max at (pf_latestAcceptedAt store)) store}"
proof (cases rule: observeComputeBatch_run [of at observations store])
  case (early e)
  then show ?thesis by simp
next
  case (run normalized)
  then show ?thesis using assms by (simp add: Let_def split: if_splits)
qed

lemma observeComputeBatch_inv:
  assumes "store_inv store"
  shows "store_inv (fst (observeComputeBatch at observations store))"
proof (cases rule: observeComputeBatch_run [of at observations store])
  case (early e)
  then show ?thesis using assms by simp
next
  case (run normalized)
  let ?pruned = "pruneExpiredLocked (max at (pf_latestAcceptedAt store)) store"
  have ok: "compute_key_ok key \<and> co_inputTokenCount x \<noteq> 0 \<and> co_computeMicros x \<noteq> 0 \<and>
      co_observedAt x \<le> max at (pf_latestAcceptedAt store)" if p: "(x, key) \<in> set normalized" for x key
  proof -
    obtain y where "normalizeComputeObservation y = Inr (x, key)" using run(2) [OF p] by blast
    from normal_compute [OF this] validated_time [OF run(3) [OF p]] show ?thesis by auto
  qed
  have inv: "store_inv (acceptTimeLocked at ?pruned)" by (intro accept_inv prune_inv assms)
  have "store_inv (fold addObservation normalized (acceptTimeLocked at ?pruned))"
    if "seriesCountLocked ?pruned + int (card (new_keys ?pruned (map snd normalized))) \<le> pf_maxSeries store"
    using that ok by (intro fold_add_inv inv) auto
  then show ?thesis using run(4) prune_inv [OF assms] by (simp add: Let_def not_less)
qed

lemma observePlannedSample_cases:
  "(\<exists>e. observePlannedSample dg at inventory plan sample store = (store, Inl e)) \<or>
   (\<exists>observations. observePlannedSample dg at inventory plan sample store =
      observeComputeBatch at observations store)"
  by (auto simp: observePlannedSample_def split: sum.splits)

lemma observePlannedSample_inv:
  "store_inv store \<Longrightarrow> store_inv (fst (observePlannedSample dg at inventory plan sample store))"
  using observePlannedSample_cases [of dg at inventory plan sample store] observeComputeBatch_inv by force

lemma snapshot_store:
  "fst (profileSnapshot at store) = store \<or> fst (profileSnapshot at store) = pruneExpiredLocked at store"
  by (auto simp: profileSnapshot_def pruneExpiredLocked_def Let_def)

lemma profileSnapshot_inv: "store_inv store \<Longrightarrow> store_inv (fst (profileSnapshot at store))"
  using snapshot_store [of at store] prune_inv by auto

lemma new_store_inv:
  assumes "newProfileStore config = Inr store" and "pc_maxAge config \<le> max_duration"
  shows "store_inv store"
  using assms
  by (auto simp: newProfileStore_def Let_def store_inv_def seriesCountLocked_def table_ok_def
      defaultProfileMaxAge_def defaultProfileMaxSamplesPerSeries_def defaultProfileMaxSeries_def
      duration_defs go_mod_nonneg split: if_splits)

section \<open>Runs of the store\<close>

datatype profile_op =
    LinkOp instant link_observation
  | ComputeOp instant compute_observation
  | SampleOp instant inventory execution_plan planned_stage_sample
  | EvidenceOp instant

fun applyProfileOp :: "digests \<Rightarrow> profile_op \<Rightarrow> profile_store \<Rightarrow> profile_store" where
  "applyProfileOp dg (LinkOp at x) store = fst (observeLink at x store)"
| "applyProfileOp dg (ComputeOp at x) store = fst (observeCompute at x store)"
| "applyProfileOp dg (SampleOp at inventory plan sample) store =
     fst (observePlannedSample dg at inventory plan sample store)"
| "applyProfileOp dg (EvidenceOp at) store = fst (profileSnapshot at store)"

inductive store_reachable :: "digests \<Rightarrow> profile_store \<Rightarrow> bool" for dg :: digests where
  new_store: "newProfileStore config = Inr store \<Longrightarrow> pc_maxAge config \<le> max_duration \<Longrightarrow> store_reachable dg store"
| store_step: "store_reachable dg store \<Longrightarrow> store_reachable dg (applyProfileOp dg op store)"

inductive_cases store_reachable_cases: "store_reachable dg store"

lemma applyProfileOp_inv: "store_inv store \<Longrightarrow> store_inv (applyProfileOp dg op store)"
  by (cases op) (simp_all add: observeLink_inv observeCompute_def observeComputeBatch_inv
      observePlannedSample_inv profileSnapshot_inv)

lemma store_reachable_inv: "store_reachable dg store \<Longrightarrow> store_inv store"
  by (induction rule: store_reachable.induct) (auto intro: new_store_inv applyProfileOp_inv)

lemma observeComputeBatch_outcome:
  "case observeComputeBatch at observations store of
     (s, Inl e) \<Rightarrow> s \<in> {store, pruneExpiredLocked (max at (pf_latestAcceptedAt store)) store}
   | (s, Inr u) \<Rightarrow> pf_revision s = pf_revision store + 1 \<and> pf_latestAcceptedAt s = max at (pf_latestAcceptedAt store)"
proof (cases rule: observeComputeBatch_run [of at observations store])
  case (early e)
  then show ?thesis by simp
next
  case (run normalized)
  then show ?thesis by (simp add: Let_def)
qed

lemma observePlannedSample_outcome:
  "case observePlannedSample dg at inventory plan sample store of
     (s, Inl e) \<Rightarrow> s \<in> {store, pruneExpiredLocked (max at (pf_latestAcceptedAt store)) store}
   | (s, Inr u) \<Rightarrow> pf_revision s = pf_revision store + 1 \<and> pf_latestAcceptedAt s = max at (pf_latestAcceptedAt store)"
  using observePlannedSample_cases [of dg at inventory plan sample store]
proof (elim disjE exE)
  fix e
  assume "observePlannedSample dg at inventory plan sample store = (store, Inl e)"
  then show ?thesis by simp
next
  fix observations
  assume "observePlannedSample dg at inventory plan sample store = observeComputeBatch at observations store"
  then show ?thesis using observeComputeBatch_outcome [where at = at and store = store] by (simp only:)
qed

lemma observeLink_latest:
  "pf_latestAcceptedAt (fst (observeLink at x store)) =
     (if is_ok (snd (observeLink at x store)) then max at (pf_latestAcceptedAt store) else pf_latestAcceptedAt store)"
proof (cases "snd (observeLink at x store)")
  case (Inl e)
  then show ?thesis using observeLink_rejected [OF Inl] by auto
next
  case (Inr u)
  then have "snd (observeLink at x store) = Inr ()" by (cases u) simp
  then show ?thesis by (rule observeLink_accepted) (simp add: addLinkSample_def Inr)
qed

lemma latest_monotone: "pf_latestAcceptedAt store \<le> pf_latestAcceptedAt (applyProfileOp dg op store)"
proof -
  have batch: "pf_latestAcceptedAt store \<le> pf_latestAcceptedAt (fst (observeComputeBatch at xs store))" for at xs
    using observeComputeBatch_outcome [where at = at and store = store and observations = xs] by (auto split: prod.splits sum.splits)
  show ?thesis
  proof (cases op)
    case (SampleOp at inventory plan sample)
    then show ?thesis using observePlannedSample_cases [of dg at inventory plan sample store] batch by force
  next
    case (EvidenceOp at)
    then show ?thesis using snapshot_store [of at store] by auto
  qed (simp_all add: observeLink_latest observeCompute_def batch)
qed

lemma latest_monotone_run:
  "pf_latestAcceptedAt store \<le> pf_latestAcceptedAt (fold (applyProfileOp dg) ops store)"
proof (induction ops arbitrary: store)
  case Nil
  then show ?case by simp
next
  case (Cons op ops)
  show ?case using Cons.IH [of "applyProfileOp dg op store"] latest_monotone [of store dg op] by simp
qed

section \<open>Order statistics\<close>

lemma length_filter_sort: "length (filter P (sort vs)) = length (filter P vs)"
  by (metis mset_filter mset_sort size_mset)

lemma nearest_rank_index:
  assumes "0 < n" and "1 \<le> p" and "p \<le> 100"
  shows "1 \<le> (p * n + 99) div 100 \<and> (p * n + 99) div 100 \<le> n \<and>
    p * n \<le> 100 * ((p * n + 99) div 100) \<and> 100 * ((p * n + 99) div 100 - 1) < (p * n :: nat)"
proof -
  have "p * n \<le> 100 * n" "1 \<le> p * n" using assms by simp_all
  then show ?thesis by linarith
qed

lemma nearestRank_value:
  assumes "vs \<noteq> []" and "1 \<le> p" and "p \<le> 100" and "v = nearestRank (sort vs) p"
  shows "v \<in> set vs" "p * length vs \<le> 100 * length (filter (\<lambda>x. x \<le> v) vs)"
    "100 * length (filter (\<lambda>x. x < v) vs) < p * length vs"
proof -
  define ys n k where "ys = sort vs" and "n = length vs" and "k = (p * n + 99) div 100"
  have n: "0 < n" using assms(1) by (simp add: n_def)
  have k: "1 \<le> k" "k \<le> n" "p * n \<le> 100 * k" "100 * (k - 1) < p * n"
    using nearest_rank_index [OF n assms(2,3)] unfolding k_def by blast+
  have ys: "length ys = n" "sorted ys" by (simp_all add: ys_def n_def)
  have v: "v = ys ! (k - 1)"
    using assms(4) k(1) by (simp add: nearestRank_def Let_def k_def n_def ys_def)
  have lt: "k - 1 < length ys" using k ys by simp
  then show "v \<in> set vs" unfolding v by (metis nth_mem set_sort ys_def)
  have "\<forall>x \<in> set (take k ys). x \<le> v"
    using ys(2) lt unfolding v by (auto simp: in_set_conv_nth sorted_iff_nth_mono)
  then have "filter (\<lambda>x. x \<le> v) (take k ys) = take k ys" by (simp add: filter_id_conv)
  then have "k \<le> length (filter (\<lambda>x. x \<le> v) ys)"
    using k ys by (metis append_take_drop_id filter_append length_append length_take le_add1 min.absorb2)
  then have "k \<le> length (filter (\<lambda>x. x \<le> v) vs)" by (simp only: ys_def length_filter_sort)
  then show "p * length vs \<le> 100 * length (filter (\<lambda>x. x \<le> v) vs)" using k(3) unfolding n_def by linarith
  have "\<forall>x \<in> set (drop (k - 1) ys). \<not> x < v"
    using ys(2) unfolding v by (auto simp: in_set_conv_nth sorted_iff_nth_mono not_less)
  then have "filter (\<lambda>x. x < v) (drop (k - 1) ys) = []" by (simp add: filter_empty_conv)
  then have "filter (\<lambda>x. x < v) ys = filter (\<lambda>x. x < v) (take (k - 1) ys)"
    by (metis append_Nil2 append_take_drop_id filter_append)
  then have "length (filter (\<lambda>x. x < v) ys) \<le> k - 1"
    using length_filter_le [of "\<lambda>x. x < v" "take (k - 1) ys"] by simp
  then have "length (filter (\<lambda>x. x < v) vs) \<le> k - 1" by (simp only: ys_def length_filter_sort)
  then show "100 * length (filter (\<lambda>x. x < v) vs) < p * length vs" using k(4) unfolding n_def by linarith
qed

text \<open>The summary of a series: its extremes and its two nearest-rank percentiles.\<close>

definition is_percentile :: "nat \<Rightarrow> u64 list \<Rightarrow> u64 \<Rightarrow> bool" where
  "is_percentile p vs v \<longleftrightarrow> v \<in> set vs \<and> p * length vs \<le> 100 * length (filter (\<lambda>x. x \<le> v) vs) \<and>
     100 * length (filter (\<lambda>x. x < v) vs) < p * length vs"

lemma sorted_extremes:
  assumes "sorted ys" and "ys \<noteq> []"
  shows "ys ! 0 = Min (set ys) \<and> ys ! (length ys - 1) = Max (set ys)"
proof
  have ends: "ys ! 0 \<in> set ys" "ys ! (length ys - 1) \<in> set ys" using assms(2) by simp_all
  have bounds: "ys ! 0 \<le> y \<and> y \<le> ys ! (length ys - 1)" if "y \<in> set ys" for y
  proof -
    obtain i where "i < length ys" "y = ys ! i" using \<open>y \<in> set ys\<close> by (auto simp: in_set_conv_nth)
    then show ?thesis using assms(1) by (auto intro!: sorted_nth_mono)
  qed
  show "ys ! 0 = Min (set ys)" using ends bounds by (intro Min_eqI [symmetric]) auto
  show "ys ! (length ys - 1) = Max (set ys)" using ends bounds by (intro Max_eqI [symmetric]) auto
qed

lemma summary_extremes:
  assumes "vs \<noteq> []"
  shows "vd_min (summarizeValues vs) = Min (set vs) \<and> vd_max (summarizeValues vs) = Max (set vs)"
proof -
  have "sort vs \<noteq> []" using assms by (metis length_0_conv length_sort)
  from sorted_extremes [OF sorted_sort this] assms show ?thesis
    by (simp add: summarizeValues_def Let_def)
qed

lemma summary_percentiles:
  assumes "vs \<noteq> []"
  shows "is_percentile 50 vs (vd_p50 (summarizeValues vs)) \<and> is_percentile 95 vs (vd_p95 (summarizeValues vs))"
  using nearestRank_value [OF assms, of 50] nearestRank_value [OF assms, of 95] assms
  by (simp add: is_percentile_def summarizeValues_def Let_def)

lemma percentile_mono:
  assumes "is_percentile p vs v" and "is_percentile q vs w" and "p \<le> q"
  shows "v \<le> w"
proof (rule ccontr)
  assume "\<not> v \<le> w"
  then have sub: "filter (\<lambda>x. x \<le> w) vs = filter (\<lambda>x. x \<le> w) (filter (\<lambda>x. x < v) vs)"
    by (auto intro!: filter_cong)
  have "length (filter (\<lambda>x. x \<le> w) vs) \<le> length (filter (\<lambda>x. x < v) vs)"
    by (subst sub) (rule length_filter_le)
  moreover have "100 * length (filter (\<lambda>x. x < v) vs) < p * length vs" "q * length vs \<le> 100 * length (filter (\<lambda>x. x \<le> w) vs)"
    using assms(1,2) by (simp_all add: is_percentile_def)
  moreover have "p * length vs \<le> q * length vs" using assms(3) by simp
  ultimately show False by linarith
qed

lemma summary_ordered:
  assumes "vs \<noteq> []"
  shows "vd_min (summarizeValues vs) \<le> vd_p50 (summarizeValues vs) \<and>
    vd_p50 (summarizeValues vs) \<le> vd_p95 (summarizeValues vs) \<and>
    vd_p95 (summarizeValues vs) \<le> vd_max (summarizeValues vs)"
proof -
  note p = summary_percentiles [OF assms]
  have "vd_p50 (summarizeValues vs) \<in> set vs" "vd_p95 (summarizeValues vs) \<in> set vs"
    using p by (simp_all add: is_percentile_def)
  then show ?thesis
    using summary_extremes [OF assms] percentile_mono [OF conjunct1 [OF p] conjunct2 [OF p]]
    by simp
qed

section \<open>What a snapshot reports\<close>

lemma series_of_entry: "distinct (map fst al) \<Longrightarrow> (k, xs) \<in> set al \<Longrightarrow> series_of al k = xs"
  by (simp add: series_of_def)

lemma fresh_series:
  assumes "distinct (map fst al)" and "f [] = []"
  shows "(\<lambda>e. g (fst e) (snd e)) ` set (filter (\<lambda>e. snd e \<noteq> []) (map (\<lambda>e. (fst e, f (snd e))) al)) =
    {g k xs | k xs. xs = f (series_of al k) \<and> xs \<noteq> []}" (is "?L = ?R")
proof
  show "?L \<subseteq> ?R" using series_of_entry [OF assms(1)] by force
  show "?R \<subseteq> ?L"
  proof
    fix y
    assume "y \<in> ?R"
    then obtain k where k: "y = g k (f (series_of al k))" "f (series_of al k) \<noteq> []" by blast
    then have "series_of al k \<noteq> []" using assms(2) by metis
    then have "(k, series_of al k) \<in> set al"
      by (auto simp: series_of_def split: option.splits dest: map_of_SomeD)
    then show "y \<in> ?L" using k by force
  qed
qed

definition fresh_links :: "instant \<Rightarrow> profile_store \<Rightarrow> link_key \<Rightarrow> link_sample list" where
  "fresh_links at store key =
     filter (\<lambda>x. at - pf_maxAge store \<le> ls_observedAt x \<and> ls_observedAt x \<le> at) (series_of (pf_links store) key)"

definition fresh_compute :: "instant \<Rightarrow> profile_store \<Rightarrow> compute_key \<Rightarrow> compute_sample list" where
  "fresh_compute at store key =
     filter (\<lambda>x. at - pf_maxAge store \<le> cs_observedAt x \<and> cs_observedAt x \<le> at) (series_of (pf_compute store) key)"

lemma snd_currentLink:
  "snd (currentLinkObservations xs cutoff at) = filter (\<lambda>x. cutoff \<le> ls_observedAt x \<and> ls_observedAt x \<le> at) xs"
  by (auto simp: currentLinkObservations_def Let_def not_less intro: filter_cong)

lemma snd_currentCompute:
  "snd (currentComputeObservations xs cutoff at) = filter (\<lambda>x. cutoff \<le> cs_observedAt x \<and> cs_observedAt x \<le> at) xs"
  by (auto simp: currentComputeObservations_def Let_def not_less intro: filter_cong)

lemma latest_bounds:
  assumes "\<And>x. x \<in> set xs \<Longrightarrow> a \<le> f x \<and> f x \<le> b" and "a \<le> t" and "t \<le> b"
  shows "a \<le> foldl (\<lambda>latest x. if latest < f x then f x else latest) t xs \<and>
    foldl (\<lambda>latest x. if latest < f x then f x else latest) t xs \<le> (b :: int)"
  using assms
proof (induction xs arbitrary: t)
  case Nil
  then show ?case by simp
next
  case (Cons x xs)
  have "a \<le> f x \<and> f x \<le> b" using Cons.prems(1) [of x] by simp
  then have "a \<le> (if t < f x then f x else t)" "(if t < f x then f x else t) \<le> b"
    using Cons.prems(2,3) by auto
  moreover have "a \<le> f y \<and> f y \<le> b" if "y \<in> set xs" for y using Cons.prems(1) [of y] that by simp
  ultimately show ?case using Cons.IH [of "if t < f x then f x else t"] by simp
qed

lemma snapshot_links:
  assumes "store_inv store" and "profileSnapshot at store = (store', Inr s)"
  shows "set (ps_links s) = {summarizeLink k xs | k xs. xs = fresh_links at store k \<and> xs \<noteq> []}"
proof -
  have "distinct (map fst (pf_links store))" using assms(1) by (simp add: store_inv_def table_ok_def)
  from fresh_series [OF this, of "filter (\<lambda>x. at - pf_maxAge store \<le> ls_observedAt x \<and> ls_observedAt x \<le> at)" summarizeLink]
  show ?thesis
    using assms(2)
    by (auto simp: profileSnapshot_def Let_def snd_currentLink fresh_links_def split: if_splits)
qed

lemma snapshot_compute:
  assumes "store_inv store" and "profileSnapshot at store = (store', Inr s)"
  shows "set (ps_compute s) = {summarizeCompute k xs | k xs. xs = fresh_compute at store k \<and> xs \<noteq> []}"
proof -
  have "distinct (map fst (pf_compute store))" using assms(1) by (simp add: store_inv_def table_ok_def)
  from fresh_series [OF this, of "filter (\<lambda>x. at - pf_maxAge store \<le> cs_observedAt x \<and> cs_observedAt x \<le> at)" summarizeCompute]
  show ?thesis
    using assms(2)
    by (auto simp: profileSnapshot_def Let_def snd_currentCompute fresh_compute_def split: if_splits)
qed

lemma link_latest:
  assumes "xs = fresh_links at store k" and "xs \<noteq> []"
  shows "at - pf_maxAge store \<le> lp_latestObservedAt (summarizeLink k xs) \<and> lp_latestObservedAt (summarizeLink k xs) \<le> at"
proof -
  have b: "at - pf_maxAge store \<le> ls_observedAt x \<and> ls_observedAt x \<le> at" if "x \<in> set xs" for x
    using that assms(1) by (simp add: fresh_links_def)
  have "hd xs \<in> set xs" using assms(2) by simp
  then show ?thesis unfolding summarizeLink_def link_profile.select_convs
    using b by (intro latest_bounds) auto
qed

lemma compute_latest:
  assumes "xs = fresh_compute at store k" and "xs \<noteq> []"
  shows "at - pf_maxAge store \<le> cp_latestObservedAt (summarizeCompute k xs) \<and> cp_latestObservedAt (summarizeCompute k xs) \<le> at"
proof -
  have b: "at - pf_maxAge store \<le> cs_observedAt x \<and> cs_observedAt x \<le> at" if "x \<in> set xs" for x
    using that assms(1) by (simp add: fresh_compute_def)
  have "hd xs \<in> set xs" using assms(2) by simp
  then show ?thesis unfolding summarizeCompute_def compute_profile.select_convs
    using b by (intro latest_bounds) auto
qed

lemma snapshot_fields:
  assumes "profileSnapshot at store = (store', Inr s)"
  shows "ps_schemaVersion s = placementSchemaVersion" "ps_generatedAt s = at" "at \<noteq> 0"
    "pf_latestAcceptedAt store \<le> at" "ps_maxAgeMillis s = milliseconds (pf_maxAge store)"
    "ps_maxSamplesPerSeries s = pf_maxSamplesPerSeries store" "ps_maxSeries s = pf_maxSeries store"
    "ps_revision s = pf_revision store" "store' = pruneExpiredLocked at store"
  using assms by (auto simp: profileSnapshot_def pruneExpiredLocked_def Let_def split: if_splits)

section \<open>A concrete store\<close>

definition demo_link_observation :: "instant \<Rightarrow> u64 \<Rightarrow> link_observation" where
  "demo_link_observation at rtt =
     \<lparr>lo_sourceID = ''c'', lo_sourceInstanceID = ''c-1'', lo_targetID = ''b'', lo_targetInstanceID = ''b-1'',
      lo_protocol = ''http'', lo_tensorEncoding = ''raw'', lo_observedAt = at, lo_rttMicros = rtt,
      lo_payloadBytes = 0, lo_elapsedMicros = 0\<rparr>"

definition demo_link_key :: link_key where
  "demo_link_key = \<lparr>lk_sourceID = ''c'', lk_sourceInstanceID = ''c-1'', lk_targetID = ''b'',
     lk_targetInstanceID = ''b-1'', lk_protocol = ''http'', lk_tensorEncoding = ''raw''\<rparr>"

definition demo_empty_store :: profile_store where
  "demo_empty_store = \<lparr>pf_maxAge = 300000000000, pf_maxSamplesPerSeries = 64, pf_maxSeries = 4096,
     pf_revision = 0, pf_latestAcceptedAt = 0, pf_links = [], pf_compute = []\<rparr>"

definition demo_store :: profile_store where
  "demo_store = fst (observeLink 3000 (demo_link_observation 2000 7) demo_empty_store)"

lemma demo_empty_reachable: "store_reachable dg demo_empty_store"
proof (rule new_store)
  show "newProfileStore \<lparr>pc_maxAge = 0, pc_maxSamplesPerSeries = 0, pc_maxSeries = 0\<rparr> = Inr demo_empty_store"
    by (simp add: newProfileStore_def Let_def demo_empty_store_def defaultProfileMaxAge_def duration_defs
        defaultProfileMaxSamplesPerSeries_def defaultProfileMaxSeries_def go_mod_nonneg)
qed (simp add: duration_defs)

lemma demo_store_reachable: "store_reachable dg demo_store"
  using store_step [OF demo_empty_reachable, of dg "LinkOp 3000 (demo_link_observation 2000 7)"]
  by (simp add: demo_store_def)

lemma demo_normal_link:
  "at \<noteq> 0 \<Longrightarrow> rtt \<noteq> 0 \<Longrightarrow>
   normalizeLinkObservation (demo_link_observation at rtt) = Inr (demo_link_observation at rtt, demo_link_key)"
  by (simp add: normalizeLinkObservation_def demo_link_observation_def demo_link_key_def
      normalizeProfileLabel_def maxProfileLabelBytes_def trim_space_eval visible_eval)

lemma demo_store_observed:
  "observeLink 3000 (demo_link_observation 2000 7) demo_empty_store =
     (demo_empty_store\<lparr>pf_revision := 1, pf_latestAcceptedAt := 3000,
        pf_links := [(demo_link_key, [\<lparr>ls_observedAt = 2000, ls_rttMicros = 7, ls_payloadBytes = 0, ls_elapsedMicros = 0\<rparr>])]\<rparr>,
      Inr ())"
  by (simp add: observeLink_def demo_normal_link validateObservationTimeLocked_def prune_eq keep_series_def
      demo_empty_store_def seriesCountLocked_def addLinkSample_def series_of_def sortLinkObservations_def
      retainNewest_def accept_eq Let_def) (simp add: demo_link_observation_def)

lemma demo_store_eq:
  "demo_store = \<lparr>pf_maxAge = 300000000000, pf_maxSamplesPerSeries = 64, pf_maxSeries = 4096,
     pf_revision = 1, pf_latestAcceptedAt = 3000,
     pf_links = [(demo_link_key, [\<lparr>ls_observedAt = 2000, ls_rttMicros = 7, ls_payloadBytes = 0, ls_elapsedMicros = 0\<rparr>])],
     pf_compute = []\<rparr>"
  unfolding demo_store_def demo_store_observed by (simp add: demo_empty_store_def)

section \<open>Properties\<close>

text \<open>
  C29: the store stays bounded and well formed under every sequence of operations: never
  more series than allowed, never more samples than allowed in one, every series in time
  order and free of malformed observations, no sample newer than the newest acceptance.
\<close>

theorem profile_store_bounded:
  assumes "store_reachable dg store"
  shows "store_inv store"
  using assms by (rule store_reachable_inv)

text \<open>
  C32: a snapshot reports exactly the fresh evidence: one profile for each series that has a
  sample in the closed window that ends at the snapshot time, summarising exactly the
  samples in that window, and dated inside it.
\<close>

theorem snapshot_reports_fresh_evidence:
  assumes "store_reachable dg store" and "profileSnapshot at store = (store', Inr s)"
  shows "set (ps_links s) = {summarizeLink k xs | k xs. xs = fresh_links at store k \<and> xs \<noteq> []} \<and>
    set (ps_compute s) = {summarizeCompute k xs | k xs. xs = fresh_compute at store k \<and> xs \<noteq> []} \<and>
    (\<forall>p \<in> set (ps_links s). at - pf_maxAge store \<le> lp_latestObservedAt p \<and> lp_latestObservedAt p \<le> at) \<and>
    (\<forall>p \<in> set (ps_compute s). at - pf_maxAge store \<le> cp_latestObservedAt p \<and> cp_latestObservedAt p \<le> at)"
proof -
  have inv: "store_inv store" by (rule store_reachable_inv [OF assms(1)])
  show ?thesis
    using snapshot_links [OF inv assms(2)] snapshot_compute [OF inv assms(2)] link_latest compute_latest
    by auto
qed

text \<open>
  freshness cannot be rewound: once a measurement has been accepted at some time, no
  later snapshot of the store, whatever happened in between, is taken at an earlier time.
\<close>

theorem snapshot_never_rewinds:
  assumes "snd (observeLink at x store) = Inr ()" and "t < at" and "t \<noteq> 0"
  shows "snd (profileSnapshot t (fold (applyProfileOp dg) ops (fst (observeLink at x store)))) = Inl SnapshotRewind"
proof -
  have "at \<le> pf_latestAcceptedAt (fst (observeLink at x store))"
    using observeLink_latest [of at x store] assms(1) by simp
  also have "\<dots> \<le> pf_latestAcceptedAt (fold (applyProfileOp dg) ops (fst (observeLink at x store)))"
    by (rule latest_monotone_run)
  finally show ?thesis using assms(2,3) by (simp add: profileSnapshot_def)
qed

text \<open>
  a planned traversal is ingested atomically: when any stage is rejected nothing is
  added (the store is unchanged, or has only dropped expired samples), and otherwise the
  revision advances by one for the whole batch.
\<close>

theorem planned_sample_atomic:
  "case observePlannedSample dg at inventory plan sample store of
     (s, Inl e) \<Rightarrow> s \<in> {store, pruneExpiredLocked (max at (pf_latestAcceptedAt store)) store}
   | (s, Inr u) \<Rightarrow> pf_revision s = pf_revision store + 1 \<and> pf_latestAcceptedAt s = max at (pf_latestAcceptedAt store)"
  by (rule observePlannedSample_outcome)

text \<open>
  the summary of a non-empty series is the textbook one: its length, minimum and
  maximum, and the nearest-rank 50th and 95th percentiles, which are values of the series
  with at least that share of it at or below and less than that share strictly below.
\<close>

theorem summary_is_nearest_rank:
  assumes "vs \<noteq> []"
  shows "vd_count (summarizeValues vs) = int (length vs) \<and>
    vd_min (summarizeValues vs) = Min (set vs) \<and> vd_max (summarizeValues vs) = Max (set vs) \<and>
    is_percentile 50 vs (vd_p50 (summarizeValues vs)) \<and> is_percentile 95 vs (vd_p95 (summarizeValues vs))"
  using summary_extremes [OF assms] summary_percentiles [OF assms] assms
  by (simp add: summarizeValues_def Let_def)

section \<open>The properties at the concrete store\<close>

theorem profile_store_bounded_witness: "store_inv demo_store"
  by (rule profile_store_bounded [OF demo_store_reachable])

theorem snapshot_reports_fresh_evidence_witness:
  "\<exists>store' s. profileSnapshot 3000 demo_store = (store', Inr s) \<and> summarizeLink demo_link_key
     [\<lparr>ls_observedAt = 2000, ls_rttMicros = 7, ls_payloadBytes = 0, ls_elapsedMicros = 0\<rparr>] \<in> set (ps_links s)"
proof -
  have "is_ok (snd (profileSnapshot 3000 demo_store))"
    by (simp add: profileSnapshot_def demo_store_eq Let_def)
  then obtain store' s where s: "profileSnapshot 3000 demo_store = (store', Inr s)"
    by (metis is_ok_iff prod.collapse)
  have "fresh_links 3000 demo_store demo_link_key =
      [\<lparr>ls_observedAt = 2000, ls_rttMicros = 7, ls_payloadBytes = 0, ls_elapsedMicros = 0\<rparr>]"
    by (simp add: fresh_links_def demo_store_eq series_of_def)
  then have "summarizeLink demo_link_key
      [\<lparr>ls_observedAt = 2000, ls_rttMicros = 7, ls_payloadBytes = 0, ls_elapsedMicros = 0\<rparr>] \<in>
      {summarizeLink k xs | k xs. xs = fresh_links 3000 demo_store k \<and> xs \<noteq> []}"
    by (intro CollectI exI [of _ demo_link_key] exI [of _ "fresh_links 3000 demo_store demo_link_key"]) simp
  with conjunct1 [OF snapshot_reports_fresh_evidence [OF demo_store_reachable s]] s show ?thesis
    by blast
qed

theorem snapshot_never_rewinds_witness:
  "snd (profileSnapshot 2999 (fold (applyProfileOp demo_digests) [EvidenceOp 9000] demo_store)) = Inl SnapshotRewind"
  unfolding demo_store_def by (rule snapshot_never_rewinds) (simp_all add: demo_store_observed)

theorem summary_is_nearest_rank_witness:
  "vd_count (summarizeValues [5, 3, 9]) = 3 \<and> vd_min (summarizeValues [5, 3, 9]) = 3 \<and>
   vd_max (summarizeValues [5, 3, 9]) = 9"
  using summary_is_nearest_rank [of "[5, 3, 9]"] by simp

end
