(* ===== verification/Scoring.thy ===== *)
theory Scoring
  imports Prelude Execution_Plan Registry Eligibility Arithmetic Profile
begin

text \<open>
  Scoring of one complete execution plan (\<open>internal/placement/scoring.go\<close>): validation of
  the inventory, the evidence snapshot and the request, eligibility of every stage, compute
  and transfer estimates, their accumulation into a plan score, and the order in which
  scored plans are preferred.
\<close>

section \<open>Requests, scores and evaluations\<close>

record stage_cost_estimate =
  sce_loadMemoryBytes :: u64
  sce_sequenceMemoryBytes :: u64
  sce_prefillWireBytes :: u64
  sce_decodeWireBytesPerStep :: u64
  sce_fallbackPrefillComputeMicros :: u64
  sce_fallbackDecodeComputeMicrosPerStep :: u64

record plan_scoring_request =
  psr_adapter :: string
  psr_transport :: transport_requirement
  psr_coordinatorID :: string
  psr_coordinatorInstanceID :: string
  psr_statusMaxAgeMillis :: int
  psr_prefillInputTokens :: u64
  psr_decodeSteps :: u64
  psr_fallbackRTTMicros :: u64
  psr_fallbackBytesPerSecond :: u64
  psr_stages :: "stage_cost_estimate list"

record stage_compute_score =
  scs_prefillMicros :: u64
  scs_decodeMicros :: u64
  scs_totalMicros :: u64
  scs_prefillProfiled :: bool
  scs_decodeProfiled :: bool
  scs_prefillProfile :: "compute_profile option"
  scs_decodeProfile :: "compute_profile option"

record stage_transfer_score =
  sts_rttMicros :: u64
  sts_bytesPerSecond :: u64
  sts_prefillMicros :: u64
  sts_decodeMicros :: u64
  sts_totalMicros :: u64
  sts_rttProfiled :: bool
  sts_bandwidthProfiled :: bool
  sts_linkProfile :: "link_profile option"

record stage_plan_evaluation =
  spe_index :: int
  spe_stage :: execution_stage
  spe_eligibility :: evaluation
  spe_selectedCandidate :: candidate
  spe_compute :: stage_compute_score
  spe_transfer :: stage_transfer_score

record plan_score =
  sco_stageCount :: int
  sco_estimatedMicros :: u64
  sco_computeMicros :: u64
  sco_transferMicros :: u64
  sco_recentFailureCount :: u64
  sco_restartCount :: u64
  sco_memoryPressureBytes :: u64
  sco_requiredAdditionalMemoryBytes :: u64
  sco_newLoadMemoryBytes :: u64
  sco_reusedStageCount :: int
  sco_profiledComputeOperationCount :: int
  sco_profiledRTTStageCount :: int
  sco_profiledBandwidthStageCount :: int

record plan_evaluation =
  pe_schemaVersion :: int
  pe_inventoryRevision :: u64
  pe_profileRevision :: u64
  pe_profileMaxAgeMillis :: int
  pe_generatedAt :: instant
  pe_plan :: execution_plan
  pe_request :: plan_scoring_request
  pe_eligible :: bool
  pe_stages :: "stage_plan_evaluation list"
  pe_score :: plan_score

datatype scoring_error =
    ScorePlanInvalid plan_error
  | ScorePlanRevision string u64
  | ScoreStageCount nat nat
  | ScoreEstimateInvalid nat scoring_error
  | EstimateIncomplete
  | EstimateMemoryOverflow
  | EstimateDecodeBytesOverflow
  | EstimateFallbackOverflow
  | ScoreInventorySchema int
  | ScoreInventoryMetadata
  | ScoreWorkerDuplicated nat string
  | ScoreProfileSchema int
  | ScoreTimesDiffer
  | ScoreIdentityRequired
  | ScoreTransportRequired
  | ScoreNegativeStatusAge
  | ScoreTokensRequired
  | ScoreFallbackRequired
  | SnapshotMetadataIncomplete
  | SnapshotBoundsInvalid
  | SnapshotLink nat scoring_error
  | SnapshotCompute nat scoring_error
  | SnapshotLabelInvalid
  | SnapshotIdentityOrFreshness
  | SnapshotRTT scoring_error
  | SnapshotBandwidth scoring_error
  | SnapshotTokens scoring_error
  | SnapshotTime scoring_error
  | SnapshotDuplicated
  | DistributionEmpty
  | DistributionInconsistent
  | ScoreEligibility nat eligibility_error
  | ScoreTargetMissing nat string
  | StageComputeFailed nat scoring_error
  | StageTransferFailed nat scoring_error
  | StageMergeFailed nat scoring_error
  | ScoreArithmetic arithmetic_error
  | ComputeRepetitionOverflow
  | ComputeTotalOverflow
  | PrefillTransferOverflow
  | DecodeTransferOverflow
  | TransferTotalOverflow
  | NegativeWorkerCounters

section \<open>Preference between plans\<close>

definition comparePlanScores :: "plan_score \<Rightarrow> plan_score \<Rightarrow> int" where
  "comparePlanScores l r = first_nonzero
     [compareUint64 (sco_estimatedMicros l) (sco_estimatedMicros r),
      compareUint64 (sco_recentFailureCount l) (sco_recentFailureCount r),
      compareUint64 (sco_memoryPressureBytes l) (sco_memoryPressureBytes r),
      compareUint64 (sco_newLoadMemoryBytes l) (sco_newLoadMemoryBytes r),
      compareUint64 (sco_requiredAdditionalMemoryBytes l) (sco_requiredAdditionalMemoryBytes r),
      compareUint64 (sco_restartCount l) (sco_restartCount r),
      go_compare (sco_stageCount l) (sco_stageCount r)]"

definition compareStageIdentity :: "execution_stage \<Rightarrow> execution_stage \<Rightarrow> int" where
  "compareStageIdentity l r = first_nonzero
     [go_compare (es_name l) (es_name r), go_compare (es_targetID l) (es_targetID r),
      go_compare (es_responseMode l) (es_responseMode r),
      go_compare (es_layerStart l) (es_layerStart r), go_compare (es_layerEnd l) (es_layerEnd r),
      compareBool (es_ownsInput l) (es_ownsInput r), compareBool (es_ownsOutput l) (es_ownsOutput r),
      go_compare (es_shardID l) (es_shardID r)]"

fun compareStagesIdentity :: "execution_stage list \<Rightarrow> execution_stage list \<Rightarrow> int" where
  "compareStagesIdentity (l # ls) (r # rs) =
     (if compareStageIdentity l r \<noteq> 0 then compareStageIdentity l r else compareStagesIdentity ls rs)"
| "compareStagesIdentity ls rs = 0"

definition comparePlanIdentity :: "execution_plan \<Rightarrow> execution_plan \<Rightarrow> int" where
  "comparePlanIdentity l r = first_nonzero
     [go_compare (ep_schemaVersion l) (ep_schemaVersion r),
      go_compare (ep_inventoryRevision l) (ep_inventoryRevision r),
      go_compare (em_ID (ep_model l)) (em_ID (ep_model r)),
      go_compare (em_checkpointFingerprint (ep_model l)) (em_checkpointFingerprint (ep_model r)),
      go_compare (em_layerCount (ep_model l)) (em_layerCount (ep_model r)),
      go_compare (length (ep_stages l)) (length (ep_stages r)),
      compareStagesIdentity (ep_stages l) (ep_stages r),
      go_compare (ep_revision l) (ep_revision r)]"

definition comparePlanEvaluations :: "plan_evaluation \<Rightarrow> plan_evaluation \<Rightarrow> int" where
  "comparePlanEvaluations l r =
     (if pe_eligible l \<noteq> pe_eligible r then if pe_eligible l then - 1 else 1
      else if comparePlanScores (pe_score l) (pe_score r) \<noteq> 0
      then comparePlanScores (pe_score l) (pe_score r)
      else comparePlanIdentity (pe_plan l) (pe_plan r))"

section \<open>Validation\<close>

definition normalizeScoringRequest :: "plan_scoring_request \<Rightarrow> plan_scoring_request" where
  "normalizeScoringRequest q =
     q\<lparr>psr_adapter := trim_space (psr_adapter q),
       psr_transport := (psr_transport q)
         \<lparr>tq_protocol := trim_space (tq_protocol (psr_transport q)),
          tq_tensorEncoding := trim_space (tq_tensorEncoding (psr_transport q))\<rparr>,
       psr_coordinatorID := trim_space (psr_coordinatorID q),
       psr_coordinatorInstanceID := trim_space (psr_coordinatorInstanceID q)\<rparr>"

definition validateSnapshotLabels :: "string list \<Rightarrow> scoring_error + unit" where
  "validateSnapshotLabels labels =
     (if list_ex (\<lambda>s. s = [] \<or> maxProfileLabelBytes < length s \<or> trim_space s \<noteq> s) labels
      then Inl SnapshotLabelInvalid else Inr ())"

definition validateDistribution :: "value_distribution \<Rightarrow> bool \<Rightarrow> int \<Rightarrow> scoring_error + unit" where
  "validateDistribution d allowEmpty maxCount =
     (if vd_count d = 0
      then if allowEmpty \<and> d = emptyDistribution then Inr () else Inl DistributionEmpty
      else if vd_count d < 0 \<or> maxCount < vd_count d \<or> vd_min d = 0 \<or> vd_p50 d < vd_min d \<or>
              vd_p95 d < vd_p50 d \<or> vd_max d < vd_p95 d
      then Inl DistributionInconsistent else Inr ())"

definition linkProfileKey :: "link_profile \<Rightarrow> link_key" where
  "linkProfileKey p =
     \<lparr>lk_sourceID = lp_sourceID p, lk_sourceInstanceID = lp_sourceInstanceID p,
      lk_targetID = lp_targetID p, lk_targetInstanceID = lp_targetInstanceID p,
      lk_protocol = lp_protocol p, lk_tensorEncoding = lp_tensorEncoding p\<rparr>"

definition computeProfileKey :: "compute_profile \<Rightarrow> compute_key" where
  "computeProfileKey p =
     \<lparr>ck_workerID = cp_workerID p, ck_workerInstanceID = cp_workerInstanceID p, ck_backend = cp_backend p,
      ck_modelID = em_ID (cp_model p), ck_fingerprint = em_checkpointFingerprint (cp_model p),
      ck_operation = cp_operation p, ck_layerCount = em_layerCount (cp_model p),
      ck_layerStart = cp_layerStart p, ck_layerEnd = cp_layerEnd p\<rparr>"

definition validateLink :: "profile_snapshot \<Rightarrow> instant \<Rightarrow> link_profile \<Rightarrow> scoring_error + unit" where
  "validateLink profile cutoff p =
     and_then (validateSnapshotLabels [lp_sourceID p, lp_sourceInstanceID p, lp_targetID p,
       lp_targetInstanceID p, lp_protocol p, lp_tensorEncoding p]) (\<lambda>_.
     if lp_sourceID p = lp_targetID p \<or> lp_latestObservedAt p < cutoff \<or>
        ps_generatedAt profile < lp_latestObservedAt p
     then Inl SnapshotIdentityOrFreshness
     else and_then (map_error SnapshotRTT
         (validateDistribution (lp_rttMicros p) False (ps_maxSamplesPerSeries profile))) (\<lambda>_.
       map_error SnapshotBandwidth
         (validateDistribution (lp_effectiveBytesPerSecond p) True (ps_maxSamplesPerSeries profile))))"

definition validateComputeItem :: "profile_snapshot \<Rightarrow> instant \<Rightarrow> compute_profile \<Rightarrow> scoring_error + unit" where
  "validateComputeItem profile cutoff p =
     and_then (validateSnapshotLabels [cp_workerID p, cp_workerInstanceID p, cp_backend p,
       em_ID (cp_model p), em_checkpointFingerprint (cp_model p), cp_operation p]) (\<lambda>_.
     if em_layerCount (cp_model p) \<le> 0 \<or> cp_layerStart p < 0 \<or> cp_layerEnd p \<le> cp_layerStart p \<or>
        em_layerCount (cp_model p) < cp_layerEnd p \<or> cp_latestObservedAt p < cutoff \<or>
        ps_generatedAt profile < cp_latestObservedAt p
     then Inl SnapshotIdentityOrFreshness
     else and_then (map_error SnapshotTokens
         (validateDistribution (cp_inputTokenCount p) False (ps_maxSamplesPerSeries profile))) (\<lambda>_.
       map_error SnapshotTime
         (validateDistribution (cp_computeMicros p) False (ps_maxSamplesPerSeries profile))))"

text \<open>A loop that validates each item and then rejects a key seen before.\<close>

fun validateItems ::
  "(nat \<Rightarrow> scoring_error \<Rightarrow> scoring_error) \<Rightarrow> ('p \<Rightarrow> scoring_error + unit) \<Rightarrow> ('p \<Rightarrow> 'k) \<Rightarrow>
   nat \<Rightarrow> 'k list \<Rightarrow> 'p list \<Rightarrow> scoring_error + unit" where
  "validateItems wrap check key index seen [] = Inr ()"
| "validateItems wrap check key index seen (p # rest) =
     and_then (map_error (wrap index) (check p)) (\<lambda>_.
       if key p \<in> set seen then Inl (wrap index SnapshotDuplicated)
       else validateItems wrap check key (Suc index) (key p # seen) rest)"

definition validateProfileSnapshot :: "profile_snapshot \<Rightarrow> scoring_error + unit" where
  "validateProfileSnapshot profile =
     (if ps_generatedAt profile = 0 \<or> ps_maxAgeMillis profile \<le> 0 \<or>
         ps_maxSamplesPerSeries profile \<le> 0 \<or> ps_maxSeries profile \<le> 0
      then Inl SnapshotMetadataIncomplete
      else if maxDurationMillis < ps_maxAgeMillis profile \<or>
              ps_maxSeries profile < int (length (ps_links profile)) + int (length (ps_compute profile))
      then Inl SnapshotBoundsInvalid
      else let cutoff = ps_generatedAt profile - ps_maxAgeMillis profile * millisecond in
        and_then (validateItems SnapshotLink (validateLink profile cutoff) linkProfileKey 0 []
          (ps_links profile)) (\<lambda>_.
        validateItems SnapshotCompute (validateComputeItem profile cutoff) computeProfileKey 0 []
          (ps_compute profile)))"

fun checkWorkerIDs :: "nat \<Rightarrow> string list \<Rightarrow> worker list \<Rightarrow> scoring_error + unit" where
  "checkWorkerIDs index seen [] = Inr ()"
| "checkWorkerIDs index seen (w # rest) =
     (if wk_ID w \<in> set seen then Inl (ScoreWorkerDuplicated index (wk_ID w))
      else checkWorkerIDs (Suc index) (wk_ID w # seen) rest)"

definition validateScoringSnapshots :: "inventory \<Rightarrow> profile_snapshot \<Rightarrow> scoring_error + unit" where
  "validateScoringSnapshots inventory profile =
     (if inv_schemaVersion inventory \<noteq> registrySchemaVersion
      then Inl (ScoreInventorySchema (inv_schemaVersion inventory))
      else if inv_generatedAt inventory = 0 \<or> inv_leaseTTLMillis inventory \<le> 0
      then Inl ScoreInventoryMetadata
      else and_then (checkWorkerIDs 0 [] (inv_workers inventory)) (\<lambda>_.
        if ps_schemaVersion profile \<noteq> placementSchemaVersion
        then Inl (ScoreProfileSchema (ps_schemaVersion profile))
        else if ps_generatedAt profile \<noteq> inv_generatedAt inventory then Inl ScoreTimesDiffer
        else validateProfileSnapshot profile))"

definition validateScoringContext :: "plan_scoring_request \<Rightarrow> scoring_error + unit" where
  "validateScoringContext q =
     (if psr_adapter q = [] \<or> psr_coordinatorID q = [] \<or> psr_coordinatorInstanceID q = []
      then Inl ScoreIdentityRequired
      else if tq_protocol (psr_transport q) = [] \<or> tq_tensorEncoding (psr_transport q) = []
      then Inl ScoreTransportRequired
      else if psr_statusMaxAgeMillis q < 0 then Inl ScoreNegativeStatusAge
      else if psr_prefillInputTokens q = 0 \<or> psr_decodeSteps q = 0 then Inl ScoreTokensRequired
      else if psr_fallbackRTTMicros q = 0 \<or> psr_fallbackBytesPerSecond q = 0
      then Inl ScoreFallbackRequired
      else Inr ())"

definition validateStageCostEstimate :: "stage_cost_estimate \<Rightarrow> u64 \<Rightarrow> scoring_error + unit" where
  "validateStageCostEstimate e decodeSteps =
     (if sce_loadMemoryBytes e = 0 \<or> sce_sequenceMemoryBytes e = 0 \<or> sce_prefillWireBytes e = 0 \<or>
         sce_decodeWireBytesPerStep e = 0 \<or> sce_fallbackPrefillComputeMicros e = 0 \<or>
         sce_fallbackDecodeComputeMicrosPerStep e = 0
      then Inl EstimateIncomplete
      else if snd (addUint64 (sce_loadMemoryBytes e) (sce_sequenceMemoryBytes e))
      then Inl EstimateMemoryOverflow
      else if snd (multiplyUint64 (sce_decodeWireBytesPerStep e) decodeSteps)
      then Inl EstimateDecodeBytesOverflow
      else if snd (multiplyUint64 (sce_fallbackDecodeComputeMicrosPerStep e) decodeSteps)
      then Inl EstimateFallbackOverflow
      else Inr ())"

definition validateScoringInputs ::
  "digests \<Rightarrow> inventory \<Rightarrow> profile_snapshot \<Rightarrow> execution_plan \<Rightarrow> plan_scoring_request \<Rightarrow> scoring_error + unit" where
  "validateScoringInputs dg inventory profile plan q =
     and_then (map_error ScorePlanInvalid (validateExecutionPlan dg plan)) (\<lambda>_.
     if ep_inventoryRevision plan = [] \<or>
        ep_inventoryRevision plan \<noteq> decimal_nat (unat (inv_revision inventory))
     then Inl (ScorePlanRevision (ep_inventoryRevision plan) (inv_revision inventory))
     else
     and_then (validateScoringSnapshots inventory profile) (\<lambda>_.
     and_then (validateScoringContext q) (\<lambda>_.
     if length (psr_stages q) \<noteq> length (ep_stages plan)
     then Inl (ScoreStageCount (length (psr_stages q)) (length (ep_stages plan)))
     else and_then (collect (\<lambda>(index, e).
         map_error (ScoreEstimateInvalid index) (validateStageCostEstimate e (psr_decodeSteps q)))
         (indexed (psr_stages q))) (\<lambda>_. Inr ()))))"

section \<open>Estimates\<close>

definition findCandidate :: "candidate list \<Rightarrow> string \<Rightarrow> candidate option" where
  "findCandidate candidates workerID = find (\<lambda>c. cd_workerID c = workerID) candidates"

definition findComputeProfile ::
  "compute_profile list \<Rightarrow> worker \<Rightarrow> execution_model \<Rightarrow> execution_stage \<Rightarrow> string \<Rightarrow> compute_profile option" where
  "findComputeProfile profiles w model stage operation = find (\<lambda>p.
     cp_workerID p = wk_ID w \<and> cp_workerInstanceID p = wk_instanceID w \<and>
     cp_backend p = cap_backend (wk_capabilities w) \<and> cp_model p = model \<and> cp_operation p = operation \<and>
     cp_layerStart p = es_layerStart stage \<and> cp_layerEnd p = es_layerEnd stage) profiles"

definition findLinkProfile ::
  "link_profile list \<Rightarrow> worker \<Rightarrow> plan_scoring_request \<Rightarrow> link_profile option" where
  "findLinkProfile profiles w q = find (\<lambda>p.
     lp_sourceID p = psr_coordinatorID q \<and> lp_sourceInstanceID p = psr_coordinatorInstanceID q \<and>
     lp_targetID p = wk_ID w \<and> lp_targetInstanceID p = wk_instanceID w \<and>
     lp_protocol p = tq_protocol (psr_transport q) \<and>
     lp_tensorEncoding p = tq_tensorEncoding (psr_transport q)) profiles"

definition estimateCompute ::
  "compute_profile option \<Rightarrow> u64 \<Rightarrow> u64 \<Rightarrow> u64 \<Rightarrow> scoring_error + u64 \<times> bool" where
  "estimateCompute profile inputTokens repetitions fallbackMicros =
     and_then (case profile of
         None \<Rightarrow> Inr fallbackMicros
       | Some p \<Rightarrow> map_error ScoreArithmetic (multiplyDivideCeil
           (vd_p50 (cp_computeMicros p)) inputTokens (vd_p50 (cp_inputTokenCount p)))) (\<lambda>perCall.
     let (total, overflow) = multiplyUint64 perCall repetitions in
     if overflow then Inl ComputeRepetitionOverflow else Inr (total, profile \<noteq> None))"

definition scoreStageCompute ::
  "profile_snapshot \<Rightarrow> execution_model \<Rightarrow> worker \<Rightarrow> execution_stage \<Rightarrow> plan_scoring_request \<Rightarrow>
   stage_cost_estimate \<Rightarrow> scoring_error + stage_compute_score" where
  "scoreStageCompute profile model w stage q e =
     (let prefillProfile = findComputeProfile (ps_compute profile) w model stage ''prefill'';
          decodeProfile = findComputeProfile (ps_compute profile) w model stage ''decode''
      in and_then (estimateCompute prefillProfile (psr_prefillInputTokens q) 1
             (sce_fallbackPrefillComputeMicros e)) (\<lambda>(prefill, prefillProfiled).
         and_then (estimateCompute decodeProfile 1 (psr_decodeSteps q)
             (sce_fallbackDecodeComputeMicrosPerStep e)) (\<lambda>(decode, decodeProfiled).
         let (total, overflow) = addUint64 prefill decode in
         if overflow then Inl ComputeTotalOverflow
         else Inr \<lparr>scs_prefillMicros = prefill, scs_decodeMicros = decode, scs_totalMicros = total,
           scs_prefillProfiled = prefillProfiled, scs_decodeProfiled = decodeProfiled,
           scs_prefillProfile = prefillProfile, scs_decodeProfile = decodeProfile\<rparr>)))"

definition scoreStageTransfer ::
  "profile_snapshot \<Rightarrow> worker \<Rightarrow> plan_scoring_request \<Rightarrow> stage_cost_estimate \<Rightarrow>
   scoring_error + stage_transfer_score" where
  "scoreStageTransfer profile w q e =
     (let link = findLinkProfile (ps_links profile) w q;
          bandwidthProfiled = (case link of None \<Rightarrow> False
            | Some p \<Rightarrow> 0 < vd_count (lp_effectiveBytesPerSecond p));
          rtt = (case link of None \<Rightarrow> psr_fallbackRTTMicros q | Some p \<Rightarrow> vd_p50 (lp_rttMicros p));
          bandwidth = (case link of None \<Rightarrow> psr_fallbackBytesPerSecond q
            | Some p \<Rightarrow> if bandwidthProfiled then vd_p50 (lp_effectiveBytesPerSecond p)
                else psr_fallbackBytesPerSecond q)
      in and_then (map_error ScoreArithmetic
             (multiplyDivideCeil (sce_prefillWireBytes e) 1000000 bandwidth)) (\<lambda>prefillPayload.
         let (prefill, overflow) = addUint64 rtt prefillPayload in
         if overflow then Inl PrefillTransferOverflow
         else and_then (map_error ScoreArithmetic
             (multiplyDivideCeil (sce_decodeWireBytesPerStep e) 1000000 bandwidth)) (\<lambda>decodePayload.
         let (decodePerStep, overflow) = addUint64 rtt decodePayload in
         if overflow then Inl DecodeTransferOverflow
         else let (decode, overflow) = multiplyUint64 decodePerStep (psr_decodeSteps q) in
         if overflow then Inl DecodeTransferOverflow
         else let (total, overflow) = addUint64 prefill decode in
         if overflow then Inl TransferTotalOverflow
         else Inr \<lparr>sts_rttMicros = rtt, sts_bytesPerSecond = bandwidth, sts_prefillMicros = prefill,
           sts_decodeMicros = decode, sts_totalMicros = total, sts_rttProfiled = (link \<noteq> None),
           sts_bandwidthProfiled = bandwidthProfiled, sts_linkProfile = link\<rparr>)))"

definition mergeStageScore ::
  "plan_score \<Rightarrow> worker \<Rightarrow> candidate \<Rightarrow> stage_cost_estimate \<Rightarrow> stage_compute_score \<Rightarrow>
   stage_transfer_score \<Rightarrow> scoring_error + plan_score" where
  "mergeStageScore score w c e compute transfer =
     (let add = (\<lambda>x y. map_error ScoreArithmetic (checkedScoreAdd x y)) in
      and_then (add (sco_computeMicros score) (scs_totalMicros compute)) (\<lambda>computeMicros.
      and_then (add (sco_transferMicros score) (sts_totalMicros transfer)) (\<lambda>transferMicros.
      and_then (add computeMicros transferMicros) (\<lambda>estimatedMicros.
      if st_recentFailureCount (wk_status w) < 0 \<or> st_restartCount (wk_status w) < 0
      then Inl NegativeWorkerCounters
      else
      and_then (add (sco_recentFailureCount score) (word_of_int (st_recentFailureCount (wk_status w)))) (\<lambda>failures.
      and_then (add (sco_restartCount score) (word_of_int (st_restartCount (wk_status w)))) (\<lambda>restarts.
      and_then (add (sco_memoryPressureBytes score) (st_memoryPressureBytes (wk_status w))) (\<lambda>pressure.
      and_then (add (sco_requiredAdditionalMemoryBytes score) (cd_requiredAdditionalMemoryBytes c)) (\<lambda>additional.
      and_then (if cd_reusesRetainedShard c then Inr (sco_newLoadMemoryBytes score)
                else add (sco_newLoadMemoryBytes score) (sce_loadMemoryBytes e)) (\<lambda>newLoad.
      Inr (score
        \<lparr>sco_computeMicros := computeMicros, sco_transferMicros := transferMicros,
         sco_estimatedMicros := estimatedMicros, sco_recentFailureCount := failures,
         sco_restartCount := restarts, sco_memoryPressureBytes := pressure,
         sco_requiredAdditionalMemoryBytes := additional, sco_newLoadMemoryBytes := newLoad,
         sco_reusedStageCount := sco_reusedStageCount score + (if cd_reusesRetainedShard c then 1 else 0),
         sco_profiledComputeOperationCount := sco_profiledComputeOperationCount score +
           (if scs_prefillProfiled compute then 1 else 0) + (if scs_decodeProfiled compute then 1 else 0),
         sco_profiledRTTStageCount := sco_profiledRTTStageCount score +
           (if sts_rttProfiled transfer then 1 else 0),
         sco_profiledBandwidthStageCount := sco_profiledBandwidthStageCount score +
           (if sts_bandwidthProfiled transfer then 1 else 0)\<rparr>))))))))))"

section \<open>Scoring a plan\<close>

definition zeroScore :: "int \<Rightarrow> plan_score" where
  "zeroScore n = \<lparr>sco_stageCount = n, sco_estimatedMicros = 0, sco_computeMicros = 0,
     sco_transferMicros = 0, sco_recentFailureCount = 0, sco_restartCount = 0,
     sco_memoryPressureBytes = 0, sco_requiredAdditionalMemoryBytes = 0, sco_newLoadMemoryBytes = 0,
     sco_reusedStageCount = 0, sco_profiledComputeOperationCount = 0, sco_profiledRTTStageCount = 0,
     sco_profiledBandwidthStageCount = 0\<rparr>"

definition zeroCompute :: stage_compute_score where
  "zeroCompute = \<lparr>scs_prefillMicros = 0, scs_decodeMicros = 0, scs_totalMicros = 0,
     scs_prefillProfiled = False, scs_decodeProfiled = False, scs_prefillProfile = None,
     scs_decodeProfile = None\<rparr>"

definition zeroTransfer :: stage_transfer_score where
  "zeroTransfer = \<lparr>sts_rttMicros = 0, sts_bytesPerSecond = 0, sts_prefillMicros = 0,
     sts_decodeMicros = 0, sts_totalMicros = 0, sts_rttProfiled = False,
     sts_bandwidthProfiled = False, sts_linkProfile = None\<rparr>"

definition planRequirement ::
  "execution_plan \<Rightarrow> plan_scoring_request \<Rightarrow> execution_stage \<Rightarrow> stage_cost_estimate \<Rightarrow> stage_requirement" where
  "planRequirement plan q stage e =
     \<lparr>sq_model = ep_model plan, sq_adapter = psr_adapter q, sq_shardID = es_shardID stage,
      sq_layerStart = es_layerStart stage, sq_layerEnd = es_layerEnd stage,
      sq_ownsInput = es_ownsInput stage, sq_ownsOutput = es_ownsOutput stage,
      sq_loadMemoryBytes = sce_loadMemoryBytes e, sq_sequenceMemoryBytes = sce_sequenceMemoryBytes e,
      sq_transport = psr_transport q, sq_statusMaxAgeMillis = psr_statusMaxAgeMillis q\<rparr>"

definition selectStage ::
  "inventory \<Rightarrow> execution_plan \<Rightarrow> plan_scoring_request \<Rightarrow> nat \<times> execution_stage \<Rightarrow>
   scoring_error + stage_plan_evaluation" where
  "selectStage inventory plan q = (\<lambda>(index, stage).
     and_then (map_error (ScoreEligibility index)
       (evaluateCandidates inventory (planRequirement plan q stage (psr_stages q ! index)))) (\<lambda>eligibility.
     case findCandidate (ev_candidates eligibility) (es_targetID stage) of
       None \<Rightarrow> Inl (ScoreTargetMissing index (es_targetID stage))
     | Some selected \<Rightarrow> Inr
         \<lparr>spe_index = int index, spe_stage = stage, spe_eligibility = eligibility,
          spe_selectedCandidate = selected, spe_compute = zeroCompute, spe_transfer = zeroTransfer\<rparr>))"

text \<open>
  The map of the workers by ID. The target of every stage is in it when it is looked up,
  because its candidate was found.
\<close>

definition workersByID :: "inventory \<Rightarrow> string \<Rightarrow> worker option" where
  "workersByID inventory = map_of (rev (map (\<lambda>w. (wk_ID w, w)) (inv_workers inventory)))"

definition scoreStage ::
  "inventory \<Rightarrow> profile_snapshot \<Rightarrow> execution_plan \<Rightarrow> plan_scoring_request \<Rightarrow> nat \<Rightarrow>
   plan_score \<Rightarrow> stage_plan_evaluation \<Rightarrow> scoring_error + stage_plan_evaluation \<times> plan_score" where
  "scoreStage inventory profile plan q index score s =
     (let stage = spe_stage s; e = psr_stages q ! index;
          w = the (workersByID inventory (es_targetID stage)) in
      and_then (map_error (StageComputeFailed index)
        (scoreStageCompute profile (ep_model plan) w stage q e)) (\<lambda>compute.
      and_then (map_error (StageTransferFailed index) (scoreStageTransfer profile w q e)) (\<lambda>transfer.
      and_then (map_error (StageMergeFailed index)
        (mergeStageScore score w (spe_selectedCandidate s) e compute transfer)) (\<lambda>score'.
      Inr (s\<lparr>spe_compute := compute, spe_transfer := transfer\<rparr>, score')))))"

fun scoreStages ::
  "inventory \<Rightarrow> profile_snapshot \<Rightarrow> execution_plan \<Rightarrow> plan_scoring_request \<Rightarrow> nat \<Rightarrow>
   plan_score \<Rightarrow> stage_plan_evaluation list \<Rightarrow> scoring_error + stage_plan_evaluation list \<times> plan_score" where
  "scoreStages inventory profile plan q index score [] = Inr ([], score)"
| "scoreStages inventory profile plan q index score (s # rest) =
     and_then (scoreStage inventory profile plan q index score s) (\<lambda>(s', score').
     and_then (scoreStages inventory profile plan q (Suc index) score' rest) (\<lambda>(rest', final).
     Inr (s' # rest', final)))"

definition scorePlan ::
  "digests \<Rightarrow> inventory \<Rightarrow> profile_snapshot \<Rightarrow> execution_plan \<Rightarrow> plan_scoring_request \<Rightarrow>
   scoring_error + plan_evaluation" where
  "scorePlan dg inventory profile plan q0 =
     (let q = normalizeScoringRequest q0 in
      and_then (validateScoringInputs dg inventory profile plan q) (\<lambda>_.
      and_then (collect (selectStage inventory plan q) (indexed (ep_stages plan))) (\<lambda>stages.
      let eligible = list_all (\<lambda>s. cd_eligible (spe_selectedCandidate s)) stages;
          evaluation = (\<lambda>stages score.
            \<lparr>pe_schemaVersion = placementSchemaVersion, pe_inventoryRevision = inv_revision inventory,
             pe_profileRevision = ps_revision profile, pe_profileMaxAgeMillis = ps_maxAgeMillis profile,
             pe_generatedAt = inv_generatedAt inventory, pe_plan = plan, pe_request = q,
             pe_eligible = eligible, pe_stages = stages, pe_score = score\<rparr>);
          score = zeroScore (int (length (ep_stages plan)))
      in if \<not> eligible then Inr (evaluation stages score)
         else and_then (scoreStages inventory profile plan q 0 score stages) (\<lambda>(stages', final).
           Inr (evaluation stages' final)))))"

section \<open>The preference is a total order\<close>

lemma go_compare_zero [simp]: "go_compare x y = 0 \<longleftrightarrow> x = y"
  by (auto simp: go_compare_def)

lemma first_nonzero_zero: "first_nonzero xs = 0 \<longleftrightarrow> (\<forall>x \<in> set xs. x = 0)"
  by (induction xs) auto

lemma comparison_cong:
  assumes "comparison d" and "\<And>x y. c x y = d x y"
  shows "comparison c"
proof -
  have "c = d" using assms(2) by (intro ext)
  with assms(1) show ?thesis by (simp only:)
qed

interpretation plan_scores: comparison comparePlanScores
  unfolding comparePlanScores_def compareUint64_go by (intro comparison_intros)

interpretation stage_identity: comparison compareStageIdentity
  unfolding compareStageIdentity_def compareBool_go by (intro comparison_intros)

lemma compareStageIdentity_zero: "compareStageIdentity l r = 0 \<longleftrightarrow> l = r"
  by (cases l; cases r) (simp add: compareStageIdentity_def compareBool_go first_nonzero_zero del: first_nonzero.simps; blast)

lemma compareStagesIdentity_zero: "length ls = length rs \<Longrightarrow> compareStagesIdentity ls rs = 0 \<longleftrightarrow> ls = rs"
  by (induction ls rs rule: list_induct2) (auto simp: compareStageIdentity_zero)

lemma compareStagesIdentity_swap:
  "length ls = length rs \<Longrightarrow> 0 < compareStagesIdentity rs ls \<longleftrightarrow> compareStagesIdentity ls rs < 0"
proof (induction ls rs rule: list_induct2)
  case Nil
  then show ?case by simp
next
  case (Cons l ls r rs)
  then show ?case using stage_identity.cmp_swap [of r l] stage_identity.cmp_zero_swap [of l r] by auto
qed

lemma compareStagesIdentity_trans:
  "length ls = length ms \<Longrightarrow> length ms = length rs \<Longrightarrow> compareStagesIdentity ls ms \<le> 0 \<Longrightarrow>
   compareStagesIdentity ms rs \<le> 0 \<Longrightarrow> compareStagesIdentity ls rs \<le> 0"
proof (induction ls ms rs rule: list_induct3)
  case Nil
  then show ?case by simp
next
  case (Cons l ls m ms r rs)
  have le: "compareStageIdentity l m \<le> 0" "compareStageIdentity m r \<le> 0"
    using Cons.prems by (simp_all split: if_splits)
  then have "compareStageIdentity l m < 0 \<or> l = m" "compareStageIdentity m r < 0 \<or> m = r"
    using le compareStageIdentity_zero [of l m] compareStageIdentity_zero [of m r] by (simp_all only: order_le_less)
  then consider "compareStageIdentity l m < 0" | "compareStageIdentity m r < 0" | "l = m" "m = r" by blast
  then show ?case
  proof cases
    case 1
    then have "compareStageIdentity l r < 0"
      using \<open>compareStageIdentity m r \<le> 0\<close> by (rule stage_identity.cmp_less_le_trans)
    then show ?thesis by simp
  next
    case 2
    with le(1) have "compareStageIdentity l r < 0" by (rule stage_identity.cmp_le_less_trans)
    then show ?thesis by simp
  next
    case 3
    then have "compareStagesIdentity ls ms \<le> 0" "compareStagesIdentity ms rs \<le> 0"
      using Cons.prems by simp_all
    then have "compareStagesIdentity ls rs \<le> 0" by (rule Cons.IH)
    then show ?thesis using 3 by simp
  qed
qed

lemma comparison_stage_lists:
  "comparison (\<lambda>l (r :: execution_plan). if go_compare (length (ep_stages l)) (length (ep_stages r)) \<noteq> 0
     then go_compare (length (ep_stages l)) (length (ep_stages r))
     else compareStagesIdentity (ep_stages l) (ep_stages r))" (is "comparison ?c")
proof
  fix x y z :: execution_plan
  show "0 < ?c y x \<longleftrightarrow> ?c x y < 0"
    using compareStagesIdentity_swap [of "ep_stages x" "ep_stages y"] by (auto simp: go_compare_def)
  assume "?c x y \<le> 0" "?c y z \<le> 0"
  then show "?c x z \<le> 0"
    using compareStagesIdentity_trans [of "ep_stages x" "ep_stages y" "ep_stages z"]
    by (auto simp: go_compare_def split: if_splits)
qed

lemma comparePlanIdentity_chain:
  "comparePlanIdentity l r = first_nonzero
      [go_compare (ep_schemaVersion l) (ep_schemaVersion r),
       go_compare (ep_inventoryRevision l) (ep_inventoryRevision r),
       go_compare (em_ID (ep_model l)) (em_ID (ep_model r)),
       go_compare (em_checkpointFingerprint (ep_model l)) (em_checkpointFingerprint (ep_model r)),
       go_compare (em_layerCount (ep_model l)) (em_layerCount (ep_model r)),
       (if go_compare (length (ep_stages l)) (length (ep_stages r)) \<noteq> 0
        then go_compare (length (ep_stages l)) (length (ep_stages r))
        else compareStagesIdentity (ep_stages l) (ep_stages r)),
       go_compare (ep_revision l) (ep_revision r)]"
  by (simp add: comparePlanIdentity_def del: go_compare_zero)

interpretation plan_identity: comparison comparePlanIdentity
  by (rule comparison_cong [OF _ comparePlanIdentity_chain])
     (intro comparison_chain comparison_chain_end comparison_stage_lists comparison_go_compare)

lemma comparePlanIdentity_zero: "comparePlanIdentity l r = 0 \<longleftrightarrow> l = r"
proof
  assume "comparePlanIdentity l r = 0"
  then have "length (ep_stages l) = length (ep_stages r)" "compareStagesIdentity (ep_stages l) (ep_stages r) = 0"
    "ep_schemaVersion l = ep_schemaVersion r" "ep_inventoryRevision l = ep_inventoryRevision r"
    "em_ID (ep_model l) = em_ID (ep_model r)"
    "em_checkpointFingerprint (ep_model l) = em_checkpointFingerprint (ep_model r)"
    "em_layerCount (ep_model l) = em_layerCount (ep_model r)" "ep_revision l = ep_revision r"
    by (simp_all add: comparePlanIdentity_def first_nonzero_zero del: first_nonzero.simps)
  then show "l = r" using compareStagesIdentity_zero
    by (intro execution_plan.equality execution_model.equality) auto
qed simp

lemma comparePlanEvaluations_chain:
  "comparePlanEvaluations l r = (if go_compare (\<not> pe_eligible l) (\<not> pe_eligible r) \<noteq> 0
      then go_compare (\<not> pe_eligible l) (\<not> pe_eligible r)
      else if comparePlanScores (pe_score l) (pe_score r) \<noteq> 0
      then comparePlanScores (pe_score l) (pe_score r)
      else comparePlanIdentity (pe_plan l) (pe_plan r))"
  by (simp add: comparePlanEvaluations_def go_compare_def)

interpretation plan_evaluations: comparison comparePlanEvaluations
  by (rule comparison_cong [OF _ comparePlanEvaluations_chain])
     (rule comparison_first [OF comparison_go_compare [of "\<lambda>e. \<not> pe_eligible e"]
        comparison_first [OF comparison_inv_image [OF plan_scores.comparison_axioms, of pe_score]
          comparison_inv_image [OF plan_identity.comparison_axioms, of pe_plan]]])

section \<open>Exact estimates\<close>

text \<open>The estimates over natural numbers: ceilings of quotients, and no overflow.\<close>

definition per_call :: "compute_profile option \<Rightarrow> u64 \<Rightarrow> u64 \<Rightarrow> nat" where
  "per_call profile tokens fallback =
     (case profile of
        None \<Rightarrow> unat fallback
      | Some p \<Rightarrow> ceil_div (unat (vd_p50 (cp_computeMicros p)) * unat tokens) (unat (vd_p50 (cp_inputTokenCount p))))"

definition compute_micros ::
  "profile_snapshot \<Rightarrow> execution_model \<Rightarrow> plan_scoring_request \<Rightarrow> worker \<Rightarrow> execution_stage \<Rightarrow>
   stage_cost_estimate \<Rightarrow> nat" where
  "compute_micros profile model q w stage e =
     per_call (findComputeProfile (ps_compute profile) w model stage ''prefill'')
       (psr_prefillInputTokens q) (sce_fallbackPrefillComputeMicros e) +
     per_call (findComputeProfile (ps_compute profile) w model stage ''decode'')
       1 (sce_fallbackDecodeComputeMicrosPerStep e) * unat (psr_decodeSteps q)"

definition link_rtt :: "profile_snapshot \<Rightarrow> plan_scoring_request \<Rightarrow> worker \<Rightarrow> u64" where
  "link_rtt profile q w =
     (case findLinkProfile (ps_links profile) w q of
        None \<Rightarrow> psr_fallbackRTTMicros q | Some p \<Rightarrow> vd_p50 (lp_rttMicros p))"

definition link_bandwidth :: "profile_snapshot \<Rightarrow> plan_scoring_request \<Rightarrow> worker \<Rightarrow> u64" where
  "link_bandwidth profile q w =
     (case findLinkProfile (ps_links profile) w q of
        None \<Rightarrow> psr_fallbackBytesPerSecond q
      | Some p \<Rightarrow> if 0 < vd_count (lp_effectiveBytesPerSecond p) then vd_p50 (lp_effectiveBytesPerSecond p)
          else psr_fallbackBytesPerSecond q)"

definition transfer_micros ::
  "profile_snapshot \<Rightarrow> plan_scoring_request \<Rightarrow> worker \<Rightarrow> stage_cost_estimate \<Rightarrow> nat" where
  "transfer_micros profile q w e =
     (let rtt = unat (link_rtt profile q w); bandwidth = unat (link_bandwidth profile q w) in
      rtt + ceil_div (unat (sce_prefillWireBytes e) * 1000000) bandwidth +
      (rtt + ceil_div (unat (sce_decodeWireBytesPerStep e) * 1000000) bandwidth) * unat (psr_decodeSteps q))"

lemma addUint64_False: "addUint64 x y = (v, False) \<Longrightarrow> unat v = unat x + unat y"
  by (simp only: addUint64_exact)

lemma multiplyUint64_False: "multiplyUint64 x y = (v, False) \<Longrightarrow> unat v = unat x * unat y"
  by (simp only: multiplyUint64_exact)

lemma estimateCompute_value:
  assumes "estimateCompute profile tokens repetitions fallback = Inr (v, b)"
  shows "unat v = per_call profile tokens fallback * unat repetitions \<and> b = (profile \<noteq> None)"
proof (cases profile)
  case None
  obtain total overflow where m: "multiplyUint64 fallback repetitions = (total, overflow)"
    by (cases "multiplyUint64 fallback repetitions")
  with None assms show ?thesis
    by (auto simp: estimateCompute_def per_call_def dest!: multiplyUint64_False split: if_splits)
next
  case (Some p)
  obtain c where c: "multiplyDivideCeil (vd_p50 (cp_computeMicros p)) tokens (vd_p50 (cp_inputTokenCount p)) = Inr c"
    using assms Some by (auto simp: estimateCompute_def and_then_Inr)
  obtain total overflow where m: "multiplyUint64 c repetitions = (total, overflow)"
    by (cases "multiplyUint64 c repetitions")
  have "unat c = per_call profile tokens fallback"
    using c Some by (simp add: multiplyDivideCeil_value per_call_def)
  with Some assms c m show ?thesis
    by (auto simp: estimateCompute_def dest!: multiplyUint64_False split: if_splits)
qed

lemma scoreStageCompute_value:
  assumes "scoreStageCompute profile model w stage q e = Inr c"
  shows "unat (scs_totalMicros c) = compute_micros profile model q w stage e"
proof -
  obtain prefill pb decode db where
    p: "estimateCompute (findComputeProfile (ps_compute profile) w model stage ''prefill'')
      (psr_prefillInputTokens q) 1 (sce_fallbackPrefillComputeMicros e) = Inr (prefill, pb)" and
    d: "estimateCompute (findComputeProfile (ps_compute profile) w model stage ''decode'') 1
      (psr_decodeSteps q) (sce_fallbackDecodeComputeMicrosPerStep e) = Inr (decode, db)"
    using assms by (auto simp: scoreStageCompute_def Let_def and_then_Inr)
  obtain total overflow where t: "addUint64 prefill decode = (total, overflow)" by (cases "addUint64 prefill decode")
  have "\<not> overflow" "scs_totalMicros c = total"
    using assms p d t by (auto simp: scoreStageCompute_def Let_def split: if_splits)
  then have "unat (scs_totalMicros c) = unat prefill + unat decode" using t addUint64_False by auto
  then show ?thesis
    using estimateCompute_value [OF p] estimateCompute_value [OF d] by (simp add: compute_micros_def)
qed

lemma scoreStageTransfer_value:
  assumes "scoreStageTransfer profile w q e = Inr t"
  shows "unat (sts_totalMicros t) = transfer_micros profile q w e"
proof -
  let ?rtt = "link_rtt profile q w" and ?bandwidth = "link_bandwidth profile q w"
  have bandwidth: "(case findLinkProfile (ps_links profile) w q of None \<Rightarrow> psr_fallbackBytesPerSecond q
      | Some p \<Rightarrow> if (case findLinkProfile (ps_links profile) w q of None \<Rightarrow> False
          | Some p \<Rightarrow> 0 < vd_count (lp_effectiveBytesPerSecond p)) then vd_p50 (lp_effectiveBytesPerSecond p)
          else psr_fallbackBytesPerSecond q) = ?bandwidth"
    by (simp add: link_bandwidth_def split: option.split)
  note run = assms [unfolded scoreStageTransfer_def Let_def bandwidth link_rtt_def [symmetric]]
  obtain pp where pp: "multiplyDivideCeil (sce_prefillWireBytes e) 1000000 ?bandwidth = Inr pp"
    using run by (auto simp: and_then_Inr)
  obtain prefill o1 where p: "addUint64 ?rtt pp = (prefill, o1)" by (cases "addUint64 ?rtt pp")
  obtain dp where dp: "multiplyDivideCeil (sce_decodeWireBytesPerStep e) 1000000 ?bandwidth = Inr dp"
    using run pp p by (auto simp: and_then_Inr split: if_splits)
  obtain step o2 where s: "addUint64 ?rtt dp = (step, o2)" by (cases "addUint64 ?rtt dp")
  obtain decode o3 where d: "multiplyUint64 step (psr_decodeSteps q) = (decode, o3)"
    by (cases "multiplyUint64 step (psr_decodeSteps q)")
  obtain total o4 where t: "addUint64 prefill decode = (total, o4)" by (cases "addUint64 prefill decode")
  have "\<not> o1" "\<not> o2" "\<not> o3" "\<not> o4" "sts_totalMicros t = total"
    using run pp p dp s d t by (auto split: if_splits)
  then have "unat (sts_totalMicros t) = unat ?rtt + unat pp + (unat ?rtt + unat dp) * unat (psr_decodeSteps q)"
    using p s d t addUint64_False multiplyUint64_False by auto
  then show ?thesis using pp dp by (simp add: transfer_micros_def Let_def multiplyDivideCeil_value)
qed

lemma guard_Inr: "(if b then Inl e else m) = Inr y \<longleftrightarrow> \<not> b \<and> m = Inr y"
  by simp

text \<open>What one stage adds to each component of the score.\<close>

lemma mergeStageScore_run:
  assumes "mergeStageScore score w c e compute transfer = Inr s"
  obtains computeMicros transferMicros estimatedMicros failures restarts pressure additional newLoad where
    "unat computeMicros = unat (sco_computeMicros score) + unat (scs_totalMicros compute)"
    "unat transferMicros = unat (sco_transferMicros score) + unat (sts_totalMicros transfer)"
    "unat estimatedMicros = unat computeMicros + unat transferMicros"
    "unat failures = unat (sco_recentFailureCount score) + unat (word_of_int (st_recentFailureCount (wk_status w)) :: u64)"
    "unat restarts = unat (sco_restartCount score) + unat (word_of_int (st_restartCount (wk_status w)) :: u64)"
    "unat pressure = unat (sco_memoryPressureBytes score) + unat (st_memoryPressureBytes (wk_status w))"
    "unat additional = unat (sco_requiredAdditionalMemoryBytes score) + unat (cd_requiredAdditionalMemoryBytes c)"
    "unat newLoad = unat (sco_newLoadMemoryBytes score) +
       (if cd_reusesRetainedShard c then 0 else unat (sce_loadMemoryBytes e))"
    "s = score
        \<lparr>sco_computeMicros := computeMicros, sco_transferMicros := transferMicros,
         sco_estimatedMicros := estimatedMicros, sco_recentFailureCount := failures,
         sco_restartCount := restarts, sco_memoryPressureBytes := pressure,
         sco_requiredAdditionalMemoryBytes := additional, sco_newLoadMemoryBytes := newLoad,
         sco_reusedStageCount := sco_reusedStageCount score + (if cd_reusesRetainedShard c then 1 else 0),
         sco_profiledComputeOperationCount := sco_profiledComputeOperationCount score +
           (if scs_prefillProfiled compute then 1 else 0) + (if scs_decodeProfiled compute then 1 else 0),
         sco_profiledRTTStageCount := sco_profiledRTTStageCount score +
           (if sts_rttProfiled transfer then 1 else 0),
         sco_profiledBandwidthStageCount := sco_profiledBandwidthStageCount score +
           (if sts_bandwidthProfiled transfer then 1 else 0)\<rparr>"
proof -
  have load: "(if b then Inr x else map_error ScoreArithmetic (checkedScoreAdd x y)) = Inr v \<longleftrightarrow>
      unat v = unat x + (if b then 0 else unat y)" for b x y v
    by (auto simp: checkedScoreAdd_exact u64_eq_iff)
  show ?thesis
    using assms that
    unfolding mergeStageScore_def Let_def and_then_Inr guard_Inr load map_error_Inr checkedScoreAdd_exact sum.inject
    by blast
qed

lemma mergeStageScore_value:
  assumes "mergeStageScore score w c e compute transfer = Inr s"
  shows "unat (sco_computeMicros s) = unat (sco_computeMicros score) + unat (scs_totalMicros compute)"
    "unat (sco_transferMicros s) = unat (sco_transferMicros score) + unat (sts_totalMicros transfer)"
    "unat (sco_estimatedMicros s) = unat (sco_computeMicros s) + unat (sco_transferMicros s)"
    "unat (sco_recentFailureCount s) =
       unat (sco_recentFailureCount score) + unat (word_of_int (st_recentFailureCount (wk_status w)) :: u64)"
    "unat (sco_restartCount s) =
       unat (sco_restartCount score) + unat (word_of_int (st_restartCount (wk_status w)) :: u64)"
    "unat (sco_memoryPressureBytes s) = unat (sco_memoryPressureBytes score) + unat (st_memoryPressureBytes (wk_status w))"
    "unat (sco_requiredAdditionalMemoryBytes s) =
       unat (sco_requiredAdditionalMemoryBytes score) + unat (cd_requiredAdditionalMemoryBytes c)"
    "unat (sco_newLoadMemoryBytes s) = unat (sco_newLoadMemoryBytes score) +
       (if cd_reusesRetainedShard c then 0 else unat (sce_loadMemoryBytes e))"
    "sco_stageCount s = sco_stageCount score"
  by (rule mergeStageScore_run [OF assms], simp)+

fun stage_sum :: "(nat \<Rightarrow> 's \<Rightarrow> nat) \<Rightarrow> nat \<Rightarrow> 's list \<Rightarrow> nat" where
  "stage_sum f index [] = 0"
| "stage_sum f index (s # rest) = f index s + stage_sum f (Suc index) rest"

lemma stage_sum_eq: "stage_sum f index ss = (\<Sum>i < length ss. f (index + i) (ss ! i))"
proof (induction ss arbitrary: index)
  case Nil
  then show ?case by simp
next
  case (Cons s ss)
  have "(\<Sum>i < length (s # ss). f (index + i) ((s # ss) ! i)) =
      f index s + (\<Sum>i < length ss. f (index + Suc i) (ss ! i))"
    by (simp only: list.size sum.lessThan_Suc_shift nth_Cons_0 nth_Cons_Suc add_0_right add_Suc_right)
  then show ?case by (simp add: Cons.IH)
qed

abbreviation stage_worker :: "inventory \<Rightarrow> execution_stage \<Rightarrow> worker" where
  "stage_worker inventory stage \<equiv> the (workersByID inventory (es_targetID stage))"

lemma scoreStages_value:
  assumes "scoreStages inventory profile plan q index score ss = Inr (ss', final)"
    and "unat (sco_estimatedMicros score) = unat (sco_computeMicros score) + unat (sco_transferMicros score)"
  shows "unat (sco_computeMicros final) = unat (sco_computeMicros score) +
      stage_sum (\<lambda>i s. compute_micros profile (ep_model plan) q (stage_worker inventory (spe_stage s)) (spe_stage s)
        (psr_stages q ! i)) index ss \<and>
    unat (sco_transferMicros final) = unat (sco_transferMicros score) +
      stage_sum (\<lambda>i s. transfer_micros profile q (stage_worker inventory (spe_stage s)) (psr_stages q ! i)) index ss \<and>
    unat (sco_estimatedMicros final) = unat (sco_computeMicros final) + unat (sco_transferMicros final) \<and>
    unat (sco_memoryPressureBytes final) = unat (sco_memoryPressureBytes score) +
      stage_sum (\<lambda>i s. unat (st_memoryPressureBytes (wk_status (stage_worker inventory (spe_stage s))))) index ss \<and>
    unat (sco_requiredAdditionalMemoryBytes final) = unat (sco_requiredAdditionalMemoryBytes score) +
      stage_sum (\<lambda>i s. unat (cd_requiredAdditionalMemoryBytes (spe_selectedCandidate s))) index ss \<and>
    sco_stageCount final = sco_stageCount score \<and>
    map spe_stage ss' = map spe_stage ss \<and> map spe_selectedCandidate ss' = map spe_selectedCandidate ss"
  using assms
proof (induction ss arbitrary: index score ss')
  case Nil
  then show ?case by simp
next
  case (Cons s rest)
  let ?w = "stage_worker inventory (spe_stage s)" and ?e = "psr_stages q ! index"
  obtain s' score' rest' where
    step: "scoreStage inventory profile plan q index score s = Inr (s', score')" and
    more: "scoreStages inventory profile plan q (Suc index) score' rest = Inr (rest', final)" and
    ss': "ss' = s' # rest'"
    using Cons.prems(1) by (auto simp: and_then_Inr)
  obtain compute transfer where
    c: "scoreStageCompute profile (ep_model plan) ?w (spe_stage s) q ?e = Inr compute" and
    t: "scoreStageTransfer profile ?w q ?e = Inr transfer" and
    m: "mergeStageScore score ?w (spe_selectedCandidate s) ?e compute transfer = Inr score'" and
    s': "s' = s\<lparr>spe_compute := compute, spe_transfer := transfer\<rparr>"
    using step by (auto simp: scoreStage_def Let_def and_then_Inr)
  note merged = mergeStageScore_value [OF m]
  from Cons.IH [OF more merged(3)]
  show ?case
    using merged scoreStageCompute_value [OF c] scoreStageTransfer_value [OF t] by (simp add: ss' s')
qed

section \<open>What a scored plan says\<close>

lemma checkWorkerIDs_Inr:
  "checkWorkerIDs index seen ws = Inr () \<longleftrightarrow>
     distinct (map wk_ID ws) \<and> set (map wk_ID ws) \<inter> set seen = {}"
  by (induction index seen ws rule: checkWorkerIDs.induct) auto

lemma workersByID_iff:
  assumes "distinct (map wk_ID (inv_workers inventory))"
  shows "workersByID inventory i = Some w \<longleftrightarrow> w \<in> set (inv_workers inventory) \<and> wk_ID w = i"
proof -
  have d: "distinct (map fst (rev (map (\<lambda>w. (wk_ID w, w)) (inv_workers inventory))))"
    using assms by (simp add: rev_map [symmetric] comp_def)
  show ?thesis unfolding workersByID_def map_of_eq_Some_iff [OF d] by auto
qed

text \<open>The stages of a scored plan, before and after scoring.\<close>

lemma scorePlan_run:
  assumes "scorePlan dg inventory profile plan q0 = Inr ev"
  obtains stages where
    "validateScoringInputs dg inventory profile plan (normalizeScoringRequest q0) = Inr ()"
    "collect (selectStage inventory plan (normalizeScoringRequest q0)) (indexed (ep_stages plan)) = Inr stages"
    "pe_request ev = normalizeScoringRequest q0" "pe_plan ev = plan"
    "pe_eligible ev = list_all (\<lambda>s. cd_eligible (spe_selectedCandidate s)) stages"
    "\<not> pe_eligible ev \<Longrightarrow> pe_score ev = zeroScore (int (length (ep_stages plan)))"
    "pe_eligible ev \<Longrightarrow> scoreStages inventory profile plan (normalizeScoringRequest q0) 0
       (zeroScore (int (length (ep_stages plan)))) stages = Inr (pe_stages ev, pe_score ev)"
proof -
  let ?q = "normalizeScoringRequest q0"
  obtain u stages where v: "validateScoringInputs dg inventory profile plan ?q = Inr u"
    and c: "collect (selectStage inventory plan ?q) (indexed (ep_stages plan)) = Inr stages"
    using assms by (auto simp: scorePlan_def Let_def and_then_Inr)
  have v: "validateScoringInputs dg inventory profile plan ?q = Inr ()" using v by (cases u) simp
  show ?thesis
    by (rule that [OF v c]) (use assms v c in \<open>auto simp: scorePlan_def Let_def and_then_Inr split: if_splits\<close>)
qed

lemma validateScoringInputs_facts:
  assumes "validateScoringInputs dg inventory profile plan q = Inr ()"
  shows "validateExecutionPlan dg plan = Inr ()" "distinct (map wk_ID (inv_workers inventory))"
    "length (psr_stages q) = length (ep_stages plan)" "validateProfileSnapshot profile = Inr ()"
    "ep_inventoryRevision plan = decimal_nat (unat (inv_revision inventory))"
proof -
  note run = assms [unfolded validateScoringInputs_def and_then_Inr guard_Inr map_error_Inr]
  show "validateExecutionPlan dg plan = Inr ()" using run by auto
  show "length (psr_stages q) = length (ep_stages plan)" using run by auto
  show "ep_inventoryRevision plan = decimal_nat (unat (inv_revision inventory))" using run by auto
  have "validateScoringSnapshots inventory profile = Inr ()" using run by auto
  note run = this [unfolded validateScoringSnapshots_def and_then_Inr guard_Inr checkWorkerIDs_Inr]
  show "distinct (map wk_ID (inv_workers inventory))" using run by (auto simp: checkWorkerIDs_Inr)
  show "validateProfileSnapshot profile = Inr ()" using run by auto
qed

abbreviation stage_demand ::
  "execution_plan \<Rightarrow> plan_scoring_request \<Rightarrow> nat \<Rightarrow> stage_requirement" where
  "stage_demand plan q i \<equiv> planRequirement plan q (ep_stages plan ! i) (psr_stages q ! i)"

lemma selectStage_value:
  assumes "selectStage inventory plan q (i, stage) = Inr s"
    and "distinct (map wk_ID (inv_workers inventory))"
  shows "spe_stage s = stage \<and>
    (\<exists>w. workersByID inventory (es_targetID stage) = Some w \<and>
      cd_eligible (spe_selectedCandidate s) = admissible inventory (planRequirement plan q stage (psr_stages q ! i)) w \<and>
      unat (cd_requiredAdditionalMemoryBytes (spe_selectedCandidate s)) =
        needed_memory (trimRequirement (planRequirement plan q stage (psr_stages q ! i))) w)"
proof -
  obtain ev c where ev: "evaluateCandidates inventory (planRequirement plan q stage (psr_stages q ! i)) = Inr ev"
    and c: "findCandidate (ev_candidates ev) (es_targetID stage) = Some c"
    and s: "spe_stage s = stage" "spe_selectedCandidate s = c"
    using assms(1) by (auto simp: selectStage_def and_then_Inr split: option.splits)
  have "c \<in> set (ev_candidates ev)" "cd_workerID c = es_targetID stage"
    using find_SomeD [OF c [unfolded findCandidate_def]] by auto
  from candidate_found [OF ev this(1)] this(2) s show ?thesis
    using workersByID_iff [OF assms(2)] by auto
qed

lemma scored_stages:
  assumes "collect (selectStage inventory plan q) (indexed (ep_stages plan)) = Inr stages"
    and "distinct (map wk_ID (inv_workers inventory))" and "i < length (ep_stages plan)"
  shows "length stages = length (ep_stages plan)" "spe_stage (stages ! i) = ep_stages plan ! i"
    "workersByID inventory (es_targetID (ep_stages plan ! i)) \<noteq> None"
    "cd_eligible (spe_selectedCandidate (stages ! i)) =
       admissible inventory (stage_demand plan q i) (stage_worker inventory (ep_stages plan ! i))"
    "unat (cd_requiredAdditionalMemoryBytes (spe_selectedCandidate (stages ! i))) =
       needed_memory (trimRequirement (stage_demand plan q i)) (stage_worker inventory (ep_stages plan ! i))"
proof -
  have l: "list_all2 (\<lambda>x s. selectStage inventory plan q x = Inr s) (indexed (ep_stages plan)) stages"
    using assms(1) by (simp only: collect_Inr)
  show len: "length stages = length (ep_stages plan)" using list_all2_lengthD [OF l] by simp
  have "selectStage inventory plan q (i, ep_stages plan ! i) = Inr (stages ! i)"
    using list_all2_nthD2 [OF l, of i] assms(3) len by simp
  from selectStage_value [OF this assms(2)]
  show "spe_stage (stages ! i) = ep_stages plan ! i"
    "workersByID inventory (es_targetID (ep_stages plan ! i)) \<noteq> None"
    "cd_eligible (spe_selectedCandidate (stages ! i)) =
       admissible inventory (stage_demand plan q i) (stage_worker inventory (ep_stages plan ! i))"
    "unat (cd_requiredAdditionalMemoryBytes (spe_selectedCandidate (stages ! i))) =
       needed_memory (trimRequirement (stage_demand plan q i)) (stage_worker inventory (ep_stages plan ! i))"
    by auto
qed

lemma plan_eligible_value:
  assumes "scorePlan dg inventory profile plan q0 = Inr ev"
  shows "pe_eligible ev \<longleftrightarrow> (\<forall>i < length (ep_stages plan).
    admissible inventory (stage_demand plan (pe_request ev) i) (stage_worker inventory (ep_stages plan ! i)))"
  using assms
proof (rule scorePlan_run)
  fix stages
  assume v: "validateScoringInputs dg inventory profile plan (normalizeScoringRequest q0) = Inr ()"
    and c: "collect (selectStage inventory plan (normalizeScoringRequest q0)) (indexed (ep_stages plan)) = Inr stages"
    and r: "pe_request ev = normalizeScoringRequest q0"
    and e: "pe_eligible ev = list_all (\<lambda>s. cd_eligible (spe_selectedCandidate s)) stages"
  note d = validateScoringInputs_facts(2) [OF v]
  have len: "length stages = length (ep_stages plan)"
    using c list_all2_lengthD by (fastforce simp: collect_Inr)
  show ?thesis
    unfolding e r list_all_length len using scored_stages(4) [OF c d] by auto
qed

lemma plan_score_value:
  assumes "scorePlan dg inventory profile plan q0 = Inr ev" and "pe_eligible ev"
  shows "unat (sco_computeMicros (pe_score ev)) = (\<Sum>i < length (ep_stages plan).
      compute_micros profile (ep_model plan) (pe_request ev) (stage_worker inventory (ep_stages plan ! i))
        (ep_stages plan ! i) (psr_stages (pe_request ev) ! i))"
    "unat (sco_transferMicros (pe_score ev)) = (\<Sum>i < length (ep_stages plan).
      transfer_micros profile (pe_request ev) (stage_worker inventory (ep_stages plan ! i))
        (psr_stages (pe_request ev) ! i))"
    "unat (sco_estimatedMicros (pe_score ev)) =
      unat (sco_computeMicros (pe_score ev)) + unat (sco_transferMicros (pe_score ev))"
    "unat (sco_requiredAdditionalMemoryBytes (pe_score ev)) = (\<Sum>i < length (ep_stages plan).
      needed_memory (trimRequirement (stage_demand plan (pe_request ev) i)) (stage_worker inventory (ep_stages plan ! i)))"
    "sco_stageCount (pe_score ev) = int (length (ep_stages plan))"
proof -
  obtain stages where
    v: "validateScoringInputs dg inventory profile plan (normalizeScoringRequest q0) = Inr ()"
    and c: "collect (selectStage inventory plan (normalizeScoringRequest q0)) (indexed (ep_stages plan)) = Inr stages"
    and r: "pe_request ev = normalizeScoringRequest q0"
    and run: "scoreStages inventory profile plan (normalizeScoringRequest q0) 0
       (zeroScore (int (length (ep_stages plan)))) stages = Inr (pe_stages ev, pe_score ev)"
    using assms by (elim scorePlan_run) blast
  note d = validateScoringInputs_facts(2) [OF v]
  have len: "length stages = length (ep_stages plan)"
    using c list_all2_lengthD by (fastforce simp: collect_Inr)
  have stage: "spe_stage (stages ! i) = ep_stages plan ! i" if "i < length (ep_stages plan)" for i
    by (rule scored_stages(2) [OF c d that])
  have memory: "unat (cd_requiredAdditionalMemoryBytes (spe_selectedCandidate (stages ! i))) =
      needed_memory (trimRequirement (stage_demand plan (pe_request ev) i)) (stage_worker inventory (ep_stages plan ! i))"
    if "i < length (ep_stages plan)" for i
    unfolding r by (rule scored_stages(5) [OF c d that])
  note exact = scoreStages_value [OF run, unfolded stage_sum_eq len]
  have zero: "unat (sco_estimatedMicros (zeroScore n)) =
      unat (sco_computeMicros (zeroScore n)) + unat (sco_transferMicros (zeroScore n))" for n
    by (simp add: zeroScore_def)
  note exact = exact [OF zero, folded r]
  show "unat (sco_computeMicros (pe_score ev)) = (\<Sum>i < length (ep_stages plan).
      compute_micros profile (ep_model plan) (pe_request ev) (stage_worker inventory (ep_stages plan ! i))
        (ep_stages plan ! i) (psr_stages (pe_request ev) ! i))"
    using exact stage by (simp add: zeroScore_def)
  show "unat (sco_transferMicros (pe_score ev)) = (\<Sum>i < length (ep_stages plan).
      transfer_micros profile (pe_request ev) (stage_worker inventory (ep_stages plan ! i))
        (psr_stages (pe_request ev) ! i))"
    using exact stage by (simp add: zeroScore_def)
  show "unat (sco_estimatedMicros (pe_score ev)) =
      unat (sco_computeMicros (pe_score ev)) + unat (sco_transferMicros (pe_score ev))"
    using exact by blast
  show "unat (sco_requiredAdditionalMemoryBytes (pe_score ev)) = (\<Sum>i < length (ep_stages plan).
      needed_memory (trimRequirement (stage_demand plan (pe_request ev) i)) (stage_worker inventory (ep_stages plan ! i)))"
    using exact memory by (simp add: zeroScore_def)
  show "sco_stageCount (pe_score ev) = int (length (ep_stages plan))"
    using exact by (simp add: zeroScore_def)
qed

section \<open>Snapshots of the evidence store\<close>

lemma validateItems_Inr:
  "validateItems wrap check key index seen ps = Inr () \<longleftrightarrow>
     (\<forall>p \<in> set ps. check p = Inr ()) \<and> distinct (map key ps) \<and> set (map key ps) \<inter> set seen = {}"
  by (induction wrap check key index seen ps rule: validateItems.induct)
     (auto simp: and_then_Inr)

lemma labels_valid: "(\<forall>s \<in> set labels. label_ok s) \<Longrightarrow> validateSnapshotLabels labels = Inr ()"
  by (auto simp: validateSnapshotLabels_def list_ex_iff label_ok_def)

lemma summary_valid:
  assumes "vs \<noteq> []" and "int (length vs) \<le> limit" and "\<And>v. v \<in> set vs \<Longrightarrow> v \<noteq> 0"
  shows "validateDistribution (summarizeValues vs) allowEmpty limit = Inr ()"
proof -
  have "vd_count (summarizeValues vs) = int (length vs)"
    using assms(1) by (simp add: summarizeValues_def Let_def)
  moreover have "vd_min (summarizeValues vs) \<noteq> 0"
    using summary_extremes [OF assms(1)] assms(1,3) Min_in [of "set vs"] by auto
  ultimately show ?thesis
    using summary_ordered [OF assms(1)] assms(1,2) by (auto simp: validateDistribution_def not_less)
qed

lemma empty_summary_valid: "validateDistribution (summarizeValues []) True limit = Inr ()"
  by (simp add: validateDistribution_def summarizeValues_def emptyDistribution_def)

lemma linkProfileKey_summary [simp]: "linkProfileKey (summarizeLink k xs) = k"
  by (simp add: linkProfileKey_def summarizeLink_def)

lemma computeProfileKey_summary [simp]: "computeProfileKey (summarizeCompute k xs) = k"
  by (simp add: computeProfileKey_def summarizeCompute_def)

lemma series_of_good:
  assumes "table_ok cmp good key_ok limit al" and "series_of al k \<noteq> []"
  shows "key_ok k" "int (length (series_of al k)) \<le> limit" "\<forall>x \<in> set (series_of al k). good x"
  using assms by (auto simp: series_of_def table_ok_def series_ok_def split: option.splits dest!: map_of_SomeD)

text \<open>A transfer that ran below one byte per second: its throughput rounds down to zero.\<close>

definition slow_transfer :: "link_sample \<Rightarrow> bool" where
  "slow_transfer x \<longleftrightarrow> 0 < ls_payloadBytes x \<and> unat (ls_payloadBytes x) * 1000000 < unat (ls_elapsedMicros x)"

lemma slow_transfer_throughput:
  assumes "link_sample_ok t x" "0 < ls_payloadBytes x"
  shows "bytesPerSecond (ls_payloadBytes x) (ls_elapsedMicros x) = 0 \<longleftrightarrow> slow_transfer x"
proof -
  have elapsed: "ls_elapsedMicros x \<noteq> 0" using assms by (auto simp: link_sample_ok_def)
  then have "0 < unat (ls_elapsedMicros x)" by (simp add: unat_gt_0)
  then have "unat (ls_payloadBytes x) * 1000000 div unat (ls_elapsedMicros x) = 0 \<longleftrightarrow>
      unat (ls_payloadBytes x) * 1000000 < unat (ls_elapsedMicros x)"
    by (simp add: div_eq_0_iff)
  then show ?thesis
    using bytesPerSecond_value [OF elapsed, of "ls_payloadBytes x"] assms(2)
    by (simp add: slow_transfer_def u64_eq_iff min_def split: if_splits)
qed

lemma link_summary_valid:
  assumes inv: "store_inv store" and visible: "\<forall>x \<in> set xs. \<not> slow_transfer x"
    and s: "profileSnapshot at store = (store', Inr s)"
    and xs: "xs = fresh_links at store k" "xs \<noteq> []"
  shows "validateLink s (at - pf_maxAge store) (summarizeLink k xs) = Inr ()"
proof -
  let ?all = "series_of (pf_links store) k"
  have sub: "set xs \<subseteq> set ?all" "length xs \<le> length ?all" using xs(1) by (auto simp: fresh_links_def)
  have "?all \<noteq> []" using sub xs(2) by auto
  note good = series_of_good [OF _ this]
  have table: "table_ok compareLinkSamples (link_sample_ok (pf_latestAcceptedAt store)) link_key_ok
      (pf_maxSamplesPerSeries store) (pf_links store)"
    using inv by (simp add: store_inv_def)
  note good = good [OF table]
  have len: "int (length xs) \<le> pf_maxSamplesPerSeries store" using sub(2) good(2) by linarith
  note fields = snapshot_fields [OF s]
  have ok: "link_sample_ok (pf_latestAcceptedAt store) x" if "x \<in> set xs" for x using good(3) sub(1) that by blast
  have rtt: "validateDistribution (lp_rttMicros (summarizeLink k xs)) False (pf_maxSamplesPerSeries store) = Inr ()"
    unfolding summarizeLink_def link_profile.select_convs
    by (rule summary_valid) (use xs(2) len ok in \<open>auto simp: link_sample_ok_def\<close>)
  let ?ts = "map (\<lambda>x. bytesPerSecond (ls_payloadBytes x) (ls_elapsedMicros x)) (filter (\<lambda>x. 0 < ls_payloadBytes x) xs)"
  have bandwidth: "validateDistribution (lp_effectiveBytesPerSecond (summarizeLink k xs)) True
      (pf_maxSamplesPerSeries store) = Inr ()"
  proof (cases "?ts = []")
    case True
    then show ?thesis
      unfolding summarizeLink_def link_profile.select_convs by (simp only: empty_summary_valid)
  next
    case False
    have "int (length ?ts) \<le> int (length xs)" by (simp only: length_map of_nat_le_iff length_filter_le)
    then have "int (length ?ts) \<le> pf_maxSamplesPerSeries store" using len by linarith
    moreover have "v \<noteq> 0" if "v \<in> set ?ts" for v
    proof -
      obtain x where x: "x \<in> set xs" "0 < ls_payloadBytes x"
        "v = bytesPerSecond (ls_payloadBytes x) (ls_elapsedMicros x)" using \<open>v \<in> set ?ts\<close> by auto
      then show ?thesis using visible slow_transfer_throughput [OF ok [OF x(1)] x(2)] by simp
    qed
    ultimately show ?thesis
      unfolding summarizeLink_def link_profile.select_convs using False by (intro summary_valid)
  qed
  have "validateSnapshotLabels [lk_sourceID k, lk_sourceInstanceID k, lk_targetID k, lk_targetInstanceID k,
      lk_protocol k, lk_tensorEncoding k] = Inr ()" "lk_sourceID k \<noteq> lk_targetID k"
    using good(1) by (auto simp: link_key_ok_def intro!: labels_valid)
  moreover note link_latest [OF xs]
  ultimately show ?thesis using rtt bandwidth fields
    by (simp add: validateLink_def) (simp add: summarizeLink_def)
qed

lemma compute_summary_valid:
  assumes inv: "store_inv store" and s: "profileSnapshot at store = (store', Inr s)"
    and xs: "xs = fresh_compute at store k" "xs \<noteq> []"
  shows "validateComputeItem s (at - pf_maxAge store) (summarizeCompute k xs) = Inr ()"
proof -
  let ?all = "series_of (pf_compute store) k"
  have sub: "set xs \<subseteq> set ?all" "length xs \<le> length ?all" using xs(1) by (auto simp: fresh_compute_def)
  have "?all \<noteq> []" using sub xs(2) by auto
  note good = series_of_good [OF _ this]
  have table: "table_ok compareComputeSamples (compute_sample_ok (pf_latestAcceptedAt store)) compute_key_ok
      (pf_maxSamplesPerSeries store) (pf_compute store)"
    using inv by (simp add: store_inv_def)
  note good = good [OF table]
  have len: "int (length xs) \<le> pf_maxSamplesPerSeries store" using sub(2) good(2) by linarith
  note fields = snapshot_fields [OF s]
  have ok: "compute_sample_ok (pf_latestAcceptedAt store) x" if "x \<in> set xs" for x using good(3) sub(1) that by blast
  have dists: "validateDistribution (cp_inputTokenCount (summarizeCompute k xs)) False (pf_maxSamplesPerSeries store) = Inr ()"
    "validateDistribution (cp_computeMicros (summarizeCompute k xs)) False (pf_maxSamplesPerSeries store) = Inr ()"
    unfolding summarizeCompute_def compute_profile.select_convs
    by (rule summary_valid, use xs(2) len ok in \<open>auto simp: compute_sample_ok_def\<close>)+
  have "validateSnapshotLabels [ck_workerID k, ck_workerInstanceID k, ck_backend k, ck_modelID k,
      ck_fingerprint k, ck_operation k] = Inr ()"
    "0 \<le> ck_layerStart k" "ck_layerStart k < ck_layerEnd k" "ck_layerEnd k \<le> ck_layerCount k"
    using good(1) by (auto simp: compute_key_ok_def intro!: labels_valid)
  moreover note compute_latest [OF xs]
  ultimately show ?thesis using dists fields
    by (simp add: validateComputeItem_def) (simp add: summarizeCompute_def)
qed

lemma snapshot_keys:
  assumes inv: "store_inv store" and s: "profileSnapshot at store = (store', Inr s)"
  shows "distinct (map linkProfileKey (ps_links s))" "distinct (map computeProfileKey (ps_compute s))"
    "int (length (ps_links s)) + int (length (ps_compute s)) \<le> pf_maxSeries store"
proof -
  have keys: "distinct (map fst (pf_links store))" "distinct (map fst (pf_compute store))"
    "seriesCountLocked store \<le> pf_maxSeries store"
    using inv by (simp_all add: store_inv_def table_ok_def)
  have d: "distinct (map fst (filter P (map (\<lambda>e. (fst e, f (snd e))) al)))" if "distinct (map fst al)"
    for P and f :: "'y \<Rightarrow> 'z" and al :: "('x \<times> 'y) list"
    using that by (intro distinct_map_filter) (simp add: comp_def)
  have l: "length (filter P (map (\<lambda>e. (fst e, f (snd e))) al)) \<le> length al"
    for P and f :: "'y \<Rightarrow> 'z" and al :: "('x \<times> 'y) list"
    using length_filter_le [of P "map (\<lambda>e. (fst e, f (snd e))) al"] by simp
  show "distinct (map linkProfileKey (ps_links s))"
    using s d [OF keys(1)] by (auto simp: profileSnapshot_def Let_def comp_def split: if_splits)
  show "distinct (map computeProfileKey (ps_compute s))"
    using s d [OF keys(2)] by (auto simp: profileSnapshot_def Let_def comp_def split: if_splits)
  have "length (ps_links s) \<le> length (pf_links store)" "length (ps_compute s) \<le> length (pf_compute store)"
    using s l by (auto simp: profileSnapshot_def Let_def split: if_splits)
  then show "int (length (ps_links s)) + int (length (ps_compute s)) \<le> pf_maxSeries store"
    using keys(3) by (simp add: seriesCountLocked_def)
qed

lemma snapshot_valid:
  assumes inv: "store_inv store" and visible: "\<forall>k. \<forall>x \<in> set (fresh_links at store k). \<not> slow_transfer x"
    and s: "profileSnapshot at store = (store', Inr s)"
  shows "validateProfileSnapshot s = Inr ()"
proof -
  note fields = snapshot_fields [OF s]
  have age: "millisecond \<le> pf_maxAge store" "pf_maxAge store \<le> max_duration" "pf_maxAge store mod millisecond = 0"
    "0 < pf_maxSamplesPerSeries store" "0 < pf_maxSeries store"
    using inv by (simp_all add: store_inv_def)
  have millis: "ps_maxAgeMillis s = pf_maxAge store div millisecond"
    using fields(5) age(1) by (simp add: milliseconds_nonneg duration_defs)
  have pos: "0 < ps_maxAgeMillis s" "ps_maxAgeMillis s \<le> maxDurationMillis"
    using age(1,2) unfolding millis maxDurationMillis_def
    by (simp_all add: duration_defs pos_imp_zdiv_pos_iff zdiv_mono1)
  have cutoff: "at - ps_maxAgeMillis s * millisecond = at - pf_maxAge store"
    using age(3) fields(2) by (simp add: millis minus_mod_eq_div_mult [symmetric])
  have links: "\<forall>p \<in> set (ps_links s). validateLink s (at - pf_maxAge store) p = Inr ()"
    using snapshot_links [OF inv s] link_summary_valid [OF inv _ s] visible by auto
  have compute: "\<forall>p \<in> set (ps_compute s). validateComputeItem s (at - pf_maxAge store) p = Inr ()"
    using snapshot_compute [OF inv s] compute_summary_valid [OF inv s] by auto
  have "validateItems SnapshotLink (validateLink s (at - pf_maxAge store)) linkProfileKey 0 [] (ps_links s) = Inr ()"
    "validateItems SnapshotCompute (validateComputeItem s (at - pf_maxAge store)) computeProfileKey 0 [] (ps_compute s) = Inr ()"
    using links compute snapshot_keys(1,2) [OF inv s] by (simp_all add: validateItems_Inr)
  then show ?thesis
    using pos fields(2,3,6,7) age(4,5) snapshot_keys(3) [OF inv s]
    by (simp add: validateProfileSnapshot_def Let_def cutoff)
qed

text \<open>A covered transfer that is slow makes the minimum of its distribution zero.\<close>

lemma zero_in_summary:
  assumes "0 \<in> set ts"
  shows "validateDistribution (summarizeValues ts) b n \<noteq> Inr ()"
proof -
  have ne: "ts \<noteq> []" using assms by auto
  then have "vd_count (summarizeValues ts) \<noteq> 0" by (simp add: summarizeValues_def Let_def)
  moreover have "Min (set ts) = 0" using assms Min_le [of "set ts" 0] by simp
  ultimately show ?thesis using summary_extremes [OF ne] by (simp add: validateDistribution_def)
qed

lemma slow_link_invalid:
  assumes inv: "store_inv store" and x: "x \<in> set (fresh_links at store k)" "slow_transfer x"
  shows "validateLink profile cutoff (summarizeLink k (fresh_links at store k)) \<noteq> Inr ()"
proof -
  have all: "x \<in> set (series_of (pf_links store) k)" using x(1) by (simp add: fresh_links_def)
  have "table_ok compareLinkSamples (link_sample_ok (pf_latestAcceptedAt store)) link_key_ok
      (pf_maxSamplesPerSeries store) (pf_links store)"
    using inv by (simp add: store_inv_def)
  from series_of_good(3) [OF this] all have "link_sample_ok (pf_latestAcceptedAt store) x"
    by (metis empty_iff list.set(1))
  from slow_transfer_throughput [OF this] x(2)
  have zero: "bytesPerSecond (ls_payloadBytes x) (ls_elapsedMicros x) = 0" by (simp add: slow_transfer_def)
  define ts where "ts = map (\<lambda>x. bytesPerSecond (ls_payloadBytes x) (ls_elapsedMicros x))
    (filter (\<lambda>x. 0 < ls_payloadBytes x) (fresh_links at store k))"
  have "bytesPerSecond (ls_payloadBytes x) (ls_elapsedMicros x) \<in> set ts"
    unfolding ts_def set_map set_filter using x by (intro imageI) (simp add: slow_transfer_def)
  then have "validateDistribution (summarizeValues ts) b n \<noteq> Inr ()" for b n
    using zero_in_summary zero by metis
  moreover have "lp_effectiveBytesPerSecond (summarizeLink k (fresh_links at store k)) = summarizeValues ts"
    by (simp only: summarizeLink_def link_profile.select_convs ts_def)
  ultimately show ?thesis by (simp add: validateLink_def and_then_Inr)
qed

lemma snapshot_valid_iff:
  assumes inv: "store_inv store" and s: "profileSnapshot at store = (store', Inr s)"
  shows "validateProfileSnapshot s = Inr () \<longleftrightarrow> (\<forall>k. \<forall>x \<in> set (fresh_links at store k). \<not> slow_transfer x)"
proof
  assume valid: "validateProfileSnapshot s = Inr ()"
  show "\<forall>k. \<forall>x \<in> set (fresh_links at store k). \<not> slow_transfer x"
  proof (intro allI ballI notI)
    fix k x
    assume x: "x \<in> set (fresh_links at store k)" "slow_transfer x"
    then have "summarizeLink k (fresh_links at store k) \<in> set (ps_links s)"
      using snapshot_links [OF inv s] by (auto intro!: exI [of _ k])
    moreover have "\<exists>cutoff. \<forall>p \<in> set (ps_links s). validateLink s cutoff p = Inr ()"
      using valid by (auto simp: validateProfileSnapshot_def Let_def and_then_Inr validateItems_Inr split: if_splits)
    ultimately show False using slow_link_invalid [OF inv x] by blast
  qed
qed (rule snapshot_valid [OF inv _ s])

section \<open>A concrete scored plan\<close>

definition demo_scored_plan :: execution_plan where
  "demo_scored_plan = \<lparr>ep_schemaVersion = ''2'', ep_revision = ''7+gemma'', ep_inventoryRevision = ''7'',
     ep_model = demo_model,
     ep_stages =
       [\<lparr>es_name = ''stage-0'', es_targetID = ''b'', es_shardID = ''generate-shard-0-5-f10123456789'',
         es_layerStart = 0, es_layerEnd = 5, es_ownsInput = True, es_ownsOutput = True,
         es_responseMode = ''sampledToken''\<rparr>]\<rparr>"

definition demo_costs :: stage_cost_estimate where
  "demo_costs = \<lparr>sce_loadMemoryBytes = 20, sce_sequenceMemoryBytes = 4, sce_prefillWireBytes = 1000,
     sce_decodeWireBytesPerStep = 100, sce_fallbackPrefillComputeMicros = 50,
     sce_fallbackDecodeComputeMicrosPerStep = 5\<rparr>"

definition demo_scoring :: plan_scoring_request where
  "demo_scoring = \<lparr>psr_adapter = ''qwen'', psr_transport = demo_transport, psr_coordinatorID = ''c'',
     psr_coordinatorInstanceID = ''c-1'', psr_statusMaxAgeMillis = 0, psr_prefillInputTokens = 10,
     psr_decodeSteps = 3, psr_fallbackRTTMicros = 2, psr_fallbackBytesPerSecond = 1000000,
     psr_stages = [demo_costs]\<rparr>"

definition demo_snapshot :: profile_snapshot where
  "demo_snapshot = \<lparr>ps_schemaVersion = 1, ps_revision = 0, ps_generatedAt = 3000, ps_maxAgeMillis = 300000,
     ps_maxSamplesPerSeries = 64, ps_maxSeries = 4096, ps_links = [], ps_compute = []\<rparr>"

lemma demo_scoring_normal: "normalizeScoringRequest demo_scoring = demo_scoring"
  by (simp add: normalizeScoringRequest_def demo_scoring_def demo_transport_def trim_space_eval visible_eval)

lemma demo_scoring_valid:
  "validateScoringInputs demo_digests demo_inventory demo_snapshot demo_scored_plan demo_scoring = Inr ()"
proof -
  have plan: "validateExecutionPlan demo_digests demo_scored_plan = Inr ()" by code_simp
  have snapshots: "validateScoringSnapshots demo_inventory demo_snapshot = Inr ()"
    by (simp add: validateScoringSnapshots_def validateProfileSnapshot_def demo_inventory_def demo_snapshot_def
        registrySchemaVersion_def placementSchemaVersion_def maxDurationMillis_def duration_defs
        ready_worker_def demo_worker_def Let_def)
  have request: "validateScoringContext demo_scoring = Inr ()"
    by (simp add: validateScoringContext_def demo_scoring_def demo_transport_def)
  have cost: "validateStageCostEstimate demo_costs 3 = Inr ()" by code_simp
  have revision: "ep_inventoryRevision demo_scored_plan = decimal_nat (unat (inv_revision demo_inventory))"
    unfolding demo_scored_plan_def demo_inventory_def by code_simp
  show ?thesis
    by (simp add: validateScoringInputs_def plan snapshots request revision)
       (simp add: demo_scoring_def demo_scored_plan_def indexed_def cost)
qed


text \<open>A stage can be selected when its requirement is well formed and its target is a member.\<close>

lemma selectStage_total:
  assumes "requirement_ok inventory (trimRequirement (planRequirement plan q stage (psr_stages q ! i)))"
    and "w \<in> set (inv_workers inventory)" and "wk_ID w = es_targetID stage"
  shows "\<exists>s. selectStage inventory plan q (i, stage) = Inr s"
proof -
  let ?req = "planRequirement plan q stage (psr_stages q ! i)"
  obtain ev where ev: "evaluateCandidates inventory ?req = Inr ev"
    using assms(1) validateInputs_iff [of inventory "trimRequirement ?req"]
    by (auto simp: is_ok_iff evaluateCandidates_def Let_def and_then_Inr)
  obtain c where "c \<in> set (ev_candidates ev)" "cd_workerID c = es_targetID stage"
    using candidate_exists [OF ev assms(2)] assms(3) by auto
  then have "findCandidate (ev_candidates ev) (es_targetID stage) \<noteq> None"
    by (auto simp: findCandidate_def find_None_iff)
  with ev show ?thesis by (auto simp: selectStage_def)
qed

lemma demo_required:
  "planRequirement demo_scored_plan demo_scoring (hd (ep_stages demo_scored_plan)) demo_costs =
     (demo_requirement ''qwen'')\<lparr>sq_shardID := ''generate-shard-0-5-f10123456789'', sq_layerEnd := 5, sq_ownsOutput := True\<rparr>"
  by (simp add: planRequirement_def demo_scored_plan_def demo_scoring_def demo_costs_def demo_requirement_def)

lemma demo_required_trim:
  "trimRequirement (planRequirement demo_scored_plan demo_scoring (hd (ep_stages demo_scored_plan)) demo_costs) =
   planRequirement demo_scored_plan demo_scoring (hd (ep_stages demo_scored_plan)) demo_costs"
  unfolding demo_required
  by (simp add: trimRequirement_def demo_requirement_def demo_transport_def trim_space_eval visible_eval)

lemma demo_admissible:
  "admissible demo_inventory (planRequirement demo_scored_plan demo_scoring (hd (ep_stages demo_scored_plan)) demo_costs)
     (ready_worker ''b'' 90)"
proof -
  have "filter (violated 3000 1000 (planRequirement demo_scored_plan demo_scoring
      (hd (ep_stages demo_scored_plan)) demo_costs) (ready_worker ''b'' 90)) all_codes = []"
    unfolding demo_required
    by (simp add: all_codes_def ready_worker_def demo_worker_def demo_requirement_def demo_model_def
        demo_capabilities_def demo_status_def demo_transport_def healthHealthy_def Let_def
        needed_operations_def needed_memory_def reusable_def compatibleRetainedShard_def
        advertisedTransport_def)
  moreover have "inv_generatedAt demo_inventory = 3000" "effective_age demo_inventory (planRequirement
      demo_scored_plan demo_scoring (hd (ep_stages demo_scored_plan)) demo_costs) = 1000"
    unfolding demo_required by (simp_all add: demo_inventory_def effective_age_def demo_requirement_def)
  ultimately show ?thesis
    unfolding admissible_def demo_required_trim by (simp add: filter_empty_conv set_all_codes)
qed

lemma demo_workers:
  "inv_workers demo_inventory = [ready_worker ''b'' 90, ready_worker ''a'' 8]" "wk_ID (ready_worker i m) = i"
  by (simp_all add: demo_inventory_def ready_worker_def demo_worker_def Let_def)

lemma demo_worker_b: "workersByID demo_inventory ''b'' = Some (ready_worker ''b'' 90)"
  by (simp add: workersByID_def demo_workers)

lemma demo_selected:
  obtains s where
    "selectStage demo_inventory demo_scored_plan demo_scoring (0, hd (ep_stages demo_scored_plan)) = Inr s"
    "spe_stage s = hd (ep_stages demo_scored_plan)" "cd_eligible (spe_selectedCandidate s)"
proof -
  have cost: "psr_stages demo_scoring ! 0 = demo_costs" by (simp add: demo_scoring_def)
  have target: "es_targetID (hd (ep_stages demo_scored_plan)) = ''b''" by (simp add: demo_scored_plan_def)
  have "requirement_ok demo_inventory (trimRequirement (planRequirement demo_scored_plan demo_scoring
      (hd (ep_stages demo_scored_plan)) (psr_stages demo_scoring ! 0)))"
    unfolding cost demo_required_trim unfolding demo_required
    by (simp add: requirement_ok_def demo_inventory_def demo_requirement_def demo_model_def demo_transport_def)
  from selectStage_total [OF this, of "ready_worker ''b'' 90"] obtain s where
    s: "selectStage demo_inventory demo_scored_plan demo_scoring (0, hd (ep_stages demo_scored_plan)) = Inr s"
    by (auto simp: demo_workers target)
  have "distinct (map wk_ID (inv_workers demo_inventory))" by (simp add: demo_workers)
  from selectStage_value [OF s this] show ?thesis
    using demo_admissible by (intro that [OF s]) (auto simp: cost target demo_worker_b)
qed

lemma checkedScoreAdd_zero [simp]: "checkedScoreAdd 0 x = Inr x"
  by (simp add: checkedScoreAdd_exact)

lemma demo_compute:
  "scoreStageCompute demo_snapshot demo_model w stage demo_scoring demo_costs =
     Inr \<lparr>scs_prefillMicros = 50, scs_decodeMicros = 15, scs_totalMicros = 65, scs_prefillProfiled = False,
       scs_decodeProfiled = False, scs_prefillProfile = None, scs_decodeProfile = None\<rparr>"
  by (simp add: scoreStageCompute_def demo_snapshot_def findComputeProfile_def estimateCompute_def
      demo_scoring_def demo_costs_def multiplyUint64_def mul64_def addUint64_def Let_def)

lemma demo_transfer:
  "scoreStageTransfer demo_snapshot w demo_scoring demo_costs =
     Inr \<lparr>sts_rttMicros = 2, sts_bytesPerSecond = 1000000, sts_prefillMicros = 1002, sts_decodeMicros = 306,
       sts_totalMicros = 1308, sts_rttProfiled = False, sts_bandwidthProfiled = False, sts_linkProfile = None\<rparr>"
proof -
  have "multiplyDivideCeil 1000 1000000 1000000 = Inr 1000" "multiplyDivideCeil 100 1000000 1000000 = Inr 100"
    by (simp_all add: multiplyDivideCeil_value ceil_div_def)
  then show ?thesis
    by (simp add: scoreStageTransfer_def demo_snapshot_def findLinkProfile_def demo_scoring_def demo_costs_def
        multiplyUint64_def mul64_def addUint64_def Let_def)
qed

lemma demo_merge:
  assumes "scoreStageCompute demo_snapshot demo_model w stage demo_scoring demo_costs = Inr compute"
    and "scoreStageTransfer demo_snapshot w demo_scoring demo_costs = Inr transfer"
  shows "\<exists>r. mergeStageScore (zeroScore n) (ready_worker ''b'' 90) c demo_costs compute transfer = Inr r"
proof -
  have w: "wk_status (ready_worker ''b'' 90) = demo_status 90"
    by (simp add: ready_worker_def demo_worker_def demo_registration_def Let_def)
  have sum: "checkedScoreAdd 65 1308 = Inr 1373" by (simp add: checkedScoreAdd_exact)
  show ?thesis
    using assms unfolding demo_compute demo_transfer
    by (auto simp: mergeStageScore_def zeroScore_def w demo_status_def sum Let_def)
qed

lemma demo_merged:
  "\<exists>r. scoreStages demo_inventory demo_snapshot demo_scored_plan demo_scoring 0 (zeroScore 1) [s] = Inr r"
  if "spe_stage s = hd (ep_stages demo_scored_plan)" for s
proof -
  have eqs: "es_targetID (hd (ep_stages demo_scored_plan)) = ''b''" "psr_stages demo_scoring ! 0 = demo_costs"
    "ep_model demo_scored_plan = demo_model"
    by (simp_all add: demo_scored_plan_def demo_scoring_def)
  show ?thesis
    using demo_merge [OF demo_compute demo_transfer, where n = 1 and c = "spe_selectedCandidate s"]
    by (auto simp: scoreStage_def that eqs demo_worker_b demo_compute demo_transfer Let_def)
qed

lemma demo_scored:
  "\<exists>ev. scorePlan demo_digests demo_inventory demo_snapshot demo_scored_plan demo_scoring = Inr ev \<and>
     pe_eligible ev \<and> pe_request ev = demo_scoring"
proof -
  obtain s where s: "selectStage demo_inventory demo_scored_plan demo_scoring (0, hd (ep_stages demo_scored_plan)) = Inr s"
    "spe_stage s = hd (ep_stages demo_scored_plan)" "cd_eligible (spe_selectedCandidate s)"
    by (rule demo_selected)
  have one: "ep_stages demo_scored_plan = [hd (ep_stages demo_scored_plan)]" by (simp add: demo_scored_plan_def)
  have "collect (selectStage demo_inventory demo_scored_plan demo_scoring) (indexed (ep_stages demo_scored_plan)) = Inr [s]"
    by (subst one) (simp add: indexed_def s(1))
  moreover note demo_merged [OF s(2)]
  ultimately show ?thesis
    using s(3) demo_scoring_valid
    by (subst scorePlan_def) (subst (2) one, auto simp: demo_scoring_normal Let_def)
qed

text \<open>An evaluation of a plan with a given estimate, and nothing else to prefer it for.\<close>

definition demo_evaluation :: "execution_plan \<Rightarrow> u64 \<Rightarrow> plan_evaluation" where
  "demo_evaluation plan micros =
     \<lparr>pe_schemaVersion = 1, pe_inventoryRevision = 7, pe_profileRevision = 0, pe_profileMaxAgeMillis = 300000,
      pe_generatedAt = 3000, pe_plan = plan, pe_request = demo_scoring, pe_eligible = True, pe_stages = [],
      pe_score = (zeroScore 1)\<lparr>sco_estimatedMicros := micros\<rparr>\<rparr>"

lemma demo_preferences:
  "comparePlanEvaluations (demo_evaluation demo_plan 4) (demo_evaluation demo_plan_moved 4) = - 1"
  "comparePlanEvaluations (demo_evaluation demo_plan_moved 4) (demo_evaluation demo_plan 9) = - 1"
  by code_simp+

text \<open>A link over which the observed transfer of one byte took three seconds.\<close>

definition slow_observation :: link_observation where
  "slow_observation = (demo_link_observation 2000 7)\<lparr>lo_payloadBytes := 1, lo_elapsedMicros := 3000000\<rparr>"

definition slow_store :: profile_store where
  "slow_store = demo_empty_store\<lparr>pf_revision := 1, pf_latestAcceptedAt := 3000,
     pf_links := [(demo_link_key, [\<lparr>ls_observedAt = 2000, ls_rttMicros = 7, ls_payloadBytes = 1, ls_elapsedMicros = 3000000\<rparr>])]\<rparr>"

lemma slow_observed: "observeLink 3000 slow_observation demo_empty_store = (slow_store, Inr ())"
proof -
  have "normalizeLinkObservation slow_observation = Inr (slow_observation, demo_link_key)"
    by (simp add: slow_observation_def normalizeLinkObservation_def demo_link_observation_def demo_link_key_def
        normalizeProfileLabel_def maxProfileLabelBytes_def trim_space_eval visible_eval)
  then show ?thesis
    by (simp add: observeLink_def validateObservationTimeLocked_def prune_eq keep_series_def slow_store_def
        demo_empty_store_def seriesCountLocked_def addLinkSample_def series_of_def sortLinkObservations_def
        retainNewest_def accept_eq Let_def) (simp add: slow_observation_def demo_link_observation_def)
qed

lemma slow_store_reachable: "store_reachable dg slow_store"
  using store_step [OF demo_empty_reachable, of dg "LinkOp 3000 slow_observation"] by (simp add: slow_observed)

section \<open>Properties\<close>

text \<open>
  the order in which \<open>ComparePlanEvaluations\<close> prefers plans is a total preorder, and
  two evaluations are tied only when they evaluate the same plan, so the best of a set of
  plans is unique.
\<close>

theorem plan_preference_total:
  "(0 < comparePlanEvaluations q p \<longleftrightarrow> comparePlanEvaluations p q < 0) \<and>
   (comparePlanEvaluations p q \<le> 0 \<and> comparePlanEvaluations q r \<le> 0 \<longrightarrow> comparePlanEvaluations p r \<le> 0) \<and>
   (comparePlanEvaluations p q = 0 \<longrightarrow> pe_plan p = pe_plan q)"
proof (intro conjI impI)
  show "0 < comparePlanEvaluations q p \<longleftrightarrow> comparePlanEvaluations p q < 0" by (rule plan_evaluations.cmp_swap)
  show "comparePlanEvaluations p r \<le> 0" if "comparePlanEvaluations p q \<le> 0 \<and> comparePlanEvaluations q r \<le> 0"
    using that by (auto intro: plan_evaluations.cmp_trans [of p q r])
  show "pe_plan p = pe_plan q" if "comparePlanEvaluations p q = 0"
    using that by (auto simp: comparePlanEvaluations_def comparePlanIdentity_zero split: if_splits)
qed

text \<open>
  \<open>ScorePlan\<close> marks a plan eligible exactly when the target of every stage satisfies
  every placement constraint of that stage.
\<close>

theorem plan_eligibility_exact:
  assumes "scorePlan dg inventory profile plan q0 = Inr ev"
  shows "pe_eligible ev \<longleftrightarrow> (\<forall>i < length (ep_stages plan).
    admissible inventory (planRequirement plan (pe_request ev) (ep_stages plan ! i) (psr_stages (pe_request ev) ! i))
      (the (workersByID inventory (es_targetID (ep_stages plan ! i)))))"
  using assms by (rule plan_eligible_value)

text \<open>
  C14: the score of an eligible plan is exact: it is the sum over the stages of the compute
  and transfer estimates and of the memory to allocate, over unbounded integers. The 64-bit
  arithmetic never wraps silently: an overflow is an error, not a small score.
\<close>

theorem plan_score_exact:
  assumes "scorePlan dg inventory profile plan q0 = Inr ev" and "pe_eligible ev"
  shows "unat (sco_estimatedMicros (pe_score ev)) = (\<Sum>i < length (ep_stages plan).
      compute_micros profile (ep_model plan) (pe_request ev)
        (the (workersByID inventory (es_targetID (ep_stages plan ! i)))) (ep_stages plan ! i)
        (psr_stages (pe_request ev) ! i) +
      transfer_micros profile (pe_request ev)
        (the (workersByID inventory (es_targetID (ep_stages plan ! i)))) (psr_stages (pe_request ev) ! i)) \<and>
    unat (sco_requiredAdditionalMemoryBytes (pe_score ev)) = (\<Sum>i < length (ep_stages plan).
      needed_memory (trimRequirement
          (planRequirement plan (pe_request ev) (ep_stages plan ! i) (psr_stages (pe_request ev) ! i)))
        (the (workersByID inventory (es_targetID (ep_stages plan ! i))))) \<and>
    sco_stageCount (pe_score ev) = int (length (ep_stages plan))"
  using plan_score_value [OF assms] by (simp add: sum.distrib)

text \<open>
  C33: a single slow transfer blocks scoring. A snapshot that the evidence store produces is
  accepted by the validation of \<open>ScorePlan\<close> exactly if no transfer it covers ran below one
  byte per second; as long as it covers one, which the store accepts like any other, \<open>ScorePlan\<close>
  fails on it, whatever the plan, the inventory and the request, because a throughput that
  rounds down to zero is taken for an inconsistent distribution.
\<close>

theorem slow_transfer_blocks_scoring:
  assumes "store_reachable dg store" "profileSnapshot at store = (store', Inr s)"
  shows "(validateProfileSnapshot s = Inr () \<longleftrightarrow> (\<forall>k. \<forall>x \<in> set (fresh_links at store k). \<not> slow_transfer x)) \<and>
    ((\<exists>k. \<exists>x \<in> set (fresh_links at store k). slow_transfer x) \<longrightarrow>
      (\<forall>dg inventory plan q. \<not> is_ok (scorePlan dg inventory s plan q)))"
proof -
  note valid = snapshot_valid_iff [OF store_reachable_inv [OF assms(1)] assms(2)]
  have "validateProfileSnapshot s = Inr ()" if ok: "is_ok (scorePlan dg inventory s plan q)" for dg inventory plan q
  proof -
    from ok obtain ev where "scorePlan dg inventory s plan q = Inr ev" by (auto simp: is_ok_iff)
    then show ?thesis by (rule scorePlan_run) (rule validateScoringInputs_facts(4))
  qed
  with valid show ?thesis by blast
qed

section \<open>The properties at concrete plans\<close>

theorem plan_preference_total_witness:
  "comparePlanEvaluations (demo_evaluation demo_plan 4) (demo_evaluation demo_plan 9) \<le> 0"
  using plan_preference_total [of "demo_evaluation demo_plan_moved 4" "demo_evaluation demo_plan 4"
      "demo_evaluation demo_plan 9"] demo_preferences
  by simp

theorem plan_eligibility_exact_witness:
  "\<exists>ev. scorePlan demo_digests demo_inventory demo_snapshot demo_scored_plan demo_scoring = Inr ev \<and>
     admissible demo_inventory (planRequirement demo_scored_plan demo_scoring
       (hd (ep_stages demo_scored_plan)) demo_costs) (ready_worker ''b'' 90)"
proof -
  obtain ev where ev: "scorePlan demo_digests demo_inventory demo_snapshot demo_scored_plan demo_scoring = Inr ev"
    "pe_eligible ev" "pe_request ev = demo_scoring" using demo_scored by blast
  have "length (ep_stages demo_scored_plan) = 1" "ep_stages demo_scored_plan ! 0 = hd (ep_stages demo_scored_plan)"
    "es_targetID (hd (ep_stages demo_scored_plan)) = ''b''" "psr_stages demo_scoring ! 0 = demo_costs"
    by (simp_all add: demo_scored_plan_def demo_scoring_def)
  then show ?thesis
    using plan_eligibility_exact [OF ev(1)] ev by (simp add: demo_worker_b)
qed

theorem plan_score_exact_witness:
  "\<exists>ev. scorePlan demo_digests demo_inventory demo_snapshot demo_scored_plan demo_scoring = Inr ev \<and>
     unat (sco_estimatedMicros (pe_score ev)) = 1373"
proof -
  obtain ev where ev: "scorePlan demo_digests demo_inventory demo_snapshot demo_scored_plan demo_scoring = Inr ev"
    "pe_eligible ev" "pe_request ev = demo_scoring" using demo_scored by blast
  have eqs: "length (ep_stages demo_scored_plan) = 1" "psr_stages demo_scoring ! 0 = demo_costs"
    "ep_model demo_scored_plan = demo_model"
    by (simp_all add: demo_scored_plan_def demo_scoring_def)
  have "compute_micros demo_snapshot demo_model demo_scoring w stage demo_costs = 65" for w stage
    using scoreStageCompute_value [OF demo_compute] by simp
  moreover have "transfer_micros demo_snapshot demo_scoring w demo_costs = 1308" for w
    using scoreStageTransfer_value [OF demo_transfer] by simp
  ultimately show ?thesis
    using conjunct1 [OF plan_score_exact [OF ev(1,2)]] ev(1) by (simp add: ev(3) eqs)
qed

theorem slow_transfer_blocks_scoring_witness:
  "\<exists>store s. observeLink 3000 slow_observation demo_empty_store = (slow_store, Inr ()) \<and>
     profileSnapshot 3000 slow_store = (store, Inr s) \<and> validateProfileSnapshot s \<noteq> Inr () \<and>
     \<not> is_ok (scorePlan demo_digests demo_inventory s demo_scored_plan demo_scoring)"
proof -
  have "is_ok (snd (profileSnapshot 3000 slow_store))"
    by (simp add: profileSnapshot_def slow_store_def demo_empty_store_def Let_def)
  then obtain store s where s: "profileSnapshot 3000 slow_store = (store, Inr s)"
    by (cases "profileSnapshot 3000 slow_store") (auto simp: is_ok_iff)
  have "\<exists>x \<in> set (fresh_links 3000 slow_store demo_link_key). slow_transfer x"
    by (simp add: fresh_links_def slow_store_def demo_empty_store_def series_of_def slow_transfer_def)
  with slow_transfer_blocks_scoring [OF slow_store_reachable [of demo_digests] s] s slow_observed show ?thesis by blast
qed

end
