(* ===== verification/Planner.thy ===== *)
theory Planner
  imports Prelude Execution_Plan Registry Eligibility Arithmetic Profile Scoring "HOL-Library.AList"
begin

text \<open>
  Construction of the best execution plan (\<open>internal/placement/planner.go\<close>): a dynamic
  program over layer boundaries and sets of used workers, bounded by a budget of search
  operations. The Go map of maps from layer boundary and worker-set key to partial plan is
  one association list with pairs as keys; every iteration of the source sorts its entries
  first, so the order of the list is never observed.
\<close>

section \<open>Requests and results\<close>

definition defaultMaxPlanStages :: int where
  "defaultMaxPlanStages = 5"

definition defaultMaxSearchOperations :: u64 where
  "defaultMaxSearchOperations = 100000"

record range_cost_estimate =
  rce_layerStart :: int
  rce_layerEnd :: int
  rce_estimate :: stage_cost_estimate

record plan_construction_request =
  pcr_model :: execution_model
  pcr_scoring :: plan_scoring_request
  pcr_terminalResponseMode :: string
  pcr_maxStages :: int
  pcr_maxSearchOperations :: u64
  pcr_ranges :: "range_cost_estimate list"

record range_plan_evaluation =
  rpe_layerStart :: int
  rpe_layerEnd :: int
  rpe_estimate :: stage_cost_estimate
  rpe_eligibility :: evaluation

record plan_construction_result =
  pr_schemaVersion :: int
  pr_inventoryRevision :: u64
  pr_profileRevision :: u64
  pr_generatedAt :: instant
  pr_request :: plan_construction_request
  pr_candidateWorkerCount :: int
  pr_searchOperationCount :: u64
  pr_retainedSearchStateCount :: u64
  pr_completePlanCount :: u64
  pr_searchLimitReached :: bool
  pr_ranges :: "range_plan_evaluation list"
  pr_selectedPlan :: "plan_evaluation option"

record plan_stage_option =
  po_worker :: worker
  po_candidate :: candidate
  po_compute :: stage_compute_score
  po_transfer :: stage_transfer_score

record plan_range_search =
  prs_rangeEstimate :: range_cost_estimate
  prs_evaluation :: evaluation
  prs_options :: "plan_stage_option list"

record partial_plan =
  pp_end :: int
  pp_stages :: "execution_stage list"
  pp_estimates :: "stage_cost_estimate list"
  pp_score :: plan_score

datatype planner_error =
    PlannerInputsInvalid scoring_error
  | PlannerStagesNotEmpty
  | PlannerModelIncomplete
  | PlannerResponseMode string
  | PlannerMaxStages int int
  | PlannerRangesRequired
  | PlannerRangeShard nat plan_error
  | PlannerRangeEstimate nat scoring_error
  | PlannerRangeDuplicated int int
  | RangeShardInvalid int int plan_error
  | RangeEligibilityInvalid int int eligibility_error
  | RangeWorkerMissing int int string
  | RangeScoringFailed int int scoring_error
  | ExtensionFailed scoring_error
  | CompletePlanInvalid plan_error
  | CompletePlanUnscored scoring_error
  | CompletePlanDisagrees
  | SearchLimitBefore plan_construction_result
  | SearchLimitAfter plan_construction_result

section \<open>Normalisation\<close>

definition compareRanges :: "range_cost_estimate \<Rightarrow> range_cost_estimate \<Rightarrow> int" where
  "compareRanges l r = first_nonzero
     [go_compare (rce_layerStart l) (rce_layerStart r), go_compare (rce_layerEnd l) (rce_layerEnd r)]"

text \<open>The loop over the sorted ranges; \<open>previous\<close> is the range before the current one.\<close>

fun checkRanges ::
  "digests \<Rightarrow> execution_model \<Rightarrow> u64 \<Rightarrow> nat \<Rightarrow> range_cost_estimate option \<Rightarrow>
   range_cost_estimate list \<Rightarrow> planner_error + unit" where
  "checkRanges dg model decodeSteps index previous [] = Inr ()"
| "checkRanges dg model decodeSteps index previous (r # rest) =
     and_then (map_error (PlannerRangeShard index)
       (deriveExecutionShardID dg model (rce_layerStart r) (rce_layerEnd r) (rce_layerStart r = 0)
         (rce_layerEnd r = em_layerCount model))) (\<lambda>_.
     and_then (map_error (PlannerRangeEstimate index)
       (validateStageCostEstimate (rce_estimate r) decodeSteps)) (\<lambda>_.
     if (case previous of None \<Rightarrow> False
         | Some p \<Rightarrow> rce_layerStart p = rce_layerStart r \<and> rce_layerEnd p = rce_layerEnd r)
     then Inl (PlannerRangeDuplicated (rce_layerStart r) (rce_layerEnd r))
     else checkRanges dg model decodeSteps (Suc index) (Some r) rest))"

definition planner_defaults :: "plan_construction_request \<Rightarrow> plan_construction_request" where
  "planner_defaults q =
     q\<lparr>pcr_scoring := normalizeScoringRequest (pcr_scoring q),
       pcr_maxStages :=
         (if pcr_maxStages q = 0
          then if 0 < em_layerCount (pcr_model q) \<and> em_layerCount (pcr_model q) < defaultMaxPlanStages
               then em_layerCount (pcr_model q) else defaultMaxPlanStages
          else pcr_maxStages q),
       pcr_maxSearchOperations :=
         (if pcr_maxSearchOperations q = 0 then defaultMaxSearchOperations else pcr_maxSearchOperations q)\<rparr>"

definition normalizePlanConstructionRequest ::
  "digests \<Rightarrow> inventory \<Rightarrow> profile_snapshot \<Rightarrow> plan_construction_request \<Rightarrow>
   planner_error + plan_construction_request" where
  "normalizePlanConstructionRequest dg inventory profile q0 =
     (let q = planner_defaults q0; model = pcr_model q in
      and_then (map_error PlannerInputsInvalid (validateScoringSnapshots inventory profile)) (\<lambda>_.
      and_then (map_error PlannerInputsInvalid (validateScoringContext (pcr_scoring q))) (\<lambda>_.
      if psr_stages (pcr_scoring q) \<noteq> [] then Inl PlannerStagesNotEmpty
      else if em_ID model = [] \<or> em_checkpointFingerprint model = [] \<or> em_layerCount model \<le> 0
      then Inl PlannerModelIncomplete
      else if pcr_terminalResponseMode q \<noteq> stageResponseTensor \<and>
              pcr_terminalResponseMode q \<noteq> stageResponseSampledToken
      then Inl (PlannerResponseMode (pcr_terminalResponseMode q))
      else if pcr_maxStages q < 1 \<or> em_layerCount model < pcr_maxStages q
      then Inl (PlannerMaxStages (pcr_maxStages q) (em_layerCount model))
      else if pcr_ranges q = [] then Inl PlannerRangesRequired
      else let ranges = sort_by compareRanges (pcr_ranges q) in
        and_then (checkRanges dg model (psr_decodeSteps (pcr_scoring q)) 0 None ranges) (\<lambda>_.
        Inr (q\<lparr>pcr_ranges := ranges\<rparr>)))))"

section \<open>Ranges and their options\<close>

definition rangeRequirement ::
  "plan_construction_request \<Rightarrow> range_cost_estimate \<Rightarrow> string \<Rightarrow> stage_requirement" where
  "rangeRequirement q r shardID =
     \<lparr>sq_model = pcr_model q, sq_adapter = psr_adapter (pcr_scoring q), sq_shardID = shardID,
      sq_layerStart = rce_layerStart r, sq_layerEnd = rce_layerEnd r,
      sq_ownsInput = (rce_layerStart r = 0), sq_ownsOutput = (rce_layerEnd r = em_layerCount (pcr_model q)),
      sq_loadMemoryBytes = sce_loadMemoryBytes (rce_estimate r),
      sq_sequenceMemoryBytes = sce_sequenceMemoryBytes (rce_estimate r),
      sq_transport = psr_transport (pcr_scoring q),
      sq_statusMaxAgeMillis = psr_statusMaxAgeMillis (pcr_scoring q)\<rparr>"

definition rangeStage :: "plan_construction_request \<Rightarrow> range_cost_estimate \<Rightarrow> worker \<Rightarrow> execution_stage" where
  "rangeStage q r w =
     \<lparr>es_name = [], es_targetID = wk_ID w, es_shardID = [],
      es_layerStart = rce_layerStart r, es_layerEnd = rce_layerEnd r,
      es_ownsInput = (rce_layerStart r = 0), es_ownsOutput = (rce_layerEnd r = em_layerCount (pcr_model q)),
      es_responseMode = []\<rparr>"

definition rangeOption ::
  "inventory \<Rightarrow> profile_snapshot \<Rightarrow> plan_construction_request \<Rightarrow> range_cost_estimate \<Rightarrow> candidate \<Rightarrow>
   planner_error + plan_stage_option" where
  "rangeOption inventory profile q r c =
     (let s = rce_layerStart r; e = rce_layerEnd r in
      case workersByID inventory (cd_workerID c) of
        None \<Rightarrow> Inl (RangeWorkerMissing s e (cd_workerID c))
      | Some w \<Rightarrow>
          and_then (map_error (RangeScoringFailed s e) (scoreStageCompute profile (pcr_model q) w
            (rangeStage q r w) (pcr_scoring q) (rce_estimate r))) (\<lambda>compute.
          and_then (map_error (RangeScoringFailed s e)
            (scoreStageTransfer profile w (pcr_scoring q) (rce_estimate r))) (\<lambda>transfer.
          Inr \<lparr>po_worker = w, po_candidate = c, po_compute = compute, po_transfer = transfer\<rparr>)))"

definition preparePlanRange ::
  "digests \<Rightarrow> inventory \<Rightarrow> profile_snapshot \<Rightarrow> plan_construction_request \<Rightarrow> range_cost_estimate \<Rightarrow>
   planner_error + plan_range_search" where
  "preparePlanRange dg inventory profile q r =
     (let s = rce_layerStart r; e = rce_layerEnd r in
      and_then (map_error (RangeShardInvalid s e) (deriveExecutionShardID dg (pcr_model q) s e (s = 0)
        (e = em_layerCount (pcr_model q)))) (\<lambda>shardID.
      and_then (map_error (RangeEligibilityInvalid s e)
        (evaluateCandidates inventory (rangeRequirement q r shardID))) (\<lambda>evaluation.
      and_then (collect (rangeOption inventory profile q r) (filter cd_eligible (ev_candidates evaluation))) (\<lambda>options.
      Inr \<lparr>prs_rangeEstimate = r, prs_evaluation = evaluation, prs_options = options\<rparr>))))"

section \<open>Partial plans\<close>

definition emptyPlan :: partial_plan where
  "emptyPlan = \<lparr>pp_end = 0, pp_stages = [], pp_estimates = [], pp_score = zeroScore 0\<rparr>"

definition partialStage ::
  "plan_construction_request \<Rightarrow> nat \<Rightarrow> range_cost_estimate \<Rightarrow> worker \<Rightarrow> execution_stage" where
  "partialStage q index r w =
     \<lparr>es_name = ''stage-'' @ decimal (int index), es_targetID = wk_ID w, es_shardID = [],
      es_layerStart = rce_layerStart r, es_layerEnd = rce_layerEnd r,
      es_ownsInput = (rce_layerStart r = 0), es_ownsOutput = (rce_layerEnd r = em_layerCount (pcr_model q)),
      es_responseMode = (if rce_layerEnd r = em_layerCount (pcr_model q)
        then pcr_terminalResponseMode q else stageResponseTensor)\<rparr>"

definition extendPartialPlan ::
  "plan_construction_request \<Rightarrow> partial_plan \<Rightarrow> range_cost_estimate \<Rightarrow> plan_stage_option \<Rightarrow>
   planner_error + partial_plan" where
  "extendPartialPlan q state r opt =
     and_then (map_error ExtensionFailed (mergeStageScore (pp_score state) (po_worker opt) (po_candidate opt)
       (rce_estimate r) (po_compute opt) (po_transfer opt))) (\<lambda>score.
     let stages = pp_stages state @ [partialStage q (length (pp_stages state)) r (po_worker opt)] in
     Inr \<lparr>pp_end = rce_layerEnd r, pp_stages = stages, pp_estimates = pp_estimates state @ [rce_estimate r],
       pp_score = score\<lparr>sco_stageCount := int (length stages)\<rparr>\<rparr>)"

definition partialUsesWorker :: "partial_plan \<Rightarrow> string \<Rightarrow> bool" where
  "partialUsesWorker state workerID = list_ex (\<lambda>s. es_targetID s = workerID) (pp_stages state)"

text \<open>\<open>strings.Join\<close> with the NUL byte.\<close>

fun join_nul :: "string list \<Rightarrow> string" where
  "join_nul [] = []"
| "join_nul [x] = x"
| "join_nul (x # y # rest) = x @ CHR 0x00 # join_nul (y # rest)"

definition partialWorkerSetKey :: "partial_plan \<Rightarrow> string" where
  "partialWorkerSetKey state = join_nul (sort (map es_targetID (pp_stages state)))"

definition comparePartialPlans :: "partial_plan \<Rightarrow> partial_plan \<Rightarrow> int" where
  "comparePartialPlans l r =
     (if comparePlanScores (pp_score l) (pp_score r) \<noteq> 0
      then comparePlanScores (pp_score l) (pp_score r)
      else let bare = (\<lambda>stages. \<lparr>ep_schemaVersion = [], ep_revision = [], ep_inventoryRevision = [],
             ep_model = \<lparr>em_ID = [], em_checkpointFingerprint = [], em_layerCount = 0\<rparr>, ep_stages = stages\<rparr>)
        in comparePlanIdentity (bare (pp_stages l)) (bare (pp_stages r)))"

type_synonym plan_states = "((int \<times> string) \<times> partial_plan) list"

definition orderedPartialPlans :: "plan_states \<Rightarrow> partial_plan list" where
  "orderedPartialPlans states = sort_by (\<lambda>l r.
     if go_compare (pp_end l) (pp_end r) \<noteq> 0 then go_compare (pp_end l) (pp_end r)
     else comparePartialPlans l r) (map snd states)"

definition orderedPartialPlanBucket :: "plan_states \<Rightarrow> partial_plan list" where
  "orderedPartialPlanBucket bucket = sort_by comparePartialPlans (map snd bucket)"

text \<open>A candidate enters its bucket unless a partial plan at least as good is there.\<close>

definition retainPartialPlan :: "partial_plan \<Rightarrow> plan_states \<Rightarrow> plan_states" where
  "retainPartialPlan candidate states =
     (let key = (pp_end candidate, partialWorkerSetKey candidate) in
      case map_of states key of
        None \<Rightarrow> AList.update key candidate states
      | Some existing \<Rightarrow>
          if comparePartialPlans candidate existing < 0 then AList.update key candidate states else states)"

section \<open>The search\<close>

definition evaluateCompletePlan ::
  "digests \<Rightarrow> inventory \<Rightarrow> profile_snapshot \<Rightarrow> plan_construction_request \<Rightarrow> partial_plan \<Rightarrow>
   planner_error + plan_evaluation" where
  "evaluateCompletePlan dg inventory profile q candidate =
     and_then (map_error CompletePlanInvalid (buildExecutionPlan dg (pcr_model q)
       (decimal_nat (unat (inv_revision inventory))) (pp_stages candidate))) (\<lambda>plan.
     and_then (map_error CompletePlanUnscored (scorePlan dg inventory profile plan
       ((pcr_scoring q)\<lparr>psr_stages := pp_estimates candidate\<rparr>))) (\<lambda>evaluation.
     if \<not> pe_eligible evaluation \<or> pe_score evaluation \<noteq> pp_score candidate then Inl CompletePlanDisagrees
     else Inr evaluation))"

text \<open>Left fold of a fallible step, stopping at the first error.\<close>

fun fold_result :: "('x \<Rightarrow> 's \<Rightarrow> 'e + 's) \<Rightarrow> 'x list \<Rightarrow> 's \<Rightarrow> 'e + 's" where
  "fold_result f [] s = Inr s"
| "fold_result f (x # xs) s = and_then (f x s) (fold_result f xs)"

text \<open>
  The three nested loops of a round visit these triples: the states in order, the ranges
  that start where the state ends, and the workers for the range that the state does not
  use. In the last round only ranges that reach the end of the model are considered.
\<close>

definition searchMoves ::
  "plan_construction_request \<Rightarrow> plan_range_search list \<Rightarrow> int \<Rightarrow> plan_states \<Rightarrow>
   (partial_plan \<times> range_cost_estimate \<times> plan_stage_option) list" where
  "searchMoves q searches stageCount states =
     [(state, prs_rangeEstimate search, opt).
        state \<leftarrow> orderedPartialPlans states,
        search \<leftarrow> searches,
        rce_layerStart (prs_rangeEstimate search) = pp_end state,
        \<not> (rce_layerEnd (prs_rangeEstimate search) < em_layerCount (pcr_model q) \<and> stageCount = pcr_maxStages q),
        opt \<leftarrow> prs_options search,
        \<not> partialUsesWorker state (wk_ID (po_worker opt))]"

definition searchMove ::
  "plan_construction_request \<Rightarrow> partial_plan \<times> range_cost_estimate \<times> plan_stage_option \<Rightarrow>
   plan_construction_result \<times> plan_states \<Rightarrow> planner_error + plan_construction_result \<times> plan_states" where
  "searchMove q = (\<lambda>(state, r, opt) (result, next).
     if pr_searchOperationCount result = pcr_maxSearchOperations q
     then Inl (SearchLimitAfter (result\<lparr>pr_searchLimitReached := True, pr_selectedPlan := None\<rparr>))
     else and_then (extendPartialPlan q state r opt) (\<lambda>candidate.
       Inr (result\<lparr>pr_searchOperationCount := pr_searchOperationCount result + 1\<rparr>,
            retainPartialPlan candidate next)))"

definition completeMove ::
  "digests \<Rightarrow> inventory \<Rightarrow> profile_snapshot \<Rightarrow> plan_construction_request \<Rightarrow> partial_plan \<Rightarrow>
   plan_construction_result \<Rightarrow> planner_error + plan_construction_result" where
  "completeMove dg inventory profile q candidate result =
     and_then (evaluateCompletePlan dg inventory profile q candidate) (\<lambda>evaluation.
     let counted = result\<lparr>pr_completePlanCount := pr_completePlanCount result + 1\<rparr> in
     Inr (case pr_selectedPlan result of
       None \<Rightarrow> counted\<lparr>pr_selectedPlan := Some evaluation\<rparr>
     | Some selected \<Rightarrow>
         if comparePlanEvaluations evaluation selected < 0
         then counted\<lparr>pr_selectedPlan := Some evaluation\<rparr> else counted))"

text \<open>The rounds, one per stage count; \<open>left\<close> counts the rounds not yet begun.\<close>

fun searchRounds ::
  "digests \<Rightarrow> inventory \<Rightarrow> profile_snapshot \<Rightarrow> plan_construction_request \<Rightarrow> plan_range_search list \<Rightarrow>
   nat \<Rightarrow> int \<Rightarrow> plan_construction_result \<Rightarrow> plan_states \<Rightarrow> planner_error + plan_construction_result" where
  "searchRounds dg inventory profile q searches 0 stageCount result states = Inr result"
| "searchRounds dg inventory profile q searches (Suc left) stageCount result states =
     (if states = [] then Inr result
      else
      and_then (fold_result (searchMove q) (searchMoves q searches stageCount states) (result, [])) (\<lambda>(moved, next).
      let counted = moved\<lparr>pr_retainedSearchStateCount :=
            pr_retainedSearchStateCount moved + word_of_nat (length next)\<rparr>;
          complete = filter (\<lambda>e. fst (fst e) = em_layerCount (pcr_model q)) next;
          rest = filter (\<lambda>e. fst (fst e) \<noteq> em_layerCount (pcr_model q)) next
      in and_then (fold_result (completeMove dg inventory profile q) (orderedPartialPlanBucket complete) counted) (\<lambda>evaluated.
         searchRounds dg inventory profile q searches left (stageCount + 1) evaluated rest)))"

definition rangeReport :: "plan_range_search \<Rightarrow> range_plan_evaluation" where
  "rangeReport search =
     \<lparr>rpe_layerStart = rce_layerStart (prs_rangeEstimate search),
      rpe_layerEnd = rce_layerEnd (prs_rangeEstimate search),
      rpe_estimate = rce_estimate (prs_rangeEstimate search),
      rpe_eligibility = prs_evaluation search\<rparr>"

text \<open>The zero value of a range report, which the result holds before the ranges are evaluated.\<close>

definition zeroEvaluation :: evaluation where
  "zeroEvaluation =
     \<lparr>ev_schemaVersion = 0, ev_inventoryRevision = 0, ev_inventoryGeneratedAt = 0, ev_statusMaxAgeMillis = 0,
      ev_requirement =
        \<lparr>sq_model = \<lparr>em_ID = [], em_checkpointFingerprint = [], em_layerCount = 0\<rparr>, sq_adapter = [],
         sq_shardID = [], sq_layerStart = 0, sq_layerEnd = 0, sq_ownsInput = False, sq_ownsOutput = False,
         sq_loadMemoryBytes = 0, sq_sequenceMemoryBytes = 0,
         sq_transport = \<lparr>tq_protocol = [], tq_tensorEncoding = [], tq_requireTLS = False\<rparr>,
         sq_statusMaxAgeMillis = 0\<rparr>,
      ev_requiredOperations = [], ev_candidates = []\<rparr>"

definition zeroRangeReport :: range_plan_evaluation where
  "zeroRangeReport =
     \<lparr>rpe_layerStart = 0, rpe_layerEnd = 0,
      rpe_estimate = \<lparr>sce_loadMemoryBytes = 0, sce_sequenceMemoryBytes = 0, sce_prefillWireBytes = 0,
        sce_decodeWireBytesPerStep = 0, sce_fallbackPrefillComputeMicros = 0,
        sce_fallbackDecodeComputeMicrosPerStep = 0\<rparr>,
      rpe_eligibility = zeroEvaluation\<rparr>"

definition initialResult ::
  "inventory \<Rightarrow> profile_snapshot \<Rightarrow> plan_construction_request \<Rightarrow> plan_construction_result" where
  "initialResult inventory profile q =
     \<lparr>pr_schemaVersion = placementSchemaVersion, pr_inventoryRevision = inv_revision inventory,
      pr_profileRevision = ps_revision profile, pr_generatedAt = inv_generatedAt inventory,
      pr_request = q, pr_candidateWorkerCount = 0, pr_searchOperationCount = 0,
      pr_retainedSearchStateCount = 0, pr_completePlanCount = 0, pr_searchLimitReached = False,
      pr_ranges = map (\<lambda>_. zeroRangeReport) (pcr_ranges q), pr_selectedPlan = None\<rparr>"

definition constructPlan ::
  "digests \<Rightarrow> inventory \<Rightarrow> profile_snapshot \<Rightarrow> plan_construction_request \<Rightarrow>
   planner_error + plan_construction_result" where
  "constructPlan dg inventory profile q0 =
     and_then (normalizePlanConstructionRequest dg inventory profile q0) (\<lambda>q.
     let result = initialResult inventory profile q;
         (operations, overflow) = multiplyUint64 (word_of_nat (length (pcr_ranges q)))
           (word_of_nat (length (inv_workers inventory)))
     in if overflow \<or> pcr_maxSearchOperations q < operations
        then Inl (SearchLimitBefore (result\<lparr>pr_searchLimitReached := True\<rparr>))
        else and_then (collect (preparePlanRange dg inventory profile q) (pcr_ranges q)) (\<lambda>searches.
          searchRounds dg inventory profile q searches (nat (pcr_maxStages q)) 1
            (result\<lparr>pr_searchOperationCount := operations, pr_ranges := map rangeReport searches,
               pr_candidateWorkerCount := int (length (remdups
                 (map (wk_ID \<circ> po_worker) (concat (map prs_options searches)))))\<rparr>)
            [((0, []), emptyPlan)]))"

section \<open>Worker sets\<close>

lemma join_nul_inj:
  "length xs = length ys \<Longrightarrow> (\<forall>x \<in> set xs \<union> set ys. CHR 0x00 \<notin> set x) \<Longrightarrow>
   join_nul xs = join_nul ys \<longleftrightarrow> xs = ys"
proof (induction xs arbitrary: ys rule: join_nul.induct)
  case 1
  then show ?case by simp
next
  case (2 x)
  then show ?case by (cases ys) auto
next
  case (3 x y rest)
  obtain x' y' rest' where ys: "ys = x' # y' # rest'"
    using 3(2) by (cases ys; cases "tl ys") auto
  have tail: "join_nul (y # rest) = join_nul (y' # rest') \<longleftrightarrow> y # rest = y' # rest'"
    by (rule 3(1)) (use 3(2,3) ys in auto)
  have "CHR 0x00 \<notin> set x" "CHR 0x00 \<notin> set x'" using 3(3) ys by simp_all
  note append_separator_eq [OF this, of "join_nul (y # rest)" "join_nul (y' # rest')"]
  then show ?case unfolding ys join_nul.simps(3) using tail by simp
qed

abbreviation plan_key :: "partial_plan \<Rightarrow> int \<times> string" where
  "plan_key p \<equiv> (pp_end p, partialWorkerSetKey p)"

abbreviation plan_targets :: "partial_plan \<Rightarrow> string list" where
  "plan_targets p \<equiv> map es_targetID (pp_stages p)"

lemma worker_key_iff:
  assumes "length (pp_stages p) = length (pp_stages s)"
    and "\<forall>i \<in> set (plan_targets p) \<union> set (plan_targets s). CHR 0x00 \<notin> set i"
  shows "partialWorkerSetKey p = partialWorkerSetKey s \<longleftrightarrow> mset (plan_targets p) = mset (plan_targets s)"
proof -
  have "partialWorkerSetKey p = partialWorkerSetKey s \<longleftrightarrow> sort (plan_targets p) = sort (plan_targets s)"
    unfolding partialWorkerSetKey_def using assms by (intro join_nul_inj) auto
  also have "\<dots> \<longleftrightarrow> mset (plan_targets p) = mset (plan_targets s)"
    using properties_for_sort [of "sort (plan_targets p)" "plan_targets s"] by (metis mset_sort sorted_sort)
  finally show ?thesis .
qed

lemma uses_iff: "partialUsesWorker p i \<longleftrightarrow> i \<in> set (plan_targets p)"
  by (auto simp: partialUsesWorker_def list_ex_iff)

section \<open>The best plan per key\<close>

abbreviation bare_plan :: "execution_stage list \<Rightarrow> execution_plan" where
  "bare_plan stages \<equiv> \<lparr>ep_schemaVersion = [], ep_revision = [], ep_inventoryRevision = [],
     ep_model = \<lparr>em_ID = [], em_checkpointFingerprint = [], em_layerCount = 0\<rparr>, ep_stages = stages\<rparr>"

lemma comparePartialPlans_chain:
  "comparePartialPlans l r =
     (if comparePlanScores (pp_score l) (pp_score r) \<noteq> 0 then comparePlanScores (pp_score l) (pp_score r)
      else comparePlanIdentity (bare_plan (pp_stages l)) (bare_plan (pp_stages r)))"
  by (simp add: comparePartialPlans_def Let_def)

interpretation partial_plans: comparison comparePartialPlans
  by (rule comparison_cong [OF _ comparePartialPlans_chain])
     (rule comparison_first [OF comparison_inv_image [OF plan_scores.comparison_axioms, of pp_score]
        comparison_inv_image [OF plan_identity.comparison_axioms, of "\<lambda>p. bare_plan (pp_stages p)"]])

text \<open>
  What a table of best elements promises: retaining an element only touches the entry of
  its key, and keeps the better of the two there.
\<close>

locale best_table = comparison cmp for cmp :: "'s \<Rightarrow> 's \<Rightarrow> int" +
  fixes key :: "'s \<Rightarrow> 'k" and retain :: "'s \<Rightarrow> ('k \<times> 's) list \<Rightarrow> ('k \<times> 's) list"
  assumes retain_lookup: "map_of (retain c t) k =
      (if k \<noteq> key c then map_of t k
       else case map_of t k of None \<Rightarrow> Some c | Some e \<Rightarrow> if cmp c e < 0 then Some c else Some e)"
    and retain_distinct: "distinct (map fst t) \<Longrightarrow> distinct (map fst (retain c t))"
begin

definition best_of :: "'s set \<Rightarrow> ('k \<times> 's) list \<Rightarrow> bool" where
  "best_of C t \<longleftrightarrow> distinct (map fst t) \<and> (\<forall>(k, v) \<in> set t. k = key v \<and> v \<in> C) \<and>
     (\<forall>c \<in> C. \<exists>v. (key c, v) \<in> set t \<and> cmp v c \<le> 0)"

lemma best_of_empty: "best_of {} []"
  by (simp add: best_of_def)

lemma best_of_retain:
  assumes "best_of C t"
  shows "best_of (insert c C) (retain c t)"
proof -
  have d: "distinct (map fst t)" "distinct (map fst (retain c t))"
    using assms retain_distinct by (auto simp: best_of_def)
  have sound: "k = key v \<and> v \<in> C" if "map_of t k = Some v" for k v
    using map_of_SomeD [OF that] assms by (auto simp: best_of_def)
  have covered: "\<exists>v. map_of t (key x) = Some v \<and> cmp v x \<le> 0" if x: "x \<in> C" for x
    using assms x d(1) by (auto simp: best_of_def dest: map_of_is_SomeI)
  have best: "\<exists>v. map_of (retain c t) (key x) = Some v \<and> cmp v x \<le> 0" if x: "x = c \<or> x \<in> C" for x
  proof (cases "key x = key c")
    case False
    then show ?thesis using x covered by (auto simp: retain_lookup)
  next
    case True
    show ?thesis
    proof (cases "map_of t (key c)")
      case None
      then show ?thesis using x True covered [of x] by (auto simp: retain_lookup)
    next
      case (Some e)
      have "cmp e x \<le> 0" if "x \<in> C" using covered [OF that] True Some by simp
      moreover have "cmp c e < 0 \<Longrightarrow> cmp e x \<le> 0 \<Longrightarrow> cmp c x \<le> 0" using cmp_trans [of c e x] by simp
      moreover have "\<not> cmp c e < 0 \<Longrightarrow> cmp e c \<le> 0" by (simp only: cmp_not_less)
      ultimately show ?thesis using x True Some by (auto simp: retain_lookup)
    qed
  qed
  have "k = key v \<and> (v = c \<or> v \<in> C)" if "map_of (retain c t) k = Some v" for k v
    using that sound by (auto simp: retain_lookup split: if_splits option.splits)
  then have "k = key v \<and> v \<in> insert c C" if "(k, v) \<in> set (retain c t)" for k v
    using map_of_is_SomeI [OF d(2) that] by auto
  moreover have "\<exists>v. (key x, v) \<in> set (retain c t) \<and> cmp v x \<le> 0" if "x \<in> insert c C" for x
    using best [of x] that by (auto dest: map_of_SomeD)
  ultimately show ?thesis unfolding best_of_def using d(2) by blast
qed

lemma best_of_fold: "best_of C t \<Longrightarrow> best_of (C \<union> set cs) (fold retain cs t)"
proof (induction cs arbitrary: C t)
  case Nil
  then show ?case by simp
next
  case (Cons c cs)
  from Cons.IH [OF best_of_retain [OF Cons.prems]] show ?case by simp
qed

lemmas best_of_all = best_of_fold [OF best_of_empty, simplified]

end

lemma distinct_alist_update: "distinct (map fst t) \<Longrightarrow> distinct (map fst (AList.update k v t))"
  by (rule distinct_update)

interpretation plan_table: best_table comparePartialPlans plan_key retainPartialPlan
proof (unfold_locales, goal_cases)
  case (1 c t k)
  then show ?case
    by (auto simp: retainPartialPlan_def Let_def update_conv' split: option.split)
next
  case (2 t c)
  then show ?case
    by (auto simp: retainPartialPlan_def Let_def distinct_update split: option.split)
qed

section \<open>Moves\<close>

lemma fold_result_append:
  "fold_result f (xs @ ys) s = and_then (fold_result f xs s) (fold_result f ys)"
proof (induction xs arbitrary: s)
  case Nil
  then show ?case by simp
next
  case (Cons x xs)
  then show ?case by (cases "f x s") auto
qed

definition extension_of ::
  "plan_construction_request \<Rightarrow> partial_plan \<times> range_cost_estimate \<times> plan_stage_option \<Rightarrow> partial_plan \<Rightarrow> bool" where
  "extension_of q = (\<lambda>(state, r, opt) p. extendPartialPlan q state r opt = Inr p)"

lemma searchMove_Inr:
  "searchMove q (state, r, opt) (result, t) = Inr x \<longleftrightarrow>
     pr_searchOperationCount result \<noteq> pcr_maxSearchOperations q \<and>
     (\<exists>c. extendPartialPlan q state r opt = Inr c \<and>
       x = (result\<lparr>pr_searchOperationCount := pr_searchOperationCount result + 1\<rparr>, retainPartialPlan c t))"
  by (auto simp: searchMove_def and_then_Inr)

lemma moves_run:
  assumes "fold_result (searchMove q) moves (result, t) = Inr (result', t')"
  shows "\<exists>cs. list_all2 (extension_of q) moves cs \<and> t' = fold retainPartialPlan cs t \<and>
     result' = result\<lparr>pr_searchOperationCount := pr_searchOperationCount result + word_of_nat (length moves)\<rparr> \<and>
     (unat (pr_searchOperationCount result) \<le> unat (pcr_maxSearchOperations q) \<longrightarrow>
      unat (pr_searchOperationCount result') = unat (pr_searchOperationCount result) + length moves \<and>
      unat (pr_searchOperationCount result') \<le> unat (pcr_maxSearchOperations q))"
  using assms
proof (induction moves arbitrary: result t)
  case Nil
  then show ?case by simp
next
  case (Cons move moves)
  obtain state r opt where m: "move = (state, r, opt)" by (cases move)
  define stepped where "stepped = result\<lparr>pr_searchOperationCount := pr_searchOperationCount result + 1\<rparr>"
  obtain c where limit: "pr_searchOperationCount result \<noteq> pcr_maxSearchOperations q"
    and c: "extendPartialPlan q state r opt = Inr c"
    and rest: "fold_result (searchMove q) moves (stepped, retainPartialPlan c t) = Inr (result', t')"
    using Cons.prems by (auto simp: m searchMove_Inr stepped_def and_then_Inr)
  obtain cs where cs: "list_all2 (extension_of q) moves cs" "t' = fold retainPartialPlan cs (retainPartialPlan c t)"
    "result' = stepped\<lparr>pr_searchOperationCount := pr_searchOperationCount stepped + word_of_nat (length moves)\<rparr>"
    and count: "unat (pr_searchOperationCount stepped) \<le> unat (pcr_maxSearchOperations q) \<longrightarrow>
      unat (pr_searchOperationCount result') = unat (pr_searchOperationCount stepped) + length moves \<and>
      unat (pr_searchOperationCount result') \<le> unat (pcr_maxSearchOperations q)"
    using Cons.IH [OF rest] by blast
  have step: "unat (pr_searchOperationCount stepped) = unat (pr_searchOperationCount result) + 1 \<and>
      unat (pr_searchOperationCount stepped) \<le> unat (pcr_maxSearchOperations q)"
    if le: "unat (pr_searchOperationCount result) \<le> unat (pcr_maxSearchOperations q)"
  proof -
    have lt: "unat (pr_searchOperationCount result) < unat (pcr_maxSearchOperations q)"
      using le limit by (simp add: u64_eq_iff)
    then have "unat (pr_searchOperationCount result) + 1 \<le> unat (pcr_maxSearchOperations q)" by simp
    moreover have "unat (pr_searchOperationCount result + 1) = unat (pr_searchOperationCount result) + 1"
      using le_less_trans [OF Suc_leI [OF lt] u64_bound] by (subst unat_u64_add_exact) simp_all
    ultimately show ?thesis by (simp add: stepped_def)
  qed
  show ?case
  proof (intro exI [of _ "c # cs"] conjI impI)
    show "list_all2 (extension_of q) (move # moves) (c # cs)" using cs(1) c by (simp add: m extension_of_def)
    show "t' = fold retainPartialPlan (c # cs) t" using cs(2) by simp
    show "result' = result\<lparr>pr_searchOperationCount :=
        pr_searchOperationCount result + word_of_nat (length (move # moves))\<rparr>"
      using cs(3) by (simp add: stepped_def add.assoc)
    assume "unat (pr_searchOperationCount result) \<le> unat (pcr_maxSearchOperations q)"
    then show "unat (pr_searchOperationCount result') = unat (pr_searchOperationCount result) + length (move # moves)"
      "unat (pr_searchOperationCount result') \<le> unat (pcr_maxSearchOperations q)"
      using step count by simp_all
  qed
qed

lemma set_searchMoves:
  "(state, r, opt) \<in> set (searchMoves q searches stageCount states) \<longleftrightarrow>
     state \<in> snd ` set states \<and> rce_layerStart r = pp_end state \<and>
     \<not> (rce_layerEnd r < em_layerCount (pcr_model q) \<and> stageCount = pcr_maxStages q) \<and>
     (\<exists>search \<in> set searches. prs_rangeEstimate search = r \<and> opt \<in> set (prs_options search)) \<and>
     \<not> partialUsesWorker state (wk_ID (po_worker opt))"
  unfolding searchMoves_def orderedPartialPlans_def by fastforce

section \<open>Accepted requests\<close>

definition request_accepted ::
  "digests \<Rightarrow> inventory \<Rightarrow> profile_snapshot \<Rightarrow> plan_construction_request \<Rightarrow> bool" where
  "request_accepted dg inventory profile q \<longleftrightarrow>
     validateScoringSnapshots inventory profile = Inr () \<and>
     validateScoringContext (pcr_scoring q) = Inr () \<and>
     normalizeScoringRequest (pcr_scoring q) = pcr_scoring q \<and> psr_stages (pcr_scoring q) = [] \<and>
     em_ID (pcr_model q) \<noteq> [] \<and> em_checkpointFingerprint (pcr_model q) \<noteq> [] \<and>
     pcr_terminalResponseMode q \<in> {stageResponseTensor, stageResponseSampledToken} \<and>
     1 \<le> pcr_maxStages q \<and> pcr_maxStages q \<le> em_layerCount (pcr_model q) \<and>
     (\<forall>r \<in> set (pcr_ranges q). 0 \<le> rce_layerStart r \<and> rce_layerStart r < rce_layerEnd r \<and>
        rce_layerEnd r \<le> em_layerCount (pcr_model q) \<and>
        validateStageCostEstimate (rce_estimate r) (psr_decodeSteps (pcr_scoring q)) = Inr ())"

lemma checkRanges_Inr:
  assumes "checkRanges dg model decodeSteps index previous rs = Inr u" and "r \<in> set rs"
  shows "0 \<le> rce_layerStart r \<and> rce_layerStart r < rce_layerEnd r \<and> rce_layerEnd r \<le> em_layerCount model \<and>
    validateStageCostEstimate (rce_estimate r) decodeSteps = Inr ()"
  using assms
proof (induction dg model decodeSteps index previous rs rule: checkRanges.induct)
  case (1 dg model decodeSteps index previous)
  then show ?case by simp
next
  case (2 dg model decodeSteps index previous r' rest)
  obtain shardID where "deriveExecutionShardID dg model (rce_layerStart r') (rce_layerEnd r') (rce_layerStart r' = 0)
      (rce_layerEnd r' = em_layerCount model) = Inr shardID"
    and estimate: "validateStageCostEstimate (rce_estimate r') decodeSteps = Inr ()"
    and new: "\<not> (case previous of None \<Rightarrow> False
      | Some p \<Rightarrow> rce_layerStart p = rce_layerStart r' \<and> rce_layerEnd p = rce_layerEnd r')"
    and rest: "checkRanges dg model decodeSteps (Suc index) (Some r') rest = Inr u"
    using 2(2) unfolding checkRanges.simps and_then_Inr guard_Inr map_error_Inr by auto
  then have "0 \<le> rce_layerStart r'" "rce_layerStart r' < rce_layerEnd r'" "rce_layerEnd r' \<le> em_layerCount model"
    by (auto simp: deriveExecutionShardID_def split: if_splits)
  then show ?case using 2(1) [OF new rest] 2(3) estimate by auto
qed

lemma normalizeScoringRequest_idem [simp]: "normalizeScoringRequest (normalizeScoringRequest q) = normalizeScoringRequest q"
  by (simp add: normalizeScoringRequest_def)

lemma normalized_accepted:
  assumes "normalizePlanConstructionRequest dg inventory profile q0 = Inr q"
  shows "request_accepted dg inventory profile q" "pcr_model q = pcr_model q0"
    "mset (pcr_ranges q) = mset (pcr_ranges q0)"
proof -
  let ?d = "planner_defaults q0"
  note run = assms [unfolded normalizePlanConstructionRequest_def Let_def and_then_Inr guard_Inr map_error_Inr]
  have checks: "validateScoringSnapshots inventory profile = Inr ()" "validateScoringContext (pcr_scoring ?d) = Inr ()"
    "psr_stages (pcr_scoring ?d) = []" "em_ID (pcr_model ?d) \<noteq> []" "em_checkpointFingerprint (pcr_model ?d) \<noteq> []"
    "pcr_terminalResponseMode ?d \<in> {stageResponseTensor, stageResponseSampledToken}"
    "1 \<le> pcr_maxStages ?d" "pcr_maxStages ?d \<le> em_layerCount (pcr_model ?d)"
    and q: "q = ?d\<lparr>pcr_ranges := sort_by compareRanges (pcr_ranges ?d)\<rparr>"
    and ranges: "\<exists>u. checkRanges dg (pcr_model ?d) (psr_decodeSteps (pcr_scoring ?d)) 0 None
        (sort_by compareRanges (pcr_ranges ?d)) = Inr u"
    using run by auto
  obtain u where u: "checkRanges dg (pcr_model ?d) (psr_decodeSteps (pcr_scoring ?d)) 0 None
      (sort_by compareRanges (pcr_ranges ?d)) = Inr u"
    using ranges by blast
  have idem: "normalizeScoringRequest (pcr_scoring ?d) = pcr_scoring ?d" by (simp add: planner_defaults_def)
  show "request_accepted dg inventory profile q"
    using checks idem checkRanges_Inr [OF u] by (simp add: request_accepted_def q)
  show "pcr_model q = pcr_model q0" "mset (pcr_ranges q) = mset (pcr_ranges q0)"
    by (simp_all add: q planner_defaults_def)
qed

section \<open>Paths through the range graph\<close>

text \<open>
  The partial plans the search could reach with an unlimited table: a path chooses, stage
  after stage, a range that starts where the plan ends and an eligible worker not used yet.
\<close>

inductive search_path ::
  "plan_construction_request \<Rightarrow> plan_range_search list \<Rightarrow> (range_cost_estimate \<times> plan_stage_option) list \<Rightarrow>
   partial_plan \<Rightarrow> bool" for q :: plan_construction_request and searches :: "plan_range_search list" where
  path_start: "search_path q searches [] emptyPlan"
| path_extend: "search_path q searches cs state \<Longrightarrow> search \<in> set searches \<Longrightarrow>
    rce_layerStart (prs_rangeEstimate search) = pp_end state \<Longrightarrow> opt \<in> set (prs_options search) \<Longrightarrow>
    \<not> partialUsesWorker state (wk_ID (po_worker opt)) \<Longrightarrow>
    extendPartialPlan q state (prs_rangeEstimate search) opt = Inr p \<Longrightarrow>
    search_path q searches (cs @ [(prs_rangeEstimate search, opt)]) p"

inductive_cases search_path_cases: "search_path q searches cs p"

lemma extendPartialPlan_Inr:
  "extendPartialPlan q state r opt = Inr p \<longleftrightarrow>
     (\<exists>score. mergeStageScore (pp_score state) (po_worker opt) (po_candidate opt) (rce_estimate r)
        (po_compute opt) (po_transfer opt) = Inr score \<and>
      p = \<lparr>pp_end = rce_layerEnd r,
           pp_stages = pp_stages state @ [partialStage q (length (pp_stages state)) r (po_worker opt)],
           pp_estimates = pp_estimates state @ [rce_estimate r],
           pp_score = score\<lparr>sco_stageCount := int (length (pp_stages state)) + 1\<rparr>\<rparr>)"
  by (auto simp: extendPartialPlan_def and_then_Inr Let_def)

lemma partialStage_fields [simp]:
  "es_name (partialStage q i r w) = ''stage-'' @ decimal (int i)" "es_targetID (partialStage q i r w) = wk_ID w"
  "es_shardID (partialStage q i r w) = []" "es_layerStart (partialStage q i r w) = rce_layerStart r"
  "es_layerEnd (partialStage q i r w) = rce_layerEnd r"
  "es_ownsInput (partialStage q i r w) = (rce_layerStart r = 0)"
  "es_ownsOutput (partialStage q i r w) = (rce_layerEnd r = em_layerCount (pcr_model q))"
  by (simp_all add: partialStage_def)

lemma indexed_snoc: "indexed (xs @ [x]) = indexed xs @ [(length xs, x)]"
  by (simp add: indexed_def)

abbreviation choice_stages ::
  "plan_construction_request \<Rightarrow> (range_cost_estimate \<times> plan_stage_option) list \<Rightarrow> execution_stage list" where
  "choice_stages q cs \<equiv> map (\<lambda>(i, r, opt). partialStage q i r (po_worker opt)) (indexed cs)"

lemma path_shape:
  assumes "search_path q searches cs p"
  shows "pp_stages p = choice_stages q cs" "pp_estimates p = map (rce_estimate \<circ> fst) cs"
    "sco_stageCount (pp_score p) = int (length cs)"
    "unat (sco_estimatedMicros (pp_score p)) =
      unat (sco_computeMicros (pp_score p)) + unat (sco_transferMicros (pp_score p))"
    "distinct (plan_targets p)" "pp_end p = chain_end 0 (pp_stages p)"
  using assms
proof (induction rule: search_path.induct)
  case path_start
  {
    case 1 then show ?case by (simp add: emptyPlan_def indexed_def)
  next
    case 2 then show ?case by (simp add: emptyPlan_def)
  next
    case 3 then show ?case by (simp add: emptyPlan_def zeroScore_def)
  next
    case 4 then show ?case by (simp add: emptyPlan_def zeroScore_def)
  next
    case 5 then show ?case by (simp add: emptyPlan_def)
  next
    case 6 then show ?case by (simp add: emptyPlan_def)
  }
next
  case (path_extend cs state search opt p)
  obtain score where score: "mergeStageScore (pp_score state) (po_worker opt) (po_candidate opt)
      (rce_estimate (prs_rangeEstimate search)) (po_compute opt) (po_transfer opt) = Inr score"
    and p: "p = \<lparr>pp_end = rce_layerEnd (prs_rangeEstimate search),
           pp_stages = pp_stages state @ [partialStage q (length (pp_stages state)) (prs_rangeEstimate search) (po_worker opt)],
           pp_estimates = pp_estimates state @ [rce_estimate (prs_rangeEstimate search)],
           pp_score = score\<lparr>sco_stageCount := int (length (pp_stages state)) + 1\<rparr>\<rparr>"
    using path_extend.hyps(6) by (auto simp: extendPartialPlan_Inr)
  have len: "length (pp_stages state) = length cs" using path_extend.IH(1) by simp
  have end_snoc: "chain_end e (ss @ [t]) = es_layerEnd t" for e ss t
    by (induction e ss rule: chain_end.induct) auto
  {
    case 1 show ?case using path_extend.IH(1) by (simp add: p len indexed_snoc)
  next
    case 2 show ?case using path_extend.IH(2) by (simp add: p)
  next
    case 3 show ?case by (simp add: p len)
  next
    case 4 show ?case using mergeStageScore_value(3) [OF score] by (simp add: p)
  next
    case 5 show ?case using path_extend.IH(5) path_extend.hyps(5) by (simp add: p uses_iff)
  next
    case 6 show ?case by (simp add: p end_snoc)
  }
qed

text \<open>The stages of a path are contiguous, because every range is ascending.\<close>

lemma chained_snoc:
  "chained e (ss @ [t]) \<longleftrightarrow>
     chained e ss \<and> es_layerStart t = chain_end e ss \<and> chain_end e ss < es_layerEnd t"
  by (induction e ss rule: chained.induct) auto

lemma path_chained:
  assumes "search_path q searches cs p"
    and "\<And>search. search \<in> set searches \<Longrightarrow>
      rce_layerStart (prs_rangeEstimate search) < rce_layerEnd (prs_rangeEstimate search)"
  shows "chained 0 (pp_stages p)"
  using assms
proof (induction rule: search_path.induct)
  case path_start
  then show ?case by (simp add: emptyPlan_def)
next
  case (path_extend cs state search opt p)
  then show ?case
    using path_shape(6) [OF path_extend.hyps(1)] path_extend.prems [OF path_extend.hyps(2)] by (auto simp: extendPartialPlan_Inr chained_snoc)
qed

section \<open>Dominance is preserved\<close>

lemma compare_shift:
  fixes x y x' y' :: u64
  assumes "unat x' = unat x + c" and "unat y' = unat y + c"
  shows "compareUint64 x' y' = compareUint64 x y"
  using assms by (simp add: compareUint64_go go_compare_def word_less_nat_alt u64_eq_iff)

text \<open>The same stage added to two partial plans leaves the order of their scores as it was.\<close>

lemma merge_preserves_order:
  assumes "mergeStageScore l w c e compute transfer = Inr l'" and "mergeStageScore r w c e compute transfer = Inr r'"
    and "unat (sco_estimatedMicros l) = unat (sco_computeMicros l) + unat (sco_transferMicros l)"
    and "unat (sco_estimatedMicros r) = unat (sco_computeMicros r) + unat (sco_transferMicros r)"
    and "sco_stageCount l = sco_stageCount r"
  shows "comparePlanScores (l'\<lparr>sco_stageCount := n\<rparr>) (r'\<lparr>sco_stageCount := n\<rparr>) = comparePlanScores l r"
proof -
  note l = mergeStageScore_value [OF assms(1)] and r = mergeStageScore_value [OF assms(2)]
  have "unat (sco_estimatedMicros l') =
      unat (sco_estimatedMicros l) + (unat (scs_totalMicros compute) + unat (sts_totalMicros transfer))"
    "unat (sco_estimatedMicros r') =
      unat (sco_estimatedMicros r) + (unat (scs_totalMicros compute) + unat (sts_totalMicros transfer))"
    using l(1-3) r(1-3) assms(3,4) by simp_all
  then have "compareUint64 (sco_estimatedMicros l') (sco_estimatedMicros r') =
      compareUint64 (sco_estimatedMicros l) (sco_estimatedMicros r)"
    by (rule compare_shift)
  then show ?thesis
    using assms(5) compare_shift [OF l(4) r(4)] compare_shift [OF l(5) r(5)] compare_shift [OF l(6) r(6)]
      compare_shift [OF l(7) r(7)] compare_shift [OF l(8) r(8)]
    by (simp add: comparePlanScores_def)
qed

lemma compareStagesIdentity_snoc:
  "length ls = length rs \<Longrightarrow> compareStagesIdentity (ls @ [s]) (rs @ [s]) = compareStagesIdentity ls rs"
  by (induction ls rs rule: list_induct2) (simp_all add: compareStageIdentity_zero)

lemma bare_identity:
  "length ls = length rs \<Longrightarrow> comparePlanIdentity (bare_plan ls) (bare_plan rs) = compareStagesIdentity ls rs"
  by (simp add: comparePlanIdentity_def)

lemma extension_preserves_order:
  assumes "search_path q searches cl l" and "search_path q searches cr r" and "length cl = length cr"
    and "extendPartialPlan q l rce opt = Inr l'" and "extendPartialPlan q r rce opt = Inr r'"
  shows "comparePartialPlans l' r' = comparePartialPlans l r"
proof -
  note l = path_shape [OF assms(1)] and r = path_shape [OF assms(2)]
  have len: "length (pp_stages l) = length (pp_stages r)" using l(1) r(1) assms(3) by simp
  obtain sl sr where
    sl: "mergeStageScore (pp_score l) (po_worker opt) (po_candidate opt) (rce_estimate rce)
      (po_compute opt) (po_transfer opt) = Inr sl" "pp_score l' = sl\<lparr>sco_stageCount := int (length (pp_stages r)) + 1\<rparr>"
      "pp_stages l' = pp_stages l @ [partialStage q (length (pp_stages r)) rce (po_worker opt)]" and
    sr: "mergeStageScore (pp_score r) (po_worker opt) (po_candidate opt) (rce_estimate rce)
      (po_compute opt) (po_transfer opt) = Inr sr" "pp_score r' = sr\<lparr>sco_stageCount := int (length (pp_stages r)) + 1\<rparr>"
      "pp_stages r' = pp_stages r @ [partialStage q (length (pp_stages r)) rce (po_worker opt)]"
    using assms(4,5) len by (auto simp: extendPartialPlan_Inr)
  have "comparePlanScores (pp_score l') (pp_score r') = comparePlanScores (pp_score l) (pp_score r)"
    unfolding sl(2) sr(2) by (rule merge_preserves_order [OF sl(1) sr(1) l(4) r(4)]) (simp add: l(3) r(3) assms(3))
  moreover have "comparePlanIdentity (bare_plan (pp_stages l')) (bare_plan (pp_stages r')) =
      comparePlanIdentity (bare_plan (pp_stages l)) (bare_plan (pp_stages r))"
    using len by (simp add: sl(3) sr(3) bare_identity compareStagesIdentity_snoc)
  ultimately show ?thesis by (simp add: comparePartialPlans_chain)
qed

section \<open>Layers of the dynamic program\<close>

lemma list_all2_right: "list_all2 R xs ys \<Longrightarrow> y \<in> set ys \<Longrightarrow> \<exists>x \<in> set xs. R x y"
  by (induction xs ys rule: list_all2_induct) auto

lemma list_all2_left: "list_all2 R xs ys \<Longrightarrow> x \<in> set xs \<Longrightarrow> \<exists>y \<in> set ys. R x y"
  by (induction xs ys rule: list_all2_induct) auto

definition range_graph :: "plan_construction_request \<Rightarrow> plan_range_search list \<Rightarrow> bool" where
  "range_graph q searches \<longleftrightarrow> 0 < em_layerCount (pcr_model q) \<and>
     (\<forall>search \<in> set searches.
        rce_layerStart (prs_rangeEstimate search) < rce_layerEnd (prs_rangeEstimate search) \<and>
        rce_layerEnd (prs_rangeEstimate search) \<le> em_layerCount (pcr_model q) \<and>
        (\<forall>opt \<in> set (prs_options search). CHR 0x00 \<notin> set (wk_ID (po_worker opt))))"

abbreviation complete :: "plan_construction_request \<Rightarrow> partial_plan \<Rightarrow> bool" where
  "complete q p \<equiv> pp_end p = em_layerCount (pcr_model q)"

lemma path_targets:
  assumes "search_path q searches cs p" and "range_graph q searches"
  shows "\<forall>i \<in> set (plan_targets p). CHR 0x00 \<notin> set i"
  using assms
proof (induction rule: search_path.induct)
  case path_start
  then show ?case by (simp add: emptyPlan_def)
next
  case (path_extend cs state search opt p)
  then show ?case by (auto simp: extendPartialPlan_Inr range_graph_def)
qed

lemma path_key:
  assumes "range_graph q searches" and "search_path q searches cl l" and "search_path q searches cr r"
    and "length cl = length cr"
  shows "plan_key l = plan_key r \<longleftrightarrow> pp_end l = pp_end r \<and> mset (plan_targets l) = mset (plan_targets r)"
  using worker_key_iff [of l r] path_targets [OF assms(2,1)] path_targets [OF assms(3,1)]
    path_shape(1) [OF assms(2)] path_shape(1) [OF assms(3)] assms(4)
  by auto

lemma extension_dominates:
  assumes graph: "range_graph q searches"
    and l: "search_path q searches cl l" and r: "search_path q searches cr r" and len: "length cl = length cr"
    and key: "plan_key l = plan_key r" and le: "comparePartialPlans l r \<le> 0"
    and search: "search \<in> set searches" "rce_layerStart (prs_rangeEstimate search) = pp_end r"
      "opt \<in> set (prs_options search)"
    and unused: "\<not> partialUsesWorker r (wk_ID (po_worker opt))"
    and l': "extendPartialPlan q l (prs_rangeEstimate search) opt = Inr l'"
    and r': "extendPartialPlan q r (prs_rangeEstimate search) opt = Inr r'"
  shows "\<not> partialUsesWorker l (wk_ID (po_worker opt))" "plan_key l' = plan_key r'" "comparePartialPlans l' r' \<le> 0"
proof -
  have same: "pp_end l = pp_end r" "mset (plan_targets l) = mset (plan_targets r)"
    using key path_key [OF graph l r len] by simp_all
  then have "set (plan_targets l) = set (plan_targets r)" by (metis mset_eq_setD)
  then show unused': "\<not> partialUsesWorker l (wk_ID (po_worker opt))" using unused unfolding uses_iff by blast
  have "search_path q searches (cl @ [(prs_rangeEstimate search, opt)]) l'"
    using path_extend [OF l search(1) _ search(3) unused' l'] search(2) same(1) by simp
  moreover have "search_path q searches (cr @ [(prs_rangeEstimate search, opt)]) r'"
    by (rule path_extend [OF r search unused r'])
  ultimately show "plan_key l' = plan_key r'"
    using path_key [OF graph, of _ l' _ r'] len same l' r' by (auto simp: extendPartialPlan_Inr)
  show "comparePartialPlans l' r' \<le> 0"
    using extension_preserves_order [OF l r len l' r'] le by simp
qed

text \<open>
  What the states of a round mean: they are incomplete paths of the round's length, and
  for every such path there is one at least as good with the same end and workers.
\<close>

definition layer ::
  "plan_construction_request \<Rightarrow> plan_range_search list \<Rightarrow> nat \<Rightarrow> plan_states \<Rightarrow> bool" where
  "layer q searches n states \<longleftrightarrow>
     (\<forall>(k, v) \<in> set states. k = plan_key v \<and> \<not> complete q v \<and>
        (\<exists>cs. length cs = n \<and> search_path q searches cs v)) \<and>
     (\<forall>cs p. search_path q searches cs p \<and> length cs = n \<and> \<not> complete q p \<longrightarrow>
        (\<exists>v. (plan_key p, v) \<in> set states \<and> comparePartialPlans v p \<le> 0))"

lemma layer_start:
  assumes "range_graph q searches"
  shows "layer q searches 0 [((0, []), emptyPlan)]"
proof -
  have "search_path q searches [] p \<longleftrightarrow> p = emptyPlan" for p
    using path_start [of q searches] by (auto elim: search_path_cases)
  moreover have "plan_key emptyPlan = (0, [])" "\<not> complete q emptyPlan"
    using assms by (simp_all add: emptyPlan_def partialWorkerSetKey_def range_graph_def)
  ultimately show ?thesis
    unfolding layer_def by auto
qed

lemma round_sound:
  assumes "layer q searches n states"
    and "fold_result (searchMove q) (searchMoves q searches stageCount states) (result, []) = Inr (result', after)"
    and "(k, v) \<in> set after"
  shows "k = plan_key v \<and> (\<exists>cs. length cs = Suc n \<and> search_path q searches cs v)"
proof -
  obtain ps where ps: "list_all2 (extension_of q) (searchMoves q searches stageCount states) ps"
    and after: "after = fold retainPartialPlan ps []"
    using moves_run [OF assms(2)] by blast
  have "k = plan_key v \<and> v \<in> set ps"
    using plan_table.best_of_all [of ps] assms(3) by (auto simp: plan_table.best_of_def after)
  moreover from this obtain state r opt where
    move: "(state, r, opt) \<in> set (searchMoves q searches stageCount states)" "extendPartialPlan q state r opt = Inr v"
    using list_all2_right [OF ps, of v] by (auto simp: extension_of_def)
  obtain search where search: "search \<in> set searches" "prs_rangeEstimate search = r" "opt \<in> set (prs_options search)"
    and state: "state \<in> snd ` set states" "rce_layerStart r = pp_end state"
      "\<not> partialUsesWorker state (wk_ID (po_worker opt))"
    using move(1) by (auto simp: set_searchMoves)
  obtain cs where "length cs = n" "search_path q searches cs state"
    using assms(1) state(1) by (auto simp: layer_def)
  then have "search_path q searches (cs @ [(r, opt)]) v" "length (cs @ [(r, opt)]) = Suc n"
    using path_extend [of q searches cs state search opt v] search state move(2) by auto
  ultimately show ?thesis by blast
qed

lemma round_dominating:
  assumes graph: "range_graph q searches" and layer: "layer q searches n states"
    and run: "fold_result (searchMove q) (searchMoves q searches stageCount states) (result, []) = Inr (result', after)"
    and path: "search_path q searches cs p" "length cs = Suc n"
    and allowed: "complete q p \<or> stageCount \<noteq> pcr_maxStages q"
  shows "\<exists>v. (plan_key p, v) \<in> set after \<and> comparePartialPlans v p \<le> 0"
proof -
  obtain ps where ps: "list_all2 (extension_of q) (searchMoves q searches stageCount states) ps"
    and after: "after = fold retainPartialPlan ps []"
    using moves_run [OF run] by blast
  obtain cs' state search opt where
    state: "search_path q searches cs' state" "length cs' = n" and
    search: "search \<in> set searches" "rce_layerStart (prs_rangeEstimate search) = pp_end state"
      "opt \<in> set (prs_options search)" and
    unused: "\<not> partialUsesWorker state (wk_ID (po_worker opt))" and
    p: "extendPartialPlan q state (prs_rangeEstimate search) opt = Inr p"
    using path by (auto elim: search_path_cases)
  have incomplete: "\<not> complete q state" using graph search(1,2) by (auto simp: range_graph_def)
  obtain v where v: "(plan_key state, v) \<in> set states" "comparePartialPlans v state \<le> 0"
    using layer state incomplete unfolding layer_def by blast
  obtain cv where cv: "search_path q searches cv v" "length cv = length cs'" and key: "plan_key v = plan_key state"
    using layer v(1) state(2) by (fastforce simp: layer_def)
  have ends: "pp_end v = pp_end state" "mset (plan_targets v) = mset (plan_targets state)"
    using path_key [OF graph cv(1) state(1) cv(2)] key by simp_all
  have "pp_end p = rce_layerEnd (prs_rangeEstimate search)" using p by (auto simp: extendPartialPlan_Inr)
  moreover have "\<not> partialUsesWorker v (wk_ID (po_worker opt))"
    using unused mset_eq_setD [OF ends(2)] unfolding uses_iff by blast
  ultimately have "(v, prs_rangeEstimate search, opt) \<in> set (searchMoves q searches stageCount states)"
    using v(1) search ends(1) allowed graph by (force simp: set_searchMoves range_graph_def)
  then obtain p' where p': "p' \<in> set ps" "extendPartialPlan q v (prs_rangeEstimate search) opt = Inr p'"
    using list_all2_left [OF ps] by (fastforce simp: extension_of_def)
  note dom = extension_dominates [OF graph cv(1) state(1) cv(2) key v(2) search unused p'(2) p]
  obtain w where "(plan_key p', w) \<in> set after" "comparePartialPlans w p' \<le> 0"
    using plan_table.best_of_all [of ps] p'(1) by (auto simp: plan_table.best_of_def after)
  then show ?thesis using dom(2,3) partial_plans.cmp_trans by metis
qed

section \<open>The selected plan\<close>

text \<open>
  The selection is a running minimum: \<open>selected\<close> is the evaluation of one of the plans in
  \<open>P\<close>, and none of them is preferred to it.
\<close>

definition minimum_of ::
  "(partial_plan \<Rightarrow> planner_error + plan_evaluation) \<Rightarrow> partial_plan set \<Rightarrow> plan_evaluation option \<Rightarrow> bool" where
  "minimum_of eval P selected \<longleftrightarrow>
     (\<forall>p \<in> P. \<exists>ev best. eval p = Inr ev \<and> selected = Some best \<and> comparePlanEvaluations best ev \<le> 0) \<and>
     (\<forall>best. selected = Some best \<longrightarrow> (\<exists>p \<in> P. eval p = Inr best))"

lemma minimum_of_empty: "minimum_of eval {} None"
  by (simp add: minimum_of_def)

lemma completeMove_minimum:
  assumes "completeMove dg inventory profile q p result = Inr result'"
    and "minimum_of (evaluateCompletePlan dg inventory profile q) P (pr_selectedPlan result)"
  shows "minimum_of (evaluateCompletePlan dg inventory profile q) (insert p P) (pr_selectedPlan result')"
proof -
  obtain ev where ev: "evaluateCompletePlan dg inventory profile q p = Inr ev"
    using assms(1) by (auto simp: completeMove_def and_then_Inr)
  show ?thesis
  proof (cases "pr_selectedPlan result")
    case None
    then have "P = {}" using assms(2) by (auto simp: minimum_of_def)
    moreover have "pr_selectedPlan result' = Some ev"
      using assms(1) ev None by (auto simp: completeMove_def Let_def)
    ultimately show ?thesis using ev by (simp add: minimum_of_def)
  next
    case (Some best)
    define chosen where "chosen = (if comparePlanEvaluations ev best < 0 then ev else best)"
    have "pr_selectedPlan result' = Some chosen"
      using assms(1) ev Some by (auto simp: completeMove_def Let_def chosen_def)
    moreover have "comparePlanEvaluations chosen ev \<le> 0" "comparePlanEvaluations chosen best \<le> 0"
      using plan_evaluations.cmp_not_less [of ev best] by (auto simp: chosen_def)
    ultimately show ?thesis
      using assms(2) ev Some plan_evaluations.cmp_trans [of chosen best]
      unfolding minimum_of_def by (fastforce simp: chosen_def)
  qed
qed

lemma complete_run:
  assumes "fold_result (completeMove dg inventory profile q) ps result = Inr result'"
    and "minimum_of (evaluateCompletePlan dg inventory profile q) P (pr_selectedPlan result)"
  shows "minimum_of (evaluateCompletePlan dg inventory profile q) (P \<union> set ps) (pr_selectedPlan result')"
  using assms
proof (induction ps arbitrary: result P)
  case Nil
  then show ?case by simp
next
  case (Cons p ps)
  obtain r where r: "completeMove dg inventory profile q p result = Inr r"
    "fold_result (completeMove dg inventory profile q) ps r = Inr result'"
    using Cons.prems(1) by (auto simp: and_then_Inr)
  from Cons.IH [OF r(2) completeMove_minimum [OF r(1) Cons.prems(2)]] show ?case by simp
qed

text \<open>The counters that the search is bounded by do not move while complete plans are evaluated.\<close>

lemma complete_run_fields:
  assumes "fold_result (completeMove dg inventory profile q) ps result = Inr result'"
  shows "pr_searchOperationCount result' = pr_searchOperationCount result \<and> pr_request result' = pr_request result \<and>
    pr_searchLimitReached result' = pr_searchLimitReached result \<and> pr_ranges result' = pr_ranges result"
  using assms
proof (induction ps arbitrary: result)
  case Nil
  then show ?case by simp
next
  case (Cons p ps)
  obtain r where r: "completeMove dg inventory profile q p result = Inr r"
    "fold_result (completeMove dg inventory profile q) ps r = Inr result'"
    using Cons.prems(1) by (auto simp: and_then_Inr)
  obtain ev where "evaluateCompletePlan dg inventory profile q p = Inr ev"
    using r(1) by (auto simp: completeMove_def and_then_Inr)
  then have "pr_searchOperationCount r = pr_searchOperationCount result" "pr_request r = pr_request result"
    "pr_searchLimitReached r = pr_searchLimitReached result" "pr_ranges r = pr_ranges result"
    using r(1) [symmetric] by (simp_all add: completeMove_def Let_def split: option.split)
  with Cons.IH [OF r(2)] show ?case by simp
qed

text \<open>Every initial part of a path is a path, and only the whole path may be complete.\<close>

lemma path_prefix:
  assumes "search_path q searches cs p" and "range_graph q searches" and "n < length cs"
  shows "\<exists>state. search_path q searches (take n cs) state \<and> \<not> complete q state"
  using assms
proof (induction rule: search_path.induct)
  case path_start
  then show ?case by simp
next
  case (path_extend cs state search opt p)
  show ?case
  proof (cases "n = length cs")
    case True
    have "pp_end state < em_layerCount (pcr_model q)"
      using path_extend.hyps(2,3) path_extend.prems(1) by (auto simp: range_graph_def)
    then show ?thesis using True path_extend.hyps(1) by auto
  next
    case False
    then show ?thesis using path_extend by simp
  qed
qed

lemma layer_empty:
  assumes "layer q searches n []" and "range_graph q searches" and "search_path q searches cs p"
  shows "length cs \<le> n"
proof (rule ccontr)
  assume "\<not> length cs \<le> n"
  then have "n < length cs" by simp
  from path_prefix [OF assms(3,2) this] obtain state where
    "search_path q searches (take n cs) state" "\<not> complete q state" by blast
  then show False using assms(1) \<open>n < length cs\<close> unfolding layer_def by (metis length_take min.absorb4 empty_iff list.set(1))
qed

text \<open>
  The rounds evaluate, for every complete path they can reach, a path of the same length at
  least as good.
\<close>

definition covers_paths ::
  "plan_construction_request \<Rightarrow> plan_range_search list \<Rightarrow> nat \<Rightarrow> nat \<Rightarrow> partial_plan set \<Rightarrow> bool" where
  "covers_paths q searches n m P \<longleftrightarrow>
     (\<forall>p \<in> P. \<exists>cs. n < length cs \<and> length cs \<le> m \<and> search_path q searches cs p \<and> complete q p) \<and>
     (\<forall>cs p. search_path q searches cs p \<and> complete q p \<and> n < length cs \<and> length cs \<le> m \<longrightarrow>
        (\<exists>v \<in> P. \<exists>cv. search_path q searches cv v \<and> length cv = length cs \<and> comparePartialPlans v p \<le> 0))"

lemma covers_paths_join:
  assumes "covers_paths q searches n k P" and "covers_paths q searches k m P'" and "n \<le> k" and "k \<le> m"
  shows "covers_paths q searches n m (P \<union> P')"
  unfolding covers_paths_def
proof (intro conjI allI impI ballI)
  fix p assume "p \<in> P \<union> P'"
  then show "\<exists>cs. n < length cs \<and> length cs \<le> m \<and> search_path q searches cs p \<and> complete q p"
  proof
    assume "p \<in> P"
    then obtain cs where "n < length cs" "length cs \<le> k" "search_path q searches cs p" "complete q p"
      using assms(1) unfolding covers_paths_def by blast
    then show ?thesis using assms(4) by (intro exI [of _ cs]) simp
  next
    assume "p \<in> P'"
    then obtain cs where "k < length cs" "length cs \<le> m" "search_path q searches cs p" "complete q p"
      using assms(2) unfolding covers_paths_def by blast
    then show ?thesis using assms(3) by (intro exI [of _ cs]) simp
  qed
next
  fix cs p assume p: "search_path q searches cs p \<and> complete q p \<and> n < length cs \<and> length cs \<le> m"
  show "\<exists>v \<in> P \<union> P'. \<exists>cv. search_path q searches cv v \<and> length cv = length cs \<and> comparePartialPlans v p \<le> 0"
  proof (cases "length cs \<le> k")
    case True
    then show ?thesis using p assms(1) unfolding covers_paths_def by blast
  next
    case False
    then have "k < length cs" by simp
    then show ?thesis using p assms(2) unfolding covers_paths_def by blast
  qed
qed

lemma round_covers:
  assumes "range_graph q searches" and "layer q searches n states"
    and "fold_result (searchMove q) (searchMoves q searches stageCount states) (result, []) = Inr (moved, after)"
  shows "covers_paths q searches n (Suc n)
      (set (orderedPartialPlanBucket (filter (\<lambda>e. fst (fst e) = em_layerCount (pcr_model q)) after)))"
    "stageCount \<noteq> pcr_maxStages q \<Longrightarrow>
      layer q searches (Suc n) (filter (\<lambda>e. fst (fst e) \<noteq> em_layerCount (pcr_model q)) after)"
proof -
  note sound = round_sound [OF assms(2,3)] and dominating = round_dominating [OF assms]
  have bucket: "v \<in> set (orderedPartialPlanBucket (filter (\<lambda>e. fst (fst e) = em_layerCount (pcr_model q)) after)) \<longleftrightarrow>
      (\<exists>k. (k, v) \<in> set after \<and> fst k = em_layerCount (pcr_model q))" for v
    by (force simp: orderedPartialPlanBucket_def)
  show "covers_paths q searches n (Suc n)
      (set (orderedPartialPlanBucket (filter (\<lambda>e. fst (fst e) = em_layerCount (pcr_model q)) after)))"
    unfolding covers_paths_def
  proof (intro conjI allI impI ballI)
    fix p assume "p \<in> set (orderedPartialPlanBucket (filter (\<lambda>e. fst (fst e) = em_layerCount (pcr_model q)) after))"
    then obtain k where k: "(k, p) \<in> set after" "fst k = em_layerCount (pcr_model q)" by (auto simp: bucket)
    obtain cs where "length cs = Suc n" "search_path q searches cs p" "k = plan_key p" using sound [OF k(1)] by blast
    then show "\<exists>cs. n < length cs \<and> length cs \<le> Suc n \<and> search_path q searches cs p \<and> complete q p"
      using k(2) by (intro exI [of _ cs]) simp
  next
    fix cs p assume p: "search_path q searches cs p \<and> complete q p \<and> n < length cs \<and> length cs \<le> Suc n"
    then have len: "length cs = Suc n" by simp
    obtain v where v: "(plan_key p, v) \<in> set after" "comparePartialPlans v p \<le> 0"
      using dominating [of cs p] p len by blast
    then have "v \<in> set (orderedPartialPlanBucket (filter (\<lambda>e. fst (fst e) = em_layerCount (pcr_model q)) after))"
      using p by (auto simp: bucket)
    with sound [OF v(1)] v(2) len
    show "\<exists>v \<in> set (orderedPartialPlanBucket (filter (\<lambda>e. fst (fst e) = em_layerCount (pcr_model q)) after)).
        \<exists>cv. search_path q searches cv v \<and> length cv = length cs \<and> comparePartialPlans v p \<le> 0" by auto
  qed
  assume last: "stageCount \<noteq> pcr_maxStages q"
  show "layer q searches (Suc n) (filter (\<lambda>e. fst (fst e) \<noteq> em_layerCount (pcr_model q)) after)"
    unfolding layer_def
  proof (intro conjI allI impI ballI)
    fix e assume "e \<in> set (filter (\<lambda>e. fst (fst e) \<noteq> em_layerCount (pcr_model q)) after)"
    moreover obtain k v where e: "e = (k, v)" by (cases e)
    ultimately have kv: "(k, v) \<in> set after" "fst k \<noteq> em_layerCount (pcr_model q)" by auto
    with sound [OF kv(1)] show "case e of (k, v) \<Rightarrow> k = plan_key v \<and> \<not> complete q v \<and>
        (\<exists>cs. length cs = Suc n \<and> search_path q searches cs v)"
      by (auto simp: e)
  next
    fix cs p assume p: "search_path q searches cs p \<and> length cs = Suc n \<and> \<not> complete q p"
    then obtain v where v: "(plan_key p, v) \<in> set after" "comparePartialPlans v p \<le> 0"
      using dominating [of cs p] last by blast
    with p show "\<exists>v. (plan_key p, v) \<in> set (filter (\<lambda>e. fst (fst e) \<noteq> em_layerCount (pcr_model q)) after) \<and>
        comparePartialPlans v p \<le> 0" by auto
  qed
qed

lemma rounds_select:
  assumes "range_graph q searches" and "layer q searches n states"
    and "searchRounds dg inventory profile q searches left stageCount result states = Inr final"
    and "stageCount + int left = pcr_maxStages q + 1"
    and "minimum_of (evaluateCompletePlan dg inventory profile q) P (pr_selectedPlan result)"
  shows "\<exists>P'. covers_paths q searches n (n + left) P' \<and>
    minimum_of (evaluateCompletePlan dg inventory profile q) (P \<union> P') (pr_selectedPlan final)"
  using assms(2-)
proof (induction left arbitrary: n stageCount result states P)
  case 0
  have "covers_paths q searches n (n + 0) {}" by (simp add: covers_paths_def)
  then show ?case using 0 by (intro exI [of _ "{}"]) simp
next
  case (Suc left)
  show ?case
  proof (cases "states = []")
    case True
    then have "length cs \<le> n" if "search_path q searches cs p" for cs p
      using layer_empty [OF _ assms(1) that] Suc.prems(1) by blast
    then have "covers_paths q searches n (n + Suc left) {}" by (fastforce simp: covers_paths_def)
    then show ?thesis using Suc.prems(2,4) True by (intro exI [of _ "{}"]) simp
  next
    case False
    let ?complete = "\<lambda>t :: plan_states. filter (\<lambda>e. fst (fst e) = em_layerCount (pcr_model q)) t"
    let ?rest = "\<lambda>t :: plan_states. filter (\<lambda>e. fst (fst e) \<noteq> em_layerCount (pcr_model q)) t"
    obtain moved after evaluated where
      run: "fold_result (searchMove q) (searchMoves q searches stageCount states) (result, []) = Inr (moved, after)" and
      bucket: "fold_result (completeMove dg inventory profile q) (orderedPartialPlanBucket (?complete after))
         (moved\<lparr>pr_retainedSearchStateCount := pr_retainedSearchStateCount moved + word_of_nat (length after)\<rparr>) =
         Inr evaluated" and
      rest: "searchRounds dg inventory profile q searches left (stageCount + 1) evaluated (?rest after) = Inr final"
      using Suc.prems(2) False by (auto simp: and_then_Inr Let_def)
    let ?bucket = "set (orderedPartialPlanBucket (?complete after))"
    have "pr_selectedPlan moved = pr_selectedPlan result" using moves_run [OF run] by auto
    then have evaluated: "minimum_of (evaluateCompletePlan dg inventory profile q) (P \<union> ?bucket) (pr_selectedPlan evaluated)"
      by (intro complete_run [OF bucket]) (simp add: Suc.prems(4))
    note covers = round_covers [OF assms(1) Suc.prems(1) run]
    show ?thesis
    proof (cases "left = 0")
      case True
      then have "final = evaluated" using rest by simp
      then show ?thesis using True covers(1) evaluated by (intro exI [of _ ?bucket]) simp
    next
      case False
      then have "stageCount \<noteq> pcr_maxStages q" using Suc.prems(3) by linarith
      moreover have "stageCount + 1 + int left = pcr_maxStages q + 1" using Suc.prems(3) by linarith
      ultimately obtain P' where P': "covers_paths q searches (Suc n) (Suc n + left) P'"
        "minimum_of (evaluateCompletePlan dg inventory profile q) (P \<union> ?bucket \<union> P') (pr_selectedPlan final)"
        using Suc.IH [OF covers(2) rest _ evaluated] by blast
      have "covers_paths q searches n (n + Suc left) (?bucket \<union> P')"
        using covers_paths_join [OF covers(1), of "Suc n + left" P'] P'(1) by simp
      then show ?thesis using P'(2) by (intro exI [of _ "?bucket \<union> P'"]) (simp add: Un_assoc)
    qed
  qed
qed

section \<open>Prepared ranges\<close>

text \<open>Worker identities as the inventory issues them: named, and without the separator byte.\<close>

definition plain_ids :: "inventory \<Rightarrow> bool" where
  "plain_ids inventory \<longleftrightarrow> (\<forall>w \<in> set (inv_workers inventory). wk_ID w \<noteq> [] \<and> CHR 0x00 \<notin> set (wk_ID w))"

abbreviation distinct_ids :: "inventory \<Rightarrow> bool" where
  "distinct_ids inventory \<equiv> distinct (map wk_ID (inv_workers inventory))"

lemma accepted_distinct: "request_accepted dg inventory profile q \<Longrightarrow> distinct_ids inventory"
  unfolding request_accepted_def validateScoringSnapshots_def and_then_Inr guard_Inr
  by (auto simp: checkWorkerIDs_Inr)

lemma find_unique: "distinct (map f xs) \<Longrightarrow> x \<in> set xs \<Longrightarrow> find (\<lambda>y. f y = f x) xs = Some x"
  by (induction xs) (auto simp: rev_image_eqI)

lemma candidate_ids:
  assumes "evaluateCandidates inventory req = Inr ev" and "distinct_ids inventory"
  shows "distinct (map cd_workerID (ev_candidates ev))"
proof -
  have "list_all2 (\<lambda>w c. wk_ID w = cd_workerID c)
      (sort_by (\<lambda>l r. go_compare (wk_ID l) (wk_ID r)) (inv_workers inventory)) (ev_candidates ev)"
    using candidates_exact [OF assms(1)] by (rule list_all2_mono) simp
  then have "map wk_ID (sort_by (\<lambda>l r. go_compare (wk_ID l) (wk_ID r)) (inv_workers inventory)) =
      map cd_workerID (ev_candidates ev)"
    by (induction rule: list_all2_induct) simp_all
  moreover have "distinct (map wk_ID (sort_by (\<lambda>l r. go_compare (wk_ID l) (wk_ID r)) (inv_workers inventory)))"
    using assms(2) by simp
  ultimately show ?thesis by simp
qed

text \<open>What an option of a prepared range stands for.\<close>

definition option_of ::
  "inventory \<Rightarrow> profile_snapshot \<Rightarrow> plan_construction_request \<Rightarrow> range_cost_estimate \<Rightarrow> evaluation \<Rightarrow>
   plan_stage_option \<Rightarrow> bool" where
  "option_of inventory profile q r ev opt \<longleftrightarrow>
     po_candidate opt \<in> set (ev_candidates ev) \<and> cd_eligible (po_candidate opt) \<and>
     workersByID inventory (cd_workerID (po_candidate opt)) = Some (po_worker opt) \<and>
     scoreStageCompute profile (pcr_model q) (po_worker opt) (rangeStage q r (po_worker opt)) (pcr_scoring q)
       (rce_estimate r) = Inr (po_compute opt) \<and>
     scoreStageTransfer profile (po_worker opt) (pcr_scoring q) (rce_estimate r) = Inr (po_transfer opt)"

lemma rangeOption_Inr:
  "rangeOption inventory profile q r c = Inr opt \<longleftrightarrow>
     po_candidate opt = c \<and> workersByID inventory (cd_workerID c) = Some (po_worker opt) \<and>
     scoreStageCompute profile (pcr_model q) (po_worker opt) (rangeStage q r (po_worker opt)) (pcr_scoring q)
       (rce_estimate r) = Inr (po_compute opt) \<and>
     scoreStageTransfer profile (po_worker opt) (pcr_scoring q) (rce_estimate r) = Inr (po_transfer opt)"
  by (cases opt) (auto simp: rangeOption_def Let_def and_then_Inr split: option.splits)

lemma executionShardID_partial:
  "executionShardID dg m (partialStage q i r w) =
     executionShardID dg m (rangeStage q r w\<lparr>es_targetID := []\<rparr>)"
  by (rule executionShardID_fields) (simp_all add: rangeStage_def)

lemma prepared_range:
  assumes "preparePlanRange dg inventory profile q r = Inr search"
  shows "prs_rangeEstimate search = r"
    "evaluateCandidates inventory (rangeRequirement q r
       (executionShardID dg (pcr_model q) (partialStage q i r w))) = Inr (prs_evaluation search)"
    "opt \<in> set (prs_options search) \<Longrightarrow> option_of inventory profile q r (prs_evaluation search) opt"
    "c \<in> set (ev_candidates (prs_evaluation search)) \<Longrightarrow> cd_eligible c \<Longrightarrow>
       \<exists>opt \<in> set (prs_options search). rangeOption inventory profile q r c = Inr opt"
proof -
  obtain shardID ev options where
    shard: "deriveExecutionShardID dg (pcr_model q) (rce_layerStart r) (rce_layerEnd r) (rce_layerStart r = 0)
      (rce_layerEnd r = em_layerCount (pcr_model q)) = Inr shardID" and
    ev: "evaluateCandidates inventory (rangeRequirement q r shardID) = Inr ev" and
    options: "list_all2 (\<lambda>c opt. rangeOption inventory profile q r c = Inr opt)
      (filter cd_eligible (ev_candidates ev)) options" and
    search: "search = \<lparr>prs_rangeEstimate = r, prs_evaluation = ev, prs_options = options\<rparr>"
    using assms by (auto simp: preparePlanRange_def Let_def and_then_Inr collect_Inr)
  have "shardID = executionShardID dg (pcr_model q) (partialStage q i r w)" for i w
    using shard by (auto simp: deriveExecutionShardID_def executionShardID_def split: if_splits)
  then show "evaluateCandidates inventory (rangeRequirement q r
       (executionShardID dg (pcr_model q) (partialStage q i r w))) = Inr (prs_evaluation search)"
    using ev search by simp
  show "prs_rangeEstimate search = r" by (simp add: search)
  show "option_of inventory profile q r (prs_evaluation search) opt"
    if chosen: "opt \<in> set (prs_options search)"
  proof -
    obtain c where "c \<in> set (filter cd_eligible (ev_candidates ev))" "rangeOption inventory profile q r c = Inr opt"
      using list_all2_right [OF options, of opt] chosen by (auto simp: search)
    then show ?thesis by (auto simp: option_of_def rangeOption_Inr search)
  qed
  show "\<exists>opt \<in> set (prs_options search). rangeOption inventory profile q r c = Inr opt"
    if "c \<in> set (ev_candidates (prs_evaluation search))" "cd_eligible c"
    using list_all2_left [OF options, of c] that by (simp add: search)
qed

text \<open>The estimates read only the layers of a stage, and nothing of the stage list of a request.\<close>

lemma scoreStageCompute_stage:
  "es_layerStart s = es_layerStart t \<Longrightarrow> es_layerEnd s = es_layerEnd t \<Longrightarrow>
   scoreStageCompute profile model w s (q\<lparr>psr_stages := es\<rparr>) e = scoreStageCompute profile model w t q e"
  by (simp add: scoreStageCompute_def findComputeProfile_def)

lemma scoreStageTransfer_stages:
  "scoreStageTransfer profile w (q\<lparr>psr_stages := es\<rparr>) e = scoreStageTransfer profile w q e"
  by (cases q) (simp only: scoreStageTransfer_def findLinkProfile_def plan_scoring_request.select_convs
      plan_scoring_request.update_convs)

definition sharded :: "digests \<Rightarrow> execution_model \<Rightarrow> execution_stage \<Rightarrow> execution_stage" where
  "sharded dg m s = s\<lparr>es_shardID := executionShardID dg m s\<rparr>"

lemma sharded_fields [simp]:
  "es_name (sharded dg m s) = es_name s" "es_targetID (sharded dg m s) = es_targetID s"
  "es_shardID (sharded dg m s) = executionShardID dg m s" "es_layerStart (sharded dg m s) = es_layerStart s"
  "es_layerEnd (sharded dg m s) = es_layerEnd s" "es_ownsInput (sharded dg m s) = es_ownsInput s"
  "es_ownsOutput (sharded dg m s) = es_ownsOutput s" "es_responseMode (sharded dg m s) = es_responseMode s"
  by (simp_all add: sharded_def)

text \<open>
  Selecting the target of a stage of a built plan repeats the evaluation of its range.
\<close>

lemma selectStage_range:
  assumes "preparePlanRange dg inventory profile q r = Inr search"
    and "ep_model plan = pcr_model q" and "es ! i = rce_estimate r"
  shows "selectStage inventory plan ((pcr_scoring q)\<lparr>psr_stages := es\<rparr>)
      (i, sharded dg (pcr_model q) (partialStage q i r w)) =
    (case findCandidate (ev_candidates (prs_evaluation search)) (wk_ID w) of
       None \<Rightarrow> Inl (ScoreTargetMissing i (wk_ID w))
     | Some c \<Rightarrow> Inr \<lparr>spe_index = int i, spe_stage = sharded dg (pcr_model q) (partialStage q i r w),
         spe_eligibility = prs_evaluation search, spe_selectedCandidate = c,
         spe_compute = zeroCompute, spe_transfer = zeroTransfer\<rparr>)"
proof -
  have "planRequirement plan ((pcr_scoring q)\<lparr>psr_stages := es\<rparr>)
      (sharded dg (pcr_model q) (partialStage q i r w)) (es ! i) =
      rangeRequirement q r (executionShardID dg (pcr_model q) (partialStage q i r w))"
    using assms(2,3) by (simp add: planRequirement_def rangeRequirement_def)
  then show ?thesis
    using prepared_range(2) [OF assms(1), of i w] by (simp add: selectStage_def cong: option.case_cong)
qed

section \<open>Scoring a complete path\<close>

definition built_plan ::
  "digests \<Rightarrow> inventory \<Rightarrow> plan_construction_request \<Rightarrow> execution_stage list \<Rightarrow> execution_plan" where
  "built_plan dg inventory q stages =
     finalizeExecutionPlan dg (draft_plan (pcr_model q) (decimal_nat (unat (inv_revision inventory))) stages)"

lemma built_plan_fields [simp]:
  "ep_model (built_plan dg inventory q stages) = pcr_model q"
  "ep_schemaVersion (built_plan dg inventory q stages) = executionPlanSchemaVersion"
  "ep_inventoryRevision (built_plan dg inventory q stages) = decimal_nat (unat (inv_revision inventory))"
  "ep_stages (built_plan dg inventory q stages) = map (sharded dg (pcr_model q)) stages"
  by (simp_all add: built_plan_def) (simp add: finalizeExecutionPlan_def sharded_def fun_eq_iff)

text \<open>Ownership and response modes that follow the layers follow the positions.\<close>

lemma roles_of_layers:
  assumes "chained e ss" and "chain_end e ss = layers" and "0 \<le> e" and "i = 0 \<longleftrightarrow> e = 0" and "i + length ss = n"
    and "t \<in> {stageResponseTensor, stageResponseSampledToken}"
    and "\<forall>s \<in> set ss. es_ownsInput s = (es_layerStart s = 0) \<and> es_ownsOutput s = (es_layerEnd s = layers) \<and>
      es_responseMode s = (if es_layerEnd s = layers then t else stageResponseTensor)"
  shows "roles_ok n i ss"
  using assms
proof (induction e ss arbitrary: i rule: chained.induct)
  case (1 e)
  then show ?case by simp
next
  case (2 e s rest)
  have last: "es_layerEnd s = layers \<longleftrightarrow> rest = []"
    using chain_end_ge [of "es_layerEnd s" rest] 2(2,3) by (cases rest) auto
  have "roles_ok n (Suc i) rest" by (rule 2(1)) (use 2 in auto)
  then show ?case using 2 last by (auto simp: stage_role_ok_def)
qed

lemma stage_name_inj: "''stage-'' @ decimal (int i) = ''stage-'' @ decimal (int j) \<longleftrightarrow> i = j"
  by (simp add: decimal_inj)

lemma nth_choice_stages:
  "i < length cs \<Longrightarrow> choice_stages q cs ! i = partialStage q i (fst (cs ! i)) (po_worker (snd (cs ! i)))"
  by (simp add: split_def)

lemma choice_names: "distinct (map es_name (choice_stages q cs))"
proof -
  have "map es_name (choice_stages q cs) = map (\<lambda>i. ''stage-'' @ decimal (int i)) [0..<length cs]"
    by (rule nth_equalityI) (simp_all add: split_def)
  moreover have "inj_on (\<lambda>i. ''stage-'' @ decimal (int i)) (set [0..<length cs])"
    by (rule inj_onI) (simp only: stage_name_inj)
  ultimately show ?thesis by (simp only: distinct_map distinct_upt)
qed

lemma path_buildable:
  assumes accepted: "request_accepted dg inventory profile q" and path: "search_path q searches cs p"
    and ascending: "\<And>search. search \<in> set searches \<Longrightarrow>
      rce_layerStart (prs_rangeEstimate search) < rce_layerEnd (prs_rangeEstimate search)"
    and named: "\<And>search opt. search \<in> set searches \<Longrightarrow> opt \<in> set (prs_options search) \<Longrightarrow> wk_ID (po_worker opt) \<noteq> []"
    and complete: "complete q p"
  shows "buildable (pcr_model q) (pp_stages p)"
proof -
  note shape = path_shape [OF path]
  have chain: "chained 0 (pp_stages p)" by (rule path_chained [OF path ascending])
  have "0 < em_layerCount (pcr_model q)" using accepted by (auto simp: request_accepted_def)
  then have ne: "pp_stages p \<noteq> []" using shape(6) complete by auto
  have fields: "es_ownsInput s = (es_layerStart s = 0) \<and> es_ownsOutput s = (es_layerEnd s = em_layerCount (pcr_model q)) \<and>
      es_responseMode s = (if es_layerEnd s = em_layerCount (pcr_model q) then pcr_terminalResponseMode q
        else stageResponseTensor) \<and> es_name s \<noteq> []" if "s \<in> set (pp_stages p)" for s
    using that by (auto simp: shape(1) partialStage_def)
  have "roles_ok (length (pp_stages p)) 0 (pp_stages p)"
    by (rule roles_of_layers [OF chain, where t = "pcr_terminalResponseMode q"])
       (use accepted fields shape(6) complete in \<open>auto simp: request_accepted_def\<close>)
  moreover have "[] \<noteq> wk_ID (po_worker opt)" if "search \<in> set searches" "opt \<in> set (prs_options search)" for search opt
    using named [OF that] by metis
  with path have "[] \<notin> set (plan_targets p)"
    by (induction rule: search_path.induct) (auto simp: emptyPlan_def extendPartialPlan_Inr)
  moreover have "[] \<notin> es_name ` set (pp_stages p)" using fields by (metis imageE)
  moreover have "distinct (map es_name (pp_stages p))" unfolding shape(1) by (rule choice_names)
  moreover have "em_ID (pcr_model q) \<noteq> []" "em_checkpointFingerprint (pcr_model q) \<noteq> []"
    using accepted by (simp_all add: request_accepted_def)
  moreover have "chain_end 0 (pp_stages p) = em_layerCount (pcr_model q)" using shape(6) complete by simp
  ultimately show ?thesis
    unfolding buildable_def identities_ok_def using chain ne shape(5) by (simp only: set_map simp_thms)
qed

lemma validateScoringContext_stages:
  "validateScoringContext (q\<lparr>psr_stages := es\<rparr>) = validateScoringContext q"
  by (cases q) (simp only: validateScoringContext_def plan_scoring_request.select_convs
      plan_scoring_request.update_convs)

lemma built_inputs_valid:
  assumes accepted: "request_accepted dg inventory profile q" and build: "buildable (pcr_model q) stages"
    and len: "length estimates = length stages"
    and estimates: "\<And>e. e \<in> set estimates \<Longrightarrow> validateStageCostEstimate e (psr_decodeSteps (pcr_scoring q)) = Inr ()"
  shows "validateScoringInputs dg inventory profile (built_plan dg inventory q stages)
      ((pcr_scoring q)\<lparr>psr_stages := estimates\<rparr>) = Inr ()"
proof -
  have "validateExecutionPlan dg (built_plan dg inventory q stages) = Inr ()"
    using build by (simp add: built_plan_def validate_iff valid_finalize_iff)
  moreover have "validateScoringContext ((pcr_scoring q)\<lparr>psr_stages := estimates\<rparr>) = Inr ()"
    "validateScoringSnapshots inventory profile = Inr ()"
    using accepted by (simp_all add: request_accepted_def validateScoringContext_stages)
  moreover have "collect (\<lambda>(index, e). map_error (ScoreEstimateInvalid index)
      (validateStageCostEstimate e (psr_decodeSteps (pcr_scoring q)))) (indexed estimates) =
      Inr (map (\<lambda>_. ()) (indexed estimates))"
    by (rule collect_Inr_map) (auto simp: set_indexed estimates)
  ultimately show ?thesis using len by (simp add: validateScoringInputs_def)
qed

text \<open>The scores of the stages, merged one after the other.\<close>

definition merge_choices ::
  "(range_cost_estimate \<times> plan_stage_option) list \<Rightarrow> plan_score \<Rightarrow> scoring_error + plan_score" where
  "merge_choices cs score = fold_result (\<lambda>(r, opt) score. mergeStageScore score (po_worker opt) (po_candidate opt)
     (rce_estimate r) (po_compute opt) (po_transfer opt)) cs score"

lemma merge_stageCount:
  "mergeStageScore (score\<lparr>sco_stageCount := n\<rparr>) w c e compute transfer = Inr s' \<longleftrightarrow>
     (\<exists>s. mergeStageScore score w c e compute transfer = Inr s \<and> s' = s\<lparr>sco_stageCount := n\<rparr>)"
  unfolding mergeStageScore_def Let_def and_then_Inr guard_Inr by (cases score) auto

lemma path_merged:
  assumes "search_path q searches cs p"
  shows "merge_choices cs (zeroScore n) = Inr ((pp_score p)\<lparr>sco_stageCount := n\<rparr>)"
  using assms
proof (induction rule: search_path.induct)
  case path_start
  then show ?case by (simp add: merge_choices_def emptyPlan_def zeroScore_def)
next
  case (path_extend cs state search opt p)
  obtain score where score: "mergeStageScore (pp_score state) (po_worker opt) (po_candidate opt)
      (rce_estimate (prs_rangeEstimate search)) (po_compute opt) (po_transfer opt) = Inr score"
    and p: "(pp_score p)\<lparr>sco_stageCount := n\<rparr> = score\<lparr>sco_stageCount := n\<rparr>"
    using path_extend.hyps(6) by (auto simp: extendPartialPlan_Inr)
  have "mergeStageScore ((pp_score state)\<lparr>sco_stageCount := n\<rparr>) (po_worker opt) (po_candidate opt)
      (rce_estimate (prs_rangeEstimate search)) (po_compute opt) (po_transfer opt) = Inr (score\<lparr>sco_stageCount := n\<rparr>)"
    using score by (auto simp: merge_stageCount)
  then show ?case using path_extend.IH by (simp add: merge_choices_def fold_result_append p)
qed

text \<open>A selected stage agrees with the choice that led to it.\<close>

definition stage_matches ::
  "inventory \<Rightarrow> profile_snapshot \<Rightarrow> execution_plan \<Rightarrow> plan_scoring_request \<Rightarrow> nat \<Rightarrow>
   range_cost_estimate \<times> plan_stage_option \<Rightarrow> stage_plan_evaluation \<Rightarrow> bool" where
  "stage_matches inventory profile plan q i = (\<lambda>(r, opt) s.
     spe_selectedCandidate s = po_candidate opt \<and>
     workersByID inventory (es_targetID (spe_stage s)) = Some (po_worker opt) \<and>
     psr_stages q ! i = rce_estimate r \<and>
     scoreStageCompute profile (ep_model plan) (po_worker opt) (spe_stage s) q (rce_estimate r) = Inr (po_compute opt) \<and>
     scoreStageTransfer profile (po_worker opt) q (rce_estimate r) = Inr (po_transfer opt))"

lemma scoreStages_merged:
  assumes "length cs = length ss"
    and "\<And>j. j < length cs \<Longrightarrow> stage_matches inventory profile plan q (k + j) (cs ! j) (ss ! j)"
  shows "(\<exists>ss'. scoreStages inventory profile plan q k score ss = Inr (ss', final)) \<longleftrightarrow>
    merge_choices cs score = Inr final"
  using assms
proof (induction cs ss arbitrary: k score rule: list_induct2)
  case Nil
  then show ?case by (simp add: merge_choices_def)
next
  case (Cons c cs s ss)
  obtain r opt where c: "c = (r, opt)" by (cases c)
  have m: "stage_matches inventory profile plan q k (r, opt) s" using Cons.prems [of 0] by (simp add: c)
  then have stage: "scoreStage inventory profile plan q k score s = Inr (s', score') \<longleftrightarrow>
      s' = s\<lparr>spe_compute := po_compute opt, spe_transfer := po_transfer opt\<rparr> \<and>
      mergeStageScore score (po_worker opt) (po_candidate opt) (rce_estimate r) (po_compute opt) (po_transfer opt) =
        Inr score'" for s' score'
    by (auto simp: stage_matches_def scoreStage_def Let_def and_then_Inr)
  have IH: "(\<exists>ss'. scoreStages inventory profile plan q (Suc k) score' ss = Inr (ss', final)) \<longleftrightarrow>
      merge_choices cs score' = Inr final" for score'
    by (rule Cons.IH) (use Cons.prems [of "Suc j" for j] in simp)
  have "(\<exists>ss'. scoreStages inventory profile plan q k score (s # ss) = Inr (ss', final)) \<longleftrightarrow>
      (\<exists>score'. mergeStageScore score (po_worker opt) (po_candidate opt) (rce_estimate r) (po_compute opt)
         (po_transfer opt) = Inr score' \<and>
       (\<exists>ss'. scoreStages inventory profile plan q (Suc k) score' ss = Inr (ss', final)))"
    by (auto simp: and_then_Inr stage)
  then show ?case by (simp add: IH c merge_choices_def and_then_Inr)
qed

section \<open>Complete paths are complete plans\<close>

definition prepared ::
  "digests \<Rightarrow> inventory \<Rightarrow> profile_snapshot \<Rightarrow> plan_construction_request \<Rightarrow> plan_range_search list \<Rightarrow> bool" where
  "prepared dg inventory profile q searches \<longleftrightarrow>
     request_accepted dg inventory profile q \<and> plain_ids inventory \<and>
     list_all2 (\<lambda>r search. preparePlanRange dg inventory profile q r = Inr search) (pcr_ranges q) searches"

lemma prepared_search:
  assumes "prepared dg inventory profile q searches" and "search \<in> set searches"
  shows "prs_rangeEstimate search \<in> set (pcr_ranges q)"
    "preparePlanRange dg inventory profile q (prs_rangeEstimate search) = Inr search"
proof -
  have "list_all2 (\<lambda>r search. preparePlanRange dg inventory profile q r = Inr search) (pcr_ranges q) searches"
    using assms(1) by (simp only: prepared_def)
  from list_all2_right [OF this assms(2)] obtain r where
    r: "r \<in> set (pcr_ranges q)" "preparePlanRange dg inventory profile q r = Inr search" by blast
  then show "prs_rangeEstimate search \<in> set (pcr_ranges q)"
    "preparePlanRange dg inventory profile q (prs_rangeEstimate search) = Inr search"
    using prepared_range(1) [OF r(2)] by simp_all
qed

lemma prepared_option:
  assumes "prepared dg inventory profile q searches" and "search \<in> set searches" and "opt \<in> set (prs_options search)"
  shows "option_of inventory profile q (prs_rangeEstimate search) (prs_evaluation search) opt"
    "po_worker opt \<in> set (inv_workers inventory)" "wk_ID (po_worker opt) = cd_workerID (po_candidate opt)"
    "workersByID inventory (wk_ID (po_worker opt)) = Some (po_worker opt)"
    "findCandidate (ev_candidates (prs_evaluation search)) (wk_ID (po_worker opt)) = Some (po_candidate opt)"
proof -
  note range = prepared_search(2) [OF assms(1,2)]
  show opt: "option_of inventory profile q (prs_rangeEstimate search) (prs_evaluation search) opt"
    by (rule prepared_range(3) [OF range assms(3)])
  have d: "distinct_ids inventory" using assms(1) accepted_distinct by (auto simp: prepared_def)
  have w: "workersByID inventory (cd_workerID (po_candidate opt)) = Some (po_worker opt)"
    using opt by (simp add: option_of_def)
  then show "po_worker opt \<in> set (inv_workers inventory)" and id: "wk_ID (po_worker opt) = cd_workerID (po_candidate opt)"
    by (simp_all add: workersByID_iff [OF d])
  then show "workersByID inventory (wk_ID (po_worker opt)) = Some (po_worker opt)" using w by simp
  have "distinct (map cd_workerID (ev_candidates (prs_evaluation search)))"
    by (rule candidate_ids [OF prepared_range(2) [OF range] d])
  moreover have "po_candidate opt \<in> set (ev_candidates (prs_evaluation search))" using opt by (simp add: option_of_def)
  ultimately show "findCandidate (ev_candidates (prs_evaluation search)) (wk_ID (po_worker opt)) = Some (po_candidate opt)"
    unfolding findCandidate_def id by (rule find_unique)
qed

lemma prepared_graph:
  assumes "prepared dg inventory profile q searches"
  shows "range_graph q searches"
  using assms prepared_search(1) [OF assms] prepared_option(2) [OF assms]
  unfolding range_graph_def prepared_def request_accepted_def plain_ids_def by fastforce

lemma path_choices:
  assumes "search_path q searches cs p" and "c \<in> set cs"
  shows "\<exists>search \<in> set searches. fst c = prs_rangeEstimate search \<and> snd c \<in> set (prs_options search)"
  using assms by (induction rule: search_path.induct) auto

lemma list_all2_exists: "(\<And>x. x \<in> set xs \<Longrightarrow> \<exists>y. R x y) \<Longrightarrow> \<exists>ys. list_all2 R xs ys"
proof (induction xs)
  case Nil
  then show ?case by simp
next
  case (Cons x xs)
  obtain y where "R x y" using Cons.prems by force
  moreover obtain ys where "list_all2 R xs ys" using Cons by force
  ultimately show ?case by (intro exI [of _ "y # ys"]) simp
qed

abbreviation choice_request ::
  "plan_construction_request \<Rightarrow> (range_cost_estimate \<times> plan_stage_option) list \<Rightarrow> plan_scoring_request" where
  "choice_request q cs \<equiv> (pcr_scoring q)\<lparr>psr_stages := map (rce_estimate \<circ> fst) cs\<rparr>"

lemma choice_selected:
  assumes prepared: "prepared dg inventory profile q searches" and j: "j < length cs"
    and search: "search \<in> set searches" "fst (cs ! j) = prs_rangeEstimate search" "snd (cs ! j) \<in> set (prs_options search)"
    and plan: "ep_model plan = pcr_model q"
    and s: "selectStage inventory plan (choice_request q cs)
      (j, sharded dg (pcr_model q) (partialStage q j (fst (cs ! j)) (po_worker (snd (cs ! j))))) = Inr s"
  shows "cd_eligible (spe_selectedCandidate s)"
    "stage_matches inventory profile plan (choice_request q cs) j (cs ! j) s"
proof -
  define r opt where "r = fst (cs ! j)" and "opt = snd (cs ! j)"
  have c: "cs ! j = (r, opt)" by (simp add: r_def opt_def)
  note range = prepared_search(2) [OF prepared search(1)]
  note option = prepared_option [OF prepared search(1) search(3)]
  have "map (rce_estimate \<circ> fst) cs ! j = rce_estimate (prs_rangeEstimate search)" using j search(2) by simp
  from selectStage_range [OF range plan this, of "po_worker opt"]
  have chosen: "spe_selectedCandidate s = po_candidate opt"
    and stage: "spe_stage s = sharded dg (pcr_model q) (partialStage q j r (po_worker opt))"
    using s option(5) search(2) by (auto simp: r_def opt_def)
  then show "cd_eligible (spe_selectedCandidate s)" using option(1) by (simp add: option_of_def opt_def)
  have r: "r = prs_rangeEstimate search" by (simp add: r_def search(2))
  have option': "option_of inventory profile q r (prs_evaluation search) opt"
    "workersByID inventory (wk_ID (po_worker opt)) = Some (po_worker opt)"
    using option(1,4) by (simp_all add: r opt_def)
  have "scoreStageCompute profile (ep_model plan) (po_worker opt) (spe_stage s) (choice_request q cs) (rce_estimate r) =
      scoreStageCompute profile (pcr_model q) (po_worker opt) (rangeStage q r (po_worker opt)) (pcr_scoring q) (rce_estimate r)"
    unfolding plan stage by (rule scoreStageCompute_stage) (simp_all add: rangeStage_def)
  then show "stage_matches inventory profile plan (choice_request q cs) j (cs ! j) s"
    unfolding stage_matches_def c prod.case scoreStageTransfer_stages
    using option' chosen stage j by (simp add: option_of_def r_def)
qed

lemma choices_selected:
  assumes prepared: "prepared dg inventory profile q searches"
    and choices: "\<And>c. c \<in> set cs \<Longrightarrow> \<exists>search \<in> set searches. fst c = prs_rangeEstimate search \<and> snd c \<in> set (prs_options search)"
  shows "\<exists>ss. collect (selectStage inventory (built_plan dg inventory q (choice_stages q cs)) (choice_request q cs))
      (indexed (ep_stages (built_plan dg inventory q (choice_stages q cs)))) = Inr ss \<and>
    list_all (\<lambda>s. cd_eligible (spe_selectedCandidate s)) ss \<and> length cs = length ss \<and>
    (\<forall>j < length cs. stage_matches inventory profile (built_plan dg inventory q (choice_stages q cs))
      (choice_request q cs) j (cs ! j) (ss ! j))"
proof -
  let ?plan = "built_plan dg inventory q (choice_stages q cs)"
  let ?stage = "\<lambda>j. sharded dg (pcr_model q) (partialStage q j (fst (cs ! j)) (po_worker (snd (cs ! j))))"
  have stages: "ep_stages ?plan ! j = ?stage j" if "j < length cs" for j
    using that by (simp add: nth_choice_stages split_def)
  have found: "\<exists>s. selectStage inventory ?plan (choice_request q cs) (j, ?stage j) = Inr s" if j: "j < length cs" for j
  proof -
    obtain search where search: "search \<in> set searches" "fst (cs ! j) = prs_rangeEstimate search"
      "snd (cs ! j) \<in> set (prs_options search)"
      using choices [of "cs ! j"] j by auto
    have "map (rce_estimate \<circ> fst) cs ! j = rce_estimate (prs_rangeEstimate search)" using j search(2) by simp
    from selectStage_range [OF prepared_search(2) [OF prepared search(1)] _ this, of ?plan "po_worker (snd (cs ! j))"]
    show ?thesis using prepared_option(5) [OF prepared search(1,3)] by (simp add: search(2))
  qed
  obtain ss where ss: "list_all2 (\<lambda>x s. selectStage inventory ?plan (choice_request q cs) x = Inr s)
      (indexed (ep_stages ?plan)) ss"
    using list_all2_exists [of "indexed (ep_stages ?plan)"
        "\<lambda>x s. selectStage inventory ?plan (choice_request q cs) x = Inr s"] found stages
    by (fastforce simp: set_indexed)
  then have len: "length cs = length ss" using list_all2_lengthD by fastforce
  have each: "cd_eligible (spe_selectedCandidate (ss ! j)) \<and>
      stage_matches inventory profile ?plan (choice_request q cs) j (cs ! j) (ss ! j)" if j: "j < length cs" for j
  proof -
    obtain search where search: "search \<in> set searches" "fst (cs ! j) = prs_rangeEstimate search"
      "snd (cs ! j) \<in> set (prs_options search)"
      using choices [of "cs ! j"] j by auto
    have "selectStage inventory ?plan (choice_request q cs) (j, ?stage j) = Inr (ss ! j)"
      using list_all2_nthD2 [OF ss, of j] j len stages [OF j] by simp
    from choice_selected [OF prepared j search _ this] show ?thesis by simp
  qed
  then show ?thesis using ss len by (intro exI [of _ ss]) (auto simp: collect_Inr list_all_length)
qed

lemma normalize_stages:
  "normalizeScoringRequest (q\<lparr>psr_stages := es\<rparr>) = (normalizeScoringRequest q)\<lparr>psr_stages := es\<rparr>"
  by (simp add: normalizeScoringRequest_def)

text \<open>
  The central agreement: a plan that the search completed builds, scores, and scores exactly
  as the search accumulated it.
\<close>

lemma scorePlan_choices:
  assumes prepared: "prepared dg inventory profile q searches"
    and choices: "\<And>c. c \<in> set cs \<Longrightarrow> \<exists>search \<in> set searches. fst c = prs_rangeEstimate search \<and> snd c \<in> set (prs_options search)"
    and build: "buildable (pcr_model q) (choice_stages q cs)"
  shows "(\<exists>ev. scorePlan dg inventory profile (built_plan dg inventory q (choice_stages q cs)) (choice_request q cs) = Inr ev \<and>
      pe_plan ev = built_plan dg inventory q (choice_stages q cs) \<and> pe_eligible ev \<and> pe_score ev = score) \<longleftrightarrow>
    merge_choices cs (zeroScore (int (length cs))) = Inr score"
proof -
  let ?plan = "built_plan dg inventory q (choice_stages q cs)"
  obtain ss where
    collect: "collect (selectStage inventory ?plan (choice_request q cs)) (indexed (ep_stages ?plan)) = Inr ss" and
    eligible: "list_all (\<lambda>s. cd_eligible (spe_selectedCandidate s)) ss" and len: "length cs = length ss" and
    matches: "\<forall>j < length cs. stage_matches inventory profile ?plan (choice_request q cs) j (cs ! j) (ss ! j)"
    using choices_selected [OF prepared choices] by blast
  have accepted: "request_accepted dg inventory profile q" using prepared by (simp add: prepared_def)
  have normal: "normalizeScoringRequest (choice_request q cs) = choice_request q cs"
    using accepted by (simp add: normalize_stages request_accepted_def)
  have "validateStageCostEstimate e (psr_decodeSteps (pcr_scoring q)) = Inr ()"
    if "e \<in> set (map (rce_estimate \<circ> fst) cs)" for e
    using that choices prepared_search(1) [OF prepared] accepted by (fastforce simp: request_accepted_def)
  then have inputs: "validateScoringInputs dg inventory profile ?plan (choice_request q cs) = Inr ()"
    by (intro built_inputs_valid [OF accepted build]) simp_all
  have stages: "length (ep_stages ?plan) = length cs" by simp
  have "(\<exists>ss'. scoreStages inventory profile ?plan (choice_request q cs) 0 (zeroScore (int (length cs))) ss = Inr (ss', score)) \<longleftrightarrow>
      merge_choices cs (zeroScore (int (length cs))) = Inr score"
    using scoreStages_merged [OF len, of inventory profile ?plan "choice_request q cs" 0] matches by simp
  then show ?thesis
    unfolding scorePlan_def normal Let_def inputs collect and_then.simps stages
    using eligible by (auto simp: and_then_Inr simp del: built_plan_fields)
qed

lemma complete_evaluates:
  assumes prepared: "prepared dg inventory profile q searches" and path: "search_path q searches cs p"
    and complete: "complete q p"
  shows "\<exists>ev. evaluateCompletePlan dg inventory profile q p = Inr ev \<and> pe_eligible ev \<and>
    pe_score ev = pp_score p \<and> pe_plan ev = built_plan dg inventory q (pp_stages p) \<and>
    scorePlan dg inventory profile (built_plan dg inventory q (pp_stages p)) (choice_request q cs) = Inr ev"
proof -
  note shape = path_shape [OF path]
  have build: "buildable (pcr_model q) (pp_stages p)"
    by (rule path_buildable [OF _ path _ _ complete])
       (use prepared prepared_graph [OF prepared] prepared_option(2) [OF prepared] in
        \<open>auto simp: prepared_def range_graph_def plain_ids_def\<close>)
  have "(pp_score p)\<lparr>sco_stageCount := int (length cs)\<rparr> = pp_score p" using shape(3) by simp
  then have "merge_choices cs (zeroScore (int (length cs))) = Inr (pp_score p)"
    using path_merged [OF path, of "int (length cs)"] by simp
  then obtain ev where ev: "scorePlan dg inventory profile (built_plan dg inventory q (pp_stages p)) (choice_request q cs) = Inr ev"
    "pe_plan ev = built_plan dg inventory q (pp_stages p)" "pe_eligible ev" "pe_score ev = pp_score p"
    using scorePlan_choices [where cs = cs and score = "pp_score p", OF prepared path_choices [OF path]] build unfolding shape(1) by blast
  have "buildExecutionPlan dg (pcr_model q) (decimal_nat (unat (inv_revision inventory))) (pp_stages p) =
      Inr (built_plan dg inventory q (pp_stages p))"
    using build by (simp add: build_iff built_plan_def)
  then show ?thesis
    using ev shape(2) by (intro exI [of _ ev]) (simp add: evaluateCompletePlan_def)
qed

section \<open>Plans of the request are paths\<close>

text \<open>
  The plans among which the request asks for the best: no more stages than allowed, each
  over a listed range, named by position and typed by the range, with the range's estimate.
\<close>

definition plan_in_request ::
  "plan_construction_request \<Rightarrow> execution_stage list \<Rightarrow> stage_cost_estimate list \<Rightarrow> bool" where
  "plan_in_request q stages estimates \<longleftrightarrow>
     length estimates = length stages \<and> int (length stages) \<le> pcr_maxStages q \<and>
     (\<forall>i < length stages. \<exists>r \<in> set (pcr_ranges q). \<exists>w.
        stages ! i = partialStage q i r w \<and> estimates ! i = rce_estimate r)"

lemma eligible_plan_choices:
  assumes prepared: "prepared dg inventory profile q searches"
    and plan: "plan_in_request q stages estimates" and build: "buildable (pcr_model q) stages"
    and scored: "scorePlan dg inventory profile (built_plan dg inventory q stages)
      ((pcr_scoring q)\<lparr>psr_stages := estimates\<rparr>) = Inr ev" "pe_eligible ev"
  shows "\<exists>cs. stages = choice_stages q cs \<and> estimates = map (rce_estimate \<circ> fst) cs \<and>
    (\<forall>c \<in> set cs. \<exists>search \<in> set searches. fst c = prs_rangeEstimate search \<and> snd c \<in> set (prs_options search))"
proof -
  let ?plan = "built_plan dg inventory q stages" and ?q = "(pcr_scoring q)\<lparr>psr_stages := estimates\<rparr>"
  have accepted: "request_accepted dg inventory profile q"
    and ranges: "list_all2 (\<lambda>r search. preparePlanRange dg inventory profile q r = Inr search) (pcr_ranges q) searches"
    using prepared by (simp_all add: prepared_def)
  have d: "distinct_ids inventory" by (rule accepted_distinct [OF accepted])
  have normal: "normalizeScoringRequest ?q = ?q"
    using accepted by (simp add: normalize_stages request_accepted_def)
  obtain ss where collect: "collect (selectStage inventory ?plan ?q) (indexed (ep_stages ?plan)) = Inr ss"
    and eligible: "list_all (\<lambda>s. cd_eligible (spe_selectedCandidate s)) ss"
    using scorePlan_run [OF scored(1)] scored(2) unfolding normal by metis
  have choice: "\<exists>c. stages ! i = partialStage q i (fst c) (po_worker (snd c)) \<and> estimates ! i = rce_estimate (fst c) \<and>
      (\<exists>search \<in> set searches. fst c = prs_rangeEstimate search \<and> snd c \<in> set (prs_options search))"
    if i: "i < length stages" for i
  proof -
    obtain r w where r: "r \<in> set (pcr_ranges q)" "stages ! i = partialStage q i r w" "estimates ! i = rce_estimate r"
      using plan i unfolding plan_in_request_def by blast
    obtain search where search: "search \<in> set searches" "preparePlanRange dg inventory profile q r = Inr search"
      using list_all2_left [OF ranges r(1)] by blast
    have sel: "selectStage inventory ?plan ?q (i, sharded dg (pcr_model q) (stages ! i)) = Inr (ss ! i)" "i < length ss"
      using list_all2_nthD [OF collect [unfolded collect_Inr], of i] list_all2_lengthD [OF collect [unfolded collect_Inr]] i
      by simp_all
    note range = selectStage_range [OF search(2) _ r(3), of ?plan w, unfolded r(2) [symmetric]]
    obtain c where c: "findCandidate (ev_candidates (prs_evaluation search)) (wk_ID w) = Some c"
      using range sel(1) by (cases "findCandidate (ev_candidates (prs_evaluation search)) (wk_ID w)") simp_all
    have "spe_selectedCandidate (ss ! i) = c"
      using range sel(1) [symmetric] by (simp add: c)
    note c = c this
    have cand: "c \<in> set (ev_candidates (prs_evaluation search))" "cd_workerID c = wk_ID w"
      using find_SomeD [OF c(1) [unfolded findCandidate_def]] by auto
    have "cd_eligible c" using eligible sel(2) c(2) by (auto simp: list_all_length)
    from prepared_range(4) [OF search(2) cand(1) this] obtain opt where
      opt: "opt \<in> set (prs_options search)" "rangeOption inventory profile q r c = Inr opt" by blast
    then have "wk_ID (po_worker opt) = wk_ID w" using cand(2) by (auto simp: rangeOption_Inr workersByID_iff [OF d])
    then have "stages ! i = partialStage q i r (po_worker opt)" by (simp add: r(2) partialStage_def)
    then show ?thesis
      using r(3) search(1) opt(1) prepared_range(1) [OF search(2)] by (intro exI [of _ "(r, opt)"]) auto
  qed
  let ?R = "\<lambda>i c. stages ! i = partialStage q i (fst c) (po_worker (snd c)) \<and> estimates ! i = rce_estimate (fst c) \<and>
      (\<exists>search \<in> set searches. fst c = prs_rangeEstimate search \<and> snd c \<in> set (prs_options search))"
  have "\<exists>cs. list_all2 ?R [0..<length stages] cs"
  proof (rule list_all2_exists)
    fix i assume "i \<in> set [0..<length stages]"
    then show "\<exists>c. ?R i c" by (intro choice) simp
  qed
  then obtain cs where cs: "list_all2 ?R [0..<length stages] cs" by blast
  have len: "length cs = length stages" using list_all2_lengthD [OF cs] by simp
  have each: "stages ! i = partialStage q i (fst (cs ! i)) (po_worker (snd (cs ! i)))" "estimates ! i = rce_estimate (fst (cs ! i))"
    if "i < length cs" for i
    using list_all2_nthD [OF cs, of i] that len by simp_all
  have "stages = choice_stages q cs"
    by (rule nth_equalityI) (simp_all add: len each(1) split_def)
  moreover have "estimates = map (rce_estimate \<circ> fst) cs"
    using plan by (intro nth_equalityI) (simp_all add: len each(2) plan_in_request_def)
  moreover have "\<forall>c \<in> set cs. \<exists>search \<in> set searches. fst c = prs_rangeEstimate search \<and> snd c \<in> set (prs_options search)"
    using list_all2_right [OF cs] by blast
  ultimately show ?thesis by blast
qed

lemma choices_path:
  assumes choices: "\<And>c. c \<in> set cs \<Longrightarrow> \<exists>search \<in> set searches. fst c = prs_rangeEstimate search \<and> snd c \<in> set (prs_options search)"
    and chained: "chained 0 (choice_stages q cs)" and targets: "distinct (map es_targetID (choice_stages q cs))"
    and merged: "merge_choices cs (zeroScore n) = Inr score"
  shows "\<exists>p. search_path q searches cs p"
  using assms
proof (induction cs arbitrary: score rule: rev_induct)
  case Nil
  show ?case using path_start by blast
next
  case (snoc c cs)
  obtain r opt where c: "c = (r, opt)" by (cases c)
  have stages: "choice_stages q (cs @ [c]) = choice_stages q cs @ [partialStage q (length cs) r (po_worker opt)]"
    by (simp add: indexed_snoc c)
  obtain middle where middle: "merge_choices cs (zeroScore n) = Inr middle"
    and last: "mergeStageScore middle (po_worker opt) (po_candidate opt) (rce_estimate r) (po_compute opt)
      (po_transfer opt) = Inr score"
    using snoc.prems(4) by (auto simp: merge_choices_def fold_result_append and_then_Inr c)
  have chain: "chained 0 (choice_stages q cs)" "rce_layerStart r = chain_end 0 (choice_stages q cs)"
    using snoc.prems(2) unfolding stages chained_snoc by simp_all
  have unused: "distinct (map es_targetID (choice_stages q cs))" "wk_ID (po_worker opt) \<notin> set (map es_targetID (choice_stages q cs))"
    using snoc.prems(3) unfolding stages by simp_all
  obtain p where p: "search_path q searches cs p"
    using snoc.IH [OF snoc.prems(1) chain(1) unused(1) middle] by auto
  note shape = path_shape [OF p]
  obtain s where "mergeStageScore (pp_score p) (po_worker opt) (po_candidate opt) (rce_estimate r) (po_compute opt)
      (po_transfer opt) = Inr s"
    using last path_merged [OF p, of n] middle by (auto simp: merge_stageCount)
  then obtain p' where p': "extendPartialPlan q p r opt = Inr p'" by (auto simp: extendPartialPlan_Inr)
  obtain search where search: "search \<in> set searches" "r = prs_rangeEstimate search" "opt \<in> set (prs_options search)"
    using snoc.prems(1) [of c] by (auto simp: c)
  have "search_path q searches (cs @ [(prs_rangeEstimate search, opt)]) p'"
    by (rule path_extend [OF p search(1) _ search(3)])
       (use chain(2) unused(2) shape(1,6) p' in \<open>simp_all add: search(2) uses_iff del: set_map\<close>)
  then show ?case using c search(2) by blast
qed

lemma eligible_plan_path:
  assumes prepared: "prepared dg inventory profile q searches"
    and plan: "plan_in_request q stages estimates" and build: "buildable (pcr_model q) stages"
    and scored: "scorePlan dg inventory profile (built_plan dg inventory q stages)
      ((pcr_scoring q)\<lparr>psr_stages := estimates\<rparr>) = Inr ev" "pe_eligible ev"
  shows "\<exists>cs p. search_path q searches cs p \<and> complete q p \<and> 0 < length cs \<and> length cs \<le> nat (pcr_maxStages q) \<and>
    evaluateCompletePlan dg inventory profile q p = Inr ev"
proof -
  obtain cs where cs: "stages = choice_stages q cs" "estimates = map (rce_estimate \<circ> fst) cs"
    and choices: "\<And>c. c \<in> set cs \<Longrightarrow> \<exists>search \<in> set searches. fst c = prs_rangeEstimate search \<and> snd c \<in> set (prs_options search)"
    using eligible_plan_choices [OF assms] by blast
  have build': "buildable (pcr_model q) (choice_stages q cs)" using build cs(1) by simp
  have "pe_plan ev = built_plan dg inventory q (choice_stages q cs)"
    using scorePlan_run [OF scored(1)] cs(1) by metis
  then have "merge_choices cs (zeroScore (int (length cs))) = Inr (pe_score ev)"
    using scorePlan_choices [where cs = cs and score = "pe_score ev", OF prepared choices build'] scored cs by auto
  moreover have "chained 0 (choice_stages q cs)" "distinct (map es_targetID (choice_stages q cs))"
    using build' by (simp_all only: buildable_def identities_ok_def)
  ultimately obtain p where p: "search_path q searches cs p"
    using choices_path [where cs = cs and searches = searches, OF choices] by blast
  note shape = path_shape [OF p]
  have complete: "complete q p" using shape(1,6) build' by (simp add: buildable_def)
  have "cs \<noteq> []" using build' by (auto simp: buildable_def indexed_def)
  moreover have "length cs \<le> nat (pcr_maxStages q)" using plan cs(1) by (auto simp: plan_in_request_def)
  moreover have "evaluateCompletePlan dg inventory profile q p = Inr ev"
    using complete_evaluates [OF prepared p complete] scored(1) cs shape(1) by auto
  ultimately show ?thesis using p complete by blast
qed

section \<open>Preference between complete paths\<close>

lemma compareStageIdentity_sharded:
  assumes "es_shardID s = []" and "es_shardID t = []"
  shows "compareStageIdentity (sharded dg m s) (sharded dg m t) = compareStageIdentity s t"
proof (cases "s = t")
  case True
  then show ?thesis using stage_identity.cmp_self by simp
next
  case False
  then have "compareStageIdentity s t \<noteq> 0" by (simp add: compareStageIdentity_zero)
  then show ?thesis using assms by (auto simp: compareStageIdentity_def)
qed

lemma compareStagesIdentity_sharded:
  "length ss = length ts \<Longrightarrow> \<forall>s \<in> set ss \<union> set ts. es_shardID s = [] \<Longrightarrow>
   compareStagesIdentity (map (sharded dg m) ss) (map (sharded dg m) ts) = compareStagesIdentity ss ts"
  by (induction ss ts rule: list_induct2) (auto simp: compareStageIdentity_sharded)

lemma complete_preference:
  assumes prepared: "prepared dg inventory profile q searches"
    and v: "search_path q searches cv v" "complete q v" "evaluateCompletePlan dg inventory profile q v = Inr ev"
    and p: "search_path q searches cp p" "complete q p" "evaluateCompletePlan dg inventory profile q p = Inr ep"
    and len: "length cv = length cp" and le: "comparePartialPlans v p \<le> 0"
  shows "comparePlanEvaluations ev ep \<le> 0"
proof -
  have ev: "pe_eligible ev" "pe_score ev = pp_score v" "pe_plan ev = built_plan dg inventory q (pp_stages v)"
    using complete_evaluates [OF prepared v(1,2)] v(3) by auto
  have ep: "pe_eligible ep" "pe_score ep = pp_score p" "pe_plan ep = built_plan dg inventory q (pp_stages p)"
    using complete_evaluates [OF prepared p(1,2)] p(3) by auto
  have lens: "length (pp_stages v) = length (pp_stages p)"
    using path_shape(1) [OF v(1)] path_shape(1) [OF p(1)] len by simp
  have bare: "es_shardID s = []" if "s \<in> set (pp_stages v) \<union> set (pp_stages p)" for s
    using that path_shape(1) [OF v(1)] path_shape(1) [OF p(1)] by auto
  have same: "compareStagesIdentity (ep_stages (pe_plan ev)) (ep_stages (pe_plan ep)) =
      compareStagesIdentity (pp_stages v) (pp_stages p)"
    using compareStagesIdentity_sharded [OF lens] bare by (simp add: ev(3) ep(3))
  have "comparePlanIdentity (pe_plan ev) (pe_plan ep) = compareStagesIdentity (pp_stages v) (pp_stages p)"
  proof (cases "compareStagesIdentity (pp_stages v) (pp_stages p) = 0")
    case True
    then have "pp_stages v = pp_stages p" by (simp add: compareStagesIdentity_zero [OF lens])
    then show ?thesis using True by (simp add: ev(3) ep(3) comparePlanIdentity_zero)
  next
    case False
    then show ?thesis using same lens by (simp add: comparePlanIdentity_def ev(3) ep(3))
  qed
  then show ?thesis
    using le ev ep by (auto simp: comparePlanEvaluations_def comparePartialPlans_chain bare_identity [OF lens] split: if_splits)
qed

section \<open>The result of the search\<close>

lemma rounds_fields:
  assumes "searchRounds dg inventory profile q searches left stageCount result states = Inr final"
    and "unat (pr_searchOperationCount result) \<le> unat (pcr_maxSearchOperations q)"
  shows "pr_request final = pr_request result \<and> pr_searchLimitReached final = pr_searchLimitReached result \<and>
    pr_ranges final = pr_ranges result \<and>
    unat (pr_searchOperationCount result) \<le> unat (pr_searchOperationCount final) \<and>
    unat (pr_searchOperationCount final) \<le> unat (pcr_maxSearchOperations q)"
  using assms
proof (induction left arbitrary: stageCount result states)
  case 0
  then show ?case by simp
next
  case (Suc left)
  show ?case
  proof (cases "states = []")
    case True
    then show ?thesis using Suc.prems by simp
  next
    case False
    obtain moved after evaluated where
      run: "fold_result (searchMove q) (searchMoves q searches stageCount states) (result, []) = Inr (moved, after)" and
      bucket: "fold_result (completeMove dg inventory profile q)
         (orderedPartialPlanBucket (filter (\<lambda>e. fst (fst e) = em_layerCount (pcr_model q)) after))
         (moved\<lparr>pr_retainedSearchStateCount := pr_retainedSearchStateCount moved + word_of_nat (length after)\<rparr>) =
         Inr evaluated" and
      rest: "searchRounds dg inventory profile q searches left (stageCount + 1) evaluated
         (filter (\<lambda>e. fst (fst e) \<noteq> em_layerCount (pcr_model q)) after) = Inr final"
      using Suc.prems(1) False by (auto simp: and_then_Inr Let_def)
    have moved: "pr_request moved = pr_request result" "pr_searchLimitReached moved = pr_searchLimitReached result"
      "pr_ranges moved = pr_ranges result" "unat (pr_searchOperationCount result) \<le> unat (pr_searchOperationCount moved)"
      "unat (pr_searchOperationCount moved) \<le> unat (pcr_maxSearchOperations q)"
      using moves_run [OF run] Suc.prems(2) by auto
    note evaluated = complete_run_fields [OF bucket]
    have "unat (pr_searchOperationCount evaluated) \<le> unat (pcr_maxSearchOperations q)"
      using evaluated moved(5) by simp
    from Suc.IH [OF rest this] show ?thesis using evaluated moved by simp
  qed
qed

lemma constructPlan_run:
  assumes "constructPlan dg inventory profile q0 = Inr res"
  obtains q searches result where
    "normalizePlanConstructionRequest dg inventory profile q0 = Inr q"
    "list_all2 (\<lambda>r search. preparePlanRange dg inventory profile q r = Inr search) (pcr_ranges q) searches"
    "searchRounds dg inventory profile q searches (nat (pcr_maxStages q)) 1 result [((0, []), emptyPlan)] = Inr res"
    "pr_request result = q" "pr_selectedPlan result = None" "\<not> pr_searchLimitReached result"
    "unat (pr_searchOperationCount result) \<le> unat (pcr_maxSearchOperations q)"
proof -
  obtain q where q: "normalizePlanConstructionRequest dg inventory profile q0 = Inr q"
    using assms by (auto simp: constructPlan_def and_then_Inr)
  obtain operations overflow where m: "multiplyUint64 (word_of_nat (length (pcr_ranges q)))
      (word_of_nat (length (inv_workers inventory))) = (operations, overflow)"
    by (cases "multiplyUint64 (word_of_nat (length (pcr_ranges q))) (word_of_nat (length (inv_workers inventory)))")
  note run = assms [unfolded constructPlan_def q and_then.simps Let_def m prod.case guard_Inr and_then_Inr collect_Inr]
  then obtain searches where
    searches: "list_all2 (\<lambda>r search. preparePlanRange dg inventory profile q r = Inr search) (pcr_ranges q) searches" and
    rounds: "searchRounds dg inventory profile q searches (nat (pcr_maxStages q)) 1
      ((initialResult inventory profile q)\<lparr>pr_searchOperationCount := operations, pr_ranges := map rangeReport searches,
         pr_candidateWorkerCount := int (length (remdups
           (map (wk_ID \<circ> po_worker) (concat (map prs_options searches)))))\<rparr>)
      [((0, []), emptyPlan)] = Inr res"
    by blast
  have "operations \<le> pcr_maxSearchOperations q" using run by auto
  then show ?thesis
    by (intro that [OF q searches rounds]) (simp_all add: initialResult_def u64_le_iff)
qed

lemma constructed:
  assumes "constructPlan dg inventory profile q0 = Inr res" and "plain_ids inventory"
  shows "\<exists>searches P. prepared dg inventory profile (pr_request res) searches \<and>
    normalizePlanConstructionRequest dg inventory profile q0 = Inr (pr_request res) \<and>
    covers_paths (pr_request res) searches 0 (nat (pcr_maxStages (pr_request res))) P \<and>
    minimum_of (evaluateCompletePlan dg inventory profile (pr_request res)) P (pr_selectedPlan res)"
proof -
  obtain q searches result where
    q: "normalizePlanConstructionRequest dg inventory profile q0 = Inr q" and
    searches: "list_all2 (\<lambda>r search. preparePlanRange dg inventory profile q r = Inr search) (pcr_ranges q) searches" and
    run: "searchRounds dg inventory profile q searches (nat (pcr_maxStages q)) 1 result [((0, []), emptyPlan)] = Inr res" and
    result: "pr_request result = q" "pr_selectedPlan result = None" "\<not> pr_searchLimitReached result"
      "unat (pr_searchOperationCount result) \<le> unat (pcr_maxSearchOperations q)"
    by (rule constructPlan_run [OF assms(1)])
  have prepared: "prepared dg inventory profile q searches"
    using normalized_accepted(1) [OF q] assms(2) searches by (simp add: prepared_def)
  note graph = prepared_graph [OF prepared]
  have "1 \<le> pcr_maxStages q" using normalized_accepted(1) [OF q] by (simp add: request_accepted_def)
  then obtain P where "covers_paths q searches 0 (nat (pcr_maxStages q)) P"
    "minimum_of (evaluateCompletePlan dg inventory profile q) P (pr_selectedPlan res)"
    using rounds_select [OF graph layer_start [OF graph] run, of "{}"] minimum_of_empty result(2) by auto
  moreover have "pr_request res = q" using rounds_fields [OF run result(4)] result(1) by simp
  ultimately show ?thesis using prepared q by auto
qed

section \<open>How the search fails\<close>

text \<open>
  Once the ranges are prepared the search can only run out of its budget, in which case it
  reports no plan, or overflow a score.
\<close>

definition search_error :: "plan_construction_request \<Rightarrow> planner_error \<Rightarrow> bool" where
  "search_error q e \<longleftrightarrow>
     (\<exists>r. e = SearchLimitAfter r \<and> pr_selectedPlan r = None \<and> pr_searchLimitReached r \<and>
        pr_searchOperationCount r = pcr_maxSearchOperations q \<and> pr_request r = q) \<or>
     (\<exists>x. e = ExtensionFailed x)"

lemma moves_error:
  assumes "fold_result (searchMove q) moves (result, t) = Inl e" and "pr_request result = q"
  shows "search_error q e"
  using assms
proof (induction moves arbitrary: result t)
  case Nil
  then show ?case by simp
next
  case (Cons move moves)
  obtain state r opt where m: "move = (state, r, opt)" by (cases move)
  show ?case
  proof (cases "searchMove q move (result, t)")
    case (Inl e')
    then have "e' = e" using Cons.prems(1) by simp
    then show ?thesis
      using Inl Cons.prems(2)
      by (auto simp: m searchMove_def search_error_def extendPartialPlan_def and_then_Inl map_error_Inl Let_def
          split: if_splits)
  next
    case (Inr x)
    obtain result' t' where x: "x = (result', t')" by (cases x)
    have "pr_request result' = q" using Inr Cons.prems(2) by (auto simp: m x searchMove_Inr)
    then show ?thesis using Cons.IH [of result' t'] Cons.prems(1) Inr by (simp add: x)
  qed
qed

lemma complete_run_total:
  assumes "\<And>p. p \<in> set ps \<Longrightarrow> \<exists>ev. evaluateCompletePlan dg inventory profile q p = Inr ev"
  shows "\<exists>result'. fold_result (completeMove dg inventory profile q) ps result = Inr result'"
  using assms
proof (induction ps arbitrary: result)
  case Nil
  then show ?case by simp
next
  case (Cons p ps)
  obtain ev where "evaluateCompletePlan dg inventory profile q p = Inr ev" using Cons.prems by auto
  then obtain r where "completeMove dg inventory profile q p result = Inr r" by (auto simp: completeMove_def Let_def)
  then show ?case using Cons by simp
qed

lemma rounds_error:
  assumes prepared: "prepared dg inventory profile q searches"
    and "layer q searches n states" and "stageCount + int left = pcr_maxStages q + 1" and "pr_request result = q"
    and "searchRounds dg inventory profile q searches left stageCount result states = Inl e"
  shows "search_error q e"
  using assms(2-)
proof (induction left arbitrary: n stageCount result states)
  case 0
  then show ?case by simp
next
  case (Suc left)
  note graph = prepared_graph [OF prepared]
  have ne: "states \<noteq> []" using Suc.prems(4) by auto
  show ?case
  proof (cases "fold_result (searchMove q) (searchMoves q searches stageCount states) (result, [])")
    case (Inl e')
    then have "e' = e" using Suc.prems(4) ne by simp
    then show ?thesis using moves_error [OF Inl Suc.prems(3)] by simp
  next
    case (Inr x)
    obtain moved after where x: "x = (moved, after)" by (cases x)
    note run = Inr [unfolded x]
    note covers = round_covers [OF graph Suc.prems(1) run]
    let ?counted = "moved\<lparr>pr_retainedSearchStateCount := pr_retainedSearchStateCount moved + word_of_nat (length after)\<rparr>"
    let ?bucket = "orderedPartialPlanBucket (filter (\<lambda>e. fst (fst e) = em_layerCount (pcr_model q)) after)"
    have "\<exists>ev. evaluateCompletePlan dg inventory profile q p = Inr ev" if "p \<in> set ?bucket" for p
      using covers(1) that complete_evaluates [OF prepared] unfolding covers_paths_def by blast
    from complete_run_total [OF this] obtain evaluated where
      bucket: "fold_result (completeMove dg inventory profile q) ?bucket ?counted = Inr evaluated" by blast
    have request: "pr_request evaluated = q"
      using complete_run_fields [OF bucket] moves_run [OF run] Suc.prems(3) by auto
    have rest: "searchRounds dg inventory profile q searches left (stageCount + 1) evaluated
        (filter (\<lambda>e. fst (fst e) \<noteq> em_layerCount (pcr_model q)) after) = Inl e"
      using Suc.prems(4) ne bucket by (simp add: run Let_def)
    then have "0 < left" by (cases left) auto
    then have last: "stageCount \<noteq> pcr_maxStages q" using Suc.prems(2) by linarith
    show ?thesis
      by (rule Suc.IH [OF covers(2) [OF last] _ request rest]) (use Suc.prems(2) in simp)
  qed
qed

text \<open>The errors that only the search proper returns.\<close>

fun raised_by_search :: "planner_error \<Rightarrow> bool" where
  "raised_by_search (CompletePlanInvalid e) = True"
| "raised_by_search (CompletePlanUnscored e) = True"
| "raised_by_search CompletePlanDisagrees = True"
| "raised_by_search (SearchLimitAfter r) = True"
| "raised_by_search (ExtensionFailed e) = True"
| "raised_by_search e = False"

lemma checkRanges_error:
  "checkRanges dg model steps index previous rs = Inl e \<Longrightarrow> \<not> raised_by_search e"
  by (induction dg model steps index previous rs rule: checkRanges.induct)
     (auto simp: and_then_Inl map_error_Inl split: if_splits)

lemma normalization_error:
  "normalizePlanConstructionRequest dg inventory profile q0 = Inl e \<Longrightarrow> \<not> raised_by_search e"
  by (auto simp: normalizePlanConstructionRequest_def Let_def and_then_Inl map_error_Inl
      split: if_splits dest!: checkRanges_error)

lemma collect_Inl: "collect f xs = Inl e \<Longrightarrow> \<exists>x \<in> set xs. f x = Inl e"
  by (induction xs) (auto simp: and_then_Inl)

lemma rangeOption_error: "rangeOption inventory profile q r c = Inl e \<Longrightarrow> \<not> raised_by_search e"
  by (auto simp: rangeOption_def Let_def and_then_Inl map_error_Inl split: option.splits)

lemma preparation_error: "preparePlanRange dg inventory profile q r = Inl e \<Longrightarrow> \<not> raised_by_search e"
  by (auto simp: preparePlanRange_def Let_def and_then_Inl map_error_Inl dest!: collect_Inl rangeOption_error)

lemma constructPlan_error:
  assumes "constructPlan dg inventory profile q0 = Inl e" and "plain_ids inventory" and "raised_by_search e"
  shows "\<exists>q. normalizePlanConstructionRequest dg inventory profile q0 = Inr q \<and> search_error q e"
proof -
  obtain q where q: "normalizePlanConstructionRequest dg inventory profile q0 = Inr q"
    using assms(1,3) normalization_error by (cases "normalizePlanConstructionRequest dg inventory profile q0")
      (auto simp: constructPlan_def)
  obtain operations overflow where m: "multiplyUint64 (word_of_nat (length (pcr_ranges q)))
      (word_of_nat (length (inv_workers inventory))) = (operations, overflow)"
    by (cases "multiplyUint64 (word_of_nat (length (pcr_ranges q))) (word_of_nat (length (inv_workers inventory)))")
  note run = assms(1) [unfolded constructPlan_def q and_then.simps Let_def m prod.case]
  have budget: "\<not> (overflow \<or> pcr_maxSearchOperations q < operations)" using run assms(3) by auto
  obtain searches where searches: "collect (preparePlanRange dg inventory profile q) (pcr_ranges q) = Inr searches"
    using run budget assms(3) preparation_error
    by (cases "collect (preparePlanRange dg inventory profile q) (pcr_ranges q)") (auto dest!: collect_Inl)
  have prepared: "prepared dg inventory profile q searches"
    using normalized_accepted(1) [OF q] assms(2) searches by (simp add: prepared_def collect_Inr)
  note graph = prepared_graph [OF prepared]
  have "1 \<le> pcr_maxStages q" using normalized_accepted(1) [OF q] by (simp add: request_accepted_def)
  then have "search_error q e"
    using run budget searches
    by (intro rounds_error [OF prepared layer_start [OF graph]]) (auto simp: initialResult_def)
  with q show ?thesis by blast
qed

section \<open>The work of the search\<close>

text \<open>
  The work is counted here without the budget and without the counter of the search: a check
  for each range and worker, and, round by round, an extension for each move there is from the
  states that the round before retained.
\<close>

definition retainMove ::
  "plan_construction_request \<Rightarrow> partial_plan \<times> range_cost_estimate \<times> plan_stage_option \<Rightarrow> plan_states \<Rightarrow> plan_states" where
  "retainMove q = (\<lambda>(state, r, opt) table.
     case extendPartialPlan q state r opt of Inl e \<Rightarrow> table | Inr candidate \<Rightarrow> retainPartialPlan candidate table)"

fun exploredMoves :: "plan_construction_request \<Rightarrow> plan_range_search list \<Rightarrow> nat \<Rightarrow> int \<Rightarrow> plan_states \<Rightarrow> nat" where
  "exploredMoves q searches 0 stageCount states = 0"
| "exploredMoves q searches (Suc left) stageCount states =
     (if states = [] then 0
      else let moves = searchMoves q searches stageCount states in
        length moves + exploredMoves q searches left (stageCount + 1)
          (filter (\<lambda>e. fst (fst e) \<noteq> em_layerCount (pcr_model q)) (fold (retainMove q) moves [])))"

definition rangeChecks :: "inventory \<Rightarrow> plan_construction_request \<Rightarrow> nat" where
  "rangeChecks inventory q = length (pcr_ranges q) * length (inv_workers inventory)"

definition searchWork :: "digests \<Rightarrow> inventory \<Rightarrow> profile_snapshot \<Rightarrow> plan_construction_request \<Rightarrow> nat option" where
  "searchWork dg inventory profile q =
     (case collect (preparePlanRange dg inventory profile q) (pcr_ranges q) of
        Inl e \<Rightarrow> None
      | Inr searches \<Rightarrow> Some (rangeChecks inventory q +
          exploredMoves q searches (nat (pcr_maxStages q)) 1 [((0, []), emptyPlan)]))"

lemma moves_work:
  assumes "fold_result (searchMove q) moves (result, t) = Inr (result', t')"
    and "unat (pr_searchOperationCount result) \<le> unat (pcr_maxSearchOperations q)"
  shows "unat (pr_searchOperationCount result') = unat (pr_searchOperationCount result) + length moves"
    "unat (pr_searchOperationCount result') \<le> unat (pcr_maxSearchOperations q)" "t' = fold (retainMove q) moves t"
proof -
  obtain cs where cs: "list_all2 (extension_of q) moves cs" "t' = fold retainPartialPlan cs t"
    "unat (pr_searchOperationCount result') = unat (pr_searchOperationCount result) + length moves"
    "unat (pr_searchOperationCount result') \<le> unat (pcr_maxSearchOperations q)"
    using moves_run [OF assms(1)] assms(2) by blast
  have "fold retainPartialPlan cs t = fold (retainMove q) moves t"
    using cs(1) by (induction moves cs arbitrary: t rule: list_all2_induct)
      (auto simp: extension_of_def retainMove_def split: prod.splits)
  then show "unat (pr_searchOperationCount result') = unat (pr_searchOperationCount result) + length moves"
    "unat (pr_searchOperationCount result') \<le> unat (pcr_maxSearchOperations q)" "t' = fold (retainMove q) moves t"
    using cs by simp_all
qed

text \<open>The error of an exhausted budget: what was left of the budget does not suffice for the moves.\<close>

definition exhausted :: "plan_construction_request \<Rightarrow> plan_construction_result \<Rightarrow> bool" where
  "exhausted q r \<longleftrightarrow> pr_searchOperationCount r = pcr_maxSearchOperations q \<and> pr_searchLimitReached r \<and>
     pr_selectedPlan r = None \<and> pr_request r = q"

lemma complete_error_not_limit:
  "fold_result (completeMove dg inventory profile q) ps result \<noteq> Inl (SearchLimitAfter r)"
proof (induction ps arbitrary: result)
  case (Cons p ps)
  have "completeMove dg inventory profile q p result \<noteq> Inl (SearchLimitAfter r)"
    by (auto simp: completeMove_def evaluateCompletePlan_def Let_def and_then_Inl map_error_Inl split: if_splits)
  then show ?case using Cons.IH by (auto simp: and_then_Inl)
qed simp

lemma moves_exhausted:
  assumes "fold_result (searchMove q) moves (result, t) = Inl (SearchLimitAfter r)"
    and "unat (pr_searchOperationCount result) \<le> unat (pcr_maxSearchOperations q)" "pr_request result = q"
  shows "unat (pcr_maxSearchOperations q) < unat (pr_searchOperationCount result) + length moves \<and> exhausted q r"
  using assms
proof (induction moves arbitrary: result t)
  case Nil
  then show ?case by simp
next
  case (Cons move moves)
  obtain state range opt where m: "move = (state, range, opt)" by (cases move)
  show ?case
  proof (cases "searchMove q move (result, t)")
    case (Inl e)
    then have "e = SearchLimitAfter r" using Cons.prems(1) by simp
    then show ?thesis
      using Inl Cons.prems(3)
      by (auto simp: m searchMove_def exhausted_def and_then_Inl map_error_Inl extendPartialPlan_def Let_def split: if_splits)
  next
    case (Inr x)
    obtain result' t' where x: "x = (result', t')" by (cases x)
    have one: "fold_result (searchMove q) [move] (result, t) = Inr (result', t')" using Inr by (simp add: x)
    note work = moves_work [OF one Cons.prems(2)]
    have "pr_request result' = q" using moves_run [OF one] Cons.prems(3) by auto
    moreover have "fold_result (searchMove q) moves (result', t') = Inl (SearchLimitAfter r)"
      using Cons.prems(1) Inr by (simp add: x)
    ultimately show ?thesis using Cons.IH [of result' t'] work by simp
  qed
qed

lemma rounds_work:
  assumes "unat (pr_searchOperationCount result) \<le> unat (pcr_maxSearchOperations q)" "pr_request result = q"
  shows "case searchRounds dg inventory profile q searches left stageCount result states of
      Inr final \<Rightarrow> unat (pr_searchOperationCount final) =
          unat (pr_searchOperationCount result) + exploredMoves q searches left stageCount states
    | Inl (SearchLimitAfter r) \<Rightarrow> exhausted q r \<and> unat (pcr_maxSearchOperations q) <
          unat (pr_searchOperationCount result) + exploredMoves q searches left stageCount states
    | Inl e \<Rightarrow> True"
  using assms
proof (induction left arbitrary: stageCount result states)
  case 0
  then show ?case by simp
next
  case (Suc left)
  show ?case
  proof (cases "states = []")
    case True
    then show ?thesis by simp
  next
    case ne: False
    let ?moves = "searchMoves q searches stageCount states"
    show ?thesis
    proof (cases "fold_result (searchMove q) ?moves (result, [])")
      case (Inl e)
      have "unat (pcr_maxSearchOperations q) < unat (pr_searchOperationCount result) + length ?moves \<and> exhausted q r"
        if "e = SearchLimitAfter r" for r
        using moves_exhausted [OF Inl [unfolded that] Suc.prems] .
      then show ?thesis using Inl ne by (cases e) (auto simp: Let_def intro: trans_less_add1 simp: add.assoc [symmetric])
    next
      case (Inr x)
      obtain moved after where x: "x = (moved, after)" by (cases x)
      note work = moves_work [OF Inr [unfolded x] Suc.prems(1)]
      have request: "pr_request moved = q" using moves_run [OF Inr [unfolded x]] Suc.prems(2) by auto
      let ?counted = "moved\<lparr>pr_retainedSearchStateCount := pr_retainedSearchStateCount moved + word_of_nat (length after)\<rparr>"
      let ?bucket = "orderedPartialPlanBucket (filter (\<lambda>e. fst (fst e) = em_layerCount (pcr_model q)) after)"
      let ?rest = "filter (\<lambda>e. fst (fst e) \<noteq> em_layerCount (pcr_model q)) after"
      show ?thesis
      proof (cases "fold_result (completeMove dg inventory profile q) ?bucket ?counted")
        case (Inl e)
        then have "\<nexists>r. e = SearchLimitAfter r" using complete_error_not_limit by blast
        then show ?thesis using Inl \<open>fold_result (searchMove q) ?moves (result, []) = Inr x\<close> x ne
          by (cases e) (simp_all add: Let_def)
      next
        case (Inr evaluated)
        note fields = complete_run_fields [OF Inr]
        have "case searchRounds dg inventory profile q searches left (stageCount + 1) evaluated ?rest of
            Inr final \<Rightarrow> unat (pr_searchOperationCount final) =
                unat (pr_searchOperationCount evaluated) + exploredMoves q searches left (stageCount + 1) ?rest
          | Inl (SearchLimitAfter r) \<Rightarrow> exhausted q r \<and> unat (pcr_maxSearchOperations q) <
                unat (pr_searchOperationCount evaluated) + exploredMoves q searches left (stageCount + 1) ?rest
          | Inl e \<Rightarrow> True"
          by (rule Suc.IH) (use fields work request in simp_all)
        moreover have "searchRounds dg inventory profile q searches (Suc left) stageCount result states =
            searchRounds dg inventory profile q searches left (stageCount + 1) evaluated ?rest"
          using \<open>fold_result (searchMove q) ?moves (result, []) = Inr x\<close> Inr ne x by (simp add: Let_def)
        moreover have "exploredMoves q searches (Suc left) stageCount states =
            length ?moves + exploredMoves q searches left (stageCount + 1) ?rest"
          using ne work(3) by (simp add: Let_def)
        moreover have "unat (pr_searchOperationCount evaluated) = unat (pr_searchOperationCount result) + length ?moves"
          using fields work(1) by simp
        ultimately show ?thesis by (simp only: add.assoc)
      qed
    qed
  qed
qed

lemma checkRanges_not_limited:
  "checkRanges dg model steps index previous rs = Inl e \<Longrightarrow> \<nexists>res. e = SearchLimitBefore res"
  by (induction dg model steps index previous rs rule: checkRanges.induct)
     (auto simp: and_then_Inl map_error_Inl split: if_splits)

lemma normalization_not_limited:
  "normalizePlanConstructionRequest dg inventory profile q0 = Inl e \<Longrightarrow> \<nexists>res. e = SearchLimitBefore res"
  by (auto simp: normalizePlanConstructionRequest_def Let_def and_then_Inl map_error_Inl
      split: if_splits dest!: checkRanges_not_limited)

lemma preparation_not_limited: "preparePlanRange dg inventory profile q r = Inl e \<Longrightarrow> \<nexists>res. e = SearchLimitBefore res"
  by (auto simp: preparePlanRange_def rangeOption_def Let_def and_then_Inl map_error_Inl dest!: collect_Inl split: option.splits)

lemma rounds_not_limited_before: "searchRounds dg inventory profile q searches left stageCount result states \<noteq> Inl (SearchLimitBefore r)"
proof (induction left arbitrary: stageCount result states)
  case (Suc left)
  have moves: "fold_result (searchMove q) moves (result, t) \<noteq> Inl (SearchLimitBefore r)" for moves result t
    by (induction moves arbitrary: result t)
      (auto simp: searchMove_def and_then_Inl map_error_Inl extendPartialPlan_def Let_def split: if_splits)
  have complete: "fold_result (completeMove dg inventory profile q) ps result \<noteq> Inl (SearchLimitBefore r)" for ps result
    by (induction ps arbitrary: result)
      (auto simp: completeMove_def evaluateCompletePlan_def Let_def and_then_Inl map_error_Inl split: if_splits)
  show ?case using moves complete Suc.IH by (auto simp: and_then_Inl Let_def)
qed simp

lemma search_work_of:
  assumes "normalizePlanConstructionRequest dg inventory profile q0 = Inr q"
    and "length (pcr_ranges q) < 2 ^ 63" "length (inv_workers inventory) < 2 ^ 63"
  shows "case constructPlan dg inventory profile q0 of
      Inr res \<Rightarrow>
        searchWork dg inventory profile (pr_request res) = Some (unat (pr_searchOperationCount res)) \<and>
        pr_searchOperationCount res \<le> pcr_maxSearchOperations (pr_request res) \<and> \<not> pr_searchLimitReached res
    | Inl (SearchLimitBefore res) \<Rightarrow>
        unat (pcr_maxSearchOperations (pr_request res)) < rangeChecks inventory (pr_request res) \<and>
        pr_searchLimitReached res \<and> pr_selectedPlan res = None
    | Inl (SearchLimitAfter res) \<Rightarrow>
        (\<exists>work. searchWork dg inventory profile (pr_request res) = Some work \<and>
           unat (pcr_maxSearchOperations (pr_request res)) < work) \<and>
        pr_searchOperationCount res = pcr_maxSearchOperations (pr_request res) \<and>
        pr_searchLimitReached res \<and> pr_selectedPlan res = None
    | Inl e \<Rightarrow> True"
proof -
  let ?n = "word_of_nat (length (pcr_ranges q)) :: u64" and ?m = "word_of_nat (length (inv_workers inventory)) :: u64"
  have words: "unat ?n = length (pcr_ranges q)" "unat ?m = length (inv_workers inventory)"
    using assms(2,3) by (simp_all add: unat_of_nat)
  have sizes: "unat ?n * unat ?m = rangeChecks inventory q" unfolding words rangeChecks_def ..
  obtain operations overflow where m: "multiplyUint64 ?n ?m = (operations, overflow)" by (cases "multiplyUint64 ?n ?m")
  have exact: "overflow \<or> unat operations = rangeChecks inventory q"
    using m multiplyUint64_exact [of ?n ?m operations] sizes by (cases overflow) auto
  have over: "unat (pcr_maxSearchOperations q) < rangeChecks inventory q" if "overflow"
  proof (rule ccontr)
    assume "\<not> unat (pcr_maxSearchOperations q) < rangeChecks inventory q"
    then have "rangeChecks inventory q < 18446744073709551616" using u64_bound [of "pcr_maxSearchOperations q"] by linarith
    then have "unat (word_of_nat (rangeChecks inventory q) :: u64) = unat ?n * unat ?m"
      unfolding sizes by (simp add: unat_of_nat)
    then show False using multiplyUint64_exact [of ?n ?m "word_of_nat (rangeChecks inventory q)"] m that by simp
  qed
  let ?result = "initialResult inventory profile q"
  show ?thesis
  proof (cases "overflow \<or> pcr_maxSearchOperations q < operations")
    case True
    then have "unat (pcr_maxSearchOperations q) < rangeChecks inventory q"
      using over exact by (auto simp: u64_less_iff)
    then show ?thesis using True m by (simp add: constructPlan_def assms(1) Let_def initialResult_def)
  next
    case False
    note fits = False
    then have count: "unat operations = rangeChecks inventory q" "unat operations \<le> unat (pcr_maxSearchOperations q)"
      using exact by (auto simp: u64_less_iff)
    show ?thesis
    proof (cases "collect (preparePlanRange dg inventory profile q) (pcr_ranges q)")
      case (Inl e)
      from collect_Inl [OF Inl] obtain r where r: "preparePlanRange dg inventory profile q r = Inl e" by blast
      have "\<not> raised_by_search e" "\<nexists>res. e = SearchLimitBefore res"
        using preparation_error [OF r] preparation_not_limited [OF r] by simp_all
      then show ?thesis using Inl m fits by (cases e) (simp_all add: constructPlan_def assms(1) Let_def)
    next
      case (Inr searches)
      define start where "start = ?result\<lparr>pr_searchOperationCount := operations, pr_ranges := map rangeReport searches,
        pr_candidateWorkerCount := int (length (remdups (map (wk_ID \<circ> po_worker) (concat (map prs_options searches)))))\<rparr>"
      have start: "pr_searchOperationCount start = operations" "pr_request start = q" "\<not> pr_searchLimitReached start"
        by (simp_all add: start_def initialResult_def)
      have run: "constructPlan dg inventory profile q0 =
          searchRounds dg inventory profile q searches (nat (pcr_maxStages q)) 1 start [((0, []), emptyPlan)]"
        using Inr m fits by (simp add: constructPlan_def assms(1) Let_def start_def)
      have work: "searchWork dg inventory profile q = Some (rangeChecks inventory q +
          exploredMoves q searches (nat (pcr_maxStages q)) 1 [((0, []), emptyPlan)])"
        using Inr by (simp add: searchWork_def)
      have bound: "unat (pr_searchOperationCount start) \<le> unat (pcr_maxSearchOperations q)" using start(1) count(2) by simp
      note rounds = rounds_work [OF bound start(2), where dg = dg and inventory = inventory and profile = profile and
          searches = searches and left = "nat (pcr_maxStages q)" and stageCount = 1 and
          states = "[((0, []), emptyPlan)]", unfolded start(1) count(1)]
      show ?thesis
      proof (cases "searchRounds dg inventory profile q searches (nat (pcr_maxStages q)) 1 start [((0, []), emptyPlan)]")
        case (Inr res)
        then show ?thesis
          using rounds rounds_fields [OF Inr bound] start work by (simp add: run u64_le_iff)
      next
        case (Inl e)
        then show ?thesis
          using rounds rounds_not_limited_before work unfolding run by (cases e) (auto simp: exhausted_def)
      qed
    qed
  qed
qed

section \<open>A concrete search\<close>

definition demo_range :: range_cost_estimate where
  "demo_range = \<lparr>rce_layerStart = 0, rce_layerEnd = 5, rce_estimate = demo_costs\<rparr>"

definition demo_construction :: plan_construction_request where
  "demo_construction =
     \<lparr>pcr_model = demo_model, pcr_scoring = demo_scoring\<lparr>psr_stages := []\<rparr>,
      pcr_terminalResponseMode = stageResponseSampledToken, pcr_maxStages = 1, pcr_maxSearchOperations = 100,
      pcr_ranges = [demo_range]\<rparr>"

lemma demo_scoring_stages: "(demo_scoring\<lparr>psr_stages := []\<rparr>)\<lparr>psr_stages := [demo_costs]\<rparr> = demo_scoring"
  by (simp add: demo_scoring_def)

lemma demo_construction_normal:
  "normalizePlanConstructionRequest demo_digests demo_inventory demo_snapshot demo_construction = Inr demo_construction"
proof -
  have inputs: "validateScoringSnapshots demo_inventory demo_snapshot = Inr ()"
    "validateScoringContext demo_scoring = Inr ()"
    using demo_scoring_valid [unfolded validateScoringInputs_def and_then_Inr guard_Inr map_error_Inr] by auto
  have defaults: "planner_defaults demo_construction = demo_construction"
    by (simp add: planner_defaults_def demo_construction_def normalize_stages demo_scoring_normal)
  have ranges: "checkRanges demo_digests demo_model 3 0 None [demo_range] = Inr ()" by code_simp
  have fields: "pcr_model demo_construction = demo_model" "pcr_scoring demo_construction = demo_scoring\<lparr>psr_stages := []\<rparr>"
    "pcr_terminalResponseMode demo_construction = stageResponseSampledToken" "pcr_maxStages demo_construction = 1"
    "pcr_ranges demo_construction = [demo_range]" "psr_decodeSteps demo_scoring = 3"
    "demo_construction\<lparr>pcr_ranges := [demo_range]\<rparr> = demo_construction"
    by (simp_all add: demo_construction_def demo_scoring_def)
  have model: "em_ID demo_model \<noteq> []" "em_checkpointFingerprint demo_model \<noteq> []" "em_layerCount demo_model = 5"
    by (simp_all add: demo_model_def)
  show ?thesis
    unfolding normalizePlanConstructionRequest_def Let_def defaults inputs map_error.simps and_then.simps
    by (simp add: fields validateScoringContext_stages inputs model ranges del: checkRanges.simps)
qed

lemma demo_plain: "plain_ids demo_inventory"
  by (simp add: plain_ids_def demo_workers)

text \<open>The only option of the only range: the worker with enough memory.\<close>

lemma demo_built: "built_plan demo_digests demo_inventory demo_construction
    [partialStage demo_construction 0 demo_range (ready_worker ''b'' 90)] = demo_scored_plan"
proof -
  have stage: "partialStage demo_construction 0 demo_range (ready_worker ''b'' 90) =
      (hd (ep_stages demo_scored_plan))\<lparr>es_shardID := []\<rparr>"
    by (simp add: partialStage_def demo_range_def demo_construction_def demo_workers demo_scored_plan_def
        demo_model_def stageResponseSampledToken_def) (simp add: decimal_def, code_simp)
  have "inv_revision demo_inventory = 7" "pcr_model demo_construction = demo_model"
    by (simp_all add: demo_inventory_def demo_construction_def)
  then show ?thesis unfolding built_plan_def stage by simp code_simp
qed

lemma demo_prepared:
  obtains search opt where
    "preparePlanRange demo_digests demo_inventory demo_snapshot demo_construction demo_range = Inr search"
    "prs_options search = [opt]" "po_worker opt = ready_worker ''b'' 90"
    "\<exists>s. mergeStageScore (zeroScore 0) (po_worker opt) (po_candidate opt) demo_costs (po_compute opt) (po_transfer opt) = Inr s"
proof -
  have fields: "pcr_model demo_construction = demo_model" "pcr_scoring demo_construction = demo_scoring\<lparr>psr_stages := []\<rparr>"
    "rce_layerStart demo_range = 0" "rce_layerEnd demo_range = 5" "rce_estimate demo_range = demo_costs"
    by (simp_all add: demo_construction_def demo_range_def)
  let ?req = "planRequirement demo_scored_plan demo_scoring (hd (ep_stages demo_scored_plan)) demo_costs"
  have shard: "deriveExecutionShardID demo_digests demo_model 0 5 True True = Inr ''generate-shard-0-5-f10123456789''"
    by code_simp
  have req: "rangeRequirement demo_construction demo_range ''generate-shard-0-5-f10123456789'' = ?req"
    by (simp add: rangeRequirement_def planRequirement_def fields demo_scored_plan_def demo_scoring_def demo_model_def)
  obtain ev where ev: "evaluateCandidates demo_inventory ?req = Inr ev"
    using demo_selected by (auto simp: selectStage_def and_then_Inr demo_scoring_def)
  have sorted: "sort_by (\<lambda>l r. go_compare (wk_ID l) (wk_ID r)) (inv_workers demo_inventory) =
      [ready_worker ''a'' 8, ready_worker ''b'' 90]"
  proof -
    have "\<not> go_compare ''b'' ''a'' \<le> 0" by code_simp
    then show ?thesis by (simp add: demo_workers)
  qed
  obtain ca cb where cs: "ev_candidates ev = [ca, cb]" "cd_workerID cb = ''b''"
    using candidates_exact [OF ev, unfolded sorted] by (auto simp: list_all2_Cons1 demo_workers)
  have d: "distinct_ids demo_inventory" by (simp add: demo_workers)
  have eligible: "cd_eligible c = admissible demo_inventory ?req w"
    if c: "c \<in> {ca, cb}" and w: "w \<in> set (inv_workers demo_inventory)" "wk_ID w = cd_workerID c" for c w
  proof -
    obtain v where v: "v \<in> set (inv_workers demo_inventory)" "wk_ID v = cd_workerID c"
      "cd_eligible c = admissible demo_inventory ?req v"
      using candidate_found [OF ev, of c] c by (auto simp: cs(1))
    have "v = w" using d v(1,2) w by (simp add: distinct_map inj_on_def)
    with v(3) show ?thesis by simp
  qed
  have bad: "violated 3000 1000 ?req (ready_worker ''a'' 8) RejectionInsufficientMemory"
    unfolding demo_required
    by (simp add: ready_worker_def demo_worker_def demo_requirement_def demo_registration_def demo_status_def
        needed_memory_def reusable_def compatibleRetainedShard_def Let_def)
  have at: "inv_generatedAt demo_inventory = 3000" "effective_age demo_inventory ?req = 1000"
    unfolding demo_required by (simp_all add: demo_inventory_def effective_age_def demo_requirement_def)
  have "\<not> admissible demo_inventory ?req (ready_worker ''a'' 8)"
    unfolding admissible_def demo_required_trim at using bad by blast
  moreover have "cd_workerID ca = ''a''"
    using candidates_exact [OF ev, unfolded sorted] cs(1) by (auto simp: list_all2_Cons1 demo_workers)
  ultimately have "\<not> cd_eligible ca" "cd_eligible cb"
    using eligible [of ca "ready_worker ''a'' 8"] eligible [of cb "ready_worker ''b'' 90"] demo_admissible cs(2)
    by (simp_all add: demo_workers)
  then have filtered: "filter cd_eligible (ev_candidates ev) = [cb]" by (simp add: cs(1))
  have compute: "scoreStageCompute demo_snapshot demo_model w s (demo_scoring\<lparr>psr_stages := []\<rparr>) demo_costs =
      scoreStageCompute demo_snapshot demo_model w s demo_scoring demo_costs" for w s
    by (rule scoreStageCompute_stage) simp_all
  have preparation: "\<exists>opt. rangeOption demo_inventory demo_snapshot demo_construction demo_range cb = Inr opt"
    by (simp add: rangeOption_def Let_def fields cs(2) demo_worker_b scoreStageTransfer_stages demo_transfer
        compute demo_compute)
  then obtain opt where opt: "rangeOption demo_inventory demo_snapshot demo_construction demo_range cb = Inr opt" ..
  then have optf: "po_candidate opt = cb" "po_worker opt = ready_worker ''b'' 90"
    "scoreStageCompute demo_snapshot demo_model (po_worker opt) (rangeStage demo_construction demo_range (po_worker opt))
       demo_scoring demo_costs = Inr (po_compute opt)"
    "scoreStageTransfer demo_snapshot (po_worker opt) demo_scoring demo_costs = Inr (po_transfer opt)"
    by (simp_all add: rangeOption_Inr fields cs(2) demo_worker_b scoreStageTransfer_stages compute)
  show ?thesis
  proof (rule that)
    show "preparePlanRange demo_digests demo_inventory demo_snapshot demo_construction demo_range =
        Inr \<lparr>prs_rangeEstimate = demo_range, prs_evaluation = ev, prs_options = [opt]\<rparr>"
      using opt by (simp add: preparePlanRange_def fields demo_model_def)
       (simp add: demo_model_def [symmetric] shard req ev filtered)
    show "\<exists>s. mergeStageScore (zeroScore 0) (po_worker opt) (po_candidate opt) demo_costs (po_compute opt) (po_transfer opt) = Inr s"
      using optf(3,4) demo_merge by (auto simp: optf(2) demo_compute demo_transfer)
  qed (simp_all add: optf)
qed

text \<open>The search from the only state over the only move.\<close>

lemma demo_search_run:
  obtains res best where
    "constructPlan demo_digests demo_inventory demo_snapshot demo_construction = Inr res"
    "pr_request res = demo_construction" "pr_selectedPlan res = Some best" "pe_plan best = demo_scored_plan"
    "pe_request best = demo_scoring"
proof -
  obtain search opt where
    search: "preparePlanRange demo_digests demo_inventory demo_snapshot demo_construction demo_range = Inr search"
      "prs_options search = [opt]" "po_worker opt = ready_worker ''b'' 90"
    and merge: "\<exists>s. mergeStageScore (zeroScore 0) (po_worker opt) (po_candidate opt) demo_costs (po_compute opt)
      (po_transfer opt) = Inr s"
    by (rule demo_prepared)
  have range: "prs_rangeEstimate search = demo_range" by (rule prepared_range(1) [OF search(1)])
  have q: "pcr_ranges demo_construction = [demo_range]" "pcr_maxStages demo_construction = 1"
    "pcr_maxSearchOperations demo_construction = 100" "em_layerCount (pcr_model demo_construction) = 5"
    "rce_layerStart demo_range = 0" "rce_layerEnd demo_range = 5" "rce_estimate demo_range = demo_costs"
    by (simp_all add: demo_construction_def demo_range_def demo_model_def)
  have empty: "pp_end emptyPlan = 0" "pp_stages emptyPlan = []" "pp_score emptyPlan = zeroScore 0"
    by (simp_all add: emptyPlan_def)
  obtain p where p: "extendPartialPlan demo_construction emptyPlan demo_range opt = Inr p"
    "pp_end p = 5" "pp_stages p = [partialStage demo_construction 0 demo_range (ready_worker ''b'' 90)]"
    using merge by (auto simp: extendPartialPlan_Inr empty q search(3))
  have prepared: "prepared demo_digests demo_inventory demo_snapshot demo_construction [search]"
    using normalized_accepted(1) [OF demo_construction_normal] demo_plain search(1) by (simp add: prepared_def q)
  have path: "search_path demo_construction [search] [(demo_range, opt)] p"
    using path_extend [OF path_start, of search "[search]" opt demo_construction p] p
    by (simp add: range q empty search(2) partialUsesWorker_def)
  obtain best where best: "evaluateCompletePlan demo_digests demo_inventory demo_snapshot demo_construction p = Inr best"
    "pe_plan best = demo_scored_plan" and
    scored: "scorePlan demo_digests demo_inventory demo_snapshot
      (built_plan demo_digests demo_inventory demo_construction (pp_stages p))
      (choice_request demo_construction [(demo_range, opt)]) = Inr best"
    using complete_evaluates [OF prepared path] p demo_built by (auto simp: q)
  have "choice_request demo_construction [(demo_range, opt)] = demo_scoring"
    by (simp add: demo_range_def demo_construction_def demo_scoring_stages)
  then have request: "pe_request best = demo_scoring"
    using scorePlan_run [OF scored] demo_scoring_normal by metis
  have moves: "searchMoves demo_construction [search] 1 [((0, []), emptyPlan)] = [(emptyPlan, demo_range, opt)]"
    by (simp add: searchMoves_def orderedPartialPlans_def range q empty search(2) partialUsesWorker_def)
  let ?result = "(initialResult demo_inventory demo_snapshot demo_construction)
    \<lparr>pr_searchOperationCount := 2, pr_ranges := [rangeReport search], pr_candidateWorkerCount := 1\<rparr>"
  have move: "searchMove demo_construction (emptyPlan, demo_range, opt) (?result, []) =
      Inr (?result\<lparr>pr_searchOperationCount := 3\<rparr>, [(plan_key p, p)])"
    by (simp add: searchMove_def p(1) q retainPartialPlan_def)
  have "\<exists>res. searchRounds demo_digests demo_inventory demo_snapshot demo_construction [search] (nat 1) 1 ?result
      [((0, []), emptyPlan)] = Inr res \<and> pr_request res = demo_construction \<and> pr_selectedPlan res = Some best"
    using move by (simp add: moves p(2) q orderedPartialPlanBucket_def completeMove_def best(1))
      (simp add: initialResult_def)
  then obtain res where rounds: "searchRounds demo_digests demo_inventory demo_snapshot demo_construction [search] (nat 1) 1 ?result
      [((0, []), emptyPlan)] = Inr res" "pr_request res = demo_construction" "pr_selectedPlan res = Some best" by blast
  have "multiplyUint64 1 2 = (2, False)" by code_simp
  then have "constructPlan demo_digests demo_inventory demo_snapshot demo_construction = Inr res"
    using rounds(1)
    by (simp add: constructPlan_def demo_construction_normal demo_workers q search del: searchRounds.simps)
  then show ?thesis using rounds(2,3) best(2) request by (rule that)
qed

section \<open>Properties\<close>

text \<open>
  C2: \<open>ConstructPlan\<close> is optimal: if it returns a result, it has selected a plan at least as
  good as every eligible plan over the request's ranges. The dynamic program loses nothing
  by keeping one partial plan per layer boundary and worker set.
\<close>

theorem constructed_plan_optimal:
  assumes "constructPlan dg inventory profile q0 = Inr res" and "plain_ids inventory"
    and "plan_in_request (pr_request res) stages estimates"
    and "buildExecutionPlan dg (pcr_model q0) (decimal_nat (unat (inv_revision inventory))) stages = Inr plan"
    and "scorePlan dg inventory profile plan ((pcr_scoring (pr_request res))\<lparr>psr_stages := estimates\<rparr>) = Inr ev"
    and "pe_eligible ev"
  shows "\<exists>best. pr_selectedPlan res = Some best \<and> comparePlanEvaluations best ev \<le> 0"
proof -
  let ?q = "pr_request res"
  obtain searches P where prepared: "prepared dg inventory profile ?q searches"
    and normal: "normalizePlanConstructionRequest dg inventory profile q0 = Inr ?q"
    and covers: "covers_paths ?q searches 0 (nat (pcr_maxStages ?q)) P"
    and minimum: "minimum_of (evaluateCompletePlan dg inventory profile ?q) P (pr_selectedPlan res)"
    using constructed [OF assms(1,2)] by blast
  have plan: "buildable (pcr_model ?q) stages" "plan = built_plan dg inventory ?q stages"
    using assms(4) normalized_accepted(2) [OF normal] by (simp_all add: build_iff built_plan_def)
  obtain cs p where p: "search_path ?q searches cs p" "complete ?q p" "0 < length cs" "length cs \<le> nat (pcr_maxStages ?q)"
    and ev: "evaluateCompletePlan dg inventory profile ?q p = Inr ev"
    using eligible_plan_path [OF prepared assms(3) plan(1) assms(5) [unfolded plan(2)] assms(6)] by blast
  obtain v cv where v: "v \<in> P" "search_path ?q searches cv v" "length cv = length cs" "comparePartialPlans v p \<le> 0"
    using covers p unfolding covers_paths_def by blast
  then have "complete ?q v" using covers unfolding covers_paths_def by blast
  moreover obtain best ev' where best: "evaluateCompletePlan dg inventory profile ?q v = Inr ev'"
    "pr_selectedPlan res = Some best" "comparePlanEvaluations best ev' \<le> 0"
    using minimum v(1) unfolding minimum_of_def by blast
  ultimately have "comparePlanEvaluations ev' ev \<le> 0"
    using complete_preference [OF prepared v(2) _ _ p(1,2) ev v(3,4)] by simp
  then show ?thesis using best plan_evaluations.cmp_trans by blast
qed

text \<open>
  C11: the selected plan is one of the plans asked for: it is built from the request's ranges
  within the stage limit, it passes the validation of execution plans, and scoring it from
  scratch gives the eligible evaluation that was returned.
\<close>

theorem constructed_plan_sound:
  assumes "constructPlan dg inventory profile q0 = Inr res" and "plain_ids inventory"
    and "pr_selectedPlan res = Some best"
  shows "\<exists>stages estimates. plan_in_request (pr_request res) stages estimates \<and>
    buildExecutionPlan dg (pcr_model q0) (decimal_nat (unat (inv_revision inventory))) stages = Inr (pe_plan best) \<and>
    validateExecutionPlan dg (pe_plan best) = Inr () \<and> pe_eligible best \<and>
    scorePlan dg inventory profile (pe_plan best) ((pcr_scoring (pr_request res))\<lparr>psr_stages := estimates\<rparr>) = Inr best"
proof -
  let ?q = "pr_request res"
  obtain searches P where prepared: "prepared dg inventory profile ?q searches"
    and normal: "normalizePlanConstructionRequest dg inventory profile q0 = Inr ?q"
    and covers: "covers_paths ?q searches 0 (nat (pcr_maxStages ?q)) P"
    and minimum: "minimum_of (evaluateCompletePlan dg inventory profile ?q) P (pr_selectedPlan res)"
    using constructed [OF assms(1,2)] by blast
  obtain p where p: "p \<in> P" "evaluateCompletePlan dg inventory profile ?q p = Inr best"
    using minimum assms(3) unfolding minimum_of_def by blast
  obtain cs where cs: "length cs \<le> nat (pcr_maxStages ?q)" "search_path ?q searches cs p" "complete ?q p"
    using covers p(1) unfolding covers_paths_def by blast
  note shape = path_shape [OF cs(2)]
  have best: "pe_plan best = built_plan dg inventory ?q (pp_stages p)" "pe_eligible best"
    "scorePlan dg inventory profile (pe_plan best) (choice_request ?q cs) = Inr best"
    using complete_evaluates [OF prepared cs(2,3)] p(2) by auto
  have build: "buildable (pcr_model ?q) (pp_stages p)"
    using p(2) by (auto simp: evaluateCompletePlan_def and_then_Inr build_iff)
  have "\<exists>r \<in> set (pcr_ranges ?q). \<exists>w. pp_stages p ! i = partialStage ?q i r w \<and> map (rce_estimate \<circ> fst) cs ! i = rce_estimate r"
    if i: "i < length cs" for i
  proof -
    obtain search where search: "search \<in> set searches" "fst (cs ! i) = prs_rangeEstimate search"
      using path_choices [OF cs(2), of "cs ! i"] i by auto
    have "fst (cs ! i) \<in> set (pcr_ranges ?q)" using prepared_search(1) [OF prepared search(1)] search(2) by simp
    then show ?thesis using i unfolding shape(1) nth_choice_stages [OF i] by auto
  qed
  moreover have "int (length cs) \<le> pcr_maxStages ?q" using cs(1) prepared by (auto simp: prepared_def request_accepted_def)
  ultimately have "plan_in_request ?q (pp_stages p) (map (rce_estimate \<circ> fst) cs)"
    by (simp add: plan_in_request_def shape(1))
  moreover have "validateExecutionPlan dg (pe_plan best) = Inr ()"
    using build by (simp add: best(1) built_plan_def validate_iff valid_finalize_iff)
  moreover have "buildExecutionPlan dg (pcr_model q0) (decimal_nat (unat (inv_revision inventory))) (pp_stages p) =
      Inr (pe_plan best)"
    using build normalized_accepted(2) [OF normal] by (simp add: build_iff best(1) built_plan_def)
  ultimately show ?thesis using best(2,3) by blast
qed

text \<open>
  C34: the search does exactly the work there is, and no more than its budget. If it
  returns a result, the operations it reports are all the range checks and extensions there
  are to do, counted independently of the search's counter, and they are within the budget. It
  refuses before the range evaluation only if the range checks alone exceed the budget, and
  gives up during the search only if the whole work exceeds it, after exactly as many operations
  as the budget allows and without a selected plan. (The lists of ranges and workers are
  taken to be shorter than \<open>2\<^sup>6\<^sup>3\<close>, as every Go slice is.)
\<close>

theorem search_within_budget:
  assumes "length (pcr_ranges q0) < 2 ^ 63" "length (inv_workers inventory) < 2 ^ 63"
  shows "case constructPlan dg inventory profile q0 of
      Inr res \<Rightarrow>
        searchWork dg inventory profile (pr_request res) = Some (unat (pr_searchOperationCount res)) \<and>
        pr_searchOperationCount res \<le> pcr_maxSearchOperations (pr_request res) \<and> \<not> pr_searchLimitReached res
    | Inl (SearchLimitBefore res) \<Rightarrow>
        unat (pcr_maxSearchOperations (pr_request res)) < rangeChecks inventory (pr_request res) \<and>
        pr_searchLimitReached res \<and> pr_selectedPlan res = None
    | Inl (SearchLimitAfter res) \<Rightarrow>
        (\<exists>work. searchWork dg inventory profile (pr_request res) = Some work \<and>
           unat (pcr_maxSearchOperations (pr_request res)) < work) \<and>
        pr_searchOperationCount res = pcr_maxSearchOperations (pr_request res) \<and>
        pr_searchLimitReached res \<and> pr_selectedPlan res = None
    | Inl e \<Rightarrow> True"
proof (cases "normalizePlanConstructionRequest dg inventory profile q0")
  case (Inl e)
  have "\<not> raised_by_search e" "\<nexists>res. e = SearchLimitBefore res"
    using normalization_error [OF Inl] normalization_not_limited [OF Inl] by simp_all
  then show ?thesis using Inl by (cases e) (simp_all add: constructPlan_def)
next
  case (Inr q)
  have lengths: "length (pcr_ranges q) < 2 ^ 63" "length (inv_workers inventory) < 2 ^ 63"
    using mset_eq_length [OF normalized_accepted(3) [OF Inr]] assms by simp_all
  from search_work_of [OF Inr lengths] show ?thesis .
qed

text \<open>
  the incremental score of the search always agrees with \<open>ScorePlan\<close>: a complete plan of
  the search builds, scores and is eligible, so the errors that guard against a
  disagreement are never returned.
\<close>

theorem search_agrees_with_scoring:
  assumes "plain_ids inventory"
  shows "constructPlan dg inventory profile q0 \<notin>
    {Inl CompletePlanDisagrees, Inl (CompletePlanInvalid e), Inl (CompletePlanUnscored e')}"
proof
  assume "constructPlan dg inventory profile q0 \<in>
    {Inl CompletePlanDisagrees, Inl (CompletePlanInvalid e), Inl (CompletePlanUnscored e')}"
  then obtain x where "constructPlan dg inventory profile q0 = Inl x" "raised_by_search x" "\<And>q. \<not> search_error q x"
    by (auto simp: search_error_def)
  then show False using constructPlan_error [OF _ assms] by blast
qed

section \<open>The properties at the concrete search\<close>

theorem constructed_plan_optimal_witness:
  "\<exists>res best. constructPlan demo_digests demo_inventory demo_snapshot demo_construction = Inr res \<and>
     pr_selectedPlan res = Some best \<and>
     (\<exists>ev. scorePlan demo_digests demo_inventory demo_snapshot demo_scored_plan demo_scoring = Inr ev \<and>
       comparePlanEvaluations best ev \<le> 0)"
proof -
  obtain res best where run: "constructPlan demo_digests demo_inventory demo_snapshot demo_construction = Inr res"
    "pr_request res = demo_construction" "pr_selectedPlan res = Some best"
    using demo_search_run by metis
  obtain ev where ev: "scorePlan demo_digests demo_inventory demo_snapshot demo_scored_plan demo_scoring = Inr ev"
    "pe_eligible ev" using demo_scored by blast
  let ?stages = "[partialStage demo_construction 0 demo_range (ready_worker ''b'' 90)]"
  have fields: "pcr_ranges demo_construction = [demo_range]" "pcr_maxStages demo_construction = 1"
    "pcr_scoring demo_construction = demo_scoring\<lparr>psr_stages := []\<rparr>" "rce_estimate demo_range = demo_costs"
    by (simp_all add: demo_construction_def demo_range_def)
  have "plan_in_request demo_construction ?stages [demo_costs]"
    unfolding plan_in_request_def fields using fields(4) by auto
  moreover have "buildExecutionPlan demo_digests (pcr_model demo_construction)
      (decimal_nat (unat (inv_revision demo_inventory))) ?stages = Inr demo_scored_plan"
  proof -
    have "buildable (pcr_model demo_construction) ?stages"
      using validateScoringInputs_facts(1) [OF demo_scoring_valid]
      by (simp add: validate_iff demo_built [symmetric] built_plan_def valid_finalize_iff)
    then show ?thesis by (simp add: build_iff demo_built [symmetric] built_plan_def)
  qed
  moreover have "scorePlan demo_digests demo_inventory demo_snapshot demo_scored_plan
      ((pcr_scoring demo_construction)\<lparr>psr_stages := [demo_costs]\<rparr>) = Inr ev"
    unfolding fields demo_scoring_stages by (rule ev(1))
  ultimately have "\<exists>best. pr_selectedPlan res = Some best \<and> comparePlanEvaluations best ev \<le> 0"
    using constructed_plan_optimal [OF run(1) demo_plain, unfolded run(2)] ev(2) by blast
  then show ?thesis using run ev(1) by auto
qed

theorem constructed_plan_sound_witness:
  "\<exists>res best. constructPlan demo_digests demo_inventory demo_snapshot demo_construction = Inr res \<and>
     pr_selectedPlan res = Some best \<and> validateExecutionPlan demo_digests (pe_plan best) = Inr ()"
proof -
  obtain res best where run: "constructPlan demo_digests demo_inventory demo_snapshot demo_construction = Inr res"
    "pr_request res = demo_construction" "pr_selectedPlan res = Some best"
    using demo_search_run by metis
  then show ?thesis using constructed_plan_sound [OF run(1) demo_plain run(3)] by blast
qed

theorem search_within_budget_witness:
  "\<exists>res. constructPlan demo_digests demo_inventory demo_snapshot demo_construction = Inr res \<and>
     searchWork demo_digests demo_inventory demo_snapshot demo_construction = Some (unat (pr_searchOperationCount res)) \<and>
     pr_searchOperationCount res \<le> 100 \<and> \<not> pr_searchLimitReached res"
proof -
  obtain res best where run: "constructPlan demo_digests demo_inventory demo_snapshot demo_construction = Inr res"
    "pr_request res = demo_construction" "pr_selectedPlan res = Some best"
    using demo_search_run by metis
  have "pcr_maxSearchOperations demo_construction = 100" by (simp add: demo_construction_def)
  then show ?thesis
    using search_within_budget [of demo_construction demo_inventory demo_digests demo_snapshot] run
    by (simp add: demo_construction_def demo_inventory_def)
qed

theorem search_agrees_with_scoring_witness:
  "constructPlan demo_digests demo_inventory demo_snapshot demo_construction \<noteq> Inl CompletePlanDisagrees"
  using search_agrees_with_scoring [OF demo_plain, of demo_digests demo_snapshot demo_construction] by simp

end
