(* ===== verification/Scheduler.thy ===== *)
theory Scheduler
  imports Prelude Execution_Plan Registry Eligibility Arithmetic Profile Scoring Planner
begin

text \<open>
  Admission of sequences to the mesh (\<open>internal/mesh/scheduler.go\<close>): the snapshots a plan is
  made from, the binding of its targets, the ledger of reserved slots and memory that
  concurrent preparations share, and the single-use life of a scheduled sequence. The
  callers of the workers and the transport are the environment: what a worker answers to a
  state request, whether a caller resolves and whether a session starts are arguments of
  the operations. Go maps are partial functions; \<open>sync.Once\<close> is a flag of the reservation.
  The scheduler's own counts are unbounded integers; where a count that a worker reports is
  added, the sum wraps as Go's \<open>int\<close> does.
\<close>

section \<open>The scheduler's data\<close>

definition defaultSnapshotAttempts :: nat where
  "defaultSnapshotAttempts = 4"

definition unreconciledObservationSequence :: u64 where
  "unreconciledObservationSequence = - 1"

definition instanceBoundHTTPProtocol :: string where
  "instanceBoundHTTPProtocol = ''http-json-instance-v1''"

definition base64JSONTensorEncoding :: string where
  "base64JSONTensorEncoding = ''base64-json''"

record target_binding =
  tb_index :: int
  tb_workerID :: string
  tb_instanceID :: string
  tb_endpoint :: string

record sequence_selection =
  sel_schemaVersion :: int
  sel_construction :: "planner_error + plan_construction_result"
  sel_targets :: "target_binding list"

record sequence_key =
  skey_workerID :: string
  skey_instanceID :: string
  skey_shardID :: string

record sequence_slots =
  slots_active :: int
  slots_poisonedAfter :: "u64 list"

record worker_key =
  wkey_workerID :: string
  wkey_instanceID :: string

record pending_memory =
  pm_availableBytes :: u64
  pm_retainedBytes :: u64
  pm_minimumObservationSequence :: u64

record worker_ledger =
  wl_activeRequests :: int
  wl_activeAvailableBytes :: u64
  wl_activeRetainedBytes :: u64
  wl_pendingMemory :: "pending_memory list"

record stage_reservation =
  sg_sequenceKey :: sequence_key
  sg_workerKey :: worker_key
  sg_loadMemoryBytes :: u64
  sg_sequenceMemoryBytes :: u64
  sg_setupObserved :: bool
  sg_setupShardPresent :: bool
  sg_setupObservationSequence :: u64
  sg_cleanupObserved :: bool
  sg_cleanupShardOpen :: bool
  sg_cleanupObservationSequence :: u64

record reservation_outcome =
  ro_mayHaveLoaded :: bool
  ro_cleanupConfirmed :: bool

record sequence_reservation =
  rv_stages :: "stage_reservation list"
  rv_finished :: bool

record scheduler =
  sd_reservations :: "sequence_key \<Rightarrow> sequence_slots option"
  sd_workers :: "worker_key \<Rightarrow> worker_ledger option"

text \<open>What \<open>workerproc.ObserveState\<close> reports of a worker: the loaded shards with their open sequences.\<close>

record worker_observation =
  wo_loadedShards :: "(string \<times> int) list"
  wo_observationSequence :: u64

type_synonym observed = "string + worker_observation"

datatype reserve_error =
    EvidenceIncomplete
  | ReserveTargetMissing string
  | ObservationUnavailable string string
  | SequenceCapacityReserved string string string int int int
  | WorkerCapacityReserved string string int int int
  | MemoryEvidenceForeign nat string string
  | MemoryEvidenceInconsistent nat
  | WorkerMemoryReserved string string u64 u64 u64
  | RetainedBudgetReserved string string u64 u64

text \<open>The zero values that reading an absent key of the maps gives.\<close>

definition zeroSlots :: sequence_slots where
  "zeroSlots = \<lparr>slots_active = 0, slots_poisonedAfter = []\<rparr>"

definition zeroLedger :: worker_ledger where
  "zeroLedger = \<lparr>wl_activeRequests = 0, wl_activeAvailableBytes = 0, wl_activeRetainedBytes = 0,
     wl_pendingMemory = []\<rparr>"

definition slots_at :: "scheduler \<Rightarrow> sequence_key \<Rightarrow> sequence_slots" where
  "slots_at sch k = (case sd_reservations sch k of None \<Rightarrow> zeroSlots | Some s \<Rightarrow> s)"

definition ledger_at :: "scheduler \<Rightarrow> worker_key \<Rightarrow> worker_ledger" where
  "ledger_at sch k = (case sd_workers sch k of None \<Rightarrow> zeroLedger | Some s \<Rightarrow> s)"

definition newSequenceScheduler :: scheduler where
  "newSequenceScheduler = \<lparr>sd_reservations = (\<lambda>_. None), sd_workers = (\<lambda>_. None)\<rparr>"

section \<open>Arithmetic of reservations\<close>

definition addReservationBytes :: "u64 \<Rightarrow> u64 \<Rightarrow> u64 \<times> bool" where
  "addReservationBytes l r = (if - 1 - r < l then (- 1, True) else (l + r, False))"

definition subtractAvailable :: "u64 \<Rightarrow> u64 \<Rightarrow> u64" where
  "subtractAvailable available reserved = (if available \<le> reserved then 0 else available - reserved)"

definition observationAfter :: "u64 \<Rightarrow> u64" where
  "observationAfter n =
     (if n = 0 \<or> n = unreconciledObservationSequence then unreconciledObservationSequence else n + 1)"

fun addPending :: "u64 \<Rightarrow> u64 \<Rightarrow> pending_memory list \<Rightarrow> (u64 \<times> u64) option" where
  "addPending available retained [] = Some (available, retained)"
| "addPending available retained (p # rest) =
     (let (available', overflow) = addReservationBytes available (pm_availableBytes p) in
      if overflow then None
      else let (retained', overflow) = addReservationBytes retained (pm_retainedBytes p) in
        if overflow then None else addPending available' retained' rest)"

text \<open>\<open>None\<close> is the source's overflow result.\<close>

definition reservedWorkerMemory :: "worker_ledger \<Rightarrow> (u64 \<times> u64) option" where
  "reservedWorkerMemory l =
     addPending (wl_activeAvailableBytes l) (wl_activeRetainedBytes l) (wl_pendingMemory l)"

section \<open>Admission\<close>

definition openOnShard :: "worker \<Rightarrow> string \<Rightarrow> int" where
  "openOnShard w shardID =
     (case find (\<lambda>s. rsh_ID s = shardID) (st_retainedShards (wk_status w)) of
        None \<Rightarrow> 0 | Some s \<Rightarrow> rsh_openSequenceCount s)"

definition sequenceKeyOf :: "worker \<Rightarrow> string \<Rightarrow> sequence_key" where
  "sequenceKeyOf w shardID =
     \<lparr>skey_workerID = wk_ID w, skey_instanceID = wk_instanceID w, skey_shardID = shardID\<rparr>"

definition workerKeyOf :: "worker \<Rightarrow> worker_key" where
  "workerKeyOf w = \<lparr>wkey_workerID = wk_ID w, wkey_instanceID = wk_instanceID w\<rparr>"

definition local_open :: "sequence_slots \<Rightarrow> int" where
  "local_open s = slots_active s + int (length (slots_poisonedAfter s))"

definition checkMemory ::
  "worker \<Rightarrow> worker_ledger \<Rightarrow> u64 \<Rightarrow> u64 \<Rightarrow> reserve_error + unit" where
  "checkMemory w l requiredBytes sequenceBytes =
     (let available = st_availableMemoryBytes (wk_status w);
          budget = al_retainedByteBudget (cap_admission (wk_capabilities w));
          memory = (\<lambda>reserved. WorkerMemoryReserved (wk_ID w) (wk_instanceID w) requiredBytes reserved available)
      in case reservedWorkerMemory l of
        None \<Rightarrow> Inl (memory 0)
      | Some (reservedAvailable, reservedRetained) \<Rightarrow>
          if available < reservedAvailable \<or> subtractAvailable available reservedAvailable < requiredBytes
          then Inl (memory reservedAvailable)
          else let (projected, overflow) = addReservationBytes (st_retainedBytes (wk_status w)) reservedRetained;
                   (projected', overflow') = (if overflow then (projected, True)
                     else addReservationBytes projected sequenceBytes)
               in if overflow' \<or> budget < projected'
                  then Inl (RetainedBudgetReserved (wk_ID w) (wk_instanceID w) projected' budget)
                  else Inr ())"

definition reserveStage ::
  "inventory \<Rightarrow> plan_evaluation \<Rightarrow> scheduler \<Rightarrow> nat \<times> execution_stage \<Rightarrow> reserve_error + stage_reservation" where
  "reserveStage inventory evaluation sch = (\<lambda>(index, stage).
     case workersByID inventory (es_targetID stage) of
       None \<Rightarrow> Inl (ReserveTargetMissing (es_targetID stage))
     | Some w \<Rightarrow>
         if st_workerObservationSequence (wk_status w) = 0
         then Inl (ObservationUnavailable (wk_ID w) (wk_instanceID w))
         else let key = sequenceKeyOf w (es_shardID stage);
                  reportedOpen = openOnShard w (es_shardID stage);
                  limit = al_maxOpenSequencesPerShard (cap_admission (wk_capabilities w));
                  localOpen = local_open (slots_at sch key)
         in if limit \<le> wrap_int (reportedOpen + localOpen)
            then Inl (SequenceCapacityReserved (wk_ID w) (wk_instanceID w) (es_shardID stage) reportedOpen localOpen limit)
         else let l = ledger_at sch (workerKeyOf w);
                  requestLimit = al_maxConcurrentRequests (cap_admission (wk_capabilities w));
                  reportedRequests = st_openSequenceCount (wk_status w)
         in if requestLimit \<le> wrap_int (reportedRequests + wl_activeRequests l)
            then Inl (WorkerCapacityReserved (wk_ID w) (wk_instanceID w) reportedRequests (wl_activeRequests l) requestLimit)
         else let candidate = spe_selectedCandidate (pe_stages evaluation ! index);
                  cost = psr_stages (pe_request evaluation) ! index;
                  loadBytes = (if cd_reusesRetainedShard candidate then 0 else sce_loadMemoryBytes cost);
                  sequenceBytes = sce_sequenceMemoryBytes cost;
                  (requiredBytes, overflow) = addReservationBytes loadBytes sequenceBytes
         in if cd_workerID candidate \<noteq> wk_ID w
            then Inl (MemoryEvidenceForeign index (cd_workerID candidate) (wk_ID w))
         else if overflow \<or> requiredBytes \<noteq> cd_requiredAdditionalMemoryBytes candidate
            then Inl (MemoryEvidenceInconsistent index)
         else and_then (checkMemory w l requiredBytes sequenceBytes) (\<lambda>_.
            Inr \<lparr>sg_sequenceKey = key, sg_workerKey = workerKeyOf w, sg_loadMemoryBytes = loadBytes,
              sg_sequenceMemoryBytes = sequenceBytes, sg_setupObserved = False, sg_setupShardPresent = False,
              sg_setupObservationSequence = 0, sg_cleanupObserved = False, sg_cleanupShardOpen = False,
              sg_cleanupObservationSequence = 0\<rparr>))"

definition commitStage :: "stage_reservation \<Rightarrow> scheduler \<Rightarrow> scheduler" where
  "commitStage s sch =
     (let slots = slots_at sch (sg_sequenceKey s); l = ledger_at sch (sg_workerKey s) in
      sch\<lparr>sd_reservations := (sd_reservations sch)
            (sg_sequenceKey s \<mapsto> slots\<lparr>slots_active := slots_active slots + 1\<rparr>),
          sd_workers := (sd_workers sch)(sg_workerKey s \<mapsto> l
            \<lparr>wl_activeRequests := wl_activeRequests l + 1,
             wl_activeAvailableBytes := fst (addReservationBytes (wl_activeAvailableBytes l)
               (sg_loadMemoryBytes s + sg_sequenceMemoryBytes s)),
             wl_activeRetainedBytes := fst (addReservationBytes (wl_activeRetainedBytes l)
               (sg_sequenceMemoryBytes s))\<rparr>)\<rparr>)"

text \<open>Reconciliation treats every entry by itself; an entry without content is deleted.\<close>

definition sameInstance :: "inventory \<Rightarrow> string \<Rightarrow> string \<Rightarrow> worker option" where
  "sameInstance inventory workerID instanceID =
     (case workersByID inventory workerID of
        None \<Rightarrow> None | Some w \<Rightarrow> if wk_instanceID w = instanceID then Some w else None)"

definition reconcileSlots :: "inventory \<Rightarrow> sequence_key \<Rightarrow> sequence_slots \<Rightarrow> sequence_slots option" where
  "reconcileSlots inventory key s =
     (if slots_poisonedAfter s = [] then Some s
      else let poisoned =
          (case sameInstance inventory (skey_workerID key) (skey_instanceID key) of
             None \<Rightarrow> []
           | Some w \<Rightarrow>
               if openOnShard w (skey_shardID key) = 0
               then filter (\<lambda>minimum. st_workerObservationSequence (wk_status w) < minimum) (slots_poisonedAfter s)
               else slots_poisonedAfter s)
        in if slots_active s = 0 \<and> poisoned = [] then None else Some (s\<lparr>slots_poisonedAfter := poisoned\<rparr>))"

definition reconcileLedger :: "inventory \<Rightarrow> worker_key \<Rightarrow> worker_ledger \<Rightarrow> worker_ledger option" where
  "reconcileLedger inventory key l =
     (let pending =
        (case sameInstance inventory (wkey_workerID key) (wkey_instanceID key) of
           None \<Rightarrow> []
         | Some w \<Rightarrow> filter (\<lambda>p. st_workerObservationSequence (wk_status w) < pm_minimumObservationSequence p)
             (wl_pendingMemory l))
      in if wl_activeRequests l = 0 \<and> wl_activeAvailableBytes l = 0 \<and> wl_activeRetainedBytes l = 0 \<and> pending = []
         then None else Some (l\<lparr>wl_pendingMemory := pending\<rparr>))"

definition reconcileReservations :: "inventory \<Rightarrow> scheduler \<Rightarrow> scheduler" where
  "reconcileReservations inventory sch =
     \<lparr>sd_reservations = (\<lambda>key. Option.bind (sd_reservations sch key) (reconcileSlots inventory key)),
      sd_workers = (\<lambda>key. Option.bind (sd_workers sch key) (reconcileLedger inventory key))\<rparr>"

definition reserveAdmission ::
  "inventory \<Rightarrow> plan_evaluation \<Rightarrow> scheduler \<Rightarrow> scheduler \<times> (reserve_error + sequence_reservation)" where
  "reserveAdmission inventory evaluation sch =
     (let planned = ep_stages (pe_plan evaluation) in
      if length planned \<noteq> length (pe_stages evaluation) \<or>
         length planned \<noteq> length (psr_stages (pe_request evaluation))
      then (sch, Inl EvidenceIncomplete)
      else let reconciled = reconcileReservations inventory sch in
        case collect (reserveStage inventory evaluation reconciled) (indexed planned) of
          Inl e \<Rightarrow> (reconciled, Inl e)
        | Inr stages \<Rightarrow> (fold commitStage stages reconciled, Inr \<lparr>rv_stages = stages, rv_finished = False\<rparr>))"

section \<open>Observation and release\<close>

definition stateHasShard :: "worker_observation \<Rightarrow> string \<Rightarrow> bool" where
  "stateHasShard ob shardID = list_ex (\<lambda>(i, n). i = shardID) (wo_loadedShards ob)"

definition stateShardOpen :: "worker_observation \<Rightarrow> string \<Rightarrow> bool" where
  "stateShardOpen ob shardID =
     (case find (\<lambda>(i, n). i = shardID) (wo_loadedShards ob) of None \<Rightarrow> False | Some (i, n) \<Rightarrow> 0 < n)"

datatype setup_error =
    SetupStateFailed nat string
  | SetupWithoutSequence nat
  | SetupShardAbsent nat string

text \<open>One step of the loop of \<open>observeSetup\<close>: the stage it leaves and the errors it joins.\<close>

definition observeStageSetup ::
  "bool \<Rightarrow> nat \<Rightarrow> observed \<Rightarrow> stage_reservation \<Rightarrow> stage_reservation \<times> setup_error list" where
  "observeStageSetup requireShards index answer s =
     (case answer of
        Inl e \<Rightarrow> (s, [SetupStateFailed index e])
      | Inr ob \<Rightarrow>
          if wo_observationSequence ob = 0 then (s, [SetupWithoutSequence index])
          else let present = stateHasShard ob (skey_shardID (sg_sequenceKey s)) in
            (s\<lparr>sg_setupObserved := True, sg_setupObservationSequence := wo_observationSequence ob,
               sg_setupShardPresent := present\<rparr>,
             if requireShards \<and> \<not> present then [SetupShardAbsent index (skey_shardID (sg_sequenceKey s))] else []))"

definition observeSetup ::
  "bool \<Rightarrow> (nat \<Rightarrow> observed) \<Rightarrow> sequence_reservation \<Rightarrow> sequence_reservation \<times> setup_error list" where
  "observeSetup requireShards answers r =
     (let results = map (\<lambda>(index, s). observeStageSetup requireShards index (answers index) s) (indexed (rv_stages r))
      in (r\<lparr>rv_stages := map fst results\<rparr>, concat (map snd results)))"

definition observeStageCleanup :: "observed \<Rightarrow> stage_reservation \<Rightarrow> stage_reservation" where
  "observeStageCleanup answer s =
     (case answer of
        Inl e \<Rightarrow> s
      | Inr ob \<Rightarrow>
          if wo_observationSequence ob = 0 then s
          else s\<lparr>sg_cleanupObserved := True, sg_cleanupObservationSequence := wo_observationSequence ob,
                 sg_cleanupShardOpen := stateShardOpen ob (skey_shardID (sg_sequenceKey s))\<rparr>)"

definition observeCleanup :: "(nat \<Rightarrow> observed) \<Rightarrow> stage_reservation list \<Rightarrow> stage_reservation list" where
  "observeCleanup answers stages = map (\<lambda>(index, s). observeStageCleanup (answers index) s) (indexed stages)"

definition cleanup_confirmed :: "reservation_outcome \<Rightarrow> stage_reservation \<Rightarrow> bool" where
  "cleanup_confirmed outcome s \<longleftrightarrow>
     ro_cleanupConfirmed outcome \<or> (sg_cleanupObserved s \<and> \<not> sg_cleanupShardOpen s)"

definition cleanupMinimum :: "stage_reservation \<Rightarrow> u64" where
  "cleanupMinimum s = (if sg_cleanupObserved s then observationAfter (sg_cleanupObservationSequence s)
     else unreconciledObservationSequence)"

definition finishSlots :: "inventory \<Rightarrow> reservation_outcome \<Rightarrow> stage_reservation \<Rightarrow> sequence_slots \<Rightarrow> sequence_slots option" where
  "finishSlots inventory outcome s slots =
     (let active = (if 0 < slots_active slots then slots_active slots - 1 else slots_active slots);
          member = sameInstance inventory (wkey_workerID (sg_workerKey s)) (wkey_instanceID (sg_workerKey s)) \<noteq> None;
          poisoned = (if \<not> cleanup_confirmed outcome s \<and> member
            then slots_poisonedAfter slots @ [cleanupMinimum s] else slots_poisonedAfter slots)
      in if active = 0 \<and> poisoned = [] then None
         else Some \<lparr>slots_active = active, slots_poisonedAfter = poisoned\<rparr>)"

text \<open>The memory that stays reserved after the release, until the worker reports it itself.\<close>

definition pendingAfter :: "reservation_outcome \<Rightarrow> stage_reservation \<Rightarrow> pending_memory" where
  "pendingAfter outcome s =
     (let loaded = ro_mayHaveLoaded outcome \<and> (\<not> sg_setupObserved s \<or> sg_setupShardPresent s);
          available = (if loaded then sg_loadMemoryBytes s else 0);
          minimum = (if loaded then if sg_setupObserved s then observationAfter (sg_setupObservationSequence s)
            else unreconciledObservationSequence else 0)
      in if cleanup_confirmed outcome s
         then \<lparr>pm_availableBytes = available, pm_retainedBytes = 0, pm_minimumObservationSequence = minimum\<rparr>
         else \<lparr>pm_availableBytes = fst (addReservationBytes available (sg_sequenceMemoryBytes s)),
               pm_retainedBytes = sg_sequenceMemoryBytes s,
               pm_minimumObservationSequence = (if minimum < cleanupMinimum s then cleanupMinimum s else minimum)\<rparr>)"

definition finishLedger :: "inventory \<Rightarrow> reservation_outcome \<Rightarrow> stage_reservation \<Rightarrow> worker_ledger \<Rightarrow> worker_ledger option" where
  "finishLedger inventory outcome s l =
     (let member = sameInstance inventory (wkey_workerID (sg_workerKey s)) (wkey_instanceID (sg_workerKey s)) \<noteq> None;
          pending = pendingAfter outcome s;
          l' = \<lparr>wl_activeRequests = (if 0 < wl_activeRequests l then wl_activeRequests l - 1 else wl_activeRequests l),
                wl_activeAvailableBytes = subtractAvailable (wl_activeAvailableBytes l)
                  (sg_loadMemoryBytes s + sg_sequenceMemoryBytes s),
                wl_activeRetainedBytes = subtractAvailable (wl_activeRetainedBytes l) (sg_sequenceMemoryBytes s),
                wl_pendingMemory = (if 0 < pm_availableBytes pending \<and> member
                  then wl_pendingMemory l @ [pending] else wl_pendingMemory l)\<rparr>
      in if wl_activeRequests l' = 0 \<and> wl_activeAvailableBytes l' = 0 \<and> wl_activeRetainedBytes l' = 0 \<and>
            wl_pendingMemory l' = [] then None else Some l')"

definition finishStage :: "inventory \<Rightarrow> reservation_outcome \<Rightarrow> stage_reservation \<Rightarrow> scheduler \<Rightarrow> scheduler" where
  "finishStage inventory outcome s sch =
     sch\<lparr>sd_reservations := (sd_reservations sch)(sg_sequenceKey s :=
           finishSlots inventory outcome s (slots_at sch (sg_sequenceKey s))),
         sd_workers := (sd_workers sch)(sg_workerKey s :=
           finishLedger inventory outcome s (ledger_at sch (sg_workerKey s)))\<rparr>"

definition finishReservation ::
  "inventory \<Rightarrow> reservation_outcome \<Rightarrow> stage_reservation list \<Rightarrow> scheduler \<Rightarrow> scheduler" where
  "finishReservation inventory outcome stages sch = fold (finishStage inventory outcome) stages sch"

definition finishOnce ::
  "inventory \<Rightarrow> (nat \<Rightarrow> observed) \<Rightarrow> reservation_outcome \<Rightarrow> sequence_reservation \<Rightarrow> scheduler \<Rightarrow>
   sequence_reservation \<times> scheduler" where
  "finishOnce inventory answers outcome r sch =
     (if rv_finished r then (r, sch)
      else let stages = (if ro_cleanupConfirmed outcome then rv_stages r else observeCleanup answers (rv_stages r))
        in (\<lparr>rv_stages = stages, rv_finished = True\<rparr>, finishReservation inventory outcome stages sch))"

section \<open>Scheduled sequences\<close>

text \<open>
  A sequence points to its reservation, which is the index of the reservation in the order
  of admission; \<open>None\<close> is the nil pointer.
\<close>

datatype sequence_state = SequencePrepared | SequenceRunning | SequenceFinished | SequenceClosed

record scheduled_sequence =
  ssq_state :: sequence_state
  ssq_reservation :: "nat option"

datatype sequence_error = SequenceAlreadyRun | SequenceIsRunning

definition beginGenerate :: "scheduled_sequence \<Rightarrow> sequence_error + scheduled_sequence" where
  "beginGenerate s =
     (if ssq_state s \<noteq> SequencePrepared then Inl SequenceAlreadyRun else Inr (s\<lparr>ssq_state := SequenceRunning\<rparr>))"

text \<open>The end of \<open>Generate\<close>: the reservation it hands to \<open>finish\<close>.\<close>

definition endGenerate :: "scheduled_sequence \<Rightarrow> scheduled_sequence \<times> nat option" where
  "endGenerate s = (s\<lparr>ssq_state := SequenceFinished, ssq_reservation := None\<rparr>, ssq_reservation s)"

text \<open>\<open>Close\<close>: an error while running, and the reservation to finish if there is one.\<close>

definition closeScheduled ::
  "scheduled_sequence \<Rightarrow> scheduled_sequence \<times> (sequence_error + nat option)" where
  "closeScheduled s =
     (case ssq_state s of
        SequenceRunning \<Rightarrow> (s, Inl SequenceIsRunning)
      | SequencePrepared \<Rightarrow> (s\<lparr>ssq_state := SequenceClosed, ssq_reservation := None\<rparr>, Inr (ssq_reservation s))
      | SequenceFinished \<Rightarrow> (s, Inr None)
      | SequenceClosed \<Rightarrow> (s, Inr None))"

section \<open>Preparation\<close>

text \<open>
  The inventory and the profile are read until they belong to the same time: a profile
  source that has moved past the inventory's time asks for a newer inventory. What the two
  sources answer in each attempt is given by functions of the attempt.
\<close>

datatype snapshot_error =
    ProfileUnavailable profile_error
  | AttemptsExhausted "profile_error option"

fun snapshotAttempts ::
  "(nat \<Rightarrow> inventory) \<Rightarrow> (nat \<Rightarrow> instant \<Rightarrow> profile_error + profile_snapshot) \<Rightarrow> nat \<Rightarrow> nat \<Rightarrow>
   profile_error option \<Rightarrow> snapshot_error + inventory \<times> profile_snapshot" where
  "snapshotAttempts inventories profiles attempt 0 err = Inl (AttemptsExhausted err)"
| "snapshotAttempts inventories profiles attempt (Suc left) err =
     (let inventory = inventories attempt in
      case profiles attempt (inv_generatedAt inventory) of
        Inr profile \<Rightarrow> Inr (inventory, profile)
      | Inl e \<Rightarrow>
          if e \<noteq> SnapshotRewind then Inl (ProfileUnavailable e)
          else snapshotAttempts inventories profiles (Suc attempt) left (Some e))"

definition snapshots ::
  "(nat \<Rightarrow> inventory) \<Rightarrow> (nat \<Rightarrow> instant \<Rightarrow> profile_error + profile_snapshot) \<Rightarrow>
   snapshot_error + inventory \<times> profile_snapshot" where
  "snapshots inventories profiles = snapshotAttempts inventories profiles 0 defaultSnapshotAttempts None"

datatype binding_error =
    RevisionNotCurrent string u64
  | TargetNotInSnapshot string
  | BindingIncomplete string

definition bindTarget :: "inventory \<Rightarrow> nat \<times> execution_stage \<Rightarrow> binding_error + target_binding" where
  "bindTarget inventory = (\<lambda>(index, stage).
     case workersByID inventory (es_targetID stage) of
       None \<Rightarrow> Inl (TargetNotInSnapshot (es_targetID stage))
     | Some w \<Rightarrow>
         if wk_instanceID w = [] \<or> wk_endpoint w = [] then Inl (BindingIncomplete (es_targetID stage))
         else Inr \<lparr>tb_index = int index, tb_workerID = wk_ID w, tb_instanceID = wk_instanceID w,
           tb_endpoint = wk_endpoint w\<rparr>)"

definition selectedTargetBindings :: "inventory \<Rightarrow> execution_plan \<Rightarrow> binding_error + target_binding list" where
  "selectedTargetBindings inventory plan =
     (if ep_inventoryRevision plan \<noteq> decimal_nat (unat (inv_revision inventory))
      then Inl (RevisionNotCurrent (ep_inventoryRevision plan) (inv_revision inventory))
      else collect (bindTarget inventory) (indexed (ep_stages plan)))"

text \<open>
  A target resolver, with the two optional checks the scheduler looks for. What \<open>Resolve\<close>
  answers belongs to the environment.
\<close>

datatype transport_error =
    ProtocolUnbound string string
  | EncodingUnsupported string string
  | EndpointWithoutTLS string string
  | ResolverRejects string

record target_resolver =
  rs_validateTransport :: "(transport_requirement \<Rightarrow> transport_error + unit) option"
  rs_validateTarget :: "(target_binding \<Rightarrow> transport_requirement \<Rightarrow> transport_error + unit) option"

definition httpValidateTransport :: "transport_requirement \<Rightarrow> transport_error + unit" where
  "httpValidateTransport requirement =
     (if tq_protocol requirement \<noteq> instanceBoundHTTPProtocol
      then Inl (ProtocolUnbound instanceBoundHTTPProtocol (tq_protocol requirement))
      else if tq_tensorEncoding requirement \<noteq> base64JSONTensorEncoding
      then Inl (EncodingUnsupported base64JSONTensorEncoding (tq_tensorEncoding requirement))
      else Inr ())"

definition httpValidateTarget ::
  "url_library \<Rightarrow> target_binding \<Rightarrow> transport_requirement \<Rightarrow> transport_error + unit" where
  "httpValidateTarget lib binding requirement =
     (if \<not> tq_requireTLS requirement then Inr ()
      else case url_parse lib (tb_endpoint binding) of
        None \<Rightarrow> Inl (EndpointWithoutTLS (tb_workerID binding) (tb_endpoint binding))
      | Some u \<Rightarrow>
          if u_scheme u \<noteq> ''https'' then Inl (EndpointWithoutTLS (tb_workerID binding) (tb_endpoint binding))
          else Inr ())"

definition httpResolver :: "url_library \<Rightarrow> target_resolver" where
  "httpResolver lib = \<lparr>rs_validateTransport = Some httpValidateTransport,
     rs_validateTarget = Some (httpValidateTarget lib)\<rparr>"

datatype prepare_error =
    PrepareCancelled
  | TransportRejected transport_error
  | SnapshotsFailed snapshot_error
  | ConstructionFailed planner_error
  | NoEligiblePlan
  | BindingFailed binding_error
  | TargetRejected nat transport_error
  | AdmissionRefused reserve_error
  | ResolveFailed nat
  | SessionFailed
  | SetupUnobserved "setup_error list"

definition validateTransport :: "target_resolver \<Rightarrow> transport_requirement \<Rightarrow> prepare_error + unit" where
  "validateTransport resolver requirement =
     (case rs_validateTransport resolver of
        None \<Rightarrow> Inr () | Some validate \<Rightarrow> map_error TransportRejected (validate requirement))"

definition validateTargets ::
  "target_resolver \<Rightarrow> transport_requirement \<Rightarrow> target_binding list \<Rightarrow> prepare_error + unit" where
  "validateTargets resolver requirement bindings =
     (case rs_validateTarget resolver of
        None \<Rightarrow> Inr ()
      | Some validate \<Rightarrow>
          and_then (collect (\<lambda>(index, binding). map_error (TargetRejected index) (validate binding requirement))
            (indexed bindings)) (\<lambda>_. Inr ()))"

text \<open>
  \<open>Prepare\<close> up to the reservation. The selection is \<open>None\<close> where the source returns the zero
  value. Nothing but \<open>reserveAdmission\<close> touches the shared ledger.
\<close>

definition prepareAdmission ::
  "digests \<Rightarrow> target_resolver \<Rightarrow> bool \<Rightarrow> (nat \<Rightarrow> inventory) \<Rightarrow>
   (nat \<Rightarrow> instant \<Rightarrow> profile_error + profile_snapshot) \<Rightarrow> plan_construction_request \<Rightarrow> scheduler \<Rightarrow>
   scheduler \<times> sequence_selection option \<times> (prepare_error + sequence_reservation)" where
  "prepareAdmission dg resolver cancelled inventories profiles request sch =
     (let requirement = psr_transport (pcr_scoring request) in
      if cancelled then (sch, None, Inl PrepareCancelled)
      else case validateTransport resolver requirement of
        Inl e \<Rightarrow> (sch, None, Inl e)
      | Inr _ \<Rightarrow>
     case snapshots inventories profiles of
        Inl e \<Rightarrow> (sch, None, Inl (SnapshotsFailed e))
      | Inr (inventory, profile) \<Rightarrow>
     let construction = constructPlan dg inventory profile request;
         selection = \<lparr>sel_schemaVersion = 1, sel_construction = construction, sel_targets = []\<rparr>
     in case construction of
        Inl e \<Rightarrow> (sch, Some selection, Inl (ConstructionFailed e))
      | Inr result \<Rightarrow>
     case pr_selectedPlan result of
        None \<Rightarrow> (sch, Some selection, Inl NoEligiblePlan)
      | Some evaluation \<Rightarrow>
     case selectedTargetBindings inventory (pe_plan evaluation) of
        Inl e \<Rightarrow> (sch, Some selection, Inl (BindingFailed e))
      | Inr bindings \<Rightarrow>
     let bound = selection\<lparr>sel_targets := bindings\<rparr>
     in case validateTargets resolver requirement bindings of
        Inl e \<Rightarrow> (sch, Some bound, Inl e)
      | Inr _ \<Rightarrow>
     case reserveAdmission inventory evaluation sch of
        (sch', Inl e) \<Rightarrow> (sch', Some bound, Inl (AdmissionRefused e))
      | (sch', Inr r) \<Rightarrow> (sch', Some bound, Inr r))"

text \<open>
  The rest of \<open>Prepare\<close>: the callers are resolved, the session is started on the workers,
  and the setup is observed. Each failure finishes the reservation. \<open>resolves\<close>, \<open>starts\<close>
  and the answers are the environment's; \<open>inventory\<close> is the snapshot that finishing takes.
\<close>

definition prepareSession ::
  "inventory \<Rightarrow> (nat \<Rightarrow> bool) \<Rightarrow> bool \<Rightarrow> (nat \<Rightarrow> observed) \<Rightarrow> sequence_reservation \<Rightarrow> scheduler \<Rightarrow>
   sequence_reservation \<times> scheduler \<times> (prepare_error + unit)" where
  "prepareSession inventory resolves starts answers r sch =
     (let finished = (\<lambda>loaded r e.
          let (r', sch') = finishOnce inventory answers
                \<lparr>ro_mayHaveLoaded = loaded, ro_cleanupConfirmed = True\<rparr> r sch
          in (r', sch', Inl e))
      in case find (\<lambda>index. \<not> resolves index) [0..<length (rv_stages r)] of
        Some index \<Rightarrow> finished False r (ResolveFailed index)
      | None \<Rightarrow>
          let (observed, errors) = observeSetup starts answers r in
          if \<not> starts then finished True observed SessionFailed
          else if errors \<noteq> [] then finished True observed (SetupUnobserved errors)
          else (observed, sch, Inr ()))"

section \<open>The ledger as a multiset of claims\<close>

text \<open>
  What a reserved stage claims: a slot of its shard, a request of its worker, and bytes. The
  ledger holds a multiset of claims when its counters are the sizes and sums over them.
\<close>

type_synonym claim = "sequence_key \<times> worker_key \<times> nat \<times> nat"

definition claim :: "stage_reservation \<Rightarrow> claim" where
  "claim s = (sg_sequenceKey s, sg_workerKey s, unat (sg_loadMemoryBytes s), unat (sg_sequenceMemoryBytes s))"

abbreviation on_shard :: "sequence_key \<Rightarrow> claim multiset \<Rightarrow> claim multiset" where
  "on_shard k M \<equiv> filter_mset (\<lambda>(shard, w, l, n). shard = k) M"

abbreviation on_worker :: "worker_key \<Rightarrow> claim multiset \<Rightarrow> claim multiset" where
  "on_worker k M \<equiv> filter_mset (\<lambda>(shard, w, l, n). w = k) M"

definition claimed_bytes :: "claim multiset \<Rightarrow> nat" where
  "claimed_bytes M = (\<Sum>(shard, w, l, n) \<in># M. l + n)"

definition claimed_retained :: "claim multiset \<Rightarrow> nat" where
  "claimed_retained M = (\<Sum>(shard, w, l, n) \<in># M. n)"

definition ledger_of :: "scheduler \<Rightarrow> claim multiset \<Rightarrow> bool" where
  "ledger_of sch M \<longleftrightarrow>
     (\<forall>k. slots_active (slots_at sch k) = int (size (on_shard k M))) \<and>
     (\<forall>k. wl_activeRequests (ledger_at sch k) = int (size (on_worker k M)) \<and>
          unat (wl_activeAvailableBytes (ledger_at sch k)) = claimed_bytes (on_worker k M) \<and>
          unat (wl_activeRetainedBytes (ledger_at sch k)) = claimed_retained (on_worker k M))"

lemma claimed_add [simp]:
  "claimed_bytes (add_mset (k, w, l, n) M) = l + n + claimed_bytes M"
  "claimed_retained (add_mset (k, w, l, n) M) = n + claimed_retained M"
  by (simp_all add: claimed_bytes_def claimed_retained_def)

lemma claimed_empty [simp]: "claimed_bytes {#} = 0" "claimed_retained {#} = 0"
  by (simp_all add: claimed_bytes_def claimed_retained_def)

lemma zero_entries [simp]:
  "slots_active zeroSlots = 0" "slots_poisonedAfter zeroSlots = []" "wl_activeRequests zeroLedger = 0"
  "wl_activeAvailableBytes zeroLedger = 0" "wl_activeRetainedBytes zeroLedger = 0" "wl_pendingMemory zeroLedger = []"
  by (simp_all add: zeroSlots_def zeroLedger_def)

lemma new_ledger: "ledger_of newSequenceScheduler {#}"
  by (simp add: ledger_of_def newSequenceScheduler_def slots_at_def ledger_at_def)

subsection \<open>Arithmetic without saturation\<close>

lemma addReservationBytes_exact:
  "unat l + unat r < 18446744073709551616 \<Longrightarrow> addReservationBytes l r = (l + r, False)"
  using u64_add_overflow [of r l] by (simp add: addReservationBytes_def)

lemma addReservationBytes_False:
  "addReservationBytes l r = (s, False) \<longleftrightarrow> unat l + unat r < 18446744073709551616 \<and> s = l + r"
  using u64_add_overflow [of r l] by (auto simp: addReservationBytes_def)

lemma addReservationBytes_sum:
  "addReservationBytes l r = (s, False) \<Longrightarrow> unat s = unat l + unat r"
  by (simp add: addReservationBytes_False unat_u64_add_exact)

lemma subtractAvailable_exact: "unat (subtractAvailable a r) = unat a - unat r"
  by (cases "a \<le> r") (auto simp: subtractAvailable_def u64_le_iff unat_u64_sub)

subsection \<open>Entries after an update\<close>

lemma slots_at_update:
  "slots_at (sch\<lparr>sd_reservations := (sd_reservations sch)(k := x), sd_workers := g\<rparr>) k' =
     (if k' = k then case x of None \<Rightarrow> zeroSlots | Some s \<Rightarrow> s else slots_at sch k')"
  by (simp add: slots_at_def)

lemma ledger_at_update:
  "ledger_at (sch\<lparr>sd_reservations := f, sd_workers := (sd_workers sch)(k := x)\<rparr>) k' =
     (if k' = k then case x of None \<Rightarrow> zeroLedger | Some s \<Rightarrow> s else ledger_at sch k')"
  by (simp add: ledger_at_def)

lemma commit_slots:
  "slots_at (commitStage s sch) k =
     (if k = sg_sequenceKey s then (slots_at sch k)\<lparr>slots_active := slots_active (slots_at sch k) + 1\<rparr> else slots_at sch k)"
  by (auto simp: commitStage_def Let_def slots_at_update)

lemma commit_ledger:
  "ledger_at (commitStage s sch) k =
     (if k = sg_workerKey s
      then let l = ledger_at sch k in
        l\<lparr>wl_activeRequests := wl_activeRequests l + 1,
          wl_activeAvailableBytes := fst (addReservationBytes (wl_activeAvailableBytes l)
            (sg_loadMemoryBytes s + sg_sequenceMemoryBytes s)),
          wl_activeRetainedBytes := fst (addReservationBytes (wl_activeRetainedBytes l) (sg_sequenceMemoryBytes s))\<rparr>
      else ledger_at sch k)"
  by (auto simp: commitStage_def Let_def ledger_at_update)

lemma finish_slots:
  "slots_at (finishStage inventory outcome s sch) k =
     (if k = sg_sequenceKey s
      then case finishSlots inventory outcome s (slots_at sch k) of None \<Rightarrow> zeroSlots | Some x \<Rightarrow> x
      else slots_at sch k)"
  by (auto simp: finishStage_def slots_at_update)

lemma finish_ledger:
  "ledger_at (finishStage inventory outcome s sch) k =
     (if k = sg_workerKey s
      then case finishLedger inventory outcome s (ledger_at sch k) of None \<Rightarrow> zeroLedger | Some x \<Rightarrow> x
      else ledger_at sch k)"
  by (auto simp: finishStage_def ledger_at_update)

subsection \<open>Each operation keeps the count\<close>

text \<open>The bytes of a stage fit on top of what its worker's ledger holds.\<close>

definition fits :: "scheduler \<Rightarrow> stage_reservation \<Rightarrow> bool" where
  "fits sch s \<longleftrightarrow>
     unat (wl_activeAvailableBytes (ledger_at sch (sg_workerKey s))) + unat (sg_loadMemoryBytes s) +
       unat (sg_sequenceMemoryBytes s) < 18446744073709551616 \<and>
     unat (wl_activeRetainedBytes (ledger_at sch (sg_workerKey s))) + unat (sg_sequenceMemoryBytes s) < 18446744073709551616"

lemma commit_claims:
  assumes "ledger_of sch M" and "fits sch s"
  shows "ledger_of (commitStage s sch) (add_mset (claim s) M)"
proof -
  let ?l = "ledger_at sch (sg_workerKey s)"
  have n: "unat (sg_loadMemoryBytes s + sg_sequenceMemoryBytes s) = unat (sg_loadMemoryBytes s) + unat (sg_sequenceMemoryBytes s)"
    using assms(2) by (intro unat_u64_add_exact) (simp add: fits_def)
  have "unat (wl_activeAvailableBytes ?l) + unat (sg_loadMemoryBytes s + sg_sequenceMemoryBytes s) < 18446744073709551616"
    using assms(2) unfolding n by (simp add: fits_def)
  note add1 = addReservationBytes_exact [OF this] unat_u64_add_exact [OF this]
  have "unat (wl_activeRetainedBytes ?l) + unat (sg_sequenceMemoryBytes s) < 18446744073709551616"
    using assms(2) by (simp add: fits_def)
  note add2 = addReservationBytes_exact [OF this] unat_u64_add_exact [OF this]
  show ?thesis
    using assms(1) unfolding ledger_of_def by (simp add: commit_slots commit_ledger Let_def claim_def add1 add2 n)
qed

lemma finish_active:
  "slots_active (case finishSlots inventory outcome s x of None \<Rightarrow> zeroSlots | Some y \<Rightarrow> y) =
     (if 0 < slots_active x then slots_active x - 1 else slots_active x)"
  by (simp add: finishSlots_def Let_def)

definition after_finish :: "inventory \<Rightarrow> reservation_outcome \<Rightarrow> stage_reservation \<Rightarrow> worker_ledger \<Rightarrow> worker_ledger" where
  "after_finish inventory outcome s l =
     (case finishLedger inventory outcome s l of None \<Rightarrow> zeroLedger | Some y \<Rightarrow> y)"

lemma finish_counters [simp]:
  "wl_activeRequests (after_finish inventory outcome s l) =
     (if 0 < wl_activeRequests l then wl_activeRequests l - 1 else wl_activeRequests l)"
  "wl_activeAvailableBytes (after_finish inventory outcome s l) =
     subtractAvailable (wl_activeAvailableBytes l) (sg_loadMemoryBytes s + sg_sequenceMemoryBytes s)"
  "wl_activeRetainedBytes (after_finish inventory outcome s l) =
     subtractAvailable (wl_activeRetainedBytes l) (sg_sequenceMemoryBytes s)"
  by (simp_all add: after_finish_def finishLedger_def Let_def)

lemma finish_claims:
  assumes "ledger_of sch (add_mset (claim s) M)"
  shows "ledger_of (finishStage inventory outcome s sch) M"
proof -
  let ?l = "ledger_at sch (sg_workerKey s)"
  have bytes: "unat (wl_activeAvailableBytes ?l) = unat (sg_loadMemoryBytes s) + unat (sg_sequenceMemoryBytes s) + claimed_bytes (on_worker (sg_workerKey s) M)"
    using assms unfolding ledger_of_def claim_def by simp
  then have "unat (sg_loadMemoryBytes s) + unat (sg_sequenceMemoryBytes s) < 18446744073709551616"
    using u64_bound [of "wl_activeAvailableBytes ?l"] by linarith
  then have n: "unat (sg_loadMemoryBytes s + sg_sequenceMemoryBytes s) = unat (sg_loadMemoryBytes s) + unat (sg_sequenceMemoryBytes s)"
    by (rule unat_u64_add_exact)
  show ?thesis
    using assms unfolding ledger_of_def
    by (auto simp: finish_slots finish_ledger after_finish_def [symmetric] finish_active claim_def subtractAvailable_exact n)
qed

lemma finishReservation_claims:
  "ledger_of sch (mset (map claim ss) + M) \<Longrightarrow> ledger_of (finishReservation inventory outcome ss sch) M"
proof (induction ss arbitrary: sch)
  case Nil
  then show ?case by (simp add: finishReservation_def)
next
  case (Cons s ss)
  have "ledger_of (finishStage inventory outcome s sch) (mset (map claim ss) + M)"
    by (rule finish_claims) (use Cons.prems in simp)
  from Cons.IH [OF this] show ?case by (simp add: finishReservation_def)
qed

lemma reconcile_slots:
  "slots_active (slots_at (reconcileReservations inventory sch) k) = slots_active (slots_at sch k)"
  by (auto simp: slots_at_def reconcileReservations_def reconcileSlots_def Let_def split: option.split)

lemma reconcile_counters:
  "wl_activeRequests (ledger_at (reconcileReservations inventory sch) k) = wl_activeRequests (ledger_at sch k)"
  "wl_activeAvailableBytes (ledger_at (reconcileReservations inventory sch) k) = wl_activeAvailableBytes (ledger_at sch k)"
  "wl_activeRetainedBytes (ledger_at (reconcileReservations inventory sch) k) = wl_activeRetainedBytes (ledger_at sch k)"
  by (auto simp: ledger_at_def reconcileReservations_def reconcileLedger_def Let_def split: option.split)

lemma reconcile_claims: "ledger_of (reconcileReservations inventory sch) M \<longleftrightarrow> ledger_of sch M"
  by (simp add: ledger_of_def reconcile_slots reconcile_counters)

section \<open>What an admission is granted on\<close>

definition pending_bytes :: "pending_memory list \<Rightarrow> nat" where
  "pending_bytes ps = sum_list (map (unat \<circ> pm_availableBytes) ps)"

definition pending_retained :: "pending_memory list \<Rightarrow> nat" where
  "pending_retained ps = sum_list (map (unat \<circ> pm_retainedBytes) ps)"

lemma addPending_iff:
  "addPending a r ps = Some (x, y) \<longleftrightarrow>
     unat x = unat a + pending_bytes ps \<and> unat y = unat r + pending_retained ps"
proof (induction ps arbitrary: a r)
  case Nil
  then show ?case by (auto simp: pending_bytes_def pending_retained_def word_unat_eq_iff)
next
  case (Cons p ps)
  let ?a = "pm_availableBytes p" and ?r = "pm_retainedBytes p"
  have sums: "pending_bytes (p # ps) = unat ?a + pending_bytes ps" "pending_retained (p # ps) = unat ?r + pending_retained ps"
    by (simp_all add: pending_bytes_def pending_retained_def)
  show ?case
  proof (cases "unat a + unat ?a < 18446744073709551616 \<and> unat r + unat ?r < 18446744073709551616")
    case True
    then show ?thesis
      using Cons.IH [of "a + ?a" "r + ?r"] by (simp add: addReservationBytes_exact unat_u64_add_exact sums add.assoc)
  next
    case False
    then have "addPending a r (p # ps) = None"
      by (auto simp: addReservationBytes_def u64_add_overflow [unfolded] Let_def)
    moreover have "\<not> (unat x = unat a + pending_bytes (p # ps) \<and> unat y = unat r + pending_retained (p # ps))"
      using False u64_bound [of x] u64_bound [of y] unfolding sums by linarith
    ultimately show ?thesis by simp
  qed
qed

lemma reservedWorkerMemory_iff:
  "reservedWorkerMemory l = Some (x, y) \<longleftrightarrow>
     unat x = unat (wl_activeAvailableBytes l) + pending_bytes (wl_pendingMemory l) \<and>
     unat y = unat (wl_activeRetainedBytes l) + pending_retained (wl_pendingMemory l)"
  by (simp add: reservedWorkerMemory_def addPending_iff)

lemma checkMemory_Inr:
  assumes "checkMemory w l required sequence = Inr u"
  shows "\<exists>a r. reservedWorkerMemory l = Some (a, r) \<and>
    unat a + unat required \<le> unat (st_availableMemoryBytes (wk_status w)) \<and>
    unat (st_retainedBytes (wk_status w)) + unat r + unat sequence \<le>
      unat (al_retainedByteBudget (cap_admission (wk_capabilities w)))"
proof -
  let ?available = "st_availableMemoryBytes (wk_status w)" and ?retained = "st_retainedBytes (wk_status w)"
  obtain a r where m: "reservedWorkerMemory l = Some (a, r)"
    using assms by (cases "reservedWorkerMemory l") (auto simp: checkMemory_def Let_def)
  have "\<not> ?available < a" "\<not> subtractAvailable ?available a < required"
    using assms by (auto simp: checkMemory_def Let_def m split: if_splits)
  then have a: "unat a + unat required \<le> unat ?available"
    by (auto simp: u64_less_iff subtractAvailable_exact)
  obtain p where p: "addReservationBytes ?retained r = (p, False)"
    using assms \<open>\<not> ?available < a\<close> \<open>\<not> subtractAvailable ?available a < required\<close>
    by (cases "addReservationBytes ?retained r") (auto simp: checkMemory_def Let_def m split: if_splits)
  obtain t where t: "addReservationBytes p sequence = (t, False)"
    "\<not> al_retainedByteBudget (cap_admission (wk_capabilities w)) < t"
    using assms \<open>\<not> ?available < a\<close> \<open>\<not> subtractAvailable ?available a < required\<close>
    by (cases "addReservationBytes p sequence") (auto simp: checkMemory_def Let_def m p split: if_splits)
  have "unat t = unat ?retained + unat r + unat sequence"
    using addReservationBytes_sum [OF p] addReservationBytes_sum [OF t(1)] by simp
  with t(2) a m show ?thesis by (auto simp: u64_less_iff)
qed

text \<open>What \<open>reserveStage\<close> has checked of a stage it reserves.\<close>

definition granted :: "inventory \<Rightarrow> scheduler \<Rightarrow> execution_stage \<Rightarrow> worker \<Rightarrow> stage_reservation \<Rightarrow> bool" where
  "granted inventory sch stage w s \<longleftrightarrow>
     workersByID inventory (es_targetID stage) = Some w \<and> st_workerObservationSequence (wk_status w) \<noteq> 0 \<and>
     sg_sequenceKey s = sequenceKeyOf w (es_shardID stage) \<and> sg_workerKey s = workerKeyOf w \<and>
     wrap_int (openOnShard w (es_shardID stage) + local_open (slots_at sch (sg_sequenceKey s))) <
       al_maxOpenSequencesPerShard (cap_admission (wk_capabilities w)) \<and>
     wrap_int (st_openSequenceCount (wk_status w) + wl_activeRequests (ledger_at sch (sg_workerKey s))) <
       al_maxConcurrentRequests (cap_admission (wk_capabilities w)) \<and>
     unat (sg_loadMemoryBytes s) + unat (sg_sequenceMemoryBytes s) < 18446744073709551616 \<and>
     checkMemory w (ledger_at sch (sg_workerKey s)) (sg_loadMemoryBytes s + sg_sequenceMemoryBytes s)
       (sg_sequenceMemoryBytes s) = Inr () \<and>
     \<not> sg_setupObserved s \<and> \<not> sg_cleanupObserved s"

lemma reserveStage_Inr:
  assumes "reserveStage inventory ev sch (i, stage) = Inr s"
  shows "\<exists>w. granted inventory sch stage w s"
proof -
  obtain w where w: "workersByID inventory (es_targetID stage) = Some w"
    using assms by (cases "workersByID inventory (es_targetID stage)") (auto simp: reserveStage_def)
  let ?load = "if cd_reusesRetainedShard (spe_selectedCandidate (pe_stages ev ! i)) then 0
     else sce_loadMemoryBytes (psr_stages (pe_request ev) ! i)"
  let ?bytes = "sce_sequenceMemoryBytes (psr_stages (pe_request ev) ! i)"
  obtain required overflow where sum: "addReservationBytes ?load ?bytes = (required, overflow)"
    by (cases "addReservationBytes ?load ?bytes")
  note run = assms [unfolded reserveStage_def prod.case w option.case Let_def sum guard_Inr and_then_Inr]
  have sum': "addReservationBytes ?load ?bytes = (required, False)" using run sum by simp
  have "unat ?load + unat ?bytes < 18446744073709551616" "required = ?load + ?bytes"
    using sum' by (simp_all only: addReservationBytes_False)
  then show ?thesis using run w by (intro exI [of _ w]) (auto simp: granted_def)
qed

lemma workersByID_ID: "workersByID inventory i = Some w \<Longrightarrow> wk_ID w = i \<and> w \<in> set (inv_workers inventory)"
  by (auto simp: workersByID_def dest!: map_of_SomeD)

lemma granted_fits: "granted inventory sch stage w s \<Longrightarrow> fits sch s"
proof -
  assume g: "granted inventory sch stage w s"
  then have n: "unat (sg_loadMemoryBytes s + sg_sequenceMemoryBytes s) = unat (sg_loadMemoryBytes s) + unat (sg_sequenceMemoryBytes s)"
    by (intro unat_u64_add_exact) (simp add: granted_def)
  obtain a r where m: "reservedWorkerMemory (ledger_at sch (sg_workerKey s)) = Some (a, r)"
    "unat a + unat (sg_loadMemoryBytes s + sg_sequenceMemoryBytes s) \<le> unat (st_availableMemoryBytes (wk_status w))"
    "unat (st_retainedBytes (wk_status w)) + unat r + unat (sg_sequenceMemoryBytes s) \<le>
       unat (al_retainedByteBudget (cap_admission (wk_capabilities w)))"
    using g checkMemory_Inr unfolding granted_def by blast
  show ?thesis
    using m(1) [unfolded reservedWorkerMemory_iff] m(2,3)
      u64_bound [of "st_availableMemoryBytes (wk_status w)"]
      u64_bound [of "al_retainedByteBudget (cap_admission (wk_capabilities w))"]
    unfolding fits_def n by linarith
qed

subsection \<open>Operations on one entry\<close>

text \<open>
  The maps are updated one entry at a time: an operation on a stage changes the entry at the
  stage's key, depending on that entry only. A fold over stages with distinct keys then does
  to each entry what its own stage does.
\<close>

locale entrywise =
  fixes entry :: "'s \<Rightarrow> 'k \<Rightarrow> 'v" and key :: "'x \<Rightarrow> 'k" and op :: "'x \<Rightarrow> 's \<Rightarrow> 's"
  assumes elsewhere: "key x \<noteq> k \<Longrightarrow> entry (op x s) k = entry s k"
    and pointwise: "entry s (key x) = entry t (key x) \<Longrightarrow> entry (op x s) (key x) = entry (op x t) (key x)"
begin

lemma fold_elsewhere: "k \<notin> key ` set xs \<Longrightarrow> entry (fold op xs s) k = entry s k"
  by (induction xs arbitrary: s) (auto simp: elsewhere)

lemma fold_at: "distinct (map key xs) \<Longrightarrow> x \<in> set xs \<Longrightarrow> entry (fold op xs s) (key x) = entry (op x s) (key x)"
proof (induction xs arbitrary: s)
  case Nil
  then show ?case by simp
next
  case (Cons y ys)
  show ?case
  proof (cases "x = y")
    case True
    then show ?thesis using Cons.prems(1) fold_elsewhere [of "key y" ys] by simp
  next
    case False
    then have x: "x \<in> set ys" "key y \<noteq> key x" "distinct (map key ys)" using Cons.prems by auto
    then have "entry (fold op ys (op y s)) (key x) = entry (op x (op y s)) (key x)" by (intro Cons.IH)
    also have "\<dots> = entry (op x s) (key x)" using x(2) by (intro pointwise elsewhere)
    finally show ?thesis by simp
  qed
qed

end

interpretation commit_at_shard: entrywise slots_at sg_sequenceKey commitStage
  by unfold_locales (auto simp: commit_slots)

interpretation commit_at_worker: entrywise ledger_at sg_workerKey commitStage
  by unfold_locales (auto simp: commit_ledger Let_def)

interpretation finish_at_shard: entrywise slots_at sg_sequenceKey "finishStage inventory outcome" for inventory outcome
  by unfold_locales (auto simp: finish_slots)

interpretation finish_at_worker: entrywise ledger_at sg_workerKey "finishStage inventory outcome" for inventory outcome
  by unfold_locales (auto simp: finish_ledger)

lemma commit_all_claims:
  assumes "ledger_of sch M" and "\<And>s. s \<in> set ss \<Longrightarrow> fits sch s" and "distinct (map sg_workerKey ss)"
  shows "ledger_of (fold commitStage ss sch) (M + mset (map claim ss))"
  using assms
proof (induction ss arbitrary: sch M)
  case Nil
  then show ?case by simp
next
  case (Cons s ss)
  have "ledger_of (commitStage s sch) (add_mset (claim s) M)"
    by (rule commit_claims) (use Cons.prems(1,2) in auto)
  moreover have "fits (commitStage s sch) t" if "t \<in> set ss" for t
  proof -
    have "sg_workerKey s \<noteq> sg_workerKey t" using Cons.prems(3) that by auto
    then show ?thesis using Cons.prems(2) [of t] that by (simp add: fits_def commit_at_worker.elsewhere)
  qed
  ultimately have "ledger_of (fold commitStage ss (commitStage s sch)) (add_mset (claim s) M + mset (map claim ss))"
    using Cons.IH [of "commitStage s sch" "add_mset (claim s) M"] Cons.prems(3) by simp
  then show ?case by simp
qed

text \<open>A reservation of a plan whose targets differ, with the worker behind every stage.\<close>

lemma reserveAdmission_Inr:
  assumes "reserveAdmission inventory ev sch = (sch', Inr r)"
    and "distinct (map es_targetID (ep_stages (pe_plan ev)))"
  shows "sch' = fold commitStage (rv_stages r) (reconcileReservations inventory sch)" "\<not> rv_finished r"
    "list_all2 (\<lambda>stage s. \<exists>w. granted inventory (reconcileReservations inventory sch) stage w s)
       (ep_stages (pe_plan ev)) (rv_stages r)"
    "distinct (map sg_workerKey (rv_stages r))" "distinct (map sg_sequenceKey (rv_stages r))"
proof -
  let ?stages = "ep_stages (pe_plan ev)" and ?sch = "reconcileReservations inventory sch"
  obtain ss where ss: "collect (reserveStage inventory ev ?sch) (indexed ?stages) = Inr ss"
    and r: "r = \<lparr>rv_stages = ss, rv_finished = False\<rparr>" "sch' = fold commitStage ss ?sch"
    using assms(1) by (auto simp: reserveAdmission_def Let_def split: if_splits sum.splits)
  show "sch' = fold commitStage (rv_stages r) ?sch" "\<not> rv_finished r" by (simp_all add: r)
  have ran: "list_all2 (\<lambda>x s. reserveStage inventory ev ?sch x = Inr s) (indexed ?stages) ss"
    using ss by (simp add: collect_Inr)
  then have len: "length ss = length ?stages" by (auto dest: list_all2_lengthD)
  have grant: "\<exists>w. granted inventory ?sch (?stages ! i) w (ss ! i)" if "i < length ss" for i
    using list_all2_nthD2 [OF ran that] that len reserveStage_Inr by simp
  then show "list_all2 (\<lambda>stage s. \<exists>w. granted inventory ?sch stage w s) ?stages (rv_stages r)"
    by (simp add: r list_all2_conv_all_nth len)
  have keys: "wkey_workerID (sg_workerKey (ss ! i)) = es_targetID (?stages ! i)"
    "skey_workerID (sg_sequenceKey (ss ! i)) = es_targetID (?stages ! i)" if i: "i < length ss" for i
  proof -
    obtain w where "granted inventory ?sch (?stages ! i) w (ss ! i)" using grant [OF i] by blast
    then show "wkey_workerID (sg_workerKey (ss ! i)) = es_targetID (?stages ! i)"
      "skey_workerID (sg_sequenceKey (ss ! i)) = es_targetID (?stages ! i)"
      using workersByID_ID [of inventory "es_targetID (?stages ! i)" w]
      by (auto simp: granted_def workerKeyOf_def sequenceKeyOf_def)
  qed
  have "map (wkey_workerID \<circ> sg_workerKey) ss = map es_targetID ?stages"
    "map (skey_workerID \<circ> sg_sequenceKey) ss = map es_targetID ?stages"
    by (simp_all add: list_eq_iff_nth_eq keys len)
  then have "distinct (map wkey_workerID (map sg_workerKey ss))" "distinct (map skey_workerID (map sg_sequenceKey ss))"
    using assms(2) by (simp_all only: map_map)
  then have "distinct (map sg_workerKey ss)" "distinct (map sg_sequenceKey ss)" by (blast dest: distinct_map [THEN iffD1])+
  then show "distinct (map sg_workerKey (rv_stages r))" "distinct (map sg_sequenceKey (rv_stages r))" by (simp_all add: r)
qed

lemma reserve_claims:
  assumes "reserveAdmission inventory ev sch = (sch', Inr r)"
    and "distinct (map es_targetID (ep_stages (pe_plan ev)))" and "ledger_of sch M"
  shows "ledger_of sch' (M + mset (map claim (rv_stages r)))"
proof -
  note r = reserveAdmission_Inr [OF assms(1,2)]
  have "fits (reconcileReservations inventory sch) s" if "s \<in> set (rv_stages r)" for s
    using list_all2_right [OF r(3) that] granted_fits by blast
  then show ?thesis unfolding r(1) using assms(3) r(4) by (intro commit_all_claims) (simp_all add: reconcile_claims)
qed

lemma reserve_refused:
  "reserveAdmission inventory ev sch = (sch', Inl e) \<Longrightarrow> sch' = sch \<or> sch' = reconcileReservations inventory sch"
  by (auto simp: reserveAdmission_def Let_def split: if_splits sum.splits)

text \<open>After the commit the projection of every granted stage is within the worker's limits.\<close>

definition memory_within :: "scheduler \<Rightarrow> worker \<Rightarrow> bool" where
  "memory_within sch w \<longleftrightarrow>
     (\<exists>available retained. reservedWorkerMemory (ledger_at sch (workerKeyOf w)) = Some (available, retained) \<and>
        available \<le> st_availableMemoryBytes (wk_status w) \<and>
        unat (st_retainedBytes (wk_status w)) + unat retained
          \<le> unat (al_retainedByteBudget (cap_admission (wk_capabilities w))))"

definition counts_within :: "scheduler \<Rightarrow> worker \<Rightarrow> string \<Rightarrow> bool" where
  "counts_within sch w shardID \<longleftrightarrow>
     openOnShard w shardID + local_open (slots_at sch (sequenceKeyOf w shardID))
       \<le> al_maxOpenSequencesPerShard (cap_admission (wk_capabilities w)) \<and>
     st_openSequenceCount (wk_status w) + wl_activeRequests (ledger_at sch (workerKeyOf w))
       \<le> al_maxConcurrentRequests (cap_admission (wk_capabilities w))"

text \<open>The two sums of a reported and a local count that the admission compares, in the range of Go's \<open>int\<close>.\<close>

definition sums_fit :: "scheduler \<Rightarrow> worker \<Rightarrow> string \<Rightarrow> bool" where
  "sums_fit sch w shardID \<longleftrightarrow>
     openOnShard w shardID + local_open (slots_at sch (sequenceKeyOf w shardID)) \<in> {- (2 ^ 63)..<2 ^ 63} \<and>
     st_openSequenceCount (wk_status w) + wl_activeRequests (ledger_at sch (workerKeyOf w)) \<in> {- (2 ^ 63)..<2 ^ 63}"

lemma commit_within_limits:
  assumes "granted inventory sch stage w s"
  shows "memory_within (commitStage s sch) w"
    "sums_fit sch w (es_shardID stage) \<Longrightarrow> counts_within (commitStage s sch) w (es_shardID stage)"
proof -
  let ?l = "ledger_at sch (sg_workerKey s)" and ?seq = "sg_sequenceMemoryBytes s"
    and ?bytes = "sg_loadMemoryBytes s + sg_sequenceMemoryBytes s"
  note g = assms(1) [unfolded granted_def]
  have keys: "sequenceKeyOf w (es_shardID stage) = sg_sequenceKey s" "workerKeyOf w = sg_workerKey s" using g by simp_all
  have n: "unat ?bytes = unat (sg_loadMemoryBytes s) + unat ?seq"
    using g by (intro unat_u64_add_exact) simp
  obtain a r where m: "reservedWorkerMemory ?l = Some (a, r)" and
    a: "unat a + unat ?bytes \<le> unat (st_availableMemoryBytes (wk_status w))" and
    r: "unat (st_retainedBytes (wk_status w)) + unat r + unat ?seq \<le> unat (al_retainedByteBudget (cap_admission (wk_capabilities w)))"
    using g checkMemory_Inr by blast
  note fit = granted_fits [OF assms(1), unfolded fits_def]
  have "unat (wl_activeAvailableBytes ?l) + unat ?bytes < 18446744073709551616" using fit unfolding n by linarith
  note add1 = addReservationBytes_exact [OF this] unat_u64_add_exact [OF this]
  have "unat (wl_activeRetainedBytes ?l) + unat ?seq < 18446744073709551616" using fit by blast
  note add2 = addReservationBytes_exact [OF this] unat_u64_add_exact [OF this]
  have bounds: "unat a + unat ?bytes < 18446744073709551616" "unat r + unat ?seq < 18446744073709551616"
    using a r u64_bound [of "st_availableMemoryBytes (wk_status w)"]
      u64_bound [of "al_retainedByteBudget (cap_admission (wk_capabilities w))"] by linarith+
  have "reservedWorkerMemory (ledger_at (commitStage s sch) (sg_workerKey s)) = Some (a + ?bytes, r + ?seq)"
    using m bounds by (simp add: reservedWorkerMemory_iff commit_ledger Let_def add1 add2 unat_u64_add_exact)
  then show "memory_within (commitStage s sch) w"
    using a r bounds by (simp add: memory_within_def keys u64_le_iff unat_u64_add_exact add.assoc)
  have wrapped: "wrap_int (openOnShard w (es_shardID stage) + local_open (slots_at sch (sg_sequenceKey s))) <
      al_maxOpenSequencesPerShard (cap_admission (wk_capabilities w))"
    "wrap_int (st_openSequenceCount (wk_status w) + wl_activeRequests ?l) < al_maxConcurrentRequests (cap_admission (wk_capabilities w))"
    using g by blast+
  assume "sums_fit sch w (es_shardID stage)"
  then have "wrap_int (openOnShard w (es_shardID stage) + local_open (slots_at sch (sg_sequenceKey s))) =
      openOnShard w (es_shardID stage) + local_open (slots_at sch (sg_sequenceKey s))"
    "wrap_int (st_openSequenceCount (wk_status w) + wl_activeRequests ?l) = st_openSequenceCount (wk_status w) + wl_activeRequests ?l"
    unfolding sums_fit_def keys by (auto intro!: wrap_int_id)
  with wrapped have "openOnShard w (es_shardID stage) + local_open (slots_at sch (sg_sequenceKey s)) <
      al_maxOpenSequencesPerShard (cap_admission (wk_capabilities w))"
    "st_openSequenceCount (wk_status w) + wl_activeRequests ?l < al_maxConcurrentRequests (cap_admission (wk_capabilities w))"
    by simp_all
  then show "counts_within (commitStage s sch) w (es_shardID stage)"
    by (simp add: counts_within_def keys commit_slots local_open_def) (simp add: commit_ledger Let_def)
qed

lemma reserve_within_limits:
  assumes "reserveAdmission inventory ev sch = (sch', Inr r)"
    and "distinct (map es_targetID (ep_stages (pe_plan ev)))"
    and "stage \<in> set (ep_stages (pe_plan ev))"
  shows "\<exists>w. workersByID inventory (es_targetID stage) = Some w \<and> memory_within sch' w \<and>
    (sums_fit (reconcileReservations inventory sch) w (es_shardID stage) \<longrightarrow> counts_within sch' w (es_shardID stage))"
proof -
  note r = reserveAdmission_Inr [OF assms(1,2)]
  let ?sch = "reconcileReservations inventory sch"
  obtain s w where s: "s \<in> set (rv_stages r)" "granted inventory ?sch stage w s"
    using list_all2_left [OF r(3) assms(3)] by blast
  then have w: "workersByID inventory (es_targetID stage) = Some w" "workerKeyOf w = sg_workerKey s"
    "sequenceKeyOf w (es_shardID stage) = sg_sequenceKey s" by (simp_all add: granted_def)
  note after = commit_at_worker.fold_at [OF r(4) s(1)] commit_at_shard.fold_at [OF r(5) s(1)]
  have "memory_within sch' w"
    using commit_within_limits(1) [OF s(2)] unfolding memory_within_def w r(1) after .
  moreover have "counts_within sch' w (es_shardID stage)" if "sums_fit ?sch w (es_shardID stage)"
    using commit_within_limits(2) [OF s(2) that] unfolding counts_within_def w r(1) after .
  ultimately show ?thesis using w(1) by blast
qed

section \<open>Giving back what was reserved\<close>

lemma cleared_outcome: "cleanup_confirmed \<lparr>ro_mayHaveLoaded = loaded, ro_cleanupConfirmed = True\<rparr> s"
  by (simp add: cleanup_confirmed_def)

abbreviation untouched :: reservation_outcome where
  "untouched \<equiv> \<lparr>ro_mayHaveLoaded = False, ro_cleanupConfirmed = True\<rparr>"

lemma slots_returned:
  assumes "0 \<le> slots_active x"
  shows "(case finishSlots inventory untouched s (x\<lparr>slots_active := slots_active x + 1\<rparr>) of None \<Rightarrow> zeroSlots | Some y \<Rightarrow> y) = x"
  using assms by (cases x) (auto simp: finishSlots_def Let_def cleared_outcome zeroSlots_def)

lemma ledger_returned:
  assumes "0 \<le> wl_activeRequests l" and "unat (wl_activeAvailableBytes l) + unat b < 18446744073709551616"
    and "unat (wl_activeRetainedBytes l) + unat n < 18446744073709551616"
    and "b = sg_loadMemoryBytes s + sg_sequenceMemoryBytes s" and "n = sg_sequenceMemoryBytes s"
  shows "(case finishLedger inventory untouched s
      (l\<lparr>wl_activeRequests := wl_activeRequests l + 1,
         wl_activeAvailableBytes := fst (addReservationBytes (wl_activeAvailableBytes l) b),
         wl_activeRetainedBytes := fst (addReservationBytes (wl_activeRetainedBytes l) n)\<rparr>) of
      None \<Rightarrow> zeroLedger | Some y \<Rightarrow> y) = l"
proof -
  have restored: "subtractAvailable (x + y) y = x" if "unat x + unat y < 18446744073709551616" for x y :: u64
    unfolding word_unat_eq_iff subtractAvailable_exact unat_u64_add_exact [OF that] by simp
  have pending: "pm_availableBytes (pendingAfter untouched s) = 0"
    by (simp add: pendingAfter_def Let_def cleared_outcome)
  show ?thesis
    using assms(1) restored [OF assms(2)] restored [OF assms(3)]
      addReservationBytes_exact [OF assms(2)] addReservationBytes_exact [OF assms(3)] pending
    unfolding assms(4,5)
    by (cases l) (simp add: finishLedger_def Let_def zeroLedger_def)
qed

lemma ledger_nonneg: "ledger_of sch M \<Longrightarrow> 0 \<le> slots_active (slots_at sch k) \<and> 0 \<le> wl_activeRequests (ledger_at sch k')"
  by (simp add: ledger_of_def)

lemma reserve_returned:
  assumes "reserveAdmission inventory ev sch = (sch1, Inr r)"
    and "distinct (map es_targetID (ep_stages (pe_plan ev)))" and "ledger_of sch M"
  shows "slots_at (snd (finishOnce inventory' answers untouched r sch1)) = slots_at (reconcileReservations inventory sch)"
    "ledger_at (snd (finishOnce inventory' answers untouched r sch1)) = ledger_at (reconcileReservations inventory sch)"
proof -
  note r = reserveAdmission_Inr [OF assms(1,2)]
  let ?sch = "reconcileReservations inventory sch" and ?ss = "rv_stages r"
  have claims: "ledger_of ?sch M" using assms(3) by (simp add: reconcile_claims)
  have final: "snd (finishOnce inventory' answers untouched r sch1) =
      fold (finishStage inventory' untouched) ?ss (fold commitStage ?ss ?sch)"
    using r(1,2) by (simp add: finishOnce_def finishReservation_def Let_def)
  have fit: "fits ?sch s" if "s \<in> set ?ss" for s
    using list_all2_right [OF r(3) that] granted_fits by blast
  show "slots_at (snd (finishOnce inventory' answers untouched r sch1)) = slots_at ?sch"
  proof
    fix k
    show "slots_at (snd (finishOnce inventory' answers untouched r sch1)) k = slots_at ?sch k"
    proof (cases "k \<in> sg_sequenceKey ` set ?ss")
      case False
      then show ?thesis unfolding final by (simp add: finish_at_shard.fold_elsewhere commit_at_shard.fold_elsewhere)
    next
      case True
      then obtain s where s: "s \<in> set ?ss" "k = sg_sequenceKey s" by blast
      show ?thesis
        unfolding final s(2) finish_at_shard.fold_at [OF r(5) s(1)]
        using slots_returned [OF conjunct1 [OF ledger_nonneg [OF claims]]]
        by (simp add: finish_slots commit_at_shard.fold_at [OF r(5) s(1)] commit_slots)
    qed
  qed
  show "ledger_at (snd (finishOnce inventory' answers untouched r sch1)) = ledger_at ?sch"
  proof
    fix k
    show "ledger_at (snd (finishOnce inventory' answers untouched r sch1)) k = ledger_at ?sch k"
    proof (cases "k \<in> sg_workerKey ` set ?ss")
      case False
      then show ?thesis unfolding final by (simp add: finish_at_worker.fold_elsewhere commit_at_worker.fold_elsewhere)
    next
      case True
      then obtain s where s: "s \<in> set ?ss" "k = sg_workerKey s" by blast
      obtain w stage where g: "granted inventory ?sch stage w s" using list_all2_right [OF r(3) s(1)] by blast
      then have n: "unat (sg_loadMemoryBytes s + sg_sequenceMemoryBytes s) = unat (sg_loadMemoryBytes s) + unat (sg_sequenceMemoryBytes s)"
        by (intro unat_u64_add_exact) (simp add: granted_def)
      have "unat (wl_activeAvailableBytes (ledger_at ?sch (sg_workerKey s))) + unat (sg_loadMemoryBytes s + sg_sequenceMemoryBytes s) < 18446744073709551616"
        "unat (wl_activeRetainedBytes (ledger_at ?sch (sg_workerKey s))) + unat (sg_sequenceMemoryBytes s) < 18446744073709551616"
        using fit [OF s(1)] unfolding fits_def n by linarith+
      note restored = ledger_returned [OF conjunct2 [OF ledger_nonneg [OF claims]] this refl refl]
      show ?thesis
        unfolding final s(2) finish_at_worker.fold_at [OF r(4) s(1)] finish_ledger
          commit_at_worker.fold_at [OF r(4) s(1)] commit_ledger Let_def
        by (simp only: simp_thms if_True restored)
    qed
  qed
qed

section \<open>Quarantine of an ambiguous cleanup\<close>

text \<open>The scheduler's critical sections, as a sequence of events.\<close>

datatype ledger_event =
    Admit inventory plan_evaluation
  | Release inventory reservation_outcome "stage_reservation list"

fun run_event :: "ledger_event \<Rightarrow> scheduler \<Rightarrow> scheduler" where
  "run_event (Admit inventory evaluation) sch = fst (reserveAdmission inventory evaluation sch)"
| "run_event (Release inventory outcome stages) sch = finishReservation inventory outcome stages sch"

text \<open>
  The inventory does not yet show that the shard is closed: the same instance is listed, and
  it reports the shard open or has not been observed since \<open>minimum\<close>.
\<close>

definition not_yet_observed :: "inventory \<Rightarrow> sequence_key \<Rightarrow> u64 \<Rightarrow> bool" where
  "not_yet_observed inventory key minimum \<longleftrightarrow>
     (case sameInstance inventory (skey_workerID key) (skey_instanceID key) of
        None \<Rightarrow> False
      | Some w \<Rightarrow> openOnShard w (skey_shardID key) \<noteq> 0 \<or> st_workerObservationSequence (wk_status w) < minimum)"

fun event_unobserved :: "sequence_key \<Rightarrow> u64 \<Rightarrow> ledger_event \<Rightarrow> bool" where
  "event_unobserved key minimum (Admit inventory evaluation) \<longleftrightarrow> not_yet_observed inventory key minimum"
| "event_unobserved key minimum (Release inventory outcome stages) \<longleftrightarrow> True"

lemma reconcile_keeps_poison:
  assumes "not_yet_observed inventory key minimum" and "minimum \<in> set (slots_poisonedAfter (slots_at sch key))"
  shows "minimum \<in> set (slots_poisonedAfter (slots_at (reconcileReservations inventory sch) key))"
proof -
  obtain x where x: "sd_reservations sch key = Some x" "minimum \<in> set (slots_poisonedAfter x)"
    using assms(2) by (cases "sd_reservations sch key") (auto simp: slots_at_def)
  obtain w where w: "sameInstance inventory (skey_workerID key) (skey_instanceID key) = Some w"
    using assms(1) by (auto simp: not_yet_observed_def split: option.splits)
  then have "openOnShard w (skey_shardID key) \<noteq> 0 \<or> st_workerObservationSequence (wk_status w) < minimum"
    using assms(1) by (simp add: not_yet_observed_def)
  then have "\<exists>y. reconcileSlots inventory key x = Some y \<and> minimum \<in> set (slots_poisonedAfter y)"
    using x(2) w by (auto simp: reconcileSlots_def Let_def filter_empty_conv)
  then show ?thesis using x(1) by (auto simp: slots_at_def reconcileReservations_def)
qed

lemma commit_keeps_poison:
  "slots_poisonedAfter (slots_at (fold commitStage ss sch) key) = slots_poisonedAfter (slots_at sch key)"
  by (induction ss arbitrary: sch) (simp_all add: commit_slots)

lemma finish_keeps_poison:
  "minimum \<in> set (slots_poisonedAfter (slots_at sch key)) \<Longrightarrow>
   minimum \<in> set (slots_poisonedAfter (slots_at (finishStage inventory outcome s sch) key))"
  by (auto simp: finish_slots finishSlots_def Let_def)

lemma finishes_keep_poison:
  "minimum \<in> set (slots_poisonedAfter (slots_at sch key)) \<Longrightarrow>
   minimum \<in> set (slots_poisonedAfter (slots_at (finishReservation inventory outcome ss sch) key))"
  unfolding finishReservation_def by (induction ss arbitrary: sch) (simp_all add: finish_keeps_poison)

lemma event_keeps_poison:
  assumes "event_unobserved key minimum e" and "minimum \<in> set (slots_poisonedAfter (slots_at sch key))"
  shows "minimum \<in> set (slots_poisonedAfter (slots_at (run_event e sch) key))"
proof (cases e)
  case (Admit inventory evaluation)
  have "minimum \<in> set (slots_poisonedAfter (slots_at (reconcileReservations inventory sch) key))"
    using reconcile_keeps_poison assms Admit by simp
  then show ?thesis
    using assms(2) by (auto simp: Admit reserveAdmission_def Let_def commit_keeps_poison split: sum.split)
next
  case (Release inventory outcome stages)
  then show ?thesis using assms(2) by (simp add: finishes_keep_poison)
qed

lemma events_keep_poison:
  "\<forall>e \<in> set events. event_unobserved key minimum e \<Longrightarrow> minimum \<in> set (slots_poisonedAfter (slots_at sch key)) \<Longrightarrow>
   minimum \<in> set (slots_poisonedAfter (slots_at (fold run_event events sch) key))"
  by (induction events arbitrary: sch) (simp_all add: event_keeps_poison)

lemma ambiguous_finish_poisons:
  assumes "s \<in> set ss" and "\<not> cleanup_confirmed outcome s"
    and "sameInstance inventory (wkey_workerID (sg_workerKey s)) (wkey_instanceID (sg_workerKey s)) \<noteq> None"
  shows "cleanupMinimum s \<in> set (slots_poisonedAfter (slots_at (finishReservation inventory outcome ss sch) (sg_sequenceKey s)))"
  using assms(1)
proof (induction ss arbitrary: sch)
  case Nil
  then show ?case by simp
next
  case (Cons t ss)
  show ?case
  proof (cases "s = t")
    case True
    have "cleanupMinimum s \<in> set (slots_poisonedAfter (slots_at (finishStage inventory outcome s sch) (sg_sequenceKey s)))"
      using assms(2,3) by (auto simp: finish_slots finishSlots_def Let_def)
    then show ?thesis using finishes_keep_poison [of _ _ _ inventory outcome ss] True by (simp add: finishReservation_def)
  next
    case False
    then have "s \<in> set ss" using Cons.prems by simp
    from Cons.IH [OF this, of "finishStage inventory outcome t sch"] show ?thesis by (simp add: finishReservation_def)
  qed
qed

lemma poison_refuses:
  assumes "minimum \<in> set (slots_poisonedAfter (slots_at sch (sequenceKeyOf w (es_shardID stage))))"
    and "0 \<le> slots_active (slots_at sch (sequenceKeyOf w (es_shardID stage)))"
  shows "1 \<le> local_open (slots_at sch (sequenceKeyOf w (es_shardID stage)))"
proof -
  have "slots_poisonedAfter (slots_at sch (sequenceKeyOf w (es_shardID stage))) \<noteq> []" using assms(1) by auto
  then show ?thesis using assms(2) by (cases "slots_poisonedAfter (slots_at sch (sequenceKeyOf w (es_shardID stage)))") (auto simp: local_open_def)
qed

section \<open>Consistent snapshots\<close>

lemma snapshotAttempts_Inr:
  "snapshotAttempts inventories profiles start left err = Inr (inventory, profile) \<longleftrightarrow>
     (\<exists>n \<in> {start..<start + left}. inventory = inventories n \<and>
        profiles n (inv_generatedAt (inventories n)) = Inr profile \<and>
        (\<forall>m \<in> {start..<n}. profiles m (inv_generatedAt (inventories m)) = Inl SnapshotRewind))"
proof (induction left arbitrary: start err)
  case 0
  then show ?case by simp
next
  case (Suc left)
  have first: "{start..<start + Suc left} = insert start {Suc start..<Suc start + left}" by auto
  have earlier: "{start..<n} = insert start {Suc start..<n}" if "n \<in> {Suc start..<Suc start + left}" for n
    using that by auto
  show ?case
  proof (cases "profiles start (inv_generatedAt (inventories start))")
    case (Inr p)
    then show ?thesis using earlier unfolding first by auto
  next
    case (Inl e)
    show ?thesis
    proof (cases "e = SnapshotRewind")
      case True
      then have first_run: "snapshotAttempts inventories profiles start (Suc left) err =
          snapshotAttempts inventories profiles (Suc start) left (Some e)"
        by (simp add: Inl)
      show ?thesis
        unfolding first_run Suc.IH first using Inl True earlier by auto
    next
      case False
      then show ?thesis using Inl earlier unfolding first by auto
    qed
  qed
qed

end
