(* ===== verification/Mesh.thy ===== *)
theory Mesh
  imports Scheduler
begin

text \<open>
  Concurrent use of the scheduler (\<open>internal/mesh/scheduler.go\<close>) as a state machine: any
  number of preparations in progress and of scheduled sequences, whose critical sections
  interleave in any order. The ledger is shown to hold, in every reachable state, exactly the
  claims of the reservations that are not finished, and a sequence to run at most once.
\<close>

section \<open>States and steps\<close>

text \<open>
  Reservations are kept in the order of admission, and pointed to by their index.
  \<open>ms_preparing\<close> lists those whose \<open>Prepare\<close> has not returned.
\<close>

record mesh =
  ms_scheduler :: scheduler
  ms_reservations :: "sequence_reservation list"
  ms_preparing :: "nat list"
  ms_sequences :: "scheduled_sequence list"

definition new_mesh :: mesh where
  "new_mesh = \<lparr>ms_scheduler = newSequenceScheduler, ms_reservations = [], ms_preparing = [], ms_sequences = []\<rparr>"

definition admit_sequence ::
  "digests \<Rightarrow> target_resolver \<Rightarrow> bool \<Rightarrow> (nat \<Rightarrow> inventory) \<Rightarrow>
   (nat \<Rightarrow> instant \<Rightarrow> profile_error + profile_snapshot) \<Rightarrow> plan_construction_request \<Rightarrow> mesh \<Rightarrow> mesh" where
  "admit_sequence dg resolver cancelled inventories profiles request m =
     (case prepareAdmission dg resolver cancelled inventories profiles request (ms_scheduler m) of
        (sch, selection, Inl e) \<Rightarrow> m\<lparr>ms_scheduler := sch\<rparr>
      | (sch, selection, Inr r) \<Rightarrow>
          m\<lparr>ms_scheduler := sch, ms_reservations := ms_reservations m @ [r],
            ms_preparing := ms_preparing m @ [length (ms_reservations m)]\<rparr>)"

definition start_session ::
  "inventory \<Rightarrow> (nat \<Rightarrow> bool) \<Rightarrow> bool \<Rightarrow> (nat \<Rightarrow> observed) \<Rightarrow> nat \<Rightarrow> mesh \<Rightarrow> mesh" where
  "start_session inventory resolves starts answers i m =
     (let (r, sch, result) = prepareSession inventory resolves starts answers (ms_reservations m ! i) (ms_scheduler m)
      in m\<lparr>ms_scheduler := sch, ms_reservations := (ms_reservations m)[i := r],
           ms_preparing := remove1 i (ms_preparing m),
           ms_sequences := (case result of
               Inl e \<Rightarrow> ms_sequences m
             | Inr u \<Rightarrow> ms_sequences m @ [\<lparr>ssq_state = SequencePrepared, ssq_reservation = Some i\<rparr>])\<rparr>)"

definition finish_at ::
  "inventory \<Rightarrow> (nat \<Rightarrow> observed) \<Rightarrow> reservation_outcome \<Rightarrow> nat option \<Rightarrow> mesh \<Rightarrow> mesh" where
  "finish_at inventory answers outcome pointer m =
     (case pointer of
        None \<Rightarrow> m
      | Some i \<Rightarrow>
          let (r, sch) = finishOnce inventory answers outcome (ms_reservations m ! i) (ms_scheduler m)
          in m\<lparr>ms_scheduler := sch, ms_reservations := (ms_reservations m)[i := r]\<rparr>)"

definition begin_generate :: "nat \<Rightarrow> mesh \<Rightarrow> sequence_error + mesh" where
  "begin_generate j m =
     (case beginGenerate (ms_sequences m ! j) of
        Inl e \<Rightarrow> Inl e
      | Inr s \<Rightarrow> Inr (m\<lparr>ms_sequences := (ms_sequences m)[j := s]\<rparr>))"

definition end_generate :: "inventory \<Rightarrow> (nat \<Rightarrow> observed) \<Rightarrow> bool \<Rightarrow> nat \<Rightarrow> mesh \<Rightarrow> mesh" where
  "end_generate inventory answers confirmed j m =
     (let (s, pointer) = endGenerate (ms_sequences m ! j)
      in finish_at inventory answers \<lparr>ro_mayHaveLoaded = True, ro_cleanupConfirmed = confirmed\<rparr> pointer
           (m\<lparr>ms_sequences := (ms_sequences m)[j := s]\<rparr>))"

definition close_sequence :: "inventory \<Rightarrow> (nat \<Rightarrow> observed) \<Rightarrow> nat \<Rightarrow> mesh \<Rightarrow> sequence_error + mesh" where
  "close_sequence inventory answers j m =
     (case closeScheduled (ms_sequences m ! j) of
        (s, Inl e) \<Rightarrow> Inl e
      | (s, Inr pointer) \<Rightarrow>
          Inr (finish_at inventory answers \<lparr>ro_mayHaveLoaded = True, ro_cleanupConfirmed = True\<rparr> pointer
            (m\<lparr>ms_sequences := (ms_sequences m)[j := s]\<rparr>)))"

inductive mesh_step :: "digests \<Rightarrow> mesh \<Rightarrow> mesh \<Rightarrow> bool" for dg where
  admit: "mesh_step dg m (admit_sequence dg resolver cancelled inventories profiles request m)"
| session: "i \<in> set (ms_preparing m) \<Longrightarrow> mesh_step dg m (start_session inventory resolves starts answers i m)"
| generate: "j < length (ms_sequences m) \<Longrightarrow> begin_generate j m = Inr m' \<Longrightarrow> mesh_step dg m m'"
| generated: "j < length (ms_sequences m) \<Longrightarrow> ssq_state (ms_sequences m ! j) = SequenceRunning \<Longrightarrow>
    mesh_step dg m (end_generate inventory answers confirmed j m)"
| close: "j < length (ms_sequences m) \<Longrightarrow> close_sequence inventory answers j m = Inr m' \<Longrightarrow> mesh_step dg m m'"

inductive mesh_reachable :: "digests \<Rightarrow> mesh \<Rightarrow> bool" for dg where
  start: "mesh_reachable dg new_mesh"
| step: "mesh_reachable dg m \<Longrightarrow> mesh_step dg m m' \<Longrightarrow> mesh_reachable dg m'"

inductive_cases mesh_step_cases: "mesh_step dg m m'"

section \<open>What admission is given\<close>

lemma fold_result_keeps:
  assumes "\<And>x s s'. I s \<Longrightarrow> f x s = Inr s' \<Longrightarrow> I s'" and "I s" and "fold_result f xs s = Inr s'"
  shows "I s'"
  using assms(2,3) by (induction xs arbitrary: s) (auto simp: and_then_Inr dest: assms(1))

text \<open>The plan that the search returns was evaluated as complete, so it was scored.\<close>

definition selected_evaluated ::
  "digests \<Rightarrow> inventory \<Rightarrow> profile_snapshot \<Rightarrow> plan_construction_result \<Rightarrow> bool" where
  "selected_evaluated dg inventory profile res \<longleftrightarrow>
     (\<forall>ev. pr_selectedPlan res = Some ev \<longrightarrow> (\<exists>q p. evaluateCompletePlan dg inventory profile q p = Inr ev))"

lemma complete_keeps_evaluated:
  assumes "selected_evaluated dg inventory profile result" and "completeMove dg inventory profile q p result = Inr result'"
  shows "selected_evaluated dg inventory profile result'"
proof -
  obtain ev where ev: "evaluateCompletePlan dg inventory profile q p = Inr ev"
    using assms(2) by (auto simp: completeMove_def and_then_Inr)
  have "pr_selectedPlan result' = Some ev \<or> pr_selectedPlan result' = pr_selectedPlan result"
    using assms(2) [symmetric] by (simp add: completeMove_def ev Let_def split: option.split)
  then show ?thesis
  proof
    assume "pr_selectedPlan result' = Some ev"
    then show ?thesis using ev unfolding selected_evaluated_def by (intro allI impI exI [of _ q] exI [of _ p]) simp
  next
    assume "pr_selectedPlan result' = pr_selectedPlan result"
    then show ?thesis using assms(1) by (simp add: selected_evaluated_def)
  qed
qed

lemma search_keeps_evaluated:
  "selected_evaluated dg inventory profile result \<Longrightarrow> searchRounds dg inventory profile q searches left stageCount result states = Inr res \<Longrightarrow>
   selected_evaluated dg inventory profile res"
proof (induction left arbitrary: stageCount result states)
  case 0
  then show ?case by simp
next
  case (Suc left)
  show ?case
  proof (cases "states = []")
    case True
    then show ?thesis using Suc.prems by simp
  next
    case False
    obtain moved after evaluated where
      run: "fold_result (searchMove q) (searchMoves q searches stageCount states) (result, []) = Inr (moved, after)" and
      bucket: "fold_result (completeMove dg inventory profile q)
         (orderedPartialPlanBucket (filter (\<lambda>e. fst (fst e) = em_layerCount (pcr_model q)) after))
         (moved\<lparr>pr_retainedSearchStateCount := pr_retainedSearchStateCount moved + word_of_nat (length after)\<rparr>) =
         Inr evaluated" and
      rest: "searchRounds dg inventory profile q searches left (stageCount + 1) evaluated
         (filter (\<lambda>e. fst (fst e) \<noteq> em_layerCount (pcr_model q)) after) = Inr res"
      using Suc.prems(2) False by (auto simp: and_then_Inr Let_def)
    have "selected_evaluated dg inventory profile moved" using moves_run [OF run] Suc.prems(1) by (auto simp: selected_evaluated_def)
    then have "selected_evaluated dg inventory profile (moved\<lparr>pr_retainedSearchStateCount := pr_retainedSearchStateCount moved + word_of_nat (length after)\<rparr>)"
      by (simp add: selected_evaluated_def)
    then have "selected_evaluated dg inventory profile evaluated"
      using bucket complete_keeps_evaluated by (rule fold_result_keeps [where I = "selected_evaluated dg inventory profile", rotated 1])
    then show ?thesis using Suc.IH rest by blast
  qed
qed

lemma selected_plan_scored:
  assumes "constructPlan dg inventory profile request = Inr res" and "pr_selectedPlan res = Some ev"
  obtains q where "scorePlan dg inventory profile (pe_plan ev) q = Inr ev" "pe_eligible ev"
proof -
  obtain q searches result where
    run: "searchRounds dg inventory profile q searches (nat (pcr_maxStages q)) 1 result [((0, []), emptyPlan)] = Inr res"
    and result: "pr_selectedPlan result = None"
    by (rule constructPlan_run [OF assms(1)])
  have "selected_evaluated dg inventory profile result" using result by (simp add: selected_evaluated_def)
  from search_keeps_evaluated [OF this run] assms(2) obtain q' p where
    "evaluateCompletePlan dg inventory profile q' p = Inr ev" by (auto simp: selected_evaluated_def)
  then obtain plan q'' where scored: "scorePlan dg inventory profile plan q'' = Inr ev" and eligible: "pe_eligible ev"
    by (auto simp: evaluateCompletePlan_def and_then_Inr split: if_splits)
  have "pe_plan ev = plan" by (rule scorePlan_run [OF scored])
  then show thesis using that scored eligible by blast
qed

text \<open>
  The memory evidence of a candidate: what it has to load and the sequence's own memory,
  a sum that does not overflow.
\<close>

definition evidence :: "candidate \<Rightarrow> stage_cost_estimate \<Rightarrow> bool" where
  "evidence c cost \<longleftrightarrow>
     addReservationBytes (if cd_reusesRetainedShard c then 0 else sce_loadMemoryBytes cost) (sce_sequenceMemoryBytes cost) =
       (cd_requiredAdditionalMemoryBytes c, False)"

lemma candidate_evidence:
  assumes "evaluateCandidates inventory (planRequirement plan q stage cost) = Inr ev" and "c \<in> set (ev_candidates ev)"
  shows "evidence c cost" "\<exists>w \<in> set (inv_workers inventory). cd_workerID c = wk_ID w"
proof -
  let ?q = "trimRequirement (planRequirement plan q stage cost)"
  obtain age where age: "validateInputs inventory ?q = Inr age"
    using assms(1) by (auto simp: evaluateCandidates_def Let_def and_then_Inr)
  then have "requirement_ok inventory ?q" by (simp add: validateInputs_iff)
  then have sum: "unat (sce_loadMemoryBytes cost) + unat (sce_sequenceMemoryBytes cost) < 18446744073709551616"
    by (simp add: requirement_ok_def trimRequirement_def planRequirement_def)
  obtain w maxAge where w: "w \<in> set (inv_workers inventory)"
    "c = evaluateCandidate (inv_generatedAt inventory) maxAge ?q (stageOperations ?q) w"
    using assms(2) assms(1) [symmetric] age by (auto simp: evaluateCandidates_def Let_def)
  have "cd_workerID c = wk_ID w" by (simp add: w(2) evaluateCandidate_def Let_def split: prod.split)
  then show "\<exists>w \<in> set (inv_workers inventory). cd_workerID c = wk_ID w" using w(1) by blast
  have fields: "sq_loadMemoryBytes ?q = sce_loadMemoryBytes cost" "sq_sequenceMemoryBytes ?q = sce_sequenceMemoryBytes cost"
    by (simp_all add: trimRequirement_def planRequirement_def)
  have "cd_reusesRetainedShard c \<longleftrightarrow> compatibleRetainedShard (st_retainedShards (wk_status w)) ?q \<noteq> None"
    "cd_requiredAdditionalMemoryBytes c = (case compatibleRetainedShard (st_retainedShards (wk_status w)) ?q of
       None \<Rightarrow> sce_sequenceMemoryBytes cost + sce_loadMemoryBytes cost | Some shard \<Rightarrow> sce_sequenceMemoryBytes cost)"
    unfolding w(2) by (simp_all add: evaluateCandidate_def Let_def fields split_beta cong: option.case_cong)
  then show "evidence c cost"
    using sum by (auto simp: evidence_def addReservationBytes_False add.commute split: option.splits)
qed

lemma scored_evidence:
  assumes "scorePlan dg inventory profile plan q0 = Inr ev" and "pe_eligible ev"
  shows "length (pe_stages ev) = length (ep_stages plan)" "length (psr_stages (pe_request ev)) = length (ep_stages plan)"
    "distinct (map es_targetID (ep_stages plan))"
    "ep_inventoryRevision plan = decimal_nat (unat (inv_revision inventory))"
    "i < length (ep_stages plan) \<Longrightarrow>
      (\<exists>w. workersByID inventory (es_targetID (ep_stages plan ! i)) = Some w) \<and>
      cd_workerID (spe_selectedCandidate (pe_stages ev ! i)) = es_targetID (ep_stages plan ! i) \<and>
      evidence (spe_selectedCandidate (pe_stages ev ! i)) (psr_stages (pe_request ev) ! i)"
proof -
  let ?q = "normalizeScoringRequest q0"
  obtain stages where
    v: "validateScoringInputs dg inventory profile plan ?q = Inr ()" and
    c: "collect (selectStage inventory plan ?q) (indexed (ep_stages plan)) = Inr stages" and
    r: "pe_request ev = ?q" and
    s: "scoreStages inventory profile plan ?q 0 (zeroScore (int (length (ep_stages plan)))) stages =
      Inr (pe_stages ev, pe_score ev)"
    using scorePlan_run [OF assms(1)] assms(2) by metis
  note facts = validateScoringInputs_facts [OF v]
  have same: "map spe_selectedCandidate (pe_stages ev) = map spe_selectedCandidate stages"
    using scoreStages_value [OF s] by (simp add: zeroScore_def)
  have ran: "list_all2 (\<lambda>x y. selectStage inventory plan ?q x = Inr y) (indexed (ep_stages plan)) stages"
    using c by (simp add: collect_Inr)
  then have len: "length stages = length (ep_stages plan)" by (auto dest: list_all2_lengthD)
  then show n: "length (pe_stages ev) = length (ep_stages plan)" using arg_cong [OF same, of length] by simp
  show "length (psr_stages (pe_request ev)) = length (ep_stages plan)" using facts(3) by (simp add: r)
  show "distinct (map es_targetID (ep_stages plan))"
    using facts(1) by (auto simp: validate_iff valid_plan_def identities_ok_def)
  show "ep_inventoryRevision plan = decimal_nat (unat (inv_revision inventory))" by (rule facts(5))
  assume i: "i < length (ep_stages plan)"
  let ?stage = "ep_stages plan ! i"
  have select: "selectStage inventory plan ?q (i, ?stage) = Inr (stages ! i)"
    using list_all2_nthD [OF ran, of i] i by simp
  then obtain el c where "evaluateCandidates inventory (planRequirement plan ?q ?stage (psr_stages ?q ! i)) = Inr el"
    "findCandidate (ev_candidates el) (es_targetID ?stage) = Some c" "spe_selectedCandidate (stages ! i) = c"
    by (auto simp: selectStage_def and_then_Inr split: option.splits) (metis stage_plan_evaluation.select_convs(4))
  then have el: "evaluateCandidates inventory (planRequirement plan ?q ?stage (psr_stages ?q ! i)) = Inr el"
    "findCandidate (ev_candidates el) (es_targetID ?stage) = Some (spe_selectedCandidate (stages ! i))"
    by simp_all
  then have cand: "spe_selectedCandidate (stages ! i) \<in> set (ev_candidates el)"
    "cd_workerID (spe_selectedCandidate (stages ! i)) = es_targetID ?stage"
    using find_SomeD [OF el(2) [unfolded findCandidate_def]] by simp_all
  obtain w where "w \<in> set (inv_workers inventory)" "wk_ID w = es_targetID ?stage"
    using candidate_evidence(2) [OF el(1) cand(1)] cand(2) by auto
  then have "workersByID inventory (es_targetID ?stage) = Some w" by (simp add: workersByID_iff [OF facts(2)])
  moreover have "spe_selectedCandidate (pe_stages ev ! i) = spe_selectedCandidate (stages ! i)"
    using arg_cong [OF same, of "\<lambda>xs. xs ! i"] i n len by simp
  ultimately show "(\<exists>w. workersByID inventory (es_targetID ?stage) = Some w) \<and>
      cd_workerID (spe_selectedCandidate (pe_stages ev ! i)) = es_targetID ?stage \<and>
      evidence (spe_selectedCandidate (pe_stages ev ! i)) (psr_stages (pe_request ev) ! i)"
    using cand(2) candidate_evidence(1) [OF el(1) cand(1)] by (simp add: r)
qed

text \<open>The reasons for which a plan that was just selected can still be refused.\<close>

fun capacity_refusal :: "reserve_error \<Rightarrow> bool" where
  "capacity_refusal (ObservationUnavailable w i) = True"
| "capacity_refusal (SequenceCapacityReserved w i s n l k) = True"
| "capacity_refusal (WorkerCapacityReserved w i n l k) = True"
| "capacity_refusal (WorkerMemoryReserved w i n r a) = True"
| "capacity_refusal (RetainedBudgetReserved w i n b) = True"
| "capacity_refusal e = False"

lemma checkMemory_refusal: "checkMemory w l required sequence = Inl e \<Longrightarrow> capacity_refusal e"
  by (auto simp: checkMemory_def Let_def split: option.splits if_splits prod.splits)

lemma stage_refusal:
  assumes "reserveStage inventory ev sch (i, stage) = Inl e"
    and "workersByID inventory (es_targetID stage) = Some w"
    and "cd_workerID (spe_selectedCandidate (pe_stages ev ! i)) = es_targetID stage"
    and "evidence (spe_selectedCandidate (pe_stages ev ! i)) (psr_stages (pe_request ev) ! i)"
  shows "capacity_refusal e"
proof -
  have id: "wk_ID w = es_targetID stage" using workersByID_ID [OF assms(2)] by simp
  note run = assms(1) [unfolded reserveStage_def prod.case assms(2) option.case Let_def
      assms(4) [unfolded evidence_def] prod.case assms(3) id]
  show ?thesis
    using run checkMemory_refusal by (auto simp: and_then_Inl split: if_splits)
qed

lemma reserve_refusal:
  assumes "constructPlan dg inventory profile request = Inr res" and "pr_selectedPlan res = Some ev"
    and "reserveAdmission inventory ev sch = (sch', Inl e)"
  shows "capacity_refusal e"
proof -
  obtain q where scored: "scorePlan dg inventory profile (pe_plan ev) q = Inr ev" "pe_eligible ev"
    by (rule selected_plan_scored [OF assms(1,2)])
  note ev = scored_evidence [OF scored]
  have "collect (reserveStage inventory ev (reconcileReservations inventory sch)) (indexed (ep_stages (pe_plan ev))) = Inl e"
    using assms(3) ev(1,2) by (auto simp: reserveAdmission_def Let_def split: sum.splits)
  from collect_Inl [OF this] obtain x where "x \<in> set (indexed (ep_stages (pe_plan ev)))"
    "reserveStage inventory ev (reconcileReservations inventory sch) x = Inl e" by blast
  then obtain i where i: "i < length (ep_stages (pe_plan ev))"
    "reserveStage inventory ev (reconcileReservations inventory sch) (i, ep_stages (pe_plan ev) ! i) = Inl e"
    by (auto simp: set_indexed)
  then show ?thesis using ev(5) [OF i(1)] stage_refusal [OF i(2)] by blast
qed

lemma selected_targets_differ:
  assumes "constructPlan dg inventory profile request = Inr res" and "pr_selectedPlan res = Some ev"
  shows "distinct (map es_targetID (ep_stages (pe_plan ev)))"
proof -
  obtain q where "scorePlan dg inventory profile (pe_plan ev) q = Inr ev" "pe_eligible ev"
    by (rule selected_plan_scored [OF assms])
  then show ?thesis by (rule scored_evidence(3))
qed

section \<open>Outstanding claims\<close>

text \<open>The claims of all reservations in a list that are still live.\<close>

definition outstanding :: "('r \<Rightarrow> bool) \<Rightarrow> ('r \<Rightarrow> 'c multiset) \<Rightarrow> 'r list \<Rightarrow> 'c multiset" where
  "outstanding live claims rs = sum_list (map (\<lambda>r. if live r then claims r else {#}) rs)"

lemma outstanding_Cons:
  "outstanding live claims (x # rs) = (if live x then claims x else {#}) + outstanding live claims rs"
  by (simp add: outstanding_def)

lemma outstanding_update:
  assumes "i < length rs"
  shows "outstanding live claims (rs[i := r]) + (if live (rs ! i) then claims (rs ! i) else {#}) =
    outstanding live claims rs + (if live r then claims r else {#})"
  using assms
proof (induction rs arbitrary: i)
  case Nil
  then show ?case by simp
next
  case (Cons x rs)
  show ?case
  proof (cases i)
    case 0
    then show ?thesis by (simp add: outstanding_Cons ac_simps)
  next
    case (Suc k)
    then have "outstanding live claims (rs[k := r]) + (if live (rs ! k) then claims (rs ! k) else {#}) =
        outstanding live claims rs + (if live r then claims r else {#})"
      using Cons by simp
    then show ?thesis by (simp only: Suc list_update_code nth_Cons_Suc outstanding_Cons add.assoc)
  qed
qed

lemma outstanding_relabel:
  "i < length rs \<Longrightarrow> live r = live (rs ! i) \<Longrightarrow> claims r = claims (rs ! i) \<Longrightarrow>
   outstanding live claims (rs[i := r]) = outstanding live claims rs" for claims :: "'r \<Rightarrow> 'c multiset"
  using outstanding_update [of i rs live claims r] by (simp split: if_splits)

lemma outstanding_released:
  "i < length rs \<Longrightarrow> live (rs ! i) \<Longrightarrow> \<not> live r \<Longrightarrow>
   outstanding live claims rs = outstanding live claims (rs[i := r]) + claims (rs ! i)"
  using outstanding_update [of i rs live claims r] by simp

text \<open>
  What a ledger promises its clients: admitting a reservation adds its claims to those the
  ledger holds, and releasing it takes exactly these away, whatever happened in between.
\<close>

locale claim_ledger =
  fixes holds :: "'s \<Rightarrow> 'c multiset \<Rightarrow> bool"
    and live :: "'r \<Rightarrow> bool" and claims :: "'r \<Rightarrow> 'c multiset"
    and admits :: "'s \<Rightarrow> 'r \<Rightarrow> 's \<Rightarrow> bool" and releases :: "'s \<Rightarrow> 'r \<Rightarrow> 's \<Rightarrow> bool"
  assumes admit_live: "admits s r t \<Longrightarrow> live r"
    and admit_holds: "holds s M \<Longrightarrow> admits s r t \<Longrightarrow> holds t (M + claims r)"
    and release_holds: "holds s (M + claims r) \<Longrightarrow> releases s r t \<Longrightarrow> holds t M"
begin

lemma admit_outstanding:
  assumes "holds s (outstanding live claims rs)" and "admits s r t"
  shows "holds t (outstanding live claims (rs @ [r]))"
  using admit_holds [OF assms] admit_live [OF assms(2)] by (simp add: outstanding_def)

lemma release_outstanding:
  assumes "holds s (outstanding live claims rs)" and "i < length rs" and "live (rs ! i)"
    and "releases s (rs ! i) t" and "\<not> live r"
  shows "holds t (outstanding live claims (rs[i := r]))"
  using assms(1,4) unfolding outstanding_released [OF assms(2,3,5)] by (rule release_holds)

end

abbreviation unfinished :: "sequence_reservation \<Rightarrow> bool" where
  "unfinished r \<equiv> \<not> rv_finished r"

definition claims :: "sequence_reservation \<Rightarrow> claim multiset" where
  "claims r = mset (map claim (rv_stages r))"

definition admitted :: "scheduler \<Rightarrow> sequence_reservation \<Rightarrow> scheduler \<Rightarrow> bool" where
  "admitted sch r sch' \<longleftrightarrow> (\<exists>inventory evaluation. reserveAdmission inventory evaluation sch = (sch', Inr r) \<and>
     distinct (map es_targetID (ep_stages (pe_plan evaluation))))"

definition released :: "scheduler \<Rightarrow> sequence_reservation \<Rightarrow> scheduler \<Rightarrow> bool" where
  "released sch r sch' \<longleftrightarrow> (\<exists>inventory outcome stages. sch' = finishReservation inventory outcome stages sch \<and>
     mset (map claim stages) = claims r)"

interpretation ledger: claim_ledger ledger_of unfinished claims admitted released
proof unfold_locales
  show "unfinished r" if "admitted s r t" for s r t
    using that reserveAdmission_Inr(2) unfolding admitted_def by blast
  show "ledger_of t (M + claims r)" if "ledger_of s M" "admitted s r t" for s M r t
    using that reserve_claims unfolding admitted_def claims_def by blast
  show "ledger_of t M" if held: "ledger_of s (M + claims r)" and rel: "released s r t" for s M r t
  proof -
    obtain inventory outcome stages where t: "t = finishReservation inventory outcome stages s"
      and c: "mset (map claim stages) = claims r"
      using rel unfolding released_def by blast
    show ?thesis unfolding t by (rule finishReservation_claims) (use held c in \<open>simp add: add.commute\<close>)
  qed
qed

text \<open>
  The claims of a whole plan: the plan is valid, and each of its stages claims one slot, of
  its shard on its target.
\<close>

definition plan_claims :: "digests \<Rightarrow> claim multiset \<Rightarrow> bool" where
  "plan_claims dg C \<longleftrightarrow>
     (\<exists>plan. validateExecutionPlan dg plan = Inr () \<and>
        image_mset (\<lambda>(shard, w, l, n). (skey_workerID shard, skey_shardID shard)) C =
          mset (map (\<lambda>stage. (es_targetID stage, es_shardID stage)) (ep_stages plan)))"

lemma granted_plan_claims:
  assumes "reserveAdmission inventory ev sch = (sch', Inr r)" "validateExecutionPlan dg (pe_plan ev) = Inr ()"
    "distinct (map es_targetID (ep_stages (pe_plan ev)))"
  shows "plan_claims dg (claims r)"
proof -
  note grants = reserveAdmission_Inr(3) [OF assms(1,3)]
  have "map (\<lambda>s. (skey_workerID (sg_sequenceKey s), skey_shardID (sg_sequenceKey s))) (rv_stages r) =
      map (\<lambda>stage. (es_targetID stage, es_shardID stage)) (ep_stages (pe_plan ev))"
  proof (rule nth_equalityI)
    show len: "length (map (\<lambda>s. (skey_workerID (sg_sequenceKey s), skey_shardID (sg_sequenceKey s))) (rv_stages r)) =
        length (map (\<lambda>stage. (es_targetID stage, es_shardID stage)) (ep_stages (pe_plan ev)))"
      using list_all2_lengthD [OF grants] by simp
    fix i
    assume "i < length (map (\<lambda>s. (skey_workerID (sg_sequenceKey s), skey_shardID (sg_sequenceKey s))) (rv_stages r))"
    then have i: "i < length (rv_stages r)" "i < length (ep_stages (pe_plan ev))" using len by simp_all
    obtain w where "granted inventory (reconcileReservations inventory sch) (ep_stages (pe_plan ev) ! i) w (rv_stages r ! i)"
      using list_all2_nthD [OF grants i(2)] by blast
    then show "map (\<lambda>s. (skey_workerID (sg_sequenceKey s), skey_shardID (sg_sequenceKey s))) (rv_stages r) ! i =
        map (\<lambda>stage. (es_targetID stage, es_shardID stage)) (ep_stages (pe_plan ev)) ! i"
      using i workersByID_ID by (fastforce simp: granted_def sequenceKeyOf_def)
  qed
  then have "image_mset (\<lambda>(shard, w, l, n). (skey_workerID shard, skey_shardID shard)) (claims r) =
      mset (map (\<lambda>stage. (es_targetID stage, es_shardID stage)) (ep_stages (pe_plan ev)))"
    by (simp add: claims_def claim_def image_mset.compositionality comp_def flip: mset_map)
  with assms(2) show ?thesis unfolding plan_claims_def by blast
qed

lemma selected_plan_valid:
  assumes "constructPlan dg inventory profile request = Inr res" and "pr_selectedPlan res = Some ev"
  shows "validateExecutionPlan dg (pe_plan ev) = Inr ()"
proof -
  obtain q where "scorePlan dg inventory profile (pe_plan ev) q = Inr ev"
    by (rule selected_plan_scored [OF assms])
  then show ?thesis by (rule scorePlan_run) (rule validateScoringInputs_facts(1))
qed

section \<open>What the steps do to reservations\<close>

text \<open>Observing a worker changes what is known of a stage, not what it claims.\<close>

lemma claim_observe_setup [simp]: "claim (fst (observeStageSetup requireShards i answer s)) = claim s"
  by (auto simp: observeStageSetup_def claim_def Let_def split: sum.split)

lemma claim_observe_cleanup [simp]: "claim (observeStageCleanup answer s) = claim s"
  by (auto simp: observeStageCleanup_def claim_def split: sum.split)

lemma map_indexed_snd: "(\<And>i x. g (f (i, x)) = h x) \<Longrightarrow> map g (map f (indexed xs)) = map h xs"
  by (simp add: list_eq_iff_nth_eq)

lemma claims_observeCleanup: "map claim (observeCleanup answers ss) = map claim ss"
  unfolding observeCleanup_def by (rule map_indexed_snd) simp

lemma observeSetup_fields [simp]:
  "rv_finished (fst (observeSetup requireShards answers r)) = rv_finished r"
  "claims (fst (observeSetup requireShards answers r)) = claims r"
proof -
  show "rv_finished (fst (observeSetup requireShards answers r)) = rv_finished r"
    by (simp add: observeSetup_def Let_def)
  have "map claim (rv_stages (fst (observeSetup requireShards answers r))) = map claim (rv_stages r)"
    by (simp add: observeSetup_def Let_def list_eq_iff_nth_eq)
  then show "claims (fst (observeSetup requireShards answers r)) = claims r"
    unfolding claims_def by simp
qed

lemma finishOnce_released:
  assumes "unfinished r"
  shows "rv_finished (fst (finishOnce inventory answers outcome r sch))"
    "released sch r (snd (finishOnce inventory answers outcome r sch))"
proof -
  show "rv_finished (fst (finishOnce inventory answers outcome r sch))"
    using assms by (simp add: finishOnce_def Let_def)
  let ?stages = "if ro_cleanupConfirmed outcome then rv_stages r else observeCleanup answers (rv_stages r)"
  have "map claim ?stages = map claim (rv_stages r)" by (simp add: claims_observeCleanup del: map_map)
  then have "mset (map claim ?stages) = claims r" by (simp add: claims_def)
  moreover have "snd (finishOnce inventory answers outcome r sch) = finishReservation inventory outcome ?stages sch"
    using assms by (simp add: finishOnce_def Let_def)
  ultimately show "released sch r (snd (finishOnce inventory answers outcome r sch))"
    unfolding released_def by blast
qed

lemma prepareSession_cases:
  assumes "prepareSession inventory resolves starts answers r sch = (r', sch', result)" and "unfinished r"
  obtains (failed) e where "result = Inl e" "rv_finished r'" "released sch r sch'"
  | (ready) "result = Inr ()" "unfinished r'" "claims r' = claims r" "sch' = sch"
proof -
  let ?observed = "fst (observeSetup starts answers r)" and ?errors = "snd (observeSetup starts answers r)"
  have finishing: "rv_finished (fst (finishOnce inventory answers outcome r0 sch)) \<and>
      released sch r (snd (finishOnce inventory answers outcome r0 sch))"
    if "unfinished r0" "claims r0 = claims r" for r0 outcome
    using finishOnce_released [OF that(1), where inventory = inventory and answers = answers and outcome = outcome and sch = sch] that(2) by (simp add: released_def)
  note run = assms(1) [unfolded prepareSession_def Let_def split_beta]
  show thesis
  proof (cases "find (\<lambda>index. \<not> resolves index) [0..<length (rv_stages r)]")
    case (Some index)
    then show thesis
      using run finishing [OF assms(2) refl] by (intro failed [of "ResolveFailed index"]) auto
  next
    case None
    note run' = run [unfolded None option.case]
    have observed: "unfinished ?observed" "claims ?observed = claims r" using assms(2) by simp_all
    consider "\<not> starts" | "starts" "?errors \<noteq> []" | "starts" "?errors = []" by blast
    then show thesis
    proof cases
      case 1
      then show thesis using run' finishing [OF observed] by (intro failed [of SessionFailed]) auto
    next
      case 2
      then show thesis using run' finishing [OF observed] by (intro failed [of "SetupUnobserved ?errors"]) auto
    next
      case 3
      then show thesis using run' observed by (intro ready) auto
    qed
  qed
qed

lemma prepareAdmission_cases:
  assumes "prepareAdmission dg resolver cancelled inventories profiles request sch = (sch', selection, result)"
  obtains (refused) e where "result = Inl e" "sch' = sch \<or> (\<exists>inventory. sch' = reconcileReservations inventory sch)"
  | (reserved) r where "result = Inr r" "admitted sch r sch'" "plan_claims dg (claims r)"
proof -
  let ?requirement = "psr_transport (pcr_scoring request)"
  show thesis
  proof (cases result)
    case (Inr r)
    obtain inventory profile res evaluation bindings where
      construct: "constructPlan dg inventory profile request = Inr res" "pr_selectedPlan res = Some evaluation" and
      reserve: "reserveAdmission inventory evaluation sch = (sch', Inr r)"
      using assms unfolding Inr prepareAdmission_def Let_def
      by (auto split: if_splits sum.splits option.splits prod.splits)
    then show thesis
      using reserved [OF Inr _ granted_plan_claims [OF reserve]] selected_targets_differ [OF construct]
        selected_plan_valid [OF construct] unfolding admitted_def by blast
  next
    case (Inl e)
    have "sch' = sch \<or> (\<exists>inventory evaluation e'. reserveAdmission inventory evaluation sch = (sch', Inl e'))"
      using assms unfolding Inl prepareAdmission_def Let_def
      by (auto split: if_splits sum.splits option.splits prod.splits)
    then show thesis using refused Inl reserve_refused by blast
  qed
qed

section \<open>The invariant\<close>

text \<open>
  Every unfinished reservation has one owner: the preparation it belongs to, or the sequence
  that points to it. A sequence points to a reservation until it has finished or is closed.
\<close>

definition live_indices :: "sequence_reservation list \<Rightarrow> nat multiset" where
  "live_indices rs = mset (filter (\<lambda>i. unfinished (rs ! i)) [0..<length rs])"

definition pointers :: "scheduled_sequence list \<Rightarrow> nat multiset" where
  "pointers ss = outstanding (\<lambda>s. ssq_reservation s \<noteq> None) (\<lambda>s. {#the (ssq_reservation s)#}) ss"

definition sequence_ok :: "scheduled_sequence \<Rightarrow> bool" where
  "sequence_ok s \<longleftrightarrow> (ssq_reservation s = None \<longleftrightarrow> ssq_state s \<in> {SequenceFinished, SequenceClosed})"

definition owner_ok :: "mesh \<Rightarrow> bool" where
  "owner_ok m \<longleftrightarrow> mset (ms_preparing m) + pointers (ms_sequences m) = live_indices (ms_reservations m) \<and>
     (\<forall>s \<in> set (ms_sequences m). sequence_ok s)"

lemma live_append: "unfinished r \<Longrightarrow> live_indices (rs @ [r]) = add_mset (length rs) (live_indices rs)"
proof -
  have "filter (\<lambda>i. unfinished ((rs @ [r]) ! i)) [0..<length rs] = filter (\<lambda>i. unfinished (rs ! i)) [0..<length rs]"
    by (rule filter_cong) (auto simp: nth_append)
  then show "unfinished r \<Longrightarrow> ?thesis" by (simp add: live_indices_def)
qed

lemma live_relabel:
  "i < length rs \<Longrightarrow> rv_finished r = rv_finished (rs ! i) \<Longrightarrow> live_indices (rs[i := r]) = live_indices rs"
  unfolding live_indices_def by (intro arg_cong [where f = mset] filter_cong) (auto simp: nth_list_update)

lemma live_finished:
  assumes "i < length rs" and "rv_finished r"
  shows "live_indices (rs[i := r]) = live_indices rs - {#i#}"
proof -
  let ?live = "filter (\<lambda>i. unfinished (rs ! i)) [0..<length rs]"
  have "filter (\<lambda>k. unfinished (rs[i := r] ! k)) [0..<length (rs[i := r])] = removeAll i ?live"
    unfolding removeAll_filter_not_eq filter_filter length_list_update
    by (rule filter_cong) (use assms in \<open>auto simp: nth_list_update\<close>)
  also have "\<dots> = remove1 i ?live" by (simp add: distinct_remove1_removeAll)
  finally show ?thesis by (simp add: live_indices_def)
qed

lemma live_iff: "i \<in># live_indices rs \<longleftrightarrow> i < length rs \<and> unfinished (rs ! i)"
  by (auto simp: live_indices_def)

lemma pointers_append: "pointers (ss @ [\<lparr>ssq_state = state, ssq_reservation = Some i\<rparr>]) = add_mset i (pointers ss)"
  by (simp add: pointers_def outstanding_def)

lemma pointers_update:
  "j < length ss \<Longrightarrow> ssq_reservation s = ssq_reservation (ss ! j) \<Longrightarrow> pointers (ss[j := s]) = pointers ss"
  using outstanding_update [of j ss "\<lambda>s. ssq_reservation s \<noteq> None" "\<lambda>s. {#the (ssq_reservation s)#}" s]
  by (simp add: pointers_def split: if_splits)

lemma pointers_dropped:
  "j < length ss \<Longrightarrow> ssq_reservation (ss ! j) = Some i \<Longrightarrow> ssq_reservation s = None \<Longrightarrow>
   pointers ss = add_mset i (pointers (ss[j := s]))"
  using outstanding_update [of j ss "\<lambda>s. ssq_reservation s \<noteq> None" "\<lambda>s. {#the (ssq_reservation s)#}" s]
  by (simp add: pointers_def)

lemma one_owner_less:
  "A + add_mset i P = L \<Longrightarrow> A + P = L - {#i#}"
  "i \<in># A \<Longrightarrow> A + P = L \<Longrightarrow> A - {#i#} + P = L - {#i#}" for A P L :: "'a multiset"
  by (auto dest: multi_member_split)

lemma sequences_update:
  "\<forall>s \<in> set ss. P s \<Longrightarrow> P t \<Longrightarrow> \<forall>s \<in> set (ss[j := t]). P s"
  using set_update_subset_insert [of ss j t] by blast

lemma owned_live:
  assumes "owner_ok m"
  shows "i \<in> set (ms_preparing m) \<Longrightarrow> i < length (ms_reservations m) \<and> unfinished (ms_reservations m ! i)"
    "j < length (ms_sequences m) \<Longrightarrow> ssq_reservation (ms_sequences m ! j) = Some i \<Longrightarrow>
     i < length (ms_reservations m) \<and> unfinished (ms_reservations m ! i)"
proof -
  have all: "x \<in># mset (ms_preparing m) + pointers (ms_sequences m) \<Longrightarrow> x \<in># live_indices (ms_reservations m)" for x
    using conjunct1 [OF assms [unfolded owner_ok_def]] by (simp only:)
  show "i \<in> set (ms_preparing m) \<Longrightarrow> i < length (ms_reservations m) \<and> unfinished (ms_reservations m ! i)"
    using all [of i] by (simp add: live_iff)
  assume j: "j < length (ms_sequences m)" "ssq_reservation (ms_sequences m ! j) = Some i"
  have "i \<in># pointers (ms_sequences m)"
    unfolding pointers_dropped [OF j, of "\<lparr>ssq_state = SequenceClosed, ssq_reservation = None\<rparr>", simplified] by simp
  then show "i < length (ms_reservations m) \<and> unfinished (ms_reservations m ! i)"
    using all [of i] by (simp add: live_iff)
qed

definition mesh_claims :: "mesh \<Rightarrow> claim multiset" where
  "mesh_claims m = outstanding unfinished claims (ms_reservations m)"

definition mesh_ok :: "mesh \<Rightarrow> bool" where
  "mesh_ok m \<longleftrightarrow> owner_ok m \<and> ledger_of (ms_scheduler m) (mesh_claims m)"

text \<open>
  The abstract ledger only knows, for every reservation in force, what it claims. A
  reservation is taken and given back as a whole, and claims each of its workers once.
\<close>

definition mesh_abs :: "mesh \<Rightarrow> claim multiset multiset" where
  "mesh_abs m = outstanding unfinished (\<lambda>r. {#claims r#}) (ms_reservations m)"

inductive claim_step :: "digests \<Rightarrow> claim multiset multiset \<Rightarrow> claim multiset multiset \<Rightarrow> bool" for dg :: digests where
  nothing: "claim_step dg A A"
| taken: "plan_claims dg C \<Longrightarrow> (\<And>w. size (on_worker w C) \<le> 1) \<Longrightarrow> claim_step dg A (add_mset C A)"
| returned: "claim_step dg (add_mset C A) A"

text \<open>
  The scheduler's slots and worker ledgers represent the reservations in force: every count
  and every sum of bytes is that of their claims, and of nothing else.
\<close>

definition represents :: "scheduler \<Rightarrow> claim multiset multiset \<Rightarrow> bool" where
  "represents sch A \<longleftrightarrow> ledger_of sch (sum_mset A)"

lemma outstanding_flat: "outstanding live f rs = sum_mset (outstanding live (\<lambda>r. {#f r#}) rs)"
  by (induction rs) (simp_all add: outstanding_Cons, simp add: outstanding_def)

lemma mesh_claims_abs: "mesh_claims m = sum_mset (mesh_abs m)"
  unfolding mesh_claims_def mesh_abs_def by (rule outstanding_flat)

lemma claims_once: "distinct (map sg_workerKey ss) \<Longrightarrow> size (on_worker w (mset (map claim ss))) \<le> 1"
proof (induction ss)
  case Nil
  then show ?case by simp
next
  case (Cons s ss)
  have none: "size (on_worker w (mset (map claim ss))) = 0" if "w \<notin> sg_workerKey ` set ss"
    using that by (induction ss) (auto simp: claim_def)
  have step: "size (on_worker w (mset (map claim (s # ss)))) =
      (if sg_workerKey s = w then 1 else 0) + size (on_worker w (mset (map claim ss)))"
    by (simp add: claim_def)
  show ?case
  proof (cases "sg_workerKey s = w")
    case True
    then have "w \<notin> sg_workerKey ` set ss" using Cons.prems by simp
    from none [OF this] True show ?thesis unfolding step by simp
  next
    case False
    have "size (on_worker w (mset (map claim ss))) \<le> 1" by (rule Cons.IH) (use Cons.prems in simp)
    then show ?thesis using False unfolding step by simp
  qed
qed

lemma admitted_once: "admitted sch r sch' \<Longrightarrow> size (on_worker w (claims r)) \<le> 1"
  using reserveAdmission_Inr(4) claims_once unfolding admitted_def claims_def by blast

lemma new_mesh_ok: "mesh_ok new_mesh"
  by (simp add: mesh_ok_def owner_ok_def new_mesh_def mesh_claims_def pointers_def live_indices_def outstanding_def new_ledger)

lemma admit_owner:
  assumes "owner_ok m" and "unfinished r"
  shows "owner_ok (m\<lparr>ms_scheduler := sch, ms_reservations := ms_reservations m @ [r],
    ms_preparing := ms_preparing m @ [length (ms_reservations m)]\<rparr>)"
  using assms by (simp add: owner_ok_def live_append)

lemma admit_step:
  assumes "mesh_ok m"
  shows "mesh_ok (admit_sequence dg resolver cancelled inventories profiles request m) \<and>
    claim_step dg (mesh_abs m) (mesh_abs (admit_sequence dg resolver cancelled inventories profiles request m))"
proof -
  let ?run = "prepareAdmission dg resolver cancelled inventories profiles request (ms_scheduler m)"
  obtain sch selection result where run: "?run = (sch, selection, result)" by (cases ?run)
  have ok: "owner_ok m" "ledger_of (ms_scheduler m) (mesh_claims m)" using assms by (simp_all add: mesh_ok_def)
  show ?thesis
  proof (cases rule: prepareAdmission_cases [OF run])
    case (1 e)
    then have "admit_sequence dg resolver cancelled inventories profiles request m = m\<lparr>ms_scheduler := sch\<rparr>"
      by (simp add: admit_sequence_def run)
    moreover have "ledger_of sch (mesh_claims m)" using 1 ok(2) by (auto simp: reconcile_claims)
    ultimately show ?thesis using ok(1) by (auto simp: mesh_ok_def owner_ok_def mesh_claims_def mesh_abs_def intro: claim_step.nothing)
  next
    case (2 r)
    then have admit: "admit_sequence dg resolver cancelled inventories profiles request m =
        m\<lparr>ms_scheduler := sch, ms_reservations := ms_reservations m @ [r],
          ms_preparing := ms_preparing m @ [length (ms_reservations m)]\<rparr>"
      by (simp add: admit_sequence_def run)
    have live: "unfinished r" by (rule ledger.admit_live [OF 2(2)])
    have "ledger_of sch (outstanding unfinished claims (ms_reservations m @ [r]))"
      using ledger.admit_outstanding 2(2) ok(2) unfolding mesh_claims_def by blast
    moreover have "outstanding unfinished claims (ms_reservations m @ [r]) = mesh_claims m + claims r"
      using live by (simp add: outstanding_def mesh_claims_def)
    moreover have "outstanding unfinished (\<lambda>r. {#claims r#}) (ms_reservations m @ [r]) = add_mset (claims r) (mesh_abs m)"
      using live by (simp add: outstanding_def mesh_abs_def)
    moreover have "claim_step dg (mesh_abs m) (add_mset (claims r) (mesh_abs m))"
      by (rule claim_step.taken [OF 2(3) admitted_once [OF 2(2)]])
    ultimately show ?thesis
      using admit_owner [OF ok(1) live, of sch] unfolding admit by (simp add: mesh_ok_def mesh_claims_def mesh_abs_def)
  qed
qed

text \<open>Finishing a reservation whose owner gives it up.\<close>

lemma finish_ledger_step:
  assumes "ledger_of (ms_scheduler m) (mesh_claims m)" and "i < length (ms_reservations m)"
    and "unfinished (ms_reservations m ! i)" and "released (ms_scheduler m) (ms_reservations m ! i) sch"
    and "rv_finished r"
  shows "ledger_of sch (outstanding unfinished claims ((ms_reservations m)[i := r])) \<and>
    claim_step dg (mesh_abs m) (outstanding unfinished (\<lambda>r. {#claims r#}) ((ms_reservations m)[i := r]))"
proof -
  have "mesh_abs m = add_mset (claims (ms_reservations m ! i)) (outstanding unfinished (\<lambda>r. {#claims r#}) ((ms_reservations m)[i := r]))"
    using outstanding_released [where live = unfinished and claims = "\<lambda>r. {#claims r#}", OF assms(2,3), of r] assms(5)
    by (simp add: mesh_abs_def)
  then have "claim_step dg (mesh_abs m) (outstanding unfinished (\<lambda>r. {#claims r#}) ((ms_reservations m)[i := r]))"
    by (simp add: claim_step.returned)
  then show ?thesis
    using ledger.release_outstanding [OF _ assms(2,3,4), of r] assms(1,5) unfolding mesh_claims_def by blast
qed

lemma session_step:
  assumes "mesh_ok m" and "i \<in> set (ms_preparing m)"
  shows "mesh_ok (start_session inventory resolves starts answers i m) \<and>
    claim_step dg (mesh_abs m) (mesh_abs (start_session inventory resolves starts answers i m))"
proof -
  let ?run = "prepareSession inventory resolves starts answers (ms_reservations m ! i) (ms_scheduler m)"
  obtain r sch result where run: "?run = (r, sch, result)" by (cases ?run)
  have ok: "owner_ok m" "ledger_of (ms_scheduler m) (mesh_claims m)" using assms(1) by (simp_all add: mesh_ok_def)
  have i: "i < length (ms_reservations m)" "unfinished (ms_reservations m ! i)"
    using owned_live(1) [OF ok(1) assms(2)] by simp_all
  have owners: "mset (ms_preparing m) + pointers (ms_sequences m) = live_indices (ms_reservations m)"
    "i \<in># mset (ms_preparing m)" using ok(1) assms(2) by (simp_all add: owner_ok_def)
  show ?thesis
  proof (cases rule: prepareSession_cases [OF run i(2)])
    case (1 e)
    then have session: "start_session inventory resolves starts answers i m =
        m\<lparr>ms_scheduler := sch, ms_reservations := (ms_reservations m)[i := r], ms_preparing := remove1 i (ms_preparing m)\<rparr>"
      by (simp add: start_session_def run)
    have "mset (remove1 i (ms_preparing m)) + pointers (ms_sequences m) = live_indices ((ms_reservations m)[i := r])"
      using one_owner_less(2) [OF owners(2,1)] live_finished [OF i(1) 1(2)] by simp
    then have "owner_ok (start_session inventory resolves starts answers i m)"
      using ok(1) by (simp add: session owner_ok_def)
    moreover note finish_ledger_step [OF ok(2) i 1(3,2)]
    ultimately show ?thesis by (simp add: mesh_ok_def mesh_claims_def mesh_abs_def session)
  next
    case 2
    then have session: "start_session inventory resolves starts answers i m =
        m\<lparr>ms_reservations := (ms_reservations m)[i := r], ms_preparing := remove1 i (ms_preparing m),
          ms_sequences := ms_sequences m @ [\<lparr>ssq_state = SequencePrepared, ssq_reservation = Some i\<rparr>]\<rparr>"
      by (simp add: start_session_def run)
    have same: "mesh_claims (start_session inventory resolves starts answers i m) = mesh_claims m"
      "mesh_abs (start_session inventory resolves starts answers i m) = mesh_abs m"
      using 2 i outstanding_relabel [where live = unfinished and claims = claims, OF i(1), of r]
        outstanding_relabel [where live = unfinished and claims = "\<lambda>r. {#claims r#}", OF i(1), of r]
      by (simp_all add: session mesh_claims_def mesh_abs_def)
    have "mset (remove1 i (ms_preparing m)) + add_mset i (pointers (ms_sequences m)) = live_indices ((ms_reservations m)[i := r])"
      using owners live_relabel [OF i(1), of r] 2(2) i live_iff [of i "ms_reservations m"] by simp
    moreover have "sequence_ok \<lparr>ssq_state = SequencePrepared, ssq_reservation = Some i\<rparr>" by (simp add: sequence_ok_def)
    ultimately have "owner_ok (start_session inventory resolves starts answers i m)"
      using ok(1) by (simp add: session owner_ok_def pointers_append)
    then show ?thesis using same ok(2) by (simp add: mesh_ok_def session claim_step.nothing)
  qed
qed

text \<open>A sequence that changes its state but keeps its reservation.\<close>

lemma generate_step:
  assumes "mesh_ok m" and "j < length (ms_sequences m)" and "begin_generate j m = Inr m'"
  shows "mesh_ok m' \<and> claim_step dg (mesh_abs m) (mesh_abs m')"
proof -
  have prepared: "ssq_state (ms_sequences m ! j) = SequencePrepared" and
    m': "m' = m\<lparr>ms_sequences := (ms_sequences m)[j := (ms_sequences m ! j)\<lparr>ssq_state := SequenceRunning\<rparr>]\<rparr>"
    using assms(3) by (auto simp: begin_generate_def beginGenerate_def split: if_splits)
  let ?s = "(ms_sequences m ! j)\<lparr>ssq_state := SequenceRunning\<rparr>"
  have ok: "\<forall>s \<in> set (ms_sequences m). sequence_ok s" "owner_ok m"
    using assms(1) by (simp_all add: mesh_ok_def owner_ok_def)
  then have "sequence_ok (ms_sequences m ! j)" using assms(2) by simp
  then have "sequence_ok ?s" using prepared by (simp add: sequence_ok_def)
  note sequences = sequences_update [OF ok(1) this, of j]
  have "owner_ok m'"
    using ok(2) sequences pointers_update [OF assms(2), of ?s] by (simp add: m' owner_ok_def)
  then show ?thesis using assms(1) by (simp add: mesh_ok_def m' mesh_claims_def mesh_abs_def claim_step.nothing)
qed

text \<open>A sequence that ends and hands its reservation to \<open>finish\<close>.\<close>

lemma giving_up:
  assumes "mesh_ok m" and "j < length (ms_sequences m)" and "ssq_reservation (ms_sequences m ! j) = Some i"
    and "s = \<lparr>ssq_state = final, ssq_reservation = None\<rparr>" and "final \<in> {SequenceFinished, SequenceClosed}"
    and m'_def: "m' = finish_at inventory answers outcome (Some i) (m\<lparr>ms_sequences := (ms_sequences m)[j := s]\<rparr>)"
  shows "mesh_ok m' \<and> claim_step dg (mesh_abs m) (mesh_abs m')"
proof -
  have ok: "owner_ok m" "ledger_of (ms_scheduler m) (mesh_claims m)" using assms(1) by (simp_all add: mesh_ok_def)
  note i = conjunct1 [OF owned_live(2) [OF ok(1) assms(2,3)]] conjunct2 [OF owned_live(2) [OF ok(1) assms(2,3)]]
  obtain r sch where run: "finishOnce inventory answers outcome (ms_reservations m ! i) (ms_scheduler m) = (r, sch)"
    by (cases "finishOnce inventory answers outcome (ms_reservations m ! i) (ms_scheduler m)")
  have r: "rv_finished r" "released (ms_scheduler m) (ms_reservations m ! i) sch"
    using finishOnce_released [OF i(2), where inventory = inventory and answers = answers and outcome = outcome and sch = "ms_scheduler m"] run by simp_all
  have m': "m' = m\<lparr>ms_sequences := (ms_sequences m)[j := s], ms_scheduler := sch, ms_reservations := (ms_reservations m)[i := r]\<rparr>"
    by (simp add: m'_def finish_at_def run)
  have s: "ssq_reservation s = None" "sequence_ok s" using assms(4,5) by (simp_all add: sequence_ok_def)
  have "mset (ms_preparing m) + pointers ((ms_sequences m)[j := s]) = live_indices (ms_reservations m) - {#i#}"
    using conjunct1 [OF ok(1) [unfolded owner_ok_def]] unfolding pointers_dropped [OF assms(2,3) s(1)]
    by (rule one_owner_less(1))
  moreover have "\<forall>t \<in> set ((ms_sequences m)[j := s]). sequence_ok t"
    using sequences_update [OF conjunct2 [OF ok(1) [unfolded owner_ok_def]]] s(2) by blast
  ultimately have "owner_ok m'"
    using live_finished [OF i(1) r(1)] by (simp add: m' owner_ok_def)
  moreover note finish_ledger_step [OF ok(2) i(1,2) r(2,1)]
  ultimately show ?thesis by (simp add: mesh_ok_def mesh_claims_def mesh_abs_def m')
qed

lemma pointer_exists:
  assumes "mesh_ok m" and "j < length (ms_sequences m)" and "ssq_state (ms_sequences m ! j) \<in> {SequencePrepared, SequenceRunning}"
  obtains i where "ssq_reservation (ms_sequences m ! j) = Some i"
proof -
  have "sequence_ok (ms_sequences m ! j)" using assms(1,2) by (simp add: mesh_ok_def owner_ok_def)
  then show thesis using assms(3) that by (cases "ssq_reservation (ms_sequences m ! j)") (auto simp: sequence_ok_def)
qed

lemma generated_step:
  assumes "mesh_ok m" and "j < length (ms_sequences m)" and "ssq_state (ms_sequences m ! j) = SequenceRunning"
  shows "mesh_ok (end_generate inventory answers confirmed j m) \<and>
    claim_step dg (mesh_abs m) (mesh_abs (end_generate inventory answers confirmed j m))"
proof -
  obtain i where i: "ssq_reservation (ms_sequences m ! j) = Some i"
    using pointer_exists [OF assms(1,2)] assms(3) by auto
  have s: "(ms_sequences m ! j)\<lparr>ssq_state := SequenceFinished, ssq_reservation := None\<rparr> =
      \<lparr>ssq_state = SequenceFinished, ssq_reservation = None\<rparr>" by simp
  show ?thesis
    using giving_up [OF assms(1,2) i s] by (simp add: end_generate_def endGenerate_def i)
qed

lemma close_step:
  assumes "mesh_ok m" and "j < length (ms_sequences m)" and "close_sequence inventory answers j m = Inr m'"
  shows "mesh_ok m' \<and> claim_step dg (mesh_abs m) (mesh_abs m')"
proof (cases "ssq_state (ms_sequences m ! j) = SequencePrepared")
  case True
  obtain i where i: "ssq_reservation (ms_sequences m ! j) = Some i"
    using pointer_exists [OF assms(1,2)] True by auto
  have s: "(ms_sequences m ! j)\<lparr>ssq_state := SequenceClosed, ssq_reservation := None\<rparr> =
      \<lparr>ssq_state = SequenceClosed, ssq_reservation = None\<rparr>" by simp
  show ?thesis
    using giving_up [OF assms(1,2) i s] assms(3) True by (auto simp: close_sequence_def closeScheduled_def i)
next
  case False
  then have "m' = m"
    using assms(3) by (cases "ssq_state (ms_sequences m ! j)") (auto simp: close_sequence_def closeScheduled_def finish_at_def)
  then show ?thesis using assms(1) by (simp add: claim_step.nothing)
qed

lemma step_ok:
  assumes "mesh_step dg m m'" and "mesh_ok m"
  shows "mesh_ok m' \<and> claim_step dg (mesh_abs m) (mesh_abs m')"
  using assms(1)
proof (cases rule: mesh_step.cases)
  case admit
  then show ?thesis using admit_step [OF assms(2)] by blast
next
  case session
  then show ?thesis using session_step [OF assms(2)] by blast
next
  case generate
  then show ?thesis using generate_step [OF assms(2)] by blast
next
  case generated
  then show ?thesis using generated_step [OF assms(2)] by blast
next
  case close
  then show ?thesis using close_step [OF assms(2)] by blast
qed

lemma reachable_ok: "mesh_reachable dg m \<Longrightarrow> mesh_ok m"
  by (induction rule: mesh_reachable.induct) (use new_mesh_ok step_ok in blast)+

section \<open>Single use\<close>

text \<open>Steps never remove a sequence, and none leads back to the prepared state.\<close>

definition used_up :: "nat \<Rightarrow> mesh \<Rightarrow> bool" where
  "used_up j m \<longleftrightarrow> j < length (ms_sequences m) \<and> ssq_state (ms_sequences m ! j) \<noteq> SequencePrepared"

lemma used_up_update: "used_up j m \<Longrightarrow> ssq_state s \<noteq> SequencePrepared \<Longrightarrow>
    ms_sequences m' = (ms_sequences m)[k := s] \<Longrightarrow> used_up j m'"
  by (cases "j = k") (auto simp: used_up_def)

lemma finish_at_sequences [simp]: "ms_sequences (finish_at inventory answers outcome pointer m) = ms_sequences m"
  by (simp add: finish_at_def split_beta split: option.split)

lemma step_used_up:
  assumes "mesh_step dg m m'" and "used_up j m"
  shows "used_up j m'"
  using assms(1)
proof (cases rule: mesh_step.cases)
  case (admit resolver cancelled inventories profiles request)
  then have "ms_sequences m' = ms_sequences m"
    by (simp add: admit_sequence_def split: prod.split sum.split)
  then show ?thesis using assms(2) by (simp add: used_up_def)
next
  case (session i inventory resolves starts answers)
  then have "ms_sequences m' = ms_sequences m \<or> (\<exists>s. ms_sequences m' = ms_sequences m @ [s])"
    by (simp add: start_session_def split: prod.split sum.split)
  then show ?thesis using assms(2) by (auto simp: used_up_def nth_append)
next
  case (generate k)
  then obtain s where "ms_sequences m' = (ms_sequences m)[k := s]" "ssq_state s = SequenceRunning"
    by (auto simp: begin_generate_def beginGenerate_def split: if_splits)
  then show ?thesis using used_up_update [OF assms(2), of s m' k] by simp
next
  case (generated k inventory answers confirmed)
  then have "ms_sequences m' = (ms_sequences m)[k := fst (endGenerate (ms_sequences m ! k))]"
    by (simp add: end_generate_def endGenerate_def)
  then show ?thesis by (rule used_up_update [OF assms(2), rotated]) (simp add: endGenerate_def)
next
  case (close k inventory answers)
  show ?thesis
  proof (cases "ssq_state (ms_sequences m ! k) = SequencePrepared")
    case True
    then have "ms_sequences m' = (ms_sequences m)[k := fst (closeScheduled (ms_sequences m ! k))]"
      using close(2) by (auto simp: close_sequence_def closeScheduled_def)
    then show ?thesis by (rule used_up_update [OF assms(2), rotated]) (simp add: True closeScheduled_def)
  next
    case False
    then have "m' = m"
      using close(2) by (cases "ssq_state (ms_sequences m ! k)") (auto simp: close_sequence_def closeScheduled_def finish_at_def)
    then show ?thesis using assms(2) by simp
  qed
qed

lemma steps_used_up: "(mesh_step dg)\<^sup>*\<^sup>* m m' \<Longrightarrow> used_up j m \<Longrightarrow> used_up j m'"
  by (induction rule: rtranclp_induct) (use step_used_up in blast)+

section \<open>Nothing in use, nothing reserved\<close>

lemma idle_claims:
  assumes "mesh_ok m" and "ms_preparing m = []"
    and "\<forall>s \<in> set (ms_sequences m). ssq_state s \<in> {SequenceFinished, SequenceClosed}"
  shows "mesh_claims m = {#}"
proof -
  have "\<forall>s \<in> set ss. ssq_reservation s = None \<Longrightarrow> pointers ss = {#}" for ss
    by (induction ss) (simp_all add: pointers_def outstanding_def)
  moreover have "\<forall>s \<in> set (ms_sequences m). ssq_reservation s = None"
    using assms(1,3) by (simp add: mesh_ok_def owner_ok_def sequence_ok_def)
  ultimately have "pointers (ms_sequences m) = {#}" by blast
  then have "live_indices (ms_reservations m) = {#}"
    using assms(1,2) by (simp add: mesh_ok_def owner_ok_def)
  then have finished: "rv_finished (ms_reservations m ! i)" if "i < length (ms_reservations m)" for i
    using live_iff [of i "ms_reservations m"] that by auto
  have "\<forall>r \<in> set rs. rv_finished r \<Longrightarrow> outstanding unfinished claims rs = {#}" for rs
    by (induction rs) (simp_all add: outstanding_def)
  moreover have "\<forall>r \<in> set (ms_reservations m). rv_finished r" using finished by (auto simp: in_set_conv_nth)
  ultimately show ?thesis unfolding mesh_claims_def by blast
qed

section \<open>An admission\<close>

definition plain_resolver :: target_resolver where
  "plain_resolver = \<lparr>rs_validateTransport = None, rs_validateTarget = None\<rparr>"

definition demo_admitted :: mesh where
  "demo_admitted = admit_sequence demo_digests plain_resolver False (\<lambda>n. demo_inventory) (\<lambda>n now. Inr demo_snapshot)
     demo_construction new_mesh"

lemma demo_b_fields:
  "wk_instanceID (ready_worker ''b'' 90) = ''b-1''" "wk_endpoint (ready_worker ''b'' 90) = ''http://b''"
  "wk_status (ready_worker ''b'' 90) = demo_status 90"
  "cap_admission (wk_capabilities (ready_worker ''b'' 90)) =
     \<lparr>al_maxConcurrentRequests = 1, al_maxOpenSequencesPerShard = 2, al_retainedByteBudget = 64\<rparr>"
  by (simp_all add: ready_worker_def demo_worker_def Let_def demo_registration_def demo_capabilities_def)

lemma demo_reserved:
  obtains res best sch r s where
    "constructPlan demo_digests demo_inventory demo_snapshot demo_construction = Inr res"
    "pr_selectedPlan res = Some best" "pe_plan best = demo_scored_plan"
    "reserveAdmission demo_inventory best newSequenceScheduler = (sch, Inr r)" "rv_stages r = [s]" "unfinished r"
    "sg_sequenceKey s = \<lparr>skey_workerID = ''b'', skey_instanceID = ''b-1'', skey_shardID = ''generate-shard-0-5-f10123456789''\<rparr>"
    "sg_workerKey s = \<lparr>wkey_workerID = ''b'', wkey_instanceID = ''b-1''\<rparr>"
    "sg_sequenceMemoryBytes s = 4" "\<not> sg_cleanupObserved s"
proof -
  obtain res best where run: "constructPlan demo_digests demo_inventory demo_snapshot demo_construction = Inr res"
    "pr_selectedPlan res = Some best" "pe_plan best = demo_scored_plan" "pe_request best = demo_scoring"
    using demo_search_run by metis
  obtain q where scored: "scorePlan demo_digests demo_inventory demo_snapshot (pe_plan best) q = Inr best" "pe_eligible best"
    by (rule selected_plan_scored [OF run(1,2)])
  note ev = scored_evidence [OF scored]
  let ?w = "ready_worker ''b'' 90" and ?c = "spe_selectedCandidate (pe_stages best ! 0)"
  let ?load = "if cd_reusesRetainedShard ?c then 0 else 20 :: u64"
  have stages: "length (ep_stages (pe_plan best)) = 1" "ep_stages (pe_plan best) = [hd (ep_stages demo_scored_plan)]"
    "es_targetID (hd (ep_stages demo_scored_plan)) = ''b''"
    "es_shardID (hd (ep_stages demo_scored_plan)) = ''generate-shard-0-5-f10123456789''"
    by (simp_all add: run(3) demo_scored_plan_def)
  have cost: "psr_stages (pe_request best) ! 0 = demo_costs" by (simp add: run(4) demo_scoring_def)
  have cand: "cd_workerID ?c = ''b''" "evidence ?c demo_costs"
    using ev(5) [of 0] stages cost by simp_all
  then have sum: "addReservationBytes ?load 4 = (cd_requiredAdditionalMemoryBytes ?c, False)"
    by (simp add: evidence_def demo_costs_def split: if_splits)
  then have bytes: "unat (cd_requiredAdditionalMemoryBytes ?c) = unat ?load + 4"
    by (simp add: addReservationBytes_sum)
  have fresh: "reconcileReservations demo_inventory newSequenceScheduler = newSequenceScheduler"
    "slots_at newSequenceScheduler k = zeroSlots" "ledger_at newSequenceScheduler k' = zeroLedger" for k k'
    by (simp_all add: reconcileReservations_def newSequenceScheduler_def slots_at_def ledger_at_def)
  have memory: "checkMemory ?w zeroLedger (cd_requiredAdditionalMemoryBytes ?c) 4 = Inr ()"
  proof -
    have "reservedWorkerMemory zeroLedger = Some (0, 0)" by (simp add: reservedWorkerMemory_def)
    moreover have "addReservationBytes 0 0 = (0, False)" "addReservationBytes 0 4 = (4, False)"
      by (simp_all add: addReservationBytes_exact)
    moreover have "\<not> subtractAvailable 90 0 < cd_requiredAdditionalMemoryBytes ?c"
      by (simp add: u64_less_iff subtractAvailable_exact bytes)
    ultimately show ?thesis
      by (simp add: checkMemory_def demo_b_fields demo_status_def)
  qed
  let ?stage = "\<lparr>sg_sequenceKey = sequenceKeyOf ?w (es_shardID (hd (ep_stages demo_scored_plan))),
      sg_workerKey = workerKeyOf ?w, sg_loadMemoryBytes = ?load, sg_sequenceMemoryBytes = 4, sg_setupObserved = False,
      sg_setupShardPresent = False, sg_setupObservationSequence = 0, sg_cleanupObserved = False,
      sg_cleanupShardOpen = False, sg_cleanupObservationSequence = 0\<rparr>"
  have costs: "sce_loadMemoryBytes demo_costs = 20" "sce_sequenceMemoryBytes demo_costs = 4" by (simp_all add: demo_costs_def)
  have "reserveStage demo_inventory best newSequenceScheduler (0, hd (ep_stages demo_scored_plan)) = Inr ?stage"
    unfolding reserveStage_def prod.case stages(3) demo_worker_b option.case Let_def fresh cost costs sum cand(1)
    using memory by (simp add: demo_b_fields demo_workers openOnShard_def demo_status_def local_open_def wrap_int_def)
  then have "collect (reserveStage demo_inventory best newSequenceScheduler) (indexed (ep_stages (pe_plan best))) = Inr [?stage]"
    unfolding stages(2) by (simp add: indexed_def)
  then have "reserveAdmission demo_inventory best newSequenceScheduler =
      (fold commitStage [?stage] newSequenceScheduler, Inr \<lparr>rv_stages = [?stage], rv_finished = False\<rparr>)"
    using ev(1,2) by (simp add: reserveAdmission_def fresh)
  from that [OF run(1-3) this] show thesis
    by (simp add: sequenceKeyOf_def workerKeyOf_def demo_b_fields demo_workers stages)
qed

lemma demo_admitted_fields:
  obtains res best sch r s where
    "constructPlan demo_digests demo_inventory demo_snapshot demo_construction = Inr res" "pr_selectedPlan res = Some best"
    "reserveAdmission demo_inventory best newSequenceScheduler = (sch, Inr r)" "rv_stages r = [s]" "unfinished r"
    "pe_plan best = demo_scored_plan"
    "demo_admitted = \<lparr>ms_scheduler = sch, ms_reservations = [r], ms_preparing = [0], ms_sequences = []\<rparr>"
    "sg_sequenceKey s = \<lparr>skey_workerID = ''b'', skey_instanceID = ''b-1'', skey_shardID = ''generate-shard-0-5-f10123456789''\<rparr>"
    "sg_workerKey s = \<lparr>wkey_workerID = ''b'', wkey_instanceID = ''b-1''\<rparr>"
    "sg_sequenceMemoryBytes s = 4"
proof -
  obtain res best sch r s where run: "constructPlan demo_digests demo_inventory demo_snapshot demo_construction = Inr res"
    "pr_selectedPlan res = Some best" "pe_plan best = demo_scored_plan" and
    reserve: "reserveAdmission demo_inventory best newSequenceScheduler = (sch, Inr r)" "rv_stages r = [s]" "unfinished r"
      "sg_sequenceKey s = \<lparr>skey_workerID = ''b'', skey_instanceID = ''b-1'', skey_shardID = ''generate-shard-0-5-f10123456789''\<rparr>"
      "sg_workerKey s = \<lparr>wkey_workerID = ''b'', wkey_instanceID = ''b-1''\<rparr>"
      "sg_sequenceMemoryBytes s = 4"
    using demo_reserved by metis
  have "ep_inventoryRevision demo_scored_plan = decimal_nat (unat (inv_revision demo_inventory))"
    unfolding demo_scored_plan_def demo_inventory_def by code_simp
  moreover have one: "ep_stages demo_scored_plan = [hd (ep_stages demo_scored_plan)]"
    and target: "es_targetID (hd (ep_stages demo_scored_plan)) = ''b''"
    by (simp_all add: demo_scored_plan_def)
  have "\<exists>binding. bindTarget demo_inventory (0, hd (ep_stages demo_scored_plan)) = Inr binding"
    by (simp add: bindTarget_def target demo_worker_b demo_b_fields)
  then have "\<exists>bindings. collect (bindTarget demo_inventory) (indexed (ep_stages demo_scored_plan)) = Inr bindings"
    by (subst one) (auto simp: indexed_def)
  ultimately have "\<exists>bindings. selectedTargetBindings demo_inventory demo_scored_plan = Inr bindings"
    by (simp add: selectedTargetBindings_def)
  moreover have "snapshots (\<lambda>n. demo_inventory) (\<lambda>n now. Inr demo_snapshot) = Inr (demo_inventory, demo_snapshot)"
    by (simp add: snapshots_def defaultSnapshotAttempts_def numeral_eq_Suc)
  ultimately have "\<exists>selection. prepareAdmission demo_digests plain_resolver False (\<lambda>n. demo_inventory)
      (\<lambda>n now. Inr demo_snapshot) demo_construction newSequenceScheduler = (sch, selection, Inr r)"
    by (auto simp: prepareAdmission_def validateTransport_def validateTargets_def plain_resolver_def run reserve(1))
  then have "demo_admitted = \<lparr>ms_scheduler = sch, ms_reservations = [r], ms_preparing = [0], ms_sequences = []\<rparr>"
    by (auto simp: demo_admitted_def admit_sequence_def new_mesh_def)
  from that [OF run(1,2) reserve(1,2,3) run(3) this reserve(4-6)] show thesis .
qed

lemma demo_admitted_reachable: "mesh_reachable demo_digests demo_admitted"
  unfolding demo_admitted_def by (rule mesh_reachable.step [OF mesh_reachable.start mesh_step.admit])

text \<open>The admitted sequence is prepared, runs and ends.\<close>

definition demo_answers :: "nat \<Rightarrow> observed" where
  "demo_answers = (\<lambda>n. Inr \<lparr>wo_loadedShards = [(''generate-shard-0-5-f10123456789'', 1)], wo_observationSequence = 2\<rparr>)"

definition demo_session :: mesh where
  "demo_session = start_session demo_inventory (\<lambda>n. True) True demo_answers 0 demo_admitted"

definition demo_running :: mesh where
  "demo_running = demo_session\<lparr>ms_sequences := [\<lparr>ssq_state = SequenceRunning, ssq_reservation = Some 0\<rparr>]\<rparr>"

definition demo_ended :: mesh where
  "demo_ended = end_generate demo_inventory demo_answers True 0 demo_running"

lemma demo_session_fields:
  "ms_preparing demo_session = []" "ms_sequences demo_session = [\<lparr>ssq_state = SequencePrepared, ssq_reservation = Some 0\<rparr>]"
proof -
  obtain sch r s where fields: "rv_stages r = [s]"
    "demo_admitted = \<lparr>ms_scheduler = sch, ms_reservations = [r], ms_preparing = [0], ms_sequences = []\<rparr>"
    "sg_sequenceKey s = \<lparr>skey_workerID = ''b'', skey_instanceID = ''b-1'', skey_shardID = ''generate-shard-0-5-f10123456789''\<rparr>"
    using demo_admitted_fields by metis
  have "snd (observeSetup True demo_answers r) = []"
    by (simp add: observeSetup_def fields indexed_def observeStageSetup_def demo_answers_def stateHasShard_def)
  then have "\<exists>r'. prepareSession demo_inventory (\<lambda>n. True) True demo_answers r sch = (r', sch, Inr ())"
    by (cases "observeSetup True demo_answers r") (simp add: prepareSession_def fields find_None_iff)
  then show "ms_preparing demo_session = []"
    "ms_sequences demo_session = [\<lparr>ssq_state = SequencePrepared, ssq_reservation = Some 0\<rparr>]"
    by (auto simp: demo_session_def start_session_def fields)
qed

lemma demo_session_reachable: "mesh_reachable demo_digests demo_session"
proof -
  obtain sch r where "demo_admitted = \<lparr>ms_scheduler = sch, ms_reservations = [r], ms_preparing = [0], ms_sequences = []\<rparr>"
    using demo_admitted_fields by metis
  then have "0 \<in> set (ms_preparing demo_admitted)" by (metis list.set_intros(1) mesh.select_convs(3))
  then show ?thesis
    unfolding demo_session_def by (rule mesh_reachable.step [OF demo_admitted_reachable mesh_step.session])
qed

lemma demo_begins: "begin_generate 0 demo_session = Inr demo_running"
  by (simp add: begin_generate_def beginGenerate_def demo_session_fields demo_running_def)

lemma demo_running_sequences: "ms_sequences demo_running = [\<lparr>ssq_state = SequenceRunning, ssq_reservation = Some 0\<rparr>]"
  by (simp add: demo_running_def)

lemma demo_ends: "mesh_step demo_digests demo_running demo_ended"
  unfolding demo_ended_def by (rule mesh_step.generated) (simp_all add: demo_running_sequences)

lemma demo_ended_reachable: "mesh_reachable demo_digests demo_ended"
proof -
  have "mesh_step demo_digests demo_session demo_running"
    by (rule mesh_step.generate [OF _ demo_begins]) (simp add: demo_session_fields)
  then show ?thesis using demo_session_reachable demo_ends by (blast intro: mesh_reachable.step)
qed

lemma demo_ended_fields:
  "ms_preparing demo_ended = []" "ms_sequences demo_ended = [\<lparr>ssq_state = SequenceFinished, ssq_reservation = None\<rparr>]"
  by (simp_all add: demo_ended_def end_generate_def endGenerate_def demo_running_sequences finish_at_def split_beta)
     (simp add: demo_running_def demo_session_fields)

section \<open>Properties\<close>

text \<open>
  C3: The ledger is exact: however preparations, generations and closes interleave, the slot
  count of a shard and the request count and bytes of a worker are the totals over the
  reservations that are not finished. Nothing leaks, saturates or underflows.
\<close>

theorem ledger_conserved:
  assumes "mesh_reachable dg m"
  shows "slots_active (slots_at (ms_scheduler m) shard) = int (size (on_shard shard (mesh_claims m))) \<and>
    wl_activeRequests (ledger_at (ms_scheduler m) worker) = int (size (on_worker worker (mesh_claims m))) \<and>
    unat (wl_activeAvailableBytes (ledger_at (ms_scheduler m) worker)) = claimed_bytes (on_worker worker (mesh_claims m)) \<and>
    unat (wl_activeRetainedBytes (ledger_at (ms_scheduler m) worker)) = claimed_retained (on_worker worker (mesh_claims m))"
  using reachable_ok [OF assms] by (simp add: mesh_ok_def ledger_of_def)

text \<open>
  C15: The scheduler refines a ledger of whole reservations. Its slots and worker ledgers
  always represent the reservations in force, and a step of the mesh, seen through this
  representation, changes nothing, takes one reservation, of all the stages of a valid plan
  and of each of its workers once, or gives one back entirely: no step leaves a plan taken or
  returned in part.
\<close>

theorem mesh_refines_reservations:
  assumes "mesh_reachable dg m" and "mesh_step dg m m'"
  shows "represents (ms_scheduler m) (mesh_abs m) \<and> claim_step dg (mesh_abs m) (mesh_abs m') \<and>
    represents (ms_scheduler m') (mesh_abs m')"
  using step_ok [OF assms(2) reachable_ok [OF assms(1)]] reachable_ok [OF assms(1)]
  unfolding represents_def mesh_ok_def mesh_claims_abs by blast

text \<open>
  Once no preparation is in progress and every sequence is finished or closed, nothing is
  reserved: every path through preparing, generating and closing returns its reservation.
\<close>

theorem idle_mesh_holds_nothing:
  assumes "mesh_reachable dg m" and "ms_preparing m = []"
    and "\<forall>s \<in> set (ms_sequences m). ssq_state s \<in> {SequenceFinished, SequenceClosed}"
  shows "slots_active (slots_at (ms_scheduler m) shard) = 0 \<and> wl_activeRequests (ledger_at (ms_scheduler m) worker) = 0 \<and>
    wl_activeAvailableBytes (ledger_at (ms_scheduler m) worker) = 0 \<and>
    wl_activeRetainedBytes (ledger_at (ms_scheduler m) worker) = 0"
proof -
  have ok: "mesh_ok m" by (rule reachable_ok [OF assms(1)])
  then have "ledger_of (ms_scheduler m) {#}" using idle_claims [OF ok assms(2,3)] by (simp add: mesh_ok_def)
  then show ?thesis by (simp add: ledger_of_def unat_eq_zero)
qed

text \<open>
  C27: A scheduled sequence generates at most once: after a \<open>Generate\<close> has begun, every later
  one is refused, whatever else happens in the mesh.
\<close>

theorem sequence_runs_once:
  assumes "begin_generate j m = Inr m'" and "j < length (ms_sequences m)" and "(mesh_step dg)\<^sup>*\<^sup>* m' m''"
  shows "begin_generate j m'' = Inl SequenceAlreadyRun"
proof -
  have "used_up j m'"
    using assms(1,2) by (auto simp: begin_generate_def beginGenerate_def used_up_def split: if_splits)
  from steps_used_up [OF assms(3) this] show ?thesis
    by (simp add: used_up_def begin_generate_def beginGenerate_def)
qed

text \<open>
  C8: A sequence of a valid plan is admitted only within the limits of every worker it uses.
  Counting what the worker reports and what the scheduler has reserved, including this
  sequence, the available memory and the retained bytes stay within what the worker
  advertises, and so do the open sequences of the shard and the requests of the worker
  provided that the two sums of counts the admission compared fit Go's \<open>int\<close>
  (\<open>sums_fit\<close>): the code adds a reported and a local count unchecked, and the registry puts no
  upper bound on a reported one, so a sum beyond \<open>2\<^sup>6\<^sup>3 - 1\<close> wraps and passes the comparison.
\<close>

theorem admission_within_limits:
  assumes "reserveAdmission inventory ev sch = (sch', Inr r)"
    and "validateExecutionPlan dg (pe_plan ev) = Inr ()"
    and "stage \<in> set (ep_stages (pe_plan ev))"
  shows "\<exists>w. workersByID inventory (es_targetID stage) = Some w \<and> memory_within sch' w \<and>
    (sums_fit (reconcileReservations inventory sch) w (es_shardID stage) \<longrightarrow> counts_within sch' w (es_shardID stage))"
proof -
  have "distinct (map es_targetID (ep_stages (pe_plan ev)))"
    using assms(2) by (simp add: validate_iff valid_plan_def identities_ok_def)
  from reserve_within_limits [OF assms(1) this assms(3)] show ?thesis .
qed

text \<open>
  C35: Reserving and releasing round-trips: when a reservation is given back before anything
  was loaded, every slot and every worker's ledger is what it was after reconciliation.
\<close>

theorem reservation_round_trip:
  assumes "mesh_reachable dg m"
    and "reserveAdmission inventory ev (ms_scheduler m) = (sch, Inr r)"
    and "distinct (map es_targetID (ep_stages (pe_plan ev)))"
  shows "slots_at (snd (finishOnce inventory' answers untouched r sch)) = slots_at (reconcileReservations inventory (ms_scheduler m)) \<and>
    ledger_at (snd (finishOnce inventory' answers untouched r sch)) = ledger_at (reconcileReservations inventory (ms_scheduler m))"
  using reserve_returned [OF assms(2,3)] reachable_ok [OF assms(1)] unfolding mesh_ok_def by blast

text \<open>
  C28: A sequence whose cleanup is not confirmed leaves its slot quarantined: until an
  inventory shows the same worker instance with the shard closed and observed since the
  release, or shows the instance gone, the slot stays counted through any further
  admissions and releases.
\<close>

theorem ambiguous_cleanup_quarantined:
  assumes "finishOnce inventory answers outcome r sch = (r', sch')" and "\<not> rv_finished r" and "s \<in> set (rv_stages r')"
    and "\<not> cleanup_confirmed outcome s"
    and "sameInstance inventory (wkey_workerID (sg_workerKey s)) (wkey_instanceID (sg_workerKey s)) \<noteq> None"
    and "\<forall>e \<in> set events. event_unobserved (sg_sequenceKey s) (cleanupMinimum s) e"
  shows "cleanupMinimum s \<in> set (slots_poisonedAfter (slots_at (fold run_event events sch') (sg_sequenceKey s)))"
proof -
  have "sch' = finishReservation inventory outcome (rv_stages r') sch"
    using assms(1,2) by (auto simp: finishOnce_def Let_def)
  then show ?thesis using events_keep_poison [OF assms(6)] ambiguous_finish_poisons [OF assms(3-5)] by blast
qed

text \<open>
  A plan that was just selected is refused for want of capacity only: the planner's
  evidence about targets, candidates and memory always agrees with what admission checks, so
  none of the scheduler's evidence errors can occur.
\<close>

theorem selected_plan_refused_for_capacity:
  assumes "constructPlan dg inventory profile request = Inr res" and "pr_selectedPlan res = Some ev"
    and "reserveAdmission inventory ev sch = (sch', Inl e)"
  shows "capacity_refusal e"
  by (rule reserve_refusal [OF assms])

section \<open>Witnesses\<close>

theorem ledger_conserved_witness:
  "slots_active (slots_at (ms_scheduler demo_admitted)
     \<lparr>skey_workerID = ''b'', skey_instanceID = ''b-1'', skey_shardID = ''generate-shard-0-5-f10123456789''\<rparr>) = 1 \<and>
   unat (wl_activeRetainedBytes (ledger_at (ms_scheduler demo_admitted) \<lparr>wkey_workerID = ''b'', wkey_instanceID = ''b-1''\<rparr>)) = 4"
proof -
  obtain sch r s where fields: "rv_stages r = [s]" "unfinished r"
    "demo_admitted = \<lparr>ms_scheduler = sch, ms_reservations = [r], ms_preparing = [0], ms_sequences = []\<rparr>"
    "sg_sequenceKey s = \<lparr>skey_workerID = ''b'', skey_instanceID = ''b-1'', skey_shardID = ''generate-shard-0-5-f10123456789''\<rparr>"
    "sg_workerKey s = \<lparr>wkey_workerID = ''b'', wkey_instanceID = ''b-1''\<rparr>" "sg_sequenceMemoryBytes s = 4"
    using demo_admitted_fields by metis
  have "mesh_claims demo_admitted = {#claim s#}"
    by (simp add: mesh_claims_def outstanding_def claims_def fields)
  then show ?thesis
    using fields by (simp add: ledger_conserved [OF demo_admitted_reachable] claim_def)
qed

theorem mesh_refines_reservations_witness:
  "claim_step demo_digests (mesh_abs new_mesh) (mesh_abs demo_admitted) \<and>
   represents (ms_scheduler demo_admitted) (mesh_abs demo_admitted) \<and> mesh_abs demo_admitted \<noteq> mesh_abs new_mesh"
proof -
  obtain sch r s where fields: "rv_stages r = [s]" "unfinished r"
    "demo_admitted = \<lparr>ms_scheduler = sch, ms_reservations = [r], ms_preparing = [0], ms_sequences = []\<rparr>"
    using demo_admitted_fields by metis
  have "mesh_step demo_digests new_mesh demo_admitted" unfolding demo_admitted_def by (rule mesh_step.admit)
  from mesh_refines_reservations [OF mesh_reachable.start this] have "claim_step demo_digests (mesh_abs new_mesh) (mesh_abs demo_admitted)"
    "represents (ms_scheduler demo_admitted) (mesh_abs demo_admitted)" by blast+
  moreover have "mesh_abs demo_admitted = {#claims r#}" "mesh_abs new_mesh = {#}"
    by (simp_all add: mesh_abs_def outstanding_def new_mesh_def fields)
  ultimately show ?thesis by simp
qed

theorem idle_mesh_holds_nothing_witness:
  "slots_active (slots_at (ms_scheduler demo_ended)
     \<lparr>skey_workerID = ''b'', skey_instanceID = ''b-1'', skey_shardID = ''generate-shard-0-5-f10123456789''\<rparr>) = 0"
  using idle_mesh_holds_nothing [OF demo_ended_reachable demo_ended_fields(1)] by (simp add: demo_ended_fields)

theorem sequence_runs_once_witness: "begin_generate 0 demo_ended = Inl SequenceAlreadyRun"
  by (rule sequence_runs_once [OF demo_begins _ r_into_rtranclp [where r = "mesh_step demo_digests", OF demo_ends]])
     (simp add: demo_session_fields)

theorem admission_within_limits_witness:
  "memory_within (ms_scheduler demo_admitted) (ready_worker ''b'' 90) \<and>
   counts_within (ms_scheduler demo_admitted) (ready_worker ''b'' 90) ''generate-shard-0-5-f10123456789''"
proof -
  obtain res best sch r where run: "constructPlan demo_digests demo_inventory demo_snapshot demo_construction = Inr res"
    "pr_selectedPlan res = Some best" and
    fields: "reserveAdmission demo_inventory best newSequenceScheduler = (sch, Inr r)" "pe_plan best = demo_scored_plan"
    "demo_admitted = \<lparr>ms_scheduler = sch, ms_reservations = [r], ms_preparing = [0], ms_sequences = []\<rparr>"
    using demo_admitted_fields by metis
  define stage where "stage = hd (ep_stages demo_scored_plan)"
  have stage: "stage \<in> set (ep_stages (pe_plan best))" "es_targetID stage = ''b''"
    "es_shardID stage = ''generate-shard-0-5-f10123456789''"
    by (simp_all add: stage_def fields(2) demo_scored_plan_def)
  have "sums_fit (reconcileReservations demo_inventory newSequenceScheduler) (ready_worker ''b'' 90) (es_shardID stage)"
    by (simp add: demo_workers sums_fit_def demo_b_fields demo_status_def openOnShard_def local_open_def
        reconcileReservations_def newSequenceScheduler_def slots_at_def ledger_at_def)
  then show ?thesis
    using admission_within_limits [OF fields(1) selected_plan_valid [OF run] stage(1)] stage(2,3)
    by (simp add: demo_worker_b fields(3))
qed

theorem reservation_round_trip_witness:
  "\<exists>best sch r. reserveAdmission demo_inventory best newSequenceScheduler = (sch, Inr r) \<and> rv_stages r \<noteq> [] \<and>
     slots_at (snd (finishOnce demo_inventory demo_answers untouched r sch)) =
       slots_at (reconcileReservations demo_inventory newSequenceScheduler)"
proof -
  obtain best sch r s where fields: "reserveAdmission demo_inventory best newSequenceScheduler = (sch, Inr r)"
    "pe_plan best = demo_scored_plan" "rv_stages r = [s]" using demo_admitted_fields by metis
  have "distinct (map es_targetID (ep_stages (pe_plan best)))" by (simp add: fields(2) demo_scored_plan_def)
  moreover have "ms_scheduler new_mesh = newSequenceScheduler" by (simp add: new_mesh_def)
  ultimately show ?thesis
    using reservation_round_trip [OF mesh_reachable.start, of demo_inventory best sch r demo_inventory demo_answers] fields
    by (intro exI [of _ best] exI [of _ sch] exI [of _ r]) simp
qed

theorem ambiguous_cleanup_quarantined_witness:
  "\<exists>best r sch. reserveAdmission demo_inventory best newSequenceScheduler = (sch, Inr r) \<and>
     - 1 \<in> set (slots_poisonedAfter (slots_at (fold run_event [Admit demo_inventory best]
        (snd (finishOnce demo_inventory (\<lambda>n. Inl ''down'') \<lparr>ro_mayHaveLoaded = True, ro_cleanupConfirmed = False\<rparr> r sch)))
      \<lparr>skey_workerID = ''b'', skey_instanceID = ''b-1'', skey_shardID = ''generate-shard-0-5-f10123456789''\<rparr>))"
proof -
  let ?key = "\<lparr>skey_workerID = ''b'', skey_instanceID = ''b-1'', skey_shardID = ''generate-shard-0-5-f10123456789''\<rparr>"
  let ?outcome = "\<lparr>ro_mayHaveLoaded = True, ro_cleanupConfirmed = False\<rparr>"
  obtain best sch r s where fields: "reserveAdmission demo_inventory best newSequenceScheduler = (sch, Inr r)"
    "rv_stages r = [s]" "unfinished r" "sg_sequenceKey s = ?key"
    "sg_workerKey s = \<lparr>wkey_workerID = ''b'', wkey_instanceID = ''b-1''\<rparr>" and fresh: "\<not> sg_cleanupObserved s"
    using demo_reserved by metis
  obtain sch' where run: "finishOnce demo_inventory (\<lambda>n. Inl ''down'') ?outcome r sch = (\<lparr>rv_stages = [s], rv_finished = True\<rparr>, sch')"
    using fields(2,3) by (auto simp: finishOnce_def Let_def observeCleanup_def indexed_def observeStageCleanup_def)
  have member: "sameInstance demo_inventory ''b'' ''b-1'' = Some (ready_worker ''b'' 90)"
    by (simp add: sameInstance_def demo_worker_b demo_b_fields)
  have minimum: "cleanupMinimum s = - 1" using fresh by (simp add: cleanupMinimum_def unreconciledObservationSequence_def)
  have "not_yet_observed demo_inventory ?key (- 1)"
    by (simp add: not_yet_observed_def member demo_b_fields demo_status_def u64_less_iff)
  then have "- 1 \<in> set (slots_poisonedAfter (slots_at (fold run_event [Admit demo_inventory best] sch') ?key))"
    using ambiguous_cleanup_quarantined [OF run fields(3), of s "[Admit demo_inventory best]"] fresh minimum
    by (simp add: cleanup_confirmed_def fields member)
  then show ?thesis using run fields(1) by (intro exI [of _ best] exI [of _ r] exI [of _ sch]) simp
qed

theorem selected_plan_refused_for_capacity_witness:
  "\<exists>best e. snd (reserveAdmission demo_inventory best (ms_scheduler demo_admitted)) = Inl e \<and> capacity_refusal e"
proof -
  let ?w = "ready_worker ''b'' 90"
  obtain res best sch r s where run: "constructPlan demo_digests demo_inventory demo_snapshot demo_construction = Inr res"
    "pr_selectedPlan res = Some best" and plan: "pe_plan best = demo_scored_plan" and
    fields: "rv_stages r = [s]" "unfinished r"
      "demo_admitted = \<lparr>ms_scheduler = sch, ms_reservations = [r], ms_preparing = [0], ms_sequences = []\<rparr>"
      "sg_workerKey s = \<lparr>wkey_workerID = ''b'', wkey_instanceID = ''b-1''\<rparr>"
    using demo_admitted_fields by metis
  have claims: "mesh_claims demo_admitted = {#claim s#}"
    by (simp add: mesh_claims_def outstanding_def claims_def fields)
  have "ledger_of (ms_scheduler demo_admitted) {#claim s#}"
    using reachable_ok [OF demo_admitted_reachable] claims by (simp only: mesh_ok_def)
  then have "wl_activeRequests (ledger_at (ms_scheduler demo_admitted) (workerKeyOf ?w)) =
      int (size (on_worker (workerKeyOf ?w) {#claim s#}))"
    unfolding ledger_of_def by blast
  moreover have "workerKeyOf ?w = sg_workerKey s" by (simp add: fields(4) workerKeyOf_def demo_workers demo_b_fields)
  ultimately have "wl_activeRequests (ledger_at (ms_scheduler demo_admitted) (workerKeyOf ?w)) = 1"
    by (simp add: claim_def)
  then have requests: "wl_activeRequests (ledger_at (reconcileReservations demo_inventory (ms_scheduler demo_admitted)) (workerKeyOf ?w)) = 1"
    by (simp add: reconcile_counters)
  have stages: "ep_stages (pe_plan best) = [hd (ep_stages demo_scored_plan)]" "es_targetID (hd (ep_stages demo_scored_plan)) = ''b''"
    by (simp_all add: plan demo_scored_plan_def)
  obtain sch' result where again: "reserveAdmission demo_inventory best (ms_scheduler demo_admitted) = (sch', result)"
    by (cases "reserveAdmission demo_inventory best (ms_scheduler demo_admitted)")
  show ?thesis
  proof (cases result)
    case (Inl e)
    then show ?thesis
      using selected_plan_refused_for_capacity [OF run] again by (intro exI [of _ best] exI [of _ e]) simp
  next
    case (Inr r')
    have "distinct (map es_targetID (ep_stages (pe_plan best)))" by (simp add: stages)
    from reserveAdmission_Inr(3) [OF again [unfolded Inr] this] obtain t w where
      "granted demo_inventory (reconcileReservations demo_inventory (ms_scheduler demo_admitted)) (hd (ep_stages demo_scored_plan)) w t"
      by (auto simp: stages list_all2_Cons1)
    then have False
      using requests by (auto simp: granted_def stages demo_worker_b demo_b_fields demo_status_def wrap_int_def)
    then show ?thesis ..
  qed
qed

end
