(* ===== verification/Tensor.thy ===== *)
theory Tensor
  imports Prelude Complex_Main "HOL-Library.Log_Nat"
begin

text \<open>
  Tensors on the wire and the checks of \<open>internal/tensorcheck/logits.go\<close>: the decoding of
  the last position of a logit tensor, its comparison with a reference within tolerances,
  greedy and worker-side sampling (\<open>internal/generation/logits.go\<close>), and the token tensor a
  generation sends. \<open>float64\<close> values are exact rationals, infinities and NaN, and the
  arithmetic on them rounds to 53 significant bits as IEEE 754 does; the sign of a zero is
  the only thing that is lost.
\<close>

unbundle bit_operations_syntax

section \<open>Bytes\<close>

type_synonym byte = "8 word"
type_synonym i32 = "32 word"

record wire_tensor =
  wt_shape :: "int list"
  wt_dtype :: string
  wt_data :: "byte list"

definition littleEndian32 :: "i32 \<Rightarrow> byte list" where
  "littleEndian32 w = [ucast w, ucast (drop_bit 8 w), ucast (drop_bit 16 w), ucast (drop_bit 24 w)]"

definition uint16LE :: "byte list \<Rightarrow> 16 word" where
  "uint16LE b = ucast (b ! 0) OR push_bit 8 (ucast (b ! 1))"

definition uint32LE :: "byte list \<Rightarrow> i32" where
  "uint32LE b = ucast (b ! 0) OR push_bit 8 (ucast (b ! 1)) OR push_bit 16 (ucast (b ! 2)) OR
     push_bit 24 (ucast (b ! 3))"

definition tokenTensor :: "i32 list \<Rightarrow> wire_tensor" where
  "tokenTensor tokens =
     \<lparr>wt_shape = [1, int (length tokens)], wt_dtype = ''int32'', wt_data = concat (map littleEndian32 tokens)\<rparr>"

text \<open>The elements of a byte slice: \<open>data[index*size:]\<close> for every index.\<close>

definition element :: "nat \<Rightarrow> byte list \<Rightarrow> nat \<Rightarrow> byte list" where
  "element width data index = take width (drop (index * width) data)"

section \<open>Floating point\<close>

datatype float64 = NaN | Infinite bool | Finite rat

fun float_less :: "float64 \<Rightarrow> float64 \<Rightarrow> bool" where
  "float_less (Finite x) (Finite y) = (x < y)"
| "float_less (Finite x) (Infinite negative) = (\<not> negative)"
| "float_less (Infinite negative) (Finite y) = negative"
| "float_less (Infinite negative) (Infinite negative') = (negative \<and> \<not> negative')"
| "float_less x y = False"

fun is_infinite :: "float64 \<Rightarrow> bool" where
  "is_infinite (Infinite negative) = True"
| "is_infinite x = False"

text \<open>
  Rounding to the nearest value with 53 significant bits, ties to even, no exponent below
  that of the subnormal numbers. \<open>magnitude x\<close> is the exponent of the leading bit of \<open>x\<close>.
\<close>

definition magnitude :: "rat \<Rightarrow> int" where
  "magnitude x =
     (let (p, q) = quotient_of x; e = bitlen p - bitlen q in if 2 powi e \<le> x then e else e - 1)"

definition round_even :: "rat \<Rightarrow> int" where
  "round_even x =
     (let f = \<lfloor>x\<rfloor>; d = x - of_int f in if d < 1 / 2 \<or> d = 1 / 2 \<and> even f then f else f + 1)"

definition unit_in_last_place :: "rat \<Rightarrow> rat" where
  "unit_in_last_place x = 2 powi (max (magnitude x - 52) (- 1074))"

definition round64 :: "rat \<Rightarrow> float64" where
  "round64 x =
     (if x = 0 then Finite 0
      else let u = unit_in_last_place \<bar>x\<bar>; y = of_int (round_even (\<bar>x\<bar> / u)) * u
        in if 2 ^ 1024 \<le> y then Infinite (x < 0) else Finite (if x < 0 then - y else y))"

fun float_neg :: "float64 \<Rightarrow> float64" where
  "float_neg NaN = NaN"
| "float_neg (Infinite negative) = Infinite (\<not> negative)"
| "float_neg (Finite x) = Finite (- x)"

fun float_abs :: "float64 \<Rightarrow> float64" where
  "float_abs NaN = NaN"
| "float_abs (Infinite negative) = Infinite False"
| "float_abs (Finite x) = Finite \<bar>x\<bar>"

fun float_add :: "float64 \<Rightarrow> float64 \<Rightarrow> float64" where
  "float_add (Finite x) (Finite y) = round64 (x + y)"
| "float_add (Infinite negative) (Finite y) = Infinite negative"
| "float_add (Finite x) (Infinite negative) = Infinite negative"
| "float_add (Infinite a) (Infinite b) = (if a = b then Infinite a else NaN)"
| "float_add x y = NaN"

definition float_sub :: "float64 \<Rightarrow> float64 \<Rightarrow> float64" where
  "float_sub x y = float_add x (float_neg y)"

fun float_mul :: "float64 \<Rightarrow> float64 \<Rightarrow> float64" where
  "float_mul (Finite x) (Finite y) = round64 (x * y)"
| "float_mul (Infinite negative) (Finite y) = (if y = 0 then NaN else Infinite (negative \<noteq> (y < 0)))"
| "float_mul (Finite x) (Infinite negative) = (if x = 0 then NaN else Infinite (negative \<noteq> (x < 0)))"
| "float_mul (Infinite a) (Infinite b) = Infinite (a \<noteq> b)"
| "float_mul x y = NaN"

text \<open>The source only divides by positive numbers.\<close>

fun float_div :: "float64 \<Rightarrow> float64 \<Rightarrow> float64" where
  "float_div (Finite x) (Finite y) =
     (if y = 0 then if x = 0 then NaN else Infinite (x < 0) else round64 (x / y))"
| "float_div (Infinite negative) (Finite y) = Infinite (negative \<noteq> (y < 0))"
| "float_div (Finite x) (Infinite negative) = Finite 0"
| "float_div x y = NaN"

text \<open>\<open>math.Max\<close>: plus infinity first, then NaN, then the larger.\<close>

definition float_max :: "float64 \<Rightarrow> float64 \<Rightarrow> float64" where
  "float_max x y =
     (if x = Infinite False \<or> y = Infinite False then Infinite False
      else if x = NaN \<or> y = NaN then NaN else if float_less y x then x else y)"

text \<open>\<open>math.Float32frombits\<close>, widened: one sign bit, eight of exponent, 23 of fraction.\<close>

definition float32frombits :: "32 word \<Rightarrow> float64" where
  "float32frombits bits =
     (let negative = bit bits 31; exponent = unat (drop_bit 23 bits AND 0xFF);
          fraction = unat (bits AND 0x7FFFFF); sign = (if negative then - 1 else 1)
      in if exponent = 0xFF then if fraction = 0 then Infinite negative else NaN
         else if exponent = 0 then Finite (sign * of_nat fraction / 2 ^ 149)
         else Finite (sign * of_nat (2 ^ 23 + fraction) * 2 ^ (exponent - 1) / 2 ^ 149))"

definition float16 :: "16 word \<Rightarrow> float64" where
  "float16 bits =
     (let sign = (if bits AND 0x8000 \<noteq> 0 then - 1 else 1);
          exponent = unat (drop_bit 10 bits AND 0x1F); fraction = unat (bits AND 0x3FF)
      in if exponent = 0 then if fraction = 0 then Finite 0 else Finite (sign * (of_nat fraction / 2 ^ 24))
         else if exponent = 0x1F then if fraction = 0 then Infinite (sign = - 1) else NaN
         else Finite (sign * ((1 + of_nat fraction / 1024) * 2 powi (int exponent - 15))))"

section \<open>Final logits\<close>

datatype tensor_error =
    NoDimensions
  | UnsupportedDType string
  | InvalidPayload string nat
  | NaNAtIndex nat
  | TokenBeyondInt32 nat
  | NeitherTokenNorLogits
  | NegativeToken i32
  | TokenAndLogits
  | TolerancesInvalid
  | RankMismatch "int list" "int list"
  | ShapeMismatch "int list" "int list"
  | DistributedUndecodable tensor_error
  | ReferenceUndecodable tensor_error
  | InfinityMismatch nat
  | ValueDiffers nat float64 float64 float64 float64

definition elementBytes :: "string \<Rightarrow> nat option" where
  "elementBytes dtype =
     (if dtype = ''bfloat16'' \<or> dtype = ''float16'' then Some 2
      else if dtype = ''float32'' then Some 4 else None)"

definition decodeElement :: "string \<Rightarrow> byte list \<Rightarrow> float64" where
  "decodeElement dtype b =
     (if dtype = ''bfloat16'' then float32frombits (push_bit 16 (ucast (uint16LE b)))
      else if dtype = ''float16'' then float16 (uint16LE b)
      else float32frombits (uint32LE b))"

definition finalValues :: "wire_tensor \<Rightarrow> int \<Rightarrow> tensor_error + float64 list" where
  "finalValues tensor number =
     (case elementBytes (wt_dtype tensor) of
        None \<Rightarrow> Inl (UnsupportedDType (wt_dtype tensor))
      | Some width \<Rightarrow>
          let required = wrap_int (number * int width); data = wt_data tensor in
          if number \<le> 0 \<or> go_div required (int width) \<noteq> number \<or> int (length data) < required \<or>
             length data mod width \<noteq> 0
          then Inl (InvalidPayload (wt_dtype tensor) (length data))
          else Inr (map (\<lambda>index. decodeElement (wt_dtype tensor)
                (element width (drop (length data - nat required) data) index)) [0..<nat number]))"

text \<open>The greatest value, the first one among equals.\<close>

fun greedyFrom :: "nat \<Rightarrow> nat \<Rightarrow> float64 \<Rightarrow> float64 list \<Rightarrow> tensor_error + nat" where
  "greedyFrom index bestIndex bestValue [] = Inr bestIndex"
| "greedyFrom index bestIndex bestValue (v # rest) =
     (if v = NaN then Inl (NaNAtIndex index)
      else if float_less bestValue v then greedyFrom (Suc index) index v rest
      else greedyFrom (Suc index) bestIndex bestValue rest)"

definition maxInt32 :: nat where
  "maxInt32 = 2147483647"

definition greedyToken :: "wire_tensor \<Rightarrow> tensor_error + i32" where
  "greedyToken tensor =
     (if wt_shape tensor = [] then Inl NoDimensions
      else and_then (finalValues tensor (last (wt_shape tensor))) (\<lambda>values.
        if hd values = NaN then Inl (NaNAtIndex 0)
        else and_then (greedyFrom 1 0 (hd values) (tl values)) (\<lambda>bestIndex.
          if maxInt32 < bestIndex then Inl (TokenBeyondInt32 bestIndex)
          else Inr (word_of_nat bestIndex))))"

definition sampledToken :: "i32 option \<Rightarrow> wire_tensor \<Rightarrow> tensor_error + i32" where
  "sampledToken sampled logits =
     (case sampled of
        None \<Rightarrow> if wt_data logits = [] then Inl NeitherTokenNorLogits else greedyToken logits
      | Some token \<Rightarrow>
          if token <s 0 then Inl (NegativeToken token)
          else if wt_data logits \<noteq> [] then Inl TokenAndLogits
          else Inr token)"

section \<open>Comparison\<close>

record difference =
  df_absolute :: float64
  df_relative :: float64

definition noDifference :: difference where
  "noDifference = \<lparr>df_absolute = Finite 0, df_relative = Finite 0\<rparr>"

definition tolerancesInvalid :: "float64 \<Rightarrow> float64 \<Rightarrow> bool" where
  "tolerancesInvalid rtol atol \<longleftrightarrow>
     float_less rtol (Finite 0) \<or> float_less atol (Finite 0) \<or> rtol = NaN \<or> atol = NaN \<or>
     is_infinite rtol \<or> is_infinite atol"

definition smallestNonzeroFloat32 :: float64 where
  "smallestNonzeroFloat32 = Finite (1 / 2 ^ 149)"

text \<open>
  The loop over the vocabulary. The differences found so far are returned with the error,
  as the source does.
\<close>

fun compareValues ::
  "float64 \<Rightarrow> float64 \<Rightarrow> nat \<Rightarrow> difference \<Rightarrow> float64 list \<Rightarrow> float64 list \<Rightarrow> difference \<times> tensor_error option" where
  "compareValues rtol atol index d (actual # got) (expected # want) =
     (if actual = NaN \<or> expected = NaN then (d, Some (NaNAtIndex index))
      else if is_infinite actual \<or> is_infinite expected
      then if actual = expected then compareValues rtol atol (Suc index) d got want
           else (d, Some (InfinityMismatch index))
      else
        let absolute = float_abs (float_sub actual expected);
            relative = float_div absolute (float_max (float_abs expected) smallestNonzeroFloat32);
            d' = \<lparr>df_absolute = float_max (df_absolute d) absolute,
                  df_relative = float_max (df_relative d) relative\<rparr>;
            tolerance = float_add atol (float_mul rtol (float_abs expected))
        in if float_less tolerance absolute
           then (d', Some (ValueDiffers index actual expected absolute tolerance))
           else compareValues rtol atol (Suc index) d' got want)"
| "compareValues rtol atol index d got want = (d, None)"

definition compareFinalLogits ::
  "wire_tensor \<Rightarrow> wire_tensor \<Rightarrow> float64 \<Rightarrow> float64 \<Rightarrow> difference \<times> tensor_error option" where
  "compareFinalLogits got want rtol atol =
     (if tolerancesInvalid rtol atol then (noDifference, Some TolerancesInvalid)
      else if wt_shape got = [] \<or> wt_shape want = [] then (noDifference, Some NoDimensions)
      else if length (wt_shape got) \<noteq> length (wt_shape want)
      then (noDifference, Some (RankMismatch (wt_shape got) (wt_shape want)))
      else if wt_shape got \<noteq> wt_shape want
      then (noDifference, Some (ShapeMismatch (wt_shape got) (wt_shape want)))
      else let vocabulary = last (wt_shape got) in
        case finalValues got vocabulary of
          Inl e \<Rightarrow> (noDifference, Some (DistributedUndecodable e))
        | Inr gotValues \<Rightarrow>
        case finalValues want vocabulary of
          Inl e \<Rightarrow> (noDifference, Some (ReferenceUndecodable e))
        | Inr wantValues \<Rightarrow> compareValues rtol atol 0 noDifference gotValues wantValues)"

record logit_metrics =
  lm_comparisons :: int
  lm_maxAbsoluteDifference :: float64
  lm_maxRelativeDifference :: float64

definition compareLogits ::
  "wire_tensor \<Rightarrow> wire_tensor \<Rightarrow> float64 \<Rightarrow> float64 \<Rightarrow> logit_metrics \<Rightarrow> logit_metrics \<times> tensor_error option" where
  "compareLogits got want rtol atol m =
     (let (d, err) = compareFinalLogits got want rtol atol;
          m' = m\<lparr>lm_maxAbsoluteDifference := float_max (lm_maxAbsoluteDifference m) (df_absolute d),
                 lm_maxRelativeDifference := float_max (lm_maxRelativeDifference m) (df_relative d)\<rparr>
      in (if err = None then m'\<lparr>lm_comparisons := lm_comparisons m' + 1\<rparr> else m', err))"

section \<open>Order\<close>

text \<open>NaN is put below every number; the comparisons of the source exclude it.\<close>

fun float_position :: "float64 \<Rightarrow> nat" where
  "float_position NaN = 0"
| "float_position (Infinite negative) = (if negative then 1 else 3)"
| "float_position (Finite x) = 2"

instantiation float64 :: linorder
begin

definition less_eq_float64 :: "float64 \<Rightarrow> float64 \<Rightarrow> bool" where
  "x \<le> y \<longleftrightarrow> (case (x, y) of (Finite a, Finite b) \<Rightarrow> a \<le> b | _ \<Rightarrow> float_position x \<le> float_position y)"

definition less_float64 :: "float64 \<Rightarrow> float64 \<Rightarrow> bool" where
  "(x :: float64) < y \<longleftrightarrow> x \<le> y \<and> \<not> y \<le> x"

instance
proof
  fix x y z :: float64
  show "x < y \<longleftrightarrow> x \<le> y \<and> \<not> y \<le> x" by (rule less_float64_def)
  show "x \<le> x" by (auto simp: less_eq_float64_def split: float64.splits)
  show "x \<le> y \<Longrightarrow> y \<le> z \<Longrightarrow> x \<le> z"
    by (auto simp: less_eq_float64_def split: float64.splits if_splits)
  show "x \<le> y \<Longrightarrow> y \<le> x \<Longrightarrow> x = y"
    by (auto simp: less_eq_float64_def split: float64.splits if_splits)
  show "x \<le> y \<or> y \<le> x"
    by (auto simp: less_eq_float64_def split: float64.splits)
qed

end

lemma float_less_iff: "float_less x y \<longleftrightarrow> x < y \<and> x \<noteq> NaN"
  by (cases "(x, y)" rule: float_less.cases) (auto simp: less_float64_def less_eq_float64_def)

section \<open>Rounding\<close>

lemma round_even_of_int [simp]: "round_even (of_int n) = n"
  by (simp add: round_even_def)

lemma round_even_error: "\<bar>of_int (round_even x) - x\<bar> \<le> 1 / 2"
proof -
  have "of_int \<lfloor>x\<rfloor> \<le> x" "x < of_int \<lfloor>x\<rfloor> + 1" by linarith+
  then show ?thesis by (auto simp: round_even_def Let_def)
qed

lemma round_even_nonneg: "0 \<le> x \<Longrightarrow> 0 \<le> round_even x"
  by (auto simp: round_even_def Let_def)

lemma bitlen_powi:
  assumes "0 < n"
  shows "2 powi (bitlen n - 1) \<le> (of_int n :: rat) \<and> (of_int n :: rat) < 2 powi bitlen n"
proof -
  have b: "2 ^ nat (bitlen n - 1) \<le> n \<and> n < 2 ^ nat (bitlen n)"
    by (rule bitlen_bounds [OF assms])
  have l: "1 \<le> bitlen n"
    using assms bitlen_eq_zero_iff [of n] bitlen_nonneg [of n] by linarith
  have "of_int (2 ^ nat (bitlen n - 1)) \<le> (of_int n :: rat)"
    using b by (simp only: of_int_le_iff)
  moreover have "(of_int n :: rat) < of_int (2 ^ nat (bitlen n))"
    using b by (simp only: of_int_less_iff)
  ultimately show ?thesis
    using l by (simp add: power_int_def)
qed

text \<open>The exponent of the leading bit is what its name says.\<close>

lemma magnitude_bounds:
  assumes "0 < x"
  shows "2 powi (magnitude x) \<le> x \<and> x < 2 powi (magnitude x + 1)"
proof -
  obtain p q where pq: "quotient_of x = (p, q)" by fastforce
  have q: "0 < q" and x: "x = of_int p / of_int q"
    using quotient_of_denom_pos [OF pq] quotient_of_div [OF pq] by auto
  have p: "0 < p" using assms x q by (simp add: zero_less_divide_iff)
  define e where "e = bitlen p - bitlen q"
  have P: "2 powi (bitlen p - 1) \<le> (of_int p :: rat)" "(of_int p :: rat) < 2 powi bitlen p"
    and Q: "2 powi (bitlen q - 1) \<le> (of_int q :: rat)" "(of_int q :: rat) < 2 powi bitlen q"
    using bitlen_powi [OF p] bitlen_powi [OF q] by auto
  have pos: "0 < (of_int p :: rat)" "0 < (of_int q :: rat)" using p q by simp_all
  have "2 powi (bitlen p - 1) / 2 powi bitlen q \<le> x"
    unfolding x by (rule frac_le) (use P Q pos in auto)
  moreover have "2 powi (bitlen p - 1) / 2 powi bitlen q = (2 :: rat) powi (e - 1)"
    by (simp add: e_def power_int_diff)
  moreover have "x < 2 powi bitlen p / 2 powi (bitlen q - 1)"
    unfolding x by (rule frac_less) (use P Q pos in auto)
  moreover have "2 powi bitlen p / 2 powi (bitlen q - 1) = (2 :: rat) powi (e + 1)"
    by (simp add: e_def power_int_diff power_int_add)
  moreover have "magnitude x = (if 2 powi e \<le> x then e else e - 1)"
    by (simp add: magnitude_def pq e_def)
  ultimately show ?thesis by auto
qed

lemma round64_zero [simp]: "round64 0 = Finite 0"
  by (simp add: round64_def)

lemma round64_nonneg: "0 \<le> x \<Longrightarrow> Finite 0 \<le> round64 x"
proof -
  assume "0 \<le> x"
  then have "0 \<le> round_even (\<bar>x\<bar> / unit_in_last_place \<bar>x\<bar>)"
    by (intro round_even_nonneg) (simp add: unit_in_last_place_def)
  with \<open>0 \<le> x\<close> show ?thesis
    by (auto simp: round64_def Let_def less_eq_float64_def unit_in_last_place_def)
qed

lemma float_sub_self: "x \<noteq> NaN \<Longrightarrow> \<not> is_infinite x \<Longrightarrow> float_sub x x = Finite 0"
  by (cases x) (auto simp: float_sub_def)

lemma tolerance_nonneg:
  assumes "\<not> tolerancesInvalid rtol atol" "x \<noteq> NaN" "\<not> is_infinite x"
  shows "\<not> float_less (float_add atol (float_mul rtol (float_abs x))) (Finite 0)"
proof -
  obtain r a v where f: "rtol = Finite r" "atol = Finite a" "x = Finite v" "0 \<le> r" "0 \<le> a"
    using assms by (cases rtol; cases atol; cases x) (auto simp: tolerancesInvalid_def)
  have "Finite 0 \<le> round64 (r * \<bar>v\<bar>)" by (rule round64_nonneg) (simp add: f)
  then consider m where "round64 (r * \<bar>v\<bar>) = Finite m" "0 \<le> m" | "round64 (r * \<bar>v\<bar>) = Infinite False"
    by (cases "round64 (r * \<bar>v\<bar>)") (auto simp: less_eq_float64_def split: if_splits)
  then show ?thesis
    by cases (use f round64_nonneg [of "a + _"] in \<open>auto simp: float_less_iff not_less less_eq_float64_def [of _ "Infinite _"]\<close>)
qed

section \<open>Bytes and tokens\<close>

lemma uint32LE_littleEndian32 [simp]: "uint32LE (littleEndian32 w) = w"
proof (rule bit_word_eqI)
  fix n :: nat
  assume "n < LENGTH(32)"
  then consider "n < 8" | "8 \<le> n \<and> n < 16" | "16 \<le> n \<and> n < 24" | "24 \<le> n \<and> n < 32"
    by fastforce
  then show "bit (uint32LE (littleEndian32 w)) n = bit w n"
    by cases (auto simp: uint32LE_def littleEndian32_def bit_simps)
qed

lemma length_littleEndian32 [simp]: "length (littleEndian32 w) = 4"
  by (simp add: littleEndian32_def)

lemma length_concat_littleEndian32 [simp]: "length (concat (map littleEndian32 ts)) = 4 * length ts"
  by (induction ts) auto

lemma element_littleEndian32:
  "i < length ts \<Longrightarrow> element 4 (concat (map littleEndian32 ts)) i = littleEndian32 (ts ! i)"
proof (induction ts arbitrary: i)
  case (Cons t ts)
  then show ?case by (cases i) (auto simp: element_def)
qed simp

lemma tokens_round_trip:
  "map (\<lambda>i. uint32LE (element 4 (wt_data (tokenTensor ts)) i)) [0..<length ts] = ts"
  by (rule nth_equalityI) (auto simp: tokenTensor_def element_littleEndian32)

section \<open>Greedy sampling\<close>

definition least_argmax :: "float64 list \<Rightarrow> nat \<Rightarrow> bool" where
  "least_argmax values k \<longleftrightarrow>
     k < length values \<and> (\<forall>v \<in> set values. v \<le> values ! k) \<and> (\<forall>j < k. values ! j < values ! k)"

lemma least_argmax_unique: "least_argmax vs k \<Longrightarrow> least_argmax vs l \<Longrightarrow> k = l"
  unfolding least_argmax_def by (metis linorder_neqE_nat nth_mem not_less)

lemma least_argmax_snoc:
  assumes "least_argmax vs k"
  shows "least_argmax (vs @ [v]) (if vs ! k < v then length vs else k)"
proof (cases "vs ! k < v")
  case True
  then show ?thesis
    using assms by (auto simp: least_argmax_def nth_append intro: le_less_trans less_imp_le)
next
  case False
  then show ?thesis
    using assms by (auto simp: least_argmax_def nth_append not_less)
qed

lemma greedyFrom_Inr:
  "least_argmax seen b \<Longrightarrow> NaN \<notin> set seen \<Longrightarrow> v = seen ! b \<Longrightarrow>
   greedyFrom (length seen) b v rest = Inr k \<longleftrightarrow> NaN \<notin> set rest \<and> least_argmax (seen @ rest) k"
proof (induction rest arbitrary: seen b v)
  case Nil
  then show ?case using least_argmax_unique by auto
next
  case (Cons u rest)
  have b: "b < length seen"
    using Cons.prems by (simp add: least_argmax_def)
  then have v: "v \<noteq> NaN" using Cons.prems nth_mem by metis
  show ?case
  proof (cases "u = NaN")
    case False
    note less = float_less_iff [of v u]
    have IH: "greedyFrom (Suc (length seen)) b' v' rest = Inr k \<longleftrightarrow>
        NaN \<notin> set rest \<and> least_argmax (seen @ u # rest) k"
      if "b' = (if v < u then length seen else b)" "v' = (seen @ [u]) ! b'" for b' v'
      using Cons.IH [of "seen @ [u]" b' v'] least_argmax_snoc [OF Cons.prems(1), of u] Cons.prems
        that False by simp
    show ?thesis
      using False b v less IH [of "length seen" u] IH [of b v] Cons.prems by (auto simp: nth_append)
  qed auto
qed

lemma finalValues_length: "finalValues t n = Inr vs \<Longrightarrow> 0 < n \<and> length vs = nat n"
  by (auto simp: finalValues_def Let_def split: option.splits if_splits)

lemma greedyToken_Inr:
  "greedyToken t = Inr w \<longleftrightarrow>
   wt_shape t \<noteq> [] \<and>
   (\<exists>vals. finalValues t (last (wt_shape t)) = Inr vals \<and> NaN \<notin> set vals \<and>
      (\<exists>k \<le> maxInt32. least_argmax vals k \<and> w = word_of_nat k))"
proof (cases "wt_shape t = []")
  case False
  show ?thesis
  proof (cases "finalValues t (last (wt_shape t))")
    case (Inr vals)
    then have "vals \<noteq> []" using finalValues_length by fastforce
    then obtain v vs where v: "vals = v # vs" by (cases vals) auto
    have "greedyFrom 1 0 v vs = Inr k \<longleftrightarrow> NaN \<notin> set vs \<and> least_argmax vals k" if "v \<noteq> NaN" for k
      using greedyFrom_Inr [of "[v]" 0 v vs k] that by (auto simp: v least_argmax_def)
    then show ?thesis
      using False Inr v by (auto simp: greedyToken_def and_then_Inr not_less)
  qed (use False in \<open>auto simp: greedyToken_def\<close>)
qed (simp add: greedyToken_def)

section \<open>Tolerance\<close>

definition within_tolerance :: "float64 \<Rightarrow> float64 \<Rightarrow> float64 \<Rightarrow> float64 \<Rightarrow> bool" where
  "within_tolerance rtol atol actual expected \<longleftrightarrow>
     actual \<noteq> NaN \<and> expected \<noteq> NaN \<and>
     (if is_infinite actual \<or> is_infinite expected then actual = expected
      else \<not> float_less (float_add atol (float_mul rtol (float_abs expected)))
             (float_abs (float_sub actual expected)))"

lemma compareValues_None:
  "length gs = length ws \<Longrightarrow>
   snd (compareValues rtol atol index d gs ws) = None \<longleftrightarrow> list_all2 (within_tolerance rtol atol) gs ws"
  by (induction rtol atol index d gs ws rule: compareValues.induct)
    (auto simp: within_tolerance_def Let_def)

lemma within_tolerance_refl:
  assumes "\<not> tolerancesInvalid rtol atol" "x \<noteq> NaN"
  shows "within_tolerance rtol atol x x"
  using assms tolerance_nonneg [OF assms] float_sub_self [of x] by (auto simp: within_tolerance_def)

lemma compare_None:
  "snd (compareFinalLogits got want rtol atol) = None \<longleftrightarrow>
   \<not> tolerancesInvalid rtol atol \<and> wt_shape got \<noteq> [] \<and> wt_shape want = wt_shape got \<and>
   (\<exists>gs ws. finalValues got (last (wt_shape got)) = Inr gs \<and> finalValues want (last (wt_shape got)) = Inr ws \<and>
      list_all2 (within_tolerance rtol atol) gs ws)"
proof (cases "finalValues got (last (wt_shape got))")
  case Inl
  then show ?thesis by (auto simp: compareFinalLogits_def Let_def)
next
  case gs: (Inr gs)
  show ?thesis
  proof (cases "finalValues want (last (wt_shape got))")
    case Inl
    with gs show ?thesis by (auto simp: compareFinalLogits_def Let_def)
  next
    case ws: (Inr ws)
    have "length gs = length ws" using finalValues_length [OF gs] finalValues_length [OF ws] by simp
    with gs ws show ?thesis
      using compareValues_None [of gs ws rtol atol 0 noDifference]
      by (auto simp: compareFinalLogits_def Let_def)
  qed
qed

text \<open>A tensor that greedy sampling accepts agrees with itself, whatever the tolerances.\<close>

lemma compare_self:
  assumes "\<not> tolerancesInvalid rtol atol" "greedyToken t = Inr w"
  shows "snd (compareFinalLogits t t rtol atol) = None"
proof -
  obtain vals where "wt_shape t \<noteq> []" "finalValues t (last (wt_shape t)) = Inr vals" "NaN \<notin> set vals"
    using assms(2) by (auto simp: greedyToken_Inr)
  moreover have "list_all2 (within_tolerance rtol atol) vals vals"
    by (rule list.rel_refl_strong) (use within_tolerance_refl [OF assms(1)] \<open>NaN \<notin> set vals\<close> in metis)
  ultimately show ?thesis using assms(1) by (auto simp: compare_None)
qed

section \<open>Properties\<close>

text \<open>
  C23: Greedy sampling returns the token whose logit at the last position is the greatest,
  the first one among equals. It fails exactly when the tensor has no dimension, its payload
  does not hold the vocabulary it declares, a logit is NaN, or the token exceeds an
  \<open>int32\<close>.
\<close>

theorem greedy_token_is_least_argmax:
  "greedyToken t = Inr w \<longleftrightarrow>
   wt_shape t \<noteq> [] \<and>
   (\<exists>vals. finalValues t (last (wt_shape t)) = Inr vals \<and> NaN \<notin> set vals \<and>
      (\<exists>k \<le> maxInt32. least_argmax vals k \<and> w = word_of_nat k))"
  by (rule greedyToken_Inr)

text \<open>
  C36: The comparison with a reference accepts exactly the pairs of tensors of one shape
  whose last positions agree at every vocabulary index: equal infinities, or finite values
  whose rounded difference does not exceed the absolute plus the relative tolerance. NaN
  never agrees, and tolerances that are not finite and non-negative are refused.
\<close>

theorem compare_accepts_exactly_within_tolerance:
  "snd (compareFinalLogits got want rtol atol) = None \<longleftrightarrow>
   \<not> tolerancesInvalid rtol atol \<and> wt_shape got \<noteq> [] \<and> wt_shape want = wt_shape got \<and>
   (\<exists>gs ws. finalValues got (last (wt_shape got)) = Inr gs \<and> finalValues want (last (wt_shape got)) = Inr ws \<and>
      list_all2 (within_tolerance rtol atol) gs ws)"
  by (rule compare_None)

text \<open>
  The token tensor of a prompt holds every token in four little-endian bytes: reading
  the elements back gives the tokens, and the shape is one row of them.
\<close>

theorem token_tensor_round_trip:
  "map (\<lambda>i. uint32LE (element 4 (wt_data (tokenTensor ts)) i)) [0..<length ts] = ts \<and>
   length (wt_data (tokenTensor ts)) = 4 * length ts \<and> wt_shape (tokenTensor ts) = [1, int (length ts)]"
  using tokens_round_trip [of ts] by (simp add: tokenTensor_def)

end
