(* ===== verification/Worker.thy ===== *)
theory Worker
  imports Tensor
begin

text \<open>
  The requests a worker answers and the calls that carry them (\<open>internal/workerproc\<close>:
  the frame types of \<open>persistent.go\<close>, \<open>state.go\<close>, \<open>deadline.go\<close>), and the actions of the
  client side as functions from the calls made so far to the calls made afterwards. What a
  worker answers, when it does, and whether the context of a request has ended belong to
  the environment, which may depend on every call before.
\<close>

section \<open>Frames\<close>

record load_shard_request =
  lsr_modelID :: string
  lsr_shardID :: string
  lsr_checkpointFingerprint :: string
  lsr_layerStart :: int
  lsr_layerEnd :: int
  lsr_ownsInput :: bool
  lsr_ownsOutput :: bool

record sequence_request =
  sqr_shardID :: string
  sqr_sequenceID :: string
  sqr_ownerID :: string

record forward_request =
  fwr_shardID :: string
  fwr_sequenceID :: string
  fwr_position :: u64
  fwr_inputKind :: string
  fwr_input :: wire_tensor
  fwr_returnSampledToken :: bool

record text_request =
  txr_modelID :: string
  txr_text :: "string option"
  txr_tokenIDs :: "i32 list"
  txr_addSpecialTokens :: "bool option"
  txr_skipSpecialTokens :: "bool option"

text \<open>\<open>PersistentShardRequest\<close> and \<open>PersistentModelRequest\<close> hold one identifier each.\<close>

record persistent_request =
  req_requestID :: string
  req_command :: string
  req_deadlineUnixMillis :: int
  req_loadShard :: "load_shard_request option"
  req_shard :: "string option"
  req_sequence :: "sequence_request option"
  req_forward :: "forward_request option"
  req_model :: "string option"
  req_text :: "text_request option"

record stage_memory =
  mem_activeBytes :: int
  mem_cacheBytes :: int
  mem_peakBytes :: int
  mem_processPhysicalBytes :: u64
  mem_processPeakPhysicalBytes :: u64

record model_result =
  mdl_modelID :: string
  mdl_modelType :: string
  mdl_layerCount :: int
  mdl_checkpointFingerprint :: string
  mdl_checkpointBytes :: u64

record text_result =
  txt_modelID :: string
  txt_tokenIDs :: "i32 list"
  txt_text :: "string option"
  txt_eosTokenID :: "i32 option"

record forward_result =
  fwd_shardID :: string
  fwd_sequenceID :: string
  fwd_operation :: string
  fwd_position :: u64
  fwd_nextPosition :: u64
  fwd_output :: wire_tensor
  fwd_sampledTokenID :: "i32 option"
  fwd_computeMicros :: u64
  fwd_kvCacheBytes :: int
  fwd_memory :: stage_memory

record shard_snapshot =
  shs_shardID :: string
  shs_modelID :: string
  shs_modelType :: string
  shs_checkpointFingerprint :: string
  shs_layerStart :: int
  shs_layerEnd :: int
  shs_ownsInput :: bool
  shs_ownsOutput :: bool
  shs_weightKeyCount :: int
  shs_openSequenceCount :: int
  shs_maxOpenSequenceCount :: int
  shs_forwardCount :: int
  shs_kvCacheBytes :: int
  shs_retainedBytes :: int
  shs_loadedMemory :: stage_memory

record worker_state =
  wst_loadedShards :: "shard_snapshot list"
  wst_loadCount :: int
  wst_forwardCount :: int
  wst_kvCacheBytes :: int
  wst_retainedBytes :: int
  wst_retainedByteBudget :: int
  wst_maxOpenSequencesPerShard :: int
  wst_physicalMemoryBytes :: u64
  wst_mlxMemoryLimitBytes :: int
  wst_mlxCacheLimitBytes :: int
  wst_memory :: stage_memory

record worker_result =
  wre_status :: string
  wre_shard :: "shard_snapshot option"
  wre_forward :: "forward_result option"
  wre_model :: "model_result option"
  wre_text :: "text_result option"
  wre_state :: "worker_state option"
  wre_shutdown :: bool

record persistent_response =
  rsp_requestID :: string
  rsp_ok :: bool
  rsp_error :: string
  rsp_workerObservationSequence :: u64
  rsp_result :: "worker_result option"

text \<open>A request with no payload, as the source's composite literals start from.\<close>

definition plainRequest :: "string \<Rightarrow> persistent_request" where
  "plainRequest command =
     \<lparr>req_requestID = [], req_command = command, req_deadlineUnixMillis = 0, req_loadShard = None,
      req_shard = None, req_sequence = None, req_forward = None, req_model = None, req_text = None\<rparr>"

section \<open>Errors of a call\<close>

text \<open>
  A worker that answers rejects a request with a message; any other failure leaves open
  whether the request was applied. \<open>RequestNotDispatched\<close> marks the ones that certainly
  were not sent.
\<close>

datatype call_error =
    WorkerResponse string string
  | ContextCanceled
  | ContextDeadlineExceeded
  | InferenceDeadlineRequired string
  | CommandEmpty
  | RequestNotDispatched call_error
  | TransportFailed string
  | WorkerStopped

fun isWorkerRejection :: "call_error \<Rightarrow> bool" where
  "isWorkerRejection (WorkerResponse requestID message) = True"
| "isWorkerRejection (RequestNotDispatched e) = isWorkerRejection e"
| "isWorkerRejection e = False"

fun isNotDispatched :: "call_error \<Rightarrow> bool" where
  "isNotDispatched (RequestNotDispatched e) = True"
| "isNotDispatched e = False"

fun isCanceled :: "call_error \<Rightarrow> bool" where
  "isCanceled ContextCanceled = True"
| "isCanceled (RequestNotDispatched e) = isCanceled e"
| "isCanceled e = False"

fun isDeadlineExceeded :: "call_error \<Rightarrow> bool" where
  "isDeadlineExceeded ContextDeadlineExceeded = True"
| "isDeadlineExceeded (RequestNotDispatched e) = isDeadlineExceeded e"
| "isDeadlineExceeded e = False"

definition checkedResponse :: "persistent_response \<Rightarrow> call_error + persistent_response" where
  "checkedResponse response =
     (if \<not> rsp_ok response then Inl (WorkerResponse (rsp_requestID response) (rsp_error response))
      else Inr response)"

section \<open>Deadlines\<close>

definition unixMilli :: "instant \<Rightarrow> int" where
  "unixMilli t = t div millisecond"

definition timeOfUnixMilli :: "int \<Rightarrow> instant" where
  "timeOfUnixMilli millis = millis * millisecond"

definition wireDeadlineUnixMillis :: "instant \<Rightarrow> int" where
  "wireDeadlineUnixMillis deadline =
     (let millis = unixMilli deadline in if timeOfUnixMilli millis < deadline then millis + 1 else millis)"

definition isInferenceCommand :: "string \<Rightarrow> bool" where
  "isInferenceCommand command \<longleftrightarrow> command = ''forward'' \<or> command = ''prefill'' \<or> command = ''decode''"

text \<open>A context: whether it has ended, and its deadline if it has one.\<close>

record request_context =
  ctx_err :: "call_error option"
  ctx_deadline :: "instant option"

definition contextCompletionError :: "instant \<Rightarrow> request_context \<Rightarrow> call_error option" where
  "contextCompletionError now ctx =
     (case ctx_err ctx of
        Some e \<Rightarrow> Some e
      | None \<Rightarrow>
          case ctx_deadline ctx of
            Some deadline \<Rightarrow> if deadline \<le> now then Some ContextDeadlineExceeded else None
          | None \<Rightarrow> None)"

definition requestContext ::
  "instant \<Rightarrow> request_context \<Rightarrow> persistent_request \<Rightarrow> call_error + request_context \<times> persistent_request" where
  "requestContext now parent request =
     (case ctx_err parent of
        Some e \<Rightarrow> Inl e
      | None \<Rightarrow>
          let wire = req_deadlineUnixMillis request; wireDeadline = timeOfUnixMilli wire;
              (deadline, fromContext) =
                (if 0 < wire then
                   case ctx_deadline parent of
                     None \<Rightarrow> (Some wireDeadline, False)
                   | Some d \<Rightarrow> if wireDeadline < d then (Some wireDeadline, False) else (Some d, True)
                 else (ctx_deadline parent, ctx_deadline parent \<noteq> None))
          in if isInferenceCommand (req_command request) \<and> ctx_deadline parent = None \<and> wire \<le> 0
             then Inl (InferenceDeadlineRequired (req_command request))
             else case deadline of
               None \<Rightarrow> Inr (parent, request)
             | Some d \<Rightarrow>
                 if d \<le> now then Inl ContextDeadlineExceeded
                 else Inr (parent\<lparr>ctx_deadline := Some d\<rparr>,
                   request\<lparr>req_deadlineUnixMillis := if fromContext then wireDeadlineUnixMillis d else unixMilli d\<rparr>))"

section \<open>The environment\<close>

type_synonym caller = nat
type_synonym answer = "call_error + persistent_response"

text \<open>
  The contexts a request is sent in: that of the operation, one that also ends at the
  deadline of a forward step, and the one of a cleanup, which outlives the operation.
\<close>

datatype call_context = OperationContext | ForwardContext instant | CleanupContext

record worker_call =
  wcl_context :: call_context
  wcl_caller :: caller
  wcl_request :: persistent_request
  wcl_answer :: answer

type_synonym call_log = "worker_call list"

text \<open>
  What the program cannot decide itself, each as a function of the calls made so far: what a
  caller answers to a request, the clock, whether the context of the operation has ended, and
  the random bytes (\<open>None\<close> where reading them fails). The context's deadline is fixed.
\<close>

record world =
  wld_answer :: "call_log \<Rightarrow> call_context \<Rightarrow> caller \<Rightarrow> persistent_request \<Rightarrow> answer"
  wld_now :: "call_log \<Rightarrow> instant"
  wld_err :: "call_log \<Rightarrow> call_error option"
  wld_deadline :: "instant option"
  wld_random :: "call_log \<Rightarrow> nat \<Rightarrow> byte list option"

definition hexDigits :: "byte \<Rightarrow> string" where
  "hexDigits b = [''0123456789abcdef'' ! (unat b div 16), ''0123456789abcdef'' ! (unat b mod 16)]"

definition hexEncode :: "byte list \<Rightarrow> string" where
  "hexEncode bytes = concat (map hexDigits bytes)"

section \<open>Actions\<close>

text \<open>
  An action extends the log of calls and returns a result. \<open>doing\<close> is a call followed by
  the early return on its error.
\<close>

type_synonym ('e, 'a) action = "call_log \<Rightarrow> call_log \<times> ('e + 'a)"

definition give :: "'a \<Rightarrow> ('e, 'a) action" where
  "give x = (\<lambda>calls. (calls, Inr x))"

definition failing :: "'e \<Rightarrow> ('e, 'a) action" where
  "failing e = (\<lambda>calls. (calls, Inl e))"

definition doing :: "('e, 'a) action \<Rightarrow> ('a \<Rightarrow> ('e, 'b) action) \<Rightarrow> ('e, 'b) action" where
  "doing m k = (\<lambda>calls. case m calls of (calls', Inl e) \<Rightarrow> (calls', Inl e) | (calls', Inr x) \<Rightarrow> k x calls')"

definition wrapping :: "('e \<Rightarrow> 'f) \<Rightarrow> ('e, 'a) action \<Rightarrow> ('f, 'a) action" where
  "wrapping f m = (\<lambda>calls. case m calls of (calls', r) \<Rightarrow> (calls', map_error f r))"

definition outcome :: "'e + 'a \<Rightarrow> ('e, 'a) action" where
  "outcome r = (\<lambda>calls. (calls, r))"

text \<open>A loop over a slice that returns at the first error, and the wall time of an action.\<close>

fun each :: "('a \<Rightarrow> ('e, 'b) action) \<Rightarrow> 'a list \<Rightarrow> ('e, 'b list) action" where
  "each f [] = give []"
| "each f (x # xs) = doing (f x) (\<lambda>y. doing (each f xs) (\<lambda>ys. give (y # ys)))"

definition microseconds :: "duration \<Rightarrow> int" where
  "microseconds d = go_div d 1000"

definition timed :: "world \<Rightarrow> ('e, 'a) action \<Rightarrow> ('e, int \<times> 'a) action" where
  "timed w m =
     (\<lambda>calls. case m calls of (calls', r) \<Rightarrow>
        (calls', and_then r (\<lambda>x. Inr (microseconds (wld_now w calls' - wld_now w calls), x))))"

text \<open>\<open>caller.Call\<close>.\<close>

definition calling ::
  "world \<Rightarrow> call_context \<Rightarrow> caller \<Rightarrow> persistent_request \<Rightarrow> (call_error, persistent_response) action" where
  "calling w ctx c request =
     (\<lambda>calls. let a = wld_answer w calls ctx c request
       in (calls @ [\<lparr>wcl_context = ctx, wcl_caller = c, wcl_request = request, wcl_answer = a\<rparr>], a))"

section \<open>State of a worker\<close>

record state_observation =
  sob_state :: worker_state
  sob_observationSequence :: u64

datatype state_error =
    CallerRequired
  | StateCallFailed call_error
  | NoWorkerSnapshot

definition observeState :: "world \<Rightarrow> caller option \<Rightarrow> (state_error, state_observation) action" where
  "observeState w callerOrNil =
     (case callerOrNil of
        None \<Rightarrow> failing CallerRequired
      | Some c \<Rightarrow>
          doing (wrapping StateCallFailed (calling w OperationContext c (plainRequest ''state''))) (\<lambda>response.
            case Option.bind (rsp_result response) wre_state of
              None \<Rightarrow> failing NoWorkerSnapshot
            | Some s \<Rightarrow> give \<lparr>sob_state = s,
                sob_observationSequence = rsp_workerObservationSequence response\<rparr>))"

definition workerStateOf :: "world \<Rightarrow> caller option \<Rightarrow> (state_error, worker_state) action" where
  "workerStateOf w callerOrNil = doing (observeState w callerOrNil) (\<lambda>observation. give (sob_state observation))"

section \<open>What an action sends\<close>

text \<open>
  \<open>emits P m\<close>: whatever happened before and whatever the environment answers, \<open>m\<close> only
  appends calls that satisfy \<open>P\<close>.
\<close>

definition emits :: "(worker_call \<Rightarrow> bool) \<Rightarrow> (call_log \<Rightarrow> call_log \<times> 'r) \<Rightarrow> bool" where
  "emits P m \<longleftrightarrow> (\<forall>calls. \<exists>new. fst (m calls) = calls @ new \<and> (\<forall>c \<in> set new. P c))"

named_theorems emits_intros

lemma emits_leaf [emits_intros]:
  "emits P (give x)" "emits P (failing e)" "emits P (outcome r)"
  by (auto simp: emits_def give_def failing_def outcome_def)

lemma emits_wrapping [emits_intros]: "emits P m \<Longrightarrow> emits P (wrapping f m)"
  by (auto simp: emits_def wrapping_def split: prod.splits) (metis fst_conv)

lemma emits_calling [emits_intros]:
  "(\<And>a. P \<lparr>wcl_context = ctx, wcl_caller = c, wcl_request = request, wcl_answer = a\<rparr>) \<Longrightarrow>
   emits P (calling w ctx c request)"
  by (auto simp: emits_def calling_def Let_def)

lemma emits_doing_result:
  assumes "emits P m" "\<And>calls calls' x. m calls = (calls', Inr x) \<Longrightarrow> emits P (k x)"
  shows "emits P (doing m k)"
  unfolding emits_def
proof
  fix calls
  obtain calls' r where m: "m calls = (calls', r)" by fastforce
  obtain new where new: "calls' = calls @ new" "\<forall>c \<in> set new. P c"
    using assms(1) m unfolding emits_def by (metis fst_conv)
  show "\<exists>new. fst (doing m k calls) = calls @ new \<and> (\<forall>c \<in> set new. P c)"
  proof (cases r)
    case Inl
    with m new show ?thesis by (auto simp: doing_def)
  next
    case (Inr x)
    obtain more where "fst (k x calls') = calls' @ more" "\<forall>c \<in> set more. P c"
      using assms(2) m Inr unfolding emits_def by metis
    with m new Inr show ?thesis by (intro exI [of _ "new @ more"]) (auto simp: doing_def)
  qed
qed

lemma emits_doing [emits_intros]: "emits P m \<Longrightarrow> (\<And>x. emits P (k x)) \<Longrightarrow> emits P (doing m k)"
  by (rule emits_doing_result)

lemma emits_mono: "emits P m \<Longrightarrow> (\<And>c. P c \<Longrightarrow> Q c) \<Longrightarrow> emits Q m"
  unfolding emits_def by metis

lemma emits_Let [emits_intros]: "(\<And>x. emits P (f x)) \<Longrightarrow> emits P (Let x f)"
  by simp

lemma emits_if [emits_intros]: "(b \<Longrightarrow> emits P m) \<Longrightarrow> (\<not> b \<Longrightarrow> emits P n) \<Longrightarrow> emits P (if b then m else n)"
  by simp

lemma emits_option [emits_intros]:
  "(x = None \<Longrightarrow> emits P m) \<Longrightarrow> (\<And>y. x = Some y \<Longrightarrow> emits P (f y)) \<Longrightarrow>
   emits P (case x of None \<Rightarrow> m | Some y \<Rightarrow> f y)"
  by (cases x) auto

lemma emits_timed [emits_intros]: "emits P m \<Longrightarrow> emits P (timed w m)"
  by (auto simp: emits_def timed_def split: prod.splits) (metis fst_conv)

lemma emits_each: "(\<And>x. x \<in> set xs \<Longrightarrow> emits P (f x)) \<Longrightarrow> emits P (each f xs)"
  by (induction xs) (auto intro!: emits_intros)

lemma each_nth:
  "each f xs calls = (calls', Inr ys) \<Longrightarrow>
   length ys = length xs \<and> (\<forall>i < length xs. \<exists>c c'. f (xs ! i) c = (c', Inr (ys ! i)))"
proof (induction xs arbitrary: calls ys)
  case (Cons x xs)
  then obtain l y ys' where "f x calls = (l, Inr y)" "each f xs l = (calls', Inr ys')" "ys = y # ys'"
    by (auto simp: doing_def give_def split: prod.splits sum.splits)
  with Cons.IH show ?case by (fastforce simp: nth_Cons split: nat.splits)
qed (simp add: give_def)

lemma timed_Inr [result_split]:
  "timed w m calls = (calls', Inr y) \<longleftrightarrow>
   m calls = (calls', Inr (snd y)) \<and> fst y = microseconds (wld_now w calls' - wld_now w calls)"
  by (cases y) (auto simp: timed_def and_then_Inr split: prod.splits)

lemma doing_Inr [result_split]:
  "doing m k calls = (calls'', Inr y) \<longleftrightarrow> (\<exists>calls' x. m calls = (calls', Inr x) \<and> k x calls' = (calls'', Inr y))"
  by (auto simp: doing_def split: prod.splits sum.splits)

lemma wrapping_Inr [result_split]: "wrapping f m calls = (calls', Inr x) \<longleftrightarrow> m calls = (calls', Inr x)"
  by (auto simp: wrapping_def split: prod.splits)

lemma leaf_Inr [result_split]:
  "give x calls = (calls', Inr y) \<longleftrightarrow> calls' = calls \<and> y = x"
  "failing e calls = (calls', Inr y) \<longleftrightarrow> False"
  "outcome r calls = (calls', Inr y) \<longleftrightarrow> calls' = calls \<and> r = Inr y"
  by (auto simp: give_def failing_def outcome_def)

lemma calling_Inr [result_split]:
  "calling w ctx c request calls = (calls', Inr response) \<longleftrightarrow>
   wld_answer w calls ctx c request = Inr response \<and>
   calls' = calls @ [\<lparr>wcl_context = ctx, wcl_caller = c, wcl_request = request, wcl_answer = Inr response\<rparr>]"
  by (auto simp: calling_def Let_def)

lemma emits_observeState: "(\<And>call. wcl_context call = OperationContext \<Longrightarrow> wcl_request call = plainRequest ''state'' \<Longrightarrow> P call) \<Longrightarrow> emits P (observeState w c)"
  by (auto simp: observeState_def intro!: emits_intros)

lemma emits_workerStateOf [emits_intros]:
  "(\<And>call. wcl_context call = OperationContext \<Longrightarrow> wcl_request call = plainRequest ''state'' \<Longrightarrow> P call) \<Longrightarrow> emits P (workerStateOf w c)"
  by (auto simp: workerStateOf_def intro!: emits_intros emits_observeState)

section \<open>Deadlines on the wire\<close>

lemma wireDeadline_bounds:
  "d \<le> timeOfUnixMilli (wireDeadlineUnixMillis d) \<and> timeOfUnixMilli (wireDeadlineUnixMillis d) < d + millisecond"
proof -
  define q r where "q = d div millisecond" and "r = d mod millisecond"
  have d: "d = q * millisecond + r" unfolding q_def r_def by simp
  have r: "0 \<le> r" "r < millisecond" by (simp_all add: r_def millisecond_def)
  show ?thesis
    unfolding wireDeadlineUnixMillis_def timeOfUnixMilli_def unixMilli_def Let_def q_def [symmetric]
    using d r by (simp add: distrib_right)
qed

lemma unixMilli_exact [simp]: "unixMilli (timeOfUnixMilli n) = n"
  by (simp add: unixMilli_def timeOfUnixMilli_def millisecond_def)

text \<open>The deadline of a request in a context: the earlier of the two that are given.\<close>

definition effectiveDeadline :: "request_context \<Rightarrow> persistent_request \<Rightarrow> instant option" where
  "effectiveDeadline parent request =
     (let wire = req_deadlineUnixMillis request in
      case ctx_deadline parent of
        None \<Rightarrow> if 0 < wire then Some (timeOfUnixMilli wire) else None
      | Some d \<Rightarrow> if 0 < wire then Some (min d (timeOfUnixMilli wire)) else Some d)"

lemma requestContext_ok:
  assumes "requestContext now parent request = Inr (ctx, request')"
  shows "ctx_err parent = None \<and> ctx = parent\<lparr>ctx_deadline := effectiveDeadline parent request\<rparr> \<and>
    request' = request\<lparr>req_deadlineUnixMillis := req_deadlineUnixMillis request'\<rparr> \<and>
    (case effectiveDeadline parent request of
       None \<Rightarrow> request' = request \<and> \<not> isInferenceCommand (req_command request)
     | Some d \<Rightarrow> now < d \<and> d \<le> timeOfUnixMilli (req_deadlineUnixMillis request') \<and>
         timeOfUnixMilli (req_deadlineUnixMillis request') < d + millisecond)"
  using assms wireDeadline_bounds
  by (auto simp: requestContext_def effectiveDeadline_def Let_def min_def millisecond_def
      split: option.splits if_splits)

text \<open>
  C24: A request leaves for a worker only while its context is alive, with the earlier of the
  context's and its own deadline, which lies in the future. The deadline written into the
  frame is never earlier than the one the client waits for, and less than a millisecond
  later, so that rounding to the wire's precision cannot make a worker give up first. An
  inference request never leaves without a deadline, and nothing else of the request changes.
\<close>

theorem wire_deadline_never_shortened:
  assumes "requestContext now parent request = Inr (ctx, request')"
  shows "ctx_err parent = None \<and> ctx = parent\<lparr>ctx_deadline := effectiveDeadline parent request\<rparr> \<and>
    request' = request\<lparr>req_deadlineUnixMillis := req_deadlineUnixMillis request'\<rparr> \<and>
    (case effectiveDeadline parent request of
       None \<Rightarrow> request' = request \<and> \<not> isInferenceCommand (req_command request)
     | Some d \<Rightarrow> now < d \<and> d \<le> timeOfUnixMilli (req_deadlineUnixMillis request') \<and>
         timeOfUnixMilli (req_deadlineUnixMillis request') < d + millisecond)"
  by (rule requestContext_ok [OF assms])

lemma wire_deadline_never_shortened_witness:
  "\<exists>ctx request'.
     requestContext 1000 \<lparr>ctx_err = None, ctx_deadline = Some 5000001\<rparr> (plainRequest ''decode'') = Inr (ctx, request') \<and>
     req_deadlineUnixMillis request' = 6 \<and> timeOfUnixMilli 6 < 5000001 + millisecond"
proof -
  have e: "requestContext 1000 \<lparr>ctx_err = None, ctx_deadline = Some 5000001\<rparr> (plainRequest ''decode'') =
      Inr (\<lparr>ctx_err = None, ctx_deadline = Some 5000001\<rparr>, (plainRequest ''decode'')\<lparr>req_deadlineUnixMillis := 6\<rparr>)"
    by (simp add: requestContext_def plainRequest_def Let_def wireDeadlineUnixMillis_def unixMilli_def
        timeOfUnixMilli_def millisecond_def)
  from wire_deadline_never_shortened [OF e] show ?thesis
    unfolding e by (simp add: effectiveDeadline_def plainRequest_def Let_def)
qed

end
