(* ===== verification/Sequences.thy ===== *)
theory Sequences
  imports Worker "HOL-Library.Sublist"
begin

text \<open>
  The lifecycle of a sequence on the workers that hold its stages
  (\<open>internal/workerproc/sequence.go\<close>): opening every sequence on every target with one
  private owner, rolling back when an open fails, and closing in reverse order, where a
  close that fails stays tracked for a later attempt.
\<close>

section \<open>Targets and sets\<close>

record sequence_target =
  sqt_name :: string
  sqt_caller :: "caller option"
  sqt_shardID :: string

record opened_sequence =
  ops_target :: sequence_target
  ops_sequenceID :: string
  ops_ownerID :: string

type_synonym sequence_set = "opened_sequence list"

datatype sequence_set_error =
    SequenceTargetsEmpty
  | SequenceTargetWithoutCaller nat
  | SequenceTargetWithoutShard nat
  | SequenceIDsEmpty
  | SequenceIDEmpty
  | SequenceIDDuplicated string
  | SequenceOwnerUnavailable
  | SequenceCommandFailed string string call_error
  | SequenceRollbackFailed sequence_set_error "sequence_set_error list"

text \<open>
  \<open>errors.As\<close> with \<open>WorkerResponseError\<close>: the message of a worker's rejection under the
  wrappers.
\<close>

fun responseMessage :: "call_error \<Rightarrow> string option" where
  "responseMessage (WorkerResponse requestID message) = Some message"
| "responseMessage (RequestNotDispatched e) = responseMessage e"
| "responseMessage e = None"

fun has_prefix :: "string \<Rightarrow> string \<Rightarrow> bool" where
  "has_prefix s [] = True"
| "has_prefix [] (p # ps) = False"
| "has_prefix (c # s) (p # ps) = (c = p \<and> has_prefix s ps)"

fun contains :: "string \<Rightarrow> string \<Rightarrow> bool" where
  "contains [] sub = (sub = [])"
| "contains (c # s) sub = (has_prefix (c # s) sub \<or> contains s sub)"

section \<open>Commands\<close>

definition sequenceRequest :: "sequence_target \<Rightarrow> string \<Rightarrow> string \<Rightarrow> string \<Rightarrow> persistent_request" where
  "sequenceRequest target command sequenceID ownerID =
     (plainRequest command)\<lparr>req_sequence := Some \<lparr>sqr_shardID = sqt_shardID target,
        sqr_sequenceID = sequenceID, sqr_ownerID = ownerID\<rparr>\<rparr>"

text \<open>
  A nil caller would be a nil dereference; \<open>OpenSequences\<close> refuses such a target before it
  sends anything, and the model never reaches the case.
\<close>

definition sequenceCommand ::
  "world \<Rightarrow> call_context \<Rightarrow> sequence_target \<Rightarrow> string \<Rightarrow> string \<Rightarrow> string \<Rightarrow> (call_error, unit) action" where
  "sequenceCommand w ctx target command sequenceID ownerID =
     (case sqt_caller target of
        None \<Rightarrow> failing (TransportFailed [])
      | Some c \<Rightarrow>
          doing (calling w ctx c (sequenceRequest target command sequenceID ownerID)) (\<lambda>_. give ()))"

text \<open>A restarted worker has released the shard and its sequences: that counts as closed.\<close>

definition alreadyReleased :: "call_error \<Rightarrow> bool" where
  "alreadyReleased e =
     (case responseMessage e of
        None \<Rightarrow> False
      | Some message \<Rightarrow>
          contains message ''is not open on shard'' \<or> contains message ''is not loaded'')"

definition closeSequence :: "world \<Rightarrow> call_context \<Rightarrow> opened_sequence \<Rightarrow> (call_error, unit) action" where
  "closeSequence w ctx opened =
     (\<lambda>calls. case sequenceCommand w ctx (ops_target opened) ''closeSequence''
          (ops_sequenceID opened) (ops_ownerID opened) calls of
        (calls', Inr u) \<Rightarrow> (calls', Inr u)
      | (calls', Inl e) \<Rightarrow> if alreadyReleased e then (calls', Inr ()) else (calls', Inl e))"

section \<open>Closing\<close>

text \<open>
  The loop of \<open>closeUsing\<close> over the set from its end: what it retains, in the order of the
  loop, and the errors it joins.
\<close>

fun closeLoop ::
  "(opened_sequence \<Rightarrow> bool) \<Rightarrow> (opened_sequence \<Rightarrow> (call_error, unit) action) \<Rightarrow> opened_sequence list \<Rightarrow>
   call_log \<Rightarrow> call_log \<times> opened_sequence list \<times> sequence_set_error list" where
  "closeLoop shouldClose closeOne [] calls = (calls, [], [])"
| "closeLoop shouldClose closeOne (opened # before) calls =
     (if \<not> shouldClose opened
      then let (calls', retained, errors) = closeLoop shouldClose closeOne before calls
        in (calls', opened # retained, errors)
      else case closeOne opened calls of
        (calls', Inr u) \<Rightarrow> closeLoop shouldClose closeOne before calls'
      | (calls', Inl e) \<Rightarrow>
          let (calls'', retained, errors) = closeLoop shouldClose closeOne before calls'
          in (calls'', opened # retained,
              SequenceCommandFailed (sqt_name (ops_target opened)) ''closeSequence'' e # errors))"

text \<open>The set that remains, in its original order, and the joined errors.\<close>

definition closeUsing ::
  "(opened_sequence \<Rightarrow> bool) \<Rightarrow> (opened_sequence \<Rightarrow> (call_error, unit) action) \<Rightarrow> sequence_set \<Rightarrow>
   call_log \<Rightarrow> call_log \<times> sequence_set \<times> sequence_set_error list" where
  "closeUsing shouldClose closeOne owned calls =
     (let (calls', retained, errors) = closeLoop shouldClose closeOne (rev owned) calls
      in (calls', rev retained, errors))"

definition closeSequenceID ::
  "world \<Rightarrow> string \<Rightarrow> sequence_set \<Rightarrow> call_log \<Rightarrow> call_log \<times> sequence_set \<times> sequence_set_error list" where
  "closeSequenceID w sequenceID =
     closeUsing (\<lambda>opened. ops_sequenceID opened = sequenceID) (closeSequence w OperationContext)"

definition closeSet ::
  "world \<Rightarrow> sequence_set \<Rightarrow> call_log \<Rightarrow> call_log \<times> sequence_set \<times> sequence_set_error list" where
  "closeSet w = closeUsing (\<lambda>opened. True) (closeSequence w OperationContext)"

definition cleanupSet ::
  "world \<Rightarrow> sequence_set \<Rightarrow> call_log \<Rightarrow> call_log \<times> sequence_set \<times> sequence_set_error list" where
  "cleanupSet w = closeUsing (\<lambda>opened. True) (closeSequence w CleanupContext)"

section \<open>Opening\<close>

fun checkTargets :: "nat \<Rightarrow> sequence_target list \<Rightarrow> sequence_set_error option" where
  "checkTargets index [] = None"
| "checkTargets index (target # rest) =
     (if sqt_caller target = None then Some (SequenceTargetWithoutCaller index)
      else if sqt_shardID target = [] then Some (SequenceTargetWithoutShard index)
      else checkTargets (Suc index) rest)"

fun checkSequenceIDs :: "string list \<Rightarrow> string list \<Rightarrow> sequence_set_error option" where
  "checkSequenceIDs seen [] = None"
| "checkSequenceIDs seen (sequenceID # rest) =
     (if sequenceID = [] then Some SequenceIDEmpty
      else if sequenceID \<in> set seen then Some (SequenceIDDuplicated sequenceID)
      else checkSequenceIDs (sequenceID # seen) rest)"

text \<open>
  The two nested loops, over the pairs in their order. An open that was not rejected by the
  worker is tracked before the rollback, because it may have been applied. \<open>None\<close> is the nil
  set.
\<close>

fun openEach ::
  "world \<Rightarrow> string \<Rightarrow> (string \<times> sequence_target) list \<Rightarrow> sequence_set \<Rightarrow> call_log \<Rightarrow>
   call_log \<times> sequence_set option \<times> sequence_set_error option" where
  "openEach w ownerID [] owned calls = (calls, Some owned, None)"
| "openEach w ownerID ((sequenceID, target) # rest) owned calls =
     (let (calls', result) = sequenceCommand w OperationContext target ''openSequence'' sequenceID ownerID calls;
          opened = \<lparr>ops_target = target, ops_sequenceID = sequenceID, ops_ownerID = ownerID\<rparr>
      in case result of
        Inr u \<Rightarrow> openEach w ownerID rest (owned @ [opened]) calls'
      | Inl e \<Rightarrow>
          let tracked = (if isWorkerRejection e then owned else owned @ [opened]);
              failure = SequenceCommandFailed (sqt_name target) ''openSequence'' e;
              (calls'', retained, errors) = cleanupSet w tracked calls'
          in if errors \<noteq> [] then (calls'', Some retained, Some (SequenceRollbackFailed failure errors))
             else (calls'', None, Some failure))"

definition sequenceOwner :: "byte list \<Rightarrow> string" where
  "sequenceOwner bytes = ''sequence-owner-'' @ hexEncode bytes"

definition openSequences ::
  "world \<Rightarrow> sequence_target list \<Rightarrow> string list \<Rightarrow> call_log \<Rightarrow>
   call_log \<times> sequence_set option \<times> sequence_set_error option" where
  "openSequences w targets sequenceIDs calls =
     (if targets = [] then (calls, None, Some SequenceTargetsEmpty)
      else case checkTargets 0 targets of
        Some e \<Rightarrow> (calls, None, Some e)
      | None \<Rightarrow>
     if sequenceIDs = [] then (calls, None, Some SequenceIDsEmpty)
     else case checkSequenceIDs [] sequenceIDs of
        Some e \<Rightarrow> (calls, None, Some e)
      | None \<Rightarrow>
     case wld_random w calls 16 of
        None \<Rightarrow> (calls, None, Some SequenceOwnerUnavailable)
      | Some bytes \<Rightarrow>
          openEach w (sequenceOwner bytes) (List.product sequenceIDs targets) [] calls)"

section \<open>What is open on the workers\<close>

text \<open>
  An open that the worker did not reject may have been applied, and gives rise to an entry;
  a close releases it when the worker confirms it or reports that it holds nothing.
\<close>

definition may_have_opened :: "worker_call \<Rightarrow> bool" where
  "may_have_opened call \<longleftrightarrow>
     req_command (wcl_request call) = ''openSequence'' \<and>
     (case wcl_answer call of Inl e \<Rightarrow> \<not> isWorkerRejection e | Inr r \<Rightarrow> True)"

definition releases :: "worker_call \<Rightarrow> worker_call \<Rightarrow> bool" where
  "releases c closing \<longleftrightarrow>
     wcl_caller closing = wcl_caller c \<and>
     req_command (wcl_request closing) = ''closeSequence'' \<and>
     req_sequence (wcl_request closing) = req_sequence (wcl_request c) \<and>
     (case wcl_answer closing of Inl e \<Rightarrow> alreadyReleased e | Inr r \<Rightarrow> True)"

definition tracks :: "sequence_set \<Rightarrow> worker_call \<Rightarrow> bool" where
  "tracks owned call \<longleftrightarrow>
     (\<exists>opened \<in> set owned. Some (wcl_caller call) = sqt_caller (ops_target opened) \<and>
        wcl_request call = sequenceRequest (ops_target opened) ''openSequence''
          (ops_sequenceID opened) (ops_ownerID opened))"

text \<open>
  Every open of a stretch of calls is released by a later call of it or tracked: for an open
  that is not tracked there is a close after it, wherever it stands in the log.
\<close>

primrec accounted :: "sequence_set \<Rightarrow> call_log \<Rightarrow> bool" where
  "accounted owned [] = True"
| "accounted owned (call # later) \<longleftrightarrow>
     (may_have_opened call \<longrightarrow> (\<exists>closing \<in> set later. releases call closing) \<or> tracks owned call) \<and>
     accounted owned later"

lemma accounted_order:
  "accounted owned calls \<longleftrightarrow>
     (\<forall>earlier call later. calls = earlier @ call # later \<longrightarrow> may_have_opened call \<longrightarrow>
        (\<exists>closing \<in> set later. releases call closing) \<or> tracks owned call)"
proof (induction calls)
  case (Cons call calls)
  then show ?case by (simp add: Cons_eq_append_conv all_conj_distrib) blast
qed simp

definition sequence_call :: "worker_call \<Rightarrow> bool" where
  "sequence_call call \<longleftrightarrow>
     wcl_context call \<in> {OperationContext, CleanupContext} \<and>
     (\<exists>command target sequenceID ownerID. command \<in> {''openSequence'', ''closeSequence''} \<and>
        wcl_request call = sequenceRequest target command sequenceID ownerID)"

lemma sequenceRequest_fields [simp]:
  "req_command (sequenceRequest t c i p) = c"
  "req_sequence (sequenceRequest t c i p) = Some \<lparr>sqr_shardID = sqt_shardID t, sqr_sequenceID = i, sqr_ownerID = p\<rparr>"
  by (simp_all add: sequenceRequest_def plainRequest_def)

lemma sequenceCommand_cases:
  assumes "sequenceCommand w ctx t command i p calls = (calls', r)" "sqt_caller t = Some c"
  obtains a where
    "calls' = calls @ [\<lparr>wcl_context = ctx, wcl_caller = c, wcl_request = sequenceRequest t command i p, wcl_answer = a\<rparr>]"
    "r = map_sum id (\<lambda>_. ()) a"
  using assms
  by (auto simp: sequenceCommand_def doing_def calling_def give_def Let_def split: sum.splits)

definition callable :: "sequence_set \<Rightarrow> bool" where
  "callable owned \<longleftrightarrow> (\<forall>opened \<in> set owned. sqt_caller (ops_target opened) \<noteq> None)"

text \<open>The call that closes an entry.\<close>

definition closing_call :: "opened_sequence \<Rightarrow> worker_call \<Rightarrow> bool" where
  "closing_call opened call \<longleftrightarrow>
     Some (wcl_caller call) = sqt_caller (ops_target opened) \<and>
     wcl_request call = sequenceRequest (ops_target opened) ''closeSequence''
       (ops_sequenceID opened) (ops_ownerID opened)"

lemma closeSequence_cases:
  assumes "closeSequence w ctx opened calls = (calls', r)" "sqt_caller (ops_target opened) \<noteq> None"
  obtains call where "calls' = calls @ [call]" "closing_call opened call" "wcl_context call = ctx"
    "is_ok r \<longleftrightarrow> (case wcl_answer call of Inl e \<Rightarrow> alreadyReleased e | Inr x \<Rightarrow> True)"
proof -
  obtain c where c: "sqt_caller (ops_target opened) = Some c" using assms(2) by auto
  obtain l q where lq: "sequenceCommand w ctx (ops_target opened) ''closeSequence''
      (ops_sequenceID opened) (ops_ownerID opened) calls = (l, q)" by fastforce
  from sequenceCommand_cases [OF lq c] obtain a where a:
    "l = calls @ [\<lparr>wcl_context = ctx, wcl_caller = c, wcl_request = sequenceRequest (ops_target opened)
        ''closeSequence'' (ops_sequenceID opened) (ops_ownerID opened), wcl_answer = a\<rparr>]"
    (is "l = calls @ [?call]") and q: "q = map_sum id (\<lambda>_. ()) a" by blast
  have "calls' = l" "is_ok r \<longleftrightarrow> (case a of Inl e \<Rightarrow> alreadyReleased e | Inr x \<Rightarrow> True)"
    using assms(1) lq q by (cases a; auto simp: closeSequence_def split: if_splits)+
  with a c show thesis by (intro that [of ?call]) (simp_all add: closing_call_def)
qed

lemma closeLoop_calls:
  assumes "closeLoop P (closeSequence w ctx) os calls = (calls', retained, errors)" "callable os"
  shows "\<exists>new. calls' = calls @ new \<and>
    (\<forall>call \<in> set new. \<exists>opened \<in> set os. P opened \<and> closing_call opened call \<and> wcl_context call = ctx) \<and>
    (\<forall>opened \<in> set os. opened \<in> set retained \<or>
       (\<exists>call \<in> set new. closing_call opened call \<and>
          (case wcl_answer call of Inl e \<Rightarrow> alreadyReleased e | Inr x \<Rightarrow> True)))"
  using assms
proof (induction os arbitrary: calls calls' retained errors)
  case Nil
  then show ?case by simp
next
  case (Cons o1 os)
  have os: "callable os" using Cons.prems by (simp add: callable_def)
  show ?case
  proof (cases "P o1")
    case False
    obtain l rs es where rest: "closeLoop P (closeSequence w ctx) os calls = (l, rs, es)"
      by (metis prod_cases3)
    from Cons.IH [OF rest os] show ?thesis
      using Cons.prems(1) False rest by (auto; fastforce)
  next
    case True
    obtain l r where one: "closeSequence w ctx o1 calls = (l, r)" by fastforce
    obtain call where call: "l = calls @ [call]" "closing_call o1 call" "wcl_context call = ctx"
      "is_ok r \<longleftrightarrow> (case wcl_answer call of Inl e \<Rightarrow> alreadyReleased e | Inr x \<Rightarrow> True)"
      using closeSequence_cases [OF one] Cons.prems(2) unfolding callable_def by (metis list.set_intros(1))
    obtain l' rs es where rest: "closeLoop P (closeSequence w ctx) os l = (l', rs, es)"
      by (metis prod_cases3)
    obtain new where new: "l' = l @ new"
      "\<forall>call \<in> set new. \<exists>opened \<in> set os. P opened \<and> closing_call opened call \<and> wcl_context call = ctx"
      "\<forall>opened \<in> set os. opened \<in> set rs \<or> (\<exists>call \<in> set new. closing_call opened call \<and>
          (case wcl_answer call of Inl e \<Rightarrow> alreadyReleased e | Inr x \<Rightarrow> True))"
      using Cons.IH [OF rest os] by metis
    have res: "calls' = l'" "retained = (if is_ok r then rs else o1 # rs)"
      using Cons.prems(1) True one rest by (auto split: sum.splits)
    show ?thesis
    proof (intro exI [of _ "call # new"] conjI)
      show "calls' = calls @ call # new" using res call new by simp
    qed (use res call new True in \<open>auto split: if_splits\<close>)
  qed
qed

lemma closeLoop_errors:
  "closeLoop (\<lambda>_. True) f os calls = (calls', retained, errors) \<Longrightarrow> errors = [] \<longleftrightarrow> retained = []"
  by (induction os arbitrary: calls calls' retained errors) (auto split: sum.splits prod.splits)

lemma closeLoop_retained:
  "closeLoop P f os calls = (calls', retained, errors) \<Longrightarrow> set retained \<subseteq> set os"
  by (induction os arbitrary: calls calls' retained errors)
    (auto split: sum.splits prod.splits if_splits, (blast | fastforce)+)

lemma closing_call_command:
  "closing_call opened call \<Longrightarrow> wcl_context call = CleanupContext \<Longrightarrow> req_command (wcl_request call) = ''closeSequence'' \<and> sequence_call call"
  by (auto simp: closing_call_def sequence_call_def)

lemma closing_releases:
  assumes "closing_call opened closing" "tracks [opened] call"
    "case wcl_answer closing of Inl e \<Rightarrow> alreadyReleased e | Inr x \<Rightarrow> True"
  shows "releases call closing"
proof -
  have "wcl_caller closing = wcl_caller call"
    using assms by (simp add: closing_call_def tracks_def) (metis option.inject)
  then show ?thesis using assms by (auto simp: releases_def closing_call_def tracks_def)
qed

lemma cleanup_calls:
  assumes "cleanupSet w owned calls = (calls', retained, errors)" "callable owned"
  shows "\<exists>new. calls' = calls @ new \<and>
    (\<forall>call \<in> set new. sequence_call call \<and> req_command (wcl_request call) = ''closeSequence'') \<and>
    (\<forall>call. tracks owned call \<longrightarrow> (\<exists>closing \<in> set new. releases call closing) \<or> tracks retained call) \<and>
    callable retained \<and> (errors = [] \<longleftrightarrow> retained = [])"
proof -
  obtain rs where loop: "closeLoop (\<lambda>_. True) (closeSequence w CleanupContext) (rev owned) calls = (calls', rs, errors)"
    and rs: "retained = rev rs"
    using assms(1) by (auto simp: cleanupSet_def closeUsing_def split: prod.splits)
  have "callable (rev owned)" using assms(2) by (simp add: callable_def)
  from closeLoop_calls [OF loop this] obtain new where new: "calls' = calls @ new"
    "\<forall>call \<in> set new. \<exists>opened \<in> set owned. closing_call opened call \<and> wcl_context call = CleanupContext"
    "\<forall>opened \<in> set owned. opened \<in> set rs \<or> (\<exists>call \<in> set new. closing_call opened call \<and>
       (case wcl_answer call of Inl e \<Rightarrow> alreadyReleased e | Inr x \<Rightarrow> True))"
    by auto
  have sub: "set retained \<subseteq> set owned" using closeLoop_retained [OF loop] rs by simp
  have "(\<exists>closing \<in> set new. releases call closing) \<or> tracks retained call" if t: "tracks owned call" for call
  proof -
    obtain opened where o: "opened \<in> set owned" "tracks [opened] call"
      using t by (auto simp: tracks_def)
    then show ?thesis using new(3) rs closing_releases by (fastforce simp: tracks_def)
  qed
  moreover have "callable retained" using assms(2) sub by (auto simp: callable_def)
  ultimately show ?thesis
    using new closing_call_command closeLoop_errors [OF loop] rs
    by (intro exI [of _ new]) auto
qed

definition opening_call :: "string \<Rightarrow> string \<times> sequence_target \<Rightarrow> worker_call \<Rightarrow> bool" where
  "opening_call ownerID pair call \<longleftrightarrow>
     Some (wcl_caller call) = sqt_caller (snd pair) \<and> is_ok (wcl_answer call) \<and>
     wcl_request call = sequenceRequest (snd pair) ''openSequence'' (fst pair) ownerID"

definition entry :: "string \<Rightarrow> string \<times> sequence_target \<Rightarrow> opened_sequence" where
  "entry ownerID pair = \<lparr>ops_target = snd pair, ops_sequenceID = fst pair, ops_ownerID = ownerID\<rparr>"

definition owned_by :: "sequence_set option \<Rightarrow> sequence_set" where
  "owned_by result = (case result of None \<Rightarrow> [] | Some owned \<Rightarrow> owned)"

lemma accounted_closes:
  "\<forall>call \<in> set new. req_command (wcl_request call) = ''closeSequence'' \<Longrightarrow> accounted owned new"
  by (induction new) (auto simp: may_have_opened_def)

lemma accounted_cleanup:
  assumes "accounted owned pre"
    "\<forall>call \<in> set new. req_command (wcl_request call) = ''closeSequence''"
    "\<forall>call. tracks owned call \<longrightarrow> (\<exists>closing \<in> set new. releases call closing) \<or> tracks retained call"
  shows "accounted retained (pre @ new)"
  using assms(1) by (induction pre) (use assms(2,3) accounted_closes in auto)

lemma accounted_snoc:
  assumes "accounted owned pre" "may_have_opened call \<Longrightarrow> tracks owned' call"
    "set owned \<subseteq> set owned'"
  shows "accounted owned' (pre @ [call])"
proof -
  have "tracks owned' c" if "tracks owned c" for c using that assms(3) unfolding tracks_def by blast
  then show ?thesis using assms(1) by (induction pre) (use assms(2) in auto)
qed

lemma openEach_calls:
  assumes "openEach w p pairs owned (base @ pre) = (calls', result, err)"
    "accounted owned pre" "callable owned" "\<forall>pair \<in> set pairs. sqt_caller (snd pair) \<noteq> None"
    "\<forall>call \<in> set pre. sequence_call call"
  shows "\<exists>new. calls' = base @ new \<and> accounted (owned_by result) new \<and> callable (owned_by result) \<and>
    (\<forall>call \<in> set new. sequence_call call) \<and>
    (err = None \<longrightarrow> result = Some (owned @ map (entry p) pairs) \<and>
       (\<exists>opens. new = pre @ opens \<and> list_all2 (opening_call p) pairs opens)) \<and>
    (err \<noteq> None \<longrightarrow> result \<noteq> Some [])"
  using assms
proof (induction pairs arbitrary: owned pre)
  case Nil
  then show ?case by (auto simp: owned_by_def)
next
  case (Cons pair pairs)
  obtain i t where pair: "pair = (i, t)" by fastforce
  obtain c where c: "sqt_caller t = Some c" using Cons.prems(4) pair by auto
  obtain l r where cmd: "sequenceCommand w OperationContext t ''openSequence'' i p (base @ pre) = (l, r)"
    by fastforce
  obtain call a where call: "l = (base @ pre) @ [call]" "wcl_caller call = c" "wcl_answer call = a"
    "wcl_request call = sequenceRequest t ''openSequence'' i p" "r = map_sum id (\<lambda>_. ()) a"
    "wcl_context call = OperationContext"
    using sequenceCommand_cases [OF cmd c] by (metis worker_call.select_convs)
  have seq: "\<forall>x \<in> set (pre @ [call]). sequence_call x"
    using Cons.prems(5) call by (auto simp: sequence_call_def)
  have tracked: "tracks (owned @ [entry p (i, t)]) call"
    using call c by (auto simp: tracks_def entry_def)
  have callable': "callable (owned @ [entry p (i, t)])"
    using Cons.prems(3) c by (auto simp: callable_def entry_def)
  show ?case
  proof (cases a)
    case (Inr x)
    have step: "openEach w p pairs (owned @ [entry p (i, t)]) (base @ (pre @ [call])) = (calls', result, err)"
      using Cons.prems(1) pair cmd call Inr by (simp add: entry_def)
    have acc: "accounted (owned @ [entry p (i, t)]) (pre @ [call])"
      by (rule accounted_snoc [OF Cons.prems(2)]) (use tracked in auto)
    have op: "opening_call p (i, t) call" using call c Inr by (simp add: opening_call_def)
    from Cons.IH [OF step acc callable' _ seq] Cons.prems(4) obtain new where
      "calls' = base @ new" "accounted (owned_by result) new" "callable (owned_by result)"
      "\<forall>call \<in> set new. sequence_call call"
      "err = None \<longrightarrow> result = Some ((owned @ [entry p (i, t)]) @ map (entry p) pairs) \<and>
        (\<exists>opens. new = (pre @ [call]) @ opens \<and> list_all2 (opening_call p) pairs opens)"
      "err \<noteq> None \<longrightarrow> result \<noteq> Some []"
      by auto
    then show ?thesis using op pair
      by (intro exI [of _ new]) (auto intro: exI [of _ "call # _"])
  next
    case (Inl e)
    define owned' where "owned' = (if isWorkerRejection e then owned else owned @ [entry p (i, t)])"
    obtain l' retained errors where clean: "cleanupSet w owned' l = (l', retained, errors)"
      by (metis prod_cases3)
    have acc: "accounted owned' (pre @ [call])"
      by (rule accounted_snoc [OF Cons.prems(2)])
        (use tracked call Inl in \<open>auto simp: owned'_def may_have_opened_def\<close>)
    have "callable owned'" using callable' Cons.prems(3) by (simp add: owned'_def)
    from cleanup_calls [OF clean this] obtain new where new: "l' = l @ new"
      "\<forall>call \<in> set new. sequence_call call \<and> req_command (wcl_request call) = ''closeSequence''"
      "\<forall>call. tracks owned' call \<longrightarrow> (\<exists>closing \<in> set new. releases call closing) \<or> tracks retained call"
      "callable retained" "errors = [] \<longleftrightarrow> retained = []"
      by blast
    have acc': "accounted retained ((pre @ [call]) @ new)"
      by (rule accounted_cleanup [OF acc _ new(3)]) (use new(2) in blast)
    have res: "calls' = l'" "err \<noteq> None" "owned_by result = retained" "result \<noteq> Some []"
      using Cons.prems(1) pair cmd call Inl clean new(5)
      by (auto simp: entry_def owned'_def owned_by_def Let_def split: if_splits)
    then show ?thesis
      using acc' new call seq by (intro exI [of _ "(pre @ [call]) @ new"]) auto
  qed
qed

lemma checkTargets_None: "checkTargets i ts = None \<Longrightarrow> t \<in> set ts \<Longrightarrow> sqt_caller t \<noteq> None"
  by (induction i ts rule: checkTargets.induct) (auto split: if_splits)

lemma openSequences_calls:
  assumes "openSequences w targets ids calls = (calls', result, err)"
  shows "\<exists>new. calls' = calls @ new \<and> accounted (owned_by result) new \<and> callable (owned_by result) \<and>
    (\<forall>call \<in> set new. sequence_call call) \<and> (err \<noteq> None \<longrightarrow> result \<noteq> Some []) \<and>
    (err = None \<longrightarrow> (\<exists>p. result = Some (map (entry p) (List.product ids targets)) \<and>
       list_all2 (opening_call p) (List.product ids targets) new))"
proof -
  have "(calls' = calls \<and> result = None \<and> err \<noteq> None) \<or> (checkTargets 0 targets = None \<and>
      (\<exists>bytes. openEach w (sequenceOwner bytes) (List.product ids targets) [] (calls @ []) = (calls', result, err)))"
    using assms
    by (cases "checkTargets 0 targets"; cases "checkSequenceIDs [] ids"; cases "wld_random w calls 16")
      (auto simp: openSequences_def split: if_splits dest: sym [of "Some _"])
  then consider (failed) "calls' = calls" "result = None" "err \<noteq> None"
    | (opened) bytes where "checkTargets 0 targets = None"
      "openEach w (sequenceOwner bytes) (List.product ids targets) [] (calls @ []) = (calls', result, err)"
    by blast
  then show ?thesis
  proof cases
    case failed
    then show ?thesis by (auto simp: callable_def owned_by_def)
  next
    case opened
    have "\<forall>pair \<in> set (List.product ids targets). sqt_caller (snd pair) \<noteq> None"
      using checkTargets_None [OF opened(1)] by auto
    from openEach_calls [OF opened(2) _ _ this] show ?thesis
      by (auto simp: callable_def)
  qed
qed

lemma closeLoop_subseq:
  "closeLoop P f os calls = (calls', retained, errors) \<Longrightarrow> subseq retained os"
  by (induction os arbitrary: calls calls' retained errors)
    (auto split: sum.splits prod.splits if_splits)

lemma subseq_rev: "subseq xs ys \<Longrightarrow> subseq (rev xs) (rev ys)"
proof (induction rule: list_emb.induct)
  case (list_emb_Cons xs ys y)
  then show ?case by (simp add: subseq_rev_drop_many)
next
  case (list_emb_Cons2 x y xs ys)
  then show ?case unfolding rev.simps by (intro list_emb_append_mono) simp_all
qed simp

lemma cleanup_subseq: "cleanupSet w owned calls = (calls', retained, errors) \<Longrightarrow> subseq retained owned"
proof -
  assume run: "cleanupSet w owned calls = (calls', retained, errors)"
  obtain rs where "closeLoop (\<lambda>_. True) (closeSequence w CleanupContext) (rev owned) calls = (calls', rs, errors)"
    "retained = rev rs"
    using run by (auto simp: cleanupSet_def closeUsing_def split: prod.splits)
  then show "subseq retained owned" using subseq_rev [OF closeLoop_subseq] by fastforce
qed

section \<open>Properties\<close>

text \<open>
  C4: Opening sequences leaks nothing. Whatever the workers answer and whenever a call fails,
  every open that a worker did not reject is either released by a later close, which the
  worker confirmed or answered by saying that it holds no such sequence or shard, or tracked
  by the set that is returned. Without an error the set holds exactly
  the matrix of sequences and targets, each opened by one accepted call; with an error a set
  is returned only if it still tracks something.
\<close>

theorem open_sequences_account_for_every_open:
  assumes "openSequences w targets ids calls = (calls', result, err)"
  shows "\<exists>new. calls' = calls @ new \<and> accounted (owned_by result) new \<and>
    (err \<noteq> None \<longrightarrow> result \<noteq> Some []) \<and>
    (err = None \<longrightarrow> (\<exists>p. result = Some (map (entry p) (List.product ids targets)) \<and>
       list_all2 (opening_call p) (List.product ids targets) new))"
  using openSequences_calls [OF assms] by blast

text \<open>
  Cleaning up attempts to close every tracked sequence. What it retains is what it did
  not get confirmed, in the original order; it reports no error exactly when it retains
  nothing, and then every open the set tracked has been released.
\<close>

theorem cleanup_releases_or_retains:
  assumes "cleanupSet w owned calls = (calls', retained, errors)" "callable owned"
  shows "\<exists>new. calls' = calls @ new \<and> subseq retained owned \<and> (errors = [] \<longleftrightarrow> retained = []) \<and>
    (\<forall>call. tracks owned call \<longrightarrow> (\<exists>closing \<in> set new. releases call closing) \<or> tracks retained call)"
  using cleanup_calls [OF assms] cleanup_subseq [OF assms(1)] by blast

section \<open>A run\<close>

text \<open>
  The first worker accepts everything, the second fails to answer an open and, restarted,
  has no shard when it is asked to close: the first open is rolled back and no set remains.
\<close>

definition demo_response :: persistent_response where
  "demo_response = \<lparr>rsp_requestID = [], rsp_ok = True, rsp_error = [], rsp_workerObservationSequence = 0,
     rsp_result = None\<rparr>"

definition demo_world :: world where
  "demo_world = \<lparr>wld_answer = (\<lambda>calls ctx c request.
       if c = 1 then Inr demo_response
       else if req_command request = ''openSequence'' then Inl (TransportFailed ''lost'')
       else Inl (WorkerResponse ''r'' ''shard s2 is not loaded'')),
     wld_now = (\<lambda>calls. 0), wld_err = (\<lambda>calls. None), wld_deadline = None,
     wld_random = (\<lambda>calls n. Some [])\<rparr>"

definition demo_targets :: "sequence_target list" where
  "demo_targets =
     [\<lparr>sqt_name = ''a'', sqt_caller = Some 1, sqt_shardID = ''s1''\<rparr>,
      \<lparr>sqt_name = ''b'', sqt_caller = Some 2, sqt_shardID = ''s2''\<rparr>]"

lemmas demo_sequence_eval = demo_world_def demo_targets_def demo_response_def openSequences_def
  sequenceOwner_def hexEncode_def sequenceCommand_def doing_def calling_def give_def failing_def
  cleanupSet_def closeUsing_def closeSequence_def alreadyReleased_def Let_def owned_by_def
  plainRequest_def sequenceRequest_def

lemma demo_open:
  "\<exists>calls' e. openSequences demo_world demo_targets [''q''] [] = (calls', None, Some e) \<and> length calls' = 4"
  by (simp add: demo_sequence_eval)

lemma open_sequences_account_for_every_open_witness:
  "\<exists>calls' e. openSequences demo_world demo_targets [''q''] [] = (calls', None, Some e) \<and>
     length calls' = 4 \<and> accounted [] calls'"
proof -
  obtain calls' e where run: "openSequences demo_world demo_targets [''q''] [] = (calls', None, Some e)"
    "length calls' = 4"
    using demo_open by blast
  show ?thesis
    using open_sequences_account_for_every_open [OF run(1)] run by (auto simp: owned_by_def)
qed

lemma cleanup_releases_or_retains_witness:
  "\<exists>calls' retained errors.
     cleanupSet demo_world [entry ''p'' (''q'', hd demo_targets)] [] = (calls', retained, errors) \<and>
     retained = [] \<and> errors = []"
proof -
  obtain calls' retained errors where run:
    "cleanupSet demo_world [entry ''p'' (''q'', hd demo_targets)] [] = (calls', retained, errors)"
    "errors = []"
    by (simp add: demo_sequence_eval entry_def)
  have "callable [entry ''p'' (''q'', hd demo_targets)]"
    by (simp add: callable_def entry_def demo_targets_def)
  from cleanup_releases_or_retains [OF run(1) this] show ?thesis using run by blast
qed

end
