(* ===== verification/Stages.thy ===== *)
theory Stages
  imports Execution_Plan Sequences
begin

text \<open>
  The execution of a plan's stages on workers (\<open>internal/generation/execution_runtime.go\<close> and
  the calls of \<open>internal/generation/generation.go\<close> it is built from): binding plan targets to
  callers, checking every worker's model metadata before any shard is loaded, loading or
  reusing the shards, and one prefill or decode step through the chain of stages.
\<close>

section \<open>Data\<close>

record execution_target =
  ext_targetID :: string
  ext_caller :: "caller option"

record bound_target =
  bnd_stage :: execution_stage
  bnd_caller :: caller

record stage_load =
  sld_index :: nat
  sld_stage :: execution_stage
  sld_reused :: bool
  sld_wallMicros :: int
  sld_snapshot :: shard_snapshot

record stage_execution =
  sxe_index :: nat
  sxe_stage :: execution_stage
  sxe_operation :: string
  sxe_position :: u64
  sxe_inputKind :: string
  sxe_inputTensorBytes :: nat
  sxe_responseTensorBytes :: nat
  sxe_wallMicros :: int
  sxe_computeMicros :: u64
  sxe_overheadMicros :: int
  sxe_kvCacheBytes :: int
  sxe_memory :: stage_memory
  sxe_terminalSampling :: bool
  sxe_result :: "forward_result option"

datatype stage_error =
    CallFailed string call_error
  | PlanInvalid plan_error
  | TargetCountMismatch nat nat
  | TargetWithoutID nat
  | TargetWithoutCaller string
  | TargetRepeated string
  | StageUnbound nat string string
  | TargetsOutsidePlan
  | NoModelMetadata
  | ModelMetadataInvalid model_result
  | ModelInfoFailed nat string stage_error
  | PlanModelMismatch string execution_model model_result
  | ModelMismatch string model_result model_result
  | StateUnavailable state_error
  | LoadedShardMismatch string
  | NoShardSnapshot
  | StageLoadFailed nat execution_stage stage_error
  | NoExecutionTarget
  | UnsupportedOperation string
  | SequenceIDRequired
  | ForwardWithoutDeadline
  | NoInferenceResult string
  | InferenceInconsistent string string u64 int
  | SampledResponseInvalid string "i32 option" nat
  | TensorResponseInvalid string "i32 option" nat
  | StageFailed nat execution_stage string u64 stage_error
  | NoTerminalResult
  | NoTokenization
  | TokenizedForeignModel string string
  | NegativeTokenID i32
  | NoText
  | DetokenizedForeignModel string string

text \<open>The error of a call under the wrappers, as \<open>errors.As\<close> and \<open>errors.Is\<close> find it.\<close>

fun stageCause :: "stage_error \<Rightarrow> call_error option" where
  "stageCause (CallFailed command e) = Some e"
| "stageCause (ModelInfoFailed index name e) = stageCause e"
| "stageCause (StateUnavailable (StateCallFailed e)) = Some e"
| "stageCause (StageLoadFailed index stage e) = stageCause e"
| "stageCause (StageFailed index stage operation position e) = stageCause e"
| "stageCause e = None"

section \<open>Calls\<close>

definition callWorker ::
  "world \<Rightarrow> call_context \<Rightarrow> caller \<Rightarrow> persistent_request \<Rightarrow> (stage_error, persistent_response) action" where
  "callWorker w ctx c request = wrapping (CallFailed (req_command request)) (calling w ctx c request)"

definition modelRequest :: "string \<Rightarrow> persistent_request" where
  "modelRequest modelID = (plainRequest ''modelInfo'')\<lparr>req_model := Some modelID\<rparr>"

definition metadataInvalid :: "string \<Rightarrow> model_result \<Rightarrow> bool" where
  "metadataInvalid modelID m \<longleftrightarrow>
     mdl_modelID m \<noteq> modelID \<or> mdl_modelType m = [] \<or> mdl_layerCount m \<le> 0 \<or>
     mdl_checkpointFingerprint m = [] \<or> mdl_checkpointBytes m = 0"

definition modelInfo :: "world \<Rightarrow> caller \<Rightarrow> string \<Rightarrow> (stage_error, model_result) action" where
  "modelInfo w c modelID =
     doing (callWorker w OperationContext c (modelRequest modelID)) (\<lambda>response.
       case Option.bind (rsp_result response) wre_model of
         None \<Rightarrow> failing NoModelMetadata
       | Some m \<Rightarrow> if metadataInvalid modelID m then failing (ModelMetadataInvalid m) else give m)"

text \<open>\<open>matchModel\<close> compares every field of the metadata.\<close>

definition matchModel :: "model_result \<Rightarrow> model_result \<Rightarrow> string \<Rightarrow> stage_error + unit" where
  "matchModel expected actual role =
     (if mdl_modelID expected \<noteq> mdl_modelID actual \<or> mdl_modelType expected \<noteq> mdl_modelType actual \<or>
         mdl_layerCount expected \<noteq> mdl_layerCount actual \<or>
         mdl_checkpointFingerprint expected \<noteq> mdl_checkpointFingerprint actual \<or>
         mdl_checkpointBytes expected \<noteq> mdl_checkpointBytes actual
      then Inl (ModelMismatch role expected actual) else Inr ())"

definition matchPlanModel :: "execution_model \<Rightarrow> model_result \<Rightarrow> string \<Rightarrow> stage_error + unit" where
  "matchPlanModel expected actual role =
     (if em_ID expected \<noteq> mdl_modelID actual \<or>
         em_checkpointFingerprint expected \<noteq> mdl_checkpointFingerprint actual \<or>
         em_layerCount expected \<noteq> mdl_layerCount actual
      then Inl (PlanModelMismatch role expected actual) else Inr ())"

section \<open>Shards\<close>

definition validateLoadedShard :: "shard_snapshot \<Rightarrow> load_shard_request \<Rightarrow> stage_error + unit" where
  "validateLoadedShard shard request =
     (if shs_modelID shard \<noteq> lsr_modelID request \<or>
         shs_checkpointFingerprint shard \<noteq> lsr_checkpointFingerprint request \<or>
         shs_layerStart shard \<noteq> lsr_layerStart request \<or> shs_layerEnd shard \<noteq> lsr_layerEnd request \<or>
         shs_ownsInput shard \<noteq> lsr_ownsInput request \<or> shs_ownsOutput shard \<noteq> lsr_ownsOutput request
      then Inl (LoadedShardMismatch (lsr_shardID request)) else Inr ())"

text \<open>\<open>None\<close> where no shard of the identity is loaded; otherwise the first one, if it matches.\<close>

definition findLoadedShard :: "worker_state \<Rightarrow> load_shard_request \<Rightarrow> (stage_error + shard_snapshot) option" where
  "findLoadedShard state request =
     (case find (\<lambda>shard. shs_shardID shard = lsr_shardID request) (wst_loadedShards state) of
        None \<Rightarrow> None
      | Some shard \<Rightarrow> Some (and_then (validateLoadedShard shard request) (\<lambda>_. Inr shard)))"

definition loadRequest :: "load_shard_request \<Rightarrow> persistent_request" where
  "loadRequest request = (plainRequest ''loadShard'')\<lparr>req_loadShard := Some request\<rparr>"

definition shardState :: "world \<Rightarrow> caller \<Rightarrow> (stage_error, worker_state) action" where
  "shardState w c = wrapping StateUnavailable (workerStateOf w (Some c))"

text \<open>
  The load after the state showed no such shard. An explicit rejection is reconciled with
  the current state, where a concurrent session may have loaded the shard.
\<close>

definition rejected :: "stage_error \<Rightarrow> bool" where
  "rejected e = (case stageCause e of None \<Rightarrow> False | Some cause \<Rightarrow> isWorkerRejection cause)"

definition loadShard :: "world \<Rightarrow> caller \<Rightarrow> load_shard_request \<Rightarrow> (stage_error, shard_snapshot \<times> bool) action" where
  "loadShard w c request =
     (\<lambda>calls. case callWorker w OperationContext c (loadRequest request) calls of
        (calls', Inr response) \<Rightarrow>
          (case Option.bind (rsp_result response) wre_shard of
             None \<Rightarrow> (calls', Inl NoShardSnapshot)
           | Some shard \<Rightarrow> (calls', and_then (validateLoadedShard shard request) (\<lambda>_. Inr (shard, False))))
      | (calls', Inl e) \<Rightarrow>
          if \<not> rejected e then (calls', Inl e)
          else case shardState w c calls' of
            (calls'', Inl _) \<Rightarrow> (calls'', Inl e)
          | (calls'', Inr refreshed) \<Rightarrow>
              case findLoadedShard refreshed request of
                None \<Rightarrow> (calls'', Inl e)
              | Some found \<Rightarrow> (calls'', and_then found (\<lambda>shard. Inr (shard, True))))"

definition ensureShard :: "world \<Rightarrow> caller \<Rightarrow> load_shard_request \<Rightarrow> (stage_error, shard_snapshot \<times> bool) action" where
  "ensureShard w c request =
     doing (shardState w c) (\<lambda>state.
       case findLoadedShard state request of
         Some found \<Rightarrow> outcome (and_then found (\<lambda>shard. Inr (shard, True)))
       | None \<Rightarrow> loadShard w c request)"

section \<open>Binding and preflight\<close>

fun indexTargets ::
  "nat \<Rightarrow> (string \<times> caller) list \<Rightarrow> execution_target list \<Rightarrow> stage_error + (string \<times> caller) list" where
  "indexTargets index byID [] = Inr byID"
| "indexTargets index byID (target # rest) =
     (if ext_targetID target = [] then Inl (TargetWithoutID index)
      else case ext_caller target of
        None \<Rightarrow> Inl (TargetWithoutCaller (ext_targetID target))
      | Some c \<Rightarrow>
          if map_of byID (ext_targetID target) \<noteq> None then Inl (TargetRepeated (ext_targetID target))
          else indexTargets (Suc index) ((ext_targetID target, c) # byID) rest)"

fun bindStages ::
  "nat \<Rightarrow> (string \<times> caller) list \<Rightarrow> execution_stage list \<Rightarrow> stage_error + bound_target list \<times> (string \<times> caller) list" where
  "bindStages index byID [] = Inr ([], byID)"
| "bindStages index byID (stage # rest) =
     (case map_of byID (es_targetID stage) of
        None \<Rightarrow> Inl (StageUnbound index (es_name stage) (es_targetID stage))
      | Some c \<Rightarrow>
          and_then (bindStages (Suc index) (AList.delete (es_targetID stage) byID) rest) (\<lambda>(bound, left).
            Inr (\<lparr>bnd_stage = stage, bnd_caller = c\<rparr> # bound, left)))"

definition bindExecutionTargets ::
  "execution_plan \<Rightarrow> execution_target list \<Rightarrow> stage_error + bound_target list" where
  "bindExecutionTargets plan targets =
     (if length targets \<noteq> length (ep_stages plan)
      then Inl (TargetCountMismatch (length targets) (length (ep_stages plan)))
      else and_then (indexTargets 0 [] targets) (\<lambda>byID.
        and_then (bindStages 0 byID (ep_stages plan)) (\<lambda>(bound, left).
          if left \<noteq> [] then Inl TargetsOutsidePlan else Inr bound)))"

definition stageModel :: "world \<Rightarrow> execution_model \<Rightarrow> nat \<times> bound_target \<Rightarrow> (stage_error, model_result) action" where
  "stageModel w expected = (\<lambda>(index, target).
     doing (wrapping (ModelInfoFailed index (es_name (bnd_stage target))) (modelInfo w (bnd_caller target) (em_ID expected)))
       (\<lambda>m. doing (outcome (matchPlanModel expected m (es_name (bnd_stage target)))) (\<lambda>_. give m)))"

fun matchModels :: "model_result \<Rightarrow> (bound_target \<times> model_result) list \<Rightarrow> stage_error + unit" where
  "matchModels first [] = Inr ()"
| "matchModels first ((target, m) # rest) =
     and_then (matchModel first m (es_name (bnd_stage target))) (\<lambda>_. matchModels first rest)"

definition preflightExecutionTargets ::
  "digests \<Rightarrow> world \<Rightarrow> execution_plan \<Rightarrow> execution_target list \<Rightarrow> (stage_error, bound_target list \<times> model_result) action" where
  "preflightExecutionTargets dg w plan targets =
     doing (outcome (map_error PlanInvalid (validateExecutionPlan dg plan))) (\<lambda>_.
     doing (outcome (bindExecutionTargets plan targets)) (\<lambda>bound.
     doing (each (stageModel w (ep_model plan)) (indexed bound)) (\<lambda>models.
     doing (outcome (matchModels (hd models) (tl (zip bound models)))) (\<lambda>_.
       give (bound, hd models)))))"

definition stageLoadRequest :: "execution_model \<Rightarrow> execution_stage \<Rightarrow> load_shard_request" where
  "stageLoadRequest m stage =
     \<lparr>lsr_modelID = em_ID m, lsr_shardID = es_shardID stage,
      lsr_checkpointFingerprint = em_checkpointFingerprint m,
      lsr_layerStart = es_layerStart stage, lsr_layerEnd = es_layerEnd stage,
      lsr_ownsInput = es_ownsInput stage, lsr_ownsOutput = es_ownsOutput stage\<rparr>"

definition loadStage :: "world \<Rightarrow> execution_model \<Rightarrow> nat \<times> bound_target \<Rightarrow> (stage_error, stage_load) action" where
  "loadStage w m = (\<lambda>(index, target).
     doing (wrapping (StageLoadFailed index (bnd_stage target))
         (timed w (ensureShard w (bnd_caller target) (stageLoadRequest m (bnd_stage target)))))
       (\<lambda>(wallMicros, snapshot, reused).
         give \<lparr>sld_index = index, sld_stage = bnd_stage target, sld_reused = reused,
           sld_wallMicros = wallMicros, sld_snapshot = snapshot\<rparr>))"

text \<open>The loads made before a failure are discarded by both callers, and here.\<close>

definition loadExecutionTargets ::
  "world \<Rightarrow> execution_plan \<Rightarrow> bound_target list \<Rightarrow> (stage_error, stage_load list) action" where
  "loadExecutionTargets w plan bound = each (loadStage w (ep_model plan)) (indexed bound)"

definition prepareExecutionTargets ::
  "digests \<Rightarrow> world \<Rightarrow> execution_plan \<Rightarrow> execution_target list \<Rightarrow> (stage_error, model_result) action" where
  "prepareExecutionTargets dg w plan targets =
     doing (preflightExecutionTargets dg w plan targets) (\<lambda>(bound, m).
     doing (loadExecutionTargets w plan bound) (\<lambda>_. give m))"

definition executionSequenceTargets :: "bound_target list \<Rightarrow> sequence_target list" where
  "executionSequenceTargets = map (\<lambda>target.
     \<lparr>sqt_name = es_name (bnd_stage target), sqt_caller = Some (bnd_caller target),
      sqt_shardID = es_shardID (bnd_stage target)\<rparr>)"

section \<open>A forward step\<close>

definition positiveDifference :: "int \<Rightarrow> u64 \<Rightarrow> int" where
  "positiveDifference wallMicros computeMicros =
     (if word_of_int wallMicros \<le> computeMicros then 0 else wrap_int (wallMicros - sint computeMicros))"

definition forwardRequest ::
  "string \<Rightarrow> instant \<Rightarrow> string \<Rightarrow> string \<Rightarrow> u64 \<Rightarrow> string \<Rightarrow> wire_tensor \<Rightarrow> bool \<Rightarrow> persistent_request" where
  "forwardRequest command deadline shardID sequenceID position inputKind input returnSampledToken =
     (plainRequest command)\<lparr>req_deadlineUnixMillis := wireDeadlineUnixMillis deadline,
        req_forward := Some \<lparr>fwr_shardID = shardID, fwr_sequenceID = sequenceID, fwr_position = position,
          fwr_inputKind = inputKind, fwr_input = input, fwr_returnSampledToken = returnSampledToken\<rparr>\<rparr>"

text \<open>What \<open>infer\<close> accepts of a worker's answer.\<close>

definition checkForward ::
  "string \<Rightarrow> u64 \<Rightarrow> bool \<Rightarrow> persistent_response \<Rightarrow> stage_error + forward_result" where
  "checkForward command position returnSampledToken response =
     (case Option.bind (rsp_result response) wre_forward of
        None \<Rightarrow> Inl (NoInferenceResult command)
      | Some r \<Rightarrow>
          if fwd_operation r \<noteq> command \<or> fwd_position r \<noteq> position \<or> fwd_kvCacheBytes r \<le> 0
          then Inl (InferenceInconsistent command (fwd_operation r) (fwd_position r) (fwd_kvCacheBytes r))
          else if returnSampledToken
          then if fwd_sampledTokenID r = None \<or> wt_data (fwd_output r) \<noteq> []
               then Inl (SampledResponseInvalid command (fwd_sampledTokenID r) (length (wt_data (fwd_output r))))
               else Inr r
          else if fwd_sampledTokenID r \<noteq> None \<or> wt_data (fwd_output r) = []
               then Inl (TensorResponseInvalid command (fwd_sampledTokenID r) (length (wt_data (fwd_output r))))
               else Inr r)"

definition infer ::
  "world \<Rightarrow> instant option \<Rightarrow> caller \<Rightarrow> string \<Rightarrow> string \<Rightarrow> string \<Rightarrow> u64 \<Rightarrow> string \<Rightarrow> wire_tensor \<Rightarrow> bool \<Rightarrow>
   (stage_error, forward_result) action" where
  "infer w contextDeadline c command shardID sequenceID position inputKind input returnSampledToken =
     (case contextDeadline of
        None \<Rightarrow> failing ForwardWithoutDeadline
      | Some deadline \<Rightarrow>
          doing (callWorker w (ForwardContext deadline) c
              (forwardRequest command deadline shardID sequenceID position inputKind input returnSampledToken))
            (\<lambda>response. outcome (checkForward command position returnSampledToken response)))"

text \<open>\<open>context.WithTimeout\<close>: the earlier of the timeout from now and the deadline there is.\<close>

definition timeoutDeadline :: "world \<Rightarrow> duration \<Rightarrow> call_log \<Rightarrow> instant" where
  "timeoutDeadline w timeout calls =
     (case wld_deadline w of
        None \<Rightarrow> wld_now w calls + timeout
      | Some d \<Rightarrow> min d (wld_now w calls + timeout))"

definition measuredInfer ::
  "world \<Rightarrow> duration \<Rightarrow> caller \<Rightarrow> string \<Rightarrow> string \<Rightarrow> string \<Rightarrow> u64 \<Rightarrow> string \<Rightarrow> wire_tensor \<Rightarrow> bool \<Rightarrow>
   (stage_error, int \<times> forward_result) action" where
  "measuredInfer w timeout c command shardID sequenceID position inputKind input returnSampledToken =
     (\<lambda>calls. timed w (infer w (Some (timeoutDeadline w timeout calls)) c command shardID sequenceID position
        inputKind input returnSampledToken) calls)"

text \<open>The sizes of the JSON frames and the time it takes to build them are left out.\<close>

definition newStageExecution ::
  "nat \<Rightarrow> execution_stage \<Rightarrow> string \<Rightarrow> u64 \<Rightarrow> string \<Rightarrow> wire_tensor \<Rightarrow> forward_result \<Rightarrow> int \<Rightarrow> stage_execution" where
  "newStageExecution index stage operation position inputKind input r wallMicros =
     \<lparr>sxe_index = index, sxe_stage = stage, sxe_operation = operation, sxe_position = position,
      sxe_inputKind = inputKind, sxe_inputTensorBytes = length (wt_data input),
      sxe_responseTensorBytes = length (wt_data (fwd_output r)), sxe_wallMicros = wallMicros,
      sxe_computeMicros = fwd_computeMicros r, sxe_overheadMicros = positiveDifference wallMicros (fwd_computeMicros r),
      sxe_kvCacheBytes = fwd_kvCacheBytes r, sxe_memory = fwd_memory r,
      sxe_terminalSampling = (fwd_sampledTokenID r \<noteq> None), sxe_result = Some r\<rparr>"

section \<open>The chain of stages\<close>

definition returnsSampled :: "execution_stage \<Rightarrow> bool" where
  "returnsSampled stage \<longleftrightarrow> es_responseMode stage = stageResponseSampledToken"

text \<open>
  The loop: each stage's output is the next one's hidden input. The executions so far are
  returned with an error.
\<close>

fun chainLoop ::
  "world \<Rightarrow> duration \<Rightarrow> string \<Rightarrow> string \<Rightarrow> u64 \<Rightarrow> nat \<Rightarrow> string \<Rightarrow> wire_tensor \<Rightarrow> bound_target list \<Rightarrow>
   call_log \<Rightarrow> call_log \<times> stage_execution list \<times> (stage_error + forward_result)" where
  "chainLoop w timeout operation sequenceID position index inputKind current [] calls =
     (calls, [], Inl NoTerminalResult)"
| "chainLoop w timeout operation sequenceID position index inputKind current (target # rest) calls =
     (let stage = bnd_stage target in
      case measuredInfer w timeout (bnd_caller target) operation (es_shardID stage) sequenceID position
          inputKind current (returnsSampled stage) calls of
        (calls', Inl e) \<Rightarrow> (calls', [], Inl (StageFailed index stage operation position e))
      | (calls', Inr (wallMicros, r)) \<Rightarrow>
          let execution = newStageExecution index stage operation position inputKind current r wallMicros in
          if rest = [] then (calls', [execution], Inr r)
          else let (calls'', executions, terminal) =
              chainLoop w timeout operation sequenceID position (Suc index) ''hidden'' (fwd_output r) rest calls'
            in (calls'', execution # executions, terminal))"

definition executeBoundStageChain ::
  "world \<Rightarrow> duration \<Rightarrow> bound_target list \<Rightarrow> string \<Rightarrow> string \<Rightarrow> u64 \<Rightarrow> wire_tensor \<Rightarrow>
   call_log \<Rightarrow> call_log \<times> stage_execution list \<times> (stage_error + forward_result)" where
  "executeBoundStageChain w timeout targets operation sequenceID position input calls =
     (if targets = [] then (calls, [], Inl NoExecutionTarget)
      else if operation \<noteq> ''prefill'' \<and> operation \<noteq> ''decode''
      then (calls, [], Inl (UnsupportedOperation operation))
      else if sequenceID = [] then (calls, [], Inl SequenceIDRequired)
      else chainLoop w timeout operation sequenceID position 0 ''tokens'' input targets calls)"

definition executeStageChain ::
  "digests \<Rightarrow> world \<Rightarrow> duration \<Rightarrow> execution_plan \<Rightarrow> execution_target list \<Rightarrow> string \<Rightarrow> string \<Rightarrow> u64 \<Rightarrow>
   wire_tensor \<Rightarrow> call_log \<Rightarrow> call_log \<times> stage_execution list \<times> (stage_error + forward_result)" where
  "executeStageChain dg w timeout plan targets operation sequenceID position input calls =
     (case validateExecutionPlan dg plan of
        Inl e \<Rightarrow> (calls, [], Inl (PlanInvalid e))
      | Inr _ \<Rightarrow>
     case bindExecutionTargets plan targets of
        Inl e \<Rightarrow> (calls, [], Inl e)
      | Inr bound \<Rightarrow> executeBoundStageChain w timeout bound operation sequenceID position input calls)"

section \<open>Well-formed requests\<close>

text \<open>
  The payload a command comes with, as the worker expects it, and the deadline: exactly the
  inference requests carry one, that of the context they are sent in.
\<close>

definition payloads :: "persistent_request \<Rightarrow> bool list" where
  "payloads r =
     [req_loadShard r \<noteq> None, req_shard r \<noteq> None, req_sequence r \<noteq> None, req_forward r \<noteq> None,
      req_model r \<noteq> None, req_text r \<noteq> None]"

definition payload_of :: "string \<Rightarrow> bool list option" where
  "payload_of command =
     map_of
      [(''state'', [False, False, False, False, False, False]),
       (''loadShard'', [True, False, False, False, False, False]),
       (''openSequence'', [False, False, True, False, False, False]),
       (''closeSequence'', [False, False, True, False, False, False]),
       (''prefill'', [False, False, False, True, False, False]),
       (''decode'', [False, False, False, True, False, False]),
       (''modelInfo'', [False, False, False, False, True, False]),
       (''tokenize'', [False, False, False, False, False, True]),
       (''detokenize'', [False, False, False, False, False, True])] command"

definition well_formed_call :: "worker_call \<Rightarrow> bool" where
  "well_formed_call call \<longleftrightarrow>
     (let r = wcl_request call in
      payload_of (req_command r) = Some (payloads r) \<and>
      (case wcl_context call of
         ForwardContext deadline \<Rightarrow>
           isInferenceCommand (req_command r) \<and> req_deadlineUnixMillis r = wireDeadlineUnixMillis deadline
       | _ \<Rightarrow> \<not> isInferenceCommand (req_command r) \<and> req_deadlineUnixMillis r = 0))"

lemmas well_formed_defs = well_formed_call_def payload_of_def payloads_def isInferenceCommand_def
  plainRequest_def Let_def

lemma emits_callWorker [emits_intros]:
  "(\<And>a. P \<lparr>wcl_context = ctx, wcl_caller = c, wcl_request = request, wcl_answer = a\<rparr>) \<Longrightarrow>
   emits P (callWorker w ctx c request)"
  by (auto simp: callWorker_def intro!: emits_intros)

definition is_modelInfo :: "worker_call \<Rightarrow> bool" where
  "is_modelInfo call \<longleftrightarrow> (\<exists>modelID. wcl_context call = OperationContext \<and> wcl_request call = modelRequest modelID)"

definition is_state :: "worker_call \<Rightarrow> bool" where
  "is_state call \<longleftrightarrow> wcl_context call = OperationContext \<and> wcl_request call = plainRequest ''state''"

lemma is_modelInfo_well_formed: "is_modelInfo call \<Longrightarrow> well_formed_call call"
  by (auto simp: is_modelInfo_def modelRequest_def well_formed_defs)

lemma is_state_well_formed: "is_state call \<Longrightarrow> well_formed_call call"
  by (auto simp: is_state_def well_formed_defs)

lemma emits_modelInfo: "emits is_modelInfo (modelInfo w c modelID)"
  by (auto simp: modelInfo_def is_modelInfo_def intro!: emits_intros)

lemma emits_shardState: "emits is_state (shardState w c)"
  unfolding shardState_def by (intro emits_wrapping emits_workerStateOf) (simp add: is_state_def)

definition is_load :: "caller \<Rightarrow> load_shard_request \<Rightarrow> worker_call \<Rightarrow> bool" where
  "is_load c request call \<longleftrightarrow>
     is_state call \<or> wcl_context call = OperationContext \<and> wcl_caller call = c \<and> wcl_request call = loadRequest request"

lemma load_well_formed:
  "wcl_context call = OperationContext \<Longrightarrow> wcl_request call = loadRequest request \<Longrightarrow> well_formed_call call"
  by (simp add: loadRequest_def well_formed_defs)

lemma is_load_well_formed: "is_load c request call \<Longrightarrow> well_formed_call call"
  using is_state_well_formed load_well_formed unfolding is_load_def by blast

lemma emits_fst: "emits P m \<Longrightarrow> \<exists>new. fst (m calls) = calls @ new \<and> (\<forall>c \<in> set new. P c)"
  by (simp add: emits_def)

lemma emits_run:
  assumes "emits P m" "m calls = (calls', r)"
  obtains new where "calls' = calls @ new" "\<forall>c \<in> set new. P c"
  using emits_fst [OF assms(1), of calls] assms(2) by auto

lemma emits_loadShard: "emits (is_load c request) (loadShard w c request)"
  unfolding emits_def
proof
  fix calls
  have state: "emits (is_load c request) (shardState w c)"
    using emits_shardState emits_mono is_load_def by metis
  have load: "emits (is_load c request) (callWorker w OperationContext c (loadRequest request))"
    by (rule emits_callWorker) (simp add: is_load_def)
  obtain l r where l: "callWorker w OperationContext c (loadRequest request) calls = (l, r)" by fastforce
  obtain new where new: "l = calls @ new" "\<forall>call \<in> set new. is_load c request call"
    using emits_run [OF load l] by blast
  obtain l' r' where l': "shardState w c l = (l', r')" by fastforce
  obtain new' where new': "l' = l @ new'" "\<forall>call \<in> set new'. is_load c request call"
    using emits_run [OF state l'] by blast
  have "fst (loadShard w c request calls) \<in> {l, l'}"
    by (auto simp: loadShard_def l l' split: sum.splits option.splits)
  then show "\<exists>new. fst (loadShard w c request calls) = calls @ new \<and> (\<forall>call \<in> set new. is_load c request call)"
    using new new' by (auto intro: exI [of _ new] exI [of _ "new @ new'"])
qed

lemma emits_ensureShard: "emits (is_load c request) (ensureShard w c request)"
  unfolding ensureShard_def
proof (intro emits_doing emits_option emits_leaf emits_loadShard)
  show "emits (is_load c request) (shardState w c)"
    using emits_shardState emits_mono is_load_def by metis
qed

section \<open>What preparation establishes\<close>

text \<open>A worker's answer to a request for the metadata of the plan's model.\<close>

definition reports_model :: "execution_model \<Rightarrow> model_result \<Rightarrow> caller \<Rightarrow> worker_call \<Rightarrow> bool" where
  "reports_model expected m c call \<longleftrightarrow>
     wcl_caller call = c \<and> wcl_request call = modelRequest (em_ID expected) \<and>
     (\<exists>response. wcl_answer call = Inr response \<and> Option.bind (rsp_result response) wre_model = Some m) \<and>
     mdl_modelID m = em_ID expected \<and> mdl_checkpointFingerprint m = em_checkpointFingerprint expected \<and>
     mdl_layerCount m = em_layerCount expected"

lemma modelInfo_Inr:
  assumes "modelInfo w c modelID calls = (calls', Inr m)"
  shows "\<exists>call. calls' = calls @ [call] \<and> wcl_caller call = c \<and> wcl_request call = modelRequest modelID \<and>
    (\<exists>response. wcl_answer call = Inr response \<and> Option.bind (rsp_result response) wre_model = Some m)"
  using assms
  by (auto simp: modelInfo_def callWorker_def doing_Inr wrapping_Inr calling_Inr leaf_Inr
      split: option.splits if_splits)

lemma matchPlanModel_Inr:
  "matchPlanModel expected m role = Inr u \<longleftrightarrow> em_ID expected = mdl_modelID m \<and>
   em_checkpointFingerprint expected = mdl_checkpointFingerprint m \<and> em_layerCount expected = mdl_layerCount m"
  by (simp add: matchPlanModel_def)

lemma matchModel_Inr: "matchModel expected m role = Inr u \<longleftrightarrow> m = expected"
  by (auto simp: matchModel_def)

lemma stageModel_Inr:
  assumes "stageModel w expected (i, target) calls = (calls', Inr m)"
  shows "\<exists>call. calls' = calls @ [call] \<and> reports_model expected m (bnd_caller target) call"
  using assms modelInfo_Inr
  by (fastforce simp: stageModel_def doing_Inr wrapping_Inr leaf_Inr matchPlanModel_Inr reports_model_def)

lemma each_single:
  assumes "each f xs calls = (calls', Inr ys)"
    "\<And>x calls calls' y. f x calls = (calls', Inr y) \<Longrightarrow> \<exists>call. calls' = calls @ [call] \<and> R x y call"
  shows "\<exists>new. calls' = calls @ new \<and> length new = length xs \<and> length ys = length xs \<and>
    (\<forall>i < length xs. R (xs ! i) (ys ! i) (new ! i))"
  using assms(1)
proof (induction xs arbitrary: calls ys)
  case Nil
  then show ?case by (simp add: leaf_Inr)
next
  case (Cons x xs)
  obtain l y ys' where l: "f x calls = (l, Inr y)" "each f xs l = (calls', Inr ys')" "ys = y # ys'"
    using Cons.prems by (auto simp: doing_Inr leaf_Inr)
  obtain call where "l = calls @ [call]" "R x y call" using assms(2) [OF l(1)] by blast
  moreover obtain new where "calls' = l @ new" "length new = length xs" "length ys' = length xs"
    "\<forall>i < length xs. R (xs ! i) (ys' ! i) (new ! i)"
    using Cons.IH [OF l(2)] by blast
  ultimately show ?case
    using l(3) by (intro exI [of _ "call # new"]) (auto simp: nth_Cons split: nat.splits)
qed

lemma matchModels_Inr: "matchModels m pairs = Inr u \<Longrightarrow> (t, m') \<in> set pairs \<Longrightarrow> m' = m"
  by (induction m pairs rule: matchModels.induct) (auto simp: and_then_Inr matchModel_Inr)

lemma validate_nonempty: "validateExecutionPlan dg plan = Inr u \<Longrightarrow> ep_stages plan \<noteq> []"
  by (auto simp: validateExecutionPlan_def Let_def split: if_splits)

lemma bindStages_stages:
  "bindStages i byID stages = Inr (bound, left) \<Longrightarrow> map bnd_stage bound = stages"
  by (induction stages arbitrary: i byID bound left)
    (auto simp: and_then_Inr split: option.splits)

lemma bindExecutionTargets_stages:
  "bindExecutionTargets plan targets = Inr bound \<Longrightarrow> map bnd_stage bound = ep_stages plan"
  by (auto simp: bindExecutionTargets_def and_then_Inr split: if_splits dest: bindStages_stages)

lemma preflight_Inr:
  assumes "preflightExecutionTargets dg w plan targets calls = (calls', Inr (bound, m))"
  shows "validateExecutionPlan dg plan = Inr () \<and> bindExecutionTargets plan targets = Inr bound \<and>
    map bnd_stage bound = ep_stages plan \<and>
    (\<exists>infos. calls' = calls @ infos \<and> length infos = length bound \<and>
       (\<forall>i < length bound. reports_model (ep_model plan) m (bnd_caller (bound ! i)) (infos ! i)))"
proof -
  obtain models where run: "validateExecutionPlan dg plan = Inr ()" "bindExecutionTargets plan targets = Inr bound"
    "each (stageModel w (ep_model plan)) (indexed bound) calls = (calls', Inr models)"
    "matchModels (hd models) (tl (zip bound models)) = Inr ()" "m = hd models"
    using assms by (auto simp: preflightExecutionTargets_def doing_Inr leaf_Inr)
  have bound: "map bnd_stage bound = ep_stages plan" by (rule bindExecutionTargets_stages [OF run(2)])
  then have "bound \<noteq> []" using validate_nonempty [OF run(1)] by auto
  obtain infos where infos: "calls' = calls @ infos" "length infos = length bound" "length models = length bound"
    "\<forall>i < length bound. reports_model (ep_model plan) (models ! i) (bnd_caller (bound ! i)) (infos ! i)"
    using each_single [OF run(3), of "\<lambda>(i, t) m call. reports_model (ep_model plan) m (bnd_caller t) call"]
      stageModel_Inr by fastforce
  have "models ! i = m" if i: "i < length bound" for i
  proof (cases i)
    case 0
    then show ?thesis using run(5) infos(3) \<open>bound \<noteq> []\<close> by (metis hd_conv_nth length_0_conv)
  next
    case (Suc j)
    then have "tl (zip bound models) ! j = (bound ! i, models ! i)"
      using i infos(3) by (simp add: nth_tl)
    moreover have "j < length (tl (zip bound models))" using i infos(3) Suc by simp
    ultimately have "(bound ! i, models ! i) \<in> set (tl (zip bound models))" by (metis nth_mem)
    then show ?thesis using matchModels_Inr run(4,5) by blast
  qed
  then show ?thesis using run bound infos by auto
qed

lemma emits_preflight: "emits is_modelInfo (preflightExecutionTargets dg w plan targets)"
  unfolding preflightExecutionTargets_def stageModel_def
  by (auto intro!: emits_intros emits_each emits_modelInfo)

section \<open>Loading\<close>

definition snapshot_matches :: "load_shard_request \<Rightarrow> shard_snapshot \<Rightarrow> bool" where
  "snapshot_matches request shard \<longleftrightarrow>
     shs_modelID shard = lsr_modelID request \<and>
     shs_checkpointFingerprint shard = lsr_checkpointFingerprint request \<and>
     shs_layerStart shard = lsr_layerStart request \<and> shs_layerEnd shard = lsr_layerEnd request \<and>
     shs_ownsInput shard = lsr_ownsInput request \<and> shs_ownsOutput shard = lsr_ownsOutput request"

lemma validateLoadedShard_Inr: "validateLoadedShard shard request = Inr u \<longleftrightarrow> snapshot_matches request shard"
  by (auto simp: validateLoadedShard_def snapshot_matches_def)

lemma findLoadedShard_Inr: "findLoadedShard state request = Some (Inr shard) \<Longrightarrow> snapshot_matches request shard"
  by (auto simp: findLoadedShard_def and_then_Inr validateLoadedShard_Inr split: option.splits)

lemma loadShard_Inr: "loadShard w c request calls = (calls', Inr (shard, reused)) \<Longrightarrow> snapshot_matches request shard"
  by (auto simp: loadShard_def and_then_Inr validateLoadedShard_Inr
      split: prod.splits sum.splits option.splits if_splits dest: findLoadedShard_Inr)

lemma ensureShard_Inr:
  assumes "ensureShard w c request calls = (calls', Inr (shard, reused))"
  shows "snapshot_matches request shard"
proof -
  obtain l state where "(case findLoadedShard state request of
      Some found \<Rightarrow> outcome (and_then found (\<lambda>shard. Inr (shard, True)))
    | None \<Rightarrow> loadShard w c request) l = (calls', Inr (shard, reused))"
    using assms by (auto simp: ensureShard_def doing_Inr)
  then show ?thesis
    by (auto simp: leaf_Inr and_then_Inr split: option.splits dest: loadShard_Inr findLoadedShard_Inr)
qed

lemma loadExecutionTargets_Inr:
  assumes "loadExecutionTargets w plan bound calls = (calls', Inr loads)"
  shows "length loads = length bound \<and>
    (\<forall>i < length bound. sld_index (loads ! i) = i \<and> sld_stage (loads ! i) = bnd_stage (bound ! i) \<and>
       snapshot_matches (stageLoadRequest (ep_model plan) (bnd_stage (bound ! i))) (sld_snapshot (loads ! i)))"
proof -
  note run = each_nth [OF assms [unfolded loadExecutionTargets_def]]
  have "sld_index l = i \<and> sld_stage l = bnd_stage t \<and>
      snapshot_matches (stageLoadRequest (ep_model plan) (bnd_stage t)) (sld_snapshot l)"
    if "loadStage w (ep_model plan) (i, t) c = (c', Inr l)" for i t c c' l
    using that by (auto simp: loadStage_def doing_Inr wrapping_Inr timed_Inr leaf_Inr dest!: ensureShard_Inr)
  then show ?thesis using run by fastforce
qed

definition loads_stage :: "execution_plan \<Rightarrow> bound_target list \<Rightarrow> worker_call \<Rightarrow> bool" where
  "loads_stage plan bound call \<longleftrightarrow>
     (\<exists>t \<in> set bound. is_load (bnd_caller t) (stageLoadRequest (ep_model plan) (bnd_stage t)) call)"

lemma emits_loadExecutionTargets: "emits (loads_stage plan bound) (loadExecutionTargets w plan bound)"
  unfolding loadExecutionTargets_def
proof (rule emits_each)
  fix x
  assume "x \<in> set (indexed bound)"
  then obtain i t where x: "x = (i, t)" "t \<in> set bound" by (auto simp: set_indexed)
  have "emits (loads_stage plan bound) (ensureShard w (bnd_caller t) (stageLoadRequest (ep_model plan) (bnd_stage t)))"
    by (rule emits_mono [OF emits_ensureShard]) (use x in \<open>auto simp: loads_stage_def\<close>)
  then show "emits (loads_stage plan bound) (loadStage w (ep_model plan) x)"
    unfolding x loadStage_def by (auto intro!: emits_doing emits_wrapping emits_timed emits_leaf)
qed

section \<open>What a traversal sends\<close>

text \<open>The call by which a stage is given an input and accepted with a result.\<close>

definition forward_call ::
  "string \<Rightarrow> string \<Rightarrow> u64 \<Rightarrow> string \<Rightarrow> wire_tensor \<Rightarrow> bound_target \<Rightarrow> forward_result \<Rightarrow> worker_call \<Rightarrow> bool" where
  "forward_call operation sequenceID position inputKind input target r call \<longleftrightarrow>
     wcl_caller call = bnd_caller target \<and>
     (\<exists>d. wcl_context call = ForwardContext d \<and>
        wcl_request call = forwardRequest operation d (es_shardID (bnd_stage target)) sequenceID position
          inputKind input (returnsSampled (bnd_stage target))) \<and>
     (\<exists>response. wcl_answer call = Inr response \<and>
        checkForward operation position (returnsSampled (bnd_stage target)) response = Inr r)"

text \<open>The answer is the environment's, after the calls that precede.\<close>

definition answered_by :: "world \<Rightarrow> call_log \<Rightarrow> worker_call \<Rightarrow> bool" where
  "answered_by w calls call \<longleftrightarrow>
     wcl_answer call = wld_answer w calls (wcl_context call) (wcl_caller call) (wcl_request call)"

lemma measuredInfer_Inr:
  assumes "measuredInfer w timeout (bnd_caller t) operation (es_shardID (bnd_stage t)) sequenceID position
      inputKind input (returnsSampled (bnd_stage t)) calls = (calls', Inr (wall, r))"
  shows "\<exists>call. calls' = calls @ [call] \<and> forward_call operation sequenceID position inputKind input t r call \<and>
    answered_by w calls call"
  using assms
  by (auto simp: measuredInfer_def timed_Inr infer_def callWorker_def doing_Inr wrapping_Inr calling_Inr leaf_Inr
      forward_call_def answered_by_def)

lemma chainLoop_Inr:
  assumes "chainLoop w timeout operation sequenceID position k inputKind input targets calls = (calls', exs, Inr r)"
  shows "\<exists>new rs. calls' = calls @ new \<and> length new = length targets \<and> length rs = length targets \<and>
    targets \<noteq> [] \<and> r = last rs \<and>
    (\<forall>i < length targets. forward_call operation sequenceID position (if i = 0 then inputKind else ''hidden'')
       (if i = 0 then input else fwd_output (rs ! (i - 1))) (targets ! i) (rs ! i) (new ! i)) \<and>
    map sxe_index exs = [k..<k + length targets] \<and> map sxe_result exs = map Some rs \<and>
    map sxe_stage exs = map bnd_stage targets \<and>
    (\<forall>i < length targets. answered_by w (calls @ take i new) (new ! i))"
  using assms
proof (induction targets arbitrary: k inputKind input calls exs)
  case Nil
  then show ?case by simp
next
  case (Cons t targets)
  obtain l wall r1 where one: "measuredInfer w timeout (bnd_caller t) operation (es_shardID (bnd_stage t)) sequenceID
      position inputKind input (returnsSampled (bnd_stage t)) calls = (l, Inr (wall, r1))"
    using Cons.prems by (auto simp: Let_def split: prod.splits sum.splits)
  define ex where "ex = newStageExecution k (bnd_stage t) operation position inputKind input r1 wall"
  have ex: "sxe_index ex = k" "sxe_result ex = Some r1" "sxe_stage ex = bnd_stage t"
    by (simp_all add: ex_def newStageExecution_def)
  obtain call where call: "l = calls @ [call]" "forward_call operation sequenceID position inputKind input t r1 call"
    "answered_by w calls call"
    using measuredInfer_Inr [OF one] by blast
  show ?case
  proof (cases "targets = []")
    case True
    then show ?thesis
      using Cons.prems one call ex unfolding ex_def
      by (intro exI [of _ "[call]"] exI [of _ "[r1]"]) (auto simp: Let_def)
  next
    case False
    obtain exs' where rest: "chainLoop w timeout operation sequenceID position (Suc k) ''hidden'' (fwd_output r1)
        targets l = (calls', exs', Inr r)" and exs: "exs = ex # exs'"
      using Cons.prems one False unfolding ex_def by (auto simp: Let_def split: prod.splits)
    obtain new rs where IH: "calls' = l @ new" "length new = length targets" "length rs = length targets" "r = last rs"
      "\<forall>i < length targets. forward_call operation sequenceID position ''hidden''
         (if i = 0 then fwd_output r1 else fwd_output (rs ! (i - 1))) (targets ! i) (rs ! i) (new ! i)"
      "map sxe_index exs' = [Suc k..<Suc k + length targets]" "map sxe_result exs' = map Some rs"
      "map sxe_stage exs' = map bnd_stage targets"
      "\<forall>i < length targets. answered_by w (l @ take i new) (new ! i)"
      using Cons.IH [OF rest] by auto
    have "\<forall>i < length (t # targets). forward_call operation sequenceID position (if i = 0 then inputKind else ''hidden'')
        (if i = 0 then input else fwd_output ((r1 # rs) ! (i - 1))) ((t # targets) ! i) ((r1 # rs) ! i) ((call # new) ! i)"
      using call IH(5) by (auto simp: nth_Cons split: nat.splits)
    moreover have "\<forall>i < length (t # targets). answered_by w (calls @ take i (call # new)) ((call # new) ! i)"
      using call IH(9) by (auto simp: nth_Cons split: nat.splits)
    moreover have "[k..<k + length (t # targets)] = k # [Suc k..<Suc k + length targets]"
      by (simp add: upt_conv_Cons del: upt_Suc)
    ultimately show ?thesis
      using call ex exs IH False
      by (intro exI [of _ "call # new"] exI [of _ "r1 # rs"]) (auto simp del: upt_Suc)
  qed
qed

definition is_forward :: "worker_call \<Rightarrow> bool" where
  "is_forward call \<longleftrightarrow>
     (\<exists>operation d shardID sequenceID position inputKind input sampled. operation \<in> {''prefill'', ''decode''} \<and>
        wcl_context call = ForwardContext d \<and>
        wcl_request call = forwardRequest operation d shardID sequenceID position inputKind input sampled)"

lemma forward_isI:
  "wcl_request call = forwardRequest operation d shardID sequenceID position inputKind input sampled \<Longrightarrow>
   wcl_context call = ForwardContext d \<Longrightarrow> operation \<in> {''prefill'', ''decode''} \<Longrightarrow> is_forward call"
  unfolding is_forward_def by blast

lemma is_forward_well_formed: "is_forward call \<Longrightarrow> well_formed_call call"
  by (auto simp: is_forward_def forwardRequest_def well_formed_defs)

lemma emits_infer:
  "operation \<in> {''prefill'', ''decode''} \<Longrightarrow>
   emits is_forward (infer w d c operation shardID sequenceID position inputKind input sampled)"
  unfolding infer_def by (intro emits_option emits_leaf emits_doing emits_callWorker)
    (rule forward_isI, simp_all)

lemma emits_measuredInfer:
  "operation \<in> {''prefill'', ''decode''} \<Longrightarrow>
   emits is_forward (measuredInfer w timeout c operation shardID sequenceID position inputKind input sampled)"
  using emits_timed [OF emits_infer] unfolding emits_def measuredInfer_def by blast

lemma chainLoop_emits:
  assumes "chainLoop w timeout operation sequenceID position k inputKind input targets calls = (calls', exs, r)"
    "operation \<in> {''prefill'', ''decode''}"
  shows "\<exists>new. calls' = calls @ new \<and> (\<forall>call \<in> set new. is_forward call)"
  using assms(1)
proof (induction targets arbitrary: k inputKind input calls exs)
  case Nil
  then show ?case by simp
next
  case (Cons t targets)
  obtain l q where one: "measuredInfer w timeout (bnd_caller t) operation (es_shardID (bnd_stage t)) sequenceID
      position inputKind input (returnsSampled (bnd_stage t)) calls = (l, q)"
    by fastforce
  obtain new where new: "l = calls @ new" "\<forall>call \<in> set new. is_forward call"
    using emits_run [OF emits_measuredInfer [OF assms(2)] one] by blast
  show ?case
  proof (cases "targets = [] \<or> (\<exists>e. q = Inl e)")
    case True
    then have "calls' = l" using Cons.prems one by (auto simp: Let_def split: sum.splits)
    then show ?thesis using new by auto
  next
    case False
    then obtain wall r1 where q: "q = Inr (wall, r1)" by (cases q) auto
    obtain exs' where rest: "chainLoop w timeout operation sequenceID position (Suc k) ''hidden'' (fwd_output r1)
        targets l = (calls', exs', r)"
      using Cons.prems one False q by (auto simp: Let_def split: prod.splits)
    from Cons.IH [OF rest] new show ?thesis by auto
  qed
qed

lemma executeBoundStageChain_emits:
  assumes "executeBoundStageChain w timeout targets operation sequenceID position input calls = (calls', exs, r)"
  shows "\<exists>new. calls' = calls @ new \<and> (\<forall>call \<in> set new. is_forward call)"
  using assms chainLoop_emits
  by (fastforce simp: executeBoundStageChain_def split: if_splits)

lemma executeBoundStageChain_Inr:
  assumes "executeBoundStageChain w timeout targets operation sequenceID position input calls = (calls', exs, Inr r)"
  shows "\<exists>new rs. calls' = calls @ new \<and> length new = length targets \<and> length rs = length targets \<and>
    targets \<noteq> [] \<and> r = last rs \<and>
    (\<forall>i < length targets. forward_call operation sequenceID position (if i = 0 then ''tokens'' else ''hidden'')
       (if i = 0 then input else fwd_output (rs ! (i - 1))) (targets ! i) (rs ! i) (new ! i)) \<and>
    map sxe_index exs = [0..<length targets] \<and> map sxe_result exs = map Some rs \<and>
    map sxe_stage exs = map bnd_stage targets \<and>
    (\<forall>i < length targets. answered_by w (calls @ take i new) (new ! i))"
proof -
  have "chainLoop w timeout operation sequenceID position 0 ''tokens'' input targets calls = (calls', exs, Inr r)"
    using assms by (simp add: executeBoundStageChain_def split: if_splits)
  from chainLoop_Inr [OF this] show ?thesis by simp
qed

section \<open>Properties\<close>

text \<open>
  C9: One traversal calls the stages once each, in the plan's order, at one position of one
  sequence. The first stage gets the tokens, every later one exactly the tensor its
  predecessor answered, as a hidden state; the answer of the last stage is the result. Every
  call is addressed to the caller and the shard its stage is bound to, and its answer passed
  the checks for its operation, position and response mode.
\<close>

theorem chain_routes_outputs_in_order:
  assumes "executeBoundStageChain w timeout targets operation sequenceID position input calls = (calls', exs, Inr r)"
  shows "\<exists>new rs. calls' = calls @ new \<and> length new = length targets \<and> length rs = length targets \<and>
    targets \<noteq> [] \<and> r = last rs \<and>
    (\<forall>i < length targets. forward_call operation sequenceID position (if i = 0 then ''tokens'' else ''hidden'')
       (if i = 0 then input else fwd_output (rs ! (i - 1))) (targets ! i) (rs ! i) (new ! i)) \<and>
    map sxe_index exs = [0..<length targets] \<and> map sxe_result exs = map Some rs \<and>
    map sxe_stage exs = map bnd_stage targets"
  using executeBoundStageChain_Inr [OF assms] by blast

section \<open>A run\<close>

text \<open>Two workers that answer every forward step with one byte, the sum of the bytes they got.\<close>

definition demo_result :: "persistent_request \<Rightarrow> forward_request \<Rightarrow> forward_result" where
  "demo_result request f =
     \<lparr>fwd_shardID = fwr_shardID f, fwd_sequenceID = fwr_sequenceID f, fwd_operation = req_command request,
      fwd_position = fwr_position f, fwd_nextPosition = fwr_position f + 1,
      fwd_output = \<lparr>wt_shape = [1], wt_dtype = ''float32'', wt_data = [sum_list (wt_data (fwr_input f)) + 1]\<rparr>,
      fwd_sampledTokenID = None, fwd_computeMicros = 5, fwd_kvCacheBytes = 8,
      fwd_memory = \<lparr>mem_activeBytes = 0, mem_cacheBytes = 0, mem_peakBytes = 0, mem_processPhysicalBytes = 0,
        mem_processPeakPhysicalBytes = 0\<rparr>\<rparr>"

definition demo_worker_result :: worker_result where
  "demo_worker_result = \<lparr>wre_status = [], wre_shard = None, wre_forward = None, wre_model = None, wre_text = None,
     wre_state = None, wre_shutdown = False\<rparr>"

definition demo_forward_world :: world where
  "demo_forward_world = demo_world\<lparr>wld_answer := (\<lambda>calls ctx c request.
     case req_forward request of
       None \<Rightarrow> Inl WorkerStopped
     | Some f \<Rightarrow> Inr (demo_response\<lparr>rsp_result :=
         Some (demo_worker_result\<lparr>wre_forward := Some (demo_result request f)\<rparr>)\<rparr>))\<rparr>"

definition demo_stage :: "string \<Rightarrow> execution_stage" where
  "demo_stage name = \<lparr>es_name = name, es_targetID = name, es_shardID = name, es_layerStart = 0, es_layerEnd = 1,
     es_ownsInput = True, es_ownsOutput = False, es_responseMode = stageResponseTensor\<rparr>"

definition demo_bound :: "bound_target list" where
  "demo_bound = [\<lparr>bnd_stage = demo_stage ''a'', bnd_caller = 1\<rparr>, \<lparr>bnd_stage = demo_stage ''b'', bnd_caller = 2\<rparr>]"

lemmas demo_forward_eval = demo_bound_def demo_stage_def demo_forward_world_def demo_worker_result_def
  demo_result_def demo_world_def demo_response_def executeBoundStageChain_def measuredInfer_def timed_def infer_def
  timeoutDeadline_def callWorker_def wrapping_def doing_def calling_def outcome_def checkForward_def
  forwardRequest_def plainRequest_def returnsSampled_def plan_constants Let_def

lemma chain_routes_outputs_in_order_witness:
  "\<exists>calls' exs r new rs.
     executeBoundStageChain demo_forward_world 1000000 demo_bound ''prefill'' ''q'' 0 (tokenTensor [7]) [] = (calls', exs, Inr r) \<and>
     wt_data (fwd_output r) = [9] \<and> calls' = new \<and> length new = 2 \<and> r = rs ! 1 \<and>
     forward_call ''prefill'' ''q'' 0 ''hidden'' (fwd_output (rs ! 0)) (demo_bound ! 1) (rs ! 1) (new ! 1)"
proof -
  obtain calls' exs r where run: "executeBoundStageChain demo_forward_world 1000000 demo_bound ''prefill'' ''q'' 0
      (tokenTensor [7]) [] = (calls', exs, Inr r)" "wt_data (fwd_output r) = [9]"
    by (simp add: demo_forward_eval tokenTensor_def littleEndian32_def)
  have two: "length demo_bound = 2" by (simp add: demo_bound_def)
  from chain_routes_outputs_in_order [OF run(1)] obtain new rs where new:
    "calls' = [] @ new" "length new = length demo_bound" "length rs = length demo_bound" "r = last rs"
    "\<forall>i < length demo_bound. forward_call ''prefill'' ''q'' 0 (if i = 0 then ''tokens'' else ''hidden'')
       (if i = 0 then tokenTensor [7] else fwd_output (rs ! (i - 1))) (demo_bound ! i) (rs ! i) (new ! i)"
    by blast
  have "last rs = rs ! 1" using new(3) two by (cases rs) (auto simp: last_conv_nth)
  moreover have "forward_call ''prefill'' ''q'' 0 ''hidden'' (fwd_output (rs ! 0)) (demo_bound ! 1) (rs ! 1) (new ! 1)"
    using new(5) two by (auto dest: spec [of _ 1])
  ultimately show ?thesis using run new two by auto
qed

end
