(* ===== verification/Generation.thy ===== *)
theory Generation
  imports Stages
begin

text \<open>
  The generation runtime (\<open>internal/generation/planned_session.go\<close>, with the calls and result
  types of \<open>internal/generation/generation.go\<close>): preparing a session for a plan, and one
  generation through it: tokenizing, opening the sequences, prefill, the decode loop with
  its sampling and its verification against a reference worker, detokenizing, and the
  deferred cleanup and failure report.
\<close>

section \<open>Data\<close>

text \<open>The two observers are represented by whether they are set.\<close>

record session_config =
  cfg_rtol :: float64
  cfg_atol :: float64
  cfg_forwardTimeout :: duration
  cfg_observer :: bool
  cfg_logitsObserver :: bool

definition defaultForwardTimeout :: duration where
  "defaultForwardTimeout = 30 * second"

record planned_session =
  pls_targets :: "bound_target list"
  pls_reference :: "caller option"
  pls_config :: session_config
  pls_model :: model_result
  pls_plan :: execution_plan
  pls_referenceShard :: string
  pls_stageLoads :: "stage_load list"
  pls_setupMicros :: int

datatype session_error =
    SessionPlanInvalid plan_error
  | NumericTolerancesInvalid
  | ForwardTimeoutNegative
  | ForwardTimeoutTooShort
  | TerminalSamplingUnverifiable
  | SessionStageError stage_error
  | ReferenceModelInfoFailed stage_error
  | ReferenceShardFailed stage_error
  | ModelRequired
  | ExecutionTargetRequired
  | ModelDiscoveryFailed stage_error
  | BalancedPlanFailed plan_error
  | CallersRequired
  | LegacyPlanMissing
  | RoleShardFailed string stage_error

record generation_request =
  gnr_prompt :: string
  gnr_maxTokens :: int
  gnr_sequenceID :: string
  gnr_ignoreEOS :: bool

record token_verification =
  vrf_greedyTokenIDsMatch :: bool
  vrf_comparedTokens :: int
  vrf_maxAbsoluteDifference :: float64
  vrf_maxRelativeDifference :: float64

record failure_point =
  fpt_phase :: string
  fpt_shardID :: string
  fpt_operation :: string
  fpt_position :: u64

record failure =
  flr_sequenceID :: string
  flr_shardID :: string
  flr_phase :: string
  flr_operation :: string
  flr_position :: u64
  flr_lastAcceptedTokenIndex :: int
  flr_lastAcceptedTokenID :: "i32 option"
  flr_timedOut :: bool
  flr_canceled :: bool

record planned_stage_sample =
  ssm_operation :: string
  ssm_position :: u64
  ssm_inputTokenCount :: nat
  ssm_stages :: "stage_execution list"
  ssm_distributedEndToEndMicros :: int
  ssm_referenceWallMicros :: int
  ssm_referenceComputeMicros :: u64
  ssm_referenceKVCacheBytes :: int
  ssm_referenceMemory :: stage_memory

text \<open>The wall times of the whole phases are left out; what the workers report is kept.\<close>

record planned_result =
  pgr_model :: string
  pgr_modelType :: string
  pgr_checkpointFingerprint :: string
  pgr_checkpointBytes :: u64
  pgr_executionPlan :: execution_plan
  pgr_sequenceID :: string
  pgr_prompt :: string
  pgr_promptTokenIDs :: "i32 list"
  pgr_generatedTokenIDs :: "i32 list"
  pgr_text :: string
  pgr_maxTokens :: int
  pgr_stopReason :: string
  pgr_eosTokenID :: "i32 option"
  pgr_rtol :: float64
  pgr_atol :: float64
  pgr_forwardTimeoutMillis :: int
  pgr_sequenceCleanupConfirmed :: bool
  pgr_stageKVCacheBytes :: "int list"
  pgr_sessionSetupMicros :: int
  pgr_stageComputeMicros :: "u64 list"
  pgr_referenceComputeMicros :: u64
  pgr_verification :: "token_verification option"
  pgr_failure :: "failure option"

datatype generation_error =
    ContextEnded call_error
  | PromptRequired
  | MaxTokensNotPositive
  | SequenceIDUnavailable
  | TokenizeFailed stage_error
  | NoPromptTokens
  | OpenSequencesFailed sequence_set_error
  | DistributedPrefillFailed stage_error
  | ReferencePrefillFailed stage_error
  | SampleFailed tensor_error
  | StepLogitsDiffer nat tensor_error
  | ReferenceSampleFailed tensor_error
  | TokensDiffer nat i32 i32
  | DistributedDecodeFailed nat stage_error
  | ReferenceDecodeFailed nat stage_error
  | DetokenizeFailed stage_error
  | SequenceCleanupFailed "sequence_set_error list"
  | WithCleanupFailure generation_error "sequence_set_error list"

section \<open>Preparing a session\<close>

definition validatePlannedSessionConfig ::
  "digests \<Rightarrow> session_config \<Rightarrow> execution_plan \<Rightarrow> caller option \<Rightarrow> session_error + session_config" where
  "validatePlannedSessionConfig dg config plan reference =
     and_then (map_error SessionPlanInvalid (validateExecutionPlan dg plan)) (\<lambda>_.
       if tolerancesInvalid (cfg_rtol config) (cfg_atol config) then Inl NumericTolerancesInvalid
       else if cfg_forwardTimeout config < 0 then Inl ForwardTimeoutNegative
       else if 0 < cfg_forwardTimeout config \<and> cfg_forwardTimeout config < millisecond
       then Inl ForwardTimeoutTooShort
       else let config' = (if cfg_forwardTimeout config = 0
              then config\<lparr>cfg_forwardTimeout := defaultForwardTimeout\<rparr> else config) in
         if returnsSampled (last (ep_stages plan)) \<and> (reference \<noteq> None \<or> cfg_logitsObserver config)
         then Inl TerminalSamplingUnverifiable else Inr config')"

text \<open>The digest is that of \<open>crypto/sha256\<close> in hexadecimal, a parameter.\<close>

definition modelHashSuffix :: "(string \<Rightarrow> string) \<Rightarrow> string \<Rightarrow> string \<Rightarrow> string" where
  "modelHashSuffix sha256 modelID fingerprint = take 12 (sha256 (modelID @ [CHR 0x00] @ fingerprint))"

definition referenceModel ::
  "world \<Rightarrow> execution_model \<Rightarrow> model_result \<Rightarrow> caller \<Rightarrow> (session_error, model_result) action" where
  "referenceModel w expected m c =
     doing (wrapping ReferenceModelInfoFailed (modelInfo w c (em_ID expected))) (\<lambda>reference.
     doing (outcome (map_error SessionStageError (matchPlanModel expected reference ''reference''))) (\<lambda>_.
     doing (outcome (map_error SessionStageError (matchModel m reference ''reference''))) (\<lambda>_.
       give reference)))"

definition referenceLoadRequest :: "string \<Rightarrow> execution_model \<Rightarrow> model_result \<Rightarrow> load_shard_request" where
  "referenceLoadRequest shardID expected m =
     \<lparr>lsr_modelID = em_ID expected, lsr_shardID = shardID, lsr_checkpointFingerprint = mdl_checkpointFingerprint m,
      lsr_layerStart = 0, lsr_layerEnd = mdl_layerCount m, lsr_ownsInput = True, lsr_ownsOutput = True\<rparr>"

text \<open>
  The metadata of the stages' workers and of the reference are checked before the first
  shard is loaded.
\<close>

definition checkMetadata ::
  "digests \<Rightarrow> world \<Rightarrow> execution_plan \<Rightarrow> execution_target list \<Rightarrow> caller option \<Rightarrow>
   (session_error, bound_target list \<times> model_result) action" where
  "checkMetadata dg w plan targets reference =
     doing (wrapping SessionStageError (preflightExecutionTargets dg w plan targets)) (\<lambda>(bound, m).
     doing (case reference of None \<Rightarrow> give m | Some c \<Rightarrow> referenceModel w (ep_model plan) m c) (\<lambda>_.
       give (bound, m)))"

definition loadSession ::
  "(string \<Rightarrow> string) \<Rightarrow> world \<Rightarrow> execution_plan \<Rightarrow> caller option \<Rightarrow> session_config \<Rightarrow>
   bound_target list \<Rightarrow> model_result \<Rightarrow> (session_error, planned_session) action" where
  "loadSession sha256 w plan reference config bound m =
     doing (wrapping SessionStageError (loadExecutionTargets w plan bound)) (\<lambda>loads.
       let session = \<lparr>pls_targets = bound, pls_reference = reference, pls_config = config, pls_model = m,
             pls_plan = plan, pls_referenceShard = [], pls_stageLoads = loads, pls_setupMicros = 0\<rparr> in
       case reference of
         None \<Rightarrow> give session
       | Some c \<Rightarrow>
           let shardID = ''generate-reference-'' @
                 modelHashSuffix sha256 (em_ID (ep_model plan)) (mdl_checkpointFingerprint m) in
           doing (wrapping ReferenceShardFailed (ensureShard w c (referenceLoadRequest shardID (ep_model plan) m)))
             (\<lambda>_. give (session\<lparr>pls_referenceShard := shardID\<rparr>)))"

definition newPlannedSession ::
  "digests \<Rightarrow> (string \<Rightarrow> string) \<Rightarrow> world \<Rightarrow> execution_plan \<Rightarrow> execution_target list \<Rightarrow> caller option \<Rightarrow>
   session_config \<Rightarrow> (session_error, planned_session) action" where
  "newPlannedSession dg sha256 w plan targets reference config =
     doing (timed w
       (doing (outcome (validatePlannedSessionConfig dg config plan reference)) (\<lambda>config'.
        doing (checkMetadata dg w plan targets reference) (\<lambda>(bound, m).
          loadSession sha256 w plan reference config' bound m))))
       (\<lambda>(micros, session). give (session\<lparr>pls_setupMicros := micros\<rparr>))"

definition newBalancedPlannedSession ::
  "digests \<Rightarrow> (string \<Rightarrow> string) \<Rightarrow> world \<Rightarrow> string \<Rightarrow> execution_target list \<Rightarrow> caller option \<Rightarrow> string \<Rightarrow>
   session_config \<Rightarrow> (session_error, planned_session) action" where
  "newBalancedPlannedSession dg sha256 w modelID targets reference terminalResponseMode config =
     doing (timed w
       (if modelID = [] then failing ModelRequired
        else case (case targets of [] \<Rightarrow> None | target # _ \<Rightarrow> ext_caller target) of
          None \<Rightarrow> failing ExecutionTargetRequired
        | Some c \<Rightarrow>
       doing (wrapping ModelDiscoveryFailed (modelInfo w c modelID)) (\<lambda>m.
       doing (outcome (map_error BalancedPlanFailed (buildBalancedExecutionPlan dg
           \<lparr>em_ID = mdl_modelID m, em_checkpointFingerprint = mdl_checkpointFingerprint m,
            em_layerCount = mdl_layerCount m\<rparr> (map ext_targetID targets) terminalResponseMode))) (\<lambda>plan.
         newPlannedSession dg sha256 w plan targets reference config))))
       (\<lambda>(micros, session). give (session\<lparr>pls_setupMicros := micros\<rparr>))"

section \<open>Text\<close>

definition tokenizeRequest :: "string \<Rightarrow> string \<Rightarrow> persistent_request" where
  "tokenizeRequest modelID prompt =
     (plainRequest ''tokenize'')\<lparr>req_text := Some \<lparr>txr_modelID = modelID, txr_text = Some prompt,
        txr_tokenIDs = [], txr_addSpecialTokens = Some True, txr_skipSpecialTokens = None\<rparr>\<rparr>"

definition tokenize :: "world \<Rightarrow> caller \<Rightarrow> string \<Rightarrow> string \<Rightarrow> (stage_error, text_result) action" where
  "tokenize w c modelID prompt =
     doing (callWorker w OperationContext c (tokenizeRequest modelID prompt)) (\<lambda>response.
       case Option.bind (rsp_result response) wre_text of
         None \<Rightarrow> failing NoTokenization
       | Some t \<Rightarrow>
           if txt_modelID t \<noteq> modelID then failing (TokenizedForeignModel (txt_modelID t) modelID)
           else case find (\<lambda>token. token <s 0) (txt_tokenIDs t) of
             Some token \<Rightarrow> failing (NegativeTokenID token)
           | None \<Rightarrow> give t)"

definition detokenizeRequest :: "string \<Rightarrow> i32 list \<Rightarrow> persistent_request" where
  "detokenizeRequest modelID tokens =
     (plainRequest ''detokenize'')\<lparr>req_text := Some \<lparr>txr_modelID = modelID, txr_text = None,
        txr_tokenIDs = tokens, txr_addSpecialTokens = None, txr_skipSpecialTokens = Some True\<rparr>\<rparr>"

definition detokenize :: "world \<Rightarrow> caller \<Rightarrow> string \<Rightarrow> i32 list \<Rightarrow> (stage_error, string) action" where
  "detokenize w c modelID tokens =
     doing (callWorker w OperationContext c (detokenizeRequest modelID tokens)) (\<lambda>response.
       case Option.bind (rsp_result response) wre_text of
         None \<Rightarrow> failing NoText
       | Some t \<Rightarrow>
           case txt_text t of
             None \<Rightarrow> failing NoText
           | Some text \<Rightarrow>
               if txt_modelID t \<noteq> modelID then failing (DetokenizedForeignModel (txt_modelID t) modelID)
               else give text)"

definition randomSequenceID :: "world \<Rightarrow> call_log \<Rightarrow> string option" where
  "randomSequenceID w calls = map_option (\<lambda>bytes. ''generation-'' @ hexEncode bytes) (wld_random w calls 12)"

section \<open>The state of a generation\<close>

text \<open>
  The local variables of \<open>Generate\<close> that live across its phases: the result, the point of
  failure, the position, the last terminal result, the reference's logits, the pending
  sample, and what the observers have been given.
\<close>

record run_state =
  run_result :: planned_result
  run_point :: failure_point
  run_position :: u64
  run_terminal :: forward_result
  run_referenceLogits :: wire_tensor
  run_pending :: "planned_stage_sample option"
  run_samples :: "planned_stage_sample list"
  run_observedLogits :: "(nat \<times> wire_tensor) list"

definition emptyTensor :: wire_tensor where
  "emptyTensor = \<lparr>wt_shape = [], wt_dtype = [], wt_data = []\<rparr>"

definition emptyMemory :: stage_memory where
  "emptyMemory = \<lparr>mem_activeBytes = 0, mem_cacheBytes = 0, mem_peakBytes = 0, mem_processPhysicalBytes = 0,
     mem_processPeakPhysicalBytes = 0\<rparr>"

definition emptyForward :: forward_result where
  "emptyForward = \<lparr>fwd_shardID = [], fwd_sequenceID = [], fwd_operation = [], fwd_position = 0, fwd_nextPosition = 0,
     fwd_output = emptyTensor, fwd_sampledTokenID = None, fwd_computeMicros = 0, fwd_kvCacheBytes = 0,
     fwd_memory = emptyMemory\<rparr>"

definition failurePoint :: "string \<Rightarrow> string \<Rightarrow> string \<Rightarrow> u64 \<Rightarrow> failure_point" where
  "failurePoint phase shardID operation position =
     \<lparr>fpt_phase = phase, fpt_shardID = shardID, fpt_operation = operation, fpt_position = position\<rparr>"

definition initialResult :: "planned_session \<Rightarrow> generation_request \<Rightarrow> planned_result" where
  "initialResult s request =
     \<lparr>pgr_model = em_ID (ep_model (pls_plan s)), pgr_modelType = mdl_modelType (pls_model s),
      pgr_checkpointFingerprint = mdl_checkpointFingerprint (pls_model s),
      pgr_checkpointBytes = mdl_checkpointBytes (pls_model s), pgr_executionPlan = pls_plan s,
      pgr_sequenceID = gnr_sequenceID request, pgr_prompt = gnr_prompt request, pgr_promptTokenIDs = [],
      pgr_generatedTokenIDs = [], pgr_text = [], pgr_maxTokens = gnr_maxTokens request, pgr_stopReason = [],
      pgr_eosTokenID = None, pgr_rtol = cfg_rtol (pls_config s), pgr_atol = cfg_atol (pls_config s),
      pgr_forwardTimeoutMillis = milliseconds (cfg_forwardTimeout (pls_config s)),
      pgr_sequenceCleanupConfirmed = True, pgr_stageKVCacheBytes = replicate (length (pls_targets s)) 0,
      pgr_sessionSetupMicros = pls_setupMicros s,
      pgr_stageComputeMicros = replicate (length (pls_targets s)) 0, pgr_referenceComputeMicros = 0,
      pgr_verification = None, pgr_failure = None\<rparr>"

definition accumulatePlannedStageState :: "stage_execution list \<Rightarrow> planned_result \<Rightarrow> planned_result" where
  "accumulatePlannedStageState executions r =
     fold (\<lambda>e r.
       if length (pgr_stageKVCacheBytes r) \<le> sxe_index e then r
       else r\<lparr>pgr_stageKVCacheBytes := (pgr_stageKVCacheBytes r)[sxe_index e := sxe_kvCacheBytes e],
              pgr_stageComputeMicros := (pgr_stageComputeMicros r)
                [sxe_index e := pgr_stageComputeMicros r ! sxe_index e + sxe_computeMicros e]\<rparr>) executions r"

definition newPlannedStageSample ::
  "string \<Rightarrow> u64 \<Rightarrow> nat \<Rightarrow> stage_execution list \<Rightarrow> int \<Rightarrow> (int \<times> forward_result) option \<Rightarrow> planned_stage_sample" where
  "newPlannedStageSample operation position inputTokenCount executions endToEndMicros reference =
     \<lparr>ssm_operation = operation, ssm_position = position, ssm_inputTokenCount = inputTokenCount,
      ssm_stages = map (\<lambda>e. e\<lparr>sxe_result := None\<rparr>) executions,
      ssm_distributedEndToEndMicros = endToEndMicros,
      ssm_referenceWallMicros = (case reference of None \<Rightarrow> 0 | Some (wall, r) \<Rightarrow> wall),
      ssm_referenceComputeMicros = (case reference of None \<Rightarrow> 0 | Some (wall, r) \<Rightarrow> fwd_computeMicros r),
      ssm_referenceKVCacheBytes = (case reference of None \<Rightarrow> 0 | Some (wall, r) \<Rightarrow> fwd_kvCacheBytes r),
      ssm_referenceMemory = (case reference of None \<Rightarrow> emptyMemory | Some (wall, r) \<Rightarrow> fwd_memory r)\<rparr>"

section \<open>Failure reports\<close>

definition failurePointForStageError :: "string \<Rightarrow> u64 \<Rightarrow> stage_error \<Rightarrow> failure_point" where
  "failurePointForStageError operation position e =
     (case e of
        StageFailed index stage failedOperation failedPosition cause \<Rightarrow>
          failurePoint (''stage_'' @ decimal_nat index @ ''_'' @ operation) (es_shardID stage) operation failedPosition
      | _ \<Rightarrow> failurePoint (''distributed_'' @ operation) [] operation position)"

text \<open>The errors of calls under an error, as \<open>errors.Is\<close> visits them.\<close>

fun setCauses :: "sequence_set_error \<Rightarrow> call_error list" where
  "setCauses (SequenceCommandFailed name command e) = [e]"
| "setCauses (SequenceRollbackFailed e es) = setCauses e @ concat (map setCauses es)"
| "setCauses e = []"

definition stageCauses :: "stage_error \<Rightarrow> call_error list" where
  "stageCauses e = (case stageCause e of None \<Rightarrow> [] | Some cause \<Rightarrow> [cause])"

fun generationCauses :: "generation_error \<Rightarrow> call_error list" where
  "generationCauses (ContextEnded e) = [e]"
| "generationCauses (TokenizeFailed e) = stageCauses e"
| "generationCauses (OpenSequencesFailed e) = setCauses e"
| "generationCauses (DistributedPrefillFailed e) = stageCauses e"
| "generationCauses (ReferencePrefillFailed e) = stageCauses e"
| "generationCauses (DistributedDecodeFailed n e) = stageCauses e"
| "generationCauses (ReferenceDecodeFailed n e) = stageCauses e"
| "generationCauses (DetokenizeFailed e) = stageCauses e"
| "generationCauses (SequenceCleanupFailed es) = concat (map setCauses es)"
| "generationCauses (WithCleanupFailure e es) = generationCauses e @ concat (map setCauses es)"
| "generationCauses e = []"

definition failureFromPlanned :: "failure_point \<Rightarrow> planned_result \<Rightarrow> generation_error \<Rightarrow> failure" where
  "failureFromPlanned point r e =
     \<lparr>flr_sequenceID = pgr_sequenceID r, flr_shardID = fpt_shardID point, flr_phase = fpt_phase point,
      flr_operation = fpt_operation point, flr_position = fpt_position point,
      flr_lastAcceptedTokenIndex = int (length (pgr_generatedTokenIDs r)) - 1,
      flr_lastAcceptedTokenID =
        (if pgr_generatedTokenIDs r = [] then None else Some (last (pgr_generatedTokenIDs r))),
      flr_timedOut = list_ex isDeadlineExceeded (generationCauses e),
      flr_canceled = list_ex isCanceled (generationCauses e)\<rparr>"

section \<open>A traversal of the stages and the reference\<close>

text \<open>
  The distributed traversal and, where there is one, the reference's step: prefill at
  position 0 with the prompt, decode at the current position with the last token.
\<close>

definition referenceStep ::
  "world \<Rightarrow> planned_session \<Rightarrow> string \<Rightarrow> string \<Rightarrow> u64 \<Rightarrow> wire_tensor \<Rightarrow>
   (stage_error, (int \<times> forward_result) option) action" where
  "referenceStep w s operation sequenceID position input =
     (case pls_reference s of
        None \<Rightarrow> give None
      | Some c \<Rightarrow>
          doing (measuredInfer w (cfg_forwardTimeout (pls_config s)) c operation (pls_referenceShard s)
            sequenceID position ''tokens'' input False) (\<lambda>r. give (Some r)))"

definition afterTraversal ::
  "planned_session \<Rightarrow> string \<Rightarrow> u64 \<Rightarrow> nat \<Rightarrow> stage_execution list \<Rightarrow> int \<Rightarrow> forward_result \<Rightarrow>
   (int \<times> forward_result) option \<Rightarrow> run_state \<Rightarrow> run_state" where
  "afterTraversal s operation position inputTokenCount executions endToEndMicros terminal reference st =
     st\<lparr>run_terminal := terminal,
        run_referenceLogits := (case reference of None \<Rightarrow> run_referenceLogits st | Some (wall, r) \<Rightarrow> fwd_output r),
        run_result := (case reference of
            None \<Rightarrow> run_result st
          | Some (wall, r) \<Rightarrow> (run_result st)
              \<lparr>pgr_referenceComputeMicros := pgr_referenceComputeMicros (run_result st) + fwd_computeMicros r\<rparr>),
        run_pending := (if cfg_observer (pls_config s)
          then Some (newPlannedStageSample operation position inputTokenCount executions endToEndMicros reference)
          else run_pending st)\<rparr>"

definition traverse ::
  "world \<Rightarrow> planned_session \<Rightarrow> string \<Rightarrow> u64 \<Rightarrow> nat \<Rightarrow> wire_tensor \<Rightarrow>
   (stage_error \<Rightarrow> generation_error) \<Rightarrow> (stage_error \<Rightarrow> generation_error) \<Rightarrow> run_state \<Rightarrow> call_log \<Rightarrow>
   call_log \<times> run_state \<times> generation_error option" where
  "traverse w s operation position inputTokenCount input distributedFailed referenceFailed st calls =
     (let sequenceID = pgr_sequenceID (run_result st);
          st1 = st\<lparr>run_point := failurePoint (''distributed_'' @ operation) [] operation position\<rparr> in
      case executeBoundStageChain w (cfg_forwardTimeout (pls_config s)) (pls_targets s) operation sequenceID
          position input calls of
        (calls', executions, Inl e) \<Rightarrow>
          (calls', st1\<lparr>run_point := failurePointForStageError operation position e\<rparr>, Some (distributedFailed e))
      | (calls', executions, Inr terminal) \<Rightarrow>
          let endToEndMicros = microseconds (wld_now w calls' - wld_now w calls);
              st2 = st1\<lparr>run_result := accumulatePlannedStageState executions (run_result st1)\<rparr>;
              st3 = (if pls_reference s = None then st2
                else st2\<lparr>run_point := failurePoint (''reference_'' @ operation) (pls_referenceShard s)
                  operation position\<rparr>)
          in case referenceStep w s operation sequenceID position input calls' of
            (calls'', Inl e) \<Rightarrow> (calls'', st3, Some (referenceFailed e))
          | (calls'', Inr reference) \<Rightarrow>
              (calls'', afterTraversal s operation position inputTokenCount executions endToEndMicros
                terminal reference st3, None))"

section \<open>Sampling and verification\<close>

text \<open>
  The verification of a sampled token. Differences are recorded only when the logits agree;
  the pending sample's reference timing is left out.
\<close>

definition verifyToken ::
  "planned_session \<Rightarrow> forward_result \<Rightarrow> i32 \<Rightarrow> run_state \<Rightarrow> run_state \<times> generation_error option" where
  "verifyToken s terminal token st =
     (let r = run_result st; step = length (pgr_generatedTokenIDs r) in
      case pgr_verification r of
        None \<Rightarrow> (st, None)
      | Some v \<Rightarrow>
          case compareFinalLogits (fwd_output terminal) (run_referenceLogits st)
              (cfg_rtol (pls_config s)) (cfg_atol (pls_config s)) of
            (d, Some e) \<Rightarrow> (st, Some (StepLogitsDiffer step e))
          | (d, None) \<Rightarrow>
              let v1 = v\<lparr>vrf_maxAbsoluteDifference := float_max (vrf_maxAbsoluteDifference v) (df_absolute d),
                        vrf_maxRelativeDifference := float_max (vrf_maxRelativeDifference v) (df_relative d)\<rparr>;
                  put = (\<lambda>v. st\<lparr>run_result := r\<lparr>pgr_verification := Some v\<rparr>\<rparr>)
              in case greedyToken (run_referenceLogits st) of
                Inl e \<Rightarrow> (put v1, Some (ReferenceSampleFailed e))
              | Inr referenceToken \<Rightarrow>
                  if token \<noteq> referenceToken
                  then (put (v1\<lparr>vrf_greedyTokenIDsMatch := False\<rparr>), Some (TokensDiffer step token referenceToken))
                  else (put (v1\<lparr>vrf_comparedTokens := vrf_comparedTokens v1 + 1\<rparr>), None))"

text \<open>\<open>s.config.Observer(*pendingSample)\<close>.\<close>

definition flushSample :: "run_state \<Rightarrow> run_state" where
  "flushSample st =
     (case run_pending st of
        None \<Rightarrow> st
      | Some sample \<Rightarrow> st\<lparr>run_samples := run_samples st @ [sample], run_pending := None\<rparr>)"

definition observeLogits :: "planned_session \<Rightarrow> forward_result \<Rightarrow> run_state \<Rightarrow> run_state" where
  "observeLogits s terminal st =
     (if cfg_logitsObserver (pls_config s)
      then st\<lparr>run_observedLogits := run_observedLogits st @
        [(length (pgr_generatedTokenIDs (run_result st)), fwd_output terminal)]\<rparr>
      else st)"

text \<open>How an iteration of the decode loop ends.\<close>

datatype iteration_end = Stopped | Sampled | Aborted generation_error

definition acceptToken :: "generation_request \<Rightarrow> i32 \<Rightarrow> run_state \<Rightarrow> run_state \<times> iteration_end" where
  "acceptToken request token st =
     (let r = (run_result st)\<lparr>pgr_generatedTokenIDs := pgr_generatedTokenIDs (run_result st) @ [token]\<rparr> in
      if \<not> gnr_ignoreEOS request \<and> pgr_eosTokenID r = Some token
      then (st\<lparr>run_result := r\<lparr>pgr_stopReason := ''eos''\<rparr>\<rparr>, Stopped)
      else if int (length (pgr_generatedTokenIDs r)) = gnr_maxTokens request
      then (st\<lparr>run_result := r\<lparr>pgr_stopReason := ''max_tokens''\<rparr>\<rparr>, Stopped)
      else (st\<lparr>run_result := r\<rparr>, Sampled))"

definition sampleNext ::
  "world \<Rightarrow> planned_session \<Rightarrow> generation_request \<Rightarrow> forward_result \<Rightarrow> run_state \<Rightarrow> call_log \<Rightarrow>
   run_state \<times> iteration_end" where
  "sampleNext w s request terminal st calls =
     (let st1 = st\<lparr>run_point := failurePoint ''sample'' [] ''sample'' (run_position st)\<rparr> in
      case wld_err w calls of
        Some e \<Rightarrow> (st1, Aborted (ContextEnded e))
      | None \<Rightarrow>
          let st2 = observeLogits s terminal st1 in
          case sampledToken (fwd_sampledTokenID terminal) (fwd_output terminal) of
            Inl e \<Rightarrow> (st2, Aborted (SampleFailed e))
          | Inr token \<Rightarrow>
              case verifyToken s terminal token st2 of
                (st3, Some e) \<Rightarrow> (st3, Aborted e)
              | (st3, None) \<Rightarrow> acceptToken request token (flushSample st3))"

definition decodeNext ::
  "world \<Rightarrow> planned_session \<Rightarrow> run_state \<Rightarrow> call_log \<Rightarrow> call_log \<times> run_state \<times> generation_error option" where
  "decodeNext w s st calls =
     (let generated = pgr_generatedTokenIDs (run_result st); step = length generated in
      case traverse w s ''decode'' (run_position st) 1 (tokenTensor [last generated])
          (DistributedDecodeFailed step) (ReferenceDecodeFailed step) st calls of
        (calls', st', Some e) \<Rightarrow> (calls', st', Some e)
      | (calls', st', None) \<Rightarrow> (calls', st'\<lparr>run_position := run_position st' + 1\<rparr>, None))"

definition iteration ::
  "world \<Rightarrow> planned_session \<Rightarrow> generation_request \<Rightarrow> run_state \<Rightarrow> call_log \<Rightarrow>
   call_log \<times> run_state \<times> iteration_end" where
  "iteration w s request st calls =
     (case sampleNext w s request (run_terminal st) st calls of
        (st', Sampled) \<Rightarrow>
          (case decodeNext w s st' calls of
             (calls', st'', Some e) \<Rightarrow> (calls', st'', Aborted e)
           | (calls', st'', None) \<Rightarrow> (calls', st'', Sampled))
      | (st', ending) \<Rightarrow> (calls, st', ending))"

section \<open>Progress of the decode loop\<close>

lemma verifyToken_tokens:
  "verifyToken s terminal token st = (st', e) \<Longrightarrow>
   pgr_generatedTokenIDs (run_result st') = pgr_generatedTokenIDs (run_result st)"
  by (auto simp: verifyToken_def Let_def split: option.splits prod.splits sum.splits if_splits)

lemma flushSample_result [simp]: "run_result (flushSample st) = run_result st"
  by (simp add: flushSample_def split: option.splits)

lemma observeLogits_result [simp]: "run_result (observeLogits s terminal st) = run_result st"
  by (simp add: observeLogits_def)

lemma sampleNext_Sampled:
  assumes "sampleNext w s request terminal st calls = (st', Sampled)"
  shows "\<exists>token. sampledToken (fwd_sampledTokenID terminal) (fwd_output terminal) = Inr token \<and>
    pgr_generatedTokenIDs (run_result st') = pgr_generatedTokenIDs (run_result st) @ [token]"
  using assms
  by (auto simp: sampleNext_def acceptToken_def Let_def split: option.splits sum.splits prod.splits if_splits
      dest!: verifyToken_tokens)

lemma accumulate_tokens [simp]:
  "pgr_generatedTokenIDs (accumulatePlannedStageState es r) = pgr_generatedTokenIDs r"
  unfolding accumulatePlannedStageState_def by (induction es arbitrary: r) auto

lemma traverse_tokens:
  "traverse w s operation position n input f g st calls = (calls', st', e) \<Longrightarrow>
   pgr_generatedTokenIDs (run_result st') = pgr_generatedTokenIDs (run_result st)"
  by (auto simp: traverse_def afterTraversal_def Let_def split: prod.splits sum.splits option.splits if_splits)

lemma decodeNext_tokens:
  "decodeNext w s st calls = (calls', st', e) \<Longrightarrow>
   pgr_generatedTokenIDs (run_result st') = pgr_generatedTokenIDs (run_result st)"
  by (auto simp: decodeNext_def Let_def split: prod.splits option.splits dest: traverse_tokens)

lemma iteration_progress:
  assumes "iteration w s request st calls = (calls', st', Sampled)"
  shows "length (pgr_generatedTokenIDs (run_result st')) = Suc (length (pgr_generatedTokenIDs (run_result st)))"
proof -
  obtain st1 where "sampleNext w s request (run_terminal st) st calls = (st1, Sampled)"
    "decodeNext w s st1 calls = (calls', st', None)"
    using assms by (auto simp: iteration_def split: prod.splits iteration_end.splits option.splits)
  then show ?thesis using sampleNext_Sampled decodeNext_tokens by fastforce
qed

text \<open>
  The decode loop, with the source's guard. It ends because an iteration that goes on has
  appended a token.
\<close>

function decodeLoop ::
  "world \<Rightarrow> planned_session \<Rightarrow> generation_request \<Rightarrow> run_state \<Rightarrow> call_log \<Rightarrow>
   call_log \<times> run_state \<times> generation_error option" where
  "decodeLoop w s request st calls =
     (if gnr_maxTokens request \<le> int (length (pgr_generatedTokenIDs (run_result st))) then (calls, st, None)
      else case iteration w s request st calls of
        (calls', st', Aborted e) \<Rightarrow> (calls', st', Some e)
      | (calls', st', Stopped) \<Rightarrow> (calls', st', None)
      | (calls', st', Sampled) \<Rightarrow> decodeLoop w s request st' calls')"
  by pat_completeness auto

termination
proof (relation "measure (\<lambda>(w, s, request, st, calls).
    nat (gnr_maxTokens request - int (length (pgr_generatedTokenIDs (run_result st)))))")
qed (auto dest!: iteration_progress [OF sym])

declare decodeLoop.simps [simp del]

section \<open>A generation\<close>

definition runSequence ::
  "world \<Rightarrow> planned_session \<Rightarrow> generation_request \<Rightarrow> text_result \<Rightarrow> caller \<Rightarrow> run_state \<Rightarrow> call_log \<Rightarrow>
   call_log \<times> run_state \<times> generation_error option" where
  "runSequence w s request tokenized inputCaller st calls =
     (let n = length (txt_tokenIDs tokenized) in
      case traverse w s ''prefill'' 0 n (tokenTensor (txt_tokenIDs tokenized))
          DistributedPrefillFailed ReferencePrefillFailed st calls of
        (calls1, st1, Some e) \<Rightarrow> (calls1, st1, Some e)
      | (calls1, st1, None) \<Rightarrow>
     let verification = (if pls_reference s = None then None
           else Some \<lparr>vrf_greedyTokenIDsMatch = True, vrf_comparedTokens = 0,
             vrf_maxAbsoluteDifference = Finite 0, vrf_maxRelativeDifference = Finite 0\<rparr>);
         st2 = st1\<lparr>run_result := (run_result st1)\<lparr>pgr_verification := verification\<rparr>,
           run_position := word_of_nat n\<rparr>
     in case decodeLoop w s request st2 calls1 of
        (calls2, st3, Some e) \<Rightarrow> (calls2, st3, Some e)
      | (calls2, st3, None) \<Rightarrow>
     let st4 = st3\<lparr>run_point := failurePoint ''detokenize''
           (es_shardID (bnd_stage (hd (pls_targets s)))) [] 0\<rparr>
     in case detokenize w inputCaller (em_ID (ep_model (pls_plan s))) (pgr_generatedTokenIDs (run_result st4)) calls2 of
        (calls3, Inl e) \<Rightarrow> (calls3, st4, Some (DetokenizeFailed e))
      | (calls3, Inr text) \<Rightarrow>
          (calls3, st4\<lparr>run_result := (run_result st4)\<lparr>pgr_text := text\<rparr>,
            run_point := failurePoint [] [] [] 0\<rparr>, None))"

text \<open>The deferred cleanup of the sequences.\<close>

definition confirmCleanup :: "bool \<Rightarrow> run_state \<Rightarrow> run_state" where
  "confirmCleanup confirmed st =
     st\<lparr>run_result := (run_result st)\<lparr>pgr_sequenceCleanupConfirmed := confirmed\<rparr>\<rparr>"

definition deferredCleanup ::
  "world \<Rightarrow> sequence_set option \<Rightarrow> call_log \<times> run_state \<times> generation_error option \<Rightarrow>
   call_log \<times> run_state \<times> generation_error option" where
  "deferredCleanup w sequences = (\<lambda>(calls, st, err).
     case sequences of
       None \<Rightarrow> (calls, st, err)
     | Some owned \<Rightarrow>
         let (calls', retained, errors) = cleanupSet w owned calls in
         if errors = [] then (calls', confirmCleanup True st, err)
         else case err of
           None \<Rightarrow> (calls', st\<lparr>run_point := failurePoint ''sequence_cleanup'' [] [] 0\<rparr>,
             Some (SequenceCleanupFailed errors))
         | Some e \<Rightarrow> (calls', st, Some (WithCleanupFailure e errors)))"

definition generationTargets :: "planned_session \<Rightarrow> sequence_target list" where
  "generationTargets s =
     executionSequenceTargets (pls_targets s) @
     (case pls_reference s of
        None \<Rightarrow> []
      | Some c \<Rightarrow> [\<lparr>sqt_name = ''reference'', sqt_caller = Some c, sqt_shardID = pls_referenceShard s\<rparr>])"

definition openAndRun ::
  "world \<Rightarrow> planned_session \<Rightarrow> generation_request \<Rightarrow> text_result \<Rightarrow> caller \<Rightarrow> run_state \<Rightarrow> call_log \<Rightarrow>
   call_log \<times> run_state \<times> generation_error option" where
  "openAndRun w s request tokenized inputCaller st calls =
     (let st1 = confirmCleanup False (st\<lparr>run_point := failurePoint ''open_sequences'' [] [] 0\<rparr>) in
      case openSequences w (generationTargets s) [gnr_sequenceID request] calls of
        (calls', sequences, Some e) \<Rightarrow>
          deferredCleanup w sequences
            (calls', if sequences = None then confirmCleanup True st1 else st1, Some (OpenSequencesFailed e))
      | (calls', sequences, None) \<Rightarrow>
          deferredCleanup w sequences (runSequence w s request tokenized inputCaller st1 calls'))"

definition tokenizeAndRun ::
  "world \<Rightarrow> planned_session \<Rightarrow> generation_request \<Rightarrow> run_state \<Rightarrow> call_log \<Rightarrow>
   call_log \<times> run_state \<times> generation_error option" where
  "tokenizeAndRun w s request st calls =
     (let inputCaller = bnd_caller (hd (pls_targets s)) in
      case tokenize w inputCaller (em_ID (ep_model (pls_plan s))) (gnr_prompt request) calls of
        (calls', Inl e) \<Rightarrow> (calls', st, Some (TokenizeFailed e))
      | (calls', Inr tokenized) \<Rightarrow>
          if txt_tokenIDs tokenized = [] then (calls', st, Some NoPromptTokens)
          else openAndRun w s request tokenized inputCaller
            (st\<lparr>run_result := (run_result st)\<lparr>pgr_promptTokenIDs := txt_tokenIDs tokenized,
               pgr_eosTokenID := txt_eosTokenID tokenized\<rparr>\<rparr>) calls')"

text \<open>What \<open>Generate\<close> returns with an error: a bare one, or a \<open>GenerationError\<close> with its report.\<close>

datatype returned_error = BareError generation_error | GenerationError failure generation_error

definition initialState :: "planned_session \<Rightarrow> generation_request \<Rightarrow> run_state" where
  "initialState s request =
     \<lparr>run_result = initialResult s request,
      run_point = failurePoint ''tokenize'' (es_shardID (bnd_stage (hd (pls_targets s)))) [] 0,
      run_position = 0, run_terminal = emptyForward, run_referenceLogits = emptyTensor, run_pending = None,
      run_samples = [], run_observedLogits = []\<rparr>"

text \<open>The deferred failure report.\<close>

definition deferredFailure :: "run_state \<Rightarrow> generation_error option \<Rightarrow> run_state \<times> returned_error option" where
  "deferredFailure st err =
     (case err of
        None \<Rightarrow> (st, None)
      | Some e \<Rightarrow>
          let f = failureFromPlanned (run_point st) (run_result st) e
          in (st\<lparr>run_result := (run_result st)\<lparr>pgr_failure := Some f\<rparr>\<rparr>, Some (GenerationError f e)))"

text \<open>
  \<open>Generate\<close>: the calls, the final state with the result and what the observers were given,
  or \<open>None\<close> for the zero result with a confirmed cleanup that a refused request returns.
\<close>

definition generatePlanned ::
  "world \<Rightarrow> planned_session \<Rightarrow> generation_request \<Rightarrow> call_log \<Rightarrow>
   call_log \<times> run_state option \<times> returned_error option" where
  "generatePlanned w s request calls =
     (case wld_err w calls of
        Some e \<Rightarrow> (calls, None, Some (BareError (ContextEnded e)))
      | None \<Rightarrow>
     if gnr_prompt request = [] then (calls, None, Some (BareError PromptRequired))
     else if gnr_maxTokens request \<le> 0 then (calls, None, Some (BareError MaxTokensNotPositive))
     else case (if gnr_sequenceID request = [] then randomSequenceID w calls
          else Some (gnr_sequenceID request)) of
        None \<Rightarrow> (calls, None, Some (BareError SequenceIDUnavailable))
      | Some sequenceID \<Rightarrow>
     let request' = request\<lparr>gnr_sequenceID := sequenceID\<rparr>;
         (calls', st, err) = tokenizeAndRun w s request' (initialState s request') calls;
         (st', returned) = deferredFailure st err
     in (calls', Some st', returned))"

section \<open>What a generation keeps and sends\<close>

text \<open>The part of the result that is fixed once the sequences are open.\<close>

definition fixed_part where
  "fixed_part r =
     (pgr_sequenceID r, pgr_sequenceCleanupConfirmed r, pgr_eosTokenID r, pgr_promptTokenIDs r, pgr_maxTokens r,
      pgr_executionPlan r, pgr_prompt r, pgr_failure r)"

lemma fixed_part_updates [simp]:
  "fixed_part (r\<lparr>pgr_generatedTokenIDs := x\<rparr>) = fixed_part r"
  "fixed_part (r\<lparr>pgr_verification := v\<rparr>) = fixed_part r"
  "fixed_part (r\<lparr>pgr_stopReason := t\<rparr>) = fixed_part r"
  "fixed_part (r\<lparr>pgr_text := t\<rparr>) = fixed_part r"
  "fixed_part (r\<lparr>pgr_referenceComputeMicros := n\<rparr>) = fixed_part r"
  "fixed_part (r\<lparr>pgr_stageKVCacheBytes := ks\<rparr>) = fixed_part r"
  "fixed_part (r\<lparr>pgr_stageComputeMicros := cs\<rparr>) = fixed_part r"
  by (simp_all add: fixed_part_def)

lemma accumulate_fixed [simp]: "fixed_part (accumulatePlannedStageState es r) = fixed_part r"
  unfolding accumulatePlannedStageState_def
  by (induction es arbitrary: r) auto

lemma verifyToken_fixed:
  "verifyToken s terminal token st = (st', e) \<Longrightarrow> fixed_part (run_result st') = fixed_part (run_result st)"
  by (auto simp: verifyToken_def Let_def split: option.splits prod.splits sum.splits if_splits)

lemma sampleNext_fixed:
  "sampleNext w s request terminal st calls = (st', ending) \<Longrightarrow> fixed_part (run_result st') = fixed_part (run_result st)"
  by (auto simp: sampleNext_def acceptToken_def Let_def split: option.splits sum.splits prod.splits if_splits
      dest!: verifyToken_fixed)

lemma traverse_fixed:
  "traverse w s operation position n input f g st calls = (calls', st', e) \<Longrightarrow>
   fixed_part (run_result st') = fixed_part (run_result st)"
  by (auto simp: traverse_def afterTraversal_def Let_def split: prod.splits sum.splits option.splits if_splits)

text \<open>Forward steps and text requests: nothing that opens or closes a sequence.\<close>

definition quiet :: "worker_call \<Rightarrow> bool" where
  "quiet call \<longleftrightarrow> well_formed_call call \<and> \<not> may_have_opened call"

lemma is_forward_quiet: "is_forward call \<Longrightarrow> quiet call"
  unfolding quiet_def using is_forward_well_formed
  by (auto simp: is_forward_def may_have_opened_def forwardRequest_def plainRequest_def)

lemma emits_referenceStep:
  "operation \<in> {''prefill'', ''decode''} \<Longrightarrow> emits is_forward (referenceStep w s operation sequenceID position input)"
  unfolding referenceStep_def by (intro emits_option emits_leaf emits_doing emits_measuredInfer)

lemma traverse_emits:
  assumes "traverse w s operation position n input f g st calls = (calls', st', e)"
    "operation \<in> {''prefill'', ''decode''}"
  shows "\<exists>new. calls' = calls @ new \<and> (\<forall>call \<in> set new. quiet call)"
proof -
  obtain l exs r where chain: "executeBoundStageChain w (cfg_forwardTimeout (pls_config s)) (pls_targets s) operation
      (pgr_sequenceID (run_result st)) position input calls = (l, exs, r)"
    by (metis prod_cases3)
  obtain l' q where ref: "referenceStep w s operation (pgr_sequenceID (run_result st)) position input l = (l', q)"
    by fastforce
  obtain new where new: "l = calls @ new" "\<forall>call \<in> set new. is_forward call"
    using executeBoundStageChain_emits [OF chain] by blast
  obtain new' where new': "l' = l @ new'" "\<forall>call \<in> set new'. is_forward call"
    using emits_run [OF emits_referenceStep [OF assms(2)] ref] by blast
  have "calls' = l \<or> calls' = l'"
    using assms(1) chain ref by (auto simp: traverse_def Let_def split: sum.splits)
  then show ?thesis
    using new new' is_forward_quiet by (auto intro: exI [of _ new] exI [of _ "new @ new'"])
qed

lemma iteration_emits:
  assumes "iteration w s request st calls = (calls', st', ending)"
  shows "\<exists>new. calls' = calls @ new \<and> (\<forall>call \<in> set new. quiet call)"
proof -
  obtain st1 e1 where s1: "sampleNext w s request (run_terminal st) st calls = (st1, e1)" by fastforce
  obtain l st2 e2 where d: "decodeNext w s st1 calls = (l, st2, e2)" by (metis prod_cases3)
  obtain new where "l = calls @ new" "\<forall>call \<in> set new. quiet call"
    using d traverse_emits by (fastforce simp: decodeNext_def Let_def split: prod.splits option.splits)
  moreover have "calls' = calls \<or> calls' = l"
    using assms s1 d by (auto simp: iteration_def split: iteration_end.splits option.splits)
  ultimately show ?thesis by (auto intro: exI [of _ new])
qed

lemma iteration_fixed:
  assumes "iteration w s request st calls = (calls', st', ending)"
  shows "fixed_part (run_result st') = fixed_part (run_result st)"
proof -
  obtain st1 e1 where s1: "sampleNext w s request (run_terminal st) st calls = (st1, e1)" by fastforce
  obtain l st2 e2 where d: "decodeNext w s st1 calls = (l, st2, e2)" by (metis prod_cases3)
  have "fixed_part (run_result st2) = fixed_part (run_result st1)"
    using d traverse_fixed by (fastforce simp: decodeNext_def Let_def split: prod.splits option.splits)
  moreover have "st' = st1 \<or> st' = st2"
    using assms s1 d by (auto simp: iteration_def split: iteration_end.splits option.splits)
  ultimately show ?thesis using sampleNext_fixed [OF s1] by auto
qed

text \<open>A property of one iteration that composes holds of the loop.\<close>

lemma decodeLoop_chain:
  assumes "decodeLoop w s request st calls = (calls', st', err)"
    and "\<And>st calls. R st calls st calls"
    and "\<And>a b c d e f. R a b c d \<Longrightarrow> R c d e f \<Longrightarrow> R a b e f"
    and "\<And>st calls st' calls' ending. iteration w s request st calls = (calls', st', ending) \<Longrightarrow> R st calls st' calls'"
  shows "R st calls st' calls'"
  using assms
proof (induction w s request st calls rule: decodeLoop.induct)
  case (1 w s request st calls)
  obtain l st1 ending where it: "iteration w s request st calls = (l, st1, ending)" by (metis prod_cases3)
  show ?case
  proof (cases "gnr_maxTokens request \<le> int (length (pgr_generatedTokenIDs (run_result st)))")
    case True
    then have "calls' = calls" "st' = st" using 1(2) by (simp_all add: decodeLoop.simps [of w s request st calls])
    then show ?thesis using 1(3) by simp
  next
    case more: False
    show ?thesis
    proof (cases "ending = Sampled")
      case True
      then have "decodeLoop w s request st1 l = (calls', st', err)"
        using 1(2) it more by (simp add: decodeLoop.simps [of w s request st calls])
      then have "R st1 l st' calls'"
        using "1.IH" [OF more it [symmetric] refl True] 1(3,4,5) by blast
      then show ?thesis using 1(4,5) it by blast
    next
      case False
      then have "calls' = l" "st' = st1"
        using 1(2) it more by (auto simp: decodeLoop.simps [of w s request st calls] split: iteration_end.splits)
      then show ?thesis using 1(5) it by simp
    qed
  qed
qed

lemma decodeLoop_fixed:
  "decodeLoop w s request st calls = (calls', st', err) \<Longrightarrow> fixed_part (run_result st') = fixed_part (run_result st)"
  by (erule decodeLoop_chain [where R = "\<lambda>a b c d. fixed_part (run_result c) = fixed_part (run_result a)"])
    (auto dest: iteration_fixed)

lemma decodeLoop_emits:
  "decodeLoop w s request st calls = (calls', st', err) \<Longrightarrow>
   \<exists>new. calls' = calls @ new \<and> (\<forall>call \<in> set new. quiet call)"
  by (erule decodeLoop_chain [where R = "\<lambda>a b c d. \<exists>new. d = b @ new \<and> (\<forall>call \<in> set new. quiet call)"])
    (auto dest: iteration_emits)

lemma emits_detokenize: "emits quiet (detokenize w c modelID tokens)"
  unfolding detokenize_def
  by (intro emits_intros) (simp_all add: quiet_def may_have_opened_def detokenizeRequest_def well_formed_defs)

lemma emits_tokenize: "emits quiet (tokenize w c modelID prompt)"
  unfolding tokenize_def
  by (intro emits_intros) (simp_all add: quiet_def may_have_opened_def tokenizeRequest_def well_formed_defs)

lemma runSequence_emits:
  assumes "runSequence w s request tokenized c st calls = (calls', st', err)"
  shows "(\<exists>new. calls' = calls @ new \<and> (\<forall>call \<in> set new. quiet call)) \<and>
    fixed_part (run_result st') = fixed_part (run_result st)"
proof -
  define n where "n = length (txt_tokenIDs tokenized)"
  obtain l1 st1 e1 where 1: "traverse w s ''prefill'' 0 n (tokenTensor (txt_tokenIDs tokenized))
      DistributedPrefillFailed ReferencePrefillFailed st calls = (l1, st1, e1)" by (metis prod_cases3)
  have c1: "\<exists>new. l1 = calls @ new \<and> (\<forall>call \<in> set new. quiet call)"
    and f1: "fixed_part (run_result st1) = fixed_part (run_result st)"
    using traverse_emits [OF 1] traverse_fixed [OF 1] by auto
  show ?thesis
  proof (cases e1)
    case (Some e)
    then show ?thesis using assms 1 c1 f1 by (auto simp: runSequence_def n_def Let_def)
  next
    case None
    define v where "v = (if pls_reference s = None then None
      else Some \<lparr>vrf_greedyTokenIDsMatch = True, vrf_comparedTokens = 0,
        vrf_maxAbsoluteDifference = Finite 0, vrf_maxRelativeDifference = Finite 0\<rparr>)"
    define st2 where "st2 = st1\<lparr>run_result := (run_result st1)\<lparr>pgr_verification := v\<rparr>, run_position := word_of_nat n\<rparr>"
    obtain l2 st3 e2 where 2: "decodeLoop w s request st2 l1 = (l2, st3, e2)" by (metis prod_cases3)
    have c2: "\<exists>new. l2 = calls @ new \<and> (\<forall>call \<in> set new. quiet call)"
      using decodeLoop_emits [OF 2] c1 by auto
    have f2: "fixed_part (run_result st3) = fixed_part (run_result st)"
      using decodeLoop_fixed [OF 2] f1 by (simp add: st2_def)
    obtain l3 t where 3: "detokenize w c (em_ID (ep_model (pls_plan s))) (pgr_generatedTokenIDs (run_result st3)) l2 = (l3, t)"
      by fastforce
    have c3: "\<exists>new. l3 = calls @ new \<and> (\<forall>call \<in> set new. quiet call)"
      using emits_run [OF emits_detokenize 3] c2 by (metis Un_iff append.assoc set_append)
    have "calls' \<in> {l2, l3}" "fixed_part (run_result st') = fixed_part (run_result st3)"
      using assms 1 None 2 3 unfolding runSequence_def n_def [symmetric]
      by (auto simp: Let_def v_def [symmetric] st2_def [symmetric] split: option.splits sum.splits)
    then show ?thesis using c2 c3 f2 by auto
  qed
qed

section \<open>Cleanup\<close>

lemma sequence_call_well_formed: "sequence_call call \<Longrightarrow> well_formed_call call"
  by (auto simp: sequence_call_def sequenceRequest_def well_formed_defs)

lemma accounted_after_quiet:
  "\<forall>call \<in> set new. quiet call \<Longrightarrow> accounted owned rest \<Longrightarrow> accounted owned (new @ rest)"
  by (induction new) (auto simp: quiet_def)

lemma accounted_quiet:
  "accounted owned pre \<Longrightarrow> \<forall>call \<in> set new. quiet call \<Longrightarrow> accounted owned (pre @ new)"
  using accounted_after_quiet [of new owned "[]"] by (induction pre) auto

definition confirmed :: "run_state \<Rightarrow> bool" where
  "confirmed st \<longleftrightarrow> pgr_sequenceCleanupConfirmed (run_result st)"

lemma confirmed_fixed: "fixed_part (run_result st') = fixed_part (run_result st) \<Longrightarrow> confirmed st' = confirmed st"
  by (simp add: confirmed_def fixed_part_def)

lemma confirmed_confirmCleanup [simp]: "confirmed (confirmCleanup b st) = b"
  by (simp add: confirmed_def confirmCleanup_def)

lemma deferredCleanup_accounts:
  assumes "deferredCleanup w sequences (base @ pre, st, err) = (calls', st', err')"
    "accounted (owned_by sequences) pre" "callable (owned_by sequences)"
    "\<forall>call \<in> set pre. well_formed_call call" "sequences \<noteq> None \<Longrightarrow> \<not> confirmed st"
  shows "\<exists>new. calls' = base @ new \<and> (\<forall>call \<in> set new. well_formed_call call) \<and> (confirmed st' \<longrightarrow> accounted [] new)"
proof (cases sequences)
  case None
  then show ?thesis using assms by (auto simp: deferredCleanup_def owned_by_def)
next
  case (Some owned)
  obtain l retained errors where clean: "cleanupSet w owned (base @ pre) = (l, retained, errors)"
    by (metis prod_cases3)
  obtain new where new: "l = (base @ pre) @ new"
    "\<forall>call \<in> set new. sequence_call call \<and> req_command (wcl_request call) = ''closeSequence''"
    "\<forall>call. tracks owned call \<longrightarrow> (\<exists>closing \<in> set new. releases call closing) \<or> tracks retained call"
    "errors = [] \<longleftrightarrow> retained = []"
    using cleanup_calls [OF clean] assms(3) Some by (auto simp: owned_by_def)
  have acc: "accounted retained (pre @ new)"
    by (rule accounted_cleanup [OF _ _ new(3)]) (use assms(2) Some new(2) in \<open>auto simp: owned_by_def\<close>)
  have "calls' = l" using assms(1) Some clean by (auto simp: deferredCleanup_def Let_def split: if_splits option.splits)
  moreover have "confirmed st' \<Longrightarrow> errors = []"
    using assms(1,5) Some clean
    by (auto simp: deferredCleanup_def Let_def confirmed_def split: if_splits option.splits)
  ultimately show ?thesis
    using acc new assms(4) sequence_call_well_formed by (intro exI [of _ "pre @ new"]) auto
qed

lemma openAndRun_accounts:
  assumes "openAndRun w s request tokenized c st calls = (calls', st', err)"
  shows "\<exists>new. calls' = calls @ new \<and> (\<forall>call \<in> set new. well_formed_call call) \<and> (confirmed st' \<longrightarrow> accounted [] new)"
proof -
  define st1 where "st1 = confirmCleanup False (st\<lparr>run_point := failurePoint ''open_sequences'' [] [] 0\<rparr>)"
  obtain l sequences e where op: "openSequences w (generationTargets s) [gnr_sequenceID request] calls = (l, sequences, e)"
    by (metis prod_cases3)
  obtain new where new: "l = calls @ new" "accounted (owned_by sequences) new" "callable (owned_by sequences)"
    "\<forall>call \<in> set new. sequence_call call"
    using openSequences_calls [OF op] by blast
  have wf: "\<forall>call \<in> set new. well_formed_call call" using new(4) sequence_call_well_formed by blast
  show ?thesis
  proof (cases e)
    case (Some x)
    have "deferredCleanup w sequences (calls @ new, if sequences = None then confirmCleanup True st1 else st1,
        Some (OpenSequencesFailed x)) = (calls', st', err)"
      using assms op Some new(1) by (auto simp: openAndRun_def st1_def Let_def)
    from deferredCleanup_accounts [OF this new(2,3) wf] show ?thesis by (auto simp: st1_def)
  next
    case None
    obtain l2 st2 err2 where run: "runSequence w s request tokenized c st1 l = (l2, st2, err2)" by (metis prod_cases3)
    obtain more where more: "l2 = l @ more" "\<forall>call \<in> set more. quiet call" "fixed_part (run_result st2) = fixed_part (run_result st1)"
      using runSequence_emits [OF run] by blast
    have "deferredCleanup w sequences (calls @ (new @ more), st2, err2) = (calls', st', err)"
      using assms op None run new(1) more(1) by (simp add: openAndRun_def st1_def Let_def)
    from deferredCleanup_accounts [OF this accounted_quiet [OF new(2) more(2)] new(3)] show ?thesis
      using wf more(2) confirmed_fixed [OF more(3)] by (auto simp: quiet_def st1_def)
  qed
qed

lemma tokenizeAndRun_accounts:
  assumes "tokenizeAndRun w s request st calls = (calls', st', err)"
  shows "\<exists>new. calls' = calls @ new \<and> (\<forall>call \<in> set new. well_formed_call call) \<and> (confirmed st' \<longrightarrow> accounted [] new)"
proof -
  obtain l r where tok: "tokenize w (bnd_caller (hd (pls_targets s))) (em_ID (ep_model (pls_plan s)))
      (gnr_prompt request) calls = (l, r)" by fastforce
  obtain new where new: "l = calls @ new" "\<forall>call \<in> set new. quiet call"
    using emits_run [OF emits_tokenize tok] by blast
  have acc: "accounted [] new" using accounted_quiet [of "[]" "[]" new] new(2) by simp
  consider (stop) "calls' = l" | (go) tokenized st1 where
    "openAndRun w s request tokenized (bnd_caller (hd (pls_targets s))) st1 l = (calls', st', err)"
    using assms tok by (auto simp: tokenizeAndRun_def Let_def split: sum.splits if_splits)
  then show ?thesis
  proof cases
    case stop
    then show ?thesis using new acc by (auto simp: quiet_def)
  next
    case go
    from openAndRun_accounts [OF go] obtain more where more: "calls' = l @ more"
      "\<forall>call \<in> set more. well_formed_call call" "confirmed st' \<longrightarrow> accounted [] more"
      by blast
    have "accounted [] (new @ more)" if "accounted [] more"
      using accounted_after_quiet [OF new(2) that] .
    then show ?thesis using new more by (auto simp: quiet_def)
  qed
qed

lemma deferredFailure_confirmed: "confirmed (fst (deferredFailure st err)) = confirmed st"
  by (auto simp: deferredFailure_def confirmed_def Let_def split: option.splits)

lemma generate_accounts:
  assumes "generatePlanned w s request calls = (calls', final, err)"
  shows "\<exists>new. calls' = calls @ new \<and> (\<forall>call \<in> set new. well_formed_call call) \<and>
    ((\<forall>st. final = Some st \<longrightarrow> confirmed st) \<longrightarrow> accounted [] new)"
proof -
  consider (refused) "calls' = calls" | (ran) request' st e where
    "tokenizeAndRun w s request' (initialState s request') calls = (calls', st, e)"
    "final = Some (fst (deferredFailure st e))"
    using assms
    by (auto simp: generatePlanned_def Let_def split: option.splits if_splits prod.splits)
  then show ?thesis
  proof cases
    case refused
    then show ?thesis by auto
  next
    case ran
    then show ?thesis using tokenizeAndRun_accounts [OF ran(1)] deferredFailure_confirmed by auto
  qed
qed

section \<open>What preparing a session sends and establishes\<close>

definition loads_reference :: "(string \<Rightarrow> string) \<Rightarrow> execution_plan \<Rightarrow> model_result \<Rightarrow> caller option \<Rightarrow> worker_call \<Rightarrow> bool" where
  "loads_reference sha256 plan m reference call \<longleftrightarrow>
     (\<exists>c. reference = Some c \<and> is_load c (referenceLoadRequest
        (''generate-reference-'' @ modelHashSuffix sha256 (em_ID (ep_model plan)) (mdl_checkpointFingerprint m))
        (ep_model plan) m) call)"

lemma emits_referenceModel: "emits is_modelInfo (referenceModel w expected m c)"
  unfolding referenceModel_def by (intro emits_doing emits_wrapping emits_modelInfo emits_leaf)

lemma referenceModel_Inr:
  assumes "referenceModel w expected m c calls = (calls', Inr m')"
  shows "m' = m \<and> (\<exists>call. calls' = calls @ [call] \<and> reports_model expected m c call)"
  using assms modelInfo_Inr
  by (fastforce simp: referenceModel_def doing_Inr wrapping_Inr leaf_Inr matchPlanModel_Inr matchModel_Inr reports_model_def)

lemma emits_checkMetadata: "emits is_modelInfo (checkMetadata dg w plan targets reference)"
  unfolding checkMetadata_def split_beta
  by (intro emits_doing emits_wrapping emits_preflight emits_option emits_leaf emits_referenceModel)

lemma checkMetadata_Inr:
  assumes "checkMetadata dg w plan targets reference calls = (calls', Inr (bound, m))"
  shows "bindExecutionTargets plan targets = Inr bound \<and>
    (\<exists>infos. calls' = calls @ infos \<and> (\<forall>i < length bound. reports_model (ep_model plan) m (bnd_caller (bound ! i)) (infos ! i)) \<and>
       (case reference of None \<Rightarrow> length infos = length bound
        | Some c \<Rightarrow> length infos = Suc (length bound) \<and> reports_model (ep_model plan) m c (infos ! length bound)))"
proof -
  obtain l m' where pre: "preflightExecutionTargets dg w plan targets calls = (l, Inr (bound, m))"
    "(case reference of None \<Rightarrow> give m | Some c \<Rightarrow> referenceModel w (ep_model plan) m c) l = (calls', Inr m')"
    using assms by (auto simp: checkMetadata_def doing_Inr wrapping_Inr leaf_Inr)
  obtain infos where infos: "bindExecutionTargets plan targets = Inr bound" "l = calls @ infos" "length infos = length bound"
    "\<forall>i < length bound. reports_model (ep_model plan) m (bnd_caller (bound ! i)) (infos ! i)"
    using preflight_Inr [OF pre(1)] by blast
  show ?thesis
  proof (cases reference)
    case None
    then show ?thesis using pre(2) infos by (auto simp: leaf_Inr)
  next
    case (Some c)
    then obtain call where "calls' = l @ [call]" "reports_model (ep_model plan) m c call"
      using pre(2) referenceModel_Inr by fastforce
    then show ?thesis using infos Some by (intro conjI exI [of _ "infos @ [call]"]) (auto simp: nth_append)
  qed
qed

lemma emits_loadSession:
  "emits (\<lambda>call. loads_stage plan bound call \<or> loads_reference sha256 plan m reference call)
     (loadSession sha256 w plan reference config bound m)"
  unfolding loadSession_def Let_def
proof (intro emits_doing emits_wrapping emits_option emits_leaf)
  show "emits (\<lambda>call. loads_stage plan bound call \<or> loads_reference sha256 plan m reference call)
      (loadExecutionTargets w plan bound)"
    by (rule emits_mono [OF emits_loadExecutionTargets]) blast
next
  fix c
  assume "reference = Some c"
  then show "emits (\<lambda>call. loads_stage plan bound call \<or> loads_reference sha256 plan m reference call)
      (ensureShard w c (referenceLoadRequest (''generate-reference-'' @
        modelHashSuffix sha256 (em_ID (ep_model plan)) (mdl_checkpointFingerprint m)) (ep_model plan) m))"
    by (intro emits_mono [OF emits_ensureShard]) (simp add: loads_reference_def)
qed

definition all_report ::
  "execution_plan \<Rightarrow> model_result \<Rightarrow> bound_target list \<Rightarrow> caller option \<Rightarrow> worker_call list \<Rightarrow> bool" where
  "all_report plan m bound reference infos \<longleftrightarrow>
     (\<forall>i < length bound. reports_model (ep_model plan) m (bnd_caller (bound ! i)) (infos ! i)) \<and>
     (case reference of None \<Rightarrow> length infos = length bound
      | Some c \<Rightarrow> length infos = Suc (length bound) \<and> reports_model (ep_model plan) m c (infos ! length bound))"

lemma newPlannedSession_run:
  assumes "newPlannedSession dg sha256 w plan targets reference config calls = (calls', r)"
  shows "\<exists>infos rest. calls' = calls @ infos @ rest \<and> (\<forall>call \<in> set infos. is_modelInfo call) \<and>
    (rest \<noteq> [] \<longrightarrow> (\<exists>bound m. bindExecutionTargets plan targets = Inr bound \<and> all_report plan m bound reference infos \<and>
       (\<forall>call \<in> set rest. loads_stage plan bound call \<or> loads_reference sha256 plan m reference call)))"
proof -
  obtain l q where check: "checkMetadata dg w plan targets reference calls = (l, q)" by fastforce
  obtain infos where infos: "l = calls @ infos" "\<forall>call \<in> set infos. is_modelInfo call"
    using emits_run [OF emits_checkMetadata check] by blast
  show ?thesis
  proof (cases "\<exists>config' bound m. validatePlannedSessionConfig dg config plan reference = Inr config' \<and> q = Inr (bound, m)")
    case True
    then obtain config' bound m where ok: "validatePlannedSessionConfig dg config plan reference = Inr config'" "q = Inr (bound, m)"
      by blast
    obtain l2 s where load: "loadSession sha256 w plan reference config' bound m l = (l2, s)" by fastforce
    obtain rest where rest: "l2 = l @ rest"
      "\<forall>call \<in> set rest. loads_stage plan bound call \<or> loads_reference sha256 plan m reference call"
      using emits_run [OF emits_loadSession load] by blast
    have "calls' = l2"
      using assms check ok load
      by (auto simp: newPlannedSession_def doing_def outcome_def timed_def give_def split: prod.splits sum.splits)
    moreover have "bindExecutionTargets plan targets = Inr bound \<and> all_report plan m bound reference infos"
      using checkMetadata_Inr [OF check [unfolded ok(2)]] infos(1) by (auto simp: all_report_def)
    ultimately show ?thesis using infos rest by (intro exI [of _ infos] exI [of _ rest]) auto
  next
    case False
    then have "calls' = calls \<or> calls' = l"
      using assms check
      by (cases "validatePlannedSessionConfig dg config plan reference"; cases q)
        (auto simp: newPlannedSession_def doing_def outcome_def timed_def give_def split: prod.splits sum.splits)
    then show ?thesis using infos by auto
  qed
qed

lemma loadSession_Inr:
  assumes "loadSession sha256 w plan reference config bound m calls = (calls', Inr s)"
  shows "pls_targets s = bound \<and> pls_plan s = plan \<and> pls_reference s = reference \<and> pls_config s = config \<and>
    pls_model s = m \<and> length (pls_stageLoads s) = length bound \<and>
    (\<forall>i < length bound. snapshot_matches (stageLoadRequest (ep_model plan) (bnd_stage (bound ! i)))
       (sld_snapshot (pls_stageLoads s ! i)))"
proof -
  obtain l loads where load: "loadExecutionTargets w plan bound calls = (l, Inr loads)"
    and s: "\<exists>x. s = \<lparr>pls_targets = bound, pls_reference = reference, pls_config = config, pls_model = m,
      pls_plan = plan, pls_referenceShard = x, pls_stageLoads = loads, pls_setupMicros = 0\<rparr>"
    using assms by (cases reference) (auto simp: loadSession_def doing_Inr wrapping_Inr leaf_Inr Let_def)
  show ?thesis using loadExecutionTargets_Inr [OF load] s by auto
qed

lemma validatePlannedSessionConfig_Inr:
  "validatePlannedSessionConfig dg config plan reference = Inr config' \<Longrightarrow>
   validateExecutionPlan dg plan = Inr () \<and> millisecond \<le> cfg_forwardTimeout config' \<and>
   \<not> tolerancesInvalid (cfg_rtol config') (cfg_atol config')"
  by (auto simp: validatePlannedSessionConfig_def and_then_Inr defaultForwardTimeout_def duration_defs Let_def
      split: if_splits)

lemma newPlannedSession_Inr:
  assumes "newPlannedSession dg sha256 w plan targets reference config calls = (calls', Inr s)"
  shows "validateExecutionPlan dg plan = Inr () \<and> pls_plan s = plan \<and> map bnd_stage (pls_targets s) = ep_stages plan \<and>
    bindExecutionTargets plan targets = Inr (pls_targets s) \<and> pls_reference s = reference \<and>
    millisecond \<le> cfg_forwardTimeout (pls_config s) \<and> length (pls_stageLoads s) = length (ep_stages plan) \<and>
    (\<forall>i < length (ep_stages plan). snapshot_matches (stageLoadRequest (ep_model plan) (ep_stages plan ! i))
       (sld_snapshot (pls_stageLoads s ! i)))"
proof -
  obtain config' l bound m l2 s' micros where run: "validatePlannedSessionConfig dg config plan reference = Inr config'"
    "checkMetadata dg w plan targets reference calls = (l, Inr (bound, m))"
    "loadSession sha256 w plan reference config' bound m l = (l2, Inr s')" "s = s'\<lparr>pls_setupMicros := micros\<rparr>"
    using assms by (auto simp: newPlannedSession_def doing_Inr timed_Inr leaf_Inr)
  have stages: "map bnd_stage bound = ep_stages plan" "bindExecutionTargets plan targets = Inr bound"
    using checkMetadata_Inr [OF run(2)] bindExecutionTargets_stages by blast+
  have "length bound = length (ep_stages plan)" using stages(1) by (metis length_map)
  moreover have "bnd_stage (bound ! i) = ep_stages plan ! i" if "i < length bound" for i
    using stages(1) that by (metis nth_map)
  ultimately show ?thesis
    using loadSession_Inr [OF run(3)] validatePlannedSessionConfig_Inr [OF run(1)] stages run(4) by auto
qed

text \<open>The shards of a prepared session are distinct, as its plan is valid.\<close>

lemma session_shards_distinct:
  assumes "newPlannedSession dg sha256 w plan targets reference config calls = (calls', Inr s)"
  shows "distinct (map (\<lambda>t. es_shardID (bnd_stage t)) (pls_targets s))"
proof -
  note s = newPlannedSession_Inr [OF assms]
  have "distinct (map es_shardID (ep_stages plan))"
    using s by (simp add: validate_iff valid_plan_def identities_ok_def)
  then have "distinct (map es_shardID (map bnd_stage (pls_targets s)))"
    using s by simp
  then show ?thesis by (simp add: comp_def)
qed

end
