(* ===== verification/Decoding.thy ===== *)
theory Decoding
  imports Generation
begin

text \<open>
  What a generation computes: the bounds and the reason of its end, and its equality with
  the greedy decoding of the composed model when the workers compute their stages; the
  properties of the generation runtime, with a complete run of two workers.
\<close>

section \<open>What is generated\<close>

definition generated :: "run_state \<Rightarrow> i32 list" where
  "generated st = pgr_generatedTokenIDs (run_result st)"

text \<open>The token that ends a generation, if one does.\<close>

definition stop_token :: "generation_request \<Rightarrow> i32 option \<Rightarrow> i32 option" where
  "stop_token request eos = (if gnr_ignoreEOS request then None else eos)"

definition unfinished :: "generation_request \<Rightarrow> run_state \<Rightarrow> bool" where
  "unfinished request st \<longleftrightarrow>
     int (length (generated st)) < gnr_maxTokens request \<and>
     stop_token request (pgr_eosTokenID (run_result st)) \<notin> Some ` set (generated st)"

definition finished :: "generation_request \<Rightarrow> run_state \<Rightarrow> bool" where
  "finished request st \<longleftrightarrow>
     (let tokens = generated st; stop = stop_token request (pgr_eosTokenID (run_result st)) in
      tokens \<noteq> [] \<and> int (length tokens) \<le> gnr_maxTokens request \<and> stop \<notin> Some ` set (butlast tokens) \<and>
      (if stop = Some (last tokens) then pgr_stopReason (run_result st) = ''eos''
       else pgr_stopReason (run_result st) = ''max_tokens'' \<and> int (length tokens) = gnr_maxTokens request))"

lemma eos_fixed:
  "fixed_part r = fixed_part r' \<Longrightarrow> pgr_eosTokenID r = pgr_eosTokenID r'"
  by (simp add: fixed_part_def)

lemma acceptToken_end:
  assumes "acceptToken request token st = (st', ending)" "unfinished request st"
  shows "generated st' = generated st @ [token] \<and> (ending = Sampled \<longrightarrow> unfinished request st') \<and>
    (ending = Stopped \<longrightarrow> finished request st') \<and> ending \<in> {Sampled, Stopped}"
  using assms
  by (auto simp: acceptToken_def unfinished_def finished_def generated_def stop_token_def Let_def split: if_splits)

lemma sampleNext_end:
  assumes "sampleNext w s request terminal st calls = (st', ending)" "unfinished request st"
  shows "(case ending of Sampled \<Rightarrow> unfinished request st' | Stopped \<Rightarrow> finished request st'
    | Aborted e \<Rightarrow> unfinished request st')"
proof -
  have same: "unfinished request st2" if "generated st2 = generated st" "fixed_part (run_result st2) = fixed_part (run_result st)" for st2
    using assms(2) that eos_fixed [OF that(2)] by (simp add: unfinished_def)
  note f = sampleNext_fixed [OF assms(1)]
  show ?thesis
  proof (cases "\<exists>st3 token. verifyToken s terminal token (observeLogits s terminal
      (st\<lparr>run_point := failurePoint ''sample'' [] ''sample'' (run_position st)\<rparr>)) = (st3, None) \<and>
      acceptToken request token (flushSample st3) = (st', ending)")
    case True
    then obtain st3 token where v: "verifyToken s terminal token (observeLogits s terminal
        (st\<lparr>run_point := failurePoint ''sample'' [] ''sample'' (run_position st)\<rparr>)) = (st3, None)"
      "acceptToken request token (flushSample st3) = (st', ending)" by blast
    have "unfinished request (flushSample st3)"
      using same [of "flushSample st3"] verifyToken_tokens [OF v(1)] verifyToken_fixed [OF v(1)] by (simp add: generated_def)
    from acceptToken_end [OF v(2) this] show ?thesis by (auto split: iteration_end.splits)
  next
    case False
    then have "\<exists>e. ending = Aborted e" "generated st' = generated st"
      using assms(1)
      by (auto simp: sampleNext_def generated_def Let_def split: option.splits sum.splits prod.splits dest: verifyToken_tokens)
    then show ?thesis using same f by auto
  qed
qed

lemma iteration_end:
  assumes "iteration w s request st calls = (calls', st', ending)" "unfinished request st"
  shows "(case ending of Sampled \<Rightarrow> unfinished request st' | Stopped \<Rightarrow> finished request st'
    | Aborted e \<Rightarrow> unfinished request st')"
proof -
  obtain st1 e1 where s1: "sampleNext w s request (run_terminal st) st calls = (st1, e1)" by fastforce
  note end1 = sampleNext_end [OF s1 assms(2)]
  show ?thesis
  proof (cases "e1 = Sampled")
    case True
    obtain l st2 e2 where d: "decodeNext w s st1 calls = (l, st2, e2)" by (metis prod_cases3)
    have "fixed_part (run_result st2) = fixed_part (run_result st1)"
      using d traverse_fixed by (fastforce simp: decodeNext_def Let_def split: prod.splits option.splits)
    then have "unfinished request st2"
      using end1 True decodeNext_tokens [OF d] eos_fixed by (fastforce simp: unfinished_def generated_def)
    moreover have "st' = st2 \<and> (ending = Sampled \<or> (\<exists>e. ending = Aborted e))"
      using assms(1) s1 d True by (auto simp: iteration_def split: option.splits)
    ultimately show ?thesis by auto
  next
    case False
    then have "st' = st1 \<and> ending = e1"
      using assms(1) s1 by (auto simp: iteration_def split: iteration_end.splits)
    then show ?thesis using end1 by auto
  qed
qed

lemma decodeLoop_end:
  assumes "decodeLoop w s request st calls = (calls', st', err)" "unfinished request st"
  shows "if err = None then finished request st' else unfinished request st'"
  using assms
proof (induction w s request st calls rule: decodeLoop.induct)
  case (1 w s request st calls)
  have more: "\<not> gnr_maxTokens request \<le> int (length (pgr_generatedTokenIDs (run_result st)))"
    using 1(3) by (simp add: unfinished_def generated_def)
  obtain l st1 ending where it: "iteration w s request st calls = (l, st1, ending)" by (metis prod_cases3)
  note ends = iteration_end [OF it 1(3)]
  show ?case
  proof (cases "ending = Sampled")
    case True
    then have "decodeLoop w s request st1 l = (calls', st', err)"
      using 1(2) it more by (simp add: decodeLoop.simps [of w s request st calls])
    then show ?thesis using "1.IH" [OF more it [symmetric] refl True] ends True by simp
  next
    case False
    then show ?thesis
      using 1(2) it more ends
      by (auto simp: decodeLoop.simps [of w s request st calls] split: iteration_end.splits)
  qed
qed

text \<open>Everything around the loop keeps the tokens and the reason.\<close>

definition outcome_part where
  "outcome_part st = (generated st, pgr_stopReason (run_result st), pgr_eosTokenID (run_result st))"

lemma finished_cong: "outcome_part st' = outcome_part st \<Longrightarrow> finished request st' = finished request st"
  by (simp add: outcome_part_def finished_def)

lemma outcome_part_updates [simp]:
  "outcome_part (st\<lparr>run_point := p\<rparr>) = outcome_part st"
  "outcome_part (confirmCleanup b st) = outcome_part st"
  "outcome_part (st\<lparr>run_result := (run_result st)\<lparr>pgr_text := t\<rparr>, run_point := p\<rparr>) = outcome_part st"
  "outcome_part (st\<lparr>run_result := (run_result st)\<lparr>pgr_text := t\<rparr>\<rparr>) = outcome_part st"
  "outcome_part (st\<lparr>run_result := (run_result st)\<lparr>pgr_failure := f\<rparr>\<rparr>) = outcome_part st"
  by (simp_all add: outcome_part_def generated_def confirmCleanup_def)

lemma runSequence_end:
  assumes "runSequence w s request tokenized c st calls = (calls', st', err)"
    "generated st = []" "0 < gnr_maxTokens request"
  shows "int (length (generated st')) \<le> gnr_maxTokens request \<and> (err = None \<longrightarrow> finished request st')"
proof -
  define n where "n = length (txt_tokenIDs tokenized)"
  obtain l1 st1 e1 where 1: "traverse w s ''prefill'' 0 n (tokenTensor (txt_tokenIDs tokenized))
      DistributedPrefillFailed ReferencePrefillFailed st calls = (l1, st1, e1)" by (metis prod_cases3)
  have g1: "generated st1 = []" using traverse_tokens [OF 1] assms(2) by (simp add: generated_def)
  show ?thesis
  proof (cases e1)
    case (Some e)
    then show ?thesis using assms 1 g1 by (auto simp: runSequence_def n_def Let_def)
  next
    case None
    define v where "v = (if pls_reference s = None then None
      else Some \<lparr>vrf_greedyTokenIDsMatch = True, vrf_comparedTokens = 0,
        vrf_maxAbsoluteDifference = Finite 0, vrf_maxRelativeDifference = Finite 0\<rparr>)"
    define st2 where "st2 = st1\<lparr>run_result := (run_result st1)\<lparr>pgr_verification := v\<rparr>, run_position := word_of_nat n\<rparr>"
    obtain l2 st3 e2 where 2: "decodeLoop w s request st2 l1 = (l2, st3, e2)" by (metis prod_cases3)
    have "unfinished request st2"
      using g1 assms(3) by (simp add: st2_def unfinished_def generated_def)
    note ends = decodeLoop_end [OF 2 this]
    have "if err = None then e2 = None \<and> outcome_part st' = outcome_part st3 else generated st' = generated st3"
      using assms(1) 1 None 2 unfolding runSequence_def n_def [symmetric]
      by (auto simp: Let_def v_def [symmetric] st2_def [symmetric] generated_def split: option.splits sum.splits prod.splits)
    then show ?thesis
      using ends finished_cong [of st' st3 request]
      by (auto simp: finished_def unfinished_def Let_def outcome_part_def split: if_splits)
  qed
qed

lemma deferredCleanup_outcome:
  "deferredCleanup w sequences (calls, st, err) = (calls', st', err') \<Longrightarrow>
   outcome_part st' = outcome_part st \<and> (err' = None \<longrightarrow> err = None)"
  by (auto simp: deferredCleanup_def Let_def split: option.splits prod.splits if_splits)

lemma openAndRun_end:
  assumes "openAndRun w s request tokenized c st calls = (calls', st', err)"
    "generated st = []" "0 < gnr_maxTokens request"
  shows "int (length (generated st')) \<le> gnr_maxTokens request \<and> (err = None \<longrightarrow> finished request st')"
proof -
  define st1 where "st1 = confirmCleanup False (st\<lparr>run_point := failurePoint ''open_sequences'' [] [] 0\<rparr>)"
  have g1: "generated st1 = []" using assms(2) by (simp add: st1_def generated_def confirmCleanup_def)
  obtain l sequences e where op: "openSequences w (generationTargets s) [gnr_sequenceID request] calls = (l, sequences, e)"
    by (metis prod_cases3)
  show ?thesis
  proof (cases e)
    case (Some x)
    define st2 where "st2 = (if sequences = None then confirmCleanup True st1 else st1)"
    have "deferredCleanup w sequences (l, st2, Some (OpenSequencesFailed x)) = (calls', st', err)"
      using assms(1) op Some by (auto simp: openAndRun_def st1_def st2_def Let_def)
    moreover have "generated st2 = []" using g1 by (simp add: st2_def generated_def confirmCleanup_def)
    ultimately show ?thesis using deferredCleanup_outcome assms(3) by (fastforce simp: outcome_part_def)
  next
    case None
    obtain l2 st2 err2 where run: "runSequence w s request tokenized c st1 l = (l2, st2, err2)" by (metis prod_cases3)
    have "deferredCleanup w sequences (l2, st2, err2) = (calls', st', err)"
      using assms(1) op None run by (simp add: openAndRun_def st1_def Let_def)
    from deferredCleanup_outcome [OF this] runSequence_end [OF run g1 assms(3)] show ?thesis
      using finished_cong [of st' st2 request] by (auto simp: outcome_part_def)
  qed
qed

lemma generate_end:
  assumes "generatePlanned w s request calls = (calls', Some st, err)"
  shows "int (length (generated st)) \<le> gnr_maxTokens request \<and> (err = None \<longrightarrow> finished request st)"
proof -
  obtain sequenceID st1 e where run: "tokenizeAndRun w s (request\<lparr>gnr_sequenceID := sequenceID\<rparr>)
      (initialState s (request\<lparr>gnr_sequenceID := sequenceID\<rparr>)) calls = (calls', st1, e)"
    "deferredFailure st1 e = (st, err)" and m: "0 < gnr_maxTokens request"
    using assms by (auto simp: generatePlanned_def Let_def split: option.splits if_splits prod.splits)
  define q where "q = request\<lparr>gnr_sequenceID := sequenceID\<rparr>"
  have q: "gnr_maxTokens q = gnr_maxTokens request" "finished q x = finished request x" for x
    by (simp_all add: q_def finished_def stop_token_def)
  have "int (length (generated st1)) \<le> gnr_maxTokens q \<and> (e = None \<longrightarrow> finished q st1)"
    using run(1) m unfolding q_def [symmetric]
    by (auto simp: tokenizeAndRun_def Let_def generated_def initialState_def initialResult_def q
        split: sum.splits prod.splits if_splits dest!: openAndRun_end [unfolded generated_def])
  moreover have "outcome_part st = outcome_part st1 \<and> (err = None \<longrightarrow> e = None)"
    using run(2) by (auto simp: deferredFailure_def Let_def split: option.splits)
  ultimately show ?thesis using q finished_cong [of st st1 request] by (auto simp: outcome_part_def)
qed

section \<open>The single-machine specification\<close>

text \<open>
  A stage as a mathematical function: what it answers to the last of the inputs a sequence
  has given it. The model is their composition, and greedy decoding of a model extends the
  history by the tensor of each token until the limit or the stop token.
\<close>

type_synonym stage_function = "wire_tensor list \<Rightarrow> wire_tensor \<times> i32 option"

definition prefix_outputs :: "stage_function \<Rightarrow> wire_tensor list \<Rightarrow> wire_tensor list" where
  "prefix_outputs F xs = map (\<lambda>k. fst (F (take (Suc k) xs))) [0..<length xs]"

primrec stage_inputs :: "stage_function list \<Rightarrow> wire_tensor list \<Rightarrow> nat \<Rightarrow> wire_tensor list" where
  "stage_inputs fs history 0 = history"
| "stage_inputs fs history (Suc i) = prefix_outputs (fs ! i) (stage_inputs fs history i)"

definition composed :: "stage_function list \<Rightarrow> stage_function" where
  "composed fs history = last fs (stage_inputs fs history (length fs - 1))"

fun greedy_decode ::
  "stage_function \<Rightarrow> i32 option \<Rightarrow> nat \<Rightarrow> wire_tensor list \<Rightarrow> tensor_error + i32 list" where
  "greedy_decode model stop 0 history = Inr []"
| "greedy_decode model stop (Suc n) history =
     (let (logits, sampled) = model history in
      and_then (sampledToken sampled logits) (\<lambda>token.
        if stop = Some token \<or> n = 0 then Inr [token]
        else and_then (greedy_decode model stop n (history @ [tokenTensor [token]])) (\<lambda>tokens.
          Inr (token # tokens))))"

text \<open>
  What a shard has been fed for a sequence since the sequence was opened on it, read off the
  calls, and workers whose accepted answers are the stages' functions of it.
\<close>

definition feed :: "caller \<Rightarrow> string \<Rightarrow> string \<Rightarrow> worker_call \<Rightarrow> wire_tensor list \<Rightarrow> wire_tensor list" where
  "feed c shardID sequenceID call inputs =
     (if wcl_caller call \<noteq> c \<or> \<not> is_ok (wcl_answer call) then inputs
      else case req_sequence (wcl_request call) of
        Some q \<Rightarrow>
          if req_command (wcl_request call) = ''openSequence'' \<and> sqr_shardID q = shardID \<and> sqr_sequenceID q = sequenceID
          then [] else inputs
      | None \<Rightarrow>
          case req_forward (wcl_request call) of
            Some f \<Rightarrow> if fwr_shardID f = shardID \<and> fwr_sequenceID f = sequenceID then inputs @ [fwr_input f] else inputs
          | None \<Rightarrow> inputs)"

definition fed :: "caller \<Rightarrow> string \<Rightarrow> string \<Rightarrow> call_log \<Rightarrow> wire_tensor list" where
  "fed c shardID sequenceID calls = fold (feed c shardID sequenceID) calls []"

definition faithful :: "world \<Rightarrow> bound_target list \<Rightarrow> stage_function list \<Rightarrow> bool" where
  "faithful w targets fs \<longleftrightarrow>
     (\<forall>i < length targets. \<forall>calls ctx request f response r.
        wld_answer w calls ctx (bnd_caller (targets ! i)) request = Inr response \<longrightarrow>
        req_forward request = Some f \<longrightarrow> fwr_shardID f = es_shardID (bnd_stage (targets ! i)) \<longrightarrow>
        Option.bind (rsp_result response) wre_forward = Some r \<longrightarrow>
        (fwd_output r, fwd_sampledTokenID r) =
          (fs ! i) (fed (bnd_caller (targets ! i)) (fwr_shardID f) (fwr_sequenceID f) calls @ [fwr_input f]))"

lemma fed_snoc: "fed c sh q (calls @ [call]) = feed c sh q call (fed c sh q calls)"
  by (simp add: fed_def)

lemma fed_append: "fed c sh q (calls @ new) = fold (feed c sh q) new (fed c sh q calls)"
  by (simp add: fed_def)

lemma prefix_outputs_snoc: "prefix_outputs F (xs @ [x]) = prefix_outputs F xs @ [fst (F (xs @ [x]))]"
  by (simp add: prefix_outputs_def)

text \<open>The input of stage \<open>i\<close> in the traversal that extends the history by \<open>x\<close>.\<close>

definition next_input :: "stage_function list \<Rightarrow> wire_tensor list \<Rightarrow> wire_tensor \<Rightarrow> nat \<Rightarrow> wire_tensor" where
  "next_input fs history x i =
     (case i of 0 \<Rightarrow> x | Suc j \<Rightarrow> fst ((fs ! j) (stage_inputs fs (history @ [x]) j)))"

lemma stage_inputs_snoc: "stage_inputs fs (history @ [x]) i = stage_inputs fs history i @ [next_input fs history x i]"
proof (induction i)
  case (Suc i)
  then show ?case by (simp add: prefix_outputs_snoc next_input_def)
qed (simp add: next_input_def)

section \<open>One traversal computes the model\<close>

text \<open>Every stage has been fed what the stages before it computed of the history.\<close>

definition in_step :: "bound_target list \<Rightarrow> stage_function list \<Rightarrow> string \<Rightarrow> wire_tensor list \<Rightarrow> call_log \<Rightarrow> bool" where
  "in_step targets fs sequenceID history calls \<longleftrightarrow>
     (\<forall>i < length targets. fed (bnd_caller (targets ! i)) (es_shardID (bnd_stage (targets ! i))) sequenceID calls =
        stage_inputs fs history i)"

abbreviation shards_distinct :: "bound_target list \<Rightarrow> bool" where
  "shards_distinct targets \<equiv> distinct (map (\<lambda>t. es_shardID (bnd_stage t)) targets)"

lemma feed_forward:
  assumes "forward_call operation q position kind input t r call"
  shows "feed c sh q call inputs =
    (if bnd_caller t = c \<and> es_shardID (bnd_stage t) = sh then inputs @ [input] else inputs)"
  using assms by (auto simp: forward_call_def feed_def forwardRequest_def plainRequest_def)

lemma chain_in_step:
  assumes faithful: "faithful w targets fs" and len: "length fs = length targets"
    and distinct: "shards_distinct targets"
    and step: "in_step targets fs q history calls"
    and calls: "length new = length targets" "length rs = length targets"
      "\<forall>i < length targets. forward_call operation q position (if i = 0 then ''tokens'' else ''hidden'')
         (if i = 0 then x else fwd_output (rs ! (i - 1))) (targets ! i) (rs ! i) (new ! i)"
      "\<forall>i < length targets. answered_by w (calls @ take i new) (new ! i)"
  shows "n \<le> length targets \<Longrightarrow>
    (\<forall>i < length targets. fed (bnd_caller (targets ! i)) (es_shardID (bnd_stage (targets ! i))) q (calls @ take n new) =
       stage_inputs fs (if i < n then history @ [x] else history) i) \<and>
    (\<forall>i < n. (fwd_output (rs ! i), fwd_sampledTokenID (rs ! i)) = (fs ! i) (stage_inputs fs (history @ [x]) i))"
proof (induction n)
  case 0
  then show ?case using step by (simp add: in_step_def)
next
  case (Suc n)
  then have n: "n < length targets" and
    IHfed: "\<forall>i < length targets. fed (bnd_caller (targets ! i)) (es_shardID (bnd_stage (targets ! i))) q (calls @ take n new) =
       stage_inputs fs (if i < n then history @ [x] else history) i" and
    IHout: "\<forall>i < n. (fwd_output (rs ! i), fwd_sampledTokenID (rs ! i)) = (fs ! i) (stage_inputs fs (history @ [x]) i)"
    by auto
  define t where "t = targets ! n"
  define input where "input = (if n = 0 then x else fwd_output (rs ! (n - 1)))"
  have call: "forward_call operation q position (if n = 0 then ''tokens'' else ''hidden'') input t (rs ! n) (new ! n)"
    using calls(3) n by (simp add: t_def input_def)
  have input: "input = next_input fs history x n"
  proof (cases n)
    case (Suc m)
    then have "fwd_output (rs ! m) = fst ((fs ! m) (stage_inputs fs (history @ [x]) m))"
      using IHout by (metis fst_conv lessI)
    then show ?thesis using Suc by (simp add: input_def next_input_def)
  qed (simp add: input_def next_input_def)
  have before: "fed (bnd_caller t) (es_shardID (bnd_stage t)) q (calls @ take n new) = stage_inputs fs history n"
    using IHfed n by (simp add: t_def)
  obtain response where response: "wcl_answer (new ! n) = Inr response"
    "checkForward operation position (returnsSampled (bnd_stage t)) response = Inr (rs ! n)"
    "wcl_caller (new ! n) = bnd_caller t"
    using call by (auto simp: forward_call_def)
  have bind: "Option.bind (rsp_result response) wre_forward = Some (rs ! n)"
    using response(2) by (auto simp: checkForward_def split: option.splits if_splits)
  obtain f where f: "req_forward (wcl_request (new ! n)) = Some f" "fwr_shardID f = es_shardID (bnd_stage t)"
    "fwr_sequenceID f = q" "fwr_input f = input"
    using call by (auto simp: forward_call_def forwardRequest_def)
  have "wld_answer w (calls @ take n new) (wcl_context (new ! n)) (bnd_caller t) (wcl_request (new ! n)) = Inr response"
    using calls(4) n response(1,3) by (simp add: answered_by_def)
  then have "(fwd_output (rs ! n), fwd_sampledTokenID (rs ! n)) = (fs ! n)
      (fed (bnd_caller t) (fwr_shardID f) (fwr_sequenceID f) (calls @ take n new) @ [fwr_input f])"
    using faithful n f bind unfolding faithful_def t_def by blast
  then have out: "(fwd_output (rs ! n), fwd_sampledTokenID (rs ! n)) = (fs ! n) (stage_inputs fs (history @ [x]) n)"
    using before f input by (simp add: stage_inputs_snoc)
  have take: "calls @ take (Suc n) new = (calls @ take n new) @ [new ! n]"
    using n calls(1) by (simp add: take_Suc_conv_app_nth)
  have "fed (bnd_caller (targets ! i)) (es_shardID (bnd_stage (targets ! i))) q (calls @ take (Suc n) new) =
      stage_inputs fs (if i < Suc n then history @ [x] else history) i" if i: "i < length targets" for i
  proof (cases "i = n")
    case True
    then show ?thesis
      using before input call unfolding take fed_snoc by (simp add: feed_forward t_def stage_inputs_snoc)
  next
    case False
    then have "es_shardID (bnd_stage t) \<noteq> es_shardID (bnd_stage (targets ! i))"
      using distinct i n by (simp add: t_def distinct_conv_nth)
    then have "feed (bnd_caller (targets ! i)) (es_shardID (bnd_stage (targets ! i))) q (new ! n) inputs = inputs" for inputs
      using feed_forward [OF call] by simp
    then show ?thesis using IHfed i False unfolding take fed_snoc by auto
  qed
  moreover have "\<forall>i < Suc n. (fwd_output (rs ! i), fwd_sampledTokenID (rs ! i)) = (fs ! i) (stage_inputs fs (history @ [x]) i)"
    using IHout out by (auto simp: less_Suc_eq)
  ultimately show ?case by blast
qed

lemma traversal_computes:
  assumes "executeBoundStageChain w timeout targets operation q position x calls = (calls', exs, Inr r)"
    "faithful w targets fs" "length fs = length targets" "shards_distinct targets"
    "in_step targets fs q history calls"
  shows "in_step targets fs q (history @ [x]) calls' \<and>
    (fwd_output r, fwd_sampledTokenID r) = composed fs (history @ [x])"
proof -
  obtain new rs where new: "calls' = calls @ new" "length new = length targets" "length rs = length targets"
    "targets \<noteq> []" "r = last rs"
    "\<forall>i < length targets. forward_call operation q position (if i = 0 then ''tokens'' else ''hidden'')
       (if i = 0 then x else fwd_output (rs ! (i - 1))) (targets ! i) (rs ! i) (new ! i)"
    "\<forall>i < length targets. answered_by w (calls @ take i new) (new ! i)"
    using executeBoundStageChain_Inr [OF assms(1)] by blast
  define m where "m = length targets - 1"
  have m: "m < length targets" "length fs - 1 = m" using new(4) assms(3) by (simp_all add: m_def)
  note all = chain_in_step [OF assms(2-5) new(2,3,6,7), of "length targets", OF order_refl]
  have nonempty: "rs \<noteq> []" "fs \<noteq> []" using new(3,4) assms(3) by auto
  have "r = rs ! m" using last_conv_nth [OF nonempty(1)] new(3,5) by (simp add: m_def)
  moreover have "last fs = fs ! m" using last_conv_nth [OF nonempty(2)] assms(3) by (simp add: m_def)
  ultimately have "(fwd_output r, fwd_sampledTokenID r) = composed fs (history @ [x])"
    using all m by (simp add: composed_def)
  then show ?thesis using all new(1,2) by (simp add: in_step_def)
qed

section \<open>The loop decodes greedily\<close>

definition in_sync ::
  "planned_session \<Rightarrow> stage_function list \<Rightarrow> string \<Rightarrow> wire_tensor list \<Rightarrow> run_state \<Rightarrow> call_log \<Rightarrow> bool" where
  "in_sync s fs q history st calls \<longleftrightarrow>
     in_step (pls_targets s) fs q history calls \<and>
     (fwd_output (run_terminal st), fwd_sampledTokenID (run_terminal st)) = composed fs history \<and>
     pgr_sequenceID (run_result st) = q"

definition computes :: "world \<Rightarrow> planned_session \<Rightarrow> stage_function list \<Rightarrow> bool" where
  "computes w s fs \<longleftrightarrow>
     faithful w (pls_targets s) fs \<and> length fs = length (pls_targets s) \<and> shards_distinct (pls_targets s)"

text \<open>
  A session may have a reference, a full model whose logits every sampled token is compared
  with. Its calls go between those of the stages; they feed no stage when the shard it uses
  is not, on the same worker, the shard of a stage.
\<close>

definition reference_apart :: "planned_session \<Rightarrow> bool" where
  "reference_apart s \<longleftrightarrow>
     (case pls_reference s of
        None \<Rightarrow> True
      | Some c \<Rightarrow> (c, pls_referenceShard s) \<notin>
          set (map (\<lambda>t. (bnd_caller t, es_shardID (bnd_stage t))) (pls_targets s)))"

definition feeds_no_stage :: "planned_session \<Rightarrow> string \<Rightarrow> worker_call \<Rightarrow> bool" where
  "feeds_no_stage s q call \<longleftrightarrow>
     (\<forall>t \<in> set (pls_targets s). \<forall>inputs. feed (bnd_caller t) (es_shardID (bnd_stage t)) q call inputs = inputs)"

lemma fold_feed_quiet:
  "\<forall>call \<in> set new. feeds_no_stage s q call \<Longrightarrow> t \<in> set (pls_targets s) \<Longrightarrow>
   fold (feed (bnd_caller t) (es_shardID (bnd_stage t)) q) new inputs = inputs"
  by (induction new) (auto simp: feeds_no_stage_def)

lemma in_step_quiet:
  "in_step (pls_targets s) fs q history calls \<Longrightarrow> \<forall>call \<in> set new. feeds_no_stage s q call \<Longrightarrow>
   in_step (pls_targets s) fs q history (calls @ new)"
  by (simp add: in_step_def fed_append fold_feed_quiet)

lemma reference_forward_feeds_no_stage:
  assumes "reference_apart s" "pls_reference s = Some (wcl_caller call)"
    "wcl_request call = forwardRequest operation d (pls_referenceShard s) sequenceID position kind input sampled"
  shows "feeds_no_stage s q call"
  using assms by (auto simp: feeds_no_stage_def feed_def reference_apart_def forwardRequest_def plainRequest_def)

lemma reference_open_feeds_no_stage:
  assumes "reference_apart s" "pls_reference s = Some (wcl_caller call)" "sqt_shardID target = pls_referenceShard s"
    "wcl_request call = sequenceRequest target command sequenceID ownerID"
  shows "feeds_no_stage s q call"
  using assms by (auto simp: feeds_no_stage_def feed_def reference_apart_def)

lemma emits_reference_quiet:
  assumes "reference_apart s"
  shows "emits (feeds_no_stage s q) (referenceStep w s operation sequenceID position input)"
proof -
  have "emits (feeds_no_stage s q) (infer w d c operation (pls_referenceShard s) sequenceID position kind input sampled)"
    if "pls_reference s = Some c" for d c kind sampled
    unfolding infer_def
    by (intro emits_option emits_leaf emits_doing emits_callWorker)
      (rule reference_forward_feeds_no_stage [OF assms], simp_all add: that)
  then have "emits (feeds_no_stage s q) (measuredInfer w timeout c operation (pls_referenceShard s) sequenceID position
      kind input sampled)" if "pls_reference s = Some c" for c timeout kind sampled
    using that emits_timed unfolding emits_def measuredInfer_def by blast
  then show ?thesis unfolding referenceStep_def by (intro emits_option emits_leaf emits_doing) simp_all
qed

lemma sequenceID_fixed: "fixed_part r = fixed_part r' \<Longrightarrow> pgr_sequenceID r = pgr_sequenceID r'"
  by (simp add: fixed_part_def)

lemma traverse_computes:
  assumes "traverse w s operation position n x f g st calls = (calls', st', None)" "computes w s fs" "reference_apart s"
    "in_step (pls_targets s) fs q history calls" "pgr_sequenceID (run_result st) = q"
  shows "in_step (pls_targets s) fs q (history @ [x]) calls' \<and>
    (fwd_output (run_terminal st'), fwd_sampledTokenID (run_terminal st')) = composed fs (history @ [x]) \<and>
    generated st' = generated st \<and> fixed_part (run_result st') = fixed_part (run_result st)"
proof -
  obtain l exs r reference where chain: "executeBoundStageChain w (cfg_forwardTimeout (pls_config s)) (pls_targets s)
      operation q position x calls = (l, exs, Inr r)" "run_terminal st' = r"
    and ref: "referenceStep w s operation q position x l = (calls', Inr reference)"
    using assms(1,5)
    by (auto simp: traverse_def afterTraversal_def Let_def split: prod.splits sum.splits)
  obtain new where new: "calls' = l @ new" "\<forall>call \<in> set new. feeds_no_stage s q call"
    using emits_run [OF emits_reference_quiet [OF assms(3)] ref] by blast
  note computed = traversal_computes [OF chain(1)]
  have "in_step (pls_targets s) fs q (history @ [x]) calls'"
    using computed assms(2,4) in_step_quiet [OF _ new(2)] new(1) by (simp add: computes_def)
  then show ?thesis
    using computed assms(2,4) chain(2) traverse_tokens [OF assms(1)] traverse_fixed [OF assms(1)]
    by (simp add: computes_def generated_def)
qed

text \<open>Whether the token is compared with the reference's or not, it is the stages' token.\<close>

lemma sampleNext_accepts:
  assumes "sampleNext w s request terminal st calls = (st', ending)" "\<nexists>e. ending = Aborted e"
    "unfinished request st"
  shows "\<exists>token. sampledToken (fwd_sampledTokenID terminal) (fwd_output terminal) = Inr token \<and>
    generated st' = generated st @ [token] \<and>
    (ending = Stopped \<longleftrightarrow> stop_token request (pgr_eosTokenID (run_result st)) = Some token \<or>
       int (length (generated st')) = gnr_maxTokens request)"
proof -
  define st2 where
    "st2 = observeLogits s terminal (st\<lparr>run_point := failurePoint ''sample'' [] ''sample'' (run_position st)\<rparr>)"
  obtain token st3 where token: "sampledToken (fwd_sampledTokenID terminal) (fwd_output terminal) = Inr token"
    "verifyToken s terminal token st2 = (st3, None)"
    "acceptToken request token (flushSample st3) = (st', ending)"
    using assms(1,2) by (auto simp: sampleNext_def st2_def Let_def split: option.splits sum.splits prod.splits)
  have same: "pgr_generatedTokenIDs (run_result st3) = generated st"
    "pgr_eosTokenID (run_result st3) = pgr_eosTokenID (run_result st)"
    using verifyToken_tokens [OF token(2)] eos_fixed [OF verifyToken_fixed [OF token(2)]]
    by (simp_all add: st2_def generated_def)
  show ?thesis
    using token(1,3) same by (auto simp: acceptToken_def generated_def stop_token_def Let_def split: if_splits)
qed

lemma decodeLoop_computes:
  assumes "decodeLoop w s request st calls = (calls', st', None)" "computes w s fs"
    "in_sync s fs q history st calls" "unfinished request st" "reference_apart s"
  shows "\<exists>tokens. generated st' = generated st @ tokens \<and>
    greedy_decode (composed fs) (stop_token request (pgr_eosTokenID (run_result st)))
      (nat (gnr_maxTokens request - int (length (generated st)))) history = Inr tokens"
  using assms
proof (induction w s request st calls arbitrary: history rule: decodeLoop.induct)
  case (1 w s request st calls)
  define stop where "stop = stop_token request (pgr_eosTokenID (run_result st))"
  define left where "left = nat (gnr_maxTokens request - int (length (generated st)) - 1)"
  have more: "\<not> gnr_maxTokens request \<le> int (length (pgr_generatedTokenIDs (run_result st)))"
    using 1(5) by (simp add: unfinished_def generated_def)
  then have left: "nat (gnr_maxTokens request - int (length (generated st))) = Suc left"
    by (simp add: left_def generated_def)
  obtain l st1 ending where it: "iteration w s request st calls = (l, st1, ending)" by (metis prod_cases3)
  have ending: "\<nexists>e. ending = Aborted e"
    using 1(2) it more by (auto simp: decodeLoop.simps [of w s request st calls])
  obtain st2 e2 where s2: "sampleNext w s request (run_terminal st) st calls = (st2, e2)" by fastforce
  have e2: "\<nexists>e. e2 = Aborted e" using it s2 ending by (auto simp: iteration_def)
  have sync: "(fwd_output (run_terminal st), fwd_sampledTokenID (run_terminal st)) = composed fs history"
    "in_step (pls_targets s) fs q history calls" "pgr_sequenceID (run_result st) = q"
    using 1(4) by (simp_all add: in_sync_def)
  from sampleNext_accepts [OF s2 e2 1(5)] obtain token where token:
    "sampledToken (fwd_sampledTokenID (run_terminal st)) (fwd_output (run_terminal st)) = Inr token"
    "generated st2 = generated st @ [token]"
    "e2 = Stopped \<longleftrightarrow> stop = Some token \<or> int (length (generated st2)) = gnr_maxTokens request"
    unfolding stop_def by blast
  have last: "int (length (generated st2)) = gnr_maxTokens request \<longleftrightarrow> left = 0"
    using token(2) more by (auto simp: left_def generated_def)
  have model: "greedy_decode (composed fs) stop (Suc left) history =
      (if stop = Some token \<or> left = 0 then Inr [token]
       else and_then (greedy_decode (composed fs) stop left (history @ [tokenTensor [token]])) (\<lambda>tokens. Inr (token # tokens)))"
    unfolding greedy_decode.simps sync(1) [symmetric] using token(1) by (simp add: Let_def)
  show ?case
  proof (cases "e2 = Stopped")
    case True
    then have "st' = st2"
      using 1(2) it s2 more by (auto simp: decodeLoop.simps [of w s request st calls] iteration_def)
    moreover have "stop = Some token \<or> left = 0" using True token(3) last by simp
    ultimately show ?thesis using token(2) model left by (auto simp: stop_def)
  next
    case False
    then have e2: "e2 = Sampled" using e2 by (cases e2) auto
    then obtain st3 where st3: "decodeNext w s st2 calls = (l, st1, None)" "ending = Sampled"
      using it s2 ending by (auto simp: iteration_def split: prod.splits option.splits)
    then obtain st4 where trav: "traverse w s ''decode'' (run_position st2) 1 (tokenTensor [token])
        (DistributedDecodeFailed (length (generated st2))) (ReferenceDecodeFailed (length (generated st2))) st2 calls = (l, st4, None)"
      "st1 = st4\<lparr>run_position := run_position st4 + 1\<rparr>"
      using token(2) by (auto simp: decodeNext_def Let_def generated_def split: prod.splits option.splits)
    note fixed2 = sampleNext_fixed [OF s2]
    have "pgr_sequenceID (run_result st2) = q" using sequenceID_fixed [OF fixed2] sync(3) by simp
    note after = traverse_computes [OF trav(1) 1(3,6) sync(2) this]
    have sync1: "in_sync s fs q (history @ [tokenTensor [token]]) st1 l"
      using after sequenceID_fixed [OF fixed2] sync(3) sequenceID_fixed trav(2)
      by (fastforce simp: in_sync_def)
    have gen1: "generated st1 = generated st @ [token]"
      using after trav(2) token(2) by (simp add: generated_def)
    have eos1: "pgr_eosTokenID (run_result st1) = pgr_eosTokenID (run_result st)"
      using after trav(2) eos_fixed [OF fixed2] eos_fixed by fastforce
    have loop: "decodeLoop w s request st1 l = (calls', st', None)"
      using 1(2) it more st3(2) by (simp add: decodeLoop.simps [of w s request st calls])
    have unf: "unfinished request st1" using iteration_end [OF it 1(5)] st3(2) by simp
    from "1.IH" [OF more it [symmetric] refl st3(2) loop 1(3) sync1 unf 1(6)] obtain tokens where tokens:
      "generated st' = generated st1 @ tokens"
      "greedy_decode (composed fs) (stop_token request (pgr_eosTokenID (run_result st1)))
        (nat (gnr_maxTokens request - int (length (generated st1)))) (history @ [tokenTensor [token]]) = Inr tokens"
      by blast
    have "nat (gnr_maxTokens request - int (length (generated st1))) = left"
      using gen1 by (simp add: left_def)
    moreover have "\<not> (stop = Some token \<or> left = 0)" using False token(3) last by simp
    ultimately have "greedy_decode (composed fs) stop (Suc left) history = Inr (token # tokens)"
      using model tokens(2) eos1 by (simp add: stop_def)
    then show ?thesis using tokens(1) gen1 left by (auto simp: stop_def)
  qed
qed

section \<open>From the open to the end\<close>

lemma fold_feed_open:
  assumes "\<forall>call \<in> set new. req_command (wcl_request call) = ''openSequence'' \<and> (\<exists>x. req_sequence (wcl_request call) = Some x)"
    "inputs = [] \<or> (\<exists>call \<in> set new. wcl_caller call = c \<and> is_ok (wcl_answer call) \<and>
       (\<exists>x. req_sequence (wcl_request call) = Some x \<and> sqr_shardID x = sh \<and> sqr_sequenceID x = q))"
  shows "fold (feed c sh q) new inputs = []"
  using assms
proof (induction new arbitrary: inputs)
  case (Cons call new)
  obtain x where x: "req_sequence (wcl_request call) = Some x" "req_command (wcl_request call) = ''openSequence''"
    using Cons.prems(1) by auto
  have "feed c sh q call inputs = [] \<or> (\<exists>call \<in> set new. wcl_caller call = c \<and> is_ok (wcl_answer call) \<and>
       (\<exists>x. req_sequence (wcl_request call) = Some x \<and> sqr_shardID x = sh \<and> sqr_sequenceID x = q))"
    using Cons.prems(2) x by (auto simp: feed_def)
  from Cons.IH [OF _ this] Cons.prems(1) show ?case by simp
qed simp

lemma opened_in_step:
  assumes "list_all2 (opening_call p) (List.product [q] (executionSequenceTargets targets)) new"
  shows "in_step targets fs q [] (calls @ new)"
  unfolding in_step_def
proof (intro allI impI)
  fix i
  assume i: "i < length targets"
  have pair: "List.product [q] (executionSequenceTargets targets) = map (Pair q) (executionSequenceTargets targets)"
    by simp
  have len: "length new = length targets"
    using list_all2_lengthD [OF assms] by (simp add: executionSequenceTargets_def)
  have op: "opening_call p (q, executionSequenceTargets targets ! j) (new ! j)" if "j < length targets" for j
    using list_all2_nthD [OF assms, of j] that by (simp add: executionSequenceTargets_def)
  have all: "\<forall>call \<in> set new. req_command (wcl_request call) = ''openSequence'' \<and> (\<exists>x. req_sequence (wcl_request call) = Some x)"
    using op len by (auto simp: in_set_conv_nth opening_call_def)
  have "new ! i \<in> set new" using i len by simp
  moreover have "wcl_caller (new ! i) = bnd_caller (targets ! i)" "is_ok (wcl_answer (new ! i))"
    "req_sequence (wcl_request (new ! i)) = Some \<lparr>sqr_shardID = es_shardID (bnd_stage (targets ! i)),
       sqr_sequenceID = q, sqr_ownerID = p\<rparr>"
    using op [OF i] i by (simp_all add: opening_call_def executionSequenceTargets_def)
  ultimately have "\<exists>call \<in> set new. wcl_caller call = bnd_caller (targets ! i) \<and> is_ok (wcl_answer call) \<and>
      (\<exists>x. req_sequence (wcl_request call) = Some x \<and> sqr_shardID x = es_shardID (bnd_stage (targets ! i)) \<and>
         sqr_sequenceID x = q)"
    by (intro bexI [of _ "new ! i"]) simp_all
  then have "fold (feed (bnd_caller (targets ! i)) (es_shardID (bnd_stage (targets ! i))) q) new inputs = []" for inputs
    using fold_feed_open [OF all] by blast
  moreover have "stage_inputs fs [] i = []" by (induction i) (simp_all add: prefix_outputs_def)
  ultimately show "fed (bnd_caller (targets ! i)) (es_shardID (bnd_stage (targets ! i))) q (calls @ new) = stage_inputs fs [] i"
    by (simp add: fed_append)
qed

text \<open>The stages' opens start their inputs afresh; the reference's leaves them alone.\<close>

lemma all_opened_in_step:
  assumes "list_all2 (opening_call p) (List.product [q] (generationTargets s)) new" "reference_apart s"
  shows "in_step (pls_targets s) fs q [] (calls @ new)"
proof -
  define referenceTargets where "referenceTargets = (case pls_reference s of None \<Rightarrow> []
    | Some c \<Rightarrow> [\<lparr>sqt_name = ''reference'', sqt_caller = Some c, sqt_shardID = pls_referenceShard s\<rparr>])"
  have "list_all2 (opening_call p) (List.product [q] (executionSequenceTargets (pls_targets s)) @
      List.product [q] referenceTargets) new"
    using assms(1) by (simp add: generationTargets_def referenceTargets_def)
  then obtain stages references where new: "new = stages @ references"
    "list_all2 (opening_call p) (List.product [q] (executionSequenceTargets (pls_targets s))) stages"
    "list_all2 (opening_call p) (List.product [q] referenceTargets) references"
    by (auto simp: list_all2_append1)
  have "\<forall>call \<in> set references. feeds_no_stage s q call"
  proof (cases "pls_reference s")
    case None
    then show ?thesis using new(3) by (simp add: referenceTargets_def)
  next
    case (Some c)
    then obtain call where call: "references = [call]" "wcl_caller call = c"
      "wcl_request call = sequenceRequest \<lparr>sqt_name = ''reference'', sqt_caller = Some c,
         sqt_shardID = pls_referenceShard s\<rparr> ''openSequence'' q p"
      using new(3) by (auto simp: referenceTargets_def list_all2_Cons1 opening_call_def)
    have "feeds_no_stage s q call"
      by (rule reference_open_feeds_no_stage [OF assms(2) _ _ call(3)]) (simp_all add: Some call(2))
    then show ?thesis using call(1) by simp
  qed
  from in_step_quiet [OF opened_in_step [OF new(2)] this] show ?thesis using new(1) by simp
qed

lemma runSequence_computes:
  assumes "runSequence w s request tokenized c st calls = (calls', st', None)" "computes w s fs"
    "in_step (pls_targets s) fs q [] calls" "pgr_sequenceID (run_result st) = q" "generated st = []"
    "0 < gnr_maxTokens request" "reference_apart s"
  shows "greedy_decode (composed fs) (stop_token request (pgr_eosTokenID (run_result st)))
    (nat (gnr_maxTokens request)) [tokenTensor (txt_tokenIDs tokenized)] = Inr (generated st')"
proof -
  define n where "n = length (txt_tokenIDs tokenized)"
  obtain l1 st1 e1 where 1: "traverse w s ''prefill'' 0 n (tokenTensor (txt_tokenIDs tokenized))
      DistributedPrefillFailed ReferencePrefillFailed st calls = (l1, st1, e1)" by (metis prod_cases3)
  then have e1: "e1 = None" using assms(1) by (cases e1) (auto simp: runSequence_def n_def Let_def)
  note trav = traverse_computes [OF 1 [unfolded e1] assms(2,7,3,4)]
  define v where "v = (if pls_reference s = None then None
    else Some \<lparr>vrf_greedyTokenIDsMatch = True, vrf_comparedTokens = 0,
      vrf_maxAbsoluteDifference = Finite 0, vrf_maxRelativeDifference = Finite 0\<rparr>)"
  define st2 where "st2 = st1\<lparr>run_result := (run_result st1)\<lparr>pgr_verification := v\<rparr>, run_position := word_of_nat n\<rparr>"
  obtain l2 st3 e2 where 2: "decodeLoop w s request st2 l1 = (l2, st3, e2)" by (metis prod_cases3)
  have run: "e2 = None" "generated st' = generated st3"
    using assms(1,2) 1 e1 2 unfolding runSequence_def n_def [symmetric]
    by (auto simp: Let_def v_def [symmetric] st2_def [symmetric] generated_def split: option.splits sum.splits prod.splits)
  have sync: "in_sync s fs q [tokenTensor (txt_tokenIDs tokenized)] st2 l1"
    using trav sequenceID_fixed [of "run_result st1" "run_result st"] assms(4)
    by (simp add: in_sync_def st2_def)
  have g2: "generated st2 = []" using trav assms(5) by (simp add: st2_def generated_def)
  then have "unfinished request st2" using assms(6) by (simp add: unfinished_def)
  from decodeLoop_computes [OF 2 [unfolded run(1)] assms(2) sync this assms(7)] show ?thesis
    using g2 run(2) trav eos_fixed [of "run_result st1" "run_result st"] by (simp add: st2_def)
qed

lemma openAndRun_computes:
  assumes "openAndRun w s request tokenized c st calls = (calls', st', None)" "computes w s fs"
    "pgr_sequenceID (run_result st) = gnr_sequenceID request" "generated st = []" "0 < gnr_maxTokens request"
    "reference_apart s"
  shows "greedy_decode (composed fs) (stop_token request (pgr_eosTokenID (run_result st)))
    (nat (gnr_maxTokens request)) [tokenTensor (txt_tokenIDs tokenized)] = Inr (generated st')"
proof -
  define st1 where "st1 = confirmCleanup False (st\<lparr>run_point := failurePoint ''open_sequences'' [] [] 0\<rparr>)"
  have st1: "generated st1 = []" "pgr_sequenceID (run_result st1) = gnr_sequenceID request"
    "pgr_eosTokenID (run_result st1) = pgr_eosTokenID (run_result st)"
    using assms(3,4) by (simp_all add: st1_def generated_def confirmCleanup_def)
  obtain l sequences e where op: "openSequences w (generationTargets s) [gnr_sequenceID request] calls = (l, sequences, e)"
    by (metis prod_cases3)
  have e: "e = None"
    using assms(1) op
    by (cases e) (auto simp: openAndRun_def Let_def deferredCleanup_def split: option.splits prod.splits if_splits)
  obtain new p where new: "l = calls @ new"
    "list_all2 (opening_call p) (List.product [gnr_sequenceID request] (generationTargets s)) new"
    using openSequences_calls [OF op] e by blast
  have step: "in_step (pls_targets s) fs (gnr_sequenceID request) [] l"
    using all_opened_in_step [OF new(2) assms(6)] new(1) by simp
  obtain l2 st2 err2 where run: "runSequence w s request tokenized c st1 l = (l2, st2, err2)" by (metis prod_cases3)
  have clean: "deferredCleanup w sequences (l2, st2, err2) = (calls', st', None)"
    using assms(1) op e run by (simp add: openAndRun_def st1_def Let_def)
  then have "err2 = None" "generated st' = generated st2"
    using deferredCleanup_outcome by (fastforce simp: outcome_part_def)+
  then show ?thesis
    using runSequence_computes [of w s request tokenized c st1 l l2 st2 fs] run assms(2,5,6) step st1 by simp
qed

lemma openAndRun_prompt:
  assumes "openAndRun w s request tokenized c st calls = (calls', st', err)"
  shows "pgr_promptTokenIDs (run_result st') = pgr_promptTokenIDs (run_result st) \<and>
    pgr_eosTokenID (run_result st') = pgr_eosTokenID (run_result st)"
proof -
  obtain l sequences e where op: "openSequences w (generationTargets s) [gnr_sequenceID request] calls = (l, sequences, e)"
    by (metis prod_cases3)
  define st1 where "st1 = confirmCleanup False (st\<lparr>run_point := failurePoint ''open_sequences'' [] [] 0\<rparr>)"
  obtain l2 st2 err2 where run: "runSequence w s request tokenized c st1 l = (l2, st2, err2)" by (metis prod_cases3)
  have keep: "pgr_promptTokenIDs (run_result y) = pgr_promptTokenIDs (run_result x) \<and>
      pgr_eosTokenID (run_result y) = pgr_eosTokenID (run_result x)"
    if "deferredCleanup w sequences (k, x, f) = (k', y, f')" for k x f k' y f'
    using that by (auto simp: deferredCleanup_def confirmCleanup_def Let_def split: option.splits prod.splits if_splits)
  show ?thesis
  proof (cases e)
    case (Some x)
    have "deferredCleanup w sequences (l, if sequences = None then confirmCleanup True st1 else st1,
        Some (OpenSequencesFailed x)) = (calls', st', err)"
      using assms op Some by (auto simp: openAndRun_def st1_def Let_def)
    from keep [OF this] show ?thesis by (auto simp: st1_def confirmCleanup_def split: if_splits)
  next
    case None
    have "deferredCleanup w sequences (l2, st2, err2) = (calls', st', err)"
      using assms op None run by (simp add: openAndRun_def st1_def Let_def)
    from keep [OF this] runSequence_emits [OF run] show ?thesis
      by (auto simp: fixed_part_def st1_def confirmCleanup_def)
  qed
qed

lemma generate_computes:
  assumes "generatePlanned w s request calls = (calls', Some st, None)" "computes w s fs" "reference_apart s"
  shows "greedy_decode (composed fs) (stop_token request (pgr_eosTokenID (run_result st)))
    (nat (gnr_maxTokens request)) [tokenTensor (pgr_promptTokenIDs (run_result st))] = Inr (generated st)"
proof -
  obtain sequenceID st1 e where run: "tokenizeAndRun w s (request\<lparr>gnr_sequenceID := sequenceID\<rparr>)
      (initialState s (request\<lparr>gnr_sequenceID := sequenceID\<rparr>)) calls = (calls', st1, e)"
    "deferredFailure st1 e = (st, None)" and m: "0 < gnr_maxTokens request"
    using assms by (auto simp: generatePlanned_def Let_def split: option.splits if_splits prod.splits)
  define q where "q = request\<lparr>gnr_sequenceID := sequenceID\<rparr>"
  have q: "gnr_maxTokens q = gnr_maxTokens request" "stop_token q = stop_token request"
    by (simp_all add: q_def stop_token_def fun_eq_iff)
  have e: "e = None" "st = st1" using run(2) by (auto simp: deferredFailure_def Let_def split: option.splits)
  obtain l tokenized where tok: "openAndRun w s q tokenized (bnd_caller (hd (pls_targets s)))
      ((initialState s q)\<lparr>run_result := (run_result (initialState s q))
        \<lparr>pgr_promptTokenIDs := txt_tokenIDs tokenized, pgr_eosTokenID := txt_eosTokenID tokenized\<rparr>\<rparr>) l = (calls', st, None)"
    using run(1) e unfolding q_def [symmetric]
    by (auto simp: tokenizeAndRun_def Let_def split: sum.splits prod.splits if_splits)
  show ?thesis
    using openAndRun_computes [OF tok assms(2) _ _ _ assms(3)] openAndRun_prompt [OF tok] m q
    by (simp add: initialState_def initialResult_def generated_def)
qed

section \<open>A run\<close>

text \<open>
  Two workers serve the plan of the execution-plan theory: the first answers a forward step
  with one byte, the second samples a token, six more than the number of inputs it has been
  given. Token 9 ends a sequence.
\<close>

definition demo_first :: stage_function where
  "demo_first inputs = (\<lparr>wt_shape = [1], wt_dtype = ''float32'', wt_data = [word_of_nat (length inputs)]\<rparr>, None)"

definition demo_second :: stage_function where
  "demo_second inputs = (emptyTensor, Some (word_of_nat (length inputs + 6)))"

definition demo_forward :: "call_log \<Rightarrow> caller \<Rightarrow> persistent_request \<Rightarrow> forward_request \<Rightarrow> forward_result" where
  "demo_forward calls c request f =
     (let (out, sampled) = (if c = 1 then demo_first else demo_second)
           (fed c (fwr_shardID f) (fwr_sequenceID f) calls @ [fwr_input f])
      in \<lparr>fwd_shardID = fwr_shardID f, fwd_sequenceID = fwr_sequenceID f, fwd_operation = req_command request,
          fwd_position = fwr_position f, fwd_nextPosition = fwr_position f + 1, fwd_output = out,
          fwd_sampledTokenID = sampled, fwd_computeMicros = 5, fwd_kvCacheBytes = 8, fwd_memory = emptyMemory\<rparr>)"

definition demo_model_result :: model_result where
  "demo_model_result = \<lparr>mdl_modelID = ''gemma'', mdl_modelType = ''gemma'', mdl_layerCount = 5,
     mdl_checkpointFingerprint = ''f1'', mdl_checkpointBytes = 100\<rparr>"

definition demo_snapshot :: "load_shard_request \<Rightarrow> shard_snapshot" where
  "demo_snapshot r = \<lparr>shs_shardID = lsr_shardID r, shs_modelID = lsr_modelID r, shs_modelType = ''gemma'',
     shs_checkpointFingerprint = lsr_checkpointFingerprint r, shs_layerStart = lsr_layerStart r,
     shs_layerEnd = lsr_layerEnd r, shs_ownsInput = lsr_ownsInput r, shs_ownsOutput = lsr_ownsOutput r,
     shs_weightKeyCount = 1, shs_openSequenceCount = 0, shs_maxOpenSequenceCount = 4, shs_forwardCount = 0,
     shs_kvCacheBytes = 0, shs_retainedBytes = 0, shs_loadedMemory = emptyMemory\<rparr>"

definition demo_state :: worker_state where
  "demo_state = \<lparr>wst_loadedShards = [], wst_loadCount = 0, wst_forwardCount = 0, wst_kvCacheBytes = 0,
     wst_retainedBytes = 0, wst_retainedByteBudget = 0, wst_maxOpenSequencesPerShard = 4,
     wst_physicalMemoryBytes = 0, wst_mlxMemoryLimitBytes = 0, wst_mlxCacheLimitBytes = 0, wst_memory = emptyMemory\<rparr>"

definition demo_text :: "text_request \<Rightarrow> text_result" where
  "demo_text r = \<lparr>txt_modelID = txr_modelID r, txt_tokenIDs = [3, 4],
     txt_text = (if txr_tokenIDs r = [] then None else Some ''hi''), txt_eosTokenID = Some 9\<rparr>"

definition demo_answer :: "call_log \<Rightarrow> call_context \<Rightarrow> caller \<Rightarrow> persistent_request \<Rightarrow> answer" where
  "demo_answer calls ctx c request =
     Inr (demo_response\<lparr>rsp_result := Some (demo_worker_result
       \<lparr>wre_shard := map_option demo_snapshot (req_loadShard request),
        wre_forward := map_option (demo_forward calls c request) (req_forward request),
        wre_model := map_option (\<lambda>_. demo_model_result) (req_model request),
        wre_text := map_option demo_text (req_text request),
        wre_state := (if req_command request = ''state'' then Some demo_state else None)\<rparr>)\<rparr>)"

definition demo_run_world :: world where
  "demo_run_world = demo_world\<lparr>wld_answer := demo_answer\<rparr>"

definition demo_config :: session_config where
  "demo_config = \<lparr>cfg_rtol = Finite 0, cfg_atol = Finite 0, cfg_forwardTimeout = 0, cfg_observer = True,
     cfg_logitsObserver = False\<rparr>"

definition demo_execution_targets :: "execution_target list" where
  "demo_execution_targets = [\<lparr>ext_targetID = ''a'', ext_caller = Some 1\<rparr>, \<lparr>ext_targetID = ''b'', ext_caller = Some 2\<rparr>]"

definition demo_session :: planned_session where
  "demo_session =
     (case snd (newPlannedSession demo_digests id demo_run_world demo_plan demo_execution_targets None demo_config []) of
        Inr s \<Rightarrow> s | Inl e \<Rightarrow> undefined)"

definition demo_request :: generation_request where
  "demo_request = \<lparr>gnr_prompt = ''hello'', gnr_maxTokens = 5, gnr_sequenceID = ''q'', gnr_ignoreEOS = False\<rparr>"

lemma demo_session_prepared:
  "is_ok (snd (newPlannedSession demo_digests id demo_run_world demo_plan demo_execution_targets None demo_config []))"
  by code_simp

lemma demo_generates:
  "case generatePlanned demo_run_world demo_session demo_request [] of
     (calls, Some st, None) \<Rightarrow> generated st = [7, 8, 9] \<and> length calls = 12 \<and> confirmed st
   | _ \<Rightarrow> False"
  by code_simp

lemma demo_session_run:
  obtains calls where "newPlannedSession demo_digests id demo_run_world demo_plan demo_execution_targets None
      demo_config [] = (calls, Inr demo_session)"
proof -
  obtain calls r where run: "newPlannedSession demo_digests id demo_run_world demo_plan demo_execution_targets None
      demo_config [] = (calls, r)" by fastforce
  then obtain s where "r = Inr s" using demo_session_prepared by (cases r) auto
  with run that show thesis by (simp add: demo_session_def)
qed

lemma demo_callers: "map bnd_caller (pls_targets demo_session) = [1, 2]"
  by code_simp

lemma demo_unreferenced: "pls_reference demo_session = None"
  using demo_session_run newPlannedSession_Inr by metis

lemma demo_reference_apart: "reference_apart demo_session"
  by (simp add: reference_apart_def demo_unreferenced)

lemma demo_computes: "computes demo_run_world demo_session [demo_first, demo_second]"
proof -
  have callers: "length (pls_targets demo_session) = 2" "bnd_caller (pls_targets demo_session ! 0) = 1"
    "bnd_caller (pls_targets demo_session ! Suc 0) = 2"
    using demo_callers by (auto simp: map_eq_Cons_conv)
  have "faithful demo_run_world (pls_targets demo_session) [demo_first, demo_second]"
    unfolding faithful_def
    using callers
    by (auto simp: less_Suc_eq numeral_2_eq_2 demo_run_world_def demo_answer_def demo_forward_def demo_worker_result_def
        Let_def split: prod.splits)
  then show ?thesis
    using callers demo_session_run session_shards_distinct unfolding computes_def
    by (metis length_Cons list.size(3) numeral_2_eq_2)
qed

section \<open>Properties\<close>

text \<open>
  C1: A generation through a chain of stages decodes exactly what the composed model would on
  one machine, in a session with a reference or without one. If every worker answers with its
  stage's function of the inputs it has been given since the sequence was opened on it, and
  the stages have distinct shards (\<open>computes\<close>; a prepared session's have), and the reference,
  if there is one, does not use the shard of a stage on that stage's worker
  (\<open>reference_apart\<close>), a generation that succeeds returns the greedy decoding of the
  composition of the stages, for the tokenized prompt, the limit and the stop token of the
  request: the routing of tensors, the order of the calls, the calls of the reference between
  them, the positions and the bookkeeping of the loop neither lose, repeat nor reorder an
  input of any stage.
\<close>

theorem distributed_generation_computes_the_model:
  assumes "generatePlanned w s request calls = (calls', Some st, None)" "computes w s fs" "reference_apart s"
  shows "greedy_decode (composed fs) (stop_token request (pgr_eosTokenID (run_result st)))
    (nat (gnr_maxTokens request)) [tokenTensor (pgr_promptTokenIDs (run_result st))] = Inr (generated st)"
  by (rule generate_computes [OF assms])

text \<open>
  C7: A generation that reports its cleanup as confirmed has left nothing behind: in whatever
  order calls failed, every open that a worker may have applied has been followed, later in
  the log, by a close of the same sequence on the same worker that the worker confirmed or
  answered by saying that it holds no such sequence or shard. A request that is refused
  without a result has opened nothing that is not closed so.
\<close>

theorem confirmed_cleanup_leaves_nothing_open:
  assumes "generatePlanned w s request calls = (calls', final, err)" "\<forall>st. final = Some st \<longrightarrow> confirmed st"
  shows "\<exists>new. calls' = calls @ new \<and>
    (\<forall>earlier call later. new = earlier @ call # later \<longrightarrow> may_have_opened call \<longrightarrow>
       (\<exists>closing \<in> set later. releases call closing))"
proof -
  obtain new where "calls' = calls @ new" "accounted [] new"
    using generate_accounts [OF assms(1)] assms(2) by blast
  then show ?thesis by (auto simp: accounted_order tracks_def)
qed

text \<open>
  C17: No worker is asked to load anything before every worker of the plan, and the reference
  if there is one, has reported the same metadata for the plan's model, with its identity,
  fingerprint and layer count. Whether preparing the session succeeds or fails, its calls are
  metadata requests, followed only if they all agree by state and load requests for the shard
  each stage is bound to.
\<close>

theorem no_load_before_metadata_agrees:
  assumes "newPlannedSession dg sha256 w plan targets reference config calls = (calls', r)"
  shows "\<exists>infos rest. calls' = calls @ infos @ rest \<and> (\<forall>call \<in> set infos. is_modelInfo call) \<and>
    (rest \<noteq> [] \<longrightarrow> (\<exists>bound m. bindExecutionTargets plan targets = Inr bound \<and> all_report plan m bound reference infos \<and>
       (\<forall>call \<in> set rest. loads_stage plan bound call \<or> loads_reference sha256 plan m reference call)))"
  by (rule newPlannedSession_run [OF assms])

text \<open>
  A prepared session is bound to the stages of a valid plan, in their order, and every
  stage's worker has reported a shard with the model, the fingerprint, the layers and the
  ownership the plan gives the stage, whether it was loaded now, found loaded, or found after a
  concurrent load. Its forward timeout is at least a millisecond.
\<close>

theorem prepared_session_holds_every_stage:
  assumes "newPlannedSession dg sha256 w plan targets reference config calls = (calls', Inr s)"
  shows "validateExecutionPlan dg plan = Inr () \<and> pls_plan s = plan \<and> map bnd_stage (pls_targets s) = ep_stages plan \<and>
    bindExecutionTargets plan targets = Inr (pls_targets s) \<and> pls_reference s = reference \<and>
    millisecond \<le> cfg_forwardTimeout (pls_config s) \<and> length (pls_stageLoads s) = length (ep_stages plan) \<and>
    (\<forall>i < length (ep_stages plan). snapshot_matches (stageLoadRequest (ep_model plan) (ep_stages plan ! i))
       (sld_snapshot (pls_stageLoads s ! i)))"
  by (rule newPlannedSession_Inr [OF assms])

text \<open>
  Every call of a generation is well formed, on every path: its command comes with exactly
  the payload the worker expects for it, and the inference requests, and only they, carry a
  deadline, which is that of the context they are sent in.
\<close>

theorem generation_calls_are_well_formed:
  assumes "generatePlanned w s request calls = (calls', final, err)"
  shows "\<exists>new. calls' = calls @ new \<and> (\<forall>call \<in> set new. well_formed_call call)"
  using generate_accounts [OF assms] by blast

text \<open>
  C30: A generation never exceeds the requested number of tokens. One that returns without an
  error has generated at least one token and states why it stopped: at the stop token, which
  then is the last one and the first of its kind, or at the limit.
\<close>

theorem generation_stops_where_it_says:
  assumes "generatePlanned w s request calls = (calls', Some st, err)"
  shows "int (length (generated st)) \<le> gnr_maxTokens request \<and> (err = None \<longrightarrow> finished request st)"
  by (rule generate_end [OF assms])

section \<open>The properties of the run\<close>

lemma demo_generation:
  obtains calls st where "generatePlanned demo_run_world demo_session demo_request [] = (calls, Some st, None)"
    "generated st = [7, 8, 9]" "length calls = 12" "confirmed st"
  using demo_generates by (auto split: prod.splits option.splits)

lemma distributed_generation_computes_the_model_witness:
  "\<exists>calls st. generatePlanned demo_run_world demo_session demo_request [] = (calls, Some st, None) \<and>
     greedy_decode (composed [demo_first, demo_second]) (stop_token demo_request (pgr_eosTokenID (run_result st)))
       (nat (gnr_maxTokens demo_request)) [tokenTensor (pgr_promptTokenIDs (run_result st))] = Inr [7, 8, 9]"
proof -
  obtain calls st where run: "generatePlanned demo_run_world demo_session demo_request [] = (calls, Some st, None)"
    "generated st = [7, 8, 9]" using demo_generation by blast
  from distributed_generation_computes_the_model [OF run(1) demo_computes demo_reference_apart] run show ?thesis by auto
qed

lemma confirmed_cleanup_leaves_nothing_open_witness:
  "\<exists>calls st. generatePlanned demo_run_world demo_session demo_request [] = (calls, Some st, None) \<and>
     length calls = 12 \<and> (\<forall>earlier call later. calls = earlier @ call # later \<longrightarrow> may_have_opened call \<longrightarrow>
       (\<exists>closing \<in> set later. releases call closing))"
proof -
  obtain calls st where run: "generatePlanned demo_run_world demo_session demo_request [] = (calls, Some st, None)"
    "length calls = 12" "confirmed st" using demo_generation by blast
  from confirmed_cleanup_leaves_nothing_open [OF run(1)] run show ?thesis by auto
qed

lemma no_load_before_metadata_agrees_witness:
  "\<exists>calls infos rest. newPlannedSession demo_digests id demo_run_world demo_plan demo_execution_targets None
       demo_config [] = (calls, Inr demo_session) \<and> calls = infos @ rest \<and> (\<forall>call \<in> set infos. is_modelInfo call)"
proof -
  obtain calls where run: "newPlannedSession demo_digests id demo_run_world demo_plan demo_execution_targets None
      demo_config [] = (calls, Inr demo_session)" using demo_session_run by blast
  from no_load_before_metadata_agrees [OF run] run show ?thesis by auto
qed

lemma prepared_session_holds_every_stage_witness:
  "\<exists>calls. newPlannedSession demo_digests id demo_run_world demo_plan demo_execution_targets None
       demo_config [] = (calls, Inr demo_session) \<and> map bnd_stage (pls_targets demo_session) = ep_stages demo_plan"
proof -
  obtain calls where run: "newPlannedSession demo_digests id demo_run_world demo_plan demo_execution_targets None
      demo_config [] = (calls, Inr demo_session)" using demo_session_run by blast
  from prepared_session_holds_every_stage [OF run] run show ?thesis by blast
qed

lemma generation_calls_are_well_formed_witness:
  "\<exists>calls st. generatePlanned demo_run_world demo_session demo_request [] = (calls, Some st, None) \<and>
     length calls = 12 \<and> (\<forall>call \<in> set calls. well_formed_call call)"
proof -
  obtain calls st where run: "generatePlanned demo_run_world demo_session demo_request [] = (calls, Some st, None)"
    "length calls = 12" using demo_generation by blast
  from generation_calls_are_well_formed [OF run(1)] run show ?thesis by auto
qed

lemma generation_stops_where_it_says_witness:
  "\<exists>calls st. generatePlanned demo_run_world demo_session demo_request [] = (calls, Some st, None) \<and>
     generated st = [7, 8, 9] \<and> finished demo_request st"
proof -
  obtain calls st where run: "generatePlanned demo_run_world demo_session demo_request [] = (calls, Some st, None)"
    "generated st = [7, 8, 9]" using demo_generation by blast
  from generation_stops_where_it_says [OF run(1)] run show ?thesis by blast
qed

end
