(* ===== verification/Session.thy ===== *)
theory Session
  imports Decoding
begin

text \<open>
  The two-stage compatibility facade over the generation runtime
  (\<open>Session\<close>, \<open>NewSession\<close> and the \<open>legacy\<close> translations of
  \<open>internal/generation/generation.go\<close>), and the verification of a captured generation
  against a full model that is loaded later (\<open>internal/generation/reference.go\<close>).
\<close>

section \<open>The facade's data\<close>

record legacy_config =
  lcf_model :: string
  lcf_rtol :: float64
  lcf_atol :: float64
  lcf_forwardTimeout :: duration
  lcf_terminalSampling :: bool
  lcf_observer :: bool
  lcf_logitsObserver :: bool

record legacy_session =
  lss_planned :: planned_session
  lss_model :: model_result
  lss_plan :: shard_plan
  lss_referenceShard :: string
  lss_setupMicros :: int

record legacy_sample =
  lsm_operation :: string
  lsm_position :: u64
  lsm_inputTokenCount :: nat
  lsm_producerWallMicros :: int
  lsm_producerComputeMicros :: u64
  lsm_producerOverheadMicros :: int
  lsm_consumerRoundTripMicros :: int
  lsm_consumerComputeMicros :: u64
  lsm_transportOverheadMicros :: int
  lsm_distributedEndToEndMicros :: int
  lsm_referenceWallMicros :: int
  lsm_referenceComputeMicros :: u64
  lsm_boundaryTensorBytes :: nat
  lsm_consumerResponseTensorBytes :: nat
  lsm_terminalSampling :: bool
  lsm_producerKVCacheBytes :: int
  lsm_consumerKVCacheBytes :: int
  lsm_referenceKVCacheBytes :: int
  lsm_producerMemory :: stage_memory
  lsm_consumerMemory :: stage_memory
  lsm_referenceMemory :: stage_memory

record legacy_result =
  lrs_model :: string
  lrs_modelType :: string
  lrs_checkpointFingerprint :: string
  lrs_checkpointBytes :: u64
  lrs_shardPlan :: shard_plan
  lrs_sequenceID :: string
  lrs_prompt :: string
  lrs_promptTokenIDs :: "i32 list"
  lrs_generatedTokenIDs :: "i32 list"
  lrs_text :: string
  lrs_maxTokens :: int
  lrs_stopReason :: string
  lrs_eosTokenID :: "i32 option"
  lrs_rtol :: float64
  lrs_atol :: float64
  lrs_forwardTimeoutMillis :: int
  lrs_producerKVCacheBytes :: int
  lrs_consumerKVCacheBytes :: int
  lrs_sessionSetupMicros :: int
  lrs_producerComputeMicros :: u64
  lrs_consumerComputeMicros :: u64
  lrs_referenceComputeMicros :: u64
  lrs_verification :: "token_verification option"
  lrs_failure :: "failure option"

section \<open>Translations\<close>

definition legacyFailurePhase :: "string \<Rightarrow> string" where
  "legacyFailurePhase phase =
     (if phase = ''stage_0_prefill'' then ''producer_prefill''
      else if phase = ''stage_1_prefill'' then ''consumer_prefill''
      else if phase = ''stage_0_decode'' then ''producer_decode''
      else if phase = ''stage_1_decode'' then ''consumer_decode''
      else phase)"

definition legacyFailure :: "failure \<Rightarrow> failure" where
  "legacyFailure f = f\<lparr>flr_phase := legacyFailurePhase (flr_phase f)\<rparr>"

definition emptyShardPlan :: shard_plan where
  "emptyShardPlan = \<lparr>sp_producer = \<lparr>sh_ID = [], sh_layerStart = 0, sh_layerEnd = 0\<rparr>,
     sp_consumer = \<lparr>sh_ID = [], sh_layerStart = 0, sh_layerEnd = 0\<rparr>\<rparr>"

definition legacyResult :: "planned_result \<Rightarrow> legacy_result" where
  "legacyResult planned =
     (let kv = pgr_stageKVCacheBytes planned; compute = pgr_stageComputeMicros planned in
      \<lparr>lrs_model = pgr_model planned, lrs_modelType = pgr_modelType planned,
       lrs_checkpointFingerprint = pgr_checkpointFingerprint planned,
       lrs_checkpointBytes = pgr_checkpointBytes planned,
       lrs_shardPlan = (case legacyShardPlan (pgr_executionPlan planned) of None \<Rightarrow> emptyShardPlan | Some p \<Rightarrow> p),
       lrs_sequenceID = pgr_sequenceID planned, lrs_prompt = pgr_prompt planned,
       lrs_promptTokenIDs = pgr_promptTokenIDs planned, lrs_generatedTokenIDs = pgr_generatedTokenIDs planned,
       lrs_text = pgr_text planned, lrs_maxTokens = pgr_maxTokens planned, lrs_stopReason = pgr_stopReason planned,
       lrs_eosTokenID = pgr_eosTokenID planned, lrs_rtol = pgr_rtol planned, lrs_atol = pgr_atol planned,
       lrs_forwardTimeoutMillis = pgr_forwardTimeoutMillis planned,
       lrs_producerKVCacheBytes = (if length kv = 2 then kv ! 0 else 0),
       lrs_consumerKVCacheBytes = (if length kv = 2 then kv ! 1 else 0),
       lrs_sessionSetupMicros = pgr_sessionSetupMicros planned,
       lrs_producerComputeMicros = (if length compute = 2 then compute ! 0 else 0),
       lrs_consumerComputeMicros = (if length compute = 2 then compute ! 1 else 0),
       lrs_referenceComputeMicros = pgr_referenceComputeMicros planned,
       lrs_verification = pgr_verification planned,
       lrs_failure = map_option legacyFailure (pgr_failure planned)\<rparr>)"

definition legacyStageSample :: "planned_stage_sample \<Rightarrow> legacy_sample" where
  "legacyStageSample sample =
     (let base = \<lparr>lsm_operation = ssm_operation sample, lsm_position = ssm_position sample,
            lsm_inputTokenCount = ssm_inputTokenCount sample, lsm_producerWallMicros = 0,
            lsm_producerComputeMicros = 0, lsm_producerOverheadMicros = 0, lsm_consumerRoundTripMicros = 0,
            lsm_consumerComputeMicros = 0, lsm_transportOverheadMicros = 0,
            lsm_distributedEndToEndMicros = ssm_distributedEndToEndMicros sample,
            lsm_referenceWallMicros = ssm_referenceWallMicros sample,
            lsm_referenceComputeMicros = ssm_referenceComputeMicros sample, lsm_boundaryTensorBytes = 0,
            lsm_consumerResponseTensorBytes = 0, lsm_terminalSampling = False, lsm_producerKVCacheBytes = 0,
            lsm_consumerKVCacheBytes = 0, lsm_referenceKVCacheBytes = ssm_referenceKVCacheBytes sample,
            lsm_producerMemory = emptyMemory, lsm_consumerMemory = emptyMemory,
            lsm_referenceMemory = ssm_referenceMemory sample\<rparr>
      in case ssm_stages sample of
        [producer, consumer] \<Rightarrow>
          base\<lparr>lsm_producerWallMicros := sxe_wallMicros producer,
               lsm_producerComputeMicros := sxe_computeMicros producer,
               lsm_producerOverheadMicros := sxe_overheadMicros producer,
               lsm_consumerRoundTripMicros := sxe_wallMicros consumer,
               lsm_consumerComputeMicros := sxe_computeMicros consumer,
               lsm_transportOverheadMicros := sxe_overheadMicros consumer,
               lsm_boundaryTensorBytes := sxe_inputTensorBytes consumer,
               lsm_consumerResponseTensorBytes := sxe_responseTensorBytes consumer,
               lsm_terminalSampling := sxe_terminalSampling consumer,
               lsm_producerKVCacheBytes := sxe_kvCacheBytes producer,
               lsm_consumerKVCacheBytes := sxe_kvCacheBytes consumer,
               lsm_producerMemory := sxe_memory producer, lsm_consumerMemory := sxe_memory consumer\<rparr>
      | _ \<Rightarrow> base)"

section \<open>Preparing and running a two-stage session\<close>

definition roleError :: "session_error \<Rightarrow> session_error" where
  "roleError e =
     (case e of
        SessionStageError (StageLoadFailed index stage cause) \<Rightarrow>
          RoleShardFailed (if index = 0 then ''producer'' else if index = 1 then ''consumer'' else es_name stage) cause
      | _ \<Rightarrow> e)"

definition plannedConfig :: "legacy_config \<Rightarrow> session_config" where
  "plannedConfig config =
     \<lparr>cfg_rtol = lcf_rtol config, cfg_atol = lcf_atol config, cfg_forwardTimeout = lcf_forwardTimeout config,
      cfg_observer = lcf_observer config, cfg_logitsObserver = lcf_logitsObserver config\<rparr>"

definition newSession ::
  "digests \<Rightarrow> (string \<Rightarrow> string) \<Rightarrow> world \<Rightarrow> caller option \<Rightarrow> caller option \<Rightarrow> caller option \<Rightarrow>
   legacy_config \<Rightarrow> (session_error, legacy_session) action" where
  "newSession dg sha256 w producer consumer reference config =
     (if producer = None \<or> consumer = None then failing CallersRequired
      else let responseMode = (if lcf_terminalSampling config then stageResponseSampledToken else stageResponseTensor);
               targets = [\<lparr>ext_targetID = ''producer'', ext_caller = producer\<rparr>,
                          \<lparr>ext_targetID = ''consumer'', ext_caller = consumer\<rparr>]
        in doing (wrapping roleError (newBalancedPlannedSession dg sha256 w (lcf_model config) targets reference
             responseMode (plannedConfig config))) (\<lambda>planned.
           case legacyShardPlan (pls_plan planned) of
             None \<Rightarrow> failing LegacyPlanMissing
           | Some plan \<Rightarrow> give \<lparr>lss_planned = planned, lss_model = pls_model planned, lss_plan = plan,
               lss_referenceShard = pls_referenceShard planned, lss_setupMicros = pls_setupMicros planned\<rparr>))"

definition legacyError :: "returned_error \<Rightarrow> returned_error" where
  "legacyError e =
     (case e of GenerationError f cause \<Rightarrow> GenerationError (legacyFailure f) cause | BareError cause \<Rightarrow> BareError cause)"

text \<open>
  The facade's \<open>Generate\<close>: the calls, the result with the samples its observer was given
  (\<open>None\<close> for the zero result), and the error.
\<close>

definition sessionGenerate ::
  "world \<Rightarrow> legacy_session \<Rightarrow> generation_request \<Rightarrow> call_log \<Rightarrow>
   call_log \<times> (legacy_result \<times> legacy_sample list) option \<times> returned_error option" where
  "sessionGenerate w s request calls =
     (case generatePlanned w (lss_planned s) request calls of
        (calls', final, err) \<Rightarrow>
          (calls', map_option (\<lambda>st. (legacyResult (run_result st), map legacyStageSample (run_samples st))) final,
           map_option legacyError err))"

section \<open>Verifying a captured trace\<close>

record trace_config =
  trc_rtol :: float64
  trc_atol :: float64
  trc_forwardTimeout :: duration
  trc_observer :: bool

record trace_sample =
  tsm_operation :: string
  tsm_position :: u64
  tsm_memory :: stage_memory

datatype trace_error =
    TraceCallerRequired
  | TracePromptEmpty
  | TraceLengthMismatch nat nat
  | TraceTolerancesInvalid
  | TraceTimeoutTooShort
  | TraceModelInfoFailed stage_error
  | TraceModelMismatch stage_error
  | TraceShardFailed stage_error
  | TraceTokenizeFailed stage_error
  | TracePromptMismatch
  | TraceSequenceIDUnavailable
  | TraceOpenFailed sequence_set_error
  | TracePrefillFailed stage_error
  | TraceLogitsDiffer nat tensor_error
  | TraceSampleFailed nat tensor_error
  | TraceTokensDiffer nat i32 i32
  | TraceDecodeFailed nat stage_error
  | TraceCleanupFailed "trace_error option" "sequence_set_error list"

definition unverified :: token_verification where
  "unverified = \<lparr>vrf_greedyTokenIDsMatch = False, vrf_comparedTokens = 0,
     vrf_maxAbsoluteDifference = Finite 0, vrf_maxRelativeDifference = Finite 0\<rparr>"

type_synonym trace_outcome = "call_log \<times> token_verification \<times> trace_sample list \<times> trace_error option"

text \<open>
  The loop over the captured tokens and logits. The differences are recorded before the
  comparison's error is returned.
\<close>

fun traceLoop ::
  "world \<Rightarrow> trace_config \<Rightarrow> caller \<Rightarrow> string \<Rightarrow> string \<Rightarrow> nat \<Rightarrow> u64 \<Rightarrow> forward_result \<Rightarrow>
   (i32 \<times> wire_tensor) list \<Rightarrow> token_verification \<Rightarrow> trace_sample list \<Rightarrow> call_log \<Rightarrow> trace_outcome" where
  "traceLoop w config c shardID sequenceID index position r [] v samples calls = (calls, v, samples, None)"
| "traceLoop w config c shardID sequenceID index position r ((expectedToken, logits) # rest) v samples calls =
     (let operation = (if index = 0 then ''prefill'' else ''decode'');
          samplePosition = (if index = 0 then 0 else position - 1);
          samples' = (if trc_observer config
            then samples @ [\<lparr>tsm_operation = operation, tsm_position = samplePosition, tsm_memory = fwd_memory r\<rparr>]
            else samples);
          (d, err) = compareFinalLogits logits (fwd_output r) (trc_rtol config) (trc_atol config);
          v1 = v\<lparr>vrf_maxAbsoluteDifference := float_max (vrf_maxAbsoluteDifference v) (df_absolute d),
                 vrf_maxRelativeDifference := float_max (vrf_maxRelativeDifference v) (df_relative d)\<rparr>
      in case err of
        Some e \<Rightarrow> (calls, v1, samples', Some (TraceLogitsDiffer index e))
      | None \<Rightarrow>
      case greedyToken (fwd_output r) of
        Inl e \<Rightarrow> (calls, v1, samples', Some (TraceSampleFailed index e))
      | Inr referenceToken \<Rightarrow>
      if referenceToken \<noteq> expectedToken
      then (calls, v1\<lparr>vrf_greedyTokenIDsMatch := False\<rparr>, samples',
            Some (TraceTokensDiffer index referenceToken expectedToken))
      else
        let v2 = v1\<lparr>vrf_comparedTokens := vrf_comparedTokens v1 + 1\<rparr> in
        if rest = [] then (calls, v2, samples', None)
        else case measuredInfer w (trc_forwardTimeout config) c ''decode'' shardID sequenceID position ''tokens''
            (tokenTensor [expectedToken]) False calls of
          (calls', Inl e) \<Rightarrow> (calls', v2, samples', Some (TraceDecodeFailed (index + 1) e))
        | (calls', Inr (wall, r')) \<Rightarrow>
            traceLoop w config c shardID sequenceID (Suc index) (position + 1) r' rest v2 samples' calls')"

text \<open>The deferred cleanup, whose errors join the one that is returned.\<close>

definition traceCleanup :: "world \<Rightarrow> sequence_set option \<Rightarrow> trace_outcome \<Rightarrow> trace_outcome" where
  "traceCleanup w sequences = (\<lambda>(calls, v, samples, err).
     case sequences of
       None \<Rightarrow> (calls, v, samples, err)
     | Some owned \<Rightarrow>
         let (calls', retained, errors) = cleanupSet w owned calls
         in (calls', v, samples, if errors = [] then err else Some (TraceCleanupFailed err errors)))"

definition traceSequence ::
  "world \<Rightarrow> trace_config \<Rightarrow> caller \<Rightarrow> string \<Rightarrow> i32 list \<Rightarrow> (i32 \<times> wire_tensor) list \<Rightarrow> call_log \<Rightarrow> trace_outcome" where
  "traceSequence w config c shardID promptTokens trace calls =
     (case randomSequenceID w calls of
        None \<Rightarrow> (calls, unverified, [], Some TraceSequenceIDUnavailable)
      | Some sequenceID \<Rightarrow>
     case openSequences w [\<lparr>sqt_name = ''reference'', sqt_caller = Some c, sqt_shardID = shardID\<rparr>] [sequenceID] calls of
        (calls', sequences, Some e) \<Rightarrow> traceCleanup w sequences (calls', unverified, [], Some (TraceOpenFailed e))
      | (calls', sequences, None) \<Rightarrow>
          traceCleanup w sequences
            (case measuredInfer w (trc_forwardTimeout config) c ''prefill'' shardID sequenceID 0 ''tokens''
                (tokenTensor promptTokens) False calls' of
               (calls'', Inl e) \<Rightarrow> (calls'', unverified, [], Some (TracePrefillFailed e))
             | (calls'', Inr (wall, r)) \<Rightarrow>
                 traceLoop w config c shardID sequenceID 0 (word_of_nat (length promptTokens)) r trace
                   (unverified\<lparr>vrf_greedyTokenIDsMatch := True\<rparr>) [] calls''))"

definition traceShard :: "(string \<Rightarrow> string) \<Rightarrow> model_result \<Rightarrow> load_shard_request" where
  "traceShard sha256 m =
     \<lparr>lsr_modelID = mdl_modelID m,
      lsr_shardID = ''generate-reference-'' @ modelHashSuffix sha256 (mdl_modelID m) (mdl_checkpointFingerprint m),
      lsr_checkpointFingerprint = mdl_checkpointFingerprint m, lsr_layerStart = 0, lsr_layerEnd = mdl_layerCount m,
      lsr_ownsInput = True, lsr_ownsOutput = True\<rparr>"

text \<open>The preparation of the reference: its metadata, its shard, and the prompt's tokens.\<close>

definition prepareReference ::
  "(string \<Rightarrow> string) \<Rightarrow> world \<Rightarrow> caller \<Rightarrow> model_result \<Rightarrow> string \<Rightarrow> i32 list \<Rightarrow> (trace_error, unit) action" where
  "prepareReference sha256 w c expectedModel prompt expectedPromptTokenIDs =
     doing (wrapping TraceModelInfoFailed (modelInfo w c (mdl_modelID expectedModel))) (\<lambda>actual.
     doing (outcome (map_error TraceModelMismatch (matchModel expectedModel actual ''reference''))) (\<lambda>_.
     doing (wrapping TraceShardFailed (ensureShard w c (traceShard sha256 expectedModel))) (\<lambda>_.
     doing (wrapping TraceTokenizeFailed (tokenize w c (mdl_modelID expectedModel) prompt)) (\<lambda>tokenized.
       if txt_tokenIDs tokenized \<noteq> expectedPromptTokenIDs then failing TracePromptMismatch else give ()))))"

definition verifyTrace ::
  "(string \<Rightarrow> string) \<Rightarrow> world \<Rightarrow> caller option \<Rightarrow> model_result \<Rightarrow> trace_config \<Rightarrow> string \<Rightarrow> i32 list \<Rightarrow> i32 list \<Rightarrow>
   wire_tensor list \<Rightarrow> call_log \<Rightarrow> trace_outcome" where
  "verifyTrace sha256 w callerOrNil expectedModel config prompt expectedPromptTokenIDs expectedGeneratedTokenIDs
     distributedLogits calls =
     (let refused = (\<lambda>e. (calls, unverified, [], Some e)) in
      case callerOrNil of
        None \<Rightarrow> refused TraceCallerRequired
      | Some c \<Rightarrow>
      if prompt = [] \<or> expectedPromptTokenIDs = [] then refused TracePromptEmpty
      else if expectedGeneratedTokenIDs = [] \<or> length distributedLogits \<noteq> length expectedGeneratedTokenIDs
      then refused (TraceLengthMismatch (length distributedLogits) (length expectedGeneratedTokenIDs))
      else if tolerancesInvalid (trc_rtol config) (trc_atol config) then refused TraceTolerancesInvalid
      else let config' = (if trc_forwardTimeout config = 0
             then config\<lparr>trc_forwardTimeout := defaultForwardTimeout\<rparr> else config) in
      if trc_forwardTimeout config' < millisecond then refused TraceTimeoutTooShort
      else case prepareReference sha256 w c expectedModel prompt expectedPromptTokenIDs calls of
        (calls', Inl e) \<Rightarrow> (calls', unverified, [], Some e)
      | (calls', Inr u) \<Rightarrow>
          traceSequence w config' c (lsr_shardID (traceShard sha256 expectedModel)) expectedPromptTokenIDs
            (zip expectedGeneratedTokenIDs distributedLogits) calls')"

section \<open>What a verified trace is\<close>

text \<open>The reference as a single stage, for the vocabulary of traversals.\<close>

definition reference_target :: "caller \<Rightarrow> string \<Rightarrow> bound_target" where
  "reference_target c shardID =
     \<lparr>bnd_stage = \<lparr>es_name = ''reference'', es_targetID = [], es_shardID = shardID, es_layerStart = 0, es_layerEnd = 0,
        es_ownsInput = True, es_ownsOutput = True, es_responseMode = stageResponseTensor\<rparr>, bnd_caller = c\<rparr>"

lemma reference_target_fields [simp]:
  "bnd_caller (reference_target c shardID) = c" "es_shardID (bnd_stage (reference_target c shardID)) = shardID"
  "returnsSampled (bnd_stage (reference_target c shardID)) = False"
  by (simp_all add: reference_target_def returnsSampled_def plan_constants)

lemma checkForward_tensor:
  assumes "checkForward command position False response = Inr r"
  shows "fwd_sampledTokenID r = None \<and> wt_data (fwd_output r) \<noteq> []"
  using assms
  by (cases "Option.bind (rsp_result response) wre_forward") (auto simp: checkForward_def split: if_splits)

lemma reference_step:
  assumes "measuredInfer w timeout c operation shardID q position ''tokens'' x False calls = (calls', Inr (wall, r))"
    "faithful w [reference_target c shardID] [F]" "in_step [reference_target c shardID] [F] q history calls"
  shows "in_step [reference_target c shardID] [F] q (history @ [x]) calls' \<and> F (history @ [x]) = (fwd_output r, None) \<and>
    wt_data (fwd_output r) \<noteq> []"
proof -
  let ?t = "reference_target c shardID"
  obtain call where call: "calls' = calls @ [call]" "forward_call operation q position ''tokens'' x ?t r call"
    "answered_by w calls call"
    using measuredInfer_Inr [of w timeout ?t operation q position "''tokens''" x calls calls' wall r] assms(1) by auto
  have "in_step [?t] [F] q (history @ [x]) calls' \<and> (fwd_output r, fwd_sampledTokenID r) = F (history @ [x])"
    using chain_in_step [OF assms(2) _ _ assms(3), of "[call]" "[r]" operation position x 1] call
    by (simp add: in_step_def)
  moreover have "fwd_sampledTokenID r = None \<and> wt_data (fwd_output r) \<noteq> []"
    using call(2) checkForward_tensor by (auto simp: forward_call_def)
  ultimately show ?thesis by auto
qed

lemma sampledToken_logits: "wt_data logits \<noteq> [] \<Longrightarrow> sampledToken None logits = greedyToken logits"
  by (simp add: sampledToken_def)

lemma traceLoop_computes:
  assumes "traceLoop w config c shardID q index position r trace v samples calls = (calls', v', samples', None)"
    "faithful w [reference_target c shardID] [F]" "in_step [reference_target c shardID] [F] q history calls"
    "F history = (fwd_output r, None)" "wt_data (fwd_output r) \<noteq> []"
  shows "greedy_decode F None (length trace) history = Inr (map fst trace) \<and>
    vrf_comparedTokens v' = vrf_comparedTokens v + int (length trace) \<and>
    vrf_greedyTokenIDsMatch v' = vrf_greedyTokenIDsMatch v"
  using assms
proof (induction trace arbitrary: index position r v samples calls history)
  case Nil
  then show ?case by simp
next
  case (Cons pair rest)
  obtain token logits where pair: "pair = (token, logits)" by fastforce
  obtain d where d: "compareFinalLogits logits (fwd_output r) (trc_rtol config) (trc_atol config) = (d, None)"
    using Cons.prems(1) pair by (auto simp: Let_def split: prod.splits option.splits)
  have token: "greedyToken (fwd_output r) = Inr token"
    using Cons.prems(1) pair d by (auto simp: Let_def split: sum.splits if_splits)
  define v2 where "v2 = v\<lparr>vrf_maxAbsoluteDifference := float_max (vrf_maxAbsoluteDifference v) (df_absolute d),
    vrf_maxRelativeDifference := float_max (vrf_maxRelativeDifference v) (df_relative d),
    vrf_comparedTokens := vrf_comparedTokens v + 1\<rparr>"
  have sampled: "sampledToken None (fwd_output r) = Inr token"
    using sampledToken_logits [OF Cons.prems(5)] token by simp
  show ?case
  proof (cases "rest = []")
    case True
    then show ?thesis
      using Cons.prems(1,4) pair d token sampled by (auto simp: Let_def)
  next
    case False
    obtain l x where inf: "measuredInfer w (trc_forwardTimeout config) c ''decode'' shardID q position ''tokens''
        (tokenTensor [token]) False calls = (l, x)" by fastforce
    obtain wall r' where x: "x = Inr (wall, r')"
      using Cons.prems(1) pair d token False inf by (cases x) (auto simp: Let_def)
    obtain samples2 where step: "measuredInfer w (trc_forwardTimeout config) c ''decode'' shardID q position ''tokens''
        (tokenTensor [token]) False calls = (l, Inr (wall, r'))"
      "traceLoop w config c shardID q (Suc index) (position + 1) r' rest v2 samples2 l = (calls', v', samples', None)"
      using Cons.prems(1) pair d token False inf x that by (simp add: Let_def v2_def)
    note ref = reference_step [OF step(1) Cons.prems(2,3)]
    note rest = Cons.IH [OF step(2) Cons.prems(2)]
    have "greedy_decode F None (length rest) (history @ [tokenTensor [token]]) = Inr (map fst rest)"
      "vrf_comparedTokens v' = vrf_comparedTokens v2 + int (length rest)"
      "vrf_greedyTokenIDsMatch v' = vrf_greedyTokenIDsMatch v2"
      using rest ref by blast+
    then show ?thesis using Cons.prems(4) sampled pair False by (simp add: v2_def)
  qed
qed

lemma traceSequence_computes:
  assumes "traceSequence w config c shardID promptTokens trace calls = (calls', v, samples, None)"
    "faithful w [reference_target c shardID] [F]"
  shows "greedy_decode F None (length trace) [tokenTensor promptTokens] = Inr (map fst trace) \<and>
    vrf_comparedTokens v = int (length trace) \<and> vrf_greedyTokenIDsMatch v"
proof -
  let ?targets = "[\<lparr>sqt_name = ''reference'', sqt_caller = Some c, sqt_shardID = shardID\<rparr>]"
  obtain q where q: "randomSequenceID w calls = Some q"
    using assms(1) by (auto simp: traceSequence_def split: option.splits)
  obtain l sequences e where op: "openSequences w ?targets [q] calls = (l, sequences, e)" by (metis prod_cases3)
  have clean: "err = None \<and> v = v1" if "traceCleanup w sequences (k, v1, s1, err) = (calls', v, samples, None)" for k v1 s1 err
    using that by (auto simp: traceCleanup_def Let_def split: option.splits prod.splits if_splits)
  have e: "e = None"
    using assms(1) q op clean by (cases e) (auto simp: traceSequence_def)
  obtain l2 x where inf: "measuredInfer w (trc_forwardTimeout config) c ''prefill'' shardID q 0 ''tokens''
      (tokenTensor promptTokens) False l = (l2, x)" by fastforce
  have seq: "traceCleanup w sequences (case x of
       Inl e \<Rightarrow> (l2, unverified, [], Some (TracePrefillFailed e))
     | Inr (wall, r) \<Rightarrow> traceLoop w config c shardID q 0 (word_of_nat (length promptTokens)) r trace
         (unverified\<lparr>vrf_greedyTokenIDsMatch := True\<rparr>) [] l2) = (calls', v, samples, None)"
    using assms(1) q op e inf by (simp add: traceSequence_def split: sum.splits)
  then obtain wall r where x: "x = Inr (wall, r)" using clean by (cases x) auto
  obtain l3 v1 s1 err where loop: "traceLoop w config c shardID q 0 (word_of_nat (length promptTokens)) r trace
      (unverified\<lparr>vrf_greedyTokenIDsMatch := True\<rparr>) [] l2 = (l3, v1, s1, err)" by (metis prod_cases4)
  have fin: "err = None" "v = v1" using seq x loop clean by auto
  obtain new p where new: "l = calls @ new"
    "list_all2 (opening_call p) (List.product [q] ?targets) new"
    using openSequences_calls [OF op] e by auto
  have "executionSequenceTargets [reference_target c shardID] = ?targets"
    by (simp add: executionSequenceTargets_def reference_target_def)
  then have "in_step [reference_target c shardID] [F] q [] l"
    using opened_in_step [of p q "[reference_target c shardID]" new "[F]" calls] new by simp
  note ref = reference_step [OF inf [unfolded x] assms(2) this]
  note res = traceLoop_computes [OF loop [unfolded fin(1)] assms(2), of "[tokenTensor promptTokens]"]
  show ?thesis using res ref fin(2) by (auto simp: unverified_def)
qed

lemma verifyTrace_computes:
  assumes "verifyTrace sha256 w (Some c) m config prompt promptTokens expected logits calls = (calls', v, samples, None)"
    "faithful w [reference_target c (lsr_shardID (traceShard sha256 m))] [F]"
  shows "greedy_decode F None (length expected) [tokenTensor promptTokens] = Inr expected \<and>
    vrf_comparedTokens v = int (length expected) \<and> vrf_greedyTokenIDsMatch v"
proof -
  obtain config' l where seq: "traceSequence w config' c (lsr_shardID (traceShard sha256 m)) promptTokens
      (zip expected logits) l = (calls', v, samples, None)" "length logits = length expected"
    using assms(1) unfolding verifyTrace_def Let_def
    by (auto split: if_splits prod.splits sum.splits)
  from traceSequence_computes [OF seq(1) assms(2)] seq(2) show ?thesis by simp
qed

section \<open>What the facade promises\<close>

lemma legacyShardPlan_two: "length (ep_stages p) = 2 \<Longrightarrow> legacyShardPlan p \<noteq> None"
  by (auto simp: legacyShardPlan_def length_Suc_conv numeral_2_eq_2)

lemma newBalancedPlannedSession_Inr:
  assumes "newBalancedPlannedSession dg sha256 w modelID targets reference mode config calls = (calls', Inr s)"
  shows "length (ep_stages (pls_plan s)) = length targets \<and> validateExecutionPlan dg (pls_plan s) = Inr ()"
proof -
  obtain l l' plan s' micros where s: "newPlannedSession dg sha256 w plan targets reference config l = (l', Inr s')"
    "s = s'\<lparr>pls_setupMicros := micros\<rparr>"
    using assms by (auto simp: newBalancedPlannedSession_def doing_Inr timed_Inr leaf_Inr split: if_splits option.splits)
  note p = newPlannedSession_Inr [OF s(1)]
  then have "length targets = length (ep_stages plan)"
    by (auto simp: bindExecutionTargets_def split: if_splits)
  then show ?thesis using p s(2) by simp
qed

text \<open>A two-stage session always has a legacy plan: \<open>LegacyPlanMissing\<close> is not reached.\<close>

lemma balanced_pair_has_legacy_plan:
  "newBalancedPlannedSession dg sha256 w modelID [t1, t2] reference mode config calls = (calls', Inr s) \<Longrightarrow>
   legacyShardPlan (pls_plan s) \<noteq> None"
  using newBalancedPlannedSession_Inr legacyShardPlan_two by fastforce

lemma newSession_Inr:
  assumes "newSession dg sha256 w producer consumer reference config calls = (calls', Inr s)"
  shows "\<exists>first second. ep_stages (pls_plan (lss_planned s)) = [first, second] \<and>
    lss_plan s = \<lparr>sp_producer = shardRange first, sp_consumer = shardRange second\<rparr> \<and>
    es_layerStart first = 0 \<and> es_layerEnd first = es_layerStart second \<and>
    es_layerEnd second = em_layerCount (ep_model (pls_plan (lss_planned s)))"
proof -
  obtain targets mode l planned where planned: "newBalancedPlannedSession dg sha256 w (lcf_model config) targets reference
      mode (plannedConfig config) calls = (l, Inr planned)" "lss_planned s = planned"
    "legacyShardPlan (pls_plan planned) = Some (lss_plan s)"
    using assms by (auto simp: newSession_def Let_def doing_Inr wrapping_Inr leaf_Inr split: if_splits option.splits)
  have valid: "valid_plan dg (pls_plan planned)"
    using newBalancedPlannedSession_Inr [OF planned(1)] by (simp add: validate_iff)
  show ?thesis
    using planned(2,3) valid by (auto simp: legacyShardPlan_def valid_plan_def split: list.splits)
qed

section \<open>Properties\<close>

text \<open>
  C19: A trace that verifies is what the reference model generates. If the reference worker
  answers with its model's function of the inputs given to it, and verification returns no
  error, the captured tokens are exactly the greedy decoding of that model from the captured
  prompt, all of them have been compared, and the result says that they match.
\<close>

theorem verified_trace_is_greedy_decoding:
  assumes "verifyTrace sha256 w (Some c) m config prompt promptTokens expected logits calls = (calls', v, samples, None)"
    "faithful w [reference_target c (lsr_shardID (traceShard sha256 m))] [F]"
  shows "greedy_decode F None (length expected) [tokenTensor promptTokens] = Inr expected \<and>
    vrf_comparedTokens v = int (length expected) \<and> vrf_greedyTokenIDsMatch v"
  by (rule verifyTrace_computes [OF assms])

section \<open>A run\<close>

text \<open>
  The reference answers every forward step with the two logits 0 and 1, as \<open>float16\<close>; its
  greedy token is 1.
\<close>

definition demo_logits :: wire_tensor where
  "demo_logits = \<lparr>wt_shape = [1, 2], wt_dtype = ''float16'', wt_data = [0, 0, 0, 0x3C]\<rparr>"

definition demo_reference_forward :: "persistent_request \<Rightarrow> forward_request \<Rightarrow> forward_result" where
  "demo_reference_forward request f =
     \<lparr>fwd_shardID = fwr_shardID f, fwd_sequenceID = fwr_sequenceID f, fwd_operation = req_command request,
      fwd_position = fwr_position f, fwd_nextPosition = fwr_position f + 1, fwd_output = demo_logits,
      fwd_sampledTokenID = None, fwd_computeMicros = 5, fwd_kvCacheBytes = 8, fwd_memory = emptyMemory\<rparr>"

definition demo_reference_answer :: "call_log \<Rightarrow> call_context \<Rightarrow> caller \<Rightarrow> persistent_request \<Rightarrow> answer" where
  "demo_reference_answer calls ctx c request =
     Inr (demo_response\<lparr>rsp_result := Some (demo_worker_result
       \<lparr>wre_shard := map_option demo_snapshot (req_loadShard request),
        wre_forward := map_option (demo_reference_forward request) (req_forward request),
        wre_model := map_option (\<lambda>_. demo_model_result) (req_model request),
        wre_text := map_option demo_text (req_text request),
        wre_state := (if req_command request = ''state'' then Some demo_state else None)\<rparr>)\<rparr>)"

definition demo_reference_world :: world where
  "demo_reference_world = demo_world\<lparr>wld_answer := demo_reference_answer\<rparr>"

definition demo_trace_config :: trace_config where
  "demo_trace_config = \<lparr>trc_rtol = Finite 0, trc_atol = Finite 0, trc_forwardTimeout = 0, trc_observer = False\<rparr>"

lemma demo_values: "finalValues demo_logits 2 = Inr [Finite 0, Finite 1]"
  by (simp add: finalValues_def elementBytes_def demo_logits_def wrap_int_def go_div_def decodeElement_def element_def
      uint16LE_def float16_def Let_def upt_rec bit_simps)

lemma demo_greedy: "greedyToken demo_logits = Inr 1"
  using demo_values by (simp add: greedyToken_def demo_logits_def maxInt32_def)

lemma demo_compare: "\<exists>d. compareFinalLogits demo_logits demo_logits (Finite 0) (Finite 0) = (d, None)"
proof -
  have "\<not> tolerancesInvalid (Finite 0) (Finite 0)" by (simp add: tolerancesInvalid_def)
  from compare_self [OF this demo_greedy] show ?thesis by (metis prod.collapse)
qed

lemmas demo_reference_eval = demo_reference_world_def demo_reference_answer_def demo_reference_forward_def
  demo_world_def demo_response_def demo_worker_result_def demo_model_result_def demo_snapshot_def demo_text_def
  demo_state_def emptyMemory_def demo_trace_config_def plainRequest_def doing_def wrapping_def outcome_def give_def
  failing_def calling_def callWorker_def timed_def Let_def

lemma demo_tokens: "\<not> (3 :: i32) <s 0" "\<not> (4 :: i32) <s 0"
  by code_simp+

lemma demo_prepare:
  "\<exists>calls. prepareReference id demo_reference_world 3 demo_model_result ''hello'' [3, 4] [] = (calls, Inr ())"
  by (simp add: prepareReference_def demo_reference_eval modelInfo_def modelRequest_def metadataInvalid_def matchModel_def
      ensureShard_def shardState_def workerStateOf_def observeState_def findLoadedShard_def loadShard_def loadRequest_def
      validateLoadedShard_def traceShard_def tokenize_def tokenizeRequest_def demo_tokens)

lemma demo_trace:
  "\<exists>calls v. verifyTrace id demo_reference_world (Some 3) demo_model_result demo_trace_config ''hello'' [3, 4] [1, 1]
     [demo_logits, demo_logits] [] = (calls, v, [], None)"
proof -
  obtain d where d: "compareFinalLogits demo_logits demo_logits (Finite 0) (Finite 0) = (d, None)"
    using demo_compare by blast
  obtain calls where calls: "prepareReference id demo_reference_world 3 demo_model_result ''hello'' [3, 4] [] = (calls, Inr ())"
    using demo_prepare by blast
  have shard: "lsr_shardID (traceShard id demo_model_result) \<noteq> []" by (simp add: traceShard_def)
  have data: "wt_data demo_logits \<noteq> []" by (simp add: demo_logits_def)
  show ?thesis
    using d calls shard data demo_greedy
    by (simp add: verifyTrace_def tolerancesInvalid_def demo_trace_config_def defaultForwardTimeout_def duration_defs
        traceSequence_def randomSequenceID_def openSequences_def traceCleanup_def cleanupSet_def closeUsing_def
        closeSequence_def sequenceCommand_def measuredInfer_def infer_def checkForward_def forwardRequest_def
        demo_reference_eval sequenceRequest_def)
qed

lemma demo_reference_faithful:
  "faithful demo_reference_world [reference_target c shardID] [\<lambda>_. (demo_logits, None)]"
  by (auto simp: faithful_def demo_reference_world_def demo_reference_answer_def demo_reference_forward_def
      demo_worker_result_def)

lemma verified_trace_is_greedy_decoding_witness:
  "\<exists>calls v samples. verifyTrace id demo_reference_world (Some 3) demo_model_result demo_trace_config ''hello'' [3, 4]
     [1, 1] [demo_logits, demo_logits] [] = (calls, v, samples, None) \<and>
     greedy_decode (\<lambda>_. (demo_logits, None)) None 2 [tokenTensor [3, 4]] = Inr [1, 1] \<and> vrf_comparedTokens v = 2"
proof -
  obtain calls v samples where run: "verifyTrace id demo_reference_world (Some 3) demo_model_result demo_trace_config
      ''hello'' [3, 4] [1, 1] [demo_logits, demo_logits] [] = (calls, v, samples, None)"
    using demo_trace by blast
  from verified_trace_is_greedy_decoding [OF run demo_reference_faithful] run show ?thesis by (simp add: numeral_2_eq_2)
qed

end
