(* ===== verification/Supervisor.thy ===== *)
theory Supervisor
  imports Worker
begin

text \<open>
  The supervision of a worker process (\<open>internal/workerproc/supervisor.go\<close>) and the
  multiplexing of requests over it (\<open>internal/workerproc/persistent.go\<close>): calls under a
  gate, replacement of a failed worker, the one retry of requests that change nothing, the
  numbering of successful calls, and the table of pending requests of a client.
\<close>

section \<open>The supervisor's state and its environment\<close>

text \<open>
  A client is identified by the number of its start. The gate admits one call or shutdown at
  a time, so that a call is one transition. \<open>Kill\<close> and \<open>Wait\<close> do not change this state.
\<close>

record supervisor =
  spv_client :: nat
  spv_closed :: bool
  spv_restartCount :: int
  spv_observationSequence :: u64

record dispatch =
  dsp_client :: nat
  dsp_request :: persistent_request
  dsp_answer :: answer

text \<open>
  What the supervisor cannot decide, after the dispatches so far: the clock, the gate (an
  error where the context ends first), the clock and the context once the gate is passed, the
  clients' answers, whether the context has ended
  when a retry is considered, what killing and reaping a failed client and starting a new one
  give, and whether a client shuts down.
\<close>

datatype kill_result = Killed | ProcessDone | KillFailed

record supervisor_env =
  sve_now :: "dispatch list \<Rightarrow> instant"
  sve_gate :: "dispatch list \<Rightarrow> call_error option"
  sve_gatedNow :: "dispatch list \<Rightarrow> instant"
  sve_gatedError :: "dispatch list \<Rightarrow> call_error option"
  sve_answer :: "dispatch list \<Rightarrow> nat \<Rightarrow> persistent_request \<Rightarrow> answer"
  sve_ended :: "dispatch list \<Rightarrow> bool"
  sve_kill :: "dispatch list \<Rightarrow> kill_result"
  sve_reapTimedOut :: "dispatch list \<Rightarrow> bool"
  sve_start :: "dispatch list \<Rightarrow> string option"
  sve_shutdown :: "dispatch list \<Rightarrow> call_error option"

datatype restart_error = RestartStopped | RestartKillFailed | RestartReapFailed | RestartStartFailed string

datatype supervisor_error =
    SupervisorCallError call_error
  | SupervisorRestartFailed call_error restart_error

definition newPersistentSupervisor :: "string option \<Rightarrow> string + supervisor" where
  "newPersistentSupervisor started =
     (case started of
        Some e \<Rightarrow> Inl e
      | None \<Rightarrow> Inr \<lparr>spv_client = 0, spv_closed = False, spv_restartCount = 0, spv_observationSequence = 0\<rparr>)"

section \<open>Calls\<close>

definition isSafeSupervisorRetry :: "string \<Rightarrow> bool" where
  "isSafeSupervisorRetry command \<longleftrightarrow> command = ''health'' \<or> command = ''state''"

fun isDeadlineRequired :: "call_error \<Rightarrow> bool" where
  "isDeadlineRequired (InferenceDeadlineRequired command) = True"
| "isDeadlineRequired (RequestNotDispatched e) = isDeadlineRequired e"
| "isDeadlineRequired e = False"

definition recordObservation :: "persistent_response \<Rightarrow> supervisor \<Rightarrow> supervisor \<times> persistent_response" where
  "recordObservation response s =
     (let n = spv_observationSequence s + 1 in
      (s\<lparr>spv_observationSequence := n\<rparr>, response\<lparr>rsp_workerObservationSequence := n\<rparr>))"

definition restartWorker :: "supervisor_env \<Rightarrow> dispatch list \<Rightarrow> nat \<Rightarrow> supervisor \<Rightarrow> restart_error + supervisor" where
  "restartWorker env calls failed s =
     (if spv_closed s then Inl RestartStopped
      else if spv_client s \<noteq> failed then Inr s
      else if sve_reapTimedOut env calls
      then Inl (if sve_kill env calls = KillFailed then RestartKillFailed else RestartReapFailed)
      else case sve_start env calls of
        Some e \<Rightarrow> Inl (RestartStartFailed e)
      | None \<Rightarrow> Inr (s\<lparr>spv_client := Suc (spv_client s), spv_restartCount := spv_restartCount s + 1\<rparr>))"

definition dispatchTo ::
  "supervisor_env \<Rightarrow> nat \<Rightarrow> persistent_request \<Rightarrow> dispatch list \<Rightarrow> dispatch list \<times> answer" where
  "dispatchTo env client request calls =
     (let a = sve_answer env calls client request
      in (calls @ [\<lparr>dsp_client = client, dsp_request = request, dsp_answer = a\<rparr>], a))"

definition isRetained :: "string \<Rightarrow> call_error \<Rightarrow> bool" where
  "isRetained command e \<longleftrightarrow>
     isWorkerRejection e \<or> isNotDispatched e \<or> isDeadlineRequired e \<or>
     isCanceled e \<and> \<not> isInferenceCommand command"

text \<open>The call after the gate: the dispatch, the restart, and the retry.\<close>

definition superviseCall ::
  "supervisor_env \<Rightarrow> persistent_request \<Rightarrow> supervisor \<Rightarrow> dispatch list \<Rightarrow>
   dispatch list \<times> supervisor \<times> (supervisor_error + persistent_response)" where
  "superviseCall env request s calls =
     (case dispatchTo env (spv_client s) request calls of
        (calls1, Inr response) \<Rightarrow>
          (let (s', response') = recordObservation response s in (calls1, s', Inr response'))
      | (calls1, Inl e) \<Rightarrow>
          if isRetained (req_command request) e then (calls1, s, Inl (SupervisorCallError e))
          else case restartWorker env calls1 (spv_client s) s of
            Inl r \<Rightarrow> (calls1, s, Inl (SupervisorRestartFailed e r))
          | Inr s1 \<Rightarrow>
              if \<not> (isSafeSupervisorRetry (req_command request) \<and> \<not> sve_ended env calls1)
              then (calls1, s1, Inl (SupervisorCallError e))
              else case dispatchTo env (spv_client s1) request calls1 of
                (calls2, Inr response) \<Rightarrow>
                  (let (s', response') = recordObservation response s1 in (calls2, s', Inr response'))
              | (calls2, Inl e2) \<Rightarrow> (calls2, s1, Inl (SupervisorCallError e2)))"

definition supervisorCall ::
  "supervisor_env \<Rightarrow> request_context \<Rightarrow> persistent_request \<Rightarrow> supervisor \<Rightarrow> dispatch list \<Rightarrow>
   dispatch list \<times> supervisor \<times> (supervisor_error + persistent_response)" where
  "supervisorCall env ctx request s calls =
     (let refused = (\<lambda>e. (calls, s, Inl (SupervisorCallError e))) in
      if req_command request = [] then refused CommandEmpty
      else case requestContext (sve_now env calls) ctx request of
        Inl e \<Rightarrow> refused e
      | Inr (ctx', prepared) \<Rightarrow>
      case sve_gate env calls of
        Some e \<Rightarrow> refused e
      | None \<Rightarrow>
      case contextCompletionError (sve_gatedNow env calls) (ctx'\<lparr>ctx_err := sve_gatedError env calls\<rparr>) of
        Some e \<Rightarrow> refused e
      | None \<Rightarrow>
      if spv_closed s then refused WorkerStopped else superviseCall env prepared s calls)"

definition supervisorShutdown ::
  "supervisor_env \<Rightarrow> request_context \<Rightarrow> supervisor \<Rightarrow> dispatch list \<Rightarrow> supervisor \<times> call_error option" where
  "supervisorShutdown env ctx s calls =
     (case ctx_err ctx of
        Some e \<Rightarrow> (s, Some e)
      | None \<Rightarrow>
     case sve_gate env calls of
        Some e \<Rightarrow> (s, Some e)
      | None \<Rightarrow>
     if spv_closed s then (s, None)
     else case sve_shutdown env calls of
        Some e \<Rightarrow> (s, Some e)
      | None \<Rightarrow> (s\<lparr>spv_closed := True\<rparr>, None))"

section \<open>The supervisor over time\<close>

text \<open>
  The state with the dispatches so far and the responses that calls have returned. Shutting
  down a client sends it a request of its own, which is not one of these dispatches.
\<close>

record supervised =
  svd_supervisor :: supervisor
  svd_dispatches :: "dispatch list"
  svd_responses :: "persistent_response list"

inductive supervisor_step :: "supervisor_env \<Rightarrow> supervised \<Rightarrow> supervised \<Rightarrow> bool" where
  called: "supervisorCall env ctx request (svd_supervisor x) (svd_dispatches x) = (calls, s, Inr response) \<Longrightarrow>
    supervisor_step env x (x\<lparr>svd_supervisor := s, svd_dispatches := calls, svd_responses := svd_responses x @ [response]\<rparr>)"
| failed: "supervisorCall env ctx request (svd_supervisor x) (svd_dispatches x) = (calls, s, Inl e) \<Longrightarrow>
    supervisor_step env x (x\<lparr>svd_supervisor := s, svd_dispatches := calls\<rparr>)"
| shut_down: "supervisorShutdown env ctx (svd_supervisor x) (svd_dispatches x) = (s, e) \<Longrightarrow>
    supervisor_step env x (x\<lparr>svd_supervisor := s\<rparr>)"

inductive supervisor_reachable :: "supervisor_env \<Rightarrow> supervised \<Rightarrow> bool" for env where
  start: "newPersistentSupervisor None = Inr s \<Longrightarrow>
    supervisor_reachable env \<lparr>svd_supervisor = s, svd_dispatches = [], svd_responses = []\<rparr>"
| step: "supervisor_reachable env x \<Longrightarrow> supervisor_step env x y \<Longrightarrow> supervisor_reachable env y"

section \<open>Lemmas\<close>

lemma superviseCall_calls:
  assumes "superviseCall env request s calls = (calls', s', r)"
  shows "\<exists>new. calls' = calls @ new \<and> (\<forall>d \<in> set new. dsp_request d = request) \<and> length new \<le> 2 \<and> new \<noteq> [] \<and>
    (length new = 2 \<longrightarrow> isSafeSupervisorRetry (req_command request)) \<and>
    dsp_client (hd new) = spv_client s \<and>
    (length new = 2 \<longrightarrow> dsp_client (last new) = Suc (spv_client s) \<or> spv_closed s) \<and>
    spv_closed s' = spv_closed s \<and> spv_client s \<le> spv_client s'"
  using assms
  by (auto simp: superviseCall_def dispatchTo_def recordObservation_def restartWorker_def Let_def
      split: sum.splits if_splits option.splits)

lemma superviseCall_observation:
  assumes "superviseCall env request s calls = (calls', s', r)"
  shows "case r of
      Inr response \<Rightarrow> spv_observationSequence s' = spv_observationSequence s + 1 \<and>
        rsp_workerObservationSequence response = spv_observationSequence s'
    | Inl e \<Rightarrow> spv_observationSequence s' = spv_observationSequence s"
  using assms
  by (auto simp: superviseCall_def dispatchTo_def recordObservation_def restartWorker_def Let_def
      split: sum.splits if_splits option.splits)

lemma superviseCall_replaces:
  assumes "superviseCall env request s calls = (calls', s', Inl (SupervisorCallError e))" "\<not> spv_closed s"
    "calls' = calls @ new" "wcl = dsp_answer (hd new)" "wcl = Inl e1" "\<not> isRetained (req_command request) e1"
  shows "spv_client s' = Suc (spv_client s) \<and> spv_restartCount s' = spv_restartCount s + 1"
  using assms
  by (auto simp: superviseCall_def dispatchTo_def recordObservation_def restartWorker_def Let_def
      split: sum.splits if_splits option.splits)

lemma supervisorCall_cases:
  assumes "supervisorCall env ctx request s calls = (calls', s', r)"
  shows "(calls' = calls \<and> s' = s \<and> (\<exists>e. r = Inl (SupervisorCallError e))) \<or>
    (\<not> spv_closed s \<and> (\<exists>ctx' prepared. requestContext (sve_now env calls) ctx request = Inr (ctx', prepared) \<and>
       superviseCall env prepared s calls = (calls', s', r)))"
  using assms
  by (auto simp: supervisorCall_def Let_def split: if_splits sum.splits option.splits prod.splits)

definition retries_allowed :: "string \<Rightarrow> nat" where
  "retries_allowed command = (if command \<in> {''health'', ''state''} then 2 else 1)"

lemma requestContext_command:
  "requestContext now ctx request = Inr (ctx', prepared) \<Longrightarrow>
   prepared = request\<lparr>req_deadlineUnixMillis := req_deadlineUnixMillis prepared\<rparr>"
  using requestContext_ok by blast

lemma supervisorCall_dispatches:
  assumes "supervisorCall env ctx request s calls = (calls', s', r)"
  shows "\<exists>new. calls' = calls @ new \<and> length new \<le> retries_allowed (req_command request) \<and>
    (\<forall>d \<in> set new. dsp_request d = request\<lparr>req_deadlineUnixMillis := req_deadlineUnixMillis (dsp_request d)\<rparr>) \<and>
    distinct (map dsp_client new) \<and> (spv_closed s \<longrightarrow> new = [])"
proof -
  consider "calls' = calls" | (run) ctx' prepared where "\<not> spv_closed s"
    "requestContext (sve_now env calls) ctx request = Inr (ctx', prepared)"
    "superviseCall env prepared s calls = (calls', s', r)"
    using supervisorCall_cases [OF assms] by blast
  then show ?thesis
  proof cases
    case run
    note prepared = requestContext_command [OF run(2)]
    have command: "req_command prepared = req_command request"
      by (subst prepared) simp
    from superviseCall_calls [OF run(3)] run(1) obtain new where new: "calls' = calls @ new"
      "\<forall>d \<in> set new. dsp_request d = prepared" "length new \<le> 2" "new \<noteq> []"
      "length new = 2 \<longrightarrow> isSafeSupervisorRetry (req_command prepared)"
      "dsp_client (hd new) = spv_client s" "length new = 2 \<longrightarrow> dsp_client (last new) = Suc (spv_client s)"
      by blast
    have "distinct (map dsp_client new)"
      using new(3,4,6,7) by (cases new; cases "tl new") (auto simp: numeral_2_eq_2)
    moreover have "length new \<le> retries_allowed (req_command request)"
      using new(3,5) command by (cases "length new = 2") (auto simp: retries_allowed_def isSafeSupervisorRetry_def)
    moreover have "dsp_request d = request\<lparr>req_deadlineUnixMillis := req_deadlineUnixMillis (dsp_request d)\<rparr>"
      if "d \<in> set new" for d
      using new(2) that prepared by simp
    ultimately show ?thesis using new(1) run(1) by blast
  qed simp
qed

lemma supervisorCall_observation:
  assumes "supervisorCall env ctx request s calls = (calls', s', r)"
  shows "case r of
      Inr response \<Rightarrow> spv_observationSequence s' = spv_observationSequence s + 1 \<and>
        rsp_workerObservationSequence response = spv_observationSequence s'
    | Inl e \<Rightarrow> spv_observationSequence s' = spv_observationSequence s"
  using supervisorCall_cases [OF assms] superviseCall_observation by fastforce

lemma reachable_observations:
  assumes "supervisor_reachable env x"
  shows "spv_observationSequence (svd_supervisor x) = word_of_nat (length (svd_responses x)) \<and>
    map rsp_workerObservationSequence (svd_responses x) = map word_of_nat [1..<Suc (length (svd_responses x))]"
  using assms
proof induction
  case (start s)
  then show ?case by (auto simp: newPersistentSupervisor_def)
next
  case (step x y)
  from step(2) show ?case
  proof (cases rule: supervisor_step.cases)
    case (called ctx request calls s response)
    then show ?thesis using step.IH supervisorCall_observation [OF called(2)] by (simp add: add.commute)
  next
    case (failed ctx request calls s e)
    then show ?thesis using step.IH supervisorCall_observation [OF failed(2)] by simp
  next
    case (shut_down ctx s e)
    then have "spv_observationSequence s = spv_observationSequence (svd_supervisor x)"
      by (auto simp: supervisorShutdown_def split: option.splits if_splits)
    then show ?thesis using step.IH shut_down by simp
  qed
qed

section \<open>Properties\<close>

text \<open>
  C16: A supervised request reaches a worker at most once, whatever fails, unless it is a
  health or a state request, which may be repeated once and then on the replacement worker. What
  is dispatched is the request with its effective deadline, and nothing is dispatched once the
  supervisor is closed.
\<close>

theorem supervised_requests_are_not_repeated:
  assumes "supervisorCall env ctx request s calls = (calls', s', r)"
  shows "\<exists>new. calls' = calls @ new \<and> length new \<le> retries_allowed (req_command request) \<and>
    (\<forall>d \<in> set new. dsp_request d = request\<lparr>req_deadlineUnixMillis := req_deadlineUnixMillis (dsp_request d)\<rparr>) \<and>
    distinct (map dsp_client new) \<and> (spv_closed s \<longrightarrow> new = [])"
  by (rule supervisorCall_dispatches [OF assms])

text \<open>
  C37: In every reachable state of a supervisor, across failures, restarts and shutdown, the
  successful responses carry the numbers 1, 2, 3 and so on in the order they were returned:
  below the wrap-around, a later observation of a worker always has a greater number.
\<close>

theorem observation_numbers_count_successes:
  assumes "supervisor_reachable env x"
  shows "map rsp_workerObservationSequence (svd_responses x) = map word_of_nat [1..<Suc (length (svd_responses x))]"
  using reachable_observations [OF assms] by blast

section \<open>A run\<close>

text \<open>The first client is lost in a state request, its replacement answers.\<close>

definition demo_env :: supervisor_env where
  "demo_env = \<lparr>sve_now = (\<lambda>_. 0), sve_gate = (\<lambda>_. None), sve_gatedNow = (\<lambda>_. 0), sve_gatedError = (\<lambda>_. None),
     sve_answer = (\<lambda>calls client request. if client = 0 then Inl (TransportFailed ''eof'')
       else Inr \<lparr>rsp_requestID = [], rsp_ok = True, rsp_error = [], rsp_workerObservationSequence = 0, rsp_result = None\<rparr>),
     sve_ended = (\<lambda>_. False), sve_kill = (\<lambda>_. Killed), sve_reapTimedOut = (\<lambda>_. False), sve_start = (\<lambda>_. None),
     sve_shutdown = (\<lambda>_. None)\<rparr>"

definition demo_supervisor :: supervisor where
  "demo_supervisor = \<lparr>spv_client = 0, spv_closed = False, spv_restartCount = 0, spv_observationSequence = 0\<rparr>"

lemma demo_call:
  "\<exists>calls s response. supervisorCall demo_env \<lparr>ctx_err = None, ctx_deadline = None\<rparr> (plainRequest ''state'')
     demo_supervisor [] = (calls, s, Inr response) \<and> map dsp_client calls = [0, 1] \<and> spv_restartCount s = 1"
  by (simp add: supervisorCall_def demo_env_def demo_supervisor_def plainRequest_def requestContext_def
      contextCompletionError_def superviseCall_def dispatchTo_def recordObservation_def restartWorker_def
      isRetained_def isSafeSupervisorRetry_def isInferenceCommand_def Let_def)

lemma supervised_requests_are_not_repeated_witness:
  "\<exists>calls s response. supervisorCall demo_env \<lparr>ctx_err = None, ctx_deadline = None\<rparr> (plainRequest ''state'')
     demo_supervisor [] = (calls, s, Inr response) \<and> map dsp_client calls = [0, 1] \<and>
     length calls \<le> retries_allowed ''state'' \<and> distinct (map dsp_client calls)"
proof -
  obtain calls s response where run: "supervisorCall demo_env \<lparr>ctx_err = None, ctx_deadline = None\<rparr> (plainRequest ''state'')
     demo_supervisor [] = (calls, s, Inr response)" "map dsp_client calls = [0, 1]"
    using demo_call by metis
  from supervised_requests_are_not_repeated [OF run(1)] run show ?thesis by (auto simp: plainRequest_def)
qed

lemma observation_numbers_count_successes_witness:
  "\<exists>x. supervisor_reachable demo_env x \<and> map rsp_workerObservationSequence (svd_responses x) = [1]"
proof -
  obtain calls s response where run: "supervisorCall demo_env \<lparr>ctx_err = None, ctx_deadline = None\<rparr> (plainRequest ''state'')
     demo_supervisor [] = (calls, s, Inr response)"
    using demo_call by blast
  define x where "x = \<lparr>svd_supervisor = demo_supervisor, svd_dispatches = [], svd_responses = []\<rparr>"
  have "supervisor_reachable demo_env x"
    unfolding x_def by (rule supervisor_reachable.start) (simp add: newPersistentSupervisor_def demo_supervisor_def)
  moreover have "supervisor_step demo_env x
      (x\<lparr>svd_supervisor := s, svd_dispatches := calls, svd_responses := svd_responses x @ [response]\<rparr>)" (is "supervisor_step _ _ ?y")
    by (rule supervisor_step.called) (use run in \<open>simp add: x_def\<close>)
  ultimately have "supervisor_reachable demo_env ?y" by (rule supervisor_reachable.step)
  from observation_numbers_count_successes [OF this] this show ?thesis
    by (intro exI [of _ ?y]) (simp add: x_def)
qed

end
