(* ===== verification/Client.thy ===== *)
theory Client
  imports Supervisor Registry
begin

text \<open>
  One connection to a worker: the table of pending requests over which a process client
  multiplexes frames, and the capped tail of the worker's standard error
  (\<open>internal/workerproc/persistent.go\<close>); the client that sends frames through a daemon
  (\<open>internal/workerproc/persistent_http.go\<close>); and the target that owns one or the other
  (\<open>internal/workerproc/target.go\<close>).
\<close>

section \<open>The tail of the standard error\<close>

definition maxPersistentStderrBytes :: nat where
  "maxPersistentStderrBytes = 65536"

record tail_buffer =
  tlb_data :: "byte list"
  tlb_truncated :: bool

definition emptyTail :: tail_buffer where
  "emptyTail = \<lparr>tlb_data = [], tlb_truncated = False\<rparr>"

definition writeTail :: "nat \<Rightarrow> byte list \<Rightarrow> tail_buffer \<Rightarrow> tail_buffer" where
  "writeTail limit p b =
     (let written = length p in
      if limit \<le> written
      then \<lparr>tlb_data = drop (written - limit) p,
            tlb_truncated = (tlb_truncated b \<or> 0 < length (tlb_data b) \<or> limit < written)\<rparr>
      else let overflow = int (length (tlb_data b)) + int written - int limit;
               b' = (if 0 < overflow
                 then \<lparr>tlb_data = drop (nat overflow) (tlb_data b), tlb_truncated = True\<rparr> else b)
        in b'\<lparr>tlb_data := tlb_data b' @ p\<rparr>)"

text \<open>The banner and its newline are ASCII, as bytes of the rendered text.\<close>

definition tailString :: "tail_buffer \<Rightarrow> string" where
  "tailString b =
     (let text = map (\<lambda>x. char_of (unat x)) (tlb_data b) in
      if \<not> tlb_truncated b then text
      else ''[stderr truncated; showing last '' @ decimal_nat maxPersistentStderrBytes @ '' bytes]'' @
        [CHR 0x0A] @ text)"

lemma drop_drop_append: "length xs \<le> n \<Longrightarrow> drop n (xs @ ys) = drop (n - length xs) ys"
  by simp

text \<open>What the buffer holds after a sequence of writes: the last bytes of all of them.\<close>

lemma writeTail_fold:
  assumes "tlb_data b = drop (length xs - limit) xs" "tlb_truncated b = (limit < length xs)" "0 < limit"
  shows "tlb_data (fold (writeTail limit) ps b) = drop (length (xs @ concat ps) - limit) (xs @ concat ps) \<and>
    tlb_truncated (fold (writeTail limit) ps b) = (limit < length (xs @ concat ps))"
  using assms
proof (induction ps arbitrary: b xs)
  case Nil
  then show ?case by simp
next
  case (Cons p ps)
  have len: "length (tlb_data b) = min (length xs) limit" using Cons.prems(1) by auto
  have "tlb_data (writeTail limit p b) = drop (length (xs @ p) - limit) (xs @ p) \<and>
      tlb_truncated (writeTail limit p b) = (limit < length (xs @ p))"
  proof (cases "limit \<le> length p")
    case True
    have "limit < length xs \<or> xs \<noteq> [] \<or> limit < length p \<longleftrightarrow> limit < length xs + length p"
      using True Cons.prems(3) by (cases xs) auto
    then show ?thesis using True Cons.prems len by (auto simp: writeTail_def Let_def)
  next
    case small: False
    show ?thesis
    proof (cases "limit < length (tlb_data b) + length p")
      case True
      then have o: "nat (int (length (tlb_data b)) + int (length p) - int limit) = length (tlb_data b) + length p - limit"
        "0 < int (length (tlb_data b)) + int (length p) - int limit" by linarith+
      have "length (tlb_data b) + length p - limit + (length xs - limit) = length xs + length p - limit"
        using len small True by linarith
      moreover have "length xs + length p - limit \<le> length xs" using small by linarith
      ultimately show ?thesis
        using o small Cons.prems True len by (auto simp: writeTail_def Let_def add.commute)
    next
      case False
      then consider "p = []" | "length xs + length p \<le> limit" using len by (cases p) auto
      then show ?thesis
        using False small Cons.prems len by cases (auto simp: writeTail_def Let_def)
    qed
  qed
  from Cons.IH [of "writeTail limit p b" "xs @ p"] this Cons.prems(3) show ?case by simp
qed

section \<open>Pending requests\<close>

text \<open>
  The map of pending requests by its keys; the channel of a key is the call that registered
  it. \<open>close(done)\<close> sets the flag, with the error the process ended with.
\<close>

record client_state =
  clt_pending :: "string list"
  clt_nextID :: u64
  clt_done :: bool
  clt_waitErr :: "string option"
  clt_expectedExit :: bool

definition requestName :: "u64 \<Rightarrow> string" where
  "requestName n = ''request-'' @ decimal_nat (unat n)"

text \<open>
  The loop that looks for an unused request ID. In Go it does not end if all \<open>2\<^sup>6\<^sup>4\<close> names are
  pending.
\<close>

partial_function (option) freshRequestID :: "string list \<Rightarrow> u64 \<Rightarrow> (u64 \<times> string) option" where
  "freshRequestID pending nextID =
     (let n = nextID + 1; candidate = requestName n in
      if candidate \<notin> set pending then Some (n, candidate) else freshRequestID pending n)"

declare freshRequestID.simps [code]

datatype client_error = ClientStopped | DuplicateRequestID string | NoFreshRequestID

text \<open>The registration of a call, under the mutex.\<close>

definition registerRequest :: "string \<Rightarrow> client_state \<Rightarrow> client_error + string \<times> client_state" where
  "registerRequest requestID c =
     (if clt_done c then Inl ClientStopped
      else case (if requestID = [] then freshRequestID (clt_pending c) (clt_nextID c)
          else Some (clt_nextID c, requestID)) of
        None \<Rightarrow> Inl NoFreshRequestID
      | Some (nextID, name) \<Rightarrow>
          if name \<in> set (clt_pending c) then Inl (DuplicateRequestID name)
          else Inr (name, c\<lparr>clt_nextID := nextID, clt_pending := name # clt_pending c\<rparr>))"

definition removePending :: "string \<Rightarrow> client_state \<Rightarrow> client_state" where
  "removePending requestID c = c\<lparr>clt_pending := remove1 requestID (clt_pending c)\<rparr>"

definition finishClient :: "string option \<Rightarrow> client_state \<Rightarrow> client_state" where
  "finishClient err c =
     (if clt_done c then c else c\<lparr>clt_waitErr := err, clt_pending := [], clt_done := True\<rparr>)"

text \<open>
  One frame of the read loop: the response goes to the pending request it names; a response
  that matches none ends the client. (The source gives up its lock between the mismatch and
  \<open>finish\<close>, to kill and reap the process; the model ends the client in the same step.)
\<close>

definition receiveFrame :: "persistent_response \<Rightarrow> client_state \<Rightarrow> client_state \<times> string option" where
  "receiveFrame response c =
     (if rsp_requestID response \<in> set (clt_pending c)
      then (removePending (rsp_requestID response) c, Some (rsp_requestID response))
      else (finishClient (Some (''persistent worker returned unmatched request ID '' @ rsp_requestID response)) c, None))"

datatype process_error = UnexpectedEOF | ProcessExited string | ProcessFailed string string

definition processError :: "string \<Rightarrow> client_state \<Rightarrow> process_error option" where
  "processError stderr c =
     (case clt_waitErr c of
        None \<Rightarrow>
          if clt_expectedExit c then None
          else if stderr = [] then Some UnexpectedEOF else Some (ProcessExited stderr)
      | Some e \<Rightarrow> Some (ProcessFailed e stderr))"

lemma requestName_inj: "requestName m = requestName n \<longleftrightarrow> m = n"
  by (simp add: requestName_def u64_eq_iff)

text \<open>Among more names than there are pending requests one is free, and the loop finds the first.\<close>

lemma freshRequestID_finds:
  "requestName (nextID + 1 + word_of_nat k) \<notin> set pending \<Longrightarrow>
   \<exists>n name. freshRequestID pending nextID = Some (n, name) \<and> name = requestName n \<and> name \<notin> set pending"
proof (induction k arbitrary: nextID)
  case 0
  then show ?case by (simp add: freshRequestID.simps [of pending nextID] Let_def)
next
  case (Suc k)
  show ?case
  proof (cases "requestName (nextID + 1) \<in> set pending")
    case True
    have "nextID + 1 + 1 + word_of_nat k = nextID + 1 + word_of_nat (Suc k)" by (simp add: algebra_simps)
    from Suc.IH [of "nextID + 1", unfolded this, OF Suc.prems] show ?thesis using True
      by (subst freshRequestID.simps) (simp add: Let_def)
  qed (simp add: freshRequestID.simps [of pending nextID] Let_def)
qed

lemma free_name_exists:
  assumes "length pending < 2 ^ 64"
  shows "\<exists>k. requestName (nextID + 1 + word_of_nat k) \<notin> set pending"
proof (rule ccontr)
  assume "\<not> ?thesis"
  then have sub: "(\<lambda>k. requestName (nextID + 1 + word_of_nat k)) ` {..<2 ^ 64} \<subseteq> set pending" by auto
  have "inj_on (\<lambda>k. requestName (nextID + 1 + word_of_nat k)) {..<2 ^ 64}"
  proof (rule inj_onI)
    fix j k :: nat
    assume "j \<in> {..<2 ^ 64}" "k \<in> {..<2 ^ 64}"
      "requestName (nextID + 1 + word_of_nat j) = requestName (nextID + 1 + word_of_nat k)"
    then have "unat (word_of_nat j :: u64) = unat (word_of_nat k :: u64)" by (simp add: requestName_inj)
    then show "j = k"
      using \<open>j \<in> _\<close> \<open>k \<in> _\<close> by (simp add: unat_u64_of_nat)
  qed
  then have "2 ^ 64 \<le> card (set pending)"
    using card_inj_on_le [OF _ sub] by fastforce
  then show False using assms card_length [of pending] by linarith
qed

section \<open>The client over time\<close>

text \<open>
  What happens to the pending table, as events: a call registers an ID; a response is handed
  to the call that holds its ID; a call, or the write loop, withdraws an ID; the process ends.
\<close>

datatype client_event = Registered string | Delivered persistent_response | Withdrawn string | Ended

definition newClient :: client_state where
  "newClient = \<lparr>clt_pending = [], clt_nextID = 0, clt_done = False, clt_waitErr = None, clt_expectedExit = False\<rparr>"

inductive client_reachable :: "client_state \<Rightarrow> client_event list \<Rightarrow> bool" where
  started: "client_reachable newClient []"
| registered: "client_reachable c h \<Longrightarrow> registerRequest requestID c = Inr (name, c') \<Longrightarrow>
    client_reachable c' (h @ [Registered name])"
| delivered: "client_reachable c h \<Longrightarrow> receiveFrame response c = (c', Some name) \<Longrightarrow>
    client_reachable c' (h @ [Delivered response])"
| unmatched: "client_reachable c h \<Longrightarrow> receiveFrame response c = (c', None) \<Longrightarrow>
    client_reachable c' (h @ [Ended])"
| withdrawn: "client_reachable c h \<Longrightarrow> client_reachable (removePending requestID c) (h @ [Withdrawn requestID])"
| ended: "client_reachable c h \<Longrightarrow> client_reachable (finishClient err c) (h @ [Ended])"
| acknowledged: "client_reachable c h \<Longrightarrow> client_reachable (c\<lparr>clt_expectedExit := True\<rparr>) h"

definition timesRegistered :: "string \<Rightarrow> client_event list \<Rightarrow> nat" where
  "timesRegistered name h = length (filter (\<lambda>e. e = Registered name) h)"

fun delivers :: "string \<Rightarrow> client_event \<Rightarrow> bool" where
  "delivers name (Delivered response) = (rsp_requestID response = name)"
| "delivers name e = False"

definition timesDelivered :: "string \<Rightarrow> client_event list \<Rightarrow> nat" where
  "timesDelivered name h = length (filter (delivers name) h)"

lemma event_counts [simp]:
  "timesRegistered name [] = 0" "timesDelivered name [] = 0"
  "timesRegistered name (h @ [e]) = timesRegistered name h + (if e = Registered name then 1 else 0)"
  "timesDelivered name (h @ [e]) = timesDelivered name h + (if delivers name e then 1 else 0)"
  by (simp_all add: timesRegistered_def timesDelivered_def)

lemma registerRequest_Inr:
  "registerRequest requestID c = Inr (name, c') \<Longrightarrow>
   \<not> clt_done c \<and> \<not> clt_done c' \<and> name \<notin> set (clt_pending c) \<and> clt_pending c' = name # clt_pending c"
  by (auto simp: registerRequest_def split: if_splits option.splits prod.splits)

lemma set_remove_pending:
  "distinct xs \<Longrightarrow> set (remove1 x xs) = set xs - {x}"
  by simp

lemma finish_invariant:
  assumes "distinct (clt_pending c) \<and> (clt_done c \<longrightarrow> clt_pending c = []) \<and>
    (\<forall>name. timesDelivered name h \<le> timesRegistered name h \<and>
     (name \<in> set (clt_pending c) \<longrightarrow> timesDelivered name h < timesRegistered name h))"
  shows "distinct (clt_pending (finishClient err c)) \<and>
    (clt_done (finishClient err c) \<longrightarrow> clt_pending (finishClient err c) = []) \<and>
    (\<forall>name. timesDelivered name (h @ [Ended]) \<le> timesRegistered name (h @ [Ended]) \<and>
     (name \<in> set (clt_pending (finishClient err c)) \<longrightarrow> timesDelivered name (h @ [Ended]) < timesRegistered name (h @ [Ended])))"
  using assms by (simp add: finishClient_def)

lemma client_invariant:
  "client_reachable c h \<Longrightarrow>
   distinct (clt_pending c) \<and> (clt_done c \<longrightarrow> clt_pending c = []) \<and>
   (\<forall>name. timesDelivered name h \<le> timesRegistered name h \<and>
     (name \<in> set (clt_pending c) \<longrightarrow> timesDelivered name h < timesRegistered name h))"
proof (induction rule: client_reachable.induct)
  case started
  then show ?case by (simp add: newClient_def)
next
  case (registered c h requestID name c')
  then show ?case using registerRequest_Inr [OF registered.hyps(2)] by (auto simp: less_Suc_eq_le intro: le_SucI)
next
  case (delivered c h response c' name)
  then have "rsp_requestID response \<in> set (clt_pending c)" "c' = removePending (rsp_requestID response) c"
    by (auto simp: receiveFrame_def split: if_splits)
  with delivered.IH show ?case
    by (auto simp: removePending_def split: if_splits)
next
  case (unmatched c h response c')
  then have c': "c' = finishClient (Some (''persistent worker returned unmatched request ID '' @ rsp_requestID response)) c"
    by (auto simp: receiveFrame_def split: if_splits)
  show ?case unfolding c' by (rule finish_invariant [OF unmatched.IH])
next
  case (withdrawn c h requestID)
  then show ?case
    by (auto simp: removePending_def split: if_splits)
next
  case (ended c h err)
  show ?case by (rule finish_invariant [OF ended.IH])
next
  case (acknowledged c h)
  then show ?case by simp
qed

section \<open>The client over HTTP\<close>

text \<open>
  What the client sends is a frame with the two headers that bind it to an incarnation, both
  or none. The reply of \<open>net/http\<close> is a parameter: an error of the round trip or of reading the
  body, or a status and a body of a size, with the frame it decodes to if it does. Encoding a
  request and creating it on a parsed endpoint do not fail.
\<close>

definition maxPersistentResponseBytes :: nat where
  "maxPersistentResponseBytes = 134217728"

record http_client =
  hcl_endpoint :: string
  hcl_expectedWorkerID :: string
  hcl_expectedInstanceID :: string
  hcl_nextID :: u64

datatype http_client_error = BoundIDsRequired | ParsePeer | PeerScheme | PeerNoHost

definition newHTTPPersistentClientFor ::
  "url_library \<Rightarrow> string \<Rightarrow> string \<Rightarrow> string \<Rightarrow> http_client_error + http_client" where
  "newHTTPPersistentClientFor lib peer workerID instanceID =
     (case url_parse lib (trim_right_slash peer) of
        None \<Rightarrow> Inl ParsePeer
      | Some u \<Rightarrow>
          if u_scheme u \<noteq> ''http'' \<and> u_scheme u \<noteq> ''https'' then Inl PeerScheme
          else if u_host u = [] then Inl PeerNoHost
          else Inr \<lparr>hcl_endpoint = trim_right_slash peer @ ''/v1/worker/request'',
            hcl_expectedWorkerID = workerID, hcl_expectedInstanceID = instanceID, hcl_nextID = 0\<rparr>)"

definition newHTTPPersistentClient :: "url_library \<Rightarrow> string \<Rightarrow> http_client_error + http_client" where
  "newHTTPPersistentClient lib peer = newHTTPPersistentClientFor lib peer [] []"

definition newBoundHTTPPersistentClient ::
  "url_library \<Rightarrow> string \<Rightarrow> string \<Rightarrow> string \<Rightarrow> http_client_error + http_client" where
  "newBoundHTTPPersistentClient lib peer workerID instanceID =
     (if trim_space workerID = [] \<or> trim_space instanceID = [] then Inl BoundIDsRequired
      else newHTTPPersistentClientFor lib peer workerID instanceID)"

record http_frame =
  htf_endpoint :: string
  htf_identity :: "(string \<times> string) option"
  htf_request :: persistent_request

datatype http_reply =
    RoundTripFailed call_error
  | ReadFailed call_error
  | Answered int nat "persistent_response option"

datatype http_error =
    HTTPCallFailed call_error
  | HTTPResponseTooLarge
  | HTTPUndecodable int
  | HTTPStatus int
  | HTTPRefused string

definition httpIdentity :: "http_client \<Rightarrow> (string \<times> string) option" where
  "httpIdentity c = (if hcl_expectedWorkerID c \<noteq> [] then Some (hcl_expectedWorkerID c, hcl_expectedInstanceID c) else None)"

definition httpFrame :: "persistent_request \<Rightarrow> http_client \<Rightarrow> http_client \<times> http_frame" where
  "httpFrame request c =
     (let (c', request') =
        (if req_requestID request = []
         then let n = hcl_nextID c + 1 in
           (c\<lparr>hcl_nextID := n\<rparr>, request\<lparr>req_requestID := ''http-request-'' @ decimal_nat (unat n)\<rparr>)
         else (c, request))
      in (c', \<lparr>htf_endpoint = hcl_endpoint c', htf_identity = httpIdentity c', htf_request = request'\<rparr>))"

definition httpReceive :: "call_error option \<Rightarrow> http_reply \<Rightarrow> http_error + persistent_response" where
  "httpReceive completion reply =
     (case reply of
        RoundTripFailed e \<Rightarrow> Inl (HTTPCallFailed e)
      | ReadFailed e \<Rightarrow> Inl (HTTPCallFailed e)
      | Answered status bytes decoded \<Rightarrow>
          case completion of
            Some e \<Rightarrow> Inl (HTTPCallFailed e)
          | None \<Rightarrow>
              if maxPersistentResponseBytes < bytes then Inl HTTPResponseTooLarge
              else case decoded of
                None \<Rightarrow> Inl (HTTPUndecodable status)
              | Some response \<Rightarrow>
                  if (status < 200 \<or> 300 \<le> status) \<and> rsp_error response = [] then Inl (HTTPStatus status)
                  else if (status < 200 \<or> 300 \<le> status) \<and> rsp_requestID response = []
                  then Inl (HTTPRefused (rsp_error response))
                  else map_error HTTPCallFailed (checkedResponse response))"

text \<open>
  The call: the clock and the reply are read when it starts and once the body is there; the
  frame is \<open>None\<close> where nothing is sent.
\<close>

definition httpCall ::
  "instant \<Rightarrow> request_context \<Rightarrow> (http_frame \<Rightarrow> instant \<times> call_error option \<times> http_reply) \<Rightarrow>
   persistent_request \<Rightarrow> http_client \<Rightarrow>
   http_client \<times> http_frame option \<times> (http_error + persistent_response)" where
  "httpCall now ctx transport request c =
     (if req_command request = [] then (c, None, Inl (HTTPCallFailed CommandEmpty))
      else case contextCompletionError now ctx of
        Some e \<Rightarrow> (c, None, Inl (HTTPCallFailed e))
      | None \<Rightarrow>
      case requestContext now ctx request of
        Inl e \<Rightarrow> (c, None, Inl (HTTPCallFailed e))
      | Inr (ctx', prepared) \<Rightarrow>
          let (c', frame) = httpFrame prepared c; (later, err, reply) = transport frame
          in (c', Some frame,
              httpReceive (contextCompletionError later (ctx'\<lparr>ctx_err := err\<rparr>)) reply))"

lemma trim_space_Nil: "trim_space [] = []"
  by (rule trim_space_visible) (simp add: visible_ends_def)

lemma httpFrame_simps:
  "httpFrame request c = (c', frame) \<Longrightarrow>
   hcl_endpoint c' = hcl_endpoint c \<and> httpIdentity c' = httpIdentity c \<and>
   htf_endpoint frame = hcl_endpoint c \<and> htf_identity frame = httpIdentity c \<and>
   req_command (htf_request frame) = req_command request \<and>
   req_deadlineUnixMillis (htf_request frame) = req_deadlineUnixMillis request \<and>
   req_requestID (htf_request frame) \<noteq> []"
  by (auto simp: httpFrame_def httpIdentity_def Let_def split: if_splits)

lemma httpReceive_Inr:
  "httpReceive completion reply = Inr response \<Longrightarrow>
   completion = None \<and> rsp_ok response \<and>
   (\<exists>status bytes. reply = Answered status bytes (Some response) \<and> bytes \<le> maxPersistentResponseBytes \<and>
     (status < 200 \<or> 300 \<le> status \<longrightarrow> rsp_error response \<noteq> [] \<and> rsp_requestID response \<noteq> []))"
  by (auto simp: httpReceive_def checkedResponse_def split: http_reply.splits option.splits if_splits)

section \<open>Targets\<close>

text \<open>
  The owner of a caller. A process it started is shut down at most once; a remote worker
  belongs to its daemon. The result of the process's own shutdown is a parameter; killing and
  reaping it have no result the target reads.
\<close>

record persistent_target =
  ptg_direct :: bool
  ptg_closed :: bool

definition isDirect :: "persistent_target option \<Rightarrow> bool" where
  "isDirect target = (case target of None \<Rightarrow> False | Some t \<Rightarrow> ptg_direct t)"

definition openPersistentTarget ::
  "url_library \<Rightarrow> string \<Rightarrow> string option \<Rightarrow> (http_client_error + string) + persistent_target" where
  "openPersistentTarget lib endpoint started =
     (if endpoint \<noteq> []
      then case newHTTPPersistentClient lib endpoint of
        Inl e \<Rightarrow> Inl (Inl e)
      | Inr c \<Rightarrow> Inr \<lparr>ptg_direct = False, ptg_closed = False\<rparr>
      else case started of
        Some e \<Rightarrow> Inl (Inr e)
      | None \<Rightarrow> Inr \<lparr>ptg_direct = True, ptg_closed = False\<rparr>)"

text \<open>The flag tells whether the process was asked to shut down.\<close>

definition targetShutdown ::
  "call_error option \<Rightarrow> persistent_target \<Rightarrow> persistent_target \<times> bool \<times> call_error option" where
  "targetShutdown shutdown t =
     (if \<not> ptg_direct t \<or> ptg_closed t then (t, False, None)
      else case shutdown of
        Some e \<Rightarrow> (t, True, Some e)
      | None \<Rightarrow> (t\<lparr>ptg_closed := True\<rparr>, True, None))"

text \<open>The second flag tells whether the process was killed.\<close>

definition targetCleanup ::
  "call_error option \<Rightarrow> persistent_target \<Rightarrow> persistent_target \<times> bool \<times> bool" where
  "targetCleanup shutdown t =
     (if \<not> ptg_direct t \<or> ptg_closed t then (t, False, False)
      else case shutdown of
        None \<Rightarrow> (t\<lparr>ptg_closed := True\<rparr>, True, False)
      | Some e \<Rightarrow> (t\<lparr>ptg_closed := True\<rparr>, True, True))"

lemma cleanup_releases_once:
  "targetCleanup outcome1 t = (t', asked, killed) \<Longrightarrow> targetCleanup outcome2 t' = (t', False, False)"
  by (auto simp: targetCleanup_def split: if_splits option.splits)

section \<open>Properties\<close>

text \<open>
  The capped buffer of the worker's standard error always holds exactly the last 65536
  bytes of everything written to it, in whatever pieces it was written, and it says that it
  is truncated exactly if more was written.
\<close>

theorem stderr_tail_is_last_bytes:
  "fold (writeTail maxPersistentStderrBytes) ps emptyTail =
   \<lparr>tlb_data = drop (length (concat ps) - maxPersistentStderrBytes) (concat ps),
    tlb_truncated = (maxPersistentStderrBytes < length (concat ps))\<rparr>"
  using writeTail_fold [of emptyTail "[]" maxPersistentStderrBytes ps]
  by (simp add: emptyTail_def maxPersistentStderrBytes_def)

text \<open>
  C38: The search for an unused request ID ends as long as fewer than \<open>2\<^sup>6\<^sup>4\<close> requests are
  pending, whatever their IDs are and wherever the counter stands, wrap-around included, and
  the ID it returns is not pending; so such a call is registered, unless the client is stopped.
\<close>

theorem fresh_request_is_registered:
  assumes "length (clt_pending c) < 2 ^ 64" "\<not> clt_done c"
  shows "\<exists>name c'. registerRequest [] c = Inr (name, c') \<and> name \<notin> set (clt_pending c) \<and>
    clt_pending c' = name # clt_pending c"
proof -
  obtain k where "requestName (clt_nextID c + 1 + word_of_nat k) \<notin> set (clt_pending c)"
    using free_name_exists [OF assms(1)] by blast
  then obtain n name where "freshRequestID (clt_pending c) (clt_nextID c) = Some (n, name)"
    "name \<notin> set (clt_pending c)"
    using freshRequestID_finds by blast
  with assms(2) show ?thesis by (simp add: registerRequest_def)
qed

theorem fresh_request_is_registered_witness:
  "\<exists>name c'. registerRequest [] (newClient\<lparr>clt_pending := [''request-1'']\<rparr>) = Inr (name, c') \<and>
    name \<notin> {''request-1''} \<and> clt_pending c' = [name, ''request-1'']"
  using fresh_request_is_registered [of "newClient\<lparr>clt_pending := [''request-1'']\<rparr>"] by (simp add: newClient_def)

text \<open>
  C21: However calls, responses, withdrawals and the end of the process interleave, no ID is
  pending twice, no call gets more than one response and none that it did not register for
  (under every ID at most as many responses are delivered as calls were registered, and
  fewer while one is pending), and once the process has ended nothing is pending.
\<close>

theorem responses_reach_their_calls:
  assumes "client_reachable c h"
  shows "distinct (clt_pending c) \<and> (clt_done c \<longrightarrow> clt_pending c = []) \<and>
    timesDelivered name h \<le> timesRegistered name h \<and>
    (name \<in> set (clt_pending c) \<longrightarrow> timesDelivered name h < timesRegistered name h)"
  using client_invariant [OF assms] by blast

theorem responses_reach_their_calls_witness:
  "\<exists>c response. rsp_requestID response = ''request-1'' \<and>
    client_reachable c [Registered ''request-1'', Delivered response] \<and>
    timesDelivered ''request-1'' [Registered ''request-1'', Delivered response] \<le> 1"
proof -
  define response where "response = \<lparr>rsp_requestID = ''request-1'', rsp_ok = True, rsp_error = [],
    rsp_workerObservationSequence = 0, rsp_result = None\<rparr>"
  have "registerRequest ''request-1'' newClient = Inr (''request-1'', newClient\<lparr>clt_pending := [''request-1'']\<rparr>)"
    by (simp add: registerRequest_def newClient_def)
  from registered [OF started this]
  have r: "client_reachable (newClient\<lparr>clt_pending := [''request-1'']\<rparr>) ([] @ [Registered ''request-1''])" .
  have "receiveFrame response (newClient\<lparr>clt_pending := [''request-1'']\<rparr>) = (newClient, Some ''request-1'')"
    by (simp add: receiveFrame_def removePending_def newClient_def response_def)
  from delivered [OF r this]
  have d: "client_reachable newClient [Registered ''request-1'', Delivered response]" by simp
  have "timesRegistered ''request-1'' [Registered ''request-1'', Delivered response] = 1"
    by (simp add: timesRegistered_def)
  with responses_reach_their_calls [OF d, of "''request-1''"] d show ?thesis
    by (intro exI [of _ newClient] exI [of _ response]) (simp add: response_def)
qed

text \<open>
  A client bound to a worker incarnation sends every request with the IDs of exactly that
  incarnation, with its command unchanged and under a non-empty request ID; and a response is returned
  only if the worker reports success, within the size limit, and before the deadline passed
  or the context ended.
\<close>

theorem bound_client_names_its_worker:
  assumes "newBoundHTTPPersistentClient lib peer workerID instanceID = Inr c0"
    and "hcl_endpoint c = hcl_endpoint c0" "httpIdentity c = httpIdentity c0"
    and "httpCall now ctx transport request c = (c', sent, r)"
  shows "(\<forall>frame. sent = Some frame \<longrightarrow>
      htf_identity frame = Some (workerID, instanceID) \<and>
      htf_endpoint frame = trim_right_slash peer @ ''/v1/worker/request'' \<and>
      req_command (htf_request frame) = req_command request \<and> req_requestID (htf_request frame) \<noteq> []) \<and>
    (\<forall>response. r = Inr response \<longrightarrow> rsp_ok response \<and> sent \<noteq> None) \<and>
    hcl_endpoint c' = hcl_endpoint c0 \<and> httpIdentity c' = httpIdentity c0"
proof -
  have id: "httpIdentity c0 = Some (workerID, instanceID)" "hcl_endpoint c0 = trim_right_slash peer @ ''/v1/worker/request''"
    using assms(1)
    by (auto simp: newBoundHTTPPersistentClient_def newHTTPPersistentClientFor_def httpIdentity_def trim_space_Nil
        split: if_splits option.splits)
  have command: "req_command prepared = req_command request" if "requestContext now ctx request = Inr (ctx', prepared)"
    for ctx' prepared
    by (subst requestContext_command [OF that]) simp
  show ?thesis
    using assms(2-4) id
    by (auto simp: httpCall_def Let_def dest!: httpFrame_simps httpReceive_Inr command
        split: if_splits option.splits sum.splits prod.splits)
qed

text \<open>A library that knows one peer, as a URL.\<close>

definition peer_library :: url_library where
  "peer_library = \<lparr>url_parse = (\<lambda>s. if s = ''http://peer''
     then Some \<lparr>u_scheme = ''http'', u_host = ''peer'', u_hostname = ''peer'', u_port = [],
       u_hasUser = False, u_rawQuery = [], u_fragment = [], u_rest = []\<rparr> else None),
     url_string = (\<lambda>_. ''http://peer''), to_lower = (\<lambda>s. s)\<rparr>"

definition bound_peer :: http_client where
  "bound_peer = \<lparr>hcl_endpoint = ''http://peer/v1/worker/request'', hcl_expectedWorkerID = ''w1'',
     hcl_expectedInstanceID = ''i1'', hcl_nextID = 0\<rparr>"

lemma bound_peer_opens: "newBoundHTTPPersistentClient peer_library ''http://peer/'' ''w1'' ''i1'' = Inr bound_peer"
  by code_simp

definition answered_ok :: "http_frame \<Rightarrow> instant \<times> call_error option \<times> http_reply" where
  "answered_ok frame = (1, None, Answered 200 80 (Some \<lparr>rsp_requestID = req_requestID (htf_request frame),
     rsp_ok = True, rsp_error = [], rsp_workerObservationSequence = 7, rsp_result = None\<rparr>))"

theorem bound_client_names_its_worker_witness:
  "\<exists>c' frame response.
    httpCall 0 \<lparr>ctx_err = None, ctx_deadline = Some 5000000\<rparr> answered_ok (plainRequest ''state'') bound_peer =
      (c', Some frame, Inr response) \<and>
    htf_identity frame = Some (''w1'', ''i1'') \<and> rsp_ok response"
proof -
  obtain c' frame response where call:
    "httpCall 0 \<lparr>ctx_err = None, ctx_deadline = Some 5000000\<rparr> answered_ok (plainRequest ''state'') bound_peer =
      (c', Some frame, Inr response)"
    by (simp add: httpCall_def plainRequest_def contextCompletionError_def requestContext_def httpFrame_def
        httpReceive_def checkedResponse_def answered_ok_def bound_peer_def maxPersistentResponseBytes_def
        isInferenceCommand_def Let_def)
  from bound_client_names_its_worker [OF bound_peer_opens refl refl call] call show ?thesis by simp
qed

end
