(* ===== verification/Daemon.thy ===== *)
theory Daemon
  imports Client
begin

text \<open>
  The worker endpoint of the daemon (\<open>cmd/swarmd/main.go\<close>): the identity precondition of bound
  clients, the forwarding of frames to the supervised worker, and the answer over HTTP. The
  endpoint is composed with the client of \<open>Client\<close> and the supervisor of \<open>Supervisor\<close>; the
  contract that every layer of callers keeps is the locale \<open>persistent_caller\<close>.
\<close>

section \<open>The identity precondition\<close>

record daemon =
  dmn_membershipEnabled :: bool
  dmn_workerID :: string
  dmn_instanceID :: string

datatype identity_error =
    PreconditionIncomplete
  | NotRegistered
  | IdentityChanged string string string string

text \<open>The arguments are the two headers, empty where they are absent.\<close>

definition validateExpectedWorkerIdentity :: "string \<Rightarrow> string \<Rightarrow> daemon \<Rightarrow> identity_error + unit" where
  "validateExpectedWorkerIdentity expectedWorkerID expectedInstanceID d =
     (if expectedWorkerID = [] \<and> expectedInstanceID = [] then Inr ()
      else if expectedWorkerID = [] \<or> expectedInstanceID = [] then Inl PreconditionIncomplete
      else if \<not> dmn_membershipEnabled d then Inl NotRegistered
      else if expectedWorkerID \<noteq> dmn_workerID d \<or> expectedInstanceID \<noteq> dmn_instanceID d
      then Inl (IdentityChanged expectedWorkerID expectedInstanceID (dmn_workerID d) (dmn_instanceID d))
      else Inr ())"

definition expectedIdentity :: "http_frame \<Rightarrow> string \<times> string" where
  "expectedIdentity frame = (case htf_identity frame of None \<Rightarrow> ([], []) | Some p \<Rightarrow> p)"

section \<open>Forwarding\<close>

text \<open>
  The response that comes with an error: the worker's, for a rejection, of which the payload
  is left out.
\<close>

definition failedResponse :: "string \<Rightarrow> string \<Rightarrow> persistent_response" where
  "failedResponse requestID message =
     \<lparr>rsp_requestID = requestID, rsp_ok = False, rsp_error = message, rsp_workerObservationSequence = 0,
      rsp_result = None\<rparr>"

fun rejectedResponse :: "call_error \<Rightarrow> persistent_response option" where
  "rejectedResponse (WorkerResponse requestID message) = Some (failedResponse requestID message)"
| "rejectedResponse (RequestNotDispatched e) = rejectedResponse e"
| "rejectedResponse e = None"

fun supervisorRejection :: "supervisor_error \<Rightarrow> persistent_response option" where
  "supervisorRejection (SupervisorCallError e) = rejectedResponse e"
| "supervisorRejection (SupervisorRestartFailed e r) = None"

definition withCallerID :: "string \<Rightarrow> persistent_response \<Rightarrow> persistent_response" where
  "withCallerID callerRequestID response =
     (if callerRequestID \<noteq> [] then response\<lparr>rsp_requestID := callerRequestID\<rparr> else response)"

text \<open>The worker gets an ID of its client's own; the response carries the caller's.\<close>

definition forwardPersistentRequest ::
  "supervisor_env \<Rightarrow> instant \<Rightarrow> request_context \<Rightarrow> persistent_request \<Rightarrow> supervisor \<Rightarrow> dispatch list \<Rightarrow>
   dispatch list \<times> supervisor \<times> (supervisor_error \<times> persistent_response option + persistent_response)" where
  "forwardPersistentRequest env now ctx request s calls =
     (case requestContext now ctx request of
        Inl e \<Rightarrow> (calls, s, Inl (SupervisorCallError e, None))
      | Inr (ctx', prepared) \<Rightarrow>
          case supervisorCall env ctx' (prepared\<lparr>req_requestID := []\<rparr>) s calls of
            (calls', s', Inr response) \<Rightarrow> (calls', s', Inr (withCallerID (req_requestID prepared) response))
          | (calls', s', Inl e) \<Rightarrow>
              (calls', s', Inl (e, map_option (withCallerID (req_requestID prepared)) (supervisorRejection e))))"

section \<open>The endpoint\<close>

datatype daemon_error =
    IdentityRefused identity_error
  | RequestUndecodable string
  | ShutdownForbidden
  | WorkerFailed supervisor_error

text \<open>
  A status and the body, as the client decodes it: an \<open>errorResponse\<close> has only an error.
  \<open>render\<close> gives the messages.
\<close>

type_synonym daemon_reply = "int \<times> persistent_response"

definition writeError :: "(daemon_error \<Rightarrow> string) \<Rightarrow> int \<Rightarrow> daemon_error \<Rightarrow> daemon_reply" where
  "writeError render code e = (code, failedResponse [] (render e))"

definition writePersistentResponse ::
  "(daemon_error \<Rightarrow> string) \<Rightarrow> supervisor_error \<times> persistent_response option + persistent_response \<Rightarrow> daemon_reply" where
  "writePersistentResponse render result =
     (case result of
        Inl (e, Some response) \<Rightarrow> (422, response)
      | Inl (e, None) \<Rightarrow> writeError render 502 (WorkerFailed e)
      | Inr response \<Rightarrow> (200, response))"

definition handleWorkerRequest ::
  "(daemon_error \<Rightarrow> string) \<Rightarrow> daemon \<Rightarrow> supervisor_env \<Rightarrow> instant \<Rightarrow> request_context \<Rightarrow> string \<times> string \<Rightarrow>
   string + persistent_request \<Rightarrow> supervisor \<Rightarrow> dispatch list \<Rightarrow> dispatch list \<times> supervisor \<times> daemon_reply" where
  "handleWorkerRequest render d env now ctx identity decoded s calls =
     (case validateExpectedWorkerIdentity (fst identity) (snd identity) d of
        Inl e \<Rightarrow> (calls, s, writeError render 409 (IdentityRefused e))
      | Inr _ \<Rightarrow>
      case decoded of
        Inl e \<Rightarrow> (calls, s, writeError render 400 (RequestUndecodable e))
      | Inr request \<Rightarrow>
          if req_command request = ''shutdown'' then (calls, s, writeError render 403 ShutdownForbidden)
          else case forwardPersistentRequest env now ctx request s calls of
            (calls', s', result) \<Rightarrow> (calls', s', writePersistentResponse render result))"

text \<open>
  The daemon's end of its worker: a graceful shutdown, or the kill and the reaping. The
  result is what was done: whether the worker was killed, and whether it was waited for.
\<close>

definition shutdownPersistentWorker :: "call_error option \<Rightarrow> kill_result \<Rightarrow> bool \<times> bool" where
  "shutdownPersistentWorker shutdown killed =
     (case shutdown of
        None \<Rightarrow> (False, False)
      | Some e \<Rightarrow> if killed = KillFailed then (True, False) else (True, True))"

section \<open>A client and the daemon\<close>

datatype passage = Passed | RequestLost call_error | ReplyLost call_error

record route =
  rou_render :: "daemon_error \<Rightarrow> string"
  rou_daemon :: daemon
  rou_env :: supervisor_env
  rou_serverNow :: instant
  rou_serverContext :: request_context
  rou_length :: "persistent_response \<Rightarrow> nat"
  rou_clientNow :: instant
  rou_clientContext :: request_context
  rou_later :: instant
  rou_laterError :: "call_error option"
  rou_passage :: passage

text \<open>The frame arrives as it was sent, or not at all.\<close>

definition serve :: "route \<Rightarrow> http_frame \<Rightarrow> supervisor \<Rightarrow> dispatch list \<Rightarrow> dispatch list \<times> supervisor \<times> http_reply" where
  "serve rt frame s calls =
     (case rou_passage rt of
        RequestLost e \<Rightarrow> (calls, s, RoundTripFailed e)
      | _ \<Rightarrow>
          case handleWorkerRequest (rou_render rt) (rou_daemon rt) (rou_env rt) (rou_serverNow rt) (rou_serverContext rt)
              (expectedIdentity frame) (Inr (htf_request frame)) s calls of
            (calls', s', (code, response)) \<Rightarrow>
              (calls', s', case rou_passage rt of
                 ReplyLost e \<Rightarrow> RoundTripFailed e
               | _ \<Rightarrow> Answered code (rou_length rt response) (Some response)))"

definition callThroughDaemon ::
  "route \<Rightarrow> persistent_request \<Rightarrow> http_client \<times> supervisor \<times> dispatch list \<Rightarrow>
   (http_client \<times> supervisor \<times> dispatch list) \<times> (http_error + persistent_response)" where
  "callThroughDaemon rt request = (\<lambda>(c, s, calls).
     let transport = (\<lambda>frame. (rou_later rt, rou_laterError rt, snd (snd (serve rt frame s calls))));
         (c', sent, r) = httpCall (rou_clientNow rt) (rou_clientContext rt) transport request c
     in case sent of
          None \<Rightarrow> ((c', s, calls), r)
        | Some frame \<Rightarrow> case serve rt frame s calls of (calls', s', reply) \<Rightarrow> ((c', s', calls'), r))"

section \<open>The contract of a caller\<close>

text \<open>
  What reaches a worker is the request, up to the ID and the deadline the layers write into
  it. It is dispatched no more often than its command allows, and a success is the worker's
  answer to the last dispatch.
\<close>

definition same_payload :: "persistent_request \<Rightarrow> persistent_request \<Rightarrow> bool" where
  "same_payload request r \<longleftrightarrow>
     r = request\<lparr>req_requestID := req_requestID r, req_deadlineUnixMillis := req_deadlineUnixMillis r\<rparr>"

definition answers :: "dispatch \<Rightarrow> persistent_response \<Rightarrow> bool" where
  "answers d response \<longleftrightarrow> (\<exists>a. dsp_answer d = Inr a \<and>
     response = a\<lparr>rsp_requestID := rsp_requestID response,
       rsp_workerObservationSequence := rsp_workerObservationSequence response\<rparr>)"

locale persistent_caller =
  fixes call :: "persistent_request \<Rightarrow> 's \<Rightarrow> 's \<times> ('e + persistent_response)"
    and dispatched :: "'s \<Rightarrow> dispatch list"
  assumes call_extends: "call request s = (s', r) \<Longrightarrow>
      \<exists>new. dispatched s' = dispatched s @ new \<and> length new \<le> retries_allowed (req_command request) \<and>
        (\<forall>d \<in> set new. same_payload request (dsp_request d))"
    and call_answered: "call request s = (s', Inr response) \<Longrightarrow>
      dispatched s' \<noteq> dispatched s \<and> answers (last (dispatched s')) response"
begin

lemma at_most_once:
  assumes "call request s = (s', r)" "req_command request \<notin> {''health'', ''state''}"
  shows "dispatched s' = dispatched s \<or>
    (\<exists>d. dispatched s' = dispatched s @ [d] \<and> same_payload request (dsp_request d))"
proof -
  obtain new where new: "dispatched s' = dispatched s @ new" "length new \<le> retries_allowed (req_command request)"
    "\<forall>d \<in> set new. same_payload request (dsp_request d)"
    using call_extends [OF assms(1)] by blast
  then have "length new \<le> 1" using assms(2) by (auto simp: retries_allowed_def)
  then consider "new = []" | d where "new = [d]" by (cases new) auto
  then show ?thesis using new by cases auto
qed

lemma success_exactly_once:
  assumes "call request s = (s', Inr response)" "req_command request \<notin> {''health'', ''state''}"
  shows "\<exists>d. dispatched s' = dispatched s @ [d] \<and> same_payload request (dsp_request d) \<and> answers d response"
  using at_most_once [OF assms] call_answered [OF assms(1)] by auto

end

section \<open>The layers keep it\<close>

definition callSupervisor ::
  "supervisor_env \<Rightarrow> request_context \<Rightarrow> persistent_request \<Rightarrow> supervisor \<times> dispatch list \<Rightarrow>
   (supervisor \<times> dispatch list) \<times> (supervisor_error + persistent_response)" where
  "callSupervisor env ctx request = (\<lambda>(s, calls).
     case supervisorCall env ctx request s calls of (calls', s', r) \<Rightarrow> ((s', calls'), r))"

definition callForward ::
  "supervisor_env \<Rightarrow> instant \<Rightarrow> request_context \<Rightarrow> persistent_request \<Rightarrow> supervisor \<times> dispatch list \<Rightarrow>
   (supervisor \<times> dispatch list) \<times> (supervisor_error \<times> persistent_response option + persistent_response)" where
  "callForward env now ctx request = (\<lambda>(s, calls).
     case forwardPersistentRequest env now ctx request s calls of (calls', s', r) \<Rightarrow> ((s', calls'), r))"

lemma same_payload_deadline: "r = request\<lparr>req_deadlineUnixMillis := d\<rparr> \<Longrightarrow> same_payload request r"
  by (simp add: same_payload_def)

lemma same_payload_trans: "same_payload a b \<Longrightarrow> same_payload b c \<Longrightarrow> same_payload a c"
  by (cases a; cases b; cases c) (simp add: same_payload_def)

lemma same_payload_id: "same_payload request (request\<lparr>req_requestID := i\<rparr>)"
  by (simp add: same_payload_def)

lemma same_payload_command: "same_payload request r \<Longrightarrow> req_command r = req_command request"
  by (cases request; cases r) (simp add: same_payload_def)

lemma answers_relabel: "answers d response \<Longrightarrow> answers d (response\<lparr>rsp_requestID := i\<rparr>)"
  by (auto simp: answers_def) (metis persistent_response.surjective persistent_response.update_convs)

lemma superviseCall_answered:
  "superviseCall env request s calls = (calls', s', Inr response) \<Longrightarrow>
   calls' \<noteq> calls \<and> answers (last calls') response"
  by (auto simp: superviseCall_def dispatchTo_def recordObservation_def answers_def Let_def
      split: sum.splits if_splits)

lemma supervisorCall_answered:
  assumes "supervisorCall env ctx request s calls = (calls', s', Inr response)"
  shows "calls' \<noteq> calls \<and> answers (last calls') response"
  using supervisorCall_cases [OF assms] superviseCall_answered by blast

interpretation supervised_caller: persistent_caller "callSupervisor env ctx" snd
proof unfold_locales
  fix request and s s' :: "supervisor \<times> dispatch list" and r
  assume "callSupervisor env ctx request s = (s', r)"
  then have "supervisorCall env ctx request (fst s) (snd s) = (snd s', fst s', r)"
    by (auto simp: callSupervisor_def split: prod.splits)
  from supervisorCall_dispatches [OF this]
  show "\<exists>new. snd s' = snd s @ new \<and> length new \<le> retries_allowed (req_command request) \<and>
      (\<forall>d \<in> set new. same_payload request (dsp_request d))"
    using same_payload_deadline by metis
next
  fix request and s s' :: "supervisor \<times> dispatch list" and response
  assume "callSupervisor env ctx request s = (s', Inr response)"
  then show "snd s' \<noteq> snd s \<and> answers (last (snd s')) response"
    by (auto simp: callSupervisor_def split: prod.splits dest: supervisorCall_answered)
qed

lemma forward_cases:
  assumes "forwardPersistentRequest env now ctx request s calls = (calls', s', r)"
  shows "(calls' = calls \<and> s' = s \<and> (\<exists>e. r = Inl e)) \<or>
    (\<exists>ctx' prepared r0. same_payload request prepared \<and>
      callSupervisor env ctx' prepared (s, calls) = ((s', calls'), r0) \<and>
      (\<forall>response. r = Inr response \<longrightarrow> (\<exists>response0 i. r0 = Inr response0 \<and> response = withCallerID i response0)))"
proof (cases "requestContext now ctx request")
  case (Inr p)
  obtain ctx' prepared where p: "requestContext now ctx request = Inr (ctx', prepared)" using Inr by (cases p) auto
  have "same_payload request (prepared\<lparr>req_requestID := []\<rparr>)"
    using requestContext_command [OF p] same_payload_deadline same_payload_id same_payload_trans by metis
  moreover obtain calls1 s1 r0 where c: "supervisorCall env ctx' (prepared\<lparr>req_requestID := []\<rparr>) s calls = (calls1, s1, r0)"
    by (cases "supervisorCall env ctx' (prepared\<lparr>req_requestID := []\<rparr>) s calls") auto
  moreover have "callSupervisor env ctx' (prepared\<lparr>req_requestID := []\<rparr>) (s, calls) = ((s', calls'), r0)"
    using assms p c by (auto simp: forwardPersistentRequest_def callSupervisor_def split: sum.splits)
  moreover have "\<exists>response0 i. r0 = Inr response0 \<and> response = withCallerID i response0" if "r = Inr response" for response
    using assms p c that by (auto simp: forwardPersistentRequest_def split: sum.splits)
  ultimately show ?thesis by blast
qed (use assms in \<open>auto simp: forwardPersistentRequest_def\<close>)

lemma answers_withCallerID: "answers d response \<Longrightarrow> answers d (withCallerID i response)"
  by (simp add: withCallerID_def answers_relabel)

lemma forward_contract:
  assumes "forwardPersistentRequest env now ctx request s calls = (calls', s', r)"
  shows "(\<exists>new. calls' = calls @ new \<and> length new \<le> retries_allowed (req_command request) \<and>
      (\<forall>d \<in> set new. same_payload request (dsp_request d))) \<and>
    (\<forall>response. r = Inr response \<longrightarrow> calls' \<noteq> calls \<and> answers (last calls') response)"
  using forward_cases [OF assms]
proof (elim disjE exE conjE)
  fix ctx' prepared r0
  assume same: "same_payload request prepared" and call: "callSupervisor env ctx' prepared (s, calls) = ((s', calls'), r0)"
    and ok: "\<forall>response. r = Inr response \<longrightarrow> (\<exists>response0 i. r0 = Inr response0 \<and> response = withCallerID i response0)"
  have "calls' \<noteq> calls \<and> answers (last calls') response" if r: "r = Inr response" for response
  proof -
    obtain response0 i where "r0 = Inr response0" "response = withCallerID i response0" using ok r by blast
    then show ?thesis using supervised_caller.call_answered [of env ctx' prepared] call answers_withCallerID by fastforce
  qed
  moreover from supervised_caller.call_extends [OF call]
  obtain new where "calls' = calls @ new" "length new \<le> retries_allowed (req_command prepared)"
    "\<forall>d \<in> set new. same_payload prepared (dsp_request d)" by auto
  ultimately show ?thesis
    using same_payload_trans [OF same] same_payload_command [OF same] by metis
qed auto

interpretation forwarding_caller: persistent_caller "callForward env now ctx" snd
proof unfold_locales
  fix request and s s' :: "supervisor \<times> dispatch list" and r
  assume "callForward env now ctx request s = (s', r)"
  then have "forwardPersistentRequest env now ctx request (fst s) (snd s) = (snd s', fst s', r)"
    by (auto simp: callForward_def split: prod.splits)
  from forward_contract [OF this]
  show "\<exists>new. snd s' = snd s @ new \<and> length new \<le> retries_allowed (req_command request) \<and>
      (\<forall>d \<in> set new. same_payload request (dsp_request d))" by blast
next
  fix request and s s' :: "supervisor \<times> dispatch list" and response
  assume "callForward env now ctx request s = (s', Inr response)"
  then have "forwardPersistentRequest env now ctx request (fst s) (snd s) = (snd s', fst s', Inr response)"
    by (auto simp: callForward_def split: prod.splits)
  from forward_contract [OF this] show "snd s' \<noteq> snd s \<and> answers (last (snd s')) response" by blast
qed

lemma httpFrame_payload:
  "httpFrame request c = (c', frame) \<Longrightarrow> same_payload request (htf_request frame) \<and> htf_identity frame = httpIdentity c"
  by (auto simp: httpFrame_def httpIdentity_def same_payload_def Let_def split: if_splits)

lemma rejectedResponse_not_ok: "rejectedResponse e = Some response \<Longrightarrow> \<not> rsp_ok response"
  by (induction e) (auto simp: failedResponse_def)

lemma forward_rejection:
  "forwardPersistentRequest env now ctx request s calls = (calls', s', Inl (e, Some response)) \<Longrightarrow> \<not> rsp_ok response"
  by (auto simp: forwardPersistentRequest_def withCallerID_def rejectedResponse_not_ok
      split: sum.splits prod.splits if_splits elim!: supervisorRejection.elims)

definition may_pass :: "daemon \<Rightarrow> string \<times> string \<Rightarrow> persistent_request \<Rightarrow> bool" where
  "may_pass d identity request \<longleftrightarrow>
     validateExpectedWorkerIdentity (fst identity) (snd identity) d = Inr () \<and> req_command request \<noteq> ''shutdown''"

lemma handle_contract:
  assumes "handleWorkerRequest render d env now ctx identity (Inr request) s calls = (calls', s', code, response)"
  shows "(\<exists>new. calls' = calls @ new \<and> length new \<le> retries_allowed (req_command request) \<and>
      (\<forall>x \<in> set new. same_payload request (dsp_request x))) \<and>
    (calls' \<noteq> calls \<longrightarrow> may_pass d identity request) \<and>
    (rsp_ok response \<longrightarrow> calls' \<noteq> calls \<and> answers (last calls') response)"
proof (cases "may_pass d identity request")
  case True
  obtain calls1 s1 result where f: "forwardPersistentRequest env now ctx request s calls = (calls1, s1, result)"
    by (cases "forwardPersistentRequest env now ctx request s calls") auto
  have eq: "calls' = calls1" "(code, response) = writePersistentResponse render result"
    using assms True f by (auto simp: handleWorkerRequest_def may_pass_def)
  have "result = Inr response" if "rsp_ok response"
    using that eq(2) f forward_rejection
    by (auto simp: writePersistentResponse_def writeError_def failedResponse_def split: sum.splits option.splits)
  then show ?thesis using forward_contract [OF f] eq(1) True by blast
next
  case False
  then show ?thesis
    using assms by (auto simp: handleWorkerRequest_def may_pass_def writeError_def failedResponse_def split: sum.splits if_splits)
qed

lemma serve_contract:
  assumes "serve rt frame s calls = (calls', s', reply)"
  shows "(\<exists>new. calls' = calls @ new \<and> length new \<le> retries_allowed (req_command (htf_request frame)) \<and>
      (\<forall>x \<in> set new. same_payload (htf_request frame) (dsp_request x))) \<and>
    (calls' \<noteq> calls \<longrightarrow> may_pass (rou_daemon rt) (expectedIdentity frame) (htf_request frame)) \<and>
    (\<forall>code n response. reply = Answered code n (Some response) \<and> rsp_ok response \<longrightarrow>
       calls' \<noteq> calls \<and> answers (last calls') response)"
proof -
  obtain calls1 s1 code response where h: "handleWorkerRequest (rou_render rt) (rou_daemon rt) (rou_env rt)
      (rou_serverNow rt) (rou_serverContext rt) (expectedIdentity frame) (Inr (htf_request frame)) s calls =
      (calls1, s1, code, response)"
    using prod_cases4 by blast
  show ?thesis
  proof (cases "rou_passage rt")
    case Passed
    then have "calls' = calls1" "reply = Answered code (rou_length rt response) (Some response)"
      using assms h by (simp_all add: serve_def)
    then show ?thesis using handle_contract [OF h] by simp
  next
    case (ReplyLost e)
    then have "calls' = calls1" "reply = RoundTripFailed e" using assms h by (simp_all add: serve_def)
    then show ?thesis using handle_contract [OF h] by simp
  qed (use assms in \<open>auto simp: serve_def\<close>)
qed

lemma through_contract:
  assumes "callThroughDaemon rt request (c, s, calls) = ((c', s', calls'), r)"
  shows "(\<exists>new. calls' = calls @ new \<and> length new \<le> retries_allowed (req_command request) \<and>
      (\<forall>x \<in> set new. same_payload request (dsp_request x))) \<and>
    (calls' \<noteq> calls \<longrightarrow> (\<exists>frame. htf_identity frame = httpIdentity c \<and>
       may_pass (rou_daemon rt) (expectedIdentity frame) (htf_request frame))) \<and>
    (\<forall>response. r = Inr response \<longrightarrow> calls' \<noteq> calls \<and> answers (last calls') response)"
proof -
  define transport where "transport = (\<lambda>frame. (rou_later rt, rou_laterError rt, snd (snd (serve rt frame s calls))))"
  obtain c1 sent r1 where h: "httpCall (rou_clientNow rt) (rou_clientContext rt) transport request c = (c1, sent, r1)"
    by (cases "httpCall (rou_clientNow rt) (rou_clientContext rt) transport request c") auto
  show ?thesis
  proof (cases sent)
    case None
    then have "calls' = calls" "r = r1"
      using assms h by (auto simp: callThroughDaemon_def transport_def [symmetric])
    moreover have "\<exists>e. r1 = Inl e" using h None
      by (auto simp: httpCall_def Let_def split: if_splits option.splits sum.splits prod.splits)
    ultimately show ?thesis by auto
  next
    case (Some frame)
    obtain calls1 s1 reply where sv: "serve rt frame s calls = (calls1, s1, reply)"
      by (cases "serve rt frame s calls") auto
    have eq: "calls' = calls1" "r = r1"
      using assms h Some sv by (auto simp: callThroughDaemon_def transport_def [symmetric])
    obtain ctx' prepared completion where p: "requestContext (rou_clientNow rt) (rou_clientContext rt) request = Inr (ctx', prepared)"
      "httpFrame prepared c = (c1, frame)" "r1 = httpReceive completion reply"
      using h Some sv
      by (auto simp: httpCall_def transport_def Let_def split: if_splits option.splits sum.splits prod.splits)
    have same: "same_payload request (htf_request frame)" and identity: "htf_identity frame = httpIdentity c"
      using httpFrame_payload [OF p(2)] same_payload_deadline [OF requestContext_command [OF p(1)]] same_payload_trans
      by blast+
    have command: "req_command (htf_request frame) = req_command request" by (rule same_payload_command [OF same])
    have "calls' \<noteq> calls \<and> answers (last calls') response" if "r = Inr response" for response
    proof -
      have "httpReceive completion reply = Inr response" using that eq(2) p(3) by simp
      from httpReceive_Inr [OF this] obtain code n where "reply = Answered code n (Some response)" "rsp_ok response"
        by blast
      then show ?thesis using serve_contract [OF sv] eq(1) by blast
    qed
    moreover have "\<exists>new. calls' = calls @ new \<and> length new \<le> retries_allowed (req_command request) \<and>
        (\<forall>x \<in> set new. same_payload request (dsp_request x))"
      using serve_contract [OF sv] eq(1) command same_payload_trans [OF same] by metis
    ultimately show ?thesis using serve_contract [OF sv] eq(1) identity by blast
  qed
qed

interpretation remote_caller: persistent_caller "callThroughDaemon rt" "\<lambda>p. snd (snd p)"
proof unfold_locales
  fix request and p p' :: "http_client \<times> supervisor \<times> dispatch list" and r
  assume "callThroughDaemon rt request p = (p', r)"
  then have "callThroughDaemon rt request (fst p, fst (snd p), snd (snd p)) = ((fst p', fst (snd p'), snd (snd p')), r)"
    by simp
  from through_contract [OF this]
  show "\<exists>new. snd (snd p') = snd (snd p) @ new \<and> length new \<le> retries_allowed (req_command request) \<and>
      (\<forall>d \<in> set new. same_payload request (dsp_request d))" by blast
next
  fix request and p p' :: "http_client \<times> supervisor \<times> dispatch list" and response
  assume "callThroughDaemon rt request p = (p', Inr response)"
  then have "callThroughDaemon rt request (fst p, fst (snd p), snd (snd p)) =
      ((fst p', fst (snd p'), snd (snd p')), Inr response)" by simp
  from through_contract [OF this]
  show "snd (snd p') \<noteq> snd (snd p) \<and> answers (last (snd (snd p'))) response" by blast
qed

lemma bound_identity:
  "newBoundHTTPPersistentClient lib peer workerID instanceID = Inr c \<Longrightarrow>
   httpIdentity c = Some (workerID, instanceID) \<and> workerID \<noteq> [] \<and> instanceID \<noteq> []"
  by (auto simp: newBoundHTTPPersistentClient_def newHTTPPersistentClientFor_def httpIdentity_def trim_space_Nil
      split: if_splits option.splits)

section \<open>Properties\<close>

text \<open>
  C10: A mutating call of a bound client through a daemon and its supervisor reaches a worker at
  most once, and only on the incarnation the client is bound to, whatever is lost on the way,
  whatever fails, and whichever daemon answers at the endpoint. The worker gets the payload of the call
  unchanged. If the call succeeds it has reached the worker exactly once, and the response is
  that worker's answer.
\<close>

theorem bound_call_applied_once_by_its_incarnation:
  assumes "newBoundHTTPPersistentClient lib peer workerID instanceID = Inr c0" "httpIdentity c = httpIdentity c0"
    and "req_command request \<notin> {''health'', ''state''}"
    and "callThroughDaemon rt request (c, s, calls) = ((c', s', calls'), r)"
  shows "(calls' = calls \<or> (\<exists>d. calls' = calls @ [d] \<and> same_payload request (dsp_request d) \<and>
      dmn_workerID (rou_daemon rt) = workerID \<and> dmn_instanceID (rou_daemon rt) = instanceID)) \<and>
    (\<forall>response. r = Inr response \<longrightarrow>
      (\<exists>d. calls' = calls @ [d] \<and> same_payload request (dsp_request d) \<and> answers d response))"
proof -
  note once = remote_caller.at_most_once [OF assms(4,3), simplified]
  have "dmn_workerID (rou_daemon rt) = workerID \<and> dmn_instanceID (rou_daemon rt) = instanceID" if "calls' \<noteq> calls"
    using through_contract [OF assms(4)] that bound_identity [OF assms(1)] assms(2)
    by (auto simp: may_pass_def expectedIdentity_def validateExpectedWorkerIdentity_def split: if_splits)
  moreover have "\<exists>d. calls' = calls @ [d] \<and> same_payload request (dsp_request d) \<and> answers d response"
    if "r = Inr response" for response
    using remote_caller.success_exactly_once [OF assms(4) [unfolded that] assms(3)] by simp
  ultimately show ?thesis using once by auto
qed

section \<open>A call\<close>

text \<open>A worker that answers every request, reached by the client of \<open>Client\<close>.\<close>

definition answering_env :: supervisor_env where
  "answering_env =
     \<lparr>sve_now = (\<lambda>_. 0), sve_gate = (\<lambda>_. None), sve_gatedNow = (\<lambda>_. 0), sve_gatedError = (\<lambda>_. None),
      sve_answer = (\<lambda>_ client request. Inr \<lparr>rsp_requestID = ''request-1'', rsp_ok = True, rsp_error = [],
        rsp_workerObservationSequence = 0, rsp_result = None\<rparr>),
      sve_ended = (\<lambda>_. False), sve_kill = (\<lambda>_. Killed), sve_reapTimedOut = (\<lambda>_. False),
      sve_start = (\<lambda>_. None), sve_shutdown = (\<lambda>_. None)\<rparr>"

definition demo_route :: route where
  "demo_route =
     \<lparr>rou_render = (\<lambda>_. ''refused''), rou_daemon = \<lparr>dmn_membershipEnabled = True, dmn_workerID = ''w1'', dmn_instanceID = ''i1''\<rparr>,
      rou_env = answering_env, rou_serverNow = 0, rou_serverContext = \<lparr>ctx_err = None, ctx_deadline = None\<rparr>,
      rou_length = (\<lambda>_. 80), rou_clientNow = 0, rou_clientContext = \<lparr>ctx_err = None, ctx_deadline = Some 5000000\<rparr>,
      rou_later = 1, rou_laterError = None, rou_passage = Passed\<rparr>"

definition idle_supervisor :: supervisor where
  "idle_supervisor = \<lparr>spv_client = 0, spv_closed = False, spv_restartCount = 0, spv_observationSequence = 0\<rparr>"

theorem bound_call_applied_once_by_its_incarnation_witness:
  "\<exists>p calls d response. callThroughDaemon demo_route (plainRequest ''openSequence'') (bound_peer, idle_supervisor, []) =
      ((fst p, snd p, calls), Inr response) \<and> calls = [d] \<and> answers d response"
proof -
  obtain c' s' calls' response where call:
    "callThroughDaemon demo_route (plainRequest ''openSequence'') (bound_peer, idle_supervisor, []) =
      ((c', s', calls'), Inr response)"
    by (simp add: callThroughDaemon_def demo_route_def answering_env_def idle_supervisor_def bound_peer_def httpCall_def
        plainRequest_def contextCompletionError_def requestContext_def httpFrame_def httpIdentity_def serve_def
        handleWorkerRequest_def expectedIdentity_def validateExpectedWorkerIdentity_def forwardPersistentRequest_def
        supervisorCall_def superviseCall_def dispatchTo_def recordObservation_def withCallerID_def
        writePersistentResponse_def httpReceive_def checkedResponse_def maxPersistentResponseBytes_def
        isInferenceCommand_def wireDeadlineUnixMillis_def unixMilli_def timeOfUnixMilli_def millisecond_def Let_def)
  from bound_call_applied_once_by_its_incarnation [OF bound_peer_opens refl _ call] call
  show ?thesis by (simp add: plainRequest_def) blast
qed

end
