(* ===== verification/Membership.thy ===== *)
theory Membership
  imports Registry Worker
begin

text \<open>
  The membership of a daemon in the mesh: its agent (\<open>cmd/swarmd/membership.go\<close>), which reports
  the state of its worker and keeps its lease by heartbeats, and the registry it reaches over
  HTTP (\<open>internal/registry/http.go\<close>), where a request or its answer can be lost. The agent is
  composed with the model of the registry in \<open>Registry\<close>.
\<close>

section \<open>The registry over HTTP\<close>

text \<open>The status and the code of a refusal; JSON carries the records unchanged.\<close>

record remote_error =
  rem_statusCode :: int
  rem_code :: string

definition remoteError :: "int \<Rightarrow> string \<Rightarrow> remote_error" where
  "remoteError statusCode code = \<lparr>rem_statusCode = statusCode, rem_code = code\<rparr>"

definition registryErrorReply :: "registry_error \<Rightarrow> remote_error" where
  "registryErrorReply e =
     (case e of
        DuplicateWorker _ \<Rightarrow> remoteError 409 ''duplicate_worker''
      | DuplicateInstance _ \<Rightarrow> remoteError 409 ''duplicate_instance''
      | DuplicateEndpoint _ \<Rightarrow> remoteError 409 ''duplicate_endpoint''
      | StaleInstance _ \<Rightarrow> remoteError 409 ''stale_instance''
      | LeaseExpired _ \<Rightarrow> remoteError 410 ''lease_expired''
      | WorkerNotFound _ \<Rightarrow> remoteError 404 ''worker_not_found''
      | _ \<Rightarrow> remoteError 400 ''invalid_record'')"

text \<open>
  What the network does with a request, and how the client's call ends: with the answer, or
  without one. The registry may have applied a request whose answer is lost.
\<close>

datatype delivery = Arrived | RequestDropped | AnswerDropped

datatype exchange_error = Unreachable | Refused remote_error

definition overNetwork ::
  "delivery \<Rightarrow> (registry \<Rightarrow> registry \<times> (registry_error + 'a)) \<Rightarrow> registry \<Rightarrow> registry \<times> (exchange_error + 'a)" where
  "overNetwork d operation r =
     (case d of
        RequestDropped \<Rightarrow> (r, Inl Unreachable)
      | AnswerDropped \<Rightarrow> (fst (operation r), Inl Unreachable)
      | Arrived \<Rightarrow> (fst (operation r), map_error (Refused \<circ> registryErrorReply) (snd (operation r))))"

text \<open>One exchange: the agent's clock before it, the registry's clock in it, and its delivery.\<close>

record exchange =
  exc_local :: instant
  exc_now :: instant
  exc_delivery :: delivery

section \<open>Configuration\<close>

definition defaultMembershipHeartbeatInterval :: duration where
  "defaultMembershipHeartbeatInterval = 10 * second"

definition membershipOperations :: "string list" where
  "membershipOperations =
     [''closeSequence'', ''decode'', ''detokenize'', ''forward'', ''health'', ''loadShard'',
      ''modelInfo'', ''openSequence'', ''prefill'', ''state'', ''tokenize'', ''unloadShard'']"

record membership_config =
  mbc_controlURL :: string
  mbc_workerID :: string
  mbc_instanceID :: string
  mbc_publicURL :: string
  mbc_backend :: string
  mbc_heartbeatInterval :: duration

datatype membership_config_error = WorkerIDAndURLRequired | InstanceIDUnavailable | HeartbeatIntervalInvalid

definition randomInstanceID :: "byte list option \<Rightarrow> membership_config_error + string" where
  "randomInstanceID random =
     (case random of None \<Rightarrow> Inl InstanceIDUnavailable | Some bytes \<Rightarrow> Inr (hexEncode bytes))"

text \<open>
  The environment variables, empty where they are not set; \<open>time.ParseDuration\<close> and the 16
  random bytes are parameters. \<open>None\<close> where membership is not enabled.
\<close>

definition membershipConfigFromEnvironment ::
  "(string \<Rightarrow> string) \<Rightarrow> (string \<Rightarrow> duration option) \<Rightarrow> byte list option \<Rightarrow>
   membership_config_error + membership_config option" where
  "membershipConfigFromEnvironment env parseDuration random =
     (if env ''SWARMD_CONTROL_URL'' = [] then Inr None
      else if env ''SWARMD_WORKER_ID'' = [] \<or> env ''SWARMD_PUBLIC_URL'' = [] then Inl WorkerIDAndURLRequired
      else and_then (if env ''SWARMD_INSTANCE_ID'' = [] then randomInstanceID random
          else Inr (env ''SWARMD_INSTANCE_ID'')) (\<lambda>instanceID.
        let config = \<lparr>mbc_controlURL = env ''SWARMD_CONTROL_URL'', mbc_workerID = env ''SWARMD_WORKER_ID'',
              mbc_instanceID = instanceID, mbc_publicURL = env ''SWARMD_PUBLIC_URL'',
              mbc_backend = (if env ''SWARMD_BACKEND'' = [] then ''mlx'' else env ''SWARMD_BACKEND''),
              mbc_heartbeatInterval = defaultMembershipHeartbeatInterval\<rparr> in
        if env ''SWARMD_HEARTBEAT_INTERVAL'' = [] then Inr (Some config)
        else case parseDuration (env ''SWARMD_HEARTBEAT_INTERVAL'') of
          None \<Rightarrow> Inl HeartbeatIntervalInvalid
        | Some parsed \<Rightarrow>
            if parsed < second then Inl HeartbeatIntervalInvalid
            else Inr (Some (config\<lparr>mbc_heartbeatInterval := parsed\<rparr>))))"

section \<open>The status of a worker\<close>

definition retainedShardOf :: "shard_snapshot \<Rightarrow> retained_shard" where
  "retainedShardOf s =
     \<lparr>rsh_ID = shs_shardID s, rsh_modelID = shs_modelID s,
      rsh_checkpointFingerprint = shs_checkpointFingerprint s,
      rsh_layerStart = shs_layerStart s, rsh_layerEnd = shs_layerEnd s,
      rsh_ownsInput = shs_ownsInput s, rsh_ownsOutput = shs_ownsOutput s,
      rsh_memoryBytes = word_of_int (max 0 (wrap_int
        (mem_activeBytes (shs_loadedMemory s) + mem_cacheBytes (shs_loadedMemory s)))),
      rsh_openSequenceCount = shs_openSequenceCount s\<rparr>"

definition openSequencesOf :: "int \<Rightarrow> shard_snapshot list \<Rightarrow> int" where
  "openSequencesOf = foldl (\<lambda>n s. wrap_int (n + shs_openSequenceCount s))"

definition membershipStatus :: "worker_state \<Rightarrow> int \<Rightarrow> u64 \<Rightarrow> u64 \<Rightarrow> status" where
  "membershipStatus state restartCount physicalMemoryBytes workerObservationSequence =
     (let mlxLimit = word_of_int (wst_mlxMemoryLimitBytes state);
          allocatable = (if 0 < wst_mlxMemoryLimitBytes state \<and> mlxLimit < physicalMemoryBytes
            then mlxLimit else physicalMemoryBytes);
          allocated = word_of_int (max 0 (wrap_int
            (mem_activeBytes (wst_memory state) + mem_cacheBytes (wst_memory state))));
          available = (if allocated < allocatable then allocatable - allocated else 0);
          pressure = (if mem_processPhysicalBytes (wst_memory state) = 0 then allocated
            else mem_processPhysicalBytes (wst_memory state))
      in \<lparr>st_health = healthHealthy, st_availableMemoryBytes = available, st_memoryPressureBytes = pressure,
          st_openSequenceCount = openSequencesOf 0 (wst_loadedShards state),
          st_retainedBytes = word_of_int (max 0 (wst_retainedBytes state)), st_restartCount = restartCount,
          st_recentFailureCount = 0, st_workerObservationSequence = workerObservationSequence,
          st_retainedShards = map retainedShardOf (wst_loadedShards state)\<rparr>)"

section \<open>The agent\<close>

record membership_agent =
  agt_registration :: registration
  agt_interval :: duration
  agt_statusPending :: bool
  agt_statusSampledAt :: instant
  agt_freshnessWindow :: duration

record local_capabilities =
  lcp_runtime :: string
  lcp_device :: string
  lcp_checkpointShardModelTypes :: "string list"
  lcp_physicalMemoryBytes :: u64

datatype agent_error =
    MembershipEndpointInvalid
  | PublicURLInvalid
  | CapabilitiesUnavailable
  | MembershipStateFailed state_error
  | AdmissionLimitsIncomplete

definition maxDebugTensorPayload :: int where
  "maxDebugTensorPayload = 67108864"

definition membershipTransports :: "bool \<Rightarrow> transport list" where
  "membershipTransports tls =
     map (\<lambda>protocol. \<lparr>tr_protocol = protocol, tr_tensorEncodings = [''base64-json''],
        tr_maxRequestBytes = maxDebugTensorPayload, tr_tls = tls\<rparr>) [''http-json-v1'', ''http-json-instance-v1'']"

definition isHTTP :: "parsed_url \<Rightarrow> bool" where
  "isHTTP u \<longleftrightarrow> (u_scheme u = ''http'' \<or> u_scheme u = ''https'') \<and> u_host u \<noteq> []"

text \<open>\<open>registry.NewClient\<close> only checks the endpoint.\<close>

definition membershipEndpointValid :: "url_library \<Rightarrow> string \<Rightarrow> bool" where
  "membershipEndpointValid lib endpoint =
     (case url_parse lib (trim_right_slash endpoint) of
        None \<Rightarrow> False
      | Some u \<Rightarrow> isHTTP u \<and> \<not> u_hasUser u \<and> u_rawQuery u = [] \<and> u_fragment u = [])"

text \<open>
  Parameters: \<open>runtime.GOOS\<close> and \<open>runtime.GOARCH\<close>, the decoded output of the worker's
  capabilities run, the observation of the worker's state, its restarts, and the clock.
\<close>

definition newMembershipAgent ::
  "url_library \<Rightarrow> string \<Rightarrow> string \<Rightarrow> membership_config \<Rightarrow> local_capabilities option \<Rightarrow>
   state_error + state_observation \<Rightarrow> int \<Rightarrow> instant \<Rightarrow> agent_error + membership_agent" where
  "newMembershipAgent lib goos goarch config output observed restartCount now =
     (if \<not> membershipEndpointValid lib (mbc_controlURL config) then Inl MembershipEndpointInvalid
      else case url_parse lib (trim_right_slash (mbc_publicURL config)) of
        None \<Rightarrow> Inl PublicURLInvalid
      | Some u \<Rightarrow>
      if \<not> isHTTP u then Inl PublicURLInvalid
      else case output of
        None \<Rightarrow> Inl CapabilitiesUnavailable
      | Some c \<Rightarrow>
      and_then (map_error MembershipStateFailed observed) (\<lambda>observation.
      let state = sob_state observation;
          physical = (if lcp_physicalMemoryBytes c = 0 then wst_physicalMemoryBytes state else lcp_physicalMemoryBytes c)
      in if wst_retainedByteBudget state \<le> 0 \<or> wst_maxOpenSequencesPerShard state \<le> 0
         then Inl AdmissionLimitsIncomplete
         else Inr
           \<lparr>agt_registration =
              \<lparr>rg_schemaVersion = registrySchemaVersion, rg_ID = mbc_workerID config,
               rg_instanceID = mbc_instanceID config, rg_endpoint = url_string lib u,
               rg_capabilities =
                 \<lparr>cap_backend = mbc_backend config, cap_runtime = lcp_runtime c, cap_os = goos,
                  cap_architecture = goarch, cap_device = lcp_device c, cap_physicalMemoryBytes = physical,
                  cap_adapters = lcp_checkpointShardModelTypes c, cap_operations = membershipOperations,
                  cap_checkpointFingerprints = [],
                  cap_admission = \<lparr>al_maxConcurrentRequests = 1,
                    al_maxOpenSequencesPerShard = wst_maxOpenSequencesPerShard state,
                    al_retainedByteBudget = word_of_int (wst_retainedByteBudget state)\<rparr>,
                  cap_transports = membershipTransports (u_scheme u = ''https'')\<rparr>,
               rg_status = membershipStatus state restartCount physical (sob_observationSequence observation)\<rparr>,
            agt_interval = mbc_heartbeatInterval config, agt_statusPending = True, agt_statusSampledAt = now,
            agt_freshnessWindow = 0\<rparr>))"

text \<open>Whether the pending status is still fresh; one that is not is dropped.\<close>

definition freshStatusPending :: "instant \<Rightarrow> membership_agent \<Rightarrow> bool \<times> membership_agent" where
  "freshStatusPending now a =
     (if \<not> agt_statusPending a then (False, a)
      else if agt_statusSampledAt a = 0 \<or> now < agt_statusSampledAt a \<or>
         0 < agt_freshnessWindow a \<and> agt_freshnessWindow a < time_sub now (agt_statusSampledAt a)
      then (False, a\<lparr>agt_statusPending := False\<rparr>)
      else (True, a))"

definition recordStatus :: "instant \<Rightarrow> status \<Rightarrow> membership_agent \<Rightarrow> membership_agent" where
  "recordStatus now s a =
     a\<lparr>agt_registration := (agt_registration a)\<lparr>rg_status := s\<rparr>, agt_statusPending := True,
       agt_statusSampledAt := now\<rparr>"

definition probeStatus :: "state_error + state_observation \<Rightarrow> int \<Rightarrow> status \<Rightarrow> membership_agent \<Rightarrow> status" where
  "probeStatus observed restartCount previous a =
     (case observed of
        Inl e \<Rightarrow> previous\<lparr>st_health := healthDegraded, st_availableMemoryBytes := 0, st_restartCount := restartCount,
          st_recentFailureCount := wrap_int (st_recentFailureCount previous + 1)\<rparr>
      | Inr observation \<Rightarrow>
          (membershipStatus (sob_state observation) restartCount
             (cap_physicalMemoryBytes (rg_capabilities (agt_registration a)))
             (sob_observationSequence observation))\<lparr>st_recentFailureCount := st_recentFailureCount previous\<rparr>)"

datatype lease_error =
    ExchangeFailed exchange_error
  | IntervalNotShorter duration duration
  | ReregistrationRejected lease_error
  | LeaseLost remote_error
  | HeartbeatRejected remote_error

abbreviation agt_ID :: "membership_agent \<Rightarrow> string" where
  "agt_ID a \<equiv> rg_ID (agt_registration a)"

abbreviation agt_instanceID :: "membership_agent \<Rightarrow> string" where
  "agt_instanceID a \<equiv> rg_instanceID (agt_registration a)"

definition agentRemove :: "exchange \<Rightarrow> membership_agent \<Rightarrow> registry \<Rightarrow> registry" where
  "agentRemove x a r = fst (overNetwork (exc_delivery x) (removeWorker (exc_now x) (agt_ID a) (agt_instanceID a)) r)"

text \<open>\<open>xm\<close> is the exchange of the removal, should the lease be too short.\<close>

definition agentRegister ::
  "url_library \<Rightarrow> exchange \<Rightarrow> exchange \<Rightarrow> membership_agent \<Rightarrow> registry \<Rightarrow> membership_agent \<times> registry \<times> lease_error option" where
  "agentRegister lib x xm a r =
     (let (fresh, a1) = freshStatusPending (exc_local x) a in
      case overNetwork (exc_delivery x) (register lib (exc_now x) fresh (agt_registration a1)) r of
        (r1, Inl e) \<Rightarrow> (a1, r1, Some (ExchangeFailed e))
      | (r1, Inr m) \<Rightarrow>
          let leaseTTL = time_sub (wk_expiresAt (mu_worker m)) (wk_lastSeen (mu_worker m)) in
          if leaseTTL \<le> agt_interval a1
          then (a1, agentRemove xm a1 r1, Some (IntervalNotShorter (agt_interval a1) leaseTTL))
          else (a1\<lparr>agt_freshnessWindow := leaseTTL, agt_statusPending := False\<rparr>, r1, None))"

text \<open>
  A heartbeat: \<open>x\<close> is its exchange, \<open>xr\<close> and \<open>xm\<close> those of a registration it leads to. Without
  an error the agent goes on.
\<close>

definition agentHeartbeat ::
  "url_library \<Rightarrow> exchange \<Rightarrow> exchange \<Rightarrow> exchange \<Rightarrow> membership_agent \<Rightarrow> registry \<Rightarrow>
   membership_agent \<times> registry \<times> lease_error option" where
  "agentHeartbeat lib x xr xm a r =
     (let (fresh, a1) = freshStatusPending (exc_local x) a;
          beat = \<lparr>hb_schemaVersion = registrySchemaVersion, hb_instanceID = agt_instanceID a1,
            hb_status = (if fresh then Some (rg_status (agt_registration a1)) else None)\<rparr>
      in case overNetwork (exc_delivery x) (heartbeat (exc_now x) (agt_ID a1) beat) r of
        (r1, Inr m) \<Rightarrow> (if fresh then a1\<lparr>agt_statusPending := False\<rparr> else a1, r1, None)
      | (r1, Inl Unreachable) \<Rightarrow> (a1, r1, None)
      | (r1, Inl (Refused e)) \<Rightarrow>
          if rem_code e = ''worker_not_found'' \<or> rem_code e = ''lease_expired''
          then case agentRegister lib xr xm a1 r1 of
              (a2, r2, Some (ExchangeFailed (Refused e'))) \<Rightarrow>
                (a2, r2, if rem_statusCode e' < 500
                  then Some (ReregistrationRejected (ExchangeFailed (Refused e'))) else None)
            | (a2, r2, _) \<Rightarrow> (a2, r2, None)
          else if rem_code e = ''stale_instance'' \<or> rem_code e = ''duplicate_worker'' then (a1, r1, Some (LeaseLost e))
          else if rem_statusCode e < 500 then (a1, r1, Some (HeartbeatRejected e))
          else (a1, r1, None))"

text \<open>
  The loop: results of probes, whose \<open>previous\<close> status is the one the probe started from,
  ticks until one returns an error, and the removal at the end. Other workers and readers use the
  registry in between.
\<close>

inductive agent_run :: "url_library \<Rightarrow> membership_agent \<times> registry \<Rightarrow> membership_agent \<times> registry \<Rightarrow> bool"
  for lib p where
  begun: "agent_run lib p p"
| probed: "agent_run lib p (a, r) \<Longrightarrow>
    agent_run lib p (recordStatus now (probeStatus observed restarts previous a) a, r)"
| ticked: "agent_run lib p (a, r) \<Longrightarrow> agentHeartbeat lib x xr xm a r = (a', r', err) \<Longrightarrow> agent_run lib p (a', r')"
| left: "agent_run lib p (a, r) \<Longrightarrow> agent_run lib p (a, agentRemove x a r)"
| elsewhere: "agent_run lib p (a, r) \<Longrightarrow> agent_run lib p (a, applyOp lib now op r)"

section \<open>What an agent reports is valid\<close>

definition shard_complete :: "retained_shard \<Rightarrow> bool" where
  "shard_complete s \<longleftrightarrow> rsh_ID s \<noteq> [] \<and> rsh_modelID s \<noteq> [] \<and> rsh_checkpointFingerprint s \<noteq> [] \<and>
     0 \<le> rsh_layerStart s \<and> rsh_layerStart s < rsh_layerEnd s \<and> 0 \<le> rsh_openSequenceCount s"

text \<open>The checks of the loop on an ordered list: no ID repeats the one before, so none is repeated.\<close>

lemma wrap_int_add: "wrap_int (wrap_int a + b) = wrap_int (a + b)"
proof -
  have "(a + 2 ^ 63) mod 2 ^ 64 - 2 ^ 63 + b + 2 ^ 63 = (a + 2 ^ 63) mod 2 ^ 64 + b" by simp
  then have "wrap_int (wrap_int a + b) = ((a + 2 ^ 63) mod 2 ^ 64 + b) mod 2 ^ 64 - 2 ^ 63"
    by (simp only: wrap_int_def)
  also have "\<dots> = (a + 2 ^ 63 + b) mod 2 ^ 64 - 2 ^ 63" by (simp only: mod_add_left_eq)
  finally show ?thesis by (simp add: wrap_int_def ac_simps)
qed

lemma openSequencesOf_sum:
  "openSequencesOf (wrap_int n) ss = wrap_int (n + sum_list (map shs_openSequenceCount ss))"
  unfolding openSequencesOf_def by (induction ss arbitrary: n) (simp_all add: wrap_int_add add.assoc)

lemma checkRetainedShards_Inr:
  assumes "sorted_wrt (\<lambda>l r. go_compare (rsh_ID l) (rsh_ID r) \<le> 0) ss"
  shows "checkRetainedShards k previous (wrap_int n) ss = Inr t \<longleftrightarrow>
    (\<forall>s \<in> set ss. shard_complete s) \<and> distinct (map rsh_ID ss) \<and>
    (ss \<noteq> [] \<longrightarrow> previous \<noteq> Some (rsh_ID (hd ss))) \<and>
    t = wrap_int (n + sum_list (map rsh_openSequenceCount ss))"
  using assms
proof (induction ss arbitrary: k previous n)
  case (Cons s ss)
  have later: "rsh_ID s \<notin> rsh_ID ` set ss \<longleftrightarrow> ss \<noteq> [] \<longrightarrow> rsh_ID s \<noteq> rsh_ID (hd ss)" if "distinct (map rsh_ID ss)"
  proof (cases ss)
    case (Cons s' rest)
    have "rsh_ID s = rsh_ID s'" if "r \<in> set rest" "rsh_ID s = rsh_ID r" for r
    proof -
      have "go_compare (rsh_ID s) (rsh_ID s') \<le> 0" "go_compare (rsh_ID s') (rsh_ID r) \<le> 0"
        using Cons.prems that(1) \<open>ss = s' # rest\<close> by auto
      with that(2) show ?thesis by (auto simp: go_compare_def split: if_splits)
    qed
    then show ?thesis using Cons by auto
  qed simp
  show ?case
    using Cons.IH [of "Suc k" "Some (rsh_ID s)" "n + rsh_openSequenceCount s"] Cons.prems later
    by (auto simp: wrap_int_add shard_complete_def add.assoc image_iff)
qed auto

lemma normalizeStatus_fields [simp]:
  "st_health (normalizeStatus s) = st_health s"
  "st_availableMemoryBytes (normalizeStatus s) = st_availableMemoryBytes s"
  "st_openSequenceCount (normalizeStatus s) = st_openSequenceCount s"
  "st_restartCount (normalizeStatus s) = st_restartCount s"
  "st_recentFailureCount (normalizeStatus s) = st_recentFailureCount s"
  "st_retainedShards (normalizeStatus s) = sort_by (\<lambda>l r. go_compare (rsh_ID l) (rsh_ID r)) (st_retainedShards s)"
  by (simp_all add: normalizeStatus_def)

lemma sum_list_sort_by: "sum_list (map f (sort_by c xs)) = (sum_list (map f xs) :: int)"
  by (metis mset_map mset_sort_by sum_mset_sum_list)

lemma status_shape_normalized:
  "status_shape_ok (normalizeStatus s) \<longleftrightarrow>
     st_health s \<in> {healthHealthy, healthDegraded, healthDraining} \<and>
     0 \<le> st_openSequenceCount s \<and> 0 \<le> st_restartCount s \<and> 0 \<le> st_recentFailureCount s \<and>
     (\<forall>x \<in> set (st_retainedShards s). shard_complete x) \<and> distinct (map rsh_ID (st_retainedShards s)) \<and>
     st_openSequenceCount s = wrap_int (sum_list (map rsh_openSequenceCount (st_retainedShards s)))"
  using checkRetainedShards_Inr [OF by_shard.sorted_sort_by, of 0 None 0 "st_retainedShards s" "st_openSequenceCount s"]
  by (auto simp: status_shape_ok_def sum_list_sort_by wrap_int_id)

lemma available_le: "(if a < l then l - a else 0) \<le> p" if "l \<le> p" for a l p :: u64
  using that unat_sub [of a l] by (auto simp: word_le_nat_alt word_less_nat_alt)

lemma membershipStatus_available: "st_availableMemoryBytes (membershipStatus state n physical k) \<le> physical"
  unfolding membershipStatus_def Let_def by (simp only: status.simps, rule available_le) auto

lemma membershipStatus_valid_iff:
  assumes "cap_physicalMemoryBytes c = physical"
  shows "validateStatus (normalizeStatus (membershipStatus state n physical k)) c = Inr () \<longleftrightarrow>
    0 \<le> n \<and> (\<forall>s \<in> set (wst_loadedShards state). shard_complete (retainedShardOf s)) \<and>
    distinct (map shs_shardID (wst_loadedShards state)) \<and>
    0 \<le> wrap_int (sum_list (map shs_openSequenceCount (wst_loadedShards state)))"
proof -
  let ?s = "membershipStatus state n physical k"
  have f: "st_health ?s = healthHealthy" "st_restartCount ?s = n" "st_recentFailureCount ?s = 0"
    "st_openSequenceCount ?s = wrap_int (sum_list (map shs_openSequenceCount (wst_loadedShards state)))"
    "st_retainedShards ?s = map retainedShardOf (wst_loadedShards state)"
    using openSequencesOf_sum [of 0 "wst_loadedShards state"]
    by (simp_all add: membershipStatus_def Let_def wrap_int_id)
  have m: "rsh_ID \<circ> retainedShardOf = shs_shardID"
    "rsh_openSequenceCount \<circ> retainedShardOf = shs_openSequenceCount"
    by (auto simp: retainedShardOf_def)
  show ?thesis
    using membershipStatus_available [of state n physical k] assms
    by (auto simp: validateStatus_iff status_shape_normalized f m)
qed

section \<open>The agent keeps its lease\<close>

lemma freshStatusPending_fields:
  "freshStatusPending now a = (fresh, a') \<Longrightarrow>
   agt_registration a' = agt_registration a \<and> agt_interval a' = agt_interval a \<and>
   agt_freshnessWindow a' = agt_freshnessWindow a"
  by (auto simp: freshStatusPending_def split: if_splits)

text \<open>A status goes out as fresh only inside the window after it was sampled.\<close>

lemma fresh_status_recent:
  "freshStatusPending now a = (True, a') \<Longrightarrow> 0 < agt_freshnessWindow a \<Longrightarrow> agt_freshnessWindow a < max_duration \<Longrightarrow>
   agt_statusSampledAt a \<le> now \<and> now - agt_statusSampledAt a \<le> agt_freshnessWindow a"
  using time_sub_le_iff [of "agt_statusSampledAt a" now "agt_freshnessWindow a"]
  by (auto simp: freshStatusPending_def split: if_splits)

text \<open>
  What the agent's identity meets in the registry: its registration is acceptable, nobody
  else holds its instance or endpoint, and an entry under its ID is its own.
\<close>

definition membership_possible :: "url_library \<Rightarrow> membership_agent \<Rightarrow> registry \<Rightarrow> bool" where
  "membership_possible lib a r \<longleftrightarrow>
     (let g = normalizeRegistration lib (agt_registration a) in
      validateRegistration lib g = Inr () \<and> agt_interval a < ry_ttl r \<and> ry_ttl r < max_duration \<and>
      findConflict g (ry_workers r) = None \<and>
      (\<forall>w. map_of (ry_workers r) (rg_ID g) = Some w \<longrightarrow> wk_instanceID w = rg_instanceID g \<and>
         cap_physicalMemoryBytes (wk_capabilities w) = cap_physicalMemoryBytes (rg_capabilities g)))"

definition listed_until :: "registry \<Rightarrow> membership_agent \<Rightarrow> instant \<Rightarrow> bool" where
  "listed_until r a deadline \<longleftrightarrow>
     (\<exists>w. map_of (ry_workers r) (agt_ID a) = Some w \<and> wk_instanceID w = agt_instanceID a \<and> wk_expiresAt w = deadline)"

lemma normalizeRegistration_fields [simp]:
  "rg_schemaVersion (normalizeRegistration lib g) = rg_schemaVersion g"
  "rg_status (normalizeRegistration lib g) = normalizeStatus (rg_status g)"
  "cap_physicalMemoryBytes (rg_capabilities (normalizeRegistration lib g)) = cap_physicalMemoryBytes (rg_capabilities g)"
  by (simp_all add: normalizeRegistration_def normalizeCapabilities_def)

lemma validateStatus_physical:
  "cap_physicalMemoryBytes c = cap_physicalMemoryBytes d \<Longrightarrow> validateStatus s c = validateStatus s d"
  by (simp add: validateStatus_def)

lemma registers_when_absent:
  assumes "registry_inv lib r" "membership_possible lib a r" "map_of (ry_workers r) (agt_ID a) = None"
    "exc_delivery x = Arrived"
  obtains a' r' where "agentRegister lib x xm a r = (a', r', None)" "ry_ttl r' = ry_ttl r"
    "listed_until r' a (exc_now x + ry_ttl r)" "agt_registration a' = agt_registration a"
proof -
  obtain fresh a1 where f: "freshStatusPending (exc_local x) a = (fresh, a1)" by fastforce
  note a1 = freshStatusPending_fields [OF f]
  let ?g = "normalizeRegistration lib (agt_registration a)"
  let ?r1 = "expireLocked (exc_now x) r"
  have conflict: "findConflict ?g (live_entries (exc_now x) (ry_workers r)) = None"
    using assms(2) by (auto simp: membership_possible_def findConflict_None live_entries_def Let_def)
  have gone: "map_of (live_entries (exc_now x) (ry_workers r)) (agt_ID a) = None"
    using assms(1,3) map_of_live [of "ry_workers r"] by (simp add: registry_inv_def)
  have valid: "validateRegistration lib ?g = Inr ()" using assms(2) by (simp add: membership_possible_def Let_def)
  have ttl: "agt_interval a < ry_ttl r" "ry_ttl r < max_duration" "0 < ry_ttl r"
    using assms(1,2) by (simp_all add: membership_possible_def registry_inv_def Let_def)
  define w where "w = \<lparr>wk_registration = ?g, wk_registeredAt = exc_now x, wk_lastSeen = exc_now x,
    wk_expiresAt = exc_now x + ry_ttl r, wk_statusObservedAt = (if fresh then exc_now x else 0)\<rparr>"
  define r2 where "r2 = bumpRevision (storeWorker (agt_ID a) w ?r1)"
  have reg: "register lib (exc_now x) fresh (agt_registration a1) r = (r2, Inr (mutationOf r2 w))"
    using conflict gone valid a1 by (simp add: register_def Let_def w_def r2_def)
  have lease: "time_sub (wk_expiresAt w) (wk_lastSeen w) = ry_ttl r"
    using ttl by (simp add: w_def time_sub_def max_duration_def)
  show ?thesis
  proof (rule that)
    show "agentRegister lib x xm a r =
        (a1\<lparr>agt_freshnessWindow := ry_ttl r, agt_statusPending := False\<rparr>, r2, None)"
      using f reg lease ttl(1) a1 assms(4)
      by (simp add: agentRegister_def overNetwork_def mutationOf_def)
    show "ry_ttl r2 = ry_ttl r" by (simp add: r2_def)
    show "listed_until r2 a (exc_now x + ry_ttl r)"
      by (simp add: listed_until_def r2_def w_def update_conv')
  qed (simp add: a1)
qed

lemma possible_later:
  assumes "membership_possible lib a r" "ry_ttl r' = ry_ttl r" "set (ry_workers r') \<subseteq> set (ry_workers r)"
    "map_of (ry_workers r') (agt_ID a) = None" "agt_registration a' = agt_registration a" "agt_interval a' = agt_interval a"
  shows "membership_possible lib a' r'"
  using assms by (auto simp: membership_possible_def findConflict_None Let_def)

lemma checkRetainedShards_error:
  "checkRetainedShards k previous n ss = Inl e \<Longrightarrow> e \<noteq> WorkerNotFound i \<and> e \<noteq> LeaseExpired i"
  by (induction k previous n ss rule: checkRetainedShards.induct) (auto split: if_splits)

lemma validateStatus_error: "validateStatus s c = Inl e \<Longrightarrow> e \<noteq> WorkerNotFound i \<and> e \<noteq> LeaseExpired i"
  by (auto simp: validateStatus_def result_split dest: checkRetainedShards_error split: if_splits)

lemma heartbeatUpdate_error:
  "heartbeatUpdate now i st w r = (r', Inl e) \<Longrightarrow> e \<noteq> WorkerNotFound j \<and> e \<noteq> LeaseExpired j"
  using validateStatus_error by (fastforce simp: heartbeatUpdate_def Let_def split: option.splits sum.splits if_splits)

lemma absent_after_heartbeat:
  assumes "registry_inv lib r" "heartbeat now i beat r = (r', Inl e)" "e = WorkerNotFound i \<or> e = LeaseExpired i"
  shows "registry_inv lib r' \<and> ry_ttl r' = ry_ttl r \<and> set (ry_workers r') \<subseteq> set (ry_workers r) \<and>
    map_of (ry_workers r') i = None"
proof -
  have d: "distinct (map fst (ry_workers r))" using assms(1) by (simp add: registry_inv_def)
  have inv: "registry_inv lib r'" using heartbeat_inv [OF assms(1)] assms(2) by (metis fst_conv)
  have v: "validateIdentity i (hb_schemaVersion beat) (hb_instanceID beat) = Inr ()"
    using assms(2,3)
    by (cases "validateIdentity i (hb_schemaVersion beat) (hb_instanceID beat)")
      (auto simp: heartbeat_def validateIdentity_def split: if_splits)
  consider "map_of (ry_workers r) i = None" "r' = expireLocked now r" | "r' = expireLocked now (dropWorker i r)"
  proof (cases "map_of (ry_workers r) i")
    case None
    then show thesis using that(1) assms(2) v by (simp add: heartbeat_def)
  next
    case (Some w)
    have "wk_expiresAt w \<le> now"
    proof (rule ccontr)
      assume "\<not> wk_expiresAt w \<le> now"
      then have "e = StaleInstance i \<or>
          heartbeatUpdate now i (map_option normalizeStatus (hb_status beat)) w (expireLocked now r) = (r', Inl e)"
        using assms(2) v Some by (simp add: heartbeat_def Let_def split: if_splits)
      then show False using assms(3) heartbeatUpdate_error by blast
    qed
    then show thesis using that(2) assms(2) v Some by (simp add: heartbeat_def)
  qed
  then show ?thesis
  proof cases
    case 1
    then show ?thesis using inv d map_of_live [OF d] by (auto simp: live_entries_def)
  next
    case 2
    have "i \<notin> fst ` set (ry_workers (dropWorker i r))" by (auto simp: dropWorker_def set_delete)
    then have "map_of (ry_workers r') i = None" using 2 by (force simp: live_entries_def map_of_eq_None_iff)
    moreover have "ry_ttl r' = ry_ttl r" using 2 by (simp add: dropWorker_def)
    moreover have "set (ry_workers r') \<subseteq> set (ry_workers r)"
      using 2 by (auto simp: live_entries_def dropWorker_def set_delete)
    ultimately show ?thesis using inv by simp
  qed
qed

lemma heartbeat_outcome:
  assumes "registry_inv lib r" "membership_possible lib a r"
    and beat: "hb_schemaVersion beat = registrySchemaVersion" "hb_instanceID beat = agt_instanceID a"
      "hb_status beat \<in> {None, Some (rg_status (agt_registration a))}"
    and run: "heartbeat now (agt_ID a) beat r = (r', result)"
  shows "(\<exists>m. result = Inr m \<and> listed_until r' a (now + ry_ttl r)) \<or>
    result \<in> {Inl (WorkerNotFound (agt_ID a)), Inl (LeaseExpired (agt_ID a))}"
proof -
  let ?g = "normalizeRegistration lib (agt_registration a)"
  have valid: "validateRegistration lib ?g = Inr ()" using assms(2) by (simp add: membership_possible_def Let_def)
  have v: "validateIdentity (agt_ID a) (hb_schemaVersion beat) (hb_instanceID beat) = Inr ()"
    using valid beat by (auto simp: validateRegistration_iff validateIdentity_def split: if_splits)
  show ?thesis
  proof (cases "map_of (ry_workers r) (agt_ID a)")
    case None
    then show ?thesis using run v by (auto simp: heartbeat_def)
  next
    case (Some w)
    have own: "wk_instanceID w = agt_instanceID a"
      "cap_physicalMemoryBytes (wk_capabilities w) = cap_physicalMemoryBytes (rg_capabilities (agt_registration a))"
      using assms(2) Some by (auto simp: membership_possible_def Let_def)
    have status: "validateStatus (normalizeStatus (rg_status (agt_registration a))) (wk_capabilities w) = Inr ()"
      using valid own(2) validateStatus_physical [of "wk_capabilities w" "rg_capabilities ?g"]
      by (simp add: validateRegistration_iff)
    show ?thesis
    proof (cases "wk_expiresAt w \<le> now")
      case True
      then show ?thesis using run v Some by (auto simp: heartbeat_def)
    next
      case False
      then have "heartbeat now (agt_ID a) beat r =
          heartbeatUpdate now (agt_ID a) (map_option normalizeStatus (hb_status beat)) w (expireLocked now r)"
        using v Some own(1) beat(2) by (simp add: heartbeat_def Let_def)
      then obtain m where m: "result = Inr m"
        using run beat(3) status by (auto simp: heartbeatUpdate_def Let_def)
      have "snd (heartbeat now (agt_ID a) beat r) = Inr m" using run m by simp
      from heartbeat_stores [OF assms(1) this] show ?thesis
        using run m beat(2) by (auto simp: listed_until_def)
    qed
  qed
qed

lemma agentRegister_error:
  assumes "agentRegister lib x xm a r = (a', r', e)" "exc_delivery x \<noteq> Arrived"
  shows "e = Some (ExchangeFailed Unreachable) \<and> agt_registration a' = agt_registration a"
  using assms freshStatusPending_fields
  by (cases "exc_delivery x") (auto simp: agentRegister_def overNetwork_def split: prod.splits)

text \<open>Over a whole run the agent keeps its identity, and the registry its invariant.\<close>

lemma overNetwork_registry:
  "fst (overNetwork d operation r) \<in> {r, fst (operation r)}"
  by (cases d) (auto simp: overNetwork_def)

lemma overNetwork_inv:
  "registry_inv lib r \<Longrightarrow> registry_inv lib (fst (operation r)) \<Longrightarrow> registry_inv lib (fst (overNetwork d operation r))"
  using overNetwork_registry [of d operation r] by auto

lemma agentRemove_inv: "registry_inv lib r \<Longrightarrow> registry_inv lib (agentRemove x a r)"
  unfolding agentRemove_def by (rule overNetwork_inv) (simp_all add: remove_inv)

lemma agentRegister_keeps:
  assumes "registry_inv lib r" "agentRegister lib x xm a r = (a', r', e)"
  shows "registry_inv lib r' \<and> agt_registration a' = agt_registration a"
proof -
  obtain fresh a1 where f: "freshStatusPending (exc_local x) a = (fresh, a1)" by fastforce
  obtain r1 res where n: "overNetwork (exc_delivery x) (register lib (exc_now x) fresh (agt_registration a1)) r = (r1, res)"
    by fastforce
  have "registry_inv lib r1"
    using overNetwork_inv [OF assms(1), of "register lib (exc_now x) fresh (agt_registration a1)" "exc_delivery x"]
      register_inv [OF assms(1)] n by simp
  then show ?thesis
    using assms(2) f n freshStatusPending_fields [OF f] agentRemove_inv
    by (auto simp: agentRegister_def Let_def split: sum.splits if_splits)
qed

lemma agentHeartbeat_keeps:
  assumes "registry_inv lib r" "agentHeartbeat lib x xr xm a r = (a', r', e)"
  shows "registry_inv lib r' \<and> agt_registration a' = agt_registration a"
proof -
  obtain fresh a1 where f: "freshStatusPending (exc_local x) a = (fresh, a1)" by fastforce
  note a1 = freshStatusPending_fields [OF f]
  define beat where "beat = \<lparr>hb_schemaVersion = registrySchemaVersion, hb_instanceID = agt_instanceID a1,
    hb_status = (if fresh then Some (rg_status (agt_registration a1)) else None)\<rparr>"
  obtain r1 res where n: "overNetwork (exc_delivery x) (heartbeat (exc_now x) (agt_ID a1) beat) r = (r1, res)"
    by fastforce
  have r1: "registry_inv lib r1"
    using overNetwork_inv [OF assms(1), of "heartbeat (exc_now x) (agt_ID a1) beat" "exc_delivery x"]
      heartbeat_inv [OF assms(1)] n by simp
  obtain a2 r2 e2 where g: "agentRegister lib xr xm a1 r1 = (a2, r2, e2)"
    by (cases "agentRegister lib xr xm a1 r1") auto
  have "(a' = a1 \<or> a' = a1\<lparr>agt_statusPending := False\<rparr>) \<and> r' = r1 \<or> a' = a2 \<and> r' = r2"
    using assms(2) g n [unfolded beat_def]
    by (simp add: agentHeartbeat_def f split: sum.splits exchange_error.splits if_splits option.splits lease_error.splits)
  then show ?thesis using a1 r1 agentRegister_keeps [OF r1 g] by auto
qed

lemma agent_run_keeps:
  assumes "agent_run lib (a, r) p" "registry_inv lib r"
  shows "registry_inv lib (snd p) \<and> agt_ID (fst p) = agt_ID a \<and> agt_instanceID (fst p) = agt_instanceID a \<and>
    rg_capabilities (agt_registration (fst p)) = rg_capabilities (agt_registration a)"
  using assms
proof (induction rule: agent_run.induct)
  case (ticked a r x xr xm a' r' err)
  then show ?case using agentHeartbeat_keeps by (metis fst_conv snd_conv)
qed (auto simp: recordStatus_def agentRemove_inv applyOp_inv)

section \<open>Properties\<close>

text \<open>
  C22: The status an agent derives from its worker's state is accepted by the registry exactly
  if the worker's restarts and open sequences count up to non-negative numbers and its loaded shards have
  distinct non-empty IDs, a model, a fingerprint, a non-empty range of layers and no negative
  number of sequences. Whatever memory the worker reports, overflow included, the available
  memory never exceeds the physical memory, and the total of open sequences is the one the registry recounts.
\<close>

theorem reported_status_is_valid:
  assumes "cap_physicalMemoryBytes c = physical"
  shows "validateStatus (normalizeStatus (membershipStatus state restarts physical k)) c = Inr () \<longleftrightarrow>
    0 \<le> restarts \<and> (\<forall>s \<in> set (wst_loadedShards state). shard_complete (retainedShardOf s)) \<and>
    distinct (map shs_shardID (wst_loadedShards state)) \<and>
    0 \<le> wrap_int (sum_list (map shs_openSequenceCount (wst_loadedShards state)))"
  by (rule membershipStatus_valid_iff [OF assms])

text \<open>
  C12: Membership heals. If the registration of an agent is acceptable and no other worker
  holds its instance or endpoint, a heartbeat never ends the agent, whatever requests and
  answers are lost, and one that gets through leaves the worker listed for a whole lease from then on,
  no matter whether its entry was alive, expired, or lost in a restart of the registry.
\<close>

theorem membership_heals:
  assumes "registry_inv lib r" "membership_possible lib a r" "agentHeartbeat lib x xr xm a r = (a', r', err)"
  shows "err = None \<and> agt_registration a' = agt_registration a \<and>
    (exc_delivery x = Arrived \<and> exc_delivery xr = Arrived \<longrightarrow>
      listed_until r' a (exc_now x + ry_ttl r) \<or> listed_until r' a (exc_now xr + ry_ttl r))"
proof -
  obtain fresh a1 where f: "freshStatusPending (exc_local x) a = (fresh, a1)" by fastforce
  note a1 = freshStatusPending_fields [OF f]
  define beat where "beat = \<lparr>hb_schemaVersion = registrySchemaVersion, hb_instanceID = agt_instanceID a1,
    hb_status = (if fresh then Some (rg_status (agt_registration a1)) else None)\<rparr>"
  obtain r1 result where h: "heartbeat (exc_now x) (agt_ID a) beat r = (r1, result)" by fastforce
  have outcome: "(\<exists>m. result = Inr m \<and> listed_until r1 a (exc_now x + ry_ttl r)) \<or>
      result \<in> {Inl (WorkerNotFound (agt_ID a)), Inl (LeaseExpired (agt_ID a))}"
    by (rule heartbeat_outcome [OF assms(1,2) _ _ _ h]) (auto simp: beat_def a1)
  have run: "agentHeartbeat lib x xr xm a r =
      (case overNetwork (exc_delivery x) (heartbeat (exc_now x) (agt_ID a) beat) r of
        (r1, Inr m) \<Rightarrow> (if fresh then a1\<lparr>agt_statusPending := False\<rparr> else a1, r1, None)
      | (r1, Inl Unreachable) \<Rightarrow> (a1, r1, None)
      | (r1, Inl (Refused e)) \<Rightarrow>
          if rem_code e = ''worker_not_found'' \<or> rem_code e = ''lease_expired''
          then case agentRegister lib xr xm a1 r1 of
              (a2, r2, Some (ExchangeFailed (Refused e'))) \<Rightarrow>
                (a2, r2, if rem_statusCode e' < 500
                  then Some (ReregistrationRejected (ExchangeFailed (Refused e'))) else None)
            | (a2, r2, _) \<Rightarrow> (a2, r2, None)
          else if rem_code e = ''stale_instance'' \<or> rem_code e = ''duplicate_worker'' then (a1, r1, Some (LeaseLost e))
          else if rem_statusCode e < 500 then (a1, r1, Some (HeartbeatRejected e))
          else (a1, r1, None))"
    unfolding agentHeartbeat_def f Let_def beat_def using a1 by simp
  show ?thesis
  proof (cases "exc_delivery x = Arrived")
    case False
    then show ?thesis using assms(3) a1 unfolding run by (cases "exc_delivery x") (auto simp: overNetwork_def)
  next
    case arrived: True
    show ?thesis
    proof (cases "\<exists>m. result = Inr m")
      case True
      then show ?thesis using assms(3) a1 arrived outcome h unfolding run by (auto simp: overNetwork_def)
    next
      case False
      then obtain e where e: "result = Inl e" "e = WorkerNotFound (agt_ID a) \<or> e = LeaseExpired (agt_ID a)"
        using outcome by auto
      note absent = absent_after_heartbeat [OF assms(1) h [unfolded e(1)] e(2)]
      have possible: "membership_possible lib a1 r1"
        by (rule possible_later [OF assms(2)]) (use absent a1 in auto)
      have code: "rem_code (registryErrorReply e) = ''worker_not_found'' \<or> rem_code (registryErrorReply e) = ''lease_expired''"
        using e(2) by (auto simp: registryErrorReply_def remoteError_def)
      have rest: "agentHeartbeat lib x xr xm a r =
          (case agentRegister lib xr xm a1 r1 of
              (a2, r2, Some (ExchangeFailed (Refused e'))) \<Rightarrow>
                (a2, r2, if rem_statusCode e' < 500
                  then Some (ReregistrationRejected (ExchangeFailed (Refused e'))) else None)
            | (a2, r2, _) \<Rightarrow> (a2, r2, None))"
        unfolding run using arrived h e(1) code by (simp add: overNetwork_def)
      show ?thesis
      proof (cases "exc_delivery xr = Arrived")
        case True
        obtain a2 r2 where "agentRegister lib xr xm a1 r1 = (a2, r2, None)"
          "listed_until r2 a1 (exc_now xr + ry_ttl r1)" "agt_registration a2 = agt_registration a1"
          by (rule registers_when_absent [OF _ possible _ True, of xm]) (use absent a1 in auto)
        then show ?thesis using assms(3) rest absent a1 by (auto simp: listed_until_def)
      next
        case False
        obtain a2 r2 e2 where reg: "agentRegister lib xr xm a1 r1 = (a2, r2, e2)"
          by (cases "agentRegister lib xr xm a1 r1") auto
        from agentRegister_error [OF reg False] show ?thesis using assms(3) rest reg a1 False by auto
      qed
    qed
  qed
qed

section \<open>An agent and its registry\<close>

definition demo_shard :: shard_snapshot where
  "demo_shard = \<lparr>shs_shardID = ''s'', shs_modelID = ''m'', shs_modelType = ''qwen'', shs_checkpointFingerprint = ''f'',
     shs_layerStart = 0, shs_layerEnd = 4, shs_ownsInput = True, shs_ownsOutput = False, shs_weightKeyCount = 9,
     shs_openSequenceCount = 1, shs_maxOpenSequenceCount = 2, shs_forwardCount = 3, shs_kvCacheBytes = 5,
     shs_retainedBytes = 6, shs_loadedMemory = \<lparr>mem_activeBytes = 7, mem_cacheBytes = 8, mem_peakBytes = 9,
       mem_processPhysicalBytes = 0, mem_processPeakPhysicalBytes = 0\<rparr>\<rparr>"

definition demo_worker_state :: worker_state where
  "demo_worker_state = \<lparr>wst_loadedShards = [demo_shard], wst_loadCount = 1, wst_forwardCount = 3, wst_kvCacheBytes = 5,
     wst_retainedBytes = 6, wst_retainedByteBudget = 64, wst_maxOpenSequencesPerShard = 2,
     wst_physicalMemoryBytes = 100, wst_mlxMemoryLimitBytes = 90, wst_mlxCacheLimitBytes = 10,
     wst_memory = \<lparr>mem_activeBytes = 30, mem_cacheBytes = 10, mem_peakBytes = 40,
       mem_processPhysicalBytes = 0, mem_processPeakPhysicalBytes = 0\<rparr>\<rparr>"

theorem reported_status_is_valid_witness:
  "validateStatus (normalizeStatus (membershipStatus demo_worker_state 0 100 1)) (demo_capabilities 100) = Inr ()"
proof -
  have "cap_physicalMemoryBytes (demo_capabilities 100) = 100" by (simp add: demo_capabilities_def)
  from reported_status_is_valid [OF this] show ?thesis
    by (simp add: demo_worker_state_def demo_shard_def retainedShardOf_def shard_complete_def wrap_int_def)
qed

definition demo_agent :: membership_agent where
  "demo_agent = \<lparr>agt_registration = demo_registration ''a'' 100 80, agt_interval = 1000, agt_statusPending = True,
     agt_statusSampledAt = 1500, agt_freshnessWindow = 1000000000\<rparr>"

text \<open>The heartbeat comes two seconds late, after the lease of one second has expired.\<close>

definition late_exchange :: exchange where
  "late_exchange = \<lparr>exc_local = 2000001000, exc_now = 2000002000, exc_delivery = Arrived\<rparr>"

lemma demo_agent_possible: "membership_possible demo_urls demo_agent demo_registry"
  by (simp add: membership_possible_def demo_agent_def demo_registry_eq demo_normal demo_valid max_duration_def
      demo_worker_def Let_def)

theorem membership_heals_witness:
  "\<exists>a' r'. agentHeartbeat demo_urls late_exchange late_exchange late_exchange demo_agent demo_registry = (a', r', None) \<and>
    listed_until r' demo_agent 3000002000"
proof -
  obtain a' r' err where run:
    "agentHeartbeat demo_urls late_exchange late_exchange late_exchange demo_agent demo_registry = (a', r', err)"
    by (cases "agentHeartbeat demo_urls late_exchange late_exchange late_exchange demo_agent demo_registry") auto
  have "registry_inv demo_urls demo_registry" by (rule reachable_inv [OF demo_reachable])
  from membership_heals [OF this demo_agent_possible run] run show ?thesis
    by (simp add: late_exchange_def demo_registry_eq)
qed

end
