(* ===== verification/Layout.thy ===== *)
theory Layout
  imports Decoding
begin

text \<open>
  The layout the scale proof runs (\<open>internal/scaleproof/plan.go\<close>): a division of the layers that leaves
  room for the embedding on the first and the output head on the last stage. Of
  \<open>internal/scaleproof/run.go\<close> the checks that no worker holds the whole model.
\<close>

section \<open>The layout\<close>

datatype layout_error =
    TwoTargetsRequired
  | StagesExceedLayers nat int
  | EdgeReserveNegative
  | StageEmptied nat int
  | LayoutPlanInvalid plan_error

definition layoutSizes :: "int \<Rightarrow> int \<Rightarrow> nat \<Rightarrow> int list" where
  "layoutSizes layerCount edgeReserveLayers n =
     (let virtualLayers = wrap_int (layerCount + 2 * edgeReserveLayers);
          base = go_div virtualLayers (int n);
          remainder = go_mod virtualLayers (int n);
          sizes = map (\<lambda>index. if int index < remainder then base + 1 else base) [0..<n];
          sizes = sizes[0 := wrap_int (sizes ! 0 - edgeReserveLayers)]
      in sizes[n - 1 := wrap_int (sizes ! (n - 1) - edgeReserveLayers)])"

fun checkLayoutSizes :: "nat \<Rightarrow> int list \<Rightarrow> layout_error + unit" where
  "checkLayoutSizes index [] = Inr ()"
| "checkLayoutSizes index (n # rest) =
     (if n \<le> 0 then Inl (StageEmptied index n) else checkLayoutSizes (Suc index) rest)"

fun layoutStages :: "nat \<Rightarrow> nat \<Rightarrow> int \<Rightarrow> (string \<times> int) list \<Rightarrow> execution_stage list" where
  "layoutStages n index start [] = []"
| "layoutStages n index start ((targetID, amount) # rest) =
     (let stop = wrap_int (start + amount); final = (Suc index = n)
      in \<lparr>es_name = ''stage-'' @ decimal (int index), es_targetID = targetID, es_shardID = [],
          es_layerStart = start, es_layerEnd = stop, es_ownsInput = (index = 0), es_ownsOutput = final,
          es_responseMode = (if final then stageResponseSampledToken else stageResponseTensor)\<rparr>
         # layoutStages n (Suc index) stop rest)"

definition ownershipAwarePlan ::
  "digests \<Rightarrow> execution_model \<Rightarrow> string \<Rightarrow> string list \<Rightarrow> int \<Rightarrow> layout_error + execution_plan" where
  "ownershipAwarePlan dg m inventoryRevision targetIDs edgeReserveLayers =
     (let n = length targetIDs; sizes = layoutSizes (em_layerCount m) edgeReserveLayers n in
      if n < 2 then Inl TwoTargetsRequired
      else if em_layerCount m < int n then Inl (StagesExceedLayers n (em_layerCount m))
      else if edgeReserveLayers < 0 then Inl EdgeReserveNegative
      else and_then (checkLayoutSizes 0 sizes) (\<lambda>_.
        map_error LayoutPlanInvalid
          (buildExecutionPlan dg m inventoryRevision (layoutStages n 0 0 (zip targetIDs sizes)))))"

section \<open>No whole model on a worker\<close>

definition requiredNodeCount :: nat where
  "requiredNodeCount = 5"

fun complementaryStages :: "nat \<Rightarrow> int \<Rightarrow> nat \<Rightarrow> int \<Rightarrow> execution_stage list \<Rightarrow> bool" where
  "complementaryStages n layerCount index expectedStart [] = (expectedStart = layerCount)"
| "complementaryStages n layerCount index expectedStart (stage # rest) =
     (if es_layerStart stage \<noteq> expectedStart \<or> es_layerEnd stage \<le> es_layerStart stage \<or>
         es_ownsInput stage \<noteq> (index = 0) \<or> es_ownsOutput stage \<noteq> (Suc index = n) \<or>
         es_layerStart stage = 0 \<and> es_layerEnd stage = layerCount
      then False
      else complementaryStages n layerCount (Suc index) (es_layerEnd stage) rest)"

definition complementaryPlan :: "execution_plan \<Rightarrow> bool" where
  "complementaryPlan plan \<longleftrightarrow> length (ep_stages plan) = requiredNodeCount \<and>
     complementaryStages (length (ep_stages plan)) (em_layerCount (ep_model plan)) 0 0 (ep_stages plan)"

definition loadComplementary :: "execution_plan \<Rightarrow> nat \<Rightarrow> stage_load \<Rightarrow> bool" where
  "loadComplementary plan index load =
     (let stage = ep_stages plan ! index; snapshot = sld_snapshot load in
      \<not> (sld_index load \<noteq> index \<or> sld_stage load \<noteq> stage \<or> sld_reused load \<or>
         shs_shardID snapshot \<noteq> es_shardID stage \<or> shs_modelID snapshot \<noteq> em_ID (ep_model plan) \<or>
         shs_checkpointFingerprint snapshot \<noteq> em_checkpointFingerprint (ep_model plan) \<or>
         shs_layerStart snapshot \<noteq> es_layerStart stage \<or> shs_layerEnd snapshot \<noteq> es_layerEnd stage \<or>
         shs_ownsInput snapshot \<noteq> es_ownsInput stage \<or> shs_ownsOutput snapshot \<noteq> es_ownsOutput stage \<or>
         shs_layerStart snapshot = 0 \<and> shs_layerEnd snapshot = em_layerCount (ep_model plan)))"

definition complementaryLoads :: "execution_plan \<Rightarrow> stage_load list \<Rightarrow> bool" where
  "complementaryLoads plan loads \<longleftrightarrow>
     complementaryPlan plan \<and> length loads = length (ep_stages plan) \<and>
     (\<forall>index < length loads. loadComplementary plan index (loads ! index))"

section \<open>The stages of a layout\<close>

lemma checkLayoutSizes_Inr: "checkLayoutSizes i ns = Inr u \<longleftrightarrow> (\<forall>n \<in> set ns. 0 < n)"
  by (induction i ns rule: checkLayoutSizes.induct) auto

lemma length_layout [simp]: "length (layoutStages n i start ps) = length ps"
  by (induction n i start ps rule: layoutStages.induct) (auto simp: Let_def)

lemma layout_targets [simp]: "map es_targetID (layoutStages n i start ps) = map fst ps"
  by (induction n i start ps rule: layoutStages.induct) (auto simp: Let_def)

lemma layout_names:
  "map es_name (layoutStages n i start ps) = map (\<lambda>j. ''stage-'' @ decimal (int j)) [i..<i + length ps]"
proof (induction n i start ps rule: layoutStages.induct)
  case (2 n i start t k ps)
  then show ?case by (simp add: Let_def upt_conv_Cons del: upt_Suc)
qed simp

lemma layout_roles:
  "i + length ps = n \<Longrightarrow> roles_ok n i (layoutStages n i start ps)"
  by (induction n i start ps rule: layoutStages.induct) (auto simp: Let_def stage_role_ok_def)

lemma layout_chain:
  assumes "\<forall>k \<in> set (map snd ps). 0 < k" "0 \<le> start" "start + sum_list (map snd ps) < 2 ^ 63"
  shows "chained start (layoutStages n i start ps) \<and>
    chain_end start (layoutStages n i start ps) = start + sum_list (map snd ps) \<and>
    map (\<lambda>s. es_layerEnd s - es_layerStart s) (layoutStages n i start ps) = map snd ps"
  using assms
proof (induction n i start ps rule: layoutStages.induct)
  case (2 n i start t k ps)
  have "0 \<le> sum_list (map snd ps)" by (rule sum_list_nonneg) (use 2(2) in auto)
  moreover have "0 < k" using 2(2) by simp
  ultimately have "wrap_int (start + k) = start + k" using 2(3,4) by (simp add: wrap_int_id)
  then show ?case using 2 \<open>0 < k\<close> by (simp add: Let_def algebra_simps)
qed simp

section \<open>The sizes of a layout\<close>

definition layout_size :: "int \<Rightarrow> nat \<Rightarrow> int \<Rightarrow> nat \<Rightarrow> int" where
  "layout_size v n r i =
     balanced_size (v div int n) (v mod int n) i - (if i = 0 then r else 0) - (if Suc i = n then r else 0)"

lemma balanced_size_bounds: "b \<le> balanced_size b r i \<and> balanced_size b r i \<le> b + 1"
  by (simp add: balanced_size_def)

lemma balanced_size_total:
  assumes "0 < n" "0 \<le> v"
  shows "(\<Sum>i \<in> {0..<n}. balanced_size (v div int n) (v mod int n) i) = v"
  using balanced_sum(2) [of "v mod int n" n "v div int n"] assms
  by (simp add: mult_div_mod_eq less_imp_le)

lemma layoutSizes_eq:
  assumes "2 \<le> n" "0 \<le> layers" "0 \<le> r" "layers + 2 * r < 2 ^ 63"
  shows "layoutSizes layers r n = map (layout_size (layers + 2 * r) n r) [0..<n]"
proof (rule nth_equalityI)
  define v where "v = layers + 2 * r"
  have v: "0 \<le> v" "r \<le> v" "wrap_int v = v" using assms by (auto simp: v_def wrap_int_id)
  have "v div int n \<le> v div 2" by (rule zdiv_mono2) (use assms v(1) in auto)
  then have base: "0 \<le> v div int n" "v div int n < 2 ^ 62"
    using assms v(1) by (auto simp: v_def pos_imp_zdiv_nonneg_iff)
  define b where "b = v div int n"
  define k where "k = v mod int n"
  have wrap: "wrap_int (b - r) = b - r" "wrap_int (b + 1 - r) = b + 1 - r"
    using base assms(2-4) by (auto simp: v_def b_def intro!: wrap_int_id)
  have div: "go_div v (int n) = b" "go_mod v (int n) = k"
    using v(1) assms(1) by (auto simp: b_def k_def go_div_nonneg go_mod_nonneg)
  have size: "layout_size v n r i = balanced_size b k i - (if i = 0 then r else 0) - (if Suc i = n then r else 0)" for i
    by (simp add: layout_size_def b_def k_def)
  fix i
  assume i: "i < length (layoutSizes layers r n)"
  then have n: "i < n" by (simp add: layoutSizes_def Let_def)
  then show "layoutSizes layers r n ! i = map (layout_size (layers + 2 * r) n r) [0..<n] ! i"
    using assms(1) wrap
    by (auto simp: layoutSizes_def Let_def nth_list_update v(3) div size balanced_size_def v_def [symmetric])
qed (simp add: layoutSizes_def Let_def)

lemma layout_size_sum:
  assumes "2 \<le> n" "0 \<le> layers" "0 \<le> r"
  shows "(\<Sum>i \<in> {0..<n}. layout_size (layers + 2 * r) n r i) = layers"
proof -
  have "(\<Sum>i \<in> {0..<n}. if i = 0 then r else 0) = r" using assms(1) by simp
  moreover have "(\<Sum>i \<in> {0..<n}. if Suc i = n then r else 0) = r"
  proof -
    have "(Suc i = n) = (i = n - 1)" for i using assms(1) by auto
    then show ?thesis using assms(1) by simp
  qed
  moreover have "(\<Sum>i \<in> {0..<n}. balanced_size ((layers + 2 * r) div int n) ((layers + 2 * r) mod int n) i) =
      layers + 2 * r"
    by (rule balanced_size_total) (use assms in auto)
  ultimately show ?thesis by (simp add: layout_size_def sum_subtractf)
qed

lemma le_div_iff: "0 < n \<Longrightarrow> k \<le> a div n \<longleftrightarrow> k * n \<le> (a :: int)"
proof
  assume "0 < n" "k \<le> a div n"
  then have "k * n \<le> a div n * n" by simp
  also have "\<dots> \<le> a" using \<open>0 < n\<close> by (simp flip: minus_mod_eq_div_mult)
  finally show "k * n \<le> a" .
next
  assume "0 < n" "k * n \<le> a"
  then show "k \<le> a div n" using zdiv_mono1 [of "k * n" a n] by simp
qed

lemma layout_size_positive:
  assumes "2 \<le> n" "0 \<le> layers" "0 \<le> r"
  shows "(\<forall>i < n. 0 < layout_size (layers + 2 * r) n r i) \<longleftrightarrow> (int n - 2) * r + int n \<le> layers"
proof -
  define b where "b = (layers + 2 * r) div int n"
  define k where "k = (layers + 2 * r) mod int n"
  have k: "0 \<le> k" "k < int n" using assms by (auto simp: k_def)
  have "(\<forall>i < n. 0 < layout_size (layers + 2 * r) n r i) \<longleftrightarrow> r < b"
  proof
    assume "\<forall>i < n. 0 < layout_size (layers + 2 * r) n r i"
    then have "0 < layout_size (layers + 2 * r) n r (n - 1)" using assms(1) by simp
    then show "r < b"
      using assms(1) k by (simp add: layout_size_def balanced_size_def b_def [symmetric] k_def [symmetric] split: if_splits)
  next
    assume "r < b"
    then show "\<forall>i < n. 0 < layout_size (layers + 2 * r) n r i"
      using assms balanced_size_bounds [of b k]
      by (auto simp: layout_size_def b_def [symmetric] k_def [symmetric]) (smt (verit))+
  qed
  also have "\<dots> \<longleftrightarrow> (r + 1) * int n \<le> layers + 2 * r"
    using assms(1) by (simp add: b_def le_div_iff flip: add1_zle_eq)
  also have "\<dots> \<longleftrightarrow> (int n - 2) * r + int n \<le> layers" by (auto simp: algebra_simps)
  finally show ?thesis .
qed

section \<open>The plan of a layout\<close>

lemma layout_buildable:
  assumes m: "em_ID m \<noteq> []" "em_checkpointFingerprint m \<noteq> []" "em_layerCount m < 2 ^ 63"
    and ids: "2 \<le> length ids" "distinct ids" "[] \<notin> set ids"
    and ks: "length ks = length ids" "\<forall>k \<in> set ks. 0 < k" "sum_list ks = em_layerCount m"
  shows "buildable m (layoutStages (length ids) 0 0 (zip ids ks))"
proof -
  let ?ss = "layoutStages (length ids) 0 0 (zip ids ks)"
  have chain: "chained 0 ?ss" "chain_end 0 ?ss = em_layerCount m"
    using layout_chain [of "zip ids ks" 0 "length ids" 0] ks m(3) by auto
  have "distinct (map es_name ?ss) \<and> [] \<notin> set (map es_name ?ss)"
    unfolding layout_names by (auto simp: distinct_map inj_on_def decimal_inj)
  moreover have "map es_targetID ?ss = ids" using ks(1) by simp
  moreover have "roles_ok (length ?ss) 0 ?ss" using ks(1) by (simp add: layout_roles)
  moreover have "?ss \<noteq> []" using ids(1) ks(1) by (metis length_layout list.size(3) map_fst_zip length_map not_numeral_le_zero)
  ultimately show ?thesis
    using m chain ids unfolding buildable_def identities_ok_def by (metis list.set_map)
qed

text \<open>What a stage costs if the embedding and the output head count as \<open>r\<close> layers each.\<close>

definition edge_weight :: "int \<Rightarrow> execution_stage \<Rightarrow> int" where
  "edge_weight r s = es_layerEnd s - es_layerStart s + (if es_ownsInput s then r else 0) + (if es_ownsOutput s then r else 0)"

lemma edge_weight_sum:
  "chained e ss \<Longrightarrow> roles_ok n i ss \<Longrightarrow> i + length ss = n \<Longrightarrow> ss \<noteq> [] \<Longrightarrow>
   sum_list (map (edge_weight r) ss) = chain_end e ss - e + (if i = 0 then r else 0) + r"
proof (induction n i ss arbitrary: e rule: roles_ok.induct)
  case (2 n i s rest)
  then show ?case
  proof (cases "rest = []")
    case False
    then have "Suc i \<noteq> n" using "2.prems"(3) by (cases rest) auto
    then show ?thesis using 2 False by (auto simp: edge_weight_def stage_role_ok_def)
  qed (auto simp: edge_weight_def stage_role_ok_def)
qed simp

lemma valid_edge_weight_sum:
  assumes "valid_plan dg p"
  shows "sum_list (map (edge_weight r) (ep_stages p)) = em_layerCount (ep_model p) + 2 * r"
  using edge_weight_sum [of 0 "ep_stages p" "length (ep_stages p)" 0 r] assms by (auto simp: valid_plan_def)

text \<open>No division of \<open>v\<close> into \<open>n\<close> parts has all of them below the quotient rounded up.\<close>

lemma some_part_large:
  assumes "sum_list ws = v" "ws \<noteq> []" "0 \<le> (v :: int)"
  shows "\<exists>w \<in> set ws. (if v mod int (length ws) = 0 then v div int (length ws) else v div int (length ws) + 1) \<le> w"
proof (rule ccontr)
  define top where "top = (if v mod int (length ws) = 0 then v div int (length ws) else v div int (length ws) + 1)"
  have n: "0 < int (length ws)" using assms(2) by simp
  assume "\<not> ?thesis"
  then have "w \<le> top - 1" if "w \<in> set ws" for w using that by (force simp: top_def)
  then have "sum_list (map (\<lambda>w. w) ws) \<le> sum_list (map (\<lambda>w. top - 1) ws)" by (intro sum_list_mono)
  then have le: "v \<le> int (length ws) * (top - 1)" using assms(1) by (simp add: sum_list_triv)
  obtain q k where qk: "v div int (length ws) = q" "v mod int (length ws) = k" by blast
  have v: "int (length ws) * q + k = v" unfolding qk [symmetric] by (rule mult_div_mod_eq)
  have "0 \<le> k" using n qk(2) by auto
  have top: "top = (if k = 0 then q else q + 1)" by (simp add: top_def qk)
  show False
  proof (cases "k = 0")
    case True
    with le v n show False by (simp add: top algebra_simps del: of_nat_0_less_iff)
  next
    case False
    with le v \<open>0 \<le> k\<close> show False by (simp add: top algebra_simps)
  qed
qed

lemma ownershipAwarePlan_Inr:
  assumes m: "em_ID m \<noteq> []" "em_checkpointFingerprint m \<noteq> []"
    and ids: "2 \<le> length ids" "distinct ids" "[] \<notin> set ids" "int (length ids) \<le> em_layerCount m"
    and r: "0 \<le> r" "em_layerCount m + 2 * r < 2 ^ 63"
  defines "ks \<equiv> map (layout_size (em_layerCount m + 2 * r) (length ids) r) [0..<length ids]"
  shows "ownershipAwarePlan dg m revision ids r = Inr p \<longleftrightarrow>
    (int (length ids) - 2) * r + int (length ids) \<le> em_layerCount m \<and>
    buildable m (layoutStages (length ids) 0 0 (zip ids ks)) \<and>
    p = finalizeExecutionPlan dg (draft_plan m revision (layoutStages (length ids) 0 0 (zip ids ks)))"
proof -
  have layers: "0 \<le> em_layerCount m" using ids(4) by simp
  have sizes: "layoutSizes (em_layerCount m) r (length ids) = ks"
    using layoutSizes_eq [OF ids(1) layers r] by (simp add: ks_def)
  have positive: "(\<forall>k \<in> set ks. 0 < k) \<longleftrightarrow> (int (length ids) - 2) * r + int (length ids) \<le> em_layerCount m"
    using layout_size_positive [OF ids(1) layers r(1)] by (auto simp: ks_def)
  have sum: "sum_list ks = em_layerCount m"
    using layout_size_sum [OF ids(1) layers r(1)] by (simp add: ks_def interv_sum_list_conv_sum_set_nat)
  have "buildable m (layoutStages (length ids) 0 0 (zip ids ks))" if "\<forall>k \<in> set ks. 0 < k"
    using that m ids(1-3) sum r by (intro layout_buildable) (auto simp: ks_def)
  then show ?thesis
    using ids(1,4) r(1) positive sizes
    by (auto simp: ownershipAwarePlan_def Let_def and_then_Inr checkLayoutSizes_Inr build_iff)
qed

lemma layout_owns:
  "k < length ps \<Longrightarrow> es_ownsInput (layoutStages n i start ps ! k) = (i + k = 0) \<and>
    es_ownsOutput (layoutStages n i start ps ! k) = (Suc (i + k) = n)"
proof (induction n i start ps arbitrary: k rule: layoutStages.induct)
  case (2 n i start t size ps)
  then show ?case by (cases k) (auto simp: Let_def)
qed simp

text \<open>With the reserve counted, the stages are balanced.\<close>

lemma layout_weight:
  assumes "2 \<le> length ids" "i < length ids" "em_layerCount m < 2 ^ 63" "0 \<le> em_layerCount m" "0 \<le> r"
  defines "v \<equiv> em_layerCount m + 2 * r"
  defines "ss \<equiv> layoutStages (length ids) 0 0 (zip ids (map (layout_size v (length ids) r) [0..<length ids]))"
  assumes "\<forall>i < length ids. 0 < layout_size v (length ids) r i"
  shows "edge_weight r (ss ! i) = balanced_size (v div int (length ids)) (v mod int (length ids)) i"
proof -
  have sum: "sum_list (map (layout_size v (length ids) r) [0..<length ids]) = em_layerCount m"
    unfolding v_def using layout_size_sum [OF assms(1,4,5)] by (simp add: interv_sum_list_conv_sum_set_nat)
  have "map (\<lambda>s. es_layerEnd s - es_layerStart s) ss = map (layout_size v (length ids) r) [0..<length ids]"
    unfolding ss_def using layout_chain [of "zip ids (map (layout_size v (length ids) r) [0..<length ids])" 0]
      assms(3,8) sum by auto
  then have "map (\<lambda>s. es_layerEnd s - es_layerStart s) ss ! i = layout_size v (length ids) r i"
    using assms(2) by simp
  moreover have "length ss = length ids" by (simp add: ss_def)
  ultimately show ?thesis
    using assms(1,2) layout_owns [of i "zip ids (map (layout_size v (length ids) r) [0..<length ids])" "length ids" 0 0]
    by (auto simp: edge_weight_def layout_size_def ss_def)
qed

lemma layout_exists:
  assumes "em_ID m \<noteq> []" "em_checkpointFingerprint m \<noteq> []"
    and "2 \<le> length ids" "distinct ids" "[] \<notin> set ids" "int (length ids) \<le> em_layerCount m"
    and "0 \<le> r" "em_layerCount m + 2 * r < 2 ^ 63"
  shows "(\<exists>p. ownershipAwarePlan dg m revision ids r = Inr p) \<longleftrightarrow>
    (int (length ids) - 2) * r + int (length ids) \<le> em_layerCount m"
proof -
  let ?ks = "map (layout_size (em_layerCount m + 2 * r) (length ids) r) [0..<length ids]"
  have layers: "0 \<le> em_layerCount m" using assms(6) by simp
  have "buildable m (layoutStages (length ids) 0 0 (zip ids ?ks))"
    if "(int (length ids) - 2) * r + int (length ids) \<le> em_layerCount m"
    using assms that layout_size_positive [OF assms(3) layers assms(7)] layout_size_sum [OF assms(3) layers assms(7)]
    by (intro layout_buildable) (auto simp: interv_sum_list_conv_sum_set_nat)
  then show ?thesis unfolding ownershipAwarePlan_Inr [OF assms] by blast
qed

lemma layout_valid:
  assumes "em_ID m \<noteq> []" "em_checkpointFingerprint m \<noteq> []"
    and "2 \<le> length ids" "distinct ids" "[] \<notin> set ids" "int (length ids) \<le> em_layerCount m"
    and "0 \<le> r" "em_layerCount m + 2 * r < 2 ^ 63"
    and "ownershipAwarePlan dg m revision ids r = Inr p"
  shows "valid_plan dg p \<and> map es_targetID (ep_stages p) = ids"
  using assms(9) unfolding ownershipAwarePlan_Inr [OF assms(1-8)]
  by (auto simp: valid_finalize_iff) (simp add: finalizeExecutionPlan_def comp_def)

lemma layout_smallest:
  assumes "em_ID m \<noteq> []" "em_checkpointFingerprint m \<noteq> []"
    and "2 \<le> length ids" "distinct ids" "[] \<notin> set ids" "int (length ids) \<le> em_layerCount m"
    and "0 \<le> r" "em_layerCount m + 2 * r < 2 ^ 63"
    and "ownershipAwarePlan dg m revision ids r = Inr p" "s \<in> set (ep_stages p)"
    and q: "valid_plan dg' q" "em_layerCount (ep_model q) = em_layerCount m" "length (ep_stages q) = length ids"
  shows "\<exists>t \<in> set (ep_stages q). edge_weight r s \<le> edge_weight r t"
proof -
  define n where "n = length ids"
  define v where "v = em_layerCount m + 2 * r"
  define ss where "ss = layoutStages n 0 0 (zip ids (map (layout_size v n r) [0..<n]))"
  have layers: "0 \<le> em_layerCount m" using assms(6) by simp
  have run: "(int n - 2) * r + int n \<le> em_layerCount m" "p = finalizeExecutionPlan dg (draft_plan m revision ss)"
    using assms(9) unfolding ownershipAwarePlan_Inr [OF assms(1-8)] by (auto simp: n_def v_def ss_def)
  obtain i where i: "i < n" "s = (ss ! i)\<lparr>es_shardID := executionShardID dg m (ss ! i)\<rparr>"
    using assms(10) run(2) by (auto simp: finalizeExecutionPlan_def in_set_conv_nth ss_def n_def)
  have positive: "\<forall>i < length ids. 0 < layout_size v (length ids) r i"
    unfolding v_def layout_size_positive [OF assms(3) layers assms(7)] using run(1) by (simp add: n_def)
  have "edge_weight r s = edge_weight r (ss ! i)" using i(2) by (simp add: edge_weight_def)
  also have "\<dots> = balanced_size (v div int n) (v mod int n) i"
    unfolding ss_def n_def v_def
    by (rule layout_weight [OF assms(3)]) (use i(1) assms(7,8) layers positive in \<open>auto simp: n_def v_def\<close>)
  also have "\<dots> \<le> (if v mod int n = 0 then v div int n else v div int n + 1)"
    by (simp add: balanced_size_def)
  finally have "edge_weight r s \<le> (if v mod int n = 0 then v div int n else v div int n + 1)" .
  moreover have len: "length (map (edge_weight r) (ep_stages q)) = n" using q(3) by (simp add: n_def)
  have "\<exists>w \<in> set (map (edge_weight r) (ep_stages q)). (if v mod int n = 0 then v div int n else v div int n + 1) \<le> w"
    using some_part_large [of "map (edge_weight r) (ep_stages q)" v, unfolded len] valid_edge_weight_sum [OF q(1)]
      q(2,3) assms(3,7) layers by (fastforce simp: v_def)
  ultimately show ?thesis by (metis (no_types, lifting) imageE list.set_map order.trans)
qed

section \<open>Valid plans are complementary\<close>

lemma complementaryStages_iff:
  "i + length ss = n \<Longrightarrow> roles_ok n i ss \<Longrightarrow> chained e ss \<Longrightarrow> 0 \<le> e \<Longrightarrow> 2 \<le> n \<Longrightarrow> chain_end e ss \<le> layers \<Longrightarrow>
   (i = 0) = (e = 0) \<Longrightarrow> complementaryStages n layers i e ss \<longleftrightarrow> chain_end e ss = layers"
proof (induction ss arbitrary: i e)
  case (Cons s rest)
  have less: "es_layerEnd s < layers" if "Suc i \<noteq> n"
  proof -
    have "rest \<noteq> []" using that Cons.prems(1) by auto
    then have "es_layerEnd s < chain_end (es_layerEnd s) rest"
      using chain_end_ge [of "es_layerEnd s" rest] Cons.prems(3) by (cases rest) auto
    then show ?thesis using Cons.prems(6) by simp
  qed
  have "\<not> (es_layerStart s = 0 \<and> es_layerEnd s = layers)"
    using less Cons.prems(3,5,7) by auto
  then show ?case using Cons by (auto simp: stage_role_ok_def)
qed simp

lemma valid_plan_complementary:
  assumes "valid_plan dg p" "length (ep_stages p) = requiredNodeCount"
  shows "complementaryPlan p"
  using assms complementaryStages_iff [of 0 "ep_stages p" "length (ep_stages p)" 0 "em_layerCount (ep_model p)"]
  by (auto simp: complementaryPlan_def valid_plan_def requiredNodeCount_def)

text \<open>No stage of several is the whole model.\<close>

lemma valid_plan_partial:
  assumes "valid_plan dg p" "length (ep_stages p) = requiredNodeCount" "i < length (ep_stages p)"
  shows "\<not> (es_layerStart (ep_stages p ! i) = 0 \<and> es_layerEnd (ep_stages p ! i) = em_layerCount (ep_model p))"
proof
  let ?ss = "ep_stages p"
  assume whole: "es_layerStart (?ss ! i) = 0 \<and> es_layerEnd (?ss ! i) = em_layerCount (ep_model p)"
  have c: "chained 0 ?ss" "chain_end 0 ?ss = em_layerCount (ep_model p)" using assms(1) by (auto simp: valid_plan_def)
  define j where "j = (if i = 0 then 1 else 0 :: nat)"
  have j: "j < length ?ss" "j \<noteq> i" using assms(2) by (auto simp: j_def requiredNodeCount_def)
  have "covers (?ss ! j) (es_layerStart (?ss ! j))" "0 \<le> es_layerStart (?ss ! j)"
    "es_layerStart (?ss ! j) < em_layerCount (ep_model p)"
    using chained_bounds [OF c(1) nth_mem [OF j(1)]] c(2) by (auto simp: covers_def)
  moreover from this have "covers (?ss ! i) (es_layerStart (?ss ! j))" using whole by (simp add: covers_def)
  ultimately show False using chained_covers_once [OF c(1)] c(2) j assms(3) by metis
qed

lemma session_loads:
  assumes "newPlannedSession dg sha256 w plan targets reference config calls = (calls', Inr s)"
  shows "valid_plan dg plan \<and> length (pls_stageLoads s) = length (ep_stages plan) \<and>
    (\<forall>i < length (ep_stages plan). sld_index (pls_stageLoads s ! i) = i \<and>
       sld_stage (pls_stageLoads s ! i) = ep_stages plan ! i \<and>
       snapshot_matches (stageLoadRequest (ep_model plan) (ep_stages plan ! i)) (sld_snapshot (pls_stageLoads s ! i)))"
proof -
  obtain config' l bound m l2 s' micros where run:
    "checkMetadata dg w plan targets reference calls = (l, Inr (bound, m))"
    "loadSession sha256 w plan reference config' bound m l = (l2, Inr s')" "s = s'\<lparr>pls_setupMicros := micros\<rparr>"
    using assms by (auto simp: newPlannedSession_def doing_Inr timed_Inr leaf_Inr)
  obtain l3 l4 where load: "loadExecutionTargets w plan bound l3 = (l4, Inr (pls_stageLoads s))"
    using run(2,3) by (cases reference) (auto simp: loadSession_def doing_Inr wrapping_Inr leaf_Inr Let_def)
  have stages: "map bnd_stage bound = ep_stages plan"
    using checkMetadata_Inr [OF run(1)] bindExecutionTargets_stages by blast
  then have "length bound = length (ep_stages plan)" "\<And>i. i < length bound \<Longrightarrow> bnd_stage (bound ! i) = ep_stages plan ! i"
    by (metis length_map, metis nth_map)
  then show ?thesis
    using loadExecutionTargets_Inr [OF load] newPlannedSession_Inr [OF assms] by (auto simp: validate_iff)
qed

section \<open>Properties\<close>

text \<open>
  C25: The layout that spares the first and the last stage exists exactly if every stage keeps
  a layer, which is a condition on the numbers alone. It is then a valid plan over the targets
  in their order, and the best one: with the reserve counted as layers of the first and the last
  stage, no valid plan of the model with as many stages has a smaller largest stage.
\<close>

theorem ownership_plan_minimises_largest_stage:
  assumes "em_ID m \<noteq> []" "em_checkpointFingerprint m \<noteq> []"
    and "2 \<le> length ids" "distinct ids" "[] \<notin> set ids" "int (length ids) \<le> em_layerCount m"
    and "0 \<le> r" "em_layerCount m + 2 * r < 2 ^ 63"
  shows "((\<exists>p. ownershipAwarePlan dg m revision ids r = Inr p) \<longleftrightarrow>
      (int (length ids) - 2) * r + int (length ids) \<le> em_layerCount m) \<and>
    (\<forall>p. ownershipAwarePlan dg m revision ids r = Inr p \<longrightarrow>
      validateExecutionPlan dg p = Inr () \<and> map es_targetID (ep_stages p) = ids \<and>
      (\<forall>q. validateExecutionPlan dg q = Inr () \<and> em_layerCount (ep_model q) = em_layerCount m \<and>
         length (ep_stages q) = length ids \<longrightarrow>
         (\<forall>s \<in> set (ep_stages p). \<exists>t \<in> set (ep_stages q). edge_weight r s \<le> edge_weight r t)))"
  using layout_exists [OF assms] layout_valid [OF assms] layout_smallest [OF assms] by (auto simp: validate_iff)

theorem ownership_plan_minimises_largest_stage_witness:
  "\<exists>p. ownershipAwarePlan demo_digests demo_model ''7'' [''a'', ''b'', ''c''] 1 = Inr p \<and>
     map (\<lambda>s. (es_layerStart s, es_layerEnd s)) (ep_stages p) = [(0, 2), (2, 4), (4, 5)] \<and>
     validateExecutionPlan demo_digests p = Inr ()"
proof -
  have run: "is_ok (ownershipAwarePlan demo_digests demo_model ''7'' [''a'', ''b'', ''c''] 1)"
    "case ownershipAwarePlan demo_digests demo_model ''7'' [''a'', ''b'', ''c''] 1 of
       Inr p \<Rightarrow> map (\<lambda>s. (es_layerStart s, es_layerEnd s)) (ep_stages p) = [(0, 2), (2, 4), (4, 5)] | _ \<Rightarrow> False"
    by code_simp+
  then show ?thesis
    using ownership_plan_minimises_largest_stage [of demo_model "[''a'', ''b'', ''c'']" 1 demo_digests "''7''"]
    by (auto simp: demo_model_def split: sum.splits)
qed

text \<open>
  The scale proof's check that no worker holds the whole model adds exactly two facts to
  what a prepared session on five stages has already established: that every stage was
  loaded now, and that the worker reported it under the ID of the plan.
\<close>

theorem five_stage_loads_complementary:
  assumes "newPlannedSession dg sha256 w plan targets reference config calls = (calls', Inr s)"
    and "length (ep_stages plan) = requiredNodeCount"
  shows "complementaryLoads plan (pls_stageLoads s) \<longleftrightarrow>
    (\<forall>load \<in> set (pls_stageLoads s). \<not> sld_reused load \<and> shs_shardID (sld_snapshot load) = es_shardID (sld_stage load))"
  using session_loads [OF assms(1)] valid_plan_complementary [OF _ assms(2)] valid_plan_partial [OF _ assms(2)]
  by (auto simp: complementaryLoads_def loadComplementary_def Let_def snapshot_matches_def stageLoadRequest_def
      all_set_conv_all_nth)

definition demo_five :: execution_plan where
  "demo_five =
     (case buildBalancedExecutionPlan demo_digests demo_model (map (\<lambda>i. [char_of i]) [97..<102]) stageResponseSampledToken
      of Inr p \<Rightarrow> p | Inl e \<Rightarrow> demo_plan)"

definition demo_five_targets :: "execution_target list" where
  "demo_five_targets = map (\<lambda>i. \<lparr>ext_targetID = [char_of i], ext_caller = Some i\<rparr>) [97..<102]"

lemma demo_five_run:
  "case newPlannedSession demo_digests id demo_run_world demo_five demo_five_targets None demo_config [] of
     (calls, Inr s) \<Rightarrow> complementaryLoads demo_five (pls_stageLoads s) | _ \<Rightarrow> False"
  by code_simp

lemma demo_five_length: "length (ep_stages demo_five) = requiredNodeCount"
  by code_simp

theorem five_stage_loads_complementary_witness:
  "\<exists>calls s. newPlannedSession demo_digests id demo_run_world demo_five demo_five_targets None demo_config [] = (calls, Inr s) \<and>
     length (pls_stageLoads s) = 5 \<and> (\<forall>load \<in> set (pls_stageLoads s). \<not> sld_reused load)"
proof -
  obtain calls s where run: "newPlannedSession demo_digests id demo_run_world demo_five demo_five_targets None demo_config [] =
      (calls, Inr s)" "complementaryLoads demo_five (pls_stageLoads s)"
    using demo_five_run by (auto split: prod.splits sum.splits)
  from five_stage_loads_complementary [OF run(1) demo_five_length] run show ?thesis
    by (auto simp: complementaryLoads_def complementaryPlan_def requiredNodeCount_def)
qed

end
