(* ===== verification/Benchmark.thy ===== *)
theory Benchmark
  imports Profile Generation
begin

text \<open>
  The summaries of a benchmark run (\<open>internal/benchmark/summary.go\<close>,
  \<open>internal/benchmark/planned_summary.go\<close>): distributions of the measurements of a session, per stage of a
  plan and for the earlier two-stage form. The ranks of their percentiles are computed in
  floating-point numbers.
\<close>

section \<open>Measurements\<close>

text \<open>A stage execution and a sample with all their measurements.\<close>

record measured_execution = Stages.stage_execution +
  mex_inputWireBytes :: int
  mex_requestSerializationMicros :: int
  mex_responseWireBytes :: int
  mex_responseSerializationMicros :: int

record planned_measurement =
  pms_operation :: string
  pms_position :: u64
  pms_inputTokenCount :: nat
  pms_stages :: "measured_execution list"
  pms_distributedEndToEndMicros :: int
  pms_samplingMicros :: int
  pms_tokenLatencyMicros :: int
  pms_referenceWallMicros :: int
  pms_referenceComputeMicros :: u64
  pms_referenceSamplingMicros :: int
  pms_referenceTokenLatencyMicros :: int
  pms_referenceKVCacheBytes :: int
  pms_referenceMemory :: stage_memory

section \<open>Distributions\<close>

record distribution =
  dst_count :: nat
  dst_minMicros :: int
  dst_p50Micros :: int
  dst_p95Micros :: int
  dst_maxMicros :: int
  dst_meanMicros :: float64

record byte_distribution =
  bds_count :: nat
  bds_minBytes :: int
  bds_p50Bytes :: int
  bds_p95Bytes :: int
  bds_maxBytes :: int
  bds_sumBytes :: int

datatype benchmark_error =
    NoStagesMeasured
  | FirstSampleIndex nat nat
  | StageCountChanged nat nat nat
  | StageIdentityChanged nat nat
  | RankOutOfRange

definition float_of_int :: "int \<Rightarrow> float64" where
  "float_of_int n = round64 (of_int n)"

text \<open>The constants of the source, as \<open>float64\<close> holds them.\<close>

definition p50_quantile :: float64 where
  "p50_quantile = round64 (1 / 2)"

definition p95_quantile :: float64 where
  "p95_quantile = round64 (95 / 100)"

text \<open>An index out of range is a panic of the source, here an error.\<close>

definition percentile :: "int list \<Rightarrow> float64 \<Rightarrow> benchmark_error + int" where
  "percentile sorted_values quantile =
     (case float_mul quantile (float_of_int (int (length sorted_values))) of
        Finite x \<Rightarrow>
          let index = nat (max 0 (\<lceil>x\<rceil> - 1)) in
          if index < length sorted_values then Inr (sorted_values ! index) else Inl RankOutOfRange
      | _ \<Rightarrow> Inl RankOutOfRange)"

definition int64Sum :: "int list \<Rightarrow> int" where
  "int64Sum = foldl (\<lambda>total v. wrap_int (total + v)) 0"

definition emptyMicros :: distribution where
  "emptyMicros = \<lparr>dst_count = 0, dst_minMicros = 0, dst_p50Micros = 0, dst_p95Micros = 0, dst_maxMicros = 0,
     dst_meanMicros = Finite 0\<rparr>"

definition summarizeMicros :: "int list \<Rightarrow> benchmark_error + distribution" where
  "summarizeMicros vs =
     (if vs = [] then Inr emptyMicros
      else let total = int64Sum vs; ordered = sort vs in
        and_then (percentile ordered p50_quantile) (\<lambda>p50.
        and_then (percentile ordered p95_quantile) (\<lambda>p95.
          Inr \<lparr>dst_count = length ordered, dst_minMicros = ordered ! 0, dst_p50Micros = p50, dst_p95Micros = p95,
               dst_maxMicros = ordered ! (length ordered - 1),
               dst_meanMicros = float_div (float_of_int total) (float_of_int (int (length ordered)))\<rparr>)))"

definition emptyBytes :: byte_distribution where
  "emptyBytes = \<lparr>bds_count = 0, bds_minBytes = 0, bds_p50Bytes = 0, bds_p95Bytes = 0, bds_maxBytes = 0, bds_sumBytes = 0\<rparr>"

definition summarizeBytes :: "int list \<Rightarrow> benchmark_error + byte_distribution" where
  "summarizeBytes vs =
     (if vs = [] then Inr emptyBytes
      else let total = int64Sum vs; ordered = sort vs in
        and_then (percentile ordered p50_quantile) (\<lambda>p50.
        and_then (percentile ordered p95_quantile) (\<lambda>p95.
          Inr \<lparr>bds_count = length ordered, bds_minBytes = ordered ! 0, bds_p50Bytes = p50, bds_p95Bytes = p95,
               bds_maxBytes = ordered ! (length ordered - 1), bds_sumBytes = total\<rparr>)))"

text \<open>\<open>micros\<close>, \<open>plannedMicros\<close> and their kin only collect the values; so does this.\<close>

definition throughput :: "('s \<Rightarrow> int) \<Rightarrow> 's list \<Rightarrow> float64" where
  "throughput duration samples =
     (let totalMicros = int64Sum (map duration samples) in
      if totalMicros \<le> 0 then Finite 0
      else float_div (float_mul (float_of_int (int (length samples))) (Finite 1000000)) (float_of_int totalMicros))"

definition mergeMemoryHighWater :: "stage_memory \<Rightarrow> stage_memory \<Rightarrow> stage_memory" where
  "mergeMemoryHighWater highWater v =
     \<lparr>mem_activeBytes = max (mem_activeBytes highWater) (mem_activeBytes v),
      mem_cacheBytes = max (mem_cacheBytes highWater) (mem_cacheBytes v),
      mem_peakBytes = max (mem_peakBytes highWater) (mem_peakBytes v),
      mem_processPhysicalBytes = max (mem_processPhysicalBytes highWater) (mem_processPhysicalBytes v),
      mem_processPeakPhysicalBytes = max (mem_processPeakPhysicalBytes highWater) (mem_processPeakPhysicalBytes v)\<rparr>"

section \<open>The summary of a plan\<close>

record planned_stage_summary =
  pst_index :: nat
  pst_stage :: execution_stage
  pst_sampleCount :: nat
  pst_wallMicros :: distribution
  pst_computeMicros :: distribution
  pst_overheadMicros :: distribution
  pst_requestSerializationMicros :: distribution
  pst_responseSerializationMicros :: distribution
  pst_inputTensorBytes :: byte_distribution
  pst_inputWireBytes :: byte_distribution
  pst_responseTensorBytes :: byte_distribution
  pst_responseWireBytes :: byte_distribution
  pst_maxKVCacheBytes :: int
  pst_memoryHighWater :: stage_memory

record planned_summary =
  psu_sampleCount :: nat
  psu_stageCount :: nat
  psu_stages :: "planned_stage_summary list"
  psu_distributedEndToEndMicros :: distribution
  psu_samplingMicros :: distribution
  psu_tokenLatencyMicros :: distribution
  psu_referenceWallMicros :: distribution
  psu_referenceComputeMicros :: distribution
  psu_referenceSamplingMicros :: distribution
  psu_referenceTokenLatencyMicros :: distribution
  psu_tokensPerSecond :: float64
  psu_referenceTokensPerSecond :: float64
  psu_maxReferenceKVCacheBytes :: int
  psu_referenceMemoryHighWater :: stage_memory

definition emptySummary :: planned_summary where
  "emptySummary =
     \<lparr>psu_sampleCount = 0, psu_stageCount = 0, psu_stages = [], psu_distributedEndToEndMicros = emptyMicros,
      psu_samplingMicros = emptyMicros, psu_tokenLatencyMicros = emptyMicros, psu_referenceWallMicros = emptyMicros,
      psu_referenceComputeMicros = emptyMicros, psu_referenceSamplingMicros = emptyMicros,
      psu_referenceTokenLatencyMicros = emptyMicros, psu_tokensPerSecond = Finite 0,
      psu_referenceTokensPerSecond = Finite 0, psu_maxReferenceKVCacheBytes = 0,
      psu_referenceMemoryHighWater = emptyMemory\<rparr>"

fun checkFirstSample :: "nat \<Rightarrow> measured_execution list \<Rightarrow> benchmark_error + unit" where
  "checkFirstSample index [] = Inr ()"
| "checkFirstSample index (execution # rest) =
     (if sxe_index execution \<noteq> index then Inl (FirstSampleIndex index (sxe_index execution))
      else checkFirstSample (Suc index) rest)"

fun checkStageIdentities ::
  "nat \<Rightarrow> nat \<Rightarrow> execution_stage list \<Rightarrow> measured_execution list \<Rightarrow> benchmark_error + unit" where
  "checkStageIdentities sampleIndex index (stage # stages) (execution # rest) =
     (if sxe_index execution \<noteq> index \<or> sxe_stage execution \<noteq> stage
      then Inl (StageIdentityChanged sampleIndex index)
      else checkStageIdentities sampleIndex (Suc index) stages rest)"
| "checkStageIdentities sampleIndex index stages executions = Inr ()"

fun checkSamples :: "execution_stage list \<Rightarrow> nat \<Rightarrow> planned_measurement list \<Rightarrow> benchmark_error + unit" where
  "checkSamples stages sampleIndex [] = Inr ()"
| "checkSamples stages sampleIndex (sample # rest) =
     (if length (pms_stages sample) \<noteq> length stages
      then Inl (StageCountChanged sampleIndex (length (pms_stages sample)) (length stages))
      else and_then (checkStageIdentities sampleIndex 0 stages (pms_stages sample)) (\<lambda>_.
        checkSamples stages (Suc sampleIndex) rest))"

definition stageMeasurements ::
  "nat \<Rightarrow> (measured_execution \<Rightarrow> int) \<Rightarrow> planned_measurement list \<Rightarrow> int list" where
  "stageMeasurements stageIndex f = map (\<lambda>sample. f (pms_stages sample ! stageIndex))"

definition summarizeStage ::
  "planned_measurement list \<Rightarrow> nat \<Rightarrow> execution_stage \<Rightarrow> benchmark_error + planned_stage_summary" where
  "summarizeStage samples index stage =
     (let micros = (\<lambda>f. summarizeMicros (stageMeasurements index f samples));
          bytes = (\<lambda>f. summarizeBytes (stageMeasurements index f samples)) in
      and_then (micros sxe_wallMicros) (\<lambda>wall.
      and_then (micros (\<lambda>x. sint (sxe_computeMicros x))) (\<lambda>compute.
      and_then (micros sxe_overheadMicros) (\<lambda>overhead.
      and_then (micros mex_requestSerializationMicros) (\<lambda>requestSerialization.
      and_then (micros mex_responseSerializationMicros) (\<lambda>responseSerialization.
      and_then (bytes (\<lambda>x. int (sxe_inputTensorBytes x))) (\<lambda>inputTensor.
      and_then (bytes mex_inputWireBytes) (\<lambda>inputWire.
      and_then (bytes (\<lambda>x. int (sxe_responseTensorBytes x))) (\<lambda>responseTensor.
      and_then (bytes mex_responseWireBytes) (\<lambda>responseWire.
        Inr \<lparr>pst_index = index, pst_stage = stage, pst_sampleCount = length samples, pst_wallMicros = wall,
          pst_computeMicros = compute, pst_overheadMicros = overhead,
          pst_requestSerializationMicros = requestSerialization,
          pst_responseSerializationMicros = responseSerialization, pst_inputTensorBytes = inputTensor,
          pst_inputWireBytes = inputWire, pst_responseTensorBytes = responseTensor,
          pst_responseWireBytes = responseWire,
          pst_maxKVCacheBytes = foldl (\<lambda>m sample. max m (sxe_kvCacheBytes (pms_stages sample ! index))) 0 samples,
          pst_memoryHighWater =
            foldl (\<lambda>m sample. mergeMemoryHighWater m (sxe_memory (pms_stages sample ! index))) emptyMemory samples\<rparr>))))))))))"

fun summarizeStages ::
  "planned_measurement list \<Rightarrow> nat \<Rightarrow> execution_stage list \<Rightarrow> benchmark_error + planned_stage_summary list" where
  "summarizeStages samples index [] = Inr []"
| "summarizeStages samples index (stage # rest) =
     and_then (summarizeStage samples index stage) (\<lambda>summary.
     and_then (summarizeStages samples (Suc index) rest) (\<lambda>summaries. Inr (summary # summaries)))"

definition summarizePlanned :: "planned_measurement list \<Rightarrow> benchmark_error + planned_summary" where
  "summarizePlanned samples =
     (if samples = [] then Inr emptySummary
      else if pms_stages (hd samples) = [] then Inl NoStagesMeasured
      else
        let stages = map sxe_stage (pms_stages (hd samples));
            micros = (\<lambda>f. summarizeMicros (map f samples)) in
        and_then (checkFirstSample 0 (pms_stages (hd samples))) (\<lambda>_.
        and_then (checkSamples stages 0 samples) (\<lambda>_.
        and_then (micros pms_distributedEndToEndMicros) (\<lambda>endToEnd.
        and_then (micros pms_samplingMicros) (\<lambda>sampling.
        and_then (micros pms_tokenLatencyMicros) (\<lambda>latency.
        and_then (micros pms_referenceWallMicros) (\<lambda>referenceWall.
        and_then (micros (\<lambda>m. sint (pms_referenceComputeMicros m))) (\<lambda>referenceCompute.
        and_then (micros pms_referenceSamplingMicros) (\<lambda>referenceSampling.
        and_then (micros pms_referenceTokenLatencyMicros) (\<lambda>referenceLatency.
        and_then (summarizeStages samples 0 stages) (\<lambda>summaries.
          Inr \<lparr>psu_sampleCount = length samples, psu_stageCount = length stages, psu_stages = summaries,
            psu_distributedEndToEndMicros = endToEnd, psu_samplingMicros = sampling, psu_tokenLatencyMicros = latency,
            psu_referenceWallMicros = referenceWall, psu_referenceComputeMicros = referenceCompute,
            psu_referenceSamplingMicros = referenceSampling, psu_referenceTokenLatencyMicros = referenceLatency,
            psu_tokensPerSecond = throughput pms_tokenLatencyMicros samples,
            psu_referenceTokensPerSecond = throughput pms_referenceTokenLatencyMicros samples,
            psu_maxReferenceKVCacheBytes = foldl (\<lambda>m sample. max m (pms_referenceKVCacheBytes sample)) 0 samples,
            psu_referenceMemoryHighWater =
              foldl (\<lambda>m sample. mergeMemoryHighWater m (pms_referenceMemory sample)) emptyMemory samples\<rparr>)))))))))))"

section \<open>The two-stage form\<close>

record stage_sample =
  sts_operation :: string
  sts_position :: u64
  sts_inputTokenCount :: nat
  sts_producerWallMicros :: int
  sts_producerComputeMicros :: u64
  sts_producerOverheadMicros :: int
  sts_boundarySerializationMicros :: int
  sts_consumerResponseSerializationMicros :: int
  sts_consumerRoundTripMicros :: int
  sts_consumerComputeMicros :: u64
  sts_transportOverheadMicros :: int
  sts_distributedEndToEndMicros :: int
  sts_samplingMicros :: int
  sts_tokenLatencyMicros :: int
  sts_referenceWallMicros :: int
  sts_referenceComputeMicros :: u64
  sts_referenceSamplingMicros :: int
  sts_referenceTokenLatencyMicros :: int
  sts_boundaryTensorBytes :: nat
  sts_boundaryWireBytes :: int
  sts_consumerResponseTensorBytes :: nat
  sts_consumerResponseWireBytes :: int
  sts_terminalSampling :: bool
  sts_producerKVCacheBytes :: int
  sts_consumerKVCacheBytes :: int
  sts_referenceKVCacheBytes :: int
  sts_producerMemory :: stage_memory
  sts_consumerMemory :: stage_memory
  sts_referenceMemory :: stage_memory

definition legacyMeasurement :: "planned_measurement \<Rightarrow> stage_sample" where
  "legacyMeasurement sample =
     (let legacy = \<lparr>sts_operation = pms_operation sample, sts_position = pms_position sample,
            sts_inputTokenCount = pms_inputTokenCount sample,
            sts_producerWallMicros = 0, sts_producerComputeMicros = 0, sts_producerOverheadMicros = 0,
            sts_boundarySerializationMicros = 0, sts_consumerResponseSerializationMicros = 0,
            sts_consumerRoundTripMicros = 0, sts_consumerComputeMicros = 0, sts_transportOverheadMicros = 0,
            sts_distributedEndToEndMicros = pms_distributedEndToEndMicros sample,
            sts_samplingMicros = pms_samplingMicros sample,
            sts_tokenLatencyMicros = pms_tokenLatencyMicros sample,
            sts_referenceWallMicros = pms_referenceWallMicros sample,
            sts_referenceComputeMicros = pms_referenceComputeMicros sample,
            sts_referenceSamplingMicros = pms_referenceSamplingMicros sample,
            sts_referenceTokenLatencyMicros = pms_referenceTokenLatencyMicros sample,
            sts_boundaryTensorBytes = 0, sts_boundaryWireBytes = 0, sts_consumerResponseTensorBytes = 0,
            sts_consumerResponseWireBytes = 0, sts_terminalSampling = False, sts_producerKVCacheBytes = 0,
            sts_consumerKVCacheBytes = 0, sts_referenceKVCacheBytes = pms_referenceKVCacheBytes sample,
            sts_producerMemory = emptyMemory, sts_consumerMemory = emptyMemory,
            sts_referenceMemory = pms_referenceMemory sample\<rparr>
      in case pms_stages sample of
        [producer, consumer] \<Rightarrow>
          legacy\<lparr>sts_producerWallMicros := sxe_wallMicros producer,
            sts_producerComputeMicros := sxe_computeMicros producer,
            sts_producerOverheadMicros := sxe_overheadMicros producer,
            sts_boundarySerializationMicros := mex_requestSerializationMicros consumer,
            sts_consumerResponseSerializationMicros := mex_responseSerializationMicros consumer,
            sts_consumerRoundTripMicros := sxe_wallMicros consumer,
            sts_consumerComputeMicros := sxe_computeMicros consumer,
            sts_transportOverheadMicros := sxe_overheadMicros consumer,
            sts_boundaryTensorBytes := sxe_inputTensorBytes consumer,
            sts_boundaryWireBytes := mex_inputWireBytes consumer,
            sts_consumerResponseTensorBytes := sxe_responseTensorBytes consumer,
            sts_consumerResponseWireBytes := mex_responseWireBytes consumer,
            sts_terminalSampling := sxe_terminalSampling consumer,
            sts_producerKVCacheBytes := sxe_kvCacheBytes producer,
            sts_consumerKVCacheBytes := sxe_kvCacheBytes consumer,
            sts_producerMemory := sxe_memory producer,
            sts_consumerMemory := sxe_memory consumer\<rparr>
      | _ \<Rightarrow> legacy)"

record stage_summary =
  ssu_sampleCount :: nat
  ssu_producerWallMicros :: distribution
  ssu_producerComputeMicros :: distribution
  ssu_producerOverheadMicros :: distribution
  ssu_boundarySerializationMicros :: distribution
  ssu_consumerResponseSerializationMicros :: distribution
  ssu_consumerRoundTripMicros :: distribution
  ssu_consumerComputeMicros :: distribution
  ssu_transportOverheadMicros :: distribution
  ssu_distributedEndToEndMicros :: distribution
  ssu_samplingMicros :: distribution
  ssu_tokenLatencyMicros :: distribution
  ssu_referenceWallMicros :: distribution
  ssu_referenceComputeMicros :: distribution
  ssu_referenceSamplingMicros :: distribution
  ssu_referenceTokenLatencyMicros :: distribution
  ssu_tokensPerSecond :: float64
  ssu_referenceTokensPerSecond :: float64
  ssu_boundaryTensorBytes :: byte_distribution
  ssu_boundaryWireBytes :: byte_distribution
  ssu_consumerResponseTensorBytes :: byte_distribution
  ssu_consumerResponseWireBytes :: byte_distribution
  ssu_maxProducerKVCacheBytes :: int
  ssu_maxConsumerKVCacheBytes :: int
  ssu_maxReferenceKVCacheBytes :: int
  ssu_producerPeakMemoryBytes :: int
  ssu_consumerPeakMemoryBytes :: int
  ssu_referencePeakMemoryBytes :: int

definition summarize :: "stage_sample list \<Rightarrow> benchmark_error + stage_summary" where
  "summarize samples =
     (let micros = (\<lambda>f. summarizeMicros (map f samples)); bytes = (\<lambda>f. summarizeBytes (map f samples));
          highest = (\<lambda>f. foldl (\<lambda>m sample. max m (f sample)) 0 samples) in
      and_then (micros sts_producerWallMicros) (\<lambda>producerWallMicros.
      and_then (micros (\<lambda>x. sint (sts_producerComputeMicros x))) (\<lambda>producerComputeMicros.
      and_then (micros sts_producerOverheadMicros) (\<lambda>producerOverheadMicros.
      and_then (micros sts_boundarySerializationMicros) (\<lambda>boundarySerializationMicros.
      and_then (micros sts_consumerResponseSerializationMicros) (\<lambda>consumerResponseSerializationMicros.
      and_then (micros sts_consumerRoundTripMicros) (\<lambda>consumerRoundTripMicros.
      and_then (micros (\<lambda>x. sint (sts_consumerComputeMicros x))) (\<lambda>consumerComputeMicros.
      and_then (micros sts_transportOverheadMicros) (\<lambda>transportOverheadMicros.
      and_then (micros sts_distributedEndToEndMicros) (\<lambda>distributedEndToEndMicros.
      and_then (micros sts_samplingMicros) (\<lambda>samplingMicros.
      and_then (micros sts_tokenLatencyMicros) (\<lambda>tokenLatencyMicros.
      and_then (micros sts_referenceWallMicros) (\<lambda>referenceWallMicros.
      and_then (micros (\<lambda>x. sint (sts_referenceComputeMicros x))) (\<lambda>referenceComputeMicros.
      and_then (micros sts_referenceSamplingMicros) (\<lambda>referenceSamplingMicros.
      and_then (micros sts_referenceTokenLatencyMicros) (\<lambda>referenceTokenLatencyMicros.
      and_then (bytes (\<lambda>x. int (sts_boundaryTensorBytes x))) (\<lambda>boundaryTensorBytes.
      and_then (bytes sts_boundaryWireBytes) (\<lambda>boundaryWireBytes.
      and_then (bytes (\<lambda>x. int (sts_consumerResponseTensorBytes x))) (\<lambda>consumerResponseTensorBytes.
      and_then (bytes sts_consumerResponseWireBytes) (\<lambda>consumerResponseWireBytes.
        Inr \<lparr>ssu_sampleCount = length samples,
          ssu_producerWallMicros = producerWallMicros,
          ssu_producerComputeMicros = producerComputeMicros,
          ssu_producerOverheadMicros = producerOverheadMicros,
          ssu_boundarySerializationMicros = boundarySerializationMicros,
          ssu_consumerResponseSerializationMicros = consumerResponseSerializationMicros,
          ssu_consumerRoundTripMicros = consumerRoundTripMicros,
          ssu_consumerComputeMicros = consumerComputeMicros,
          ssu_transportOverheadMicros = transportOverheadMicros,
          ssu_distributedEndToEndMicros = distributedEndToEndMicros,
          ssu_samplingMicros = samplingMicros,
          ssu_tokenLatencyMicros = tokenLatencyMicros,
          ssu_referenceWallMicros = referenceWallMicros,
          ssu_referenceComputeMicros = referenceComputeMicros,
          ssu_referenceSamplingMicros = referenceSamplingMicros,
          ssu_referenceTokenLatencyMicros = referenceTokenLatencyMicros,
          ssu_tokensPerSecond = throughput sts_tokenLatencyMicros samples,
          ssu_referenceTokensPerSecond = throughput sts_referenceTokenLatencyMicros samples,
          ssu_boundaryTensorBytes = boundaryTensorBytes,
          ssu_boundaryWireBytes = boundaryWireBytes,
          ssu_consumerResponseTensorBytes = consumerResponseTensorBytes,
          ssu_consumerResponseWireBytes = consumerResponseWireBytes,
          ssu_maxProducerKVCacheBytes = highest sts_producerKVCacheBytes,
          ssu_maxConsumerKVCacheBytes = highest sts_consumerKVCacheBytes,
          ssu_maxReferenceKVCacheBytes = highest sts_referenceKVCacheBytes,
          ssu_producerPeakMemoryBytes = highest (\<lambda>x. mem_peakBytes (sts_producerMemory x)),
          ssu_consumerPeakMemoryBytes = highest (\<lambda>x. mem_peakBytes (sts_consumerMemory x)),
          ssu_referencePeakMemoryBytes = highest (\<lambda>x. mem_peakBytes (sts_referenceMemory x))\<rparr>))))))))))))))))))))"

section \<open>Rounding a rank\<close>

text \<open>Where the last place is a fraction of one, rounding is to the nearest multiple of it.\<close>

lemma round64_scaled:
  assumes "1 / 4 \<le> x" "x < 2 ^ 52"
  obtains n :: int where "0 < n" "round64 x = Finite (of_int (round_even (x * of_int n)) / of_int n)"
    "1 / of_int n \<le> x / 2 ^ 52"
proof -
  define m where "m = magnitude x"
  have m: "2 powi m \<le> x" "x < 2 powi (m + 1)"
    using magnitude_bounds [of x] assms by (auto simp: m_def)
  have "- 3 < m"
  proof (rule ccontr)
    assume "\<not> - 3 < m"
    then have "(2 :: rat) powi (m + 1) \<le> 2 powi - 2" by (intro power_int_increasing) auto
    then show False using m(2) assms(1) by (simp add: power_int_minus power_int_numeral)
  qed
  have "m < 52"
  proof (rule ccontr)
    assume "\<not> m < 52"
    then have "(2 :: rat) powi 52 \<le> 2 powi m" by (intro power_int_increasing) auto
    then show False using m(1) assms(2) by (simp add: power_int_numeral)
  qed
  define n :: int where "n = 2 ^ nat (52 - m)"
  have n: "0 < n" by (simp add: n_def)
  have powi: "(2 :: rat) powi (m - 52) = 1 / of_int n"
  proof -
    have "(2 :: rat) powi (m - 52) = 2 powi (- (52 - m))" by simp
    also have "\<dots> = inverse (2 powi (52 - m))" by (rule power_int_minus)
    also have "\<dots> = 1 / of_int n" using \<open>m < 52\<close> by (simp add: n_def power_int_def divide_inverse)
    finally show ?thesis .
  qed
  have u: "unit_in_last_place x = 1 / of_int n"
    using \<open>- 3 < m\<close> by (simp add: unit_in_last_place_def m_def [symmetric] powi)
  define y :: rat where "y = of_int (round_even (x * of_int n)) / of_int n"
  have "(2 :: rat) powi (m - 52) = 2 powi m / 2 ^ 52"
    by (simp add: power_int_diff power_int_numeral)
  then have small: "1 / of_int n \<le> x / 2 ^ 52" using m(1) powi by (simp add: divide_right_mono)
  have "y < 2 ^ 1024"
  proof -
    have "of_int (round_even (x * of_int n)) \<le> x * of_int n + (1 / 2 :: rat)"
      using round_even_error [of "x * of_int n"] by linarith
    then have "y \<le> (x * of_int n + 1 / 2) / of_int n" using n by (simp add: y_def divide_right_mono)
    also have "\<dots> = x + 1 / 2 * (1 / of_int n)" using n by (simp add: field_simps)
    also have "\<dots> \<le> x + x"
    proof -
      have "x / 2 ^ 52 \<le> x" using assms(1) by (simp add: divide_le_eq)
      then have "1 / of_int n \<le> x" using small by (rule order.trans [rotated])
      moreover have "0 \<le> x" using assms(1) by simp
      ultimately show ?thesis by simp
    qed
    also have "\<dots> < 2 ^ 53" using assms(2) by simp
    also have "(2 :: rat) ^ 53 \<le> 2 ^ 1024" by (rule power_increasing) auto
    finally show ?thesis .
  qed
  then have "round64 x = Finite y"
    using assms(1) n by (simp add: round64_def u y_def Let_def not_le)
  then show thesis using that [OF n] small by (simp add: y_def)
qed

lemma round_even_le_int: "x \<le> of_int k \<Longrightarrow> round_even x \<le> k"
proof -
  assume "x \<le> of_int k"
  then have "\<lfloor>x\<rfloor> \<le> k" "x \<noteq> of_int k \<Longrightarrow> \<lfloor>x\<rfloor> < k" by (simp_all add: floor_le_iff floor_less_iff)
  then show ?thesis by (cases "x = of_int k") (auto simp: round_even_def Let_def)
qed

text \<open>Small integers are exact, and rounding does not cross an integer.\<close>

lemma float_of_int_exact:
  assumes "0 < k" "k < 2 ^ 52"
  shows "float_of_int k = Finite (of_int k)"
proof -
  have "(1 :: rat) \<le> of_int k" using assms(1) by simp
  then have low: "1 / 4 \<le> (of_int k :: rat)" by (rule order.trans [rotated]) simp
  have "(of_int k :: rat) < of_int (2 ^ 52)" using assms(2) by (simp only: of_int_less_iff)
  then have high: "(of_int k :: rat) < 2 ^ 52" by (simp only: of_int_power of_int_numeral)
  obtain n :: int where n: "0 < n"
    "round64 (of_int k) = Finite (of_int (round_even (of_int k * of_int n)) / of_int n)"
    using round64_scaled [OF low high] .
  then show ?thesis using round_even_of_int [of "k * n"] by (simp add: float_of_int_def)
qed

lemma round64_below_int:
  assumes "1 / 4 \<le> x" "x < 2 ^ 52" "x \<le> of_int k"
  obtains y where "round64 x = Finite y" "y \<le> of_int k" "x - x / 2 ^ 52 \<le> y"
proof -
  obtain n :: int where n: "0 < n" "round64 x = Finite (of_int (round_even (x * of_int n)) / of_int n)"
    "1 / of_int n \<le> x / 2 ^ 52"
    using round64_scaled [OF assms(1,2)] .
  define y :: rat where "y = of_int (round_even (x * of_int n)) / of_int n"
  have "x * of_int n \<le> of_int (k * n)" using assms(3) n(1) by simp
  from round_even_le_int [OF this] have "of_int (round_even (x * of_int n)) \<le> (of_int (k * n) :: rat)"
    by (simp only: of_int_le_iff)
  then have "y \<le> of_int k" using n(1) by (simp add: y_def divide_le_eq)
  moreover have "x * of_int n - 1 \<le> of_int (round_even (x * of_int n))"
    using round_even_error [of "x * of_int n"] by linarith
  then have "(x * of_int n - 1) / of_int n \<le> y" using n(1) by (simp add: y_def divide_right_mono)
  then have "x - 1 / of_int n \<le> y" using n(1) by (simp add: diff_divide_distrib)
  then have "x - x / 2 ^ 52 \<le> y" using n(3) by linarith
  ultimately show thesis using that n(2) by (simp add: y_def)
qed

lemma magnitude_unique:
  assumes "2 powi m \<le> x" "x < 2 powi (m + 1)"
  shows "magnitude x = m"
proof -
  have "0 < (2 :: rat) powi m" by simp
  then have "0 < x" using assms(1) by linarith
  note b = magnitude_bounds [OF this]
  have "(2 :: rat) powi (magnitude x) < 2 powi (m + 1)" "(2 :: rat) powi m < 2 powi (magnitude x + 1)"
    using b assms by linarith+
  moreover have mono: "i < j" if "(2 :: rat) powi i < 2 powi j" for i j :: int
    using power_int_increasing [of j i "2 :: rat"] that by (cases "i < j") (auto simp: not_less)
  ultimately have "magnitude x < m + 1" "m < magnitude x + 1" by (auto dest!: mono)
  then show ?thesis by simp
qed

lemma round64_below_one:
  assumes "1 / 2 \<le> x" "x < 1"
  shows "round64 x = Finite (of_int (round_even (x * 9007199254740992)) / 9007199254740992)"
proof -
  have "magnitude x = - 1" by (rule magnitude_unique) (use assms in \<open>simp_all add: power_int_minus\<close>)
  moreover have "max (- 1 - 52) (- 1074) = (- 53 :: int)" by simp
  ultimately have "unit_in_last_place x = 2 powi - 53" by (simp only: unit_in_last_place_def)
  also have "\<dots> = inverse (2 ^ 53)" by (simp only: power_int_minus power_int_numeral)
  finally have u: "unit_in_last_place x = 1 / 9007199254740992" by simp
  have "round_even (x * 9007199254740992) \<le> 9007199254740992" by (rule round_even_le_int) (use assms in simp)
  then have "(of_int (round_even (x * 9007199254740992)) :: rat) \<le> of_int 9007199254740992"
    by (simp only: of_int_le_iff)
  then have "(of_int (round_even (x * 9007199254740992)) :: rat) / 9007199254740992 \<le> 1" by simp
  also have "(1 :: rat) < 2 ^ 1024" by (rule one_less_power) auto
  finally show ?thesis using assms by (simp add: round64_def u not_le)
qed

lemma p50_quantile_eq: "p50_quantile = Finite (1 / 2)"
  by (simp add: p50_quantile_def round64_below_one round_even_def)

lemma p95_quantile_eq: "p95_quantile = Finite (4278419646001971 / 4503599627370496)"
proof -
  have "\<lfloor>42784196460019712 / 5 :: rat\<rfloor> = 8556839292003942" by (rule floor_unique) simp_all
  then show ?thesis by (simp add: p95_quantile_def round64_below_one round_even_def Let_def)
qed

text \<open>
  The product of a quantile just below \<open>p / 100\<close> and the number of values is rounded up to the
  exact nearest rank. The gap of a hundredth to the integer below is wider than all errors
  together for fewer than \<open>2 ^ 44\<close> values.
\<close>

lemma rounded_rank:
  fixes n p :: nat
  assumes "1 \<le> p" "p \<le> 100" "0 < n" "n < 2 ^ 44"
    and q: "1 / 4 \<le> q" "q \<le> of_nat p / 100" "of_nat p / 100 - 1 / 2 ^ 53 \<le> q"
  obtains y where "round64 (q * of_nat n) = Finite y" "\<lceil>y\<rceil> = int ((p * n + 99) div 100)"
proof -
  define k where "k = (p * n + 99) div 100"
  have k: "1 \<le> k" "p * n \<le> 100 * k" "100 * (k - 1) < p * n"
    using nearest_rank_index [OF assms(3,1,2)] unfolding k_def by blast+
  define N :: rat where "N = of_nat n"
  define P :: rat where "P = of_nat (p * n) / 100"
  define K :: rat where "K = of_nat k"
  have N: "1 \<le> N" "N \<le> 2 ^ 44"
  proof -
    show "1 \<le> N" using assms(3) by (simp add: N_def)
    have "(of_nat n :: rat) \<le> of_nat (2 ^ 44)" using assms(4) by (simp only: of_nat_le_iff less_imp_le)
    then show "N \<le> 2 ^ 44" by (simp add: N_def)
  qed
  have P: "P \<le> K" "K - 1 + 1 / 100 \<le> P" "P \<le> N"
  proof -
    have "(of_nat (p * n) :: rat) \<le> of_nat (100 * k)" using k(2) by (simp only: of_nat_le_iff)
    then show "P \<le> K" by (simp add: P_def K_def)
    have "100 * (k - 1) + 1 \<le> p * n" using k(3) by simp
    then have "(of_nat (100 * (k - 1) + 1) :: rat) \<le> of_nat (p * n)" by (simp only: of_nat_le_iff)
    then show "K - 1 + 1 / 100 \<le> P" using k(1) by (simp add: P_def K_def of_nat_diff)
    have "p * n \<le> 100 * n" using assms(2) by simp
    then have "(of_nat (p * n) :: rat) \<le> of_nat (100 * n)" by (simp only: of_nat_le_iff)
    then show "P \<le> N" by (simp add: P_def N_def)
  qed
  define x where "x = q * N"
  have x: "x \<le> P" "P - N / 2 ^ 53 \<le> x" "1 / 4 \<le> x"
  proof -
    show "x \<le> P" using mult_right_mono [OF q(2), of N] N(1) by (simp add: x_def P_def N_def)
    show "P - N / 2 ^ 53 \<le> x"
      using mult_right_mono [OF q(3), of N] N(1) by (simp add: x_def P_def N_def left_diff_distrib)
    have "1 / 4 * 1 \<le> q * N" by (rule mult_mono) (use q(1) N(1) in auto)
    then show "1 / 4 \<le> x" by (simp add: x_def)
  qed
  have "x < 2 ^ 52"
  proof -
    have "x \<le> 2 ^ 44" using x(1) P(3) N(2) by (metis order.trans)
    also have "(2 :: rat) ^ 44 < 2 ^ 52" by (rule power_strict_increasing) auto
    finally show ?thesis .
  qed
  moreover have "x \<le> of_int (int k)" using x(1) P(1) by (simp add: K_def)
  ultimately obtain y where y: "round64 x = Finite y" "y \<le> of_int (int k)" "x - x / 2 ^ 52 \<le> y"
    using round64_below_int [OF x(3)] by blast
  have "x \<le> N" using x(1) P(3) by (rule order.trans)
  then have "x / 2 ^ 52 \<le> N / 2 ^ 52" by (rule divide_right_mono) simp
  moreover have "N / 2 ^ 53 \<le> 1 / 512" "N / 2 ^ 52 \<le> 1 / 256" using N(2) by (simp_all add: divide_le_eq)
  ultimately have "K - 1 < y" using y(3) x(2) P(2) by linarith
  then have "\<lceil>y\<rceil> = int k" using y(2) by (intro ceiling_unique) (simp_all add: K_def)
  then show thesis using that y(1) by (simp add: x_def N_def k_def)
qed

lemma percentile_nearest_rank:
  assumes "1 \<le> p" "p \<le> 100" "vs \<noteq> []" "length vs < 2 ^ 44"
    and "1 / 4 \<le> q" "q \<le> of_nat p / 100" "of_nat p / 100 - 1 / 2 ^ 53 \<le> q"
  shows "percentile vs (Finite q) = Inr (vs ! ((p * length vs + 99) div 100 - 1))"
proof -
  define n where "n = length vs"
  have n: "0 < n" "n < 2 ^ 44" using assms(3,4) by (simp_all add: n_def)
  have "int n < int (2 ^ 44)" using n(2) by (simp only: of_nat_less_iff)
  then have "float_of_int (int n) = Finite (of_int (int n))"
    using n(1) by (intro float_of_int_exact) auto
  then have exact: "float_mul (Finite q) (float_of_int (int n)) = round64 (q * of_nat n)" by simp
  obtain y where y: "round64 (q * of_nat n) = Finite y" "\<lceil>y\<rceil> = int ((p * n + 99) div 100)"
    using rounded_rank [OF assms(1,2) n assms(5-7)] .
  have k: "1 \<le> (p * n + 99) div 100" "(p * n + 99) div 100 \<le> n"
    using nearest_rank_index [OF n(1) assms(1,2)] by blast+
  have index: "nat (max 0 (\<lceil>y\<rceil> - 1)) = (p * n + 99) div 100 - 1" unfolding y(2) using k(1) by linarith
  have "(p * n + 99) div 100 - 1 < n" using k by linarith
  then show ?thesis
    unfolding percentile_def n_def [symmetric] exact y(1) using index by (simp add: Let_def n_def)
qed

section \<open>Distributions never fail\<close>

definition rank :: "nat \<Rightarrow> nat \<Rightarrow> nat" where
  "rank p n = (p * n + 99) div 100 - 1"

definition exactMicros :: "int list \<Rightarrow> distribution" where
  "exactMicros vs =
     (if vs = [] then emptyMicros
      else let ordered = sort vs; n = length vs in
        \<lparr>dst_count = n, dst_minMicros = ordered ! 0, dst_p50Micros = ordered ! rank 50 n,
         dst_p95Micros = ordered ! rank 95 n, dst_maxMicros = ordered ! (n - 1),
         dst_meanMicros = float_div (float_of_int (int64Sum vs)) (float_of_int (int n))\<rparr>)"

definition exactBytes :: "int list \<Rightarrow> byte_distribution" where
  "exactBytes vs =
     (if vs = [] then emptyBytes
      else let ordered = sort vs; n = length vs in
        \<lparr>bds_count = n, bds_minBytes = ordered ! 0, bds_p50Bytes = ordered ! rank 50 n,
         bds_p95Bytes = ordered ! rank 95 n, bds_maxBytes = ordered ! (n - 1), bds_sumBytes = int64Sum vs\<rparr>)"

lemma sorted_percentiles:
  assumes "vs \<noteq> []" "length vs < 2 ^ 44"
  shows "percentile (sort vs) p50_quantile = Inr (sort vs ! rank 50 (length vs))"
    "percentile (sort vs) p95_quantile = Inr (sort vs ! rank 95 (length vs))"
proof -
  have ne: "sort vs \<noteq> []" using assms(1) by (metis length_0_conv length_sort)
  have len: "length (sort vs) < 2 ^ 44" using assms(2) by simp
  show "percentile (sort vs) p50_quantile = Inr (sort vs ! rank 50 (length vs))"
    using percentile_nearest_rank [of 50, OF _ _ ne len, of "1 / 2"] by (simp add: p50_quantile_eq rank_def)
  show "percentile (sort vs) p95_quantile = Inr (sort vs ! rank 95 (length vs))"
    using percentile_nearest_rank [of 95, OF _ _ ne len, of "4278419646001971 / 4503599627370496"]
    by (simp add: p95_quantile_eq rank_def)
qed

lemma summarizeMicros_eq [simp]: "length vs < 2 ^ 44 \<Longrightarrow> summarizeMicros vs = Inr (exactMicros vs)"
  using sorted_percentiles [of vs] by (simp add: summarizeMicros_def exactMicros_def Let_def)

lemma summarizeBytes_eq [simp]: "length vs < 2 ^ 44 \<Longrightarrow> summarizeBytes vs = Inr (exactBytes vs)"
  using sorted_percentiles [of vs] by (simp add: summarizeBytes_def exactBytes_def Let_def)

text \<open>The evidence store computes the same ranks in integers.\<close>

lemma nearestRank_rank: "nearestRank ordered p = ordered ! rank p (length ordered)"
  by (simp add: nearestRank_def rank_def Let_def)

lemma sort_map_uint: "sort (map uint ws) = map uint (sort (ws :: u64 list))"
proof (rule properties_for_sort)
  show "sorted (map uint (sort ws))"
    by (simp add: sorted_map word_le_def [symmetric])
qed simp

lemma sint_small: "(w :: u64) < 2 ^ 63 \<Longrightarrow> sint w = uint w"
proof -
  assume "w < 2 ^ 63"
  then have "uint w < 2 ^ 63" by (simp add: word_less_def)
  moreover have "- (2 ^ 63) \<le> uint w" using uint_ge_0 [of w] by (rule order.trans [rotated]) simp
  ultimately show "sint w = uint w" by (simp only: sint_uint signed_take_bit_int_eq_self) (simp add: signed_take_bit_int_eq_self)
qed

section \<open>Stable stages\<close>

definition measures_plan :: "execution_stage list \<Rightarrow> planned_measurement \<Rightarrow> bool" where
  "measures_plan stages m \<longleftrightarrow>
     map sxe_index (pms_stages m) = [0..<length stages] \<and> map sxe_stage (pms_stages m) = stages"

lemma checkFirstSample_Inr: "checkFirstSample i xs = Inr u \<longleftrightarrow> map sxe_index xs = [i..<i + length xs]"
  by (induction i xs rule: checkFirstSample.induct) (auto simp: upt_conv_Cons simp del: upt_Suc)

lemma checkStageIdentities_Inr:
  "length xs = length ss \<Longrightarrow> checkStageIdentities k i ss xs = Inr u \<longleftrightarrow>
   map sxe_index xs = [i..<i + length ss] \<and> map sxe_stage xs = ss"
  by (induction k i ss xs rule: checkStageIdentities.induct) (auto simp: upt_conv_Cons simp del: upt_Suc)

lemma checkSamples_Inr: "checkSamples ss k ms = Inr u \<longleftrightarrow> (\<forall>m \<in> set ms. measures_plan ss m)"
proof (induction ss k ms rule: checkSamples.induct)
  case (2 ss k m ms)
  have "measures_plan ss m \<Longrightarrow> length (pms_stages m) = length ss"
    unfolding measures_plan_def by (metis length_map)
  then show ?case using 2 by (auto simp: and_then_Inr checkStageIdentities_Inr measures_plan_def)
qed simp

section \<open>The summaries, exactly\<close>

definition exactStage :: "planned_measurement list \<Rightarrow> nat \<Rightarrow> execution_stage \<Rightarrow> planned_stage_summary" where
  "exactStage samples i stage =
     \<lparr>pst_index = i, pst_stage = stage, pst_sampleCount = length samples,
      pst_wallMicros = exactMicros (stageMeasurements i sxe_wallMicros samples),
      pst_computeMicros = exactMicros (stageMeasurements i (\<lambda>x. sint (sxe_computeMicros x)) samples),
      pst_overheadMicros = exactMicros (stageMeasurements i sxe_overheadMicros samples),
      pst_requestSerializationMicros = exactMicros (stageMeasurements i mex_requestSerializationMicros samples),
      pst_responseSerializationMicros = exactMicros (stageMeasurements i mex_responseSerializationMicros samples),
      pst_inputTensorBytes = exactBytes (stageMeasurements i (\<lambda>x. int (sxe_inputTensorBytes x)) samples),
      pst_inputWireBytes = exactBytes (stageMeasurements i mex_inputWireBytes samples),
      pst_responseTensorBytes = exactBytes (stageMeasurements i (\<lambda>x. int (sxe_responseTensorBytes x)) samples),
      pst_responseWireBytes = exactBytes (stageMeasurements i mex_responseWireBytes samples),
      pst_maxKVCacheBytes = Max (insert 0 ((\<lambda>m. sxe_kvCacheBytes (pms_stages m ! i)) ` set samples)),
      pst_memoryHighWater =
        foldl (\<lambda>m sample. mergeMemoryHighWater m (sxe_memory (pms_stages sample ! i))) emptyMemory samples\<rparr>"

lemma foldl_max: "foldl (\<lambda>m x. max m (f x)) z xs = Max (insert z (f ` set xs))" for z :: "'a :: linorder"
proof (induction xs arbitrary: z)
  case (Cons x xs)
  then show ?case by (cases "xs = []") (auto simp: max.assoc)
qed simp

lemma peak_of_merged:
  "mem_peakBytes (foldl (\<lambda>m x. mergeMemoryHighWater m (f x)) z xs) =
     Max (insert (mem_peakBytes z) ((\<lambda>x. mem_peakBytes (f x)) ` set xs))"
proof -
  have "mem_peakBytes (foldl (\<lambda>m x. mergeMemoryHighWater m (f x)) z xs) =
      foldl (\<lambda>m x. max m (mem_peakBytes (f x))) (mem_peakBytes z) xs"
    by (induction xs arbitrary: z) (simp_all add: mergeMemoryHighWater_def)
  then show ?thesis by (simp add: foldl_max)
qed

lemma length_stageMeasurements [simp]: "length (stageMeasurements i f samples) = length samples"
  by (simp add: stageMeasurements_def)

lemma summarizeStage_eq:
  "length samples < 2 ^ 44 \<Longrightarrow> summarizeStage samples i stage = Inr (exactStage samples i stage)"
  by (simp add: summarizeStage_def exactStage_def Let_def foldl_max)

lemma summarizeStages_eq:
  "length samples < 2 ^ 44 \<Longrightarrow>
   summarizeStages samples i stages = Inr (map (\<lambda>(j, stage). exactStage samples j stage) (zip [i..<i + length stages] stages))"
  by (induction stages arbitrary: i) (simp_all add: summarizeStage_eq upt_conv_Cons del: upt_Suc)

lemma nth_exact_stages:
  "i < length stages \<Longrightarrow>
   map (\<lambda>(j, stage). exactStage samples j stage) (zip [0..<length stages] stages) ! i = exactStage samples i (stages ! i)"
  by simp

lemma summarizePlanned_Inr:
  assumes "samples \<noteq> []" "length samples < 2 ^ 44"
  defines "stages \<equiv> map sxe_stage (pms_stages (hd samples))"
  shows "summarizePlanned samples = Inr s \<longleftrightarrow>
    stages \<noteq> [] \<and> (\<forall>m \<in> set samples. measures_plan stages m) \<and>
    s = \<lparr>psu_sampleCount = length samples, psu_stageCount = length stages,
      psu_stages = map (\<lambda>(j, stage). exactStage samples j stage) (zip [0..<length stages] stages),
      psu_distributedEndToEndMicros = exactMicros (map pms_distributedEndToEndMicros samples),
      psu_samplingMicros = exactMicros (map pms_samplingMicros samples),
      psu_tokenLatencyMicros = exactMicros (map pms_tokenLatencyMicros samples),
      psu_referenceWallMicros = exactMicros (map pms_referenceWallMicros samples),
      psu_referenceComputeMicros = exactMicros (map (\<lambda>m. sint (pms_referenceComputeMicros m)) samples),
      psu_referenceSamplingMicros = exactMicros (map pms_referenceSamplingMicros samples),
      psu_referenceTokenLatencyMicros = exactMicros (map pms_referenceTokenLatencyMicros samples),
      psu_tokensPerSecond = throughput pms_tokenLatencyMicros samples,
      psu_referenceTokensPerSecond = throughput pms_referenceTokenLatencyMicros samples,
      psu_maxReferenceKVCacheBytes = foldl (\<lambda>m sample. max m (pms_referenceKVCacheBytes sample)) 0 samples,
      psu_referenceMemoryHighWater =
        foldl (\<lambda>m sample. mergeMemoryHighWater m (pms_referenceMemory sample)) emptyMemory samples\<rparr>"
proof -
  have first: "measures_plan stages (hd samples) \<longleftrightarrow>
      checkFirstSample 0 (pms_stages (hd samples)) = Inr ()"
    by (simp add: measures_plan_def checkFirstSample_Inr stages_def)
  have hd: "hd samples \<in> set samples" using assms(1) by simp
  have ne: "pms_stages (hd samples) = [] \<longleftrightarrow> stages = []" by (simp add: stages_def)
  show ?thesis
  proof (cases "\<forall>m \<in> set samples. measures_plan stages m")
    case True
    then show ?thesis
      using assms(1,2) hd first ne checkSamples_Inr [of stages 0 samples "()"]
      unfolding summarizePlanned_def Let_def stages_def [symmetric]
      by (simp add: summarizeStages_eq) (auto simp: stages_def)
  next
    case False
    then obtain e where "checkSamples stages 0 samples = Inl e"
      using checkSamples_Inr [of stages 0 samples] by (cases "checkSamples stages 0 samples") auto
    then show ?thesis
      using False assms(1) by (auto simp: summarizePlanned_def Let_def stages_def [symmetric] and_then_Inr)
  qed
qed

text \<open>Two stages in either form.\<close>

lemma two_stages:
  assumes "measures_plan [a, b] m"
  obtains x y where "pms_stages m = [x, y]"
  using assms by (auto simp: measures_plan_def map_eq_Cons_conv)

lemma legacyMeasurement_common [simp]:
  "sts_distributedEndToEndMicros (legacyMeasurement m) = pms_distributedEndToEndMicros m"
  "sts_samplingMicros (legacyMeasurement m) = pms_samplingMicros m"
  "sts_tokenLatencyMicros (legacyMeasurement m) = pms_tokenLatencyMicros m"
  "sts_referenceWallMicros (legacyMeasurement m) = pms_referenceWallMicros m"
  "sts_referenceComputeMicros (legacyMeasurement m) = pms_referenceComputeMicros m"
  "sts_referenceSamplingMicros (legacyMeasurement m) = pms_referenceSamplingMicros m"
  "sts_referenceTokenLatencyMicros (legacyMeasurement m) = pms_referenceTokenLatencyMicros m"
  "sts_referenceKVCacheBytes (legacyMeasurement m) = pms_referenceKVCacheBytes m"
  "sts_referenceMemory (legacyMeasurement m) = pms_referenceMemory m"
  by (simp_all add: legacyMeasurement_def Let_def split: list.splits)

lemma legacyMeasurement_stages:
  assumes "measures_plan [a, b] m"
  shows "sts_producerWallMicros (legacyMeasurement m) = sxe_wallMicros (pms_stages m ! 0)"
    "sts_producerComputeMicros (legacyMeasurement m) = sxe_computeMicros (pms_stages m ! 0)"
    "sts_producerOverheadMicros (legacyMeasurement m) = sxe_overheadMicros (pms_stages m ! 0)"
    "sts_boundarySerializationMicros (legacyMeasurement m) = mex_requestSerializationMicros (pms_stages m ! 1)"
    "sts_consumerResponseSerializationMicros (legacyMeasurement m) = mex_responseSerializationMicros (pms_stages m ! 1)"
    "sts_consumerRoundTripMicros (legacyMeasurement m) = sxe_wallMicros (pms_stages m ! 1)"
    "sts_consumerComputeMicros (legacyMeasurement m) = sxe_computeMicros (pms_stages m ! 1)"
    "sts_transportOverheadMicros (legacyMeasurement m) = sxe_overheadMicros (pms_stages m ! 1)"
    "sts_boundaryTensorBytes (legacyMeasurement m) = sxe_inputTensorBytes (pms_stages m ! 1)"
    "sts_boundaryWireBytes (legacyMeasurement m) = mex_inputWireBytes (pms_stages m ! 1)"
    "sts_consumerResponseTensorBytes (legacyMeasurement m) = sxe_responseTensorBytes (pms_stages m ! 1)"
    "sts_consumerResponseWireBytes (legacyMeasurement m) = mex_responseWireBytes (pms_stages m ! 1)"
    "sts_producerKVCacheBytes (legacyMeasurement m) = sxe_kvCacheBytes (pms_stages m ! 0)"
    "sts_consumerKVCacheBytes (legacyMeasurement m) = sxe_kvCacheBytes (pms_stages m ! 1)"
    "sts_producerMemory (legacyMeasurement m) = sxe_memory (pms_stages m ! 0)"
    "sts_consumerMemory (legacyMeasurement m) = sxe_memory (pms_stages m ! 1)"
  using assms by (auto simp: legacyMeasurement_def Let_def elim!: two_stages)

definition same_summary :: "stage_summary \<Rightarrow> planned_summary \<Rightarrow> bool" where
  "same_summary t s \<longleftrightarrow>
    ssu_sampleCount t = psu_sampleCount s \<and>
    ssu_producerWallMicros t = pst_wallMicros (psu_stages s ! 0) \<and>
    ssu_producerComputeMicros t = pst_computeMicros (psu_stages s ! 0) \<and>
    ssu_producerOverheadMicros t = pst_overheadMicros (psu_stages s ! 0) \<and>
    ssu_boundarySerializationMicros t = pst_requestSerializationMicros (psu_stages s ! 1) \<and>
    ssu_consumerResponseSerializationMicros t = pst_responseSerializationMicros (psu_stages s ! 1) \<and>
    ssu_consumerRoundTripMicros t = pst_wallMicros (psu_stages s ! 1) \<and>
    ssu_consumerComputeMicros t = pst_computeMicros (psu_stages s ! 1) \<and>
    ssu_transportOverheadMicros t = pst_overheadMicros (psu_stages s ! 1) \<and>
    ssu_boundaryTensorBytes t = pst_inputTensorBytes (psu_stages s ! 1) \<and>
    ssu_boundaryWireBytes t = pst_inputWireBytes (psu_stages s ! 1) \<and>
    ssu_consumerResponseTensorBytes t = pst_responseTensorBytes (psu_stages s ! 1) \<and>
    ssu_consumerResponseWireBytes t = pst_responseWireBytes (psu_stages s ! 1) \<and>
    ssu_maxProducerKVCacheBytes t = pst_maxKVCacheBytes (psu_stages s ! 0) \<and>
    ssu_maxConsumerKVCacheBytes t = pst_maxKVCacheBytes (psu_stages s ! 1) \<and>
    ssu_distributedEndToEndMicros t = psu_distributedEndToEndMicros s \<and>
    ssu_samplingMicros t = psu_samplingMicros s \<and>
    ssu_tokenLatencyMicros t = psu_tokenLatencyMicros s \<and>
    ssu_referenceWallMicros t = psu_referenceWallMicros s \<and>
    ssu_referenceComputeMicros t = psu_referenceComputeMicros s \<and>
    ssu_referenceSamplingMicros t = psu_referenceSamplingMicros s \<and>
    ssu_referenceTokenLatencyMicros t = psu_referenceTokenLatencyMicros s \<and>
    ssu_tokensPerSecond t = psu_tokensPerSecond s \<and>
    ssu_referenceTokensPerSecond t = psu_referenceTokensPerSecond s \<and>
    ssu_maxReferenceKVCacheBytes t = psu_maxReferenceKVCacheBytes s \<and>
    ssu_producerPeakMemoryBytes t = mem_peakBytes (pst_memoryHighWater (psu_stages s ! 0)) \<and>
    ssu_consumerPeakMemoryBytes t = mem_peakBytes (pst_memoryHighWater (psu_stages s ! 1)) \<and>
    ssu_referencePeakMemoryBytes t = mem_peakBytes (psu_referenceMemoryHighWater s)"

section \<open>A measurement\<close>

definition demo_execution :: "nat \<Rightarrow> measured_execution" where
  "demo_execution i =
     \<lparr>sxe_index = i, sxe_stage = ep_stages demo_plan ! i, sxe_operation = ''decode'', sxe_position = 3,
      sxe_inputKind = ''hidden'', sxe_inputTensorBytes = 8, sxe_responseTensorBytes = 8, sxe_wallMicros = 20,
      sxe_computeMicros = 15, sxe_overheadMicros = 5, sxe_kvCacheBytes = 64, sxe_memory = emptyMemory,
      sxe_terminalSampling = (i = 1), sxe_result = None, mex_inputWireBytes = 30, mex_requestSerializationMicros = 1,
      mex_responseWireBytes = 30, mex_responseSerializationMicros = 1\<rparr>"

definition demo_measurement :: planned_measurement where
  "demo_measurement =
     \<lparr>pms_operation = ''decode'', pms_position = 3, pms_inputTokenCount = 1,
      pms_stages = [demo_execution 0, demo_execution 1], pms_distributedEndToEndMicros = 41, pms_samplingMicros = 2,
      pms_tokenLatencyMicros = 43, pms_referenceWallMicros = 0, pms_referenceComputeMicros = 0,
      pms_referenceSamplingMicros = 0, pms_referenceTokenLatencyMicros = 0, pms_referenceKVCacheBytes = 0,
      pms_referenceMemory = emptyMemory\<rparr>"

lemma demo_measures: "measures_plan [ep_stages demo_plan ! 0, ep_stages demo_plan ! 1] demo_measurement"
  by (simp add: measures_plan_def demo_measurement_def demo_execution_def upt_rec)

section \<open>Properties\<close>

text \<open>
  C26: The two implementations of the nearest rank agree. For measurements that fit a signed
  integer, the distribution of a benchmark, whose ranks are products of \<open>float64\<close> numbers rounded
  up, has the count, the extremes and the percentiles of the summary that the evidence store computes
  in integers: the rounding of the constants and of the product never moves a rank.
\<close>

theorem benchmark_ranks_agree_with_store:
  assumes "length ws < 2 ^ 44" "\<forall>w \<in> set ws. w < 2 ^ 63"
  shows "\<exists>d. summarizeMicros (map sint ws) = Inr d \<and> int (dst_count d) = vd_count (summarizeValues ws) \<and>
    dst_minMicros d = uint (vd_min (summarizeValues ws)) \<and> dst_p50Micros d = uint (vd_p50 (summarizeValues ws)) \<and>
    dst_p95Micros d = uint (vd_p95 (summarizeValues ws)) \<and> dst_maxMicros d = uint (vd_max (summarizeValues ws))"
proof (cases "ws = []")
  case True
  then show ?thesis by (simp add: exactMicros_def emptyMicros_def summarizeValues_def emptyDistribution_def)
next
  case False
  have signed: "map sint ws = map uint ws" using assms(2) by (simp add: sint_small)
  have ranks: "rank p (length ws) < length ws" if "1 \<le> p" "p \<le> 100" for p
    using nearest_rank_index [of "length ws" p] that False by (simp add: rank_def)
  show ?thesis
    using assms(1) False ranks [of 50] ranks [of 95]
    by (simp add: signed exactMicros_def sort_map_uint summarizeValues_def nearestRank_rank Let_def)
qed

theorem benchmark_ranks_agree_with_store_witness:
  "\<exists>d. summarizeMicros (map sint [5, 3, 9 :: u64]) = Inr d \<and> dst_p95Micros d = uint (vd_p95 (summarizeValues [5, 3, 9]))"
  using benchmark_ranks_agree_with_store [of "[5, 3, 9]"] by auto

text \<open>
  The summary of a run exists exactly if all its samples went through the same stages in
  the same order. No rank is out of range then, and every stage of the summary has exactly the
  measurements of that stage, with the greatest cache any sample reported.
\<close>

theorem planned_summary_exact:
  assumes "samples \<noteq> []" "length samples < 2 ^ 44"
  shows "((\<exists>s. summarizePlanned samples = Inr s) \<longleftrightarrow>
      (\<exists>stages. stages \<noteq> [] \<and> (\<forall>m \<in> set samples. measures_plan stages m))) \<and>
    (\<forall>s. summarizePlanned samples = Inr s \<longrightarrow>
      length (psu_stages s) = length (pms_stages (hd samples)) \<and>
      (\<forall>i < length (psu_stages s).
        psu_stages s ! i = exactStage samples i (sxe_stage (pms_stages (hd samples) ! i))))"
proof -
  define stages where "stages = map sxe_stage (pms_stages (hd samples))"
  have hd: "hd samples \<in> set samples" using assms(1) by simp
  have "stages = stages'" if "\<forall>m \<in> set samples. measures_plan stages' m" for stages'
    using that hd by (auto simp: measures_plan_def stages_def)
  then have "(\<exists>stages'. stages' \<noteq> [] \<and> (\<forall>m \<in> set samples. measures_plan stages' m)) \<longleftrightarrow>
      stages \<noteq> [] \<and> (\<forall>m \<in> set samples. measures_plan stages m)" by metis
  then show ?thesis
    using summarizePlanned_Inr [OF assms] unfolding stages_def [symmetric] by (auto simp: stages_def)
qed

theorem planned_summary_exact_witness:
  "\<exists>s. summarizePlanned [demo_measurement, demo_measurement] = Inr s \<and> length (psu_stages s) = 2"
proof -
  have stages: "\<exists>stages. stages \<noteq> [] \<and> (\<forall>m \<in> set [demo_measurement, demo_measurement]. measures_plan stages m)"
    using demo_measures by auto
  note exact = planned_summary_exact [of "[demo_measurement, demo_measurement]"]
  from exact stages obtain s where "summarizePlanned [demo_measurement, demo_measurement] = Inr s" by auto
  with exact show ?thesis by (auto simp: demo_measurement_def)
qed

text \<open>
  C40: The earlier two-stage summary and the summary of a plan agree on two-stage runs, field
  by field: what the converted samples say of the producer, the boundary and the consumer,
  their times, sizes, caches and peaks of memory, is what the plan's summary says of its first
  and second stage, and both say the same of the whole and of the reference.
\<close>

theorem two_stage_summary_agrees:
  assumes "samples \<noteq> []" "length samples < 2 ^ 44" "\<forall>m \<in> set samples. measures_plan [a, b] m"
  shows "\<exists>t s. summarize (map legacyMeasurement samples) = Inr t \<and> summarizePlanned samples = Inr s \<and> same_summary t s"
proof -
  have "map sxe_stage (pms_stages (hd samples)) = [a, b]"
    using assms(1,3) by (simp add: measures_plan_def)
  then obtain s where s: "summarizePlanned samples = Inr s"
    using summarizePlanned_Inr [OF assms(1,2)] assms(3) by auto
  note exact = s [unfolded summarizePlanned_Inr [OF assms(1,2)]]
  have stages: "psu_stages s = [exactStage samples 0 a, exactStage samples 1 b]"
    using exact \<open>map sxe_stage (pms_stages (hd samples)) = [a, b]\<close> by (auto simp: upt_rec)
  have plan: "m \<in> set samples \<Longrightarrow> measures_plan [a, b] m" for m using assms(3) by blast
  note fields = legacyMeasurement_stages [of a b, OF plan]
  have maps: "map (\<lambda>m. f (legacyMeasurement m)) samples = map (\<lambda>m. g (pms_stages m ! i)) samples"
    if "\<And>m. measures_plan [a, b] m \<Longrightarrow> f (legacyMeasurement m) = g (pms_stages m ! i)"
    for f :: "stage_sample \<Rightarrow> int" and g :: "measured_execution \<Rightarrow> int" and i
    using that plan by simp
  obtain t where t: "summarize (map legacyMeasurement samples) = Inr t"
    using assms(2) by (simp add: summarize_def Let_def)
  have cached: "(\<lambda>m. f (legacyMeasurement m)) ` set samples = (\<lambda>m. g (pms_stages m ! i)) ` set samples"
    if "\<And>m. measures_plan [a, b] m \<Longrightarrow> f (legacyMeasurement m) = g (pms_stages m ! i)"
    for f :: "stage_sample \<Rightarrow> int" and g :: "measured_execution \<Rightarrow> int" and i
    using that plan by (simp cong: image_cong)
  note lists =
    maps [of sts_producerWallMicros sxe_wallMicros 0, OF legacyMeasurement_stages(1)]
    maps [of sts_producerOverheadMicros sxe_overheadMicros 0, OF legacyMeasurement_stages(3)]
    maps [of sts_boundarySerializationMicros mex_requestSerializationMicros 1, OF legacyMeasurement_stages(4)]
    maps [of sts_consumerResponseSerializationMicros mex_responseSerializationMicros 1, OF legacyMeasurement_stages(5)]
    maps [of sts_consumerRoundTripMicros sxe_wallMicros 1, OF legacyMeasurement_stages(6)]
    maps [of sts_transportOverheadMicros sxe_overheadMicros 1, OF legacyMeasurement_stages(8)]
    maps [of sts_boundaryWireBytes mex_inputWireBytes 1, OF legacyMeasurement_stages(10)]
    maps [of sts_consumerResponseWireBytes mex_responseWireBytes 1, OF legacyMeasurement_stages(12)]
    maps [of "\<lambda>x. sint (sts_producerComputeMicros x)" "\<lambda>x. sint (sxe_computeMicros x)" 0]
    maps [of "\<lambda>x. sint (sts_consumerComputeMicros x)" "\<lambda>x. sint (sxe_computeMicros x)" 1]
    maps [of "\<lambda>x. int (sts_boundaryTensorBytes x)" "\<lambda>x. int (sxe_inputTensorBytes x)" 1]
    maps [of "\<lambda>x. int (sts_consumerResponseTensorBytes x)" "\<lambda>x. int (sxe_responseTensorBytes x)" 1]
    cached [of sts_producerKVCacheBytes sxe_kvCacheBytes 0, OF legacyMeasurement_stages(13)]
    cached [of sts_consumerKVCacheBytes sxe_kvCacheBytes 1, OF legacyMeasurement_stages(14)]
    cached [of "\<lambda>x. mem_peakBytes (sts_producerMemory x)" "\<lambda>x. mem_peakBytes (sxe_memory x)" 0]
    cached [of "\<lambda>x. mem_peakBytes (sts_consumerMemory x)" "\<lambda>x. mem_peakBytes (sxe_memory x)" 1]
  have "same_summary t s"
    using t [symmetric] assms(2) unfolding same_summary_def stages unfolding exact [THEN conjunct2, THEN conjunct2]
    by (simp add: summarize_def Let_def exactStage_def stageMeasurements_def foldl_max throughput_def comp_def
        image_image lists legacyMeasurement_stages peak_of_merged emptyMemory_def)
  with t s show ?thesis by blast
qed

theorem two_stage_summary_agrees_witness:
  "\<exists>t s. summarize [legacyMeasurement demo_measurement] = Inr t \<and> summarizePlanned [demo_measurement] = Inr s \<and>
     ssu_consumerComputeMicros t = pst_computeMicros (psu_stages s ! 1)"
proof -
  obtain t s where "summarize (map legacyMeasurement [demo_measurement]) = Inr t" "summarizePlanned [demo_measurement] = Inr s"
    "same_summary t s"
    using two_stage_summary_agrees [of "[demo_measurement]" "ep_stages demo_plan ! 0" "ep_stages demo_plan ! 1"] demo_measures
    by (simp del: One_nat_def) blast
  then show ?thesis by (auto simp: same_summary_def)
qed

end
