(* ===== verification/Evidence.thy ===== *)
theory Evidence
  imports Benchmark Decoding
begin

text \<open>
  What becomes of the measurements of a generation: every sample a session hands to its
  observer is a whole traversal of its plan, so the evidence store takes it
  (\<open>placement/profile_generation.go\<close>) and the benchmark can summarise it. The theory relates the
  two ends; it models no code of its own.
\<close>

section \<open>Samples of a session\<close>

definition fits :: "bound_target list \<Rightarrow> Generation.planned_stage_sample \<Rightarrow> bool" where
  "fits targets sample \<longleftrightarrow>
     ssm_operation sample \<in> {''prefill'', ''decode''} \<and> 0 < ssm_inputTokenCount sample \<and>
     map sxe_index (ssm_stages sample) = [0..<length targets] \<and>
     map sxe_stage (ssm_stages sample) = map bnd_stage targets \<and>
     (\<forall>e \<in> set (ssm_stages sample). sxe_operation e = ssm_operation sample)"

definition all_fit :: "planned_session \<Rightarrow> run_state \<Rightarrow> bool" where
  "all_fit s st \<longleftrightarrow> (\<forall>x \<in> set (run_samples st) \<union> set_option (run_pending st). fits (pls_targets s) x)"

lemma all_fit_updates [simp]:
  "all_fit s (st\<lparr>run_result := r\<rparr>) = all_fit s st"
  "all_fit s (st\<lparr>run_point := p\<rparr>) = all_fit s st"
  "all_fit s (st\<lparr>run_position := n\<rparr>) = all_fit s st"
  "all_fit s (st\<lparr>run_terminal := t\<rparr>) = all_fit s st"
  "all_fit s (st\<lparr>run_referenceLogits := l\<rparr>) = all_fit s st"
  "all_fit s (st\<lparr>run_observedLogits := o'\<rparr>) = all_fit s st"
  "all_fit s (confirmCleanup b st) = all_fit s st"
  by (simp_all add: all_fit_def confirmCleanup_def)

lemma all_fit_flush [simp]: "all_fit s (flushSample st) = all_fit s st"
  by (auto simp: all_fit_def flushSample_def split: option.splits)

lemma all_fit_observe [simp]: "all_fit s (observeLogits s' terminal st) = all_fit s st"
  by (simp add: observeLogits_def)

lemma chainLoop_operations:
  "chainLoop w timeout operation sequenceID position k inputKind input targets calls = (calls', exs, r) \<Longrightarrow>
   \<forall>e \<in> set exs. sxe_operation e = operation"
proof (induction targets arbitrary: k inputKind input calls exs)
  case (Cons t targets)
  then show ?case
    by (auto simp: Let_def newStageExecution_def split: prod.splits sum.splits if_splits)
qed simp

lemma traversal_fits:
  assumes "executeBoundStageChain w timeout targets operation sequenceID position input calls = (calls', exs, Inr r)"
    and "0 < n"
  shows "fits targets (newPlannedStageSample operation position n exs micros reference)"
proof -
  have operation: "operation \<in> {''prefill'', ''decode''}"
    "chainLoop w timeout operation sequenceID position 0 ''tokens'' input targets calls = (calls', exs, Inr r)"
    using assms(1) by (auto simp: executeBoundStageChain_def split: if_splits)
  have "map sxe_index exs = [0..<length targets]" "map sxe_stage exs = map bnd_stage targets"
    using executeBoundStageChain_Inr [OF assms(1)] by blast+
  then show ?thesis
    using operation(1) chainLoop_operations [OF operation(2)] assms(2)
    by (simp add: fits_def newPlannedStageSample_def comp_def)
qed

lemma traverse_fits:
  assumes "traverse w s operation position n input f g st calls = (calls', st', e)" "0 < n" "all_fit s st"
  shows "all_fit s st'"
proof -
  obtain l exs result where run: "executeBoundStageChain w (cfg_forwardTimeout (pls_config s)) (pls_targets s)
      operation (pgr_sequenceID (run_result st)) position input calls = (l, exs, result)"
    by (metis prod_cases3)
  have pending: "all_fit s (st1\<lparr>run_pending := Some (newPlannedStageSample operation position n exs micros reference)\<rparr>)"
    if "result = Inr r" "all_fit s st1" for r micros reference st1
    using traversal_fits [OF run [unfolded that(1)] assms(2)] that(2) by (auto simp: all_fit_def)
  show ?thesis
    using assms(1,3) run pending
    by (auto simp: traverse_def afterTraversal_def Let_def split: sum.splits prod.splits if_splits option.splits)
qed

lemma verifyToken_fits: "verifyToken s' terminal token st = (st', e) \<Longrightarrow> all_fit s st' = all_fit s st"
  by (auto simp: verifyToken_def Let_def split: option.splits prod.splits sum.splits if_splits)

lemma sampleNext_fits: "sampleNext w s' request terminal st calls = (st', e) \<Longrightarrow> all_fit s st' = all_fit s st"
  by (auto simp: sampleNext_def acceptToken_def Let_def split: option.splits sum.splits prod.splits if_splits
      dest!: verifyToken_fits)

lemma decodeNext_fits: "decodeNext w s st calls = (calls', st', e) \<Longrightarrow> all_fit s st \<Longrightarrow> all_fit s st'"
  by (auto simp: decodeNext_def Let_def split: prod.splits option.splits dest: traverse_fits)

lemma iteration_fits:
  assumes "iteration w s request st calls = (calls', st', e)" "all_fit s st"
  shows "all_fit s st'"
proof -
  obtain st1 e1 where sample: "sampleNext w s request (run_terminal st) st calls = (st1, e1)" by fastforce
  have st1: "all_fit s st1" using sampleNext_fits [OF sample] assms(2) by simp
  show ?thesis
    using assms(1) sample st1 decodeNext_fits [of w s st1 calls]
    by (auto simp: iteration_def split: iteration_end.splits prod.splits option.splits)
qed

lemma decodeLoop_fits: "decodeLoop w s request st calls = (calls', st', e) \<Longrightarrow> all_fit s st \<Longrightarrow> all_fit s st'"
proof (induction w s request st calls rule: decodeLoop.induct)
  case (1 w s request st calls)
  obtain l st1 ending where step: "iteration w s request st calls = (l, st1, ending)" by (metis prod_cases3)
  have fits: "all_fit s st1" by (rule iteration_fits [OF step "1.prems"(2)])
  show ?case
    using "1.prems" fits step 1(1) [OF _ step [symmetric] refl]
    by (subst (asm) decodeLoop.simps) (auto split: iteration_end.splits if_splits)
qed

lemma runSequence_fits:
  assumes "runSequence w s request tokenized c st calls = (calls', st', e)" "txt_tokenIDs tokenized \<noteq> []" "all_fit s st"
  shows "all_fit s st'"
proof -
  obtain l st1 e1 where prefill: "traverse w s ''prefill'' 0 (length (txt_tokenIDs tokenized))
      (tokenTensor (txt_tokenIDs tokenized)) DistributedPrefillFailed ReferencePrefillFailed st calls = (l, st1, e1)"
    by (metis prod_cases3)
  have "all_fit s st1" by (rule traverse_fits [OF prefill]) (use assms(2,3) in auto)
  then show ?thesis
    using assms(1) prefill
    by (auto simp: runSequence_def Let_def split: option.splits prod.splits sum.splits dest!: decodeLoop_fits)
qed

lemma deferredCleanup_fits:
  "deferredCleanup w owned (calls, st, e) = (calls', st', e') \<Longrightarrow> all_fit s st' = all_fit s st"
  by (auto simp: deferredCleanup_def Let_def split: option.splits prod.splits if_splits)

lemma openAndRun_fits:
  assumes "openAndRun w s request tokenized c st calls = (calls', st', e)" "txt_tokenIDs tokenized \<noteq> []" "all_fit s st"
  shows "all_fit s st'"
proof -
  define st1 where "st1 = confirmCleanup False (st\<lparr>run_point := failurePoint ''open_sequences'' [] [] 0\<rparr>)"
  have st1: "all_fit s st1" "all_fit s (confirmCleanup True st1)" using assms(3) by (simp_all add: st1_def)
  obtain l sequences e1 where opened: "openSequences w (generationTargets s) [gnr_sequenceID request] calls = (l, sequences, e1)"
    by (metis prod_cases3)
  obtain l2 st2 e2 where ran: "runSequence w s request tokenized c st1 l = (l2, st2, e2)" by (metis prod_cases3)
  have "all_fit s st2" by (rule runSequence_fits [OF ran assms(2) st1(1)])
  then show ?thesis
    using assms(1) opened ran st1 unfolding openAndRun_def st1_def [symmetric]
    by (auto simp: Let_def split: option.splits if_splits dest!: deferredCleanup_fits)
qed

lemma generate_fits:
  assumes "generatePlanned w s request calls = (calls', Some st, err)" "x \<in> set (run_samples st)"
  shows "fits (pls_targets s) x"
proof -
  obtain sequenceID st1 e where run: "tokenizeAndRun w s (request\<lparr>gnr_sequenceID := sequenceID\<rparr>)
      (initialState s (request\<lparr>gnr_sequenceID := sequenceID\<rparr>)) calls = (calls', st1, e)"
    "deferredFailure st1 e = (st, err)"
    using assms(1) by (auto simp: generatePlanned_def Let_def split: option.splits if_splits prod.splits)
  have "all_fit s (initialState s q)" for q by (simp add: all_fit_def initialState_def)
  then have "all_fit s st1"
    using run(1) by (auto simp: tokenizeAndRun_def Let_def split: sum.splits prod.splits if_splits dest!: openAndRun_fits)
  then have "all_fit s st" using run(2) by (auto simp: deferredFailure_def Let_def split: option.splits)
  then show ?thesis using assms(2) by (simp add: all_fit_def)
qed

lemma session_samples_fit:
  assumes "newPlannedSession dg sha256 w plan targets reference config calls = (calls', Inr s)"
    and "generatePlanned w' s request before = (after, Some st, err)" "x \<in> set (run_samples st)"
  shows "ssm_operation x \<in> {''prefill'', ''decode''} \<and> 0 < ssm_inputTokenCount x \<and>
    map sxe_index (ssm_stages x) = [0..<length (ep_stages plan)] \<and> map sxe_stage (ssm_stages x) = ep_stages plan \<and>
    (\<forall>e \<in> set (ssm_stages x). sxe_operation e = ssm_operation x)"
proof -
  have targets: "map bnd_stage (pls_targets s) = ep_stages plan" using newPlannedSession_Inr [OF assms(1)] by blast
  then have "length (pls_targets s) = length (ep_stages plan)" by (metis length_map)
  then show ?thesis using generate_fits [OF assms(2,3)] targets by (simp add: fits_def)
qed

section \<open>Evidence\<close>

text \<open>The fields of a sample that the store reads.\<close>

definition evidenceOf :: "Generation.planned_stage_sample \<Rightarrow> Profile.planned_stage_sample" where
  "evidenceOf x =
     \<lparr>pss_operation = ssm_operation x, pss_position = ssm_position x, pss_inputTokenCount = int (ssm_inputTokenCount x),
      pss_stages = map (\<lambda>e. \<lparr>se_index = int (sxe_index e), se_stage = sxe_stage e, se_operation = sxe_operation e,
        se_position = sxe_position e, se_computeMicros = sxe_computeMicros e\<rparr>) (ssm_stages x)\<rparr>"

text \<open>The observation of a stage: its worker as the inventory knows it, and what it computed.\<close>

definition stageObservation ::
  "instant \<Rightarrow> inventory \<Rightarrow> execution_plan \<Rightarrow> Generation.planned_stage_sample \<Rightarrow> Stages.stage_execution \<Rightarrow> compute_observation" where
  "stageObservation now inventory plan x e =
     (let w = the (map_of (map (\<lambda>w. (wk_ID w, w)) (inv_workers inventory)) (es_targetID (sxe_stage e))) in
      \<lparr>co_workerID = es_targetID (sxe_stage e), co_workerInstanceID = wk_instanceID w,
       co_backend = cap_backend (wk_capabilities w), co_model = ep_model plan, co_operation = ssm_operation x,
       co_layerStart = es_layerStart (sxe_stage e), co_layerEnd = es_layerEnd (sxe_stage e),
       co_inputTokenCount = word_of_int (int (ssm_inputTokenCount x)), co_computeMicros = sxe_computeMicros e,
       co_observedAt = now\<rparr>)"

lemma indexWorkers_distinct:
  "distinct (map wk_ID ws) \<Longrightarrow> (\<forall>w \<in> set ws. map_of seen (wk_ID w) = None) \<Longrightarrow>
   \<exists>r. indexWorkers seen ws = Inr r \<and> map_of r = map_of seen ++ map_of (map (\<lambda>w. (wk_ID w, w)) ws)"
proof (induction seen ws rule: indexWorkers.induct)
  case (2 seen w ws)
  have fresh: "\<forall>v \<in> set ws. map_of ((wk_ID w, w) # seen) (wk_ID v) = None"
    using "2.prems" by (simp add: image_iff) metis
  have "\<exists>r. indexWorkers ((wk_ID w, w) # seen) ws = Inr r \<and>
      map_of r = map_of ((wk_ID w, w) # seen) ++ map_of (map (\<lambda>w. (wk_ID w, w)) ws)"
    by (rule "2.IH" [OF _ _ fresh]) (use "2.prems" in auto)
  moreover have "map_of ((wk_ID w, w) # seen) ++ map_of (map (\<lambda>w. (wk_ID w, w)) ws) =
      map_of seen ++ map_of (map (\<lambda>w. (wk_ID w, w)) (w # ws))"
  proof
    fix i
    have "map_of (map (\<lambda>w. (wk_ID w, w)) ws) (wk_ID w) = None"
      using "2.prems"(1) by (auto simp: map_of_eq_None_iff)
    then show "(map_of ((wk_ID w, w) # seen) ++ map_of (map (\<lambda>w. (wk_ID w, w)) ws)) i =
        (map_of seen ++ map_of (map (\<lambda>w. (wk_ID w, w)) (w # ws))) i"
      by (cases "i = wk_ID w") (auto simp: map_add_def split: option.splits)
  qed
  moreover have "indexWorkers seen (w # ws) = indexWorkers ((wk_ID w, w) # seen) ws" using "2.prems" by simp
  ultimately show ?case by metis
qed simp

lemma observe_fitting_sample:
  assumes plan: "validateExecutionPlan dg plan = Inr ()"
    and x: "ssm_operation x \<in> {''prefill'', ''decode''}" "0 < ssm_inputTokenCount x"
      "map sxe_index (ssm_stages x) = [0..<length (ep_stages plan)]" "map sxe_stage (ssm_stages x) = ep_stages plan"
      "\<forall>e \<in> set (ssm_stages x). sxe_operation e = ssm_operation x"
    and inventory: "inv_schemaVersion inventory = registrySchemaVersion" "distinct (map wk_ID (inv_workers inventory))"
      "ep_inventoryRevision plan = decimal_nat (unat (inv_revision inventory))"
      "es_targetID ` set (ep_stages plan) \<subseteq> wk_ID ` set (inv_workers inventory)"
    and now: "now \<noteq> 0" and computed: "\<forall>e \<in> set (ssm_stages x). sxe_computeMicros e \<noteq> 0"
  shows "observePlannedSample dg now inventory plan (evidenceOf x) store =
    observeComputeBatch now (map (stageObservation now inventory plan x) (ssm_stages x)) store"
proof -
  define byID where "byID = map_of (map (\<lambda>w. (wk_ID w, w)) (inv_workers inventory))"
  obtain r where r: "indexWorkers [] (inv_workers inventory) = Inr r" "map_of r = byID"
    using indexWorkers_distinct [OF inventory(2), of "[]"] by (auto simp: byID_def)
  have len: "length (ssm_stages x) = length (ep_stages plan)" using x(4) by (metis length_map)
  have stage: "sampleObservation now plan (evidenceOf x) r (i, pss_stages (evidenceOf x) ! i) =
      Inr (stageObservation now inventory plan x (ssm_stages x ! i))" if i: "i < length (ep_stages plan)" for i
  proof -
    let ?e = "ssm_stages x ! i"
    have e: "?e \<in> set (ssm_stages x)" "sxe_index ?e = i" "sxe_stage ?e = ep_stages plan ! i"
      using i len arg_cong [OF x(3), of "\<lambda>l. l ! i"] arg_cong [OF x(4), of "\<lambda>l. l ! i"] by simp_all
    have "es_targetID (ep_stages plan ! i) \<in> wk_ID ` set (inv_workers inventory)" using i inventory(4) by auto
    then have "byID (es_targetID (ep_stages plan ! i)) \<noteq> None"
      unfolding byID_def map_of_eq_None_iff by (simp add: image_image)
    then obtain w where "byID (es_targetID (ep_stages plan ! i)) = Some w" by blast
    then show ?thesis
      using e i len x(5) computed r(2)
      by (simp add: sampleObservation_def evidenceOf_def stageObservation_def Let_def byID_def [symmetric])
  qed
  have "collect (sampleObservation now plan (evidenceOf x) r) (indexed (pss_stages (evidenceOf x))) =
      Inr (map (stageObservation now inventory plan x) (ssm_stages x))"
    unfolding collect_Inr
  proof (rule list_all2_all_nthI)
    show "length (indexed (pss_stages (evidenceOf x))) = length (map (stageObservation now inventory plan x) (ssm_stages x))"
      by (simp add: evidenceOf_def)
    fix i
    assume "i < length (indexed (pss_stages (evidenceOf x)))"
    then have i: "i < length (ssm_stages x)" by (simp add: evidenceOf_def)
    then have "indexed (pss_stages (evidenceOf x)) ! i = (i, pss_stages (evidenceOf x) ! i)" by (simp add: evidenceOf_def)
    then show "sampleObservation now plan (evidenceOf x) r (indexed (pss_stages (evidenceOf x)) ! i) =
        Inr (map (stageObservation now inventory plan x) (ssm_stages x) ! i)"
      using stage [of i] i len by (simp only: nth_map)
  qed
  then show ?thesis
    using plan x(1,2) inventory now r(1) len by (auto simp: observePlannedSample_def evidenceOf_def)
qed

section \<open>A run on a pinned plan\<close>

definition pinned_plan :: execution_plan where
  "pinned_plan =
     (case buildExecutionPlan demo_digests demo_model ''7'' (ep_stages demo_plan) of Inr p \<Rightarrow> p | Inl e \<Rightarrow> demo_plan)"

lemma pinned_run:
  "case newPlannedSession demo_digests id demo_run_world pinned_plan demo_execution_targets None demo_config [] of
     (calls, Inr s) \<Rightarrow>
       (case generatePlanned demo_run_world s demo_request [] of
          (after, Some st, None) \<Rightarrow> length (run_samples st) = 3 \<and>
            (\<forall>x \<in> set (run_samples st). \<forall>e \<in> set (ssm_stages x). sxe_computeMicros e \<noteq> 0)
        | _ \<Rightarrow> False)
   | _ \<Rightarrow> False"
  by code_simp

lemma pinned_inventory:
  "inv_schemaVersion demo_inventory = registrySchemaVersion" "distinct (map wk_ID (inv_workers demo_inventory))"
  "ep_inventoryRevision pinned_plan = decimal_nat (unat (inv_revision demo_inventory))"
  "es_targetID ` set (ep_stages pinned_plan) \<subseteq> wk_ID ` set (inv_workers demo_inventory)"
  by code_simp+

lemma pinned_generation:
  obtains calls s after st where
    "newPlannedSession demo_digests id demo_run_world pinned_plan demo_execution_targets None demo_config [] = (calls, Inr s)"
    "generatePlanned demo_run_world s demo_request [] = (after, Some st, None)" "length (run_samples st) = 3"
    "\<forall>x \<in> set (run_samples st). \<forall>e \<in> set (ssm_stages x). sxe_computeMicros e \<noteq> 0"
proof -
  obtain calls r where n: "newPlannedSession demo_digests id demo_run_world pinned_plan demo_execution_targets None
      demo_config [] = (calls, r)" by fastforce
  then obtain s where r: "r = Inr s" using pinned_run by (cases r) auto
  obtain after a b where g: "generatePlanned demo_run_world s demo_request [] = (after, a, b)" by (metis prod_cases3)
  then obtain st where "a = Some st" "b = None" "length (run_samples st) = 3"
    "\<forall>x \<in> set (run_samples st). \<forall>e \<in> set (ssm_stages x). sxe_computeMicros e \<noteq> 0"
    using pinned_run n r by (cases a; cases b) auto
  with n r g that show thesis by blast
qed

text \<open>Measurements of a sample, with nothing on the wire.\<close>

definition measurementOf :: "Generation.planned_stage_sample \<Rightarrow> planned_measurement" where
  "measurementOf x = demo_measurement
     \<lparr>pms_stages := map (\<lambda>e. Stages.stage_execution.extend e (measured_execution.fields 0 0 0 0)) (ssm_stages x)\<rparr>"

lemma measurementOf_truncate: "map Stages.stage_execution.truncate (pms_stages (measurementOf x)) = ssm_stages x"
  by (simp add: measurementOf_def stage_execution.defs measured_execution.defs comp_def) (rule map_idI, simp)

section \<open>Properties\<close>

text \<open>
  C20: A session's samples are evidence. On a plan pinned to the revision of the inventory, whose
  workers the inventory lists and which report the time they computed, the store finds nothing
  inconsistent in any sample the observer of a generation is given, failed generations included: it takes
  one observation per stage, for the worker, the layers and the time of that stage.
\<close>

theorem session_samples_become_evidence:
  assumes "newPlannedSession dg sha256 w plan targets reference config calls = (calls', Inr s)"
    and "generatePlanned w' s request before = (after, Some st, err)" "x \<in> set (run_samples st)"
    and "inv_schemaVersion inventory = registrySchemaVersion" "distinct (map wk_ID (inv_workers inventory))"
    and "ep_inventoryRevision plan = decimal_nat (unat (inv_revision inventory))"
    and "es_targetID ` set (ep_stages plan) \<subseteq> wk_ID ` set (inv_workers inventory)"
    and "now \<noteq> 0" "\<forall>e \<in> set (ssm_stages x). sxe_computeMicros e \<noteq> 0"
  shows "observePlannedSample dg now inventory plan (evidenceOf x) store =
    observeComputeBatch now (map (stageObservation now inventory plan x) (ssm_stages x)) store"
  using session_samples_fit [OF assms(1-3)] newPlannedSession_Inr [OF assms(1)] assms(4-9)
  by (intro observe_fitting_sample) auto

theorem session_samples_become_evidence_witness:
  "\<exists>s st x. snd (newPlannedSession demo_digests id demo_run_world pinned_plan demo_execution_targets None demo_config []) = Inr s \<and>
     fst (snd (generatePlanned demo_run_world s demo_request [])) = Some st \<and> x \<in> set (run_samples st) \<and> length (ssm_stages x) = 2 \<and>
     (\<forall>store. observePlannedSample demo_digests 3000 demo_inventory pinned_plan (evidenceOf x) store =
       observeComputeBatch 3000 (map (stageObservation 3000 demo_inventory pinned_plan x) (ssm_stages x)) store)"
proof -
  obtain calls s after st where run:
    "newPlannedSession demo_digests id demo_run_world pinned_plan demo_execution_targets None demo_config [] = (calls, Inr s)"
    "generatePlanned demo_run_world s demo_request [] = (after, Some st, None)" "length (run_samples st) = 3"
    "\<forall>x \<in> set (run_samples st). \<forall>e \<in> set (ssm_stages x). sxe_computeMicros e \<noteq> 0"
    by (rule pinned_generation)
  then obtain x where x: "x \<in> set (run_samples st)" by (cases "run_samples st") auto
  have "length (ep_stages pinned_plan) = 2" by code_simp
  then have "length (ssm_stages x) = 2" using session_samples_fit [OF run(1,2) x] by (metis length_map)
  moreover have "observePlannedSample demo_digests 3000 demo_inventory pinned_plan (evidenceOf x) store =
       observeComputeBatch 3000 (map (stageObservation 3000 demo_inventory pinned_plan x) (ssm_stages x)) store" for store
    by (rule session_samples_become_evidence [OF run(1,2) x pinned_inventory]) (use run(4) x in auto)
  ultimately show ?thesis using run(1,2) x by (intro exI [of _ s] exI [of _ st] exI [of _ x]) simp
qed

text \<open>
  C39: The measurements of a generation can always be summarised: whatever timings and sizes the
  samples carry, the summary of their run exists, and its stages are those of the plan, in
  order.
\<close>

theorem session_runs_summarise:
  assumes "newPlannedSession dg sha256 w plan targets reference config calls = (calls', Inr s)"
    and "generatePlanned w' s request before = (after, Some st, err)" "run_samples st \<noteq> []" "length ms < 2 ^ 44"
    and "list_all2 (\<lambda>m x. map Stages.stage_execution.truncate (pms_stages m) = ssm_stages x) ms (run_samples st)"
  shows "\<exists>summary. summarizePlanned ms = Inr summary \<and> map pst_stage (psu_stages summary) = ep_stages plan"
proof -
  have ms: "ms \<noteq> []" using assms(3,5) by auto
  have measures: "measures_plan (ep_stages plan) m" if m: "m \<in> set ms" for m
  proof -
    obtain i where i: "i < length ms" "m = ms ! i" using m by (auto simp: in_set_conv_nth)
    define x where "x = run_samples st ! i"
    have x: "x \<in> set (run_samples st)" "map Stages.stage_execution.truncate (pms_stages m) = ssm_stages x"
      using list_all2_nthD [OF assms(5) i(1)] list_all2_lengthD [OF assms(5)] i by (simp_all add: x_def)
    have "map sxe_index (ssm_stages x) = map sxe_index (pms_stages m)" "map sxe_stage (ssm_stages x) = map sxe_stage (pms_stages m)"
      by (simp_all flip: x(2) add: comp_def stage_execution.defs)
    then show ?thesis using session_samples_fit [OF assms(1,2) x(1)] by (simp add: measures_plan_def)
  qed
  have ne: "ep_stages plan \<noteq> []" using newPlannedSession_Inr [OF assms(1)] validate_nonempty by blast
  have hd: "map sxe_stage (pms_stages (hd ms)) = ep_stages plan" using measures [OF hd_in_set [OF ms]] by (simp add: measures_plan_def)
  then have "length (pms_stages (hd ms)) = length (ep_stages plan)" by (metis length_map)
  then show ?thesis
    using summarizePlanned_Inr [OF ms assms(4)] measures ne hd
    by (auto simp: exactStage_def comp_def case_prod_beta)
qed

theorem session_runs_summarise_witness:
  "\<exists>ms summary. length ms = 3 \<and> summarizePlanned ms = Inr summary \<and>
     map pst_stage (psu_stages summary) = ep_stages pinned_plan"
proof -
  obtain calls s after st where run:
    "newPlannedSession demo_digests id demo_run_world pinned_plan demo_execution_targets None demo_config [] = (calls, Inr s)"
    "generatePlanned demo_run_world s demo_request [] = (after, Some st, None)" "length (run_samples st) = 3"
    by (rule pinned_generation)
  have "run_samples st \<noteq> []" using run(3) by auto
  moreover have "list_all2 (\<lambda>m x. map Stages.stage_execution.truncate (pms_stages m) = ssm_stages x)
      (map measurementOf (run_samples st)) (run_samples st)"
    by (simp add: list_all2_conv_all_nth measurementOf_truncate)
  ultimately show ?thesis
    using session_runs_summarise [OF run(1,2), of "map measurementOf (run_samples st)"] run(3)
    by (intro exI [of _ "map measurementOf (run_samples st)"]) simp
qed

end
