(* ===== verification/Spec2Isabelle.thy ===== *)
theory Spec2Isabelle
  imports Prelude Execution_Plan Registry Eligibility Arithmetic Profile Scoring Planner Scheduler Mesh
    Tensor Worker Sequences Stages Generation Decoding Session Supervisor Client
    Daemon Membership Layout Benchmark Evidence
begin

text \<open>
  A model of mlx-swarm, a Go program that serves one large language model by splitting its
  layers over several worker machines.

  \<^bold>\<open>The program.\<close> Workers register with a leased inventory and renew their lease by
  heartbeats that carry their status. Finished work is reported to an evidence store, which
  keeps a rolling window of link and compute measurements. To serve a sequence, the mesh
  scheduler takes a snapshot of the inventory and one of the evidence at the same time, and
  asks the planner for the best execution plan: a division of the model's layers into
  stages, each on its own worker. The planner searches over layer ranges, with the
  eligibility rules deciding which workers may take a range and the scoring estimating what
  a plan costs. The scheduler then reserves slots and memory on the chosen workers, so that
  preparations that run at the same time do not overcommit a worker, has the session started
  on them, and gives the reservation back when the sequence has ended. A session checks
  that every worker has the same checkpoint, loads the shards, opens one sequence per stage,
  and generates greedily: it sends the tokens to the first stage and each stage's output to
  the next, takes the token the last stage sampled, compares it with a reference if there is
  one, and closes every sequence in the end, on every path. Workers are reached through a
  supervised process or through a daemon over HTTP.

  \<^bold>\<open>Theories and sources\<close> (under \<open>src/internal/\<close>, commands under \<open>src/\<close>).

  \<^item> \<open>Prelude\<close>: results of fallible functions, \<open>uint64\<close> words, instants and durations,
    comparison functions and sorting (locale \<open>comparison\<close>), decimal numbers, white space.
  \<^item> \<open>Execution_Plan\<close> (\<open>generation/execution_plan.go\<close>): plans, their validation, construction
    and identities. \<open>validateExecutionPlan\<close> is proved equal to a declarative specification.
  \<^item> \<open>Registry\<close> (\<open>registry/types.go\<close>, \<open>registry/registry.go\<close>): registration, heartbeat,
    removal, snapshot and expiry as functions of the clock and the inventory; an invariant
    over all sequences of operations, the one check a stale renewal can break, and what a
    lease protects.
  \<^item> \<open>Eligibility\<close> (\<open>placement/eligibility.go\<close>): the constraints a worker meets or is
    rejected for, proved equal to their reading over unbounded numbers.
  \<^item> \<open>Arithmetic\<close>: the checked 64-bit arithmetic of \<open>placement/scoring.go\<close> and
    \<open>placement/profile.go\<close>.
  \<^item> \<open>Profile\<close> (\<open>placement/profile.go\<close>, \<open>placement/profile_generation.go\<close>): the evidence
    store, its bounds, its freshness window and its summaries.
  \<^item> \<open>Scoring\<close> (\<open>placement/scoring.go\<close>): eligibility and cost of a given plan, the
    preference between evaluations, and exactly which snapshots of the store it accepts.
  \<^item> \<open>Planner\<close> (\<open>placement/planner.go\<close>): the dynamic program over layer ranges, its soundness,
    optimality, and its work against its budget (locale \<open>best_table\<close>).
  \<^item> \<open>Scheduler\<close> (\<open>mesh/scheduler.go\<close>): preparation, admission, reconciliation, observation,
    release, single use; the ledger read as a multiset of claims (locale \<open>entrywise\<close>).
  \<^item> \<open>Mesh\<close>: the scheduler's concurrent use as a step relation, with an invariant over all
    reachable states and its refinement of a ledger of whole reservations, each of a valid
    plan, which the slots and worker ledgers represent (locale \<open>claim_ledger\<close>).
  \<^item> \<open>Tensor\<close> (\<open>tensorcheck/logits.go\<close>, the token tensors and token choice of
    \<open>generation/execution_runtime.go\<close> and \<open>generation/logits.go\<close>): wire tensors, IEEE numbers,
    the greedy token and the comparison of logits.
  \<^item> \<open>Worker\<close> (the frames of \<open>workerproc/persistent.go\<close>, \<open>workerproc/deadline.go\<close>,
    \<open>workerproc/state.go\<close>): requests, responses, deadlines, and the actions in which all
    code that calls workers is written, with the logic \<open>emits\<close> of what an action sends.
  \<^item> \<open>Sequences\<close> (\<open>workerproc/sequence.go\<close>): opening a sequence on several workers and
    closing or retaining whatever may be open.
  \<^item> \<open>Stages\<close> (\<open>generation/execution_runtime.go\<close>): binding targets to stages, the checks of
    metadata and shards, loading, and one traversal of the chain of stages.
  \<^item> \<open>Generation\<close> (\<open>generation/planned_session.go\<close>, parts of \<open>generation/generation.go\<close>):
    sessions, the decode loop, verification, cleanup and failure reports.
  \<^item> \<open>Decoding\<close>: what generation means. Against workers that compute a function, the
    distributed run, with a reference or without one, is the greedy decoding of the composed
    function; and a confirmed cleanup comes after every open.
  \<^item> \<open>Session\<close> (\<open>generation/generation.go\<close>, \<open>generation/reference.go\<close>): the two-stage interface
    kept for older callers, and the verification of a recorded trace against a reference.
  \<^item> \<open>Supervisor\<close> (\<open>workerproc/supervisor.go\<close>): calls over a process that is replaced when it
    fails, retries, the numbering of responses; a step relation.
  \<^item> \<open>Client\<close> (\<open>workerproc/persistent.go\<close>, \<open>workerproc/persistent_http.go\<close>,
    \<open>workerproc/target.go\<close>): the table of pending requests as a step relation, the tail of the
    standard error, the HTTP client, targets.
  \<^item> \<open>Daemon\<close> (\<open>cmd/swarmd/main.go\<close>): the endpoint that checks whom a request is meant for and
    forwards it; what client, daemon and supervisor promise together (locale
    \<open>persistent_caller\<close>, the contract each of the three layers keeps).
  \<^item> \<open>Membership\<close> (\<open>cmd/swarmd/membership.go\<close>, \<open>registry/http.go\<close>): the agent that reports a
    worker's state and keeps its lease, composed with \<open>Registry\<close> over a network with losses.
  \<^item> \<open>Layout\<close> (\<open>scaleproof/plan.go\<close>, checks of \<open>scaleproof/run.go\<close>): the division of layers that
    spares the first and the last stage, and why no division has a smaller largest stage.
  \<^item> \<open>Benchmark\<close> (\<open>benchmark/summary.go\<close>, \<open>benchmark/planned_summary.go\<close>): summaries of a run; its
    floating-point ranks are those of \<open>Profile\<close> for fewer than \<open>2 ^ 44\<close> values.
  \<^item> \<open>Evidence\<close>: the samples of \<open>Generation\<close> composed with the two that consume them.

  \<^bold>\<open>Correspondence.\<close> Structs are records whose field prefixes name the struct. A function
  that returns an error returns \<open>Inl\<close> of a datatype with one constructor per error, whose
  arguments are what the message formats, or \<open>Inr\<close> of the result. \<open>uint64\<close> is \<open>64 word\<close>;
  \<open>int\<close> is unbounded, with \<open>wrap_int\<close> where the source adds unbounded inputs. Go maps are
  association lists or partial functions, where the order of iteration is shown or seen not
  to matter. A method that runs under a mutex is one step from a state to a state, and the
  clock reading it takes is an argument. Loops are structural recursion over the slice they
  range over; the planner's rounds recurse over the stages that remain, the scheduler's
  snapshots over its four attempts, and the decode loop over the tokens that remain to the
  limit, with a termination proof. The one loop with no bound in the code, the search for a
  free request ID, is a partial function, and that it returns is a theorem. There is no fuel.

  Code that calls workers is an action: a function from the log of the calls made so far to
  the longer log and a result. A caller is a number. The workers, the clock, the random bytes
  and the end of the context are functions of the log (record \<open>world\<close>), so that a theorem
  about all worlds covers workers that fail, lie, or change their answers at any point.
  A \<open>float64\<close> is \<open>NaN\<close>, an infinity or an exact rational, with rounding to nearest even after
  every operation.

  \<^bold>\<open>Parameters.\<close> The hex SHA-256 of a JSON payload (\<open>digests\<close>), \<open>net/url\<close> and Unicode case
  mapping (\<open>url_library\<close>), the answers of workers, the clock, contexts and random bytes
  (\<open>world\<close>, \<open>supervisor_env\<close>), whether a caller resolves and whether a session starts, the
  replies of \<open>net/http\<close> and what the network loses, the environment variables,
  \<open>time.ParseDuration\<close>, and the messages of errors a daemon sends.

  \<^bold>\<open>Not modelled.\<close> The pipes, goroutines and signals of a worker process: of
  \<open>workerproc/persistent.go\<close> the frames, the pending table and the error tail are modelled, and
  the races of a write with a deadline are the environment's choice. The wall time of local
  computation and the size of an encoded frame in a sample are left out. HTTP routing, the JSON of
  bodies and their size limits, the remaining handlers, process start-up and the commands are
  input and output. Benchmark commands, proof and stress harnesses drive the program without being
  part of it, and the Swift worker is a program of its own.
\<close>

end
